(* ===== verification/Snmp_Prelude.thy ===== *)
theory Snmp_Prelude
  imports Main "HOL-Library.Word" "HOL-Library.List_Lexorder" "HOL-Library.Char_ord"
    "HOL-Library.Product_Lexorder" "HOL-Library.State_Monad"
begin

text \<open>
  Shared vocabulary of the development: the machine integers of the Rust sources, the
  \<^verbatim>\<open>Result\<close> type, the parts of the Rust standard library the sources use on slices and
  iterators (\<^verbatim>\<open>max_by_key\<close>, \<^verbatim>\<open>min_by_key\<close>, \<^verbatim>\<open>partition_point\<close>, \<^verbatim>\<open>binary_search_by\<close>),
  and the generic lemmas on them that the components share.
\<close>

section \<open>Machine integers\<close>

type_synonym u8 = "8 word"
type_synonym u16 = "16 word"
type_synonym u32 = "32 word"
type_synonym u64 = "64 word"
type_synonym i32 = "32 word"
type_synonym i64 = "64 word"

text \<open>
  A signed integer is a word read with \<^const>\<open>sint\<close>; \<open>max 0 v as usize\<close> of an \<^typ>\<open>i64\<close>
  (the GETBULK counters) is written out.
\<close>

definition i64_max0_usize :: "i64 \<Rightarrow> nat" where
  "i64_max0_usize v = nat (max 0 (sint v))"

section \<open>Results\<close>

datatype ('a, 'e) result = Ok 'a | Err 'e

primrec is_ok_result :: "('a, 'e) result \<Rightarrow> bool" where
  "is_ok_result (Ok x) = True"
| "is_ok_result (Err e) = False"

primrec bind_result :: "('a, 'e) result \<Rightarrow> ('a \<Rightarrow> ('b, 'e) result) \<Rightarrow> ('b, 'e) result" where
  "bind_result (Ok x) f = f x"
| "bind_result (Err e) f = Err e"

lemma bind_result_eq_Ok [simp]:
  "bind_result r f = Ok y \<longleftrightarrow> (\<exists>x. r = Ok x \<and> f x = Ok y)"
  by (cases r) auto

lemma is_ok_result_iff: "is_ok_result r \<longleftrightarrow> (\<exists>x. r = Ok x)"
  by (cases r) auto

end
