(* ===== verification/Rust_Slices.thy ===== *)
theory Rust_Slices
  imports Snmp_Prelude
begin

text \<open>
  The slice and iterator methods of the Rust standard library that the sources call:
  \<^verbatim>\<open>Iterator::max_by_key\<close> (the last maximum wins), \<^verbatim>\<open>Iterator::min_by_key\<close> (the first
  minimum wins), \<^verbatim>\<open>slice::binary_search_by\<close> and \<^verbatim>\<open>slice::partition_point\<close> (the halving
  loop of the library), each with the law that its callers rely on.
\<close>

section \<open>Extrema of an iterator\<close>

definition max_by_key :: "('a \<Rightarrow> 'k::linorder) \<Rightarrow> 'a list \<Rightarrow> 'a option" where
  "max_by_key f xs =
     (case xs of [] \<Rightarrow> None
      | y # ys \<Rightarrow> Some (foldl (\<lambda>m z. if f m \<le> f z then z else m) y ys))"

definition min_by_key :: "('a \<Rightarrow> 'k::linorder) \<Rightarrow> 'a list \<Rightarrow> 'a option" where
  "min_by_key f xs =
     (case xs of [] \<Rightarrow> None
      | y # ys \<Rightarrow> Some (foldl (\<lambda>m z. if f z < f m then z else m) y ys))"

lemma max_by_key_Nil [simp]: "max_by_key f [] = None"
  by (simp add: max_by_key_def)

lemma min_by_key_Nil [simp]: "min_by_key f [] = None"
  by (simp add: min_by_key_def)

lemma max_by_key_None [simp]: "max_by_key f xs = None \<longleftrightarrow> xs = []"
  by (cases xs) (simp_all add: max_by_key_def)

lemma min_by_key_None [simp]: "min_by_key f xs = None \<longleftrightarrow> xs = []"
  by (cases xs) (simp_all add: min_by_key_def)

lemma foldl_max_split:
  "\<exists>us ws. x # xs = us @ foldl (\<lambda>m z. if f m \<le> f z then z else m) x xs # ws \<and>
     (\<forall>u\<in>set us. f u \<le> f (foldl (\<lambda>m z. if f m \<le> f z then z else m) x xs)) \<and>
     (\<forall>w\<in>set ws. f w < f (foldl (\<lambda>m z. if f m \<le> f z then z else m) x xs))"
  for f :: "'a \<Rightarrow> 'k::linorder"
proof (induction xs rule: rev_induct)
  case Nil
  show ?case by (intro exI [of _ "[]"]) simp
next
  case (snoc z zs)
  let ?m = "foldl (\<lambda>m z. if f m \<le> f z then z else m) x zs"
  from snoc.IH obtain us ws where split: "x # zs = us @ ?m # ws"
    and us: "\<forall>u\<in>set us. f u \<le> f ?m" and ws: "\<forall>w\<in>set ws. f w < f ?m" by blast
  show ?case
  proof (cases "f ?m \<le> f z")
    case True
    have "\<forall>u\<in>set (us @ ?m # ws). f u \<le> f z" using us ws True by force
    then show ?thesis using True split
      by (intro exI [of _ "us @ ?m # ws"] exI [of _ "[]"]) simp
  next
    case False
    then show ?thesis using split us ws
      by (intro exI [of _ us] exI [of _ "ws @ [z]"]) auto
  qed
qed

lemma max_by_key_SomeE:
  assumes "max_by_key f xs = Some m"
  obtains us ws where "xs = us @ m # ws" "\<And>u. u \<in> set us \<Longrightarrow> f u \<le> f m"
    "\<And>w. w \<in> set ws \<Longrightarrow> f w < f m"
proof -
  obtain y ys where xs: "xs = y # ys"
    using assms by (cases xs) simp_all
  have m: "m = foldl (\<lambda>m z. if f m \<le> f z then z else m) y ys"
    using assms by (simp add: max_by_key_def xs)
  show thesis
    using foldl_max_split [of y ys f] that unfolding xs m by blast
qed

lemma max_by_key_in: "max_by_key f xs = Some m \<Longrightarrow> m \<in> set xs"
  by (auto elim: max_by_key_SomeE)

lemma max_by_key_ge: "max_by_key f xs = Some m \<Longrightarrow> y \<in> set xs \<Longrightarrow> f y \<le> f m"
  by (erule max_by_key_SomeE) (auto dest: less_imp_le)

lemma foldl_min_split:
  "\<exists>us ws. x # xs = us @ foldl (\<lambda>m z. if f z < f m then z else m) x xs # ws \<and>
     (\<forall>u\<in>set us. f (foldl (\<lambda>m z. if f z < f m then z else m) x xs) < f u) \<and>
     (\<forall>w\<in>set ws. f (foldl (\<lambda>m z. if f z < f m then z else m) x xs) \<le> f w)"
  for f :: "'a \<Rightarrow> 'k::linorder"
proof (induction xs rule: rev_induct)
  case Nil
  show ?case by (intro exI [of _ "[]"]) simp
next
  case (snoc z zs)
  let ?m = "foldl (\<lambda>m z. if f z < f m then z else m) x zs"
  from snoc.IH obtain us ws where split: "x # zs = us @ ?m # ws"
    and us: "\<forall>u\<in>set us. f ?m < f u" and ws: "\<forall>w\<in>set ws. f ?m \<le> f w" by blast
  show ?case
  proof (cases "f z < f ?m")
    case True
    have "\<forall>u\<in>set (us @ ?m # ws). f z < f u" using us ws True by force
    then show ?thesis using True split
      by (intro exI [of _ "us @ ?m # ws"] exI [of _ "[]"]) simp
  next
    case False
    then show ?thesis using split us ws
      by (intro exI [of _ us] exI [of _ "ws @ [z]"]) auto
  qed
qed

lemma min_by_key_SomeE:
  assumes "min_by_key f xs = Some m"
  obtains us ws where "xs = us @ m # ws" "\<And>u. u \<in> set us \<Longrightarrow> f m < f u"
    "\<And>w. w \<in> set ws \<Longrightarrow> f m \<le> f w"
proof -
  obtain y ys where xs: "xs = y # ys"
    using assms by (cases xs) simp_all
  have m: "m = foldl (\<lambda>m z. if f z < f m then z else m) y ys"
    using assms by (simp add: min_by_key_def xs)
  show thesis
    using foldl_min_split [of y ys f] that unfolding xs m by blast
qed

lemma min_by_key_in: "min_by_key f xs = Some m \<Longrightarrow> m \<in> set xs"
  by (auto elim: min_by_key_SomeE)

lemma min_by_key_le: "min_by_key f xs = Some m \<Longrightarrow> y \<in> set xs \<Longrightarrow> f m \<le> f y"
  by (erule min_by_key_SomeE) (auto dest: less_imp_le)

lemma min_by_key_splitI:
  assumes "xs = us @ m # ws" "\<forall>u\<in>set us. f m < f u" "\<forall>w\<in>set ws. f m \<le> f w"
  shows "min_by_key f xs = Some m"
proof -
  obtain m' where m': "min_by_key f xs = Some m'" using assms(1) by (cases "min_by_key f xs") auto
  then obtain us' ws' where s': "xs = us' @ m' # ws'" and us': "\<And>u. u \<in> set us' \<Longrightarrow> f m' < f u"
    and ws': "\<And>w. w \<in> set ws' \<Longrightarrow> f m' \<le> f w"
    by (erule min_by_key_SomeE)
  have "us @ m # ws = us' @ m' # ws'" using assms(1) s' by simp
  then have "m = m'"
    unfolding append_eq_append_conv2 append_eq_Cons_conv Cons_eq_append_conv
    using assms(2,3) us' ws' by (fastforce simp: not_le [symmetric])
  with m' show ?thesis by simp
qed

lemma min_by_key_filter:
  assumes "min_by_key f xs = Some m" "P m"
  shows "min_by_key f (filter P xs) = Some m"
proof -
  obtain us ws where s: "xs = us @ m # ws" and us: "\<And>u. u \<in> set us \<Longrightarrow> f m < f u"
    and ws: "\<And>w. w \<in> set ws \<Longrightarrow> f m \<le> f w"
    using assms(1) by (erule min_by_key_SomeE)
  show ?thesis
    by (rule min_by_key_splitI [of _ "filter P us" _ "filter P ws"]) (use s us ws assms(2) in auto)
qed

section \<open>Binary search\<close>

datatype ordering = Less | Equal | Greater

definition cmp :: "'k::linorder \<Rightarrow> 'k \<Rightarrow> ordering" where
  "cmp a b = (if a < b then Less else if a = b then Equal else Greater)"

lemma cmp_simps [simp]:
  "cmp a b = Less \<longleftrightarrow> a < b" "cmp a b = Equal \<longleftrightarrow> a = b" "cmp a b = Greater \<longleftrightarrow> b < a"
  by (auto simp: cmp_def)

text \<open>
  The library's loop: while more than one candidate is left, halve the interval and keep
  the half whose first element does not compare \<^const>\<open>Greater\<close>.
\<close>

function bs_loop :: "(nat \<Rightarrow> ordering) \<Rightarrow> nat \<Rightarrow> nat \<Rightarrow> nat" where
  "bs_loop f base len =
     (if len \<le> 1 then base
      else let half = len div 2; mid = base + half
           in bs_loop f (if f mid = Greater then base else mid) (len - half))"
  by pat_completeness auto
termination
  by (relation "measure (\<lambda>(f, base, len). len)") auto

declare bs_loop.simps [simp del]

definition binary_search_by :: "('a \<Rightarrow> ordering) \<Rightarrow> 'a list \<Rightarrow> (nat, nat) result" where
  "binary_search_by f xs =
     (if xs = [] then Err 0
      else let base = bs_loop (\<lambda>i. f (xs ! i)) 0 (length xs); c = f (xs ! base)
           in if c = Equal then Ok base
              else Err (base + (if c = Less then 1 else 0)))"

definition partition_point :: "('a \<Rightarrow> bool) \<Rightarrow> 'a list \<Rightarrow> nat" where
  "partition_point p xs =
     (case binary_search_by (\<lambda>x. if p x then Less else Greater) xs of Ok i \<Rightarrow> i | Err i \<Rightarrow> i)"

text \<open>
  When the candidates that do not compare \<^const>\<open>Greater\<close> are exactly those below \<open>k\<close>, the
  loop ends on the last of them (or on the first index when there is none).
\<close>

lemma bs_loop_last:
  assumes "\<And>i. base \<le> i \<Longrightarrow> i < base + len \<Longrightarrow> (f i \<noteq> Greater) = (i < k)"
    and "0 < len" and "base \<le> k" and "k \<le> base + len"
  shows "bs_loop f base len = max base (k - 1)"
  using assms
proof (induction f base len rule: bs_loop.induct)
  case (1 f base len)
  show ?case
  proof (cases "len \<le> 1")
    case True
    with "1.prems" show ?thesis by (simp add: bs_loop.simps [of f base len])
  next
    case False
    let ?half = "len div 2" and ?mid = "base + len div 2"
    from False have sz: "?half < len" "0 < ?half" by auto
    have mid: "(f ?mid \<noteq> Greater) = (?mid < k)"
      using "1.prems"(1) [of ?mid] sz by simp
    show ?thesis
    proof (cases "f ?mid = Greater")
      case True
      have "bs_loop f base (len - ?half) = max base (k - 1)"
        using "1.IH" [OF False refl refl] True "1.prems" mid sz by simp
      with True False show ?thesis
        by (simp add: bs_loop.simps [of f base len] Let_def)
    next
      case f: False
      have "bs_loop f ?mid (len - ?half) = max ?mid (k - 1)"
        using "1.IH" [OF False refl refl] f "1.prems" mid sz by simp
      moreover have "bs_loop f base len = bs_loop f ?mid (len - ?half)"
        using f False by (simp add: bs_loop.simps [of f base len] Let_def)
      ultimately show ?thesis using mid f by simp
    qed
  qed
qed

lemma sorted_wrt_prefix_filter:
  assumes "\<And>i j. i < j \<Longrightarrow> j < length xs \<Longrightarrow> p (xs ! j) \<Longrightarrow> p (xs ! i)" and "i < length xs"
  shows "p (xs ! i) \<longleftrightarrow> i < length (takeWhile p xs)"
proof
  assume p: "p (xs ! i)"
  show "i < length (takeWhile p xs)"
  proof (rule ccontr)
    assume n: "\<not> i < length (takeWhile p xs)"
    then have "length (takeWhile p xs) < length xs" using assms(2) by simp
    then have "\<not> p (xs ! length (takeWhile p xs))" by (rule nth_length_takeWhile)
    then show False
      using assms(1) [of "length (takeWhile p xs)" i] assms(2) p n
      by (cases "i = length (takeWhile p xs)") auto
  qed
next
  assume "i < length (takeWhile p xs)"
  then show "p (xs ! i)" by (metis nth_mem set_takeWhileD takeWhile_nth)
qed

text \<open>On a partitioned slice \<^const>\<open>partition_point\<close> is the length of the true prefix.\<close>

lemma partition_point_eq:
  assumes "\<And>i j. i < j \<Longrightarrow> j < length xs \<Longrightarrow> p (xs ! j) \<Longrightarrow> p (xs ! i)"
  shows "partition_point p xs = length (takeWhile p xs)"
proof (cases "xs = []")
  case True
  then show ?thesis by (simp add: partition_point_def binary_search_by_def)
next
  case False
  let ?k = "length (takeWhile p xs)" and ?f = "\<lambda>i. if p (xs ! i) then Less else Greater"
  have part: "i < length xs \<Longrightarrow> p (xs ! i) \<longleftrightarrow> i < ?k" for i
    by (rule sorted_wrt_prefix_filter [where p = p and xs = xs]) (rule assms)
  have "bs_loop ?f 0 (length xs) = ?k - 1"
    using False part bs_loop_last [of 0 "length xs" ?f ?k] length_takeWhile_le [of p xs] by simp
  moreover have "?k - 1 < length xs"
    using False length_takeWhile_le [of p xs] by (cases xs) auto
  ultimately show ?thesis
    using part [of "?k - 1"] False
    by (cases "?k = 0") (simp_all add: partition_point_def binary_search_by_def Let_def)
qed

text \<open>
  On a slice sorted by the key, \<^const>\<open>binary_search_by\<close> finds an element with the searched
  key exactly when there is one.
\<close>

lemma binary_search_by_cmp:
  assumes sorted: "sorted (map key xs)"
  shows "case binary_search_by (\<lambda>x. cmp (key x) k) xs of
           Ok i \<Rightarrow> i < length xs \<and> key (xs ! i) = k
         | Err i \<Rightarrow> k \<notin> key ` set xs"
proof (cases "xs = []")
  case True
  then show ?thesis by (simp add: binary_search_by_def)
next
  case False
  let ?p = "\<lambda>x. key x \<le> k"
  let ?m = "length (takeWhile ?p xs)" and ?f = "\<lambda>i. cmp (key (xs ! i)) k"
  have mono: "i \<le> j \<Longrightarrow> j < length xs \<Longrightarrow> key (xs ! i) \<le> key (xs ! j)" for i j
    using sorted sorted_nth_mono [of "map key xs" i j] by simp
  have part: "i < length xs \<Longrightarrow> ?p (xs ! i) \<longleftrightarrow> i < ?m" for i
    by (rule sorted_wrt_prefix_filter [where p = ?p and xs = xs])
      (use mono in \<open>meson less_imp_le order_trans\<close>)
  have base: "bs_loop ?f 0 (length xs) = ?m - 1"
    using False part bs_loop_last [of 0 "length xs" ?f ?m] length_takeWhile_le [of ?p xs]
    by (simp add: not_less)
  have lt: "?m - 1 < length xs"
    using False length_takeWhile_le [of ?p xs] by (cases xs) auto
  have "k \<notin> key ` set xs" if "key (xs ! (?m - 1)) \<noteq> k"
  proof
    assume "k \<in> key ` set xs"
    then obtain i where i: "i < length xs" "key (xs ! i) = k"
      by (auto simp: in_set_conv_nth)
    with part [of i] have "i \<le> ?m - 1" "0 < ?m" by auto
    with mono [OF _ lt, of i] part [of "?m - 1"] lt i that show False by auto
  qed
  with base lt False show ?thesis
    by (simp add: binary_search_by_def Let_def)
qed

end
