(* ===== verification/Rust_BTreeMap.thy ===== *)
theory Rust_BTreeMap
  imports Rust_Slices
begin

text \<open>
  \<^verbatim>\<open>std::collections::BTreeMap\<close> as the sorted sequence of its entries, with the operations
  the sources use, and the interface \<^verbatim>\<open>ordered_map\<close> their clients rely on.  A
  \<^verbatim>\<open>HashMap\<close> whose iteration order is only observed after sorting uses the same model.
\<close>

section \<open>Successors in a partial map\<close>

text \<open>
  What GETNEXT means: \<open>is_next m k r\<close> says that \<open>r\<close> is the entry of \<open>m\<close> with the least key
  strictly above \<open>k\<close>, or \<^const>\<open>None\<close> when no key lies above \<open>k\<close>.
\<close>

definition is_next :: "('k::linorder \<Rightarrow> 'v option) \<Rightarrow> 'k \<Rightarrow> ('k \<times> 'v) option \<Rightarrow> bool" where
  "is_next m k r \<longleftrightarrow>
     (case r of
        None \<Rightarrow> (\<forall>j\<in>dom m. j \<le> k)
      | Some (k', v) \<Rightarrow> m k' = Some v \<and> k < k' \<and> (\<forall>j\<in>dom m. k < j \<longrightarrow> k' \<le> j))"

lemma is_next_None [simp]: "is_next m k None \<longleftrightarrow> (\<forall>j\<in>dom m. j \<le> k)"
  by (simp add: is_next_def)

lemma is_next_Some [simp]:
  "is_next m k (Some (k', v)) \<longleftrightarrow> m k' = Some v \<and> k < k' \<and> (\<forall>j\<in>dom m. k < j \<longrightarrow> k' \<le> j)"
  by (simp add: is_next_def)

lemma is_next_unique: "is_next m k r \<Longrightarrow> is_next m k r' \<Longrightarrow> r = r'"
  by (auto simp: is_next_def dom_def split: option.splits prod.splits)
    (metis leD | metis order.antisym option.sel)+

lemma is_next_key_cong:
  fixes m m' :: "'k::linorder \<Rightarrow> 'v option"
  assumes "is_next m k r" and "is_next m' k r'" and "dom m = dom m'"
  shows "map_option fst r = map_option fst r'"
proof -
  have dom: "is_next (\<lambda>j. if j \<in> dom m then Some () else None) k (map_option (\<lambda>(a, b). (a, ())) r)"
    if "is_next m k r" for m :: "'k \<Rightarrow> 'v option" and r
    using that by (cases r) (auto simp: dom_def)
  have "map_option (\<lambda>(a, b). (a, ())) r = map_option (\<lambda>(a, b). (a, ())) r'"
    using dom [OF assms(1)] dom [OF assms(2)] assms(3) by (auto intro: is_next_unique)
  then show ?thesis by (cases r; cases r') auto
qed

section \<open>The entries of a sorted map\<close>

type_synonym ('k, 'v) btree_map = "('k \<times> 'v) list"

definition btm_wf :: "('k::linorder, 'v) btree_map \<Rightarrow> bool" where
  "btm_wf m = sorted_wrt (<) (map fst m)"

definition btm_get :: "('k, 'v) btree_map \<Rightarrow> 'k \<Rightarrow> 'v option" where
  "btm_get m k = map_of m k"

fun btm_insert :: "'k::linorder \<Rightarrow> 'v \<Rightarrow> ('k, 'v) btree_map \<Rightarrow> ('k, 'v) btree_map" where
  "btm_insert k v [] = [(k, v)]"
| "btm_insert k v ((a, b) # m) =
     (if k < a then (k, v) # (a, b) # m
      else if k = a then (k, v) # m
      else (a, b) # btm_insert k v m)"

definition btm_remove :: "'k \<Rightarrow> ('k, 'v) btree_map \<Rightarrow> ('k, 'v) btree_map" where
  "btm_remove k m = filter (\<lambda>(a, b). a \<noteq> k) m"

text \<open>The first entry of \<open>range((Excluded(k), Unbounded))\<close>.\<close>

definition btm_after :: "'k::linorder \<Rightarrow> ('k, 'v) btree_map \<Rightarrow> ('k \<times> 'v) option" where
  "btm_after k m = find (\<lambda>(a, b). k < a) m"

text \<open>\<open>get_mut\<close> followed by an assignment: the entry is replaced when the key is present.\<close>

definition btm_contains :: "('k, 'v) btree_map \<Rightarrow> 'k \<Rightarrow> bool" where
  "btm_contains m k = (k \<in> fst ` set m)"

lemma btm_wf_Nil [simp]: "btm_wf []"
  by (simp add: btm_wf_def)

lemma btm_wf_Cons [simp]: "btm_wf ((a, b) # m) \<longleftrightarrow> (\<forall>x\<in>fst ` set m. a < x) \<and> btm_wf m"
  by (auto simp: btm_wf_def)

lemma btm_get_Nil [simp]: "btm_get [] k = None"
  by (simp add: btm_get_def)

lemma btm_get_Cons [simp]: "btm_get ((a, b) # m) k = (if k = a then Some b else btm_get m k)"
  by (simp add: btm_get_def)

lemma btm_contains_get: "btm_contains m k \<longleftrightarrow> btm_get m k \<noteq> None"
  by (auto simp: btm_contains_def btm_get_def map_of_eq_None_iff)

lemma dom_btm_get: "dom (btm_get m) = fst ` set m"
  by (auto simp: set_eq_iff dom_def btm_contains_get [unfolded btm_contains_def])

lemma keys_btm_insert: "fst ` set (btm_insert k v m) = insert k (fst ` set m)"
  by (induction k v m rule: btm_insert.induct) auto

lemma btm_wf_insert: "btm_wf m \<Longrightarrow> btm_wf (btm_insert k v m)"
  by (induction k v m rule: btm_insert.induct) (auto simp: keys_btm_insert)

lemma btm_get_insert: "btm_get (btm_insert k v m) = (btm_get m)(k \<mapsto> v)"
  by (induction k v m rule: btm_insert.induct) (auto simp: fun_eq_iff)

lemma btm_wf_remove: "btm_wf m \<Longrightarrow> btm_wf (btm_remove k m)"
  by (induction m) (auto simp: btm_remove_def)

lemma btm_get_remove: "btm_get (btm_remove k m) = (btm_get m)(k := None)"
  by (induction m) (auto simp: btm_remove_def fun_eq_iff)

lemma btm_after_is_next: "btm_wf m \<Longrightarrow> is_next (btm_get m) k (btm_after k m)"
proof (induction m)
  case Nil
  then show ?case by (simp add: btm_after_def)
next
  case (Cons p m)
  obtain a b where p: "p = (a, b)" by (cases p)
  show ?case
  proof (cases "k < a")
    case True
    then have after: "btm_after k (p # m) = Some (a, b)" by (simp add: btm_after_def p)
    show ?thesis unfolding after using True Cons.prems
      unfolding is_next_Some dom_btm_get by (auto simp: p intro: less_imp_le)
  next
    case False
    then have after: "btm_after k (p # m) = btm_after k m" by (simp add: btm_after_def p)
    have "is_next (btm_get m) k (btm_after k m)" using Cons p by simp
    then show ?thesis using False Cons.prems unfolding after
      by (auto simp: p is_next_def dom_def dom_btm_get split: option.splits if_splits)
  qed
qed

text \<open>The first successor of a sorted list of cells is what \<open>partition_point\<close> finds.\<close>

lemma partition_point_next:
  assumes "sorted (map fst cells)"
  shows "(if partition_point (\<lambda>(a, b). a \<le> k) cells < length cells
          then Some (cells ! partition_point (\<lambda>(a, b). a \<le> k) cells) else None)
         = btm_after k cells"
proof -
  let ?p = "\<lambda>(a, b). a \<le> k"
  have mono: "i \<le> j \<Longrightarrow> j < length cells \<Longrightarrow> fst (cells ! i) \<le> fst (cells ! j)" for i j
    using assms sorted_nth_mono [of "map fst cells" i j] by simp
  have pp: "partition_point ?p cells = length (takeWhile ?p cells)"
  proof (rule partition_point_eq)
    fix i j assume "i < j" "j < length cells" "?p (cells ! j)"
    then show "?p (cells ! i)" using mono [of i j] by (auto simp: case_prod_beta)
  qed
  have "btm_after k cells = (if length (takeWhile ?p cells) < length cells
          then Some (cells ! length (takeWhile ?p cells)) else None)" for cells :: "('a \<times> 'b) list"
    by (induction cells) (auto simp: btm_after_def)
  then show ?thesis by (simp add: pp)
qed

section \<open>The interface\<close>

locale ordered_map =
  fixes empty :: "'m"
    and insert_entry :: "'k::linorder \<Rightarrow> 'v \<Rightarrow> 'm \<Rightarrow> 'm"
    and remove_entry :: "'k \<Rightarrow> 'm \<Rightarrow> 'm"
    and get_entry :: "'m \<Rightarrow> 'k \<Rightarrow> 'v option"
    and after_entry :: "'k \<Rightarrow> 'm \<Rightarrow> ('k \<times> 'v) option"
    and wf :: "'m \<Rightarrow> bool"
  assumes get_empty: "get_entry empty = (\<lambda>_. None)"
    and get_insert: "wf m \<Longrightarrow> get_entry (insert_entry k v m) = (get_entry m)(k \<mapsto> v)"
    and get_remove: "wf m \<Longrightarrow> get_entry (remove_entry k m) = (get_entry m)(k := None)"
    and after_next: "wf m \<Longrightarrow> is_next (get_entry m) k (after_entry k m)"
    and wf_empty: "wf empty"
    and wf_insert: "wf m \<Longrightarrow> wf (insert_entry k v m)"
    and wf_remove: "wf m \<Longrightarrow> wf (remove_entry k m)"
begin

lemmas specs = get_empty get_insert get_remove wf_empty wf_insert wf_remove

text \<open>Two maps with the same content have the same successors, whatever their layout.\<close>

lemma after_cong:
  "wf m \<Longrightarrow> wf m' \<Longrightarrow> get_entry m = get_entry m' \<Longrightarrow> after_entry k m = after_entry k m'"
  by (metis after_next is_next_unique)

text \<open>A freshly inserted key above \<open>j\<close> bounds the successor of \<open>j\<close> from above.\<close>

lemma after_insert_le:
  assumes "wf m" and "j < k"
  obtains k' v' where "after_entry j (insert_entry k v m) = Some (k', v')" "j < k'" "k' \<le> k"
proof -
  have "is_next ((get_entry m)(k \<mapsto> v)) j (after_entry j (insert_entry k v m))"
    using after_next [OF wf_insert [OF assms(1)], where k = j] by (simp add: get_insert assms(1))
  then show thesis using assms(2) that
    by (cases "after_entry j (insert_entry k v m)") auto
qed

text \<open>Overwriting a present key changes no key, so the successor key stays the same.\<close>

lemma after_overwrite:
  assumes "wf m" and "get_entry m k \<noteq> None"
  shows "map_option fst (after_entry j (insert_entry k v m)) = map_option fst (after_entry j m)"
proof -
  have "is_next ((get_entry m)(k \<mapsto> v)) j (after_entry j (insert_entry k v m))"
    using after_next [OF wf_insert [OF assms(1)], where k = j] by (simp add: get_insert assms(1))
  moreover have "dom ((get_entry m)(k \<mapsto> v)) = dom (get_entry m)" using assms(2) by auto
  ultimately show ?thesis using is_next_key_cong after_next [OF assms(1)] by blast
qed

text \<open>Walking with \<open>after_entry\<close> only ever visits present keys.\<close>

lemma after_present: "wf m \<Longrightarrow> after_entry j m = Some (k, v) \<Longrightarrow> get_entry m k = Some v \<and> j < k"
  using after_next [of m j] by simp

end

interpretation btm: ordered_map "[]" btm_insert btm_remove btm_get btm_after btm_wf
  by unfold_locales
    (simp_all add: btm_get_insert btm_get_remove btm_after_is_next btm_wf_insert btm_wf_remove fun_eq_iff)

end
