(* ===== verification/Rust_Strings.thy ===== *)
theory Rust_Strings
  imports Snmp_Prelude
begin

text \<open>
  Rust strings as the sequence of their UTF-8 bytes (a \<^typ>\<open>char\<close> is one byte), with the
  library functions the sources use: \<^verbatim>\<open>trim\<close>, \<^verbatim>\<open>split\<close>, ASCII case folding, decimal printing
  and \<^verbatim>\<open>parse\<close> of integers, \<^verbatim>\<open>as_bytes\<close>, \<^verbatim>\<open>str::from_utf8\<close> and \<^verbatim>\<open>String::from_utf8_lossy\<close>.
\<close>

section \<open>Bytes and characters\<close>

definition byte_of_char :: "char \<Rightarrow> u8" where
  "byte_of_char c = word_of_nat (of_char c)"

definition char_of_byte :: "u8 \<Rightarrow> char" where
  "char_of_byte b = char_of (unat b)"

definition as_bytes :: "string \<Rightarrow> u8 list" where
  "as_bytes s = map byte_of_char s"

definition str_of_bytes :: "u8 list \<Rightarrow> string" where
  "str_of_bytes bs = map char_of_byte bs"

lemma char_of_byte_of_char [simp]: "char_of_byte (byte_of_char c) = c"
proof -
  have "unat (word_of_nat (of_char c) :: u8) = of_char c"
    by (simp add: unat_of_nat take_bit_eq_mod)
  then show ?thesis by (simp add: char_of_byte_def byte_of_char_def)
qed

lemma byte_of_char_of_byte [simp]: "byte_of_char (char_of_byte b) = b"
proof -
  have "unat b < 256" using unsigned_less [of b, where 'a = nat] by simp
  then show ?thesis by (simp add: char_of_byte_def byte_of_char_def)
qed

lemma str_of_as_bytes [simp]: "str_of_bytes (as_bytes s) = s"
  by (induction s) (simp_all add: str_of_bytes_def as_bytes_def)

lemma as_str_of_bytes [simp]: "as_bytes (str_of_bytes bs) = bs"
  by (induction bs) (simp_all add: str_of_bytes_def as_bytes_def)

lemma length_as_bytes [simp]: "length (as_bytes s) = length s"
  by (simp add: as_bytes_def)

section \<open>UTF-8\<close>

text \<open>
  One step of the library's scanner at the front of a non-empty input: whether it starts
  with a well-formed scalar value, and how many bytes the scalar (or the maximal ill-formed
  prefix) takes.
\<close>

definition utf8_cont :: "u8 list \<Rightarrow> nat \<Rightarrow> bool" where
  "utf8_cont bs i = (i < length bs \<and> unat (bs ! i) div 64 = 2)"

definition utf8_second :: "nat \<Rightarrow> nat \<Rightarrow> bool" where
  "utf8_second b c =
     (if b = 0xE0 then 0xA0 \<le> c \<and> c \<le> 0xBF
      else if b = 0xED then 0x80 \<le> c \<and> c \<le> 0x9F
      else if b = 0xF0 then 0x90 \<le> c \<and> c \<le> 0xBF
      else if b = 0xF4 then 0x80 \<le> c \<and> c \<le> 0x8F
      else 0x80 \<le> c \<and> c \<le> 0xBF)"

definition utf8_scan :: "u8 list \<Rightarrow> bool \<times> nat" where
  "utf8_scan bs =
     (let b = unat (bs ! 0); c = (if 1 < length bs then unat (bs ! 1) else 0)
      in if b < 0x80 then (True, 1)
         else if 0xC2 \<le> b \<and> b \<le> 0xDF then (if utf8_cont bs 1 then (True, 2) else (False, 1))
         else if 0xE0 \<le> b \<and> b \<le> 0xEF then
           (if \<not> utf8_second b c then (False, 1)
            else if utf8_cont bs 2 then (True, 3) else (False, 2))
         else if 0xF0 \<le> b \<and> b \<le> 0xF4 then
           (if \<not> utf8_second b c then (False, 1)
            else if \<not> utf8_cont bs 2 then (False, 2)
            else if utf8_cont bs 3 then (True, 4) else (False, 3))
         else (False, 1))"

lemma utf8_scan_pos: "0 < snd (utf8_scan bs)"
  by (simp add: utf8_scan_def Let_def)

function valid_utf8 :: "u8 list \<Rightarrow> bool" where
  "valid_utf8 bs =
     (if bs = [] then True
      else fst (utf8_scan bs) \<and> valid_utf8 (drop (snd (utf8_scan bs)) bs))"
  by pat_completeness auto
termination
  by (relation "measure length") (simp_all add: utf8_scan_pos)

function from_utf8_lossy :: "u8 list \<Rightarrow> string" where
  "from_utf8_lossy bs =
     (if bs = [] then []
      else (if fst (utf8_scan bs) then str_of_bytes (take (snd (utf8_scan bs)) bs)
            else str_of_bytes [0xEF, 0xBF, 0xBD])
           @ from_utf8_lossy (drop (snd (utf8_scan bs)) bs))"
  by pat_completeness auto
termination
  by (relation "measure length") (simp_all add: utf8_scan_pos)

declare valid_utf8.simps [simp del] from_utf8_lossy.simps [simp del]

definition from_utf8 :: "u8 list \<Rightarrow> string option" where
  "from_utf8 bs = (if valid_utf8 bs then Some (str_of_bytes bs) else None)"

lemma from_utf8_lossy_valid: "valid_utf8 bs \<Longrightarrow> from_utf8_lossy bs = str_of_bytes bs"
proof (induction bs rule: valid_utf8.induct)
  case (1 bs)
  show ?case
  proof (cases "bs = []")
    case True
    then show ?thesis by (simp add: from_utf8_lossy.simps str_of_bytes_def)
  next
    case False
    let ?n = "snd (utf8_scan bs)"
    from False "1.prems" have "fst (utf8_scan bs)" and "valid_utf8 (drop ?n bs)"
      by (auto simp: valid_utf8.simps [of bs])
    moreover from False this have "from_utf8_lossy (drop ?n bs) = str_of_bytes (drop ?n bs)"
      using "1.IH" by blast
    moreover have "str_of_bytes (take ?n bs) @ str_of_bytes (drop ?n bs) = str_of_bytes bs"
      by (simp add: str_of_bytes_def map_append [symmetric] del: map_append)
    ultimately show ?thesis
      using False by (simp add: from_utf8_lossy.simps [of bs])
  qed
qed

text \<open>A Rust \<^verbatim>\<open>String\<close> always holds well-formed UTF-8.\<close>

definition valid_string :: "string \<Rightarrow> bool" where
  "valid_string s = valid_utf8 (as_bytes s)"

lemma from_utf8_lossy_as_bytes: "valid_string s \<Longrightarrow> from_utf8_lossy (as_bytes s) = s"
  by (simp add: valid_string_def from_utf8_lossy_valid)

section \<open>ASCII case and white space\<close>

definition lower_char :: "char \<Rightarrow> char" where
  "lower_char c = (if 65 \<le> (of_char c :: nat) \<and> (of_char c :: nat) \<le> 90
                   then char_of (of_char c + 32 :: nat) else c)"

definition to_ascii_lowercase :: "string \<Rightarrow> string" where
  "to_ascii_lowercase s = map lower_char s"

definition eq_ignore_ascii_case :: "string \<Rightarrow> string \<Rightarrow> bool" where
  "eq_ignore_ascii_case s t = (to_ascii_lowercase s = to_ascii_lowercase t)"

text \<open>The UTF-8 encodings of the code points with the Unicode property White\_Space.\<close>

definition white_space :: "string list" where
  "white_space =
     map (\<lambda>n. [char_of n]) [9, 10, 11, 12, 13, 32 :: nat]
     @ map (map char_of)
         ([[0xC2, 0x85], [0xC2, 0xA0], [0xE1, 0x9A, 0x80]]
          @ map (\<lambda>n. [0xE2, 0x80, n]) [0x80 ..< 0x8B]
          @ [[0xE2, 0x80, 0xA8], [0xE2, 0x80, 0xA9], [0xE2, 0x80, 0xAF],
             [0xE2, 0x81, 0x9F], [0xE3, 0x80, 0x80 :: nat]])"

definition starts_with :: "string \<Rightarrow> string \<Rightarrow> bool" where
  "starts_with s p = (take (length p) s = p)"

definition white_prefix :: "string \<Rightarrow> string option" where
  "white_prefix s = find (\<lambda>w. starts_with s w) white_space"

lemma white_space_nonempty: "w \<in> set white_space \<Longrightarrow> w \<noteq> []"
  by (auto simp: white_space_def)

lemma white_prefix_nonempty: "white_prefix s = Some w \<Longrightarrow> w \<noteq> [] \<and> starts_with s w"
  unfolding white_prefix_def using white_space_nonempty
  by (metis (no_types, lifting) find_Some_iff nth_mem)

function trim_start :: "string \<Rightarrow> string" where
  "trim_start s =
     (case white_prefix s of None \<Rightarrow> s | Some w \<Rightarrow> trim_start (drop (length w) s))"
  by pat_completeness auto
termination
proof (relation "measure length", goal_cases)
  case (2 s w)
  then have "w \<noteq> []" "starts_with s w" using white_prefix_nonempty by blast+
  then have "0 < length w" and "s \<noteq> []" by (auto simp: starts_with_def)
  then show ?case by simp
qed simp

declare trim_start.simps [simp del]

text \<open>\<open>trim_end\<close> looks for a white space scalar at the end of the string.\<close>

definition white_suffix :: "string \<Rightarrow> string option" where
  "white_suffix s = find (\<lambda>w. starts_with (rev s) (rev w)) white_space"

lemma white_suffix_nonempty: "white_suffix s = Some w \<Longrightarrow> w \<noteq> [] \<and> starts_with (rev s) (rev w)"
  unfolding white_suffix_def using white_space_nonempty
  by (metis (no_types, lifting) find_Some_iff nth_mem)

function trim_end :: "string \<Rightarrow> string" where
  "trim_end s =
     (case white_suffix s of None \<Rightarrow> s | Some w \<Rightarrow> trim_end (take (length s - length w) s))"
  by pat_completeness auto
termination
proof (relation "measure length", goal_cases)
  case (2 s w)
  then have "w \<noteq> []" "starts_with (rev s) (rev w)" using white_suffix_nonempty by blast+
  then have "0 < length w" and "s \<noteq> []" by (auto simp: starts_with_def)
  then show ?case by simp
qed simp

declare trim_end.simps [simp del]

definition trim :: "string \<Rightarrow> string" where
  "trim s = trim_end (trim_start s)"

definition is_graph_char :: "char \<Rightarrow> bool" where
  "is_graph_char c \<longleftrightarrow> 33 \<le> (of_char c :: nat) \<and> (of_char c :: nat) < 127"

lemma white_space_hd: "w \<in> set white_space \<Longrightarrow> \<not> is_graph_char (hd w)"
  by (auto simp: white_space_def is_graph_char_def)

lemma white_space_last: "w \<in> set white_space \<Longrightarrow> \<not> is_graph_char (last w)"
  by (auto simp: white_space_def is_graph_char_def)

lemma trim_start_graph: "s = [] \<or> is_graph_char (hd s) \<Longrightarrow> trim_start s = s"
proof -
  assume s: "s = [] \<or> is_graph_char (hd s)"
  have "\<not> starts_with s w" if "w \<in> set white_space" for w
    using s white_space_hd [OF that] white_space_nonempty [OF that]
    by (cases s; cases w) (auto simp: starts_with_def)
  then have "white_prefix s = None" by (simp add: white_prefix_def find_None_iff)
  then show ?thesis by (simp add: trim_start.simps)
qed

lemma trim_end_graph: "s = [] \<or> is_graph_char (last s) \<Longrightarrow> trim_end s = s"
proof -
  assume s: "s = [] \<or> is_graph_char (last s)"
  have "\<not> starts_with (rev s) (rev w)" if "w \<in> set white_space" for w
    using s white_space_last [OF that] white_space_nonempty [OF that]
    by (cases s rule: rev_cases; cases w rule: rev_cases) (auto simp: starts_with_def)
  then have "white_suffix s = None" by (simp add: white_suffix_def find_None_iff)
  then show ?thesis by (simp add: trim_end.simps)
qed

lemma trim_graph:
  "s = [] \<or> (is_graph_char (hd s) \<and> is_graph_char (last s)) \<Longrightarrow> trim s = s"
  by (auto simp: trim_def trim_start_graph trim_end_graph)

section \<open>Splitting\<close>

fun split_on :: "char \<Rightarrow> string \<Rightarrow> string list" where
  "split_on c [] = [[]]"
| "split_on c (x # xs) =
     (if x = c then [] # split_on c xs
      else (case split_on c xs of [] \<Rightarrow> [[x]] | y # ys \<Rightarrow> (x # y) # ys))"

fun trim_start_matches :: "char \<Rightarrow> string \<Rightarrow> string" where
  "trim_start_matches c [] = []"
| "trim_start_matches c (x # xs) = (if x = c then trim_start_matches c xs else x # xs)"

lemma split_on_free: "c \<notin> set s \<Longrightarrow> split_on c s = [s]"
  by (induction s) auto

lemma split_on_append: "c \<notin> set s \<Longrightarrow> split_on c (s @ c # t) = s # split_on c t"
  by (induction s) auto

section \<open>Decimal numbers\<close>

definition is_ascii_digit :: "char \<Rightarrow> bool" where
  "is_ascii_digit c \<longleftrightarrow> 48 \<le> (of_char c :: nat) \<and> (of_char c :: nat) \<le> 57"

definition digit_char :: "nat \<Rightarrow> char" where
  "digit_char d = char_of (48 + d)"

fun show_nat :: "nat \<Rightarrow> string" where
  "show_nat n = (if n < 10 then [digit_char n] else show_nat (n div 10) @ [digit_char (n mod 10)])"

declare show_nat.simps [simp del]

definition show_int :: "int \<Rightarrow> string" where
  "show_int i = (if i < 0 then CHR ''-'' # show_nat (nat (- i)) else show_nat (nat i))"

fun parse_digits :: "nat \<Rightarrow> string \<Rightarrow> nat option" where
  "parse_digits acc [] = Some acc"
| "parse_digits acc (c # cs) =
     (if is_ascii_digit c then parse_digits (10 * acc + (of_char c - 48)) cs else None)"

text \<open>
  \<^verbatim>\<open>str::parse\<close> for an unsigned type with \<open>bits\<close> bits: an optional \<open>+\<close>, at least one digit,
  digits only, and no overflow.
\<close>

definition parse_unsigned :: "nat \<Rightarrow> string \<Rightarrow> nat option" where
  "parse_unsigned bits s =
     (let ds = (case s of c # cs \<Rightarrow> if c = CHR ''+'' then cs else s | [] \<Rightarrow> [])
      in if ds = [] then None
         else case parse_digits 0 ds of
                None \<Rightarrow> None
              | Some n \<Rightarrow> if n < 2 ^ bits then Some n else None)"

text \<open>\<^verbatim>\<open>str::parse\<close> for a signed type: \<open>-\<close> is accepted too.\<close>

definition parse_signed :: "nat \<Rightarrow> string \<Rightarrow> int option" where
  "parse_signed bits s =
     (case s of
        [] \<Rightarrow> None
      | c # cs \<Rightarrow>
          (let neg = (c = CHR ''-''); ds = (if c = CHR ''-'' \<or> c = CHR ''+'' then cs else s)
           in if ds = [] then None
              else case parse_digits 0 ds of
                     None \<Rightarrow> None
                   | Some n \<Rightarrow>
                       (let i = (if neg then - int n else int n)
                        in if - (2 ^ (bits - 1)) \<le> i \<and> i < 2 ^ (bits - 1) then Some i else None)))"

lemma of_char_digit_char: "d < 10 \<Longrightarrow> (of_char (digit_char d) :: nat) = 48 + d"
  by (simp add: digit_char_def)

lemma is_ascii_digit_digit_char [simp]: "d < 10 \<Longrightarrow> is_ascii_digit (digit_char d)"
  by (simp add: is_ascii_digit_def of_char_digit_char)

lemma show_nat_digits: "c \<in> set (show_nat n) \<Longrightarrow> is_ascii_digit c"
proof (induction n arbitrary: c rule: show_nat.induct)
  case (1 n)
  then show ?case
    by (cases "n < 10") (auto simp: show_nat.simps [of n])
qed

lemma show_nat_nonempty [simp]: "show_nat n \<noteq> []"
  by (simp add: show_nat.simps [of n])

lemma parse_digits_append:
  "parse_digits acc (s @ t) =
     (case parse_digits acc s of None \<Rightarrow> None | Some n \<Rightarrow> parse_digits n t)"
  by (induction acc s rule: parse_digits.induct) auto

lemma parse_digits_show: "parse_digits 0 (show_nat n) = Some n"
proof (induction n rule: show_nat.induct)
  case (1 n)
  show ?case
  proof (cases "n < 10")
    case True
    then show ?thesis by (simp add: show_nat.simps [of n] of_char_digit_char)
  next
    case False
    with "1.IH" have "parse_digits 0 (show_nat (n div 10)) = Some (n div 10)" by simp
    moreover have "10 * (n div 10) + n mod 10 = n" by simp
    ultimately show ?thesis using False
      by (simp add: show_nat.simps [of n] parse_digits_append of_char_digit_char)
  qed
qed

lemma digit_not_special:
  "is_ascii_digit c \<Longrightarrow> c \<noteq> CHR ''+'' \<and> c \<noteq> CHR ''-'' \<and> c \<noteq> CHR ''.'' \<and> is_graph_char c"
  by (auto simp: is_ascii_digit_def is_graph_char_def)

lemma parse_unsigned_show: "n < 2 ^ bits \<Longrightarrow> parse_unsigned bits (show_nat n) = Some n"
proof -
  assume n: "n < 2 ^ bits"
  obtain c cs where s: "show_nat n = c # cs" by (cases "show_nat n") auto
  then have "is_ascii_digit c" using show_nat_digits [of c n] by simp
  then show ?thesis
    using n parse_digits_show [of n] digit_not_special by (auto simp: parse_unsigned_def s)
qed

end
