(* ===== verification/Snmp_Error.thy ===== *)
theory Snmp_Error
  imports Snmp_Prelude
begin

text \<open>
  The error statuses of responses (\<^verbatim>\<open>crates/netsnmp/src/pdu.rs\<close>) and the errors of the library
  (\<^verbatim>\<open>crates/netsnmp/src/error.rs\<close>) that the modelled operations return.
\<close>

datatype error_status =
    NoError | TooBig | NoSuchName | BadValue | ReadOnly | GenErr | NoAccess | WrongType
  | WrongLength | WrongEncoding | WrongValue | NoCreation | InconsistentValue
  | ResourceUnavailable | CommitFailed | UndoFailed | AuthorizationError | NotWritable
  | InconsistentName | OtherStatus i64

datatype snmp_error =
    InvalidOid string
  | IntegerOverflow
  | UnsupportedVersion i64
  | SnmpError error_status nat
  | Timeout
  | RequestIdMismatch i32 i32
  | AuthFailure string
  | PrivFailure string
  | ReportError string
  | IoError
  | ProtocolError string

end
