(* ===== verification/Snmp_Oid.thy ===== *)
theory Snmp_Oid
  imports Rust_BTreeMap Rust_Strings Snmp_Error
begin

text \<open>
  Object identifiers (\<^verbatim>\<open>crates/netsnmp/src/oid.rs\<close>): the type with its derived lexicographic
  order, prefixes, children, the dotted notation and its parser.  The properties are the
  parse/print round trip and the facts about prefixes and the order that the registry and
  the access control rely on.
\<close>

section \<open>The type and its operations\<close>

definition MAX_OID_LEN :: nat where
  "MAX_OID_LEN = 128"

datatype oid = Oid (as_slice: "u32 list")

text \<open>\<open>derive(PartialOrd, Ord)\<close> on a struct around a vector: lexicographic, a prefix first.\<close>

instantiation oid :: linorder
begin

definition less_eq_oid :: "oid \<Rightarrow> oid \<Rightarrow> bool" where
  "less_eq_oid a b \<longleftrightarrow> as_slice a \<le> as_slice b"

definition less_oid :: "oid \<Rightarrow> oid \<Rightarrow> bool" where
  "less_oid a b \<longleftrightarrow> as_slice a < as_slice b"

instance
  by standard (auto simp: less_eq_oid_def less_oid_def oid.expand)

end

definition null_oid :: oid where
  "null_oid = Oid []"

definition oid_len :: "oid \<Rightarrow> nat" where
  "oid_len o1 = length (as_slice o1)"

definition oid_is_empty :: "oid \<Rightarrow> bool" where
  "oid_is_empty o1 = (as_slice o1 = [])"

definition child :: "oid \<Rightarrow> u32 \<Rightarrow> oid" where
  "child o1 c = Oid (as_slice o1 @ [c])"

definition is_prefix_of :: "oid \<Rightarrow> oid \<Rightarrow> bool" where
  "is_prefix_of self other =
     (length (as_slice self) \<le> length (as_slice other) \<and>
      take (length (as_slice self)) (as_slice other) = as_slice self)"

definition validate :: "oid \<Rightarrow> (unit, snmp_error) result" where
  "validate o1 =
     (if length (as_slice o1) > MAX_OID_LEN
      then Err (InvalidOid (''too many sub-identifiers ('' @ show_nat (length (as_slice o1))
                            @ '' > '' @ show_nat MAX_OID_LEN @ '')''))
      else Ok ())"

definition display_oid :: "oid \<Rightarrow> string" where
  "display_oid o1 =
     (if as_slice o1 = [] then ''.''
      else concat (map (\<lambda>part. CHR ''.'' # show_nat (unat part)) (as_slice o1)))"

text \<open>The parsing loop: the first token that is not a \<^typ>\<open>u32\<close> ends it.\<close>

fun parse_parts :: "string list \<Rightarrow> (u32 list, snmp_error) result" where
  "parse_parts [] = Ok []"
| "parse_parts (token # tokens) =
     (case parse_unsigned 32 token of
        None \<Rightarrow> Err (InvalidOid (''invalid sub-identifier '' @ [char_of (39::nat)] @ token @ [char_of (39::nat)]))
      | Some n \<Rightarrow> bind_result (parse_parts tokens) (\<lambda>ps. Ok (word_of_nat n # ps)))"

definition oid_from_str :: "string \<Rightarrow> (oid, snmp_error) result" where
  "oid_from_str s =
     (let trimmed = trim_start_matches CHR ''.'' (trim s)
      in if trimmed = [] then Ok null_oid
         else bind_result (parse_parts (split_on CHR ''.'' trimmed)) (\<lambda>parts. Ok (Oid parts)))"

section \<open>The order and prefixes\<close>

lemmas oid_order_defs = less_eq_oid_def less_oid_def

lemma is_prefix_of_iff: "is_prefix_of a b \<longleftrightarrow> (\<exists>t. as_slice b = as_slice a @ t)"
  by (auto simp: is_prefix_of_def) (metis append_take_drop_id)

lemma is_prefix_of_refl [simp]: "is_prefix_of a a"
  by (simp add: is_prefix_of_def)

lemma is_prefix_of_trans: "is_prefix_of a b \<Longrightarrow> is_prefix_of b c \<Longrightarrow> is_prefix_of a c"
  by (auto simp: is_prefix_of_iff)

lemma is_prefix_of_child [simp]: "is_prefix_of a (child a c)"
  by (simp add: is_prefix_of_iff child_def)

lemma is_prefix_of_comparable:
  "is_prefix_of a c \<Longrightarrow> is_prefix_of b c \<Longrightarrow> is_prefix_of a b \<or> is_prefix_of b a"
  unfolding is_prefix_of_iff by (metis append_eq_append_conv2)

lemma is_prefix_of_len_antisym:
  "is_prefix_of a c \<Longrightarrow> is_prefix_of b c \<Longrightarrow> oid_len a = oid_len b \<Longrightarrow> a = b"
  by (auto simp: is_prefix_of_iff oid_len_def intro: oid.expand)

lemma list_le_append [simp]: "(xs :: 'a::linorder list) \<le> xs @ ys"
  by (induction xs) auto

lemma is_prefix_of_le: "is_prefix_of a b \<Longrightarrow> a \<le> b"
  by (auto simp: is_prefix_of_iff less_eq_oid_def)

lemma child_greater: "a < child a c"
  using is_prefix_of_le [of a "child a c"]
  by (auto simp: less_le) (metis append_self_conv child_def not_Cons_self2 oid.sel)

text \<open>
  A subtree is an interval of the order: whatever lies between two OIDs under a root is
  under the root as well.
\<close>

lemma list_prefix_convex:
  fixes r xs ys zs :: "'a::linorder list"
  shows "r @ xs \<le> ys \<Longrightarrow> ys \<le> r @ zs \<Longrightarrow> \<exists>t. ys = r @ t"
proof (induction r arbitrary: ys)
  case Nil
  then show ?case by simp
next
  case (Cons a r)
  then obtain b bs where ys: "ys = b # bs" by (cases ys) auto
  with Cons.prems have "a = b" "r @ xs \<le> bs" "bs \<le> r @ zs"
    by (auto simp: list_less_def split: if_splits)
  with Cons.IH [of bs] ys show ?case by auto
qed

lemma subtree_convex:
  assumes "is_prefix_of r a" and "is_prefix_of r b" and "a \<le> x" and "x \<le> b"
  shows "is_prefix_of r x"
  using assms list_prefix_convex [of "as_slice r" _ "as_slice x"]
  by (auto simp: is_prefix_of_iff less_eq_oid_def)

text \<open>
  Two roots of which neither is a prefix of the other split the order: everything under
  the smaller root precedes everything under the larger.
\<close>

lemma disjoint_subtrees_ordered:
  assumes "a < b" and "\<not> is_prefix_of a b" and "is_prefix_of a x" and "is_prefix_of b y"
  shows "x < y"
proof (rule ccontr)
  assume "\<not> x < y"
  then have "y \<le> x" by simp
  moreover have "b \<le> y" using assms(4) by (rule is_prefix_of_le)
  ultimately have "a \<le> b" "b \<le> x" using assms(1) by auto
  with subtree_convex [OF is_prefix_of_refl assms(3)] assms(2) show False by blast
qed

section \<open>Parsing the dotted notation\<close>

lemma dot_not_digit: "is_ascii_digit c \<Longrightarrow> c \<noteq> CHR ''.''"
  using digit_not_special by blast

lemma split_on_dotted:
  assumes "xs \<noteq> []" and "\<And>t. t \<in> set xs \<Longrightarrow> CHR ''.'' \<notin> set t"
  shows "split_on CHR ''.'' (concat (map (\<lambda>t. CHR ''.'' # t) xs)) = [] # xs"
  using assms
proof (induction xs)
  case Nil
  then show ?case by simp
next
  case (Cons t ts)
  show ?case
  proof (cases "ts = []")
    case True
    with Cons.prems show ?thesis by (simp add: split_on_free)
  next
    case False
    then obtain u us where ts: "ts = u # us" by (cases ts) auto
    have "split_on CHR ''.'' (t @ CHR ''.'' # u @ concat (map (\<lambda>t. CHR ''.'' # t) us)) =
        t # split_on CHR ''.'' (u @ concat (map (\<lambda>t. CHR ''.'' # t) us))"
      using Cons.prems by (intro split_on_append) simp
    moreover have "split_on CHR ''.'' (u @ concat (map (\<lambda>t. CHR ''.'' # t) us)) = ts"
      using Cons False by (simp add: ts)
    ultimately show ?thesis by (simp add: ts)
  qed
qed

lemma parse_parts_show:
  "parse_parts (map (\<lambda>p. show_nat (unat p)) ps) = Ok ps"
proof (induction ps)
  case Nil
  then show ?case by simp
next
  case (Cons p ps)
  have "unat p < 2 ^ 32" using unsigned_less [of p, where 'a = nat] by simp
  then show ?case using Cons by (simp add: parse_unsigned_show)
qed

lemma dotted_last:
  assumes "ps \<noteq> []"
  shows "is_ascii_digit (last (concat (map (\<lambda>part. CHR ''.'' # show_nat (unat part)) ps)))"
  using assms
proof (induction ps rule: rev_induct)
  case (snoc p ps)
  have "last (show_nat (unat p)) \<in> set (show_nat (unat p))" by simp
  then have "is_ascii_digit (last (show_nat (unat p)))" by (rule show_nat_digits)
  then show ?case by simp
qed simp

text \<open>Parsing the dotted notation that \<open>Display\<close> prints gives the OID back, for every OID
  (the empty one included), so the textual form loses nothing.\<close>

lemma oid_parse_display: "oid_from_str (display_oid o1) = Ok o1"
proof (cases "as_slice o1 = []")
  case True
  have "trim ''.'' = ''.''" by (rule trim_graph) (simp add: is_graph_char_def)
  with True show ?thesis
    by (auto simp: oid_from_str_def display_oid_def null_oid_def intro: oid.expand)
next
  case False
  define ts where "ts = map (\<lambda>p. show_nat (unat p)) (as_slice o1)"
  define d where "d = concat (map (\<lambda>t. CHR ''.'' # t) ts)"
  have display: "display_oid o1 = d"
    using False by (simp add: display_oid_def d_def ts_def comp_def)
  have digits: "is_ascii_digit c" if "t \<in> set ts" "c \<in> set t" for t c
    using that show_nat_digits by (auto simp: ts_def)
  have free: "CHR ''.'' \<notin> set t" if "t \<in> set ts" for t
    using digits [OF that] dot_not_digit by blast
  have "ts \<noteq> []" using False by (simp add: ts_def)
  then obtain u us where us: "ts = u # us" by (cases ts) auto
  then have u: "u \<noteq> []" by (auto simp: ts_def)
  then have hd_u: "hd u \<noteq> CHR ''.''" using free [of u] us by (metis hd_in_set list.set_intros(1))
  have "is_graph_char (last d)"
    using dotted_last [OF False] digit_not_special by (simp add: d_def ts_def comp_def)
  moreover have "hd d = CHR ''.''" by (simp add: d_def us)
  ultimately have trim: "trim d = d" by (intro trim_graph) (simp add: is_graph_char_def)
  define rest where "rest = u @ concat (map (\<lambda>t. CHR ''.'' # t) us)"
  have d: "d = CHR ''.'' # rest" by (simp add: d_def rest_def us)
  have rest: "trim_start_matches CHR ''.'' d = rest" "rest \<noteq> []"
    using u hd_u by (cases u; simp add: d rest_def)+
  have "split_on CHR ''.'' d = [] # ts"
    unfolding d_def by (rule split_on_dotted [OF \<open>ts \<noteq> []\<close> free])
  then have "split_on CHR ''.'' rest = ts" by (simp add: d)
  then show ?thesis
    using rest trim parse_parts_show [of "as_slice o1"]
    by (simp add: oid_from_str_def display ts_def)
qed

end
