(* ===== verification/Snmp_Pdu.thy ===== *)
theory Snmp_Pdu
  imports Snmp_Oid
begin

text \<open>
  Values, variable bindings, error statuses and PDUs (\<^verbatim>\<open>crates/netsnmp/src/value.rs\<close>,
  \<^verbatim>\<open>pdu.rs\<close>, \<^verbatim>\<open>message.rs\<close>): the data every agent component exchanges, its wire codes and the
  textual form of values.  The conversions to the \<^verbatim>\<open>rasn\<close> wire types are in \<^verbatim>\<open>Snmp_Wire\<close>.
\<close>

unbundle bit_operations_syntax

section \<open>Values\<close>

type_synonym ipv4_addr = "u8 \<times> u8 \<times> u8 \<times> u8"

datatype snmp_value =
    Integer i64
  | OctetString "u8 list"
  | OidValue oid
  | IpAddress ipv4_addr
  | Counter32 u32
  | Gauge32 u32
  | TimeTicks u32
  | Opaque "u8 list"
  | Counter64 u64
  | Null
  | NoSuchObject
  | NoSuchInstance
  | EndOfMibView

type_synonym "value" = snmp_value

fun type_name :: "value \<Rightarrow> string" where
  "type_name (Integer _) = ''INTEGER''"
| "type_name (OctetString _) = ''STRING''"
| "type_name (OidValue _) = ''OID''"
| "type_name (IpAddress _) = ''IpAddress''"
| "type_name (Counter32 _) = ''Counter32''"
| "type_name (Gauge32 _) = ''Gauge32''"
| "type_name (TimeTicks _) = ''Timeticks''"
| "type_name (Opaque _) = ''Opaque''"
| "type_name (Counter64 _) = ''Counter64''"
| "type_name Null = ''Null''"
| "type_name NoSuchObject = ''noSuchObject''"
| "type_name NoSuchInstance = ''noSuchInstance''"
| "type_name EndOfMibView = ''endOfMibView''"

definition is_ascii_control :: "u8 \<Rightarrow> bool" where
  "is_ascii_control c = (unat c < 32 \<or> unat c = 127)"

definition hex_digit :: "nat \<Rightarrow> char" where
  "hex_digit n = (if n < 10 then char_of (48 + n) else char_of (55 + n))"

definition hex_byte :: "u8 \<Rightarrow> string" where
  "hex_byte b = [hex_digit (unat b div 16), hex_digit (unat b mod 16)]"

fun join_sp :: "string list \<Rightarrow> string" where
  "join_sp [] = []"
| "join_sp [s] = s"
| "join_sp (s # t # ts) = s @ '' '' @ join_sp (t # ts)"

definition pad2 :: "nat \<Rightarrow> string" where
  "pad2 n = (if n < 10 then CHR ''0'' # show_nat n else show_nat n)"

definition show_ipv4 :: "ipv4_addr \<Rightarrow> string" where
  "show_ipv4 ip = (case ip of (a, b, c, d) \<Rightarrow>
     show_nat (unat a) @ ''.'' @ show_nat (unat b) @ ''.'' @ show_nat (unat c) @ ''.'' @ show_nat (unat d))"

definition display_octets :: "u8 list \<Rightarrow> string" where
  "display_octets b =
     (case from_utf8 b of
        Some s \<Rightarrow>
          if list_all (\<lambda>c. \<not> is_ascii_control c \<or> c = 10 \<or> c = 9) b then ''STRING: '' @ s
          else ''Hex-STRING: '' @ join_sp (map hex_byte b)
      | None \<Rightarrow> ''Hex-STRING: '' @ join_sp (map hex_byte b))"

definition display_ticks :: "u32 \<Rightarrow> string" where
  "display_ticks v =
     (let secs = unat v div 100
      in ''Timeticks: ('' @ show_nat (unat v) @ '') '' @ show_nat (secs div 86400) @ ''d ''
         @ show_nat ((secs mod 86400) div 3600) @ ''h '' @ show_nat ((secs mod 3600) div 60) @ ''m ''
         @ show_nat (secs mod 60) @ ''.'' @ pad2 (unat v mod 100) @ ''s'')"

fun display_value :: "value \<Rightarrow> string" where
  "display_value (Integer v) = ''INTEGER: '' @ show_int (sint v)"
| "display_value (OctetString b) = display_octets b"
| "display_value (OidValue o1) = ''OID: '' @ display_oid o1"
| "display_value (IpAddress ip) = ''IpAddress: '' @ show_ipv4 ip"
| "display_value (Counter32 v) = ''Counter32: '' @ show_nat (unat v)"
| "display_value (Gauge32 v) = ''Gauge32: '' @ show_nat (unat v)"
| "display_value (TimeTicks v) = display_ticks v"
| "display_value (Opaque b) = ''Opaque: '' @ show_nat (length b) @ '' bytes''"
| "display_value (Counter64 v) = ''Counter64: '' @ show_nat (unat v)"
| "display_value Null = ''NULL''"
| "display_value NoSuchObject = ''No Such Object available on this agent at this OID''"
| "display_value NoSuchInstance = ''No Such Instance currently exists at this OID''"
| "display_value EndOfMibView = ''No more variables left in this MIB View''"

section \<open>Error statuses\<close>

fun status_code :: "error_status \<Rightarrow> i64" where
  "status_code NoError = 0"
| "status_code TooBig = 1"
| "status_code NoSuchName = 2"
| "status_code BadValue = 3"
| "status_code ReadOnly = 4"
| "status_code GenErr = 5"
| "status_code NoAccess = 6"
| "status_code WrongType = 7"
| "status_code WrongLength = 8"
| "status_code WrongEncoding = 9"
| "status_code WrongValue = 10"
| "status_code NoCreation = 11"
| "status_code InconsistentValue = 12"
| "status_code ResourceUnavailable = 13"
| "status_code CommitFailed = 14"
| "status_code UndoFailed = 15"
| "status_code AuthorizationError = 16"
| "status_code NotWritable = 17"
| "status_code InconsistentName = 18"
| "status_code (OtherStatus v) = v"

definition status_from_code :: "i64 \<Rightarrow> error_status" where
  "status_from_code c =
     (if c = 0 then NoError else if c = 1 then TooBig else if c = 2 then NoSuchName
      else if c = 3 then BadValue else if c = 4 then ReadOnly else if c = 5 then GenErr
      else if c = 6 then NoAccess else if c = 7 then WrongType else if c = 8 then WrongLength
      else if c = 9 then WrongEncoding else if c = 10 then WrongValue
      else if c = 11 then NoCreation else if c = 12 then InconsistentValue
      else if c = 13 then ResourceUnavailable else if c = 14 then CommitFailed
      else if c = 15 then UndoFailed else if c = 16 then AuthorizationError
      else if c = 17 then NotWritable else if c = 18 then InconsistentName
      else OtherStatus c)"

fun status_is_ok :: "error_status \<Rightarrow> bool" where
  "status_is_ok NoError = True"
| "status_is_ok _ = False"

fun display_status :: "error_status \<Rightarrow> string" where
  "display_status NoError = ''noError''"
| "display_status TooBig = ''tooBig''"
| "display_status NoSuchName = ''noSuchName''"
| "display_status BadValue = ''badValue''"
| "display_status ReadOnly = ''readOnly''"
| "display_status GenErr = ''genErr''"
| "display_status NoAccess = ''noAccess''"
| "display_status WrongType = ''wrongType''"
| "display_status WrongLength = ''wrongLength''"
| "display_status WrongEncoding = ''wrongEncoding''"
| "display_status WrongValue = ''wrongValue''"
| "display_status NoCreation = ''noCreation''"
| "display_status InconsistentValue = ''inconsistentValue''"
| "display_status ResourceUnavailable = ''resourceUnavailable''"
| "display_status CommitFailed = ''commitFailed''"
| "display_status UndoFailed = ''undoFailed''"
| "display_status AuthorizationError = ''authorizationError''"
| "display_status NotWritable = ''notWritable''"
| "display_status InconsistentName = ''inconsistentName''"
| "display_status (OtherStatus v) = ''error('' @ show_int (sint v) @ '')''"

lemma status_is_ok_iff [simp]: "status_is_ok s \<longleftrightarrow> s = NoError"
  by (cases s) simp_all

lemma status_code_from_code [simp]: "status_code (status_from_code c) = c"
  by (simp add: status_from_code_def)

lemma status_from_code_zero [simp]: "status_from_code 0 = NoError"
  by (simp add: status_from_code_def)

section \<open>PDU types and PDUs\<close>

datatype pdu_type =
    Get | GetNext | Response | Set | TrapV1 | GetBulk | Inform | TrapV2 | Report

fun pdu_type_num :: "pdu_type \<Rightarrow> u8" where
  "pdu_type_num Get = 0"
| "pdu_type_num GetNext = 1"
| "pdu_type_num Response = 2"
| "pdu_type_num Set = 3"
| "pdu_type_num TrapV1 = 4"
| "pdu_type_num GetBulk = 5"
| "pdu_type_num Inform = 6"
| "pdu_type_num TrapV2 = 7"
| "pdu_type_num Report = 8"

definition pdu_tag :: "pdu_type \<Rightarrow> u8" where
  "pdu_tag t = 0xA0 OR pdu_type_num t"

definition lower_hex_digit :: "nat \<Rightarrow> char" where
  "lower_hex_digit n = (if n < 10 then char_of (48 + n) else char_of (87 + n))"

definition pdu_from_tag :: "u8 \<Rightarrow> (pdu_type, snmp_error) result" where
  "pdu_from_tag t =
     (let k = t AND 0x1F
      in if k = 0 then Ok Get else if k = 1 then Ok GetNext else if k = 2 then Ok Response
         else if k = 3 then Ok Set else if k = 4 then Ok TrapV1 else if k = 5 then Ok GetBulk
         else if k = 6 then Ok Inform else if k = 7 then Ok TrapV2 else if k = 8 then Ok Report
         else Err (ProtocolError (''unknown PDU tag 0x''
                     @ [lower_hex_digit (unat t div 16), lower_hex_digit (unat t mod 16)])))"

record varbind =
  vb_oid :: oid
  vb_value :: "value"

definition new_varbind :: "oid \<Rightarrow> value \<Rightarrow> varbind" where
  "new_varbind o1 v = \<lparr>vb_oid = o1, vb_value = v\<rparr>"

definition null_varbind :: "oid \<Rightarrow> varbind" where
  "null_varbind o1 = \<lparr>vb_oid = o1, vb_value = Null\<rparr>"

record trap_v1 =
  enterprise :: oid
  agent_addr :: ipv4_addr
  generic_trap :: u8
  specific_trap :: u32
  time_stamp :: u32

definition new_trap_v1 :: "oid \<Rightarrow> ipv4_addr \<Rightarrow> u8 \<Rightarrow> u32 \<Rightarrow> u32 \<Rightarrow> trap_v1" where
  "new_trap_v1 e a g s t =
     \<lparr>enterprise = e, agent_addr = a, generic_trap = g, specific_trap = s, time_stamp = t\<rparr>"

record pdu =
  ptype :: pdu_type
  request_id :: i32
  error_status :: i64
  error_index :: i64
  variables :: "varbind list"
  v1_trap :: "trap_v1 option"

definition new_pdu :: "pdu_type \<Rightarrow> i32 \<Rightarrow> pdu" where
  "new_pdu t rid = \<lparr>ptype = t, request_id = rid, error_status = 0, error_index = 0,
                    variables = [], v1_trap = None\<rparr>"

definition new_v1_trap :: "trap_v1 \<Rightarrow> varbind list \<Rightarrow> pdu" where
  "new_v1_trap trap vbs = \<lparr>ptype = TrapV1, request_id = 0, error_status = 0, error_index = 0,
                           variables = vbs, v1_trap = Some trap\<rparr>"

definition with_null_var :: "pdu \<Rightarrow> oid \<Rightarrow> pdu" where
  "with_null_var p o1 = p\<lparr>variables := variables p @ [null_varbind o1]\<rparr>"

definition with_var :: "pdu \<Rightarrow> oid \<Rightarrow> value \<Rightarrow> pdu" where
  "with_var p o1 v = p\<lparr>variables := variables p @ [new_varbind o1 v]\<rparr>"

definition non_repeaters :: "pdu \<Rightarrow> i64" where
  "non_repeaters p = error_status p"

definition max_repetitions :: "pdu \<Rightarrow> i64" where
  "max_repetitions p = error_index p"

definition pdu_status :: "pdu \<Rightarrow> error_status" where
  "pdu_status p = status_from_code (error_status p)"

section \<open>Message versions\<close>

datatype version = V1 | V2c

fun version_code :: "version \<Rightarrow> i64" where
  "version_code V1 = 0"
| "version_code V2c = 1"

definition version_from_code :: "i64 \<Rightarrow> (version, snmp_error) result" where
  "version_from_code c =
     (if c = 0 then Ok V1 else if c = 1 then Ok V2c else Err (UnsupportedVersion c))"

section \<open>Properties\<close>

lemma new_pdu_simps [simp]:
  "ptype (new_pdu t rid) = t" "request_id (new_pdu t rid) = rid"
  "error_status (new_pdu t rid) = 0" "error_index (new_pdu t rid) = 0"
  "variables (new_pdu t rid) = []" "v1_trap (new_pdu t rid) = None"
  by (simp_all add: new_pdu_def)

lemma new_varbind_simps [simp]:
  "vb_oid (new_varbind o1 v) = o1" "vb_value (new_varbind o1 v) = v"
  by (simp_all add: new_varbind_def)

text \<open>Every wire code of the error-status field survives the conversion to the typed status
  and back, a PDU type is recovered from its tag, a version from its code, and two codes
  that denote the same status are the same code.\<close>

lemma wire_codes_roundtrip:
  "status_code (status_from_code c) = c \<and> pdu_from_tag (pdu_tag t) = Ok t \<and>
   version_from_code (version_code v) = Ok v \<and>
   (status_from_code c = status_from_code c' \<longleftrightarrow> c = c')"
proof (intro conjI)
  show "status_code (status_from_code c) = c" by simp
  show "pdu_from_tag (pdu_tag t) = Ok t"
    by (cases t) (simp_all add: pdu_from_tag_def pdu_tag_def)
  show "version_from_code (version_code v) = Ok v"
    by (cases v) (simp_all add: version_from_code_def)
  show "status_from_code c = status_from_code c' \<longleftrightarrow> c = c'"
    by (metis status_code_from_code)
qed

end
