(* ===== verification/Snmp_Wire.thy ===== *)
theory Snmp_Wire
  imports Snmp_Pdu
begin

text \<open>
  The bridge to the wire (\<^verbatim>\<open>crates/netsnmp/src/convert.rs\<close>, the conversions of \<^verbatim>\<open>value.rs\<close> and
  \<^verbatim>\<open>pdu.rs\<close>, and \<^verbatim>\<open>message.rs\<close>): domain values and PDUs to and from the structures of the \<^verbatim>\<open>rasn\<close>
  crates.  The BER codec of these structures is not part of the repository; it is the parameter
  \<open>rasn\<close>, of which only that decoding inverts encoding is ever assumed.
\<close>

section \<open>The structures of the codec\<close>

datatype object_syntax =
    SInteger int
  | SString "u8 list"
  | SObjectId "u32 list"
  | AAddress ipv4_addr
  | ACounter u32
  | AUnsigned u32
  | ATicks u32
  | AArbitrary "u8 list"
  | ABigCounter u64

datatype var_bind_value = VValue object_syntax | VUnspecified | VNoSuchObject | VNoSuchInstance | VEndOfMibView

record rasn_var_bind =
  rv_name :: "u32 list"
  rv_value :: var_bind_value

record rasn_pdu =
  rp_request_id :: i32
  rp_error_status :: u32
  rp_error_index :: u32
  rp_bindings :: "rasn_var_bind list"

datatype pdus =
    PGetRequest rasn_pdu
  | PGetNextRequest rasn_pdu
  | PResponse rasn_pdu
  | PSetRequest rasn_pdu
  | PInformRequest rasn_pdu
  | PTrap rasn_pdu
  | PReport rasn_pdu
  | PGetBulkRequest rasn_pdu

record community_message =
  cm_version :: int
  cm_community :: "u8 list"
  cm_data :: pdus

datatype v1_syntax =
    V1Number int
  | V1String "u8 list"
  | V1Object "u32 list"
  | V1Empty
  | V1Address ipv4_addr
  | V1Counter u32
  | V1Gauge u32
  | V1Ticks u32
  | V1Arbitrary "u8 list"

record v1_rasn_trap =
  vt_enterprise :: "u32 list"
  vt_agent_addr :: ipv4_addr
  vt_generic_trap :: int
  vt_specific_trap :: int
  vt_time_stamp :: u32
  vt_bindings :: "(u32 list \<times> v1_syntax) list"

record v1_rasn_message =
  vm_version :: int
  vm_community :: "u8 list"
  vm_data :: v1_rasn_trap

text \<open>
  The part of the codec the community messages need: which arcs form an ASN.1 object identifier,
  what an octet string becomes when it is retagged and read as an opaque value, and the two
  message envelopes.  Errors are the texts of the codec's error values.
\<close>

record rasn =
  r_oid_new :: "u32 list \<Rightarrow> bool"
  r_opaque :: "u8 list \<Rightarrow> (u8 list, string) result"
  r_enc_message :: "community_message \<Rightarrow> (u8 list, string) result"
  r_dec_message :: "u8 list \<Rightarrow> (community_message, string) result"
  r_enc_v1 :: "v1_rasn_message \<Rightarrow> (u8 list, string) result"
  r_dec_v1 :: "u8 list \<Rightarrow> (v1_rasn_message, string) result"

definition decode_error :: "('a, string) result \<Rightarrow> ('a, snmp_error) result" where
  "decode_error r =
     (case r of Ok x \<Rightarrow> Ok x | Err e \<Rightarrow> Err (ProtocolError (''BER decode error: '' @ e)))"

definition encode_error :: "('a, string) result \<Rightarrow> ('a, snmp_error) result" where
  "encode_error r =
     (case r of Ok x \<Rightarrow> Ok x | Err e \<Rightarrow> Err (ProtocolError (''BER encode error: '' @ e)))"

lemma error_of_simps [simp]:
  "decode_error (Ok x) = Ok x" "decode_error (Err e) = Err (ProtocolError (''BER decode error: '' @ e))"
  "encode_error (Ok x) = Ok x" "encode_error (Err e) = Err (ProtocolError (''BER encode error: '' @ e))"
  by (simp_all add: decode_error_def encode_error_def)

section \<open>Primitive conversions\<close>

definition oid_to_rasn :: "('r) rasn_scheme \<Rightarrow> oid \<Rightarrow> (u32 list, snmp_error) result" where
  "oid_to_rasn R o1 =
     (let arcs = as_slice o1;
          arcs = (if length arcs < 2 then arcs @ replicate (2 - length arcs) 0 else arcs)
      in if r_oid_new R arcs then Ok arcs
         else Err (InvalidOid (''not encodable as ASN.1 OID: '' @ display_oid o1)))"

definition oid_from_rasn :: "u32 list \<Rightarrow> oid" where
  "oid_from_rasn arcs = Oid arcs"

definition int_to_i64 :: "int \<Rightarrow> (i64, snmp_error) result" where
  "int_to_i64 i = (if - (2 ^ 63) \<le> i \<and> i < 2 ^ 63 then Ok (word_of_int i) else Err IntegerOverflow)"

definition int_to_u32 :: "int \<Rightarrow> (u32, snmp_error) result" where
  "int_to_u32 i = (if 0 \<le> i \<and> i < 2 ^ 32 then Ok (word_of_int i) else Err IntegerOverflow)"

definition opaque_from_bytes :: "('r) rasn_scheme \<Rightarrow> u8 list \<Rightarrow> (u8 list, snmp_error) result" where
  "opaque_from_bytes R b = decode_error (r_opaque R b)"

fun collect_results :: "('a, 'e) result list \<Rightarrow> ('a list, 'e) result" where
  "collect_results [] = Ok []"
| "collect_results (r # rs) = bind_result r (\<lambda>x. bind_result (collect_results rs) (\<lambda>xs. Ok (x # xs)))"

section \<open>Values\<close>

fun to_var_bind_value :: "('r) rasn_scheme \<Rightarrow> value \<Rightarrow> (var_bind_value, snmp_error) result" where
  "to_var_bind_value R (Integer v) = Ok (VValue (SInteger (sint v)))"
| "to_var_bind_value R (OctetString b) = Ok (VValue (SString b))"
| "to_var_bind_value R (OidValue o1) = bind_result (oid_to_rasn R o1) (\<lambda>a. Ok (VValue (SObjectId a)))"
| "to_var_bind_value R (IpAddress ip) = Ok (VValue (AAddress ip))"
| "to_var_bind_value R (Counter32 v) = Ok (VValue (ACounter v))"
| "to_var_bind_value R (Gauge32 v) = Ok (VValue (AUnsigned v))"
| "to_var_bind_value R (TimeTicks v) = Ok (VValue (ATicks v))"
| "to_var_bind_value R (Opaque b) = bind_result (opaque_from_bytes R b) (\<lambda>c. Ok (VValue (AArbitrary c)))"
| "to_var_bind_value R (Counter64 v) = Ok (VValue (ABigCounter v))"
| "to_var_bind_value R Null = Ok VUnspecified"
| "to_var_bind_value R NoSuchObject = Ok VNoSuchObject"
| "to_var_bind_value R NoSuchInstance = Ok VNoSuchInstance"
| "to_var_bind_value R EndOfMibView = Ok VEndOfMibView"

fun from_object_syntax :: "object_syntax \<Rightarrow> (value, snmp_error) result" where
  "from_object_syntax (SInteger i) = bind_result (int_to_i64 i) (\<lambda>v. Ok (Integer v))"
| "from_object_syntax (SString s) = Ok (OctetString s)"
| "from_object_syntax (SObjectId a) = Ok (OidValue (oid_from_rasn a))"
| "from_object_syntax (AAddress ip) = Ok (IpAddress ip)"
| "from_object_syntax (ACounter v) = Ok (Counter32 v)"
| "from_object_syntax (AUnsigned v) = Ok (Gauge32 v)"
| "from_object_syntax (ATicks v) = Ok (TimeTicks v)"
| "from_object_syntax (AArbitrary b) = Ok (Opaque b)"
| "from_object_syntax (ABigCounter v) = Ok (Counter64 v)"

fun from_var_bind_value :: "var_bind_value \<Rightarrow> (value, snmp_error) result" where
  "from_var_bind_value VUnspecified = Ok Null"
| "from_var_bind_value VNoSuchObject = Ok NoSuchObject"
| "from_var_bind_value VNoSuchInstance = Ok NoSuchInstance"
| "from_var_bind_value VEndOfMibView = Ok EndOfMibView"
| "from_var_bind_value (VValue ob) = from_object_syntax ob"

definition varbind_to_rasn :: "('r) rasn_scheme \<Rightarrow> varbind \<Rightarrow> (rasn_var_bind, snmp_error) result" where
  "varbind_to_rasn R vb =
     bind_result (oid_to_rasn R (vb_oid vb)) (\<lambda>n.
     bind_result (to_var_bind_value R (vb_value vb)) (\<lambda>v. Ok \<lparr>rv_name = n, rv_value = v\<rparr>))"

definition varbind_from_rasn :: "rasn_var_bind \<Rightarrow> (varbind, snmp_error) result" where
  "varbind_from_rasn vb =
     bind_result (from_var_bind_value (rv_value vb))
       (\<lambda>v. Ok \<lparr>vb_oid = oid_from_rasn (rv_name vb), vb_value = v\<rparr>)"

section \<open>PDUs\<close>

definition u32_try_from :: "i64 \<Rightarrow> (u32, snmp_error) result" where
  "u32_try_from v = int_to_u32 (sint v)"

definition pdu_to_rasn :: "('r) rasn_scheme \<Rightarrow> pdu \<Rightarrow> (pdus, snmp_error) result" where
  "pdu_to_rasn R p =
     bind_result (collect_results (map (varbind_to_rasn R) (variables p))) (\<lambda>vbs.
     bind_result (u32_try_from (error_status p)) (\<lambda>status.
     bind_result (u32_try_from (error_index p)) (\<lambda>index.
       let std = \<lparr>rp_request_id = request_id p, rp_error_status = status, rp_error_index = index,
                  rp_bindings = vbs\<rparr>
       in case ptype p of
            Get \<Rightarrow> Ok (PGetRequest std)
          | GetNext \<Rightarrow> Ok (PGetNextRequest std)
          | Response \<Rightarrow> Ok (PResponse std)
          | Set \<Rightarrow> Ok (PSetRequest std)
          | Inform \<Rightarrow> Ok (PInformRequest std)
          | TrapV2 \<Rightarrow> Ok (PTrap std)
          | Report \<Rightarrow> Ok (PReport std)
          | GetBulk \<Rightarrow> Ok (PGetBulkRequest std)
          | TrapV1 \<Rightarrow> Err (ProtocolError
              ''SNMPv1 Trap-PDU must be encoded via Pdu::to_v1_rasn / a v1 Message''))))"

fun pdus_parts :: "pdus \<Rightarrow> pdu_type \<times> rasn_pdu" where
  "pdus_parts (PGetRequest p) = (Get, p)"
| "pdus_parts (PGetNextRequest p) = (GetNext, p)"
| "pdus_parts (PResponse p) = (Response, p)"
| "pdus_parts (PSetRequest p) = (Set, p)"
| "pdus_parts (PInformRequest p) = (Inform, p)"
| "pdus_parts (PTrap p) = (TrapV2, p)"
| "pdus_parts (PReport p) = (Report, p)"
| "pdus_parts (PGetBulkRequest p) = (GetBulk, p)"

definition pdu_from_rasn :: "pdus \<Rightarrow> (pdu, snmp_error) result" where
  "pdu_from_rasn ps =
     (let (t, p) = pdus_parts ps
      in bind_result (collect_results (map varbind_from_rasn (rp_bindings p))) (\<lambda>vbs.
           Ok \<lparr>ptype = t, request_id = rp_request_id p,
               error_status = word_of_nat (unat (rp_error_status p)),
               error_index = word_of_nat (unat (rp_error_index p)),
               variables = vbs, v1_trap = None\<rparr>))"

section \<open>The SNMPv1 trap\<close>

fun value_to_v1 :: "('r) rasn_scheme \<Rightarrow> value \<Rightarrow> (v1_syntax, snmp_error) result" where
  "value_to_v1 R (Integer v) = Ok (V1Number (sint v))"
| "value_to_v1 R (OctetString b) = Ok (V1String b)"
| "value_to_v1 R (OidValue o1) = bind_result (oid_to_rasn R o1) (\<lambda>a. Ok (V1Object a))"
| "value_to_v1 R Null = Ok V1Empty"
| "value_to_v1 R NoSuchObject = Ok V1Empty"
| "value_to_v1 R NoSuchInstance = Ok V1Empty"
| "value_to_v1 R EndOfMibView = Ok V1Empty"
| "value_to_v1 R (IpAddress ip) = Ok (V1Address ip)"
| "value_to_v1 R (Counter32 v) = Ok (V1Counter v)"
| "value_to_v1 R (Gauge32 v) = Ok (V1Gauge v)"
| "value_to_v1 R (TimeTicks v) = Ok (V1Ticks v)"
| "value_to_v1 R (Opaque b) = bind_result (opaque_from_bytes R b) (\<lambda>c. Ok (V1Arbitrary c))"
| "value_to_v1 R (Counter64 v) =
     Ok (V1Gauge (if unat v < 2 ^ 32 then word_of_nat (unat v) else 4294967295))"

fun value_from_v1 :: "v1_syntax \<Rightarrow> value" where
  "value_from_v1 (V1Number i) = Integer (case int_to_i64 i of Ok v \<Rightarrow> v | Err _ \<Rightarrow> 0)"
| "value_from_v1 (V1String s) = OctetString s"
| "value_from_v1 (V1Object a) = OidValue (oid_from_rasn a)"
| "value_from_v1 V1Empty = Null"
| "value_from_v1 (V1Address ip) = IpAddress ip"
| "value_from_v1 (V1Counter v) = Counter32 v"
| "value_from_v1 (V1Gauge v) = Gauge32 v"
| "value_from_v1 (V1Ticks v) = TimeTicks v"
| "value_from_v1 (V1Arbitrary b) = Opaque b"

definition varbinds_to_v1 :: "('r) rasn_scheme \<Rightarrow> varbind list \<Rightarrow> ((u32 list \<times> v1_syntax) list, snmp_error) result" where
  "varbinds_to_v1 R vbs =
     collect_results (map (\<lambda>vb.
       bind_result (oid_to_rasn R (vb_oid vb)) (\<lambda>n.
       bind_result (value_to_v1 R (vb_value vb)) (\<lambda>v. Ok (n, v)))) vbs)"

definition varbinds_from_v1 :: "(u32 list \<times> v1_syntax) list \<Rightarrow> varbind list" where
  "varbinds_from_v1 vbs = map (\<lambda>(n, v). \<lparr>vb_oid = oid_from_rasn n, vb_value = value_from_v1 v\<rparr>) vbs"

definition trap_v1_to_rasn ::
  "('r) rasn_scheme \<Rightarrow> trap_v1 \<Rightarrow> (u32 list \<times> v1_syntax) list \<Rightarrow> (v1_rasn_trap, snmp_error) result" where
  "trap_v1_to_rasn R t vbs =
     bind_result (oid_to_rasn R (enterprise t)) (\<lambda>e.
       Ok \<lparr>vt_enterprise = e, vt_agent_addr = agent_addr t, vt_generic_trap = uint (generic_trap t),
           vt_specific_trap = uint (specific_trap t), vt_time_stamp = time_stamp t, vt_bindings = vbs\<rparr>)"

definition trap_v1_from_rasn ::
  "v1_rasn_trap \<Rightarrow> (trap_v1 \<times> (u32 list \<times> v1_syntax) list, snmp_error) result" where
  "trap_v1_from_rasn r =
     (let generic = vt_generic_trap r; specific = vt_specific_trap r
      in bind_result (int_to_i64 generic) (\<lambda>_.
         bind_result (int_to_i64 specific) (\<lambda>_.
           if \<not> (0 \<le> generic \<and> generic < 256)
           then Err (ProtocolError (''v1 generic_trap out of range: '' @ show_int generic))
           else if \<not> (0 \<le> specific \<and> specific < 2 ^ 32)
           then Err (ProtocolError (''v1 specific_trap out of range: '' @ show_int specific))
           else Ok (\<lparr>enterprise = oid_from_rasn (vt_enterprise r), agent_addr = vt_agent_addr r,
                     generic_trap = word_of_int generic, specific_trap = word_of_int specific,
                     time_stamp = vt_time_stamp r\<rparr>, vt_bindings r))))"

definition pdu_to_v1_rasn :: "('r) rasn_scheme \<Rightarrow> pdu \<Rightarrow> (v1_rasn_trap, snmp_error) result" where
  "pdu_to_v1_rasn R p =
     (case v1_trap p of
        None \<Rightarrow> Err (ProtocolError ''v1 Trap-PDU is missing its V1Trap payload'')
      | Some t \<Rightarrow> bind_result (varbinds_to_v1 R (variables p)) (trap_v1_to_rasn R t))"

definition pdu_from_v1_rasn :: "v1_rasn_trap \<Rightarrow> (pdu, snmp_error) result" where
  "pdu_from_v1_rasn r =
     bind_result (trap_v1_from_rasn r) (\<lambda>(t, vbs). Ok (new_v1_trap t (varbinds_from_v1 vbs)))"

section \<open>Community messages\<close>

record message =
  m_version :: version
  m_community :: "u8 list"
  m_pdu :: pdu

definition message_encode :: "('r) rasn_scheme \<Rightarrow> message \<Rightarrow> (u8 list, snmp_error) result" where
  "message_encode R m =
     (if m_version m = V1 \<and> ptype (m_pdu m) = TrapV1
      then bind_result (pdu_to_v1_rasn R (m_pdu m)) (\<lambda>t.
             encode_error (r_enc_v1 R \<lparr>vm_version = sint (version_code (m_version m)),
                                       vm_community = m_community m, vm_data = t\<rparr>))
      else bind_result (pdu_to_rasn R (m_pdu m)) (\<lambda>d.
             encode_error (r_enc_message R \<lparr>cm_version = sint (version_code (m_version m)),
                                            cm_community = m_community m, cm_data = d\<rparr>)))"

definition message_decode :: "('r) rasn_scheme \<Rightarrow> u8 list \<Rightarrow> (message, snmp_error) result" where
  "message_decode R bytes =
     (case r_dec_message R bytes of
        Ok m \<Rightarrow>
          bind_result (bind_result (int_to_i64 (cm_version m)) version_from_code) (\<lambda>v.
          bind_result (pdu_from_rasn (cm_data m)) (\<lambda>p.
            Ok \<lparr>m_version = v, m_community = cm_community m, m_pdu = p\<rparr>))
      | Err _ \<Rightarrow>
          bind_result (decode_error (r_dec_v1 R bytes)) (\<lambda>m.
          bind_result (bind_result (int_to_i64 (vm_version m)) version_from_code) (\<lambda>v.
          bind_result (pdu_from_v1_rasn (vm_data m)) (\<lambda>p.
            Ok \<lparr>m_version = v, m_community = vm_community m, m_pdu = p\<rparr>))))"

section \<open>What survives the wire\<close>

text \<open>An OID of fewer than two arcs travels padded with zeros.\<close>

definition wire_oid :: "oid \<Rightarrow> oid" where
  "wire_oid o1 = Oid (as_slice o1 @ replicate (2 - length (as_slice o1)) 0)"

fun wire_value :: "value \<Rightarrow> value" where
  "wire_value (OidValue o1) = OidValue (wire_oid o1)"
| "wire_value v = v"

definition wire_varbind :: "varbind \<Rightarrow> varbind" where
  "wire_varbind vb = \<lparr>vb_oid = wire_oid (vb_oid vb), vb_value = wire_value (vb_value vb)\<rparr>"

definition wire_pdu :: "pdu \<Rightarrow> pdu" where
  "wire_pdu p = p\<lparr>variables := map wire_varbind (variables p), v1_trap := None\<rparr>"

lemma wire_oid_id: "2 \<le> oid_len o1 \<Longrightarrow> wire_oid o1 = o1"
  by (cases o1) (simp add: wire_oid_def oid_len_def)

lemma bind_result_Ok [simp]: "bind_result r f = Ok y \<longleftrightarrow> (\<exists>x. r = Ok x \<and> f x = Ok y)"
  by (cases r) simp_all

lemma oid_to_rasn_Ok: "oid_to_rasn R o1 = Ok a \<Longrightarrow> oid_from_rasn a = wire_oid o1"
  by (auto simp: oid_to_rasn_def oid_from_rasn_def wire_oid_def Let_def split: if_splits)

lemma int_to_i64_sint [simp]: "int_to_i64 (sint (v :: i64)) = Ok v"
  using sint_ge [of v] sint_lt [of v] by (simp add: int_to_i64_def)

lemma u32_try_from_Ok:
  assumes "u32_try_from v = Ok w"
  shows "word_of_nat (unat w) = v"
proof -
  have v: "0 \<le> sint v" "sint v < 2 ^ 32" and w: "w = word_of_int (sint v)"
    using assms by (auto simp: u32_try_from_def int_to_u32_def split: if_splits)
  have "uint w = sint v" using v unfolding w uint_word_of_int by simp
  then have "word_of_nat (unat w) = (word_of_int (sint v) :: i64)"
    by (metis of_int_of_nat_eq uint_nat word_of_int_uint)
  then show ?thesis by simp
qed

text \<open>The retagging of an octet string as an opaque value keeps its contents.\<close>

definition opaque_law :: "('r) rasn_scheme \<Rightarrow> bool" where
  "opaque_law R \<longleftrightarrow> (\<forall>b c. r_opaque R b = Ok c \<longrightarrow> c = b)"

lemma opaque_from_bytes_Ok: "opaque_law R \<Longrightarrow> opaque_from_bytes R b = Ok c \<Longrightarrow> c = b"
  by (cases "r_opaque R b") (auto simp: opaque_from_bytes_def opaque_law_def)

lemma value_wire_roundtrip:
  assumes "opaque_law R" and "to_var_bind_value R v = Ok w"
  shows "from_var_bind_value w = Ok (wire_value v)"
  using assms by (cases v) (auto simp: oid_to_rasn_Ok dest: opaque_from_bytes_Ok)

lemma varbind_wire_roundtrip:
  assumes "opaque_law R" and "varbind_to_rasn R vb = Ok w"
  shows "varbind_from_rasn w = Ok (wire_varbind vb)"
  using assms value_wire_roundtrip [OF assms(1)]
  by (auto simp: varbind_to_rasn_def varbind_from_rasn_def wire_varbind_def oid_to_rasn_Ok)

lemma collect_results_map:
  assumes "\<And>x y. x \<in> set xs \<Longrightarrow> f x = Ok y \<Longrightarrow> g y = Ok (h x)"
    and "collect_results (map f xs) = Ok ys"
  shows "collect_results (map g ys) = Ok (map h xs)"
  using assms by (induction xs arbitrary: ys) auto

lemma pdu_wire_roundtrip:
  assumes "opaque_law R" and "pdu_to_rasn R p = Ok ps"
  shows "pdu_from_rasn ps = Ok (wire_pdu p) \<and> ptype p \<noteq> TrapV1"
proof -
  obtain vbs st ix where vbs: "collect_results (map (varbind_to_rasn R) (variables p)) = Ok vbs"
    and st: "u32_try_from (error_status p) = Ok st" and ix: "u32_try_from (error_index p) = Ok ix"
    using assms(2) by (auto simp: pdu_to_rasn_def)
  let ?std = "\<lparr>rp_request_id = request_id p, rp_error_status = st, rp_error_index = ix, rp_bindings = vbs\<rparr>"
  have "pdus_parts ps = (ptype p, ?std) \<and> ptype p \<noteq> TrapV1"
    using assms(2) vbs st ix by (cases "ptype p") (auto simp: pdu_to_rasn_def)
  moreover have "collect_results (map varbind_from_rasn vbs) = Ok (map wire_varbind (variables p))"
    using collect_results_map [OF _ vbs] varbind_wire_roundtrip [OF assms(1)] by blast
  ultimately show ?thesis
    using u32_try_from_Ok [OF st] u32_try_from_Ok [OF ix]
    by (simp add: pdu_from_rasn_def wire_pdu_def)
qed

text \<open>SNMPv1 traps carry no exceptions and no 64-bit counters.\<close>

fun wire_value_v1 :: "value \<Rightarrow> value" where
  "wire_value_v1 (OidValue o1) = OidValue (wire_oid o1)"
| "wire_value_v1 NoSuchObject = Null"
| "wire_value_v1 NoSuchInstance = Null"
| "wire_value_v1 EndOfMibView = Null"
| "wire_value_v1 (Counter64 v) = Gauge32 (if unat v < 2 ^ 32 then word_of_nat (unat v) else 4294967295)"
| "wire_value_v1 v = v"

definition wire_trap :: "trap_v1 \<Rightarrow> varbind list \<Rightarrow> pdu" where
  "wire_trap t vbs =
     new_v1_trap (t\<lparr>enterprise := wire_oid (enterprise t)\<rparr>)
       (map (\<lambda>vb. \<lparr>vb_oid = wire_oid (vb_oid vb), vb_value = wire_value_v1 (vb_value vb)\<rparr>) vbs)"

lemma value_v1_roundtrip:
  assumes "opaque_law R" and "value_to_v1 R v = Ok w"
  shows "value_from_v1 w = wire_value_v1 v"
  using assms by (cases v) (auto simp: oid_to_rasn_Ok dest: opaque_from_bytes_Ok)

lemma varbinds_v1_roundtrip:
  assumes "opaque_law R" and "varbinds_to_v1 R vbs = Ok ws"
  shows "varbinds_from_v1 ws = map (\<lambda>vb. \<lparr>vb_oid = wire_oid (vb_oid vb), vb_value = wire_value_v1 (vb_value vb)\<rparr>) vbs"
  using assms(2)
proof (induction vbs arbitrary: ws)
  case (Cons vb vbs)
  then show ?case
    using value_v1_roundtrip [OF assms(1)]
    by (auto simp: varbinds_to_v1_def varbinds_from_v1_def oid_to_rasn_Ok)
qed (simp add: varbinds_to_v1_def varbinds_from_v1_def)

lemma small_i64: "0 \<le> i \<Longrightarrow> i < 2 ^ 32 \<Longrightarrow> int_to_i64 i = Ok (word_of_int i)"
  by (simp add: int_to_i64_def)

lemma trap_v1_roundtrip:
  assumes "trap_v1_to_rasn R t vbs = Ok r"
  shows "trap_v1_from_rasn r = Ok (t\<lparr>enterprise := wire_oid (enterprise t)\<rparr>, vbs)"
proof -
  have g: "0 \<le> uint (generic_trap t)" "uint (generic_trap t) < 256"
    using unsigned_less [of "generic_trap t", where 'a = int] by simp_all
  have sp: "0 \<le> uint (specific_trap t)" "uint (specific_trap t) < 2 ^ 32"
    using unsigned_less [of "specific_trap t", where 'a = int] by simp_all
  then have "int_to_i64 (uint (generic_trap t)) = Ok (word_of_int (uint (generic_trap t)))"
    "int_to_i64 (uint (specific_trap t)) = Ok (word_of_int (uint (specific_trap t)))"
    using g by (intro small_i64; simp)+
  then show ?thesis
    using assms g sp by (auto simp: trap_v1_to_rasn_def trap_v1_from_rasn_def oid_to_rasn_Ok Let_def)
qed

lemma pdu_v1_roundtrip:
  assumes "opaque_law R" and "pdu_to_v1_rasn R p = Ok r"
  shows "\<exists>t. v1_trap p = Some t \<and> pdu_from_v1_rasn r = Ok (wire_trap t (variables p))"
  using assms varbinds_v1_roundtrip [OF assms(1)]
  by (auto simp: pdu_to_v1_rasn_def pdu_from_v1_rasn_def wire_trap_def trap_v1_roundtrip split: option.splits)

text \<open>The laws of the two message codecs: decoding inverts encoding, and an SNMPv1 trap, whose tag
  the version 2 choice does not have, is refused by the version 2 decoder.\<close>

definition message_codec_laws :: "('r) rasn_scheme \<Rightarrow> bool" where
  "message_codec_laws R \<longleftrightarrow>
     (\<forall>m b. r_enc_message R m = Ok b \<longrightarrow> r_dec_message R b = Ok m) \<and>
     (\<forall>m b. r_enc_v1 R m = Ok b \<longrightarrow> r_dec_v1 R b = Ok m \<and> \<not> is_ok_result (r_dec_message R b))"

definition wire_message :: "message \<Rightarrow> message" where
  "wire_message m =
     m\<lparr>m_pdu := (case v1_trap (m_pdu m) of
                   Some t \<Rightarrow> if m_version m = V1 \<and> ptype (m_pdu m) = TrapV1
                             then wire_trap t (variables (m_pdu m)) else wire_pdu (m_pdu m)
                 | None \<Rightarrow> wire_pdu (m_pdu m))\<rparr>"

lemma version_from_code_code [simp]: "int_to_i64 (sint (version_code v)) = Ok (version_code v)"
  "version_from_code (version_code v) = Ok v"
  by simp (cases v; simp add: version_from_code_def)

lemma encode_error_Ok [simp]: "encode_error r = Ok x \<longleftrightarrow> r = Ok x"
  by (cases r) simp_all

lemma message_wire_decode:
  assumes "opaque_law R" and "message_codec_laws R" and "message_encode R m = Ok bytes"
  shows "message_decode R bytes = Ok (wire_message m)"
proof (cases "m_version m = V1 \<and> ptype (m_pdu m) = TrapV1")
  case True
  then obtain r where r: "pdu_to_v1_rasn R (m_pdu m) = Ok r"
    and b: "r_enc_v1 R \<lparr>vm_version = sint (version_code (m_version m)), vm_community = m_community m, vm_data = r\<rparr> = Ok bytes"
    using assms(3) by (auto simp: message_encode_def)
  obtain t where "v1_trap (m_pdu m) = Some t" "pdu_from_v1_rasn r = Ok (wire_trap t (variables (m_pdu m)))"
    using pdu_v1_roundtrip [OF assms(1) r] by blast
  moreover have "\<not> is_ok_result (r_dec_message R bytes)"
    using assms(2) b by (auto simp: message_codec_laws_def)
  then obtain e where "r_dec_message R bytes = Err e" by (cases "r_dec_message R bytes") auto
  moreover have "r_dec_v1 R bytes =
      Ok \<lparr>vm_version = sint (version_code (m_version m)), vm_community = m_community m, vm_data = r\<rparr>"
    using assms(2) b by (auto simp: message_codec_laws_def)
  ultimately show ?thesis
    using True version_from_code_code [of V1]
    by (cases m) (simp add: message_decode_def wire_message_def)
next
  case False
  then obtain ps where ps: "pdu_to_rasn R (m_pdu m) = Ok ps"
    and b: "r_enc_message R \<lparr>cm_version = sint (version_code (m_version m)), cm_community = m_community m, cm_data = ps\<rparr> = Ok bytes"
    using assms(3) by (auto simp: message_encode_def)
  have "pdu_from_rasn ps = Ok (wire_pdu (m_pdu m))" "ptype (m_pdu m) \<noteq> TrapV1"
    using pdu_wire_roundtrip [OF assms(1) ps] by auto
  moreover have "r_dec_message R bytes =
      Ok \<lparr>cm_version = sint (version_code (m_version m)), cm_community = m_community m, cm_data = ps\<rparr>"
    using assms(2) b by (auto simp: message_codec_laws_def)
  ultimately show ?thesis
    by (cases m) (simp add: message_decode_def wire_message_def split: option.split)
qed

text \<open>A codec that knows the messages of one PDU each, to see that the laws can hold.\<close>

definition demo_cm :: community_message where
  "demo_cm = \<lparr>cm_version = 1, cm_community = [112],
     cm_data = PGetRequest \<lparr>rp_request_id = 5, rp_error_status = 0, rp_error_index = 0,
       rp_bindings = [\<lparr>rv_name = [1, 0], rv_value = VUnspecified\<rparr>]\<rparr>\<rparr>"

definition demo_rasn :: rasn where
  "demo_rasn =
     \<lparr>r_oid_new = (\<lambda>arcs. 2 \<le> length arcs), r_opaque = Ok,
      r_enc_message = (\<lambda>m. if m = demo_cm then Ok [48] else Err ''unknown''),
      r_dec_message = (\<lambda>b. if b = [48] then Ok demo_cm else Err ''unknown''),
      r_enc_v1 = (\<lambda>m. Err ''unknown''), r_dec_v1 = (\<lambda>b. Err ''unknown'')\<rparr>"

lemma demo_rasn_laws: "opaque_law demo_rasn" "message_codec_laws demo_rasn"
  by (auto simp: opaque_law_def message_codec_laws_def demo_rasn_def split: if_splits)

text \<open>C27: Whatever community message encodes, decodes to itself: version, community, PDU type,
  request-id, the two status fields and every binding come back unchanged, except that an OID of
  fewer than two arcs is padded with zeros and that an SNMPv1 trap carries exceptions as \<open>Null\<close> and
  a 64-bit counter as a clamped gauge.\<close>

theorem message_wire_roundtrip:
  assumes "opaque_law R" and "message_codec_laws R" and "message_encode R m = Ok bytes"
  shows "message_decode R bytes = Ok (wire_message m)"
  using assms by (rule message_wire_decode)

theorem message_wire_roundtrip_witness:
  "message_decode demo_rasn [48] =
     Ok \<lparr>m_version = V2c, m_community = [112],
         m_pdu = (new_pdu Get 5)\<lparr>variables := [\<lparr>vb_oid = Oid [1, 0], vb_value = Null\<rparr>]\<rparr>\<rparr>"
proof -
  let ?m = "\<lparr>m_version = V2c, m_community = [112], m_pdu = with_null_var (new_pdu Get 5) (Oid [1])\<rparr>"
  have "message_encode demo_rasn ?m = Ok [48]"
    by (simp add: message_encode_def pdu_to_rasn_def varbind_to_rasn_def oid_to_rasn_def u32_try_from_def
        int_to_u32_def demo_rasn_def demo_cm_def with_null_var_def null_varbind_def new_pdu_def Let_def)
  from message_wire_roundtrip [OF demo_rasn_laws this] show ?thesis
    by (simp add: wire_message_def wire_pdu_def wire_varbind_def wire_oid_def with_null_var_def
        null_varbind_def new_pdu_def)
qed

end
