(* ===== verification/Rust_Bytes.thy ===== *)
theory Rust_Bytes
  imports Rust_Strings
begin

text \<open>
  The integer/byte-array conversions of the Rust standard library (\<^verbatim>\<open>to_le_bytes\<close>,
  \<^verbatim>\<open>from_be_bytes\<close>, ...), and the interface \<^verbatim>\<open>remaining_codec\<close> of an encoder with a decoder that
  hands back the bytes it did not consume.
\<close>

section \<open>Positional notation\<close>

primrec le_digits :: "nat \<Rightarrow> nat \<Rightarrow> u8 list" where
  "le_digits 0 x = []"
| "le_digits (Suc n) x = word_of_nat x # le_digits n (x div 256)"

primrec le_value :: "u8 list \<Rightarrow> nat" where
  "le_value [] = 0"
| "le_value (b # bs) = unat b + 256 * le_value bs"

lemma length_le_digits [simp]: "length (le_digits n x) = n"
  by (induction n arbitrary: x) auto

lemma le_value_le_digits: "le_value (le_digits n x) = x mod 256 ^ n"
proof (induction n arbitrary: x)
  case 0
  then show ?case by simp
next
  case (Suc n)
  have "unat (word_of_nat x :: u8) = x mod 256"
    by (simp add: unat_of_nat take_bit_eq_mod)
  then show ?case using Suc.IH [of "x div 256"]
    by (simp add: mod_mult2_eq add.commute)
qed

section \<open>Words\<close>

definition u16_to_le_bytes :: "u16 \<Rightarrow> u8 list" where
  "u16_to_le_bytes w = le_digits 2 (unat w)"

definition u32_to_le_bytes :: "u32 \<Rightarrow> u8 list" where
  "u32_to_le_bytes w = le_digits 4 (unat w)"

definition u64_to_le_bytes :: "u64 \<Rightarrow> u8 list" where
  "u64_to_le_bytes w = le_digits 8 (unat w)"

definition u16_to_be_bytes :: "u16 \<Rightarrow> u8 list" where
  "u16_to_be_bytes w = rev (u16_to_le_bytes w)"

definition u32_to_be_bytes :: "u32 \<Rightarrow> u8 list" where
  "u32_to_be_bytes w = rev (u32_to_le_bytes w)"

definition u64_to_be_bytes :: "u64 \<Rightarrow> u8 list" where
  "u64_to_be_bytes w = rev (u64_to_le_bytes w)"

definition u16_from_le_bytes :: "u8 list \<Rightarrow> u16" where
  "u16_from_le_bytes bs = word_of_nat (le_value bs)"

definition u32_from_le_bytes :: "u8 list \<Rightarrow> u32" where
  "u32_from_le_bytes bs = word_of_nat (le_value bs)"

definition u64_from_le_bytes :: "u8 list \<Rightarrow> u64" where
  "u64_from_le_bytes bs = word_of_nat (le_value bs)"

definition u16_from_be_bytes :: "u8 list \<Rightarrow> u16" where
  "u16_from_be_bytes bs = u16_from_le_bytes (rev bs)"

definition u32_from_be_bytes :: "u8 list \<Rightarrow> u32" where
  "u32_from_be_bytes bs = u32_from_le_bytes (rev bs)"

definition u64_from_be_bytes :: "u8 list \<Rightarrow> u64" where
  "u64_from_be_bytes bs = u64_from_le_bytes (rev bs)"

lemmas to_bytes_defs = u16_to_le_bytes_def u32_to_le_bytes_def u64_to_le_bytes_def
  u16_to_be_bytes_def u32_to_be_bytes_def u64_to_be_bytes_def

lemmas from_bytes_defs = u16_from_le_bytes_def u32_from_le_bytes_def u64_from_le_bytes_def
  u16_from_be_bytes_def u32_from_be_bytes_def u64_from_be_bytes_def

lemma length_to_bytes [simp]:
  "length (u16_to_le_bytes w) = 2" "length (u16_to_be_bytes w) = 2"
  "length (u32_to_le_bytes v) = 4" "length (u32_to_be_bytes v) = 4"
  "length (u64_to_le_bytes u) = 8" "length (u64_to_be_bytes u) = 8"
  by (simp_all add: to_bytes_defs)

lemma unat_mod_width:
  "unat (w :: u16) mod 256 ^ 2 = unat w" "unat (v :: u32) mod 256 ^ 4 = unat v"
  "unat (u :: u64) mod 256 ^ 8 = unat u"
  using unsigned_less [of w, where 'a = nat] unsigned_less [of v, where 'a = nat]
    unsigned_less [of u, where 'a = nat] by simp_all

lemma from_to_bytes [simp]:
  "u16_from_le_bytes (u16_to_le_bytes w) = w" "u16_from_be_bytes (u16_to_be_bytes w) = w"
  "u32_from_le_bytes (u32_to_le_bytes v) = v" "u32_from_be_bytes (u32_to_be_bytes v) = v"
  "u64_from_le_bytes (u64_to_le_bytes u) = u" "u64_from_be_bytes (u64_to_be_bytes u) = u"
  by (simp_all only: to_bytes_defs from_bytes_defs le_value_le_digits unat_mod_width rev_rev_ident)
    simp_all

section \<open>Codecs that return the remaining input\<close>

text \<open>
  The contract between an encoder that appends to a buffer and a decoder that reads from the
  front of a slice: decoding an encoding followed by anything gives the value back and
  leaves exactly what followed.  \<open>dom\<close> is the set of values the wire format can carry.
\<close>

locale remaining_codec =
  fixes encode :: "'a \<Rightarrow> u8 list"
    and decode :: "u8 list \<Rightarrow> ('a \<times> u8 list, 'e) result"
    and dom :: "'a \<Rightarrow> bool"
  assumes decode_encode: "dom x \<Longrightarrow> decode (encode x @ rest) = Ok (x, rest)"
begin

lemma encode_inj: "dom x \<Longrightarrow> dom y \<Longrightarrow> encode x = encode y \<Longrightarrow> x = y"
  using decode_encode [of x "[]"] decode_encode [of y "[]"] by simp

text \<open>No encoding is a proper prefix of another one, so concatenations split uniquely.\<close>

lemma encode_prefix_free: "dom x \<Longrightarrow> dom y \<Longrightarrow> encode x @ r = encode y @ r' \<Longrightarrow> x = y \<and> r = r'"
  by (metis Pair_inject decode_encode result.inject(1))

lemma concat_encode_inj:
  assumes "\<And>x. dom x \<Longrightarrow> encode x \<noteq> []"
  shows "list_all dom xs \<Longrightarrow> list_all dom ys \<Longrightarrow>
    concat (map encode xs) = concat (map encode ys) \<Longrightarrow> xs = ys"
proof (induction xs arbitrary: ys)
  case Nil
  then show ?case using assms by (cases ys) auto
next
  case (Cons x xs)
  then obtain y ys' where ys: "ys = y # ys'"
    using assms by (cases ys) auto
  with Cons.prems have "x = y \<and> concat (map encode xs) = concat (map encode ys')"
    using encode_prefix_free [of x y] by simp
  then show ?case using Cons ys by simp
qed

end

end
