(* ===== verification/Snmp_Usm.thy ===== *)
theory Snmp_Usm
  imports Snmp_Wire Rust_Bytes
begin

text \<open>
  The user-based security model (\<^verbatim>\<open>crates/netsnmp/src/usm/\<close>): protocols, security levels, users, key
  derivation and localization, message authentication, privacy, and the key-change construction.
  The hash functions, their keyed MACs and AES in CFB mode come from other crates; they are the
  parameter \<open>crypto\<close>.
\<close>

section \<open>Protocols and levels\<close>

datatype auth_protocol = HmacMd5 | HmacSha1 | HmacSha256

datatype priv_protocol = AesCfb128

datatype security_level = NoAuthNoPriv | AuthNoPriv | AuthPriv

fun flag_bits :: "security_level \<Rightarrow> u8" where
  "flag_bits NoAuthNoPriv = 0"
| "flag_bits AuthNoPriv = 1"
| "flag_bits AuthPriv = 3"

definition has_auth :: "security_level \<Rightarrow> bool" where
  "has_auth l \<longleftrightarrow> l = AuthNoPriv \<or> l = AuthPriv"

definition has_priv :: "security_level \<Rightarrow> bool" where
  "has_priv l \<longleftrightarrow> l = AuthPriv"

text \<open>
  \<open>c_hash\<close> and \<open>c_hmac\<close> are the digest and the full-length HMAC of a protocol's hash; \<open>c_encrypt\<close> and
  \<open>c_decrypt\<close> are AES-128-CFB under a key and an initialization vector of 16 bytes.
\<close>

record crypto =
  c_hash :: "auth_protocol \<Rightarrow> u8 list \<Rightarrow> u8 list"
  c_hmac :: "auth_protocol \<Rightarrow> u8 list \<Rightarrow> u8 list \<Rightarrow> u8 list"
  c_encrypt :: "u8 list \<Rightarrow> u8 list \<Rightarrow> u8 list \<Rightarrow> u8 list"
  c_decrypt :: "u8 list \<Rightarrow> u8 list \<Rightarrow> u8 list \<Rightarrow> u8 list"

section \<open>Authentication\<close>

definition mac_len :: "auth_protocol \<Rightarrow> nat" where
  "mac_len p = (case p of HmacMd5 \<Rightarrow> 12 | HmacSha1 \<Rightarrow> 12 | HmacSha256 \<Rightarrow> 24)"

definition KU_EXPANSION_BYTES :: nat where
  "KU_EXPANSION_BYTES = 1048576"

text \<open>The blocks of 64 bytes that are fed to the hash, one after the other.\<close>

definition ku_material :: "u8 list \<Rightarrow> u8 list" where
  "ku_material password =
     map (\<lambda>idx. password ! (idx mod length password)) [0 ..< KU_EXPANSION_BYTES]"

definition generate_ku :: "(u8 list \<Rightarrow> u8 list) \<Rightarrow> u8 list \<Rightarrow> u8 list" where
  "generate_ku H password = (if password = [] then H [] else H (ku_material password))"

definition localize_key :: "(u8 list \<Rightarrow> u8 list) \<Rightarrow> u8 list \<Rightarrow> u8 list \<Rightarrow> u8 list" where
  "localize_key H ku engine_id = H (ku @ engine_id @ ku)"

definition localized_key :: "crypto \<Rightarrow> auth_protocol \<Rightarrow> u8 list \<Rightarrow> u8 list \<Rightarrow> u8 list" where
  "localized_key C p password engine_id =
     localize_key (c_hash C p) (generate_ku (c_hash C p) password) engine_id"

definition mac :: "crypto \<Rightarrow> auth_protocol \<Rightarrow> u8 list \<Rightarrow> u8 list \<Rightarrow> u8 list" where
  "mac C p key msg = take (mac_len p) (c_hmac C p key msg)"

definition mac_verify :: "crypto \<Rightarrow> auth_protocol \<Rightarrow> u8 list \<Rightarrow> u8 list \<Rightarrow> u8 list \<Rightarrow> bool" where
  "mac_verify C p key msg tag \<longleftrightarrow> mac C p key msg = tag"

definition xor_bytes :: "u8 list \<Rightarrow> u8 list \<Rightarrow> u8 list" where
  "xor_bytes delta h = map2 (XOR) (take (length h) delta) h @ drop (length h) delta"

text \<open>\<^const>\<open>None\<close> is the assertion failure for too few random octets.\<close>

definition key_change ::
  "crypto \<Rightarrow> auth_protocol \<Rightarrow> u8 list \<Rightarrow> u8 list \<Rightarrow> u8 list \<Rightarrow> u8 list \<Rightarrow> u8 list option" where
  "key_change C p old_password new_password engine_id random =
     (let old_key = localized_key C p old_password engine_id;
          new_key = localized_key C p new_password engine_id;
          key_len = length old_key
      in if length random < key_len then None
         else (let rnd = take key_len random
               in Some (rnd @ xor_bytes new_key (c_hash C p (old_key @ rnd)))))"

section \<open>Privacy\<close>

definition key_len :: "priv_protocol \<Rightarrow> nat" where
  "key_len p = (case p of AesCfb128 \<Rightarrow> 16)"

definition aes_iv :: "u32 \<Rightarrow> u32 \<Rightarrow> u8 list \<Rightarrow> u8 list" where
  "aes_iv engine_boots engine_time salt =
     u32_to_be_bytes engine_boots @ u32_to_be_bytes engine_time
     @ take 8 salt @ replicate (8 - length salt) 0"

definition priv_encrypt ::
  "crypto \<Rightarrow> priv_protocol \<Rightarrow> u8 list \<Rightarrow> u32 \<Rightarrow> u32 \<Rightarrow> u8 list \<Rightarrow> u8 list \<Rightarrow> (u8 list, snmp_error) result" where
  "priv_encrypt C p priv_key boots time salt plaintext =
     (if length priv_key < key_len p then Err (PrivFailure ''privacy key too short'')
      else Ok (c_encrypt C (take 16 priv_key) (aes_iv boots time salt) plaintext))"

definition priv_decrypt ::
  "crypto \<Rightarrow> priv_protocol \<Rightarrow> u8 list \<Rightarrow> u32 \<Rightarrow> u32 \<Rightarrow> u8 list \<Rightarrow> u8 list \<Rightarrow> (u8 list, snmp_error) result" where
  "priv_decrypt C p priv_key boots time salt ciphertext =
     (if length priv_key < key_len p then Err (PrivFailure ''privacy key too short'')
      else if length salt \<noteq> 8 then Err (PrivFailure ''AES privacy salt must be 8 bytes'')
      else Ok (c_decrypt C (take 16 priv_key) (aes_iv boots time salt) ciphertext))"

section \<open>Users\<close>

record usm_user =
  u_name :: string
  u_auth :: "(auth_protocol \<times> string) option"
  u_priv :: "(priv_protocol \<times> string) option"

definition usm_noauth :: "string \<Rightarrow> usm_user" where
  "usm_noauth name = \<lparr>u_name = name, u_auth = None, u_priv = None\<rparr>"

definition usm_auth :: "string \<Rightarrow> auth_protocol \<Rightarrow> string \<Rightarrow> usm_user" where
  "usm_auth name proto password = \<lparr>u_name = name, u_auth = Some (proto, password), u_priv = None\<rparr>"

definition usm_auth_priv ::
  "string \<Rightarrow> auth_protocol \<Rightarrow> string \<Rightarrow> priv_protocol \<Rightarrow> string \<Rightarrow> usm_user" where
  "usm_auth_priv name aproto apass pproto ppass =
     \<lparr>u_name = name, u_auth = Some (aproto, apass), u_priv = Some (pproto, ppass)\<rparr>"

definition user_level :: "usm_user \<Rightarrow> security_level" where
  "user_level u =
     (if u_auth u \<noteq> None \<and> u_priv u \<noteq> None then AuthPriv
      else if u_auth u \<noteq> None then AuthNoPriv else NoAuthNoPriv)"

definition auth_key :: "crypto \<Rightarrow> usm_user \<Rightarrow> u8 list \<Rightarrow> u8 list option" where
  "auth_key C u engine_id =
     (case u_auth u of
        None \<Rightarrow> None
      | Some (proto, pw) \<Rightarrow> Some (localized_key C proto (as_bytes pw) engine_id))"

definition priv_key :: "crypto \<Rightarrow> usm_user \<Rightarrow> u8 list \<Rightarrow> u8 list option" where
  "priv_key C u engine_id =
     (case u_auth u of
        None \<Rightarrow> None
      | Some (auth_proto, _) \<Rightarrow>
          (case u_priv u of
             None \<Rightarrow> None
           | Some (priv_proto, priv_pw) \<Rightarrow>
               (let key = localized_key C auth_proto (as_bytes priv_pw) engine_id
                in if length key < key_len priv_proto then None
                   else Some (take (key_len priv_proto) key))))"

section \<open>Properties\<close>

lemma has_auth_user: "has_auth (user_level u) \<longleftrightarrow> u_auth u \<noteq> None"
  by (auto simp: has_auth_def user_level_def)

lemma has_priv_user: "has_priv (user_level u) \<longleftrightarrow> u_auth u \<noteq> None \<and> u_priv u \<noteq> None"
  by (auto simp: has_priv_def user_level_def)

lemma flag_bits_levels: "bit (flag_bits l) 0 \<longleftrightarrow> has_auth l" "bit (flag_bits l) 1 \<longleftrightarrow> has_priv l"
  by (cases l; simp add: has_auth_def has_priv_def)+

lemma xor_bytes_involution: "length h \<le> length d \<Longrightarrow> xor_bytes (xor_bytes d h) h = d"
proof -
  assume len: "length h \<le> length d"
  have "map2 (XOR) (map2 (XOR) ds hs) hs = ds" if "length ds = length hs" for ds hs :: "u8 list"
    using that by (induction ds hs rule: list_induct2) (simp_all add: ac_simps)
  with len show ?thesis by (simp add: xor_bytes_def)
qed

text \<open>The receiver of a key change, who knows the old key, recovers exactly the new one: the second
  half of the value XORed with the digest of the old key and the random half.\<close>

lemma key_change_recovers:
  assumes "key_change C p old_password new_password engine_id random = Some kc"
    and "length (localized_key C p old_password engine_id) = length (localized_key C p new_password engine_id)"
    and "length (c_hash C p (localized_key C p old_password engine_id @ take (length (localized_key C p old_password engine_id)) kc))
           \<le> length (localized_key C p new_password engine_id)"
  shows "xor_bytes (drop (length (localized_key C p old_password engine_id)) kc)
           (c_hash C p (localized_key C p old_password engine_id
              @ take (length (localized_key C p old_password engine_id)) kc)) =
         localized_key C p new_password engine_id"
  using assms by (auto simp: key_change_def Let_def xor_bytes_involution split: if_splits)

lemma priv_roundtrip:
  assumes "\<And>k iv d. c_decrypt C k iv (c_encrypt C k iv d) = d"
    and "priv_encrypt C p key boots time salt d = Ok ct" and "length salt = 8"
  shows "priv_decrypt C p key boots time salt ct = Ok d"
  using assms by (auto simp: priv_encrypt_def priv_decrypt_def split: if_splits)

end
