(* ===== verification/Snmp_V3.thy ===== *)
theory Snmp_V3
  imports Snmp_Usm
begin

text \<open>
  SNMPv3 messages over the user-based security model (\<^verbatim>\<open>crates/netsnmp/src/v3/\<close>): header, security
  parameters, scoped PDU and their wire structures, building requests, responses and reports, and
  the receiving path that verifies and decrypts.  The record \<open>v3_rasn\<close> extends the codec parameter
  of \<^verbatim>\<open>Snmp_Wire\<close> by the structures of version 3; random salts are arguments.
\<close>

unbundle bit_operations_syntax

section \<open>Wire structures\<close>

record rasn_header =
  rh_message_id :: int
  rh_max_size :: int
  rh_flags :: "u8 list"
  rh_security_model :: int

record rasn_usm =
  ru_engine_id :: "u8 list"
  ru_engine_boots :: int
  ru_engine_time :: int
  ru_user_name :: "u8 list"
  ru_auth_params :: "u8 list"
  ru_priv_params :: "u8 list"

record rasn_scoped =
  rs_engine_id :: "u8 list"
  rs_name :: "u8 list"
  rs_data :: pdus

record raw_v3_message =
  rw_version :: int
  rw_global_data :: rasn_header
  rw_security_parameters :: "u8 list"
  rw_scoped_data :: "u8 list"

record v3_rasn = rasn +
  r_dec_any :: "u8 list \<Rightarrow> (u8 list list, string) result"
  r_dec_integer :: "u8 list \<Rightarrow> (int, string) result"
  r_enc_raw :: "raw_v3_message \<Rightarrow> (u8 list, string) result"
  r_dec_raw :: "u8 list \<Rightarrow> (raw_v3_message, string) result"
  r_enc_usm :: "rasn_usm \<Rightarrow> (u8 list, string) result"
  r_dec_usm :: "u8 list \<Rightarrow> (rasn_usm, string) result"
  r_enc_scoped :: "rasn_scoped \<Rightarrow> (u8 list, string) result"
  r_dec_scoped :: "u8 list \<Rightarrow> (rasn_scoped, string) result"
  r_enc_octets :: "u8 list \<Rightarrow> (u8 list, string) result"
  r_dec_octets :: "u8 list \<Rightarrow> (u8 list, string) result"

section \<open>Domain types\<close>

definition VERSION_V3 :: i64 where
  "VERSION_V3 = 3"

definition SECURITY_MODEL_USM :: i64 where
  "SECURITY_MODEL_USM = 3"

definition DEFAULT_MAX_SIZE :: i64 where
  "DEFAULT_MAX_SIZE = 65507"

definition FLAG_AUTH :: u8 where
  "FLAG_AUTH = 1"

definition FLAG_PRIV :: u8 where
  "FLAG_PRIV = 2"

definition FLAG_REPORTABLE :: u8 where
  "FLAG_REPORTABLE = 4"

record header_data =
  hd_msg_id :: i32
  hd_max_size :: i32
  hd_flags :: u8
  hd_security_model :: i32

definition header_to_rasn :: "header_data \<Rightarrow> rasn_header" where
  "header_to_rasn h =
     \<lparr>rh_message_id = sint (hd_msg_id h), rh_max_size = sint (hd_max_size h), rh_flags = [hd_flags h],
      rh_security_model = sint (hd_security_model h)\<rparr>"

definition int_as_i32 :: "int \<Rightarrow> (i32, snmp_error) result" where
  "int_as_i32 i = bind_result (int_to_i64 i) (\<lambda>w. Ok (word_of_int (sint w)))"

definition header_from_rasn :: "rasn_header \<Rightarrow> (header_data, snmp_error) result" where
  "header_from_rasn h =
     bind_result (int_as_i32 (rh_message_id h)) (\<lambda>mid.
     bind_result (int_as_i32 (rh_max_size h)) (\<lambda>ms.
     bind_result (int_as_i32 (rh_security_model h)) (\<lambda>sm.
       Ok \<lparr>hd_msg_id = mid, hd_max_size = ms,
           hd_flags = (case rh_flags h of [] \<Rightarrow> 0 | f # _ \<Rightarrow> f), hd_security_model = sm\<rparr>)))"

record usm_params =
  us_engine_id :: "u8 list"
  us_engine_boots :: u32
  us_engine_time :: u32
  us_user_name :: "u8 list"
  us_auth_params :: "u8 list"
  us_priv_params :: "u8 list"

definition usm_default :: usm_params where
  "usm_default =
     \<lparr>us_engine_id = [], us_engine_boots = 0, us_engine_time = 0, us_user_name = [],
      us_auth_params = [], us_priv_params = []\<rparr>"

definition usm_to_rasn :: "usm_params \<Rightarrow> rasn_usm" where
  "usm_to_rasn u =
     \<lparr>ru_engine_id = us_engine_id u, ru_engine_boots = uint (us_engine_boots u),
      ru_engine_time = uint (us_engine_time u), ru_user_name = us_user_name u,
      ru_auth_params = us_auth_params u, ru_priv_params = us_priv_params u\<rparr>"

definition usm_from_rasn :: "rasn_usm \<Rightarrow> (usm_params, snmp_error) result" where
  "usm_from_rasn p =
     bind_result (int_to_u32 (ru_engine_boots p)) (\<lambda>b.
     bind_result (int_to_u32 (ru_engine_time p)) (\<lambda>t.
       Ok \<lparr>us_engine_id = ru_engine_id p, us_engine_boots = b, us_engine_time = t,
           us_user_name = ru_user_name p, us_auth_params = ru_auth_params p,
           us_priv_params = ru_priv_params p\<rparr>))"

definition usm_to_ber :: "v3_rasn \<Rightarrow> usm_params \<Rightarrow> (u8 list, snmp_error) result" where
  "usm_to_ber R u = encode_error (r_enc_usm R (usm_to_rasn u))"

definition usm_decode_ber :: "v3_rasn \<Rightarrow> u8 list \<Rightarrow> (usm_params, snmp_error) result" where
  "usm_decode_ber R bytes = bind_result (decode_error (r_dec_usm R bytes)) usm_from_rasn"

record scoped_pdu =
  sc_engine_id :: "u8 list"
  sc_context_name :: "u8 list"
  sc_pdu :: pdu

definition scoped_to_ber :: "v3_rasn \<Rightarrow> scoped_pdu \<Rightarrow> (u8 list, snmp_error) result" where
  "scoped_to_ber R s =
     bind_result (pdu_to_rasn R (sc_pdu s)) (\<lambda>d.
       encode_error (r_enc_scoped R \<lparr>rs_engine_id = sc_engine_id s, rs_name = sc_context_name s, rs_data = d\<rparr>))"

definition scoped_decode_ber :: "v3_rasn \<Rightarrow> u8 list \<Rightarrow> (scoped_pdu, snmp_error) result" where
  "scoped_decode_ber R bytes =
     bind_result (decode_error (r_dec_scoped R bytes)) (\<lambda>s.
     bind_result (pdu_from_rasn (rs_data s)) (\<lambda>p.
       Ok \<lparr>sc_engine_id = rs_engine_id s, sc_context_name = rs_name s, sc_pdu = p\<rparr>))"

record engine_params =
  en_engine_id :: "u8 list"
  en_engine_boots :: u32
  en_engine_time :: u32

record v3_message =
  v3_header :: header_data
  v3_usm :: usm_params
  v3_scoped :: scoped_pdu

definition reportable :: "v3_message \<Rightarrow> bool" where
  "reportable m \<longleftrightarrow> hd_flags (v3_header m) AND FLAG_REPORTABLE \<noteq> 0"

section \<open>Building\<close>

datatype usm_stat =
    UnsupportedSecLevels
  | NotInTimeWindows
  | UnknownUserNames
  | UnknownEngineIDs
  | WrongDigests
  | DecryptionErrors

fun stat_subid :: "usm_stat \<Rightarrow> u32" where
  "stat_subid UnsupportedSecLevels = 1"
| "stat_subid NotInTimeWindows = 2"
| "stat_subid UnknownUserNames = 3"
| "stat_subid UnknownEngineIDs = 4"
| "stat_subid WrongDigests = 5"
| "stat_subid DecryptionErrors = 6"

definition USM_STATS_PREFIX :: "u32 list" where
  "USM_STATS_PREFIX = [1, 3, 6, 1, 6, 3, 15, 1, 1]"

definition stat_oid :: "usm_stat \<Rightarrow> oid" where
  "stat_oid st = Oid (USM_STATS_PREFIX @ [stat_subid st, 0])"

definition encode_with ::
  "v3_rasn \<Rightarrow> header_data \<Rightarrow> u8 list \<Rightarrow> usm_params \<Rightarrow> (u8 list, snmp_error) result" where
  "encode_with R header scoped_data usm =
     bind_result (usm_to_ber R usm) (\<lambda>sp.
       encode_error (r_enc_raw R \<lparr>rw_version = sint VERSION_V3, rw_global_data = header_to_rasn header,
                                  rw_security_parameters = sp, rw_scoped_data = scoped_data\<rparr>))"

definition assemble ::
  "crypto \<Rightarrow> v3_rasn \<Rightarrow> header_data \<Rightarrow> usm_params \<Rightarrow> u8 list \<Rightarrow> (auth_protocol \<times> u8 list) option
     \<Rightarrow> (u8 list, snmp_error) result" where
  "assemble C R header usm scoped_data auth =
     (case auth of
        None \<Rightarrow> encode_with R header scoped_data usm
      | Some (proto, key) \<Rightarrow>
          bind_result (encode_with R header scoped_data usm) (\<lambda>zeroed.
            encode_with R header scoped_data
              (usm\<lparr>us_auth_params := take (mac_len proto) (mac C proto key zeroed)\<rparr>)))"

definition build_message ::
  "crypto \<Rightarrow> v3_rasn \<Rightarrow> u8 list \<Rightarrow> i32 \<Rightarrow> bool \<Rightarrow> security_level \<Rightarrow> u8 list \<Rightarrow> engine_params \<Rightarrow> u8 list
     \<Rightarrow> (auth_protocol \<times> u8 list) option \<Rightarrow> (priv_protocol \<times> u8 list) option \<Rightarrow> pdu
     \<Rightarrow> (u8 list, snmp_error) result" where
  "build_message C R salt msg_id rpt level user_name engine context_engine_id auth priv p =
     (let ctx_engine = (if context_engine_id = [] then en_engine_id engine else context_engine_id)
      in bind_result (scoped_to_ber R \<lparr>sc_engine_id = ctx_engine, sc_context_name = [], sc_pdu = p\<rparr>) (\<lambda>scoped_bytes.
         let flags = (if rpt then FLAG_REPORTABLE else 0) OR (if has_auth level then FLAG_AUTH else 0)
                       OR (if has_priv level then FLAG_PRIV else 0)
         in bind_result
              (if has_priv level then
                 (case priv of
                    None \<Rightarrow> Err (PrivFailure ''privacy requested but unconfigured'')
                  | Some (proto, key) \<Rightarrow>
                      bind_result (priv_encrypt C proto key (en_engine_boots engine) (en_engine_time engine) salt scoped_bytes) (\<lambda>ct.
                      bind_result (encode_error (r_enc_octets R ct)) (\<lambda>tlv. Ok (tlv, salt))))
               else Ok (scoped_bytes, []))
              (\<lambda>(scoped_data, priv_params).
                 bind_result
                   (if has_auth level then
                      (case auth of
                         None \<Rightarrow> Err (AuthFailure ''auth requested but unconfigured'')
                       | Some (proto, _) \<Rightarrow> Ok (replicate (mac_len proto) 0))
                    else Ok [])
                   (\<lambda>placeholder.
                      assemble C R
                        \<lparr>hd_msg_id = msg_id, hd_max_size = word_of_int (sint DEFAULT_MAX_SIZE), hd_flags = flags,
                         hd_security_model = word_of_int (sint SECURITY_MODEL_USM)\<rparr>
                        \<lparr>us_engine_id = en_engine_id engine, us_engine_boots = en_engine_boots engine,
                         us_engine_time = en_engine_time engine, us_user_name = user_name,
                         us_auth_params = placeholder, us_priv_params = priv_params\<rparr>
                        scoped_data auth))))"

definition user_auth_part ::
  "crypto \<Rightarrow> usm_user \<Rightarrow> u8 list \<Rightarrow> ((auth_protocol \<times> u8 list) option, snmp_error) result" where
  "user_auth_part C user engine_id =
     (if has_auth (user_level user) then
        (case u_auth user of
           None \<Rightarrow> Err (AuthFailure ''auth requested but unconfigured'')
         | Some (proto, _) \<Rightarrow>
             (case auth_key C user engine_id of
                None \<Rightarrow> Err (AuthFailure ''could not derive auth key'')
              | Some key \<Rightarrow> Ok (Some (proto, key))))
      else Ok None)"

definition user_priv_part ::
  "crypto \<Rightarrow> usm_user \<Rightarrow> u8 list \<Rightarrow> ((priv_protocol \<times> u8 list) option, snmp_error) result" where
  "user_priv_part C user engine_id =
     (if has_priv (user_level user) then
        (case u_priv user of
           None \<Rightarrow> Err (PrivFailure ''privacy requested but unconfigured'')
         | Some (proto, _) \<Rightarrow>
             (case priv_key C user engine_id of
                None \<Rightarrow> Err (PrivFailure ''could not derive privacy key'')
              | Some key \<Rightarrow> Ok (Some (proto, key))))
      else Ok None)"

definition build_user_message ::
  "crypto \<Rightarrow> v3_rasn \<Rightarrow> u8 list \<Rightarrow> i32 \<Rightarrow> bool \<Rightarrow> usm_user \<Rightarrow> engine_params \<Rightarrow> u8 list \<Rightarrow> pdu
     \<Rightarrow> (u8 list, snmp_error) result" where
  "build_user_message C R salt msg_id rpt user engine context_engine_id p =
     bind_result (user_auth_part C user (en_engine_id engine)) (\<lambda>auth.
     bind_result (user_priv_part C user (en_engine_id engine)) (\<lambda>priv.
       build_message C R salt msg_id rpt (user_level user) (as_bytes (u_name user)) engine
         context_engine_id auth priv p))"

definition build_request where
  "build_request C R salt msg_id user engine ctx p = build_user_message C R salt msg_id True user engine ctx p"

definition build_response where
  "build_response C R salt msg_id user engine ctx p = build_user_message C R salt msg_id False user engine ctx p"

definition build_discovery :: "crypto \<Rightarrow> v3_rasn \<Rightarrow> i32 \<Rightarrow> i32 \<Rightarrow> (u8 list, snmp_error) result" where
  "build_discovery C R msg_id rid =
     bind_result (scoped_to_ber R \<lparr>sc_engine_id = [], sc_context_name = [], sc_pdu = new_pdu Get rid\<rparr>) (\<lambda>sb.
       assemble C R
         \<lparr>hd_msg_id = msg_id, hd_max_size = word_of_int (sint DEFAULT_MAX_SIZE), hd_flags = FLAG_REPORTABLE,
          hd_security_model = word_of_int (sint SECURITY_MODEL_USM)\<rparr> usm_default sb None)"

definition build_report ::
  "crypto \<Rightarrow> v3_rasn \<Rightarrow> u8 list \<Rightarrow> i32 \<Rightarrow> usm_user option \<Rightarrow> engine_params \<Rightarrow> usm_stat \<Rightarrow> u32 \<Rightarrow> i32
     \<Rightarrow> (u8 list, snmp_error) result" where
  "build_report C R salt msg_id user engine st count rid =
     (let p = with_var (new_pdu Report rid) (stat_oid st) (Counter32 count);
          plain = build_message C R salt msg_id False NoAuthNoPriv [] engine (en_engine_id engine) None None p
      in case user of
           None \<Rightarrow> plain
         | Some u \<Rightarrow>
             (case u_auth u of
                None \<Rightarrow> plain
              | Some (proto, _) \<Rightarrow>
                  (case auth_key C u (en_engine_id engine) of
                     None \<Rightarrow> Err (AuthFailure ''could not derive auth key'')
                   | Some key \<Rightarrow>
                       build_message C R salt msg_id False AuthNoPriv (as_bytes (u_name u)) engine
                         (en_engine_id engine) (Some (proto, key)) None p)))"

section \<open>Receiving\<close>

definition message_version :: "v3_rasn \<Rightarrow> u8 list \<Rightarrow> (i64, snmp_error) result" where
  "message_version R bytes =
     bind_result (decode_error (r_dec_any R bytes)) (\<lambda>elements.
       case elements of
         [] \<Rightarrow> Err (ProtocolError ''empty SNMP message'')
       | first # _ \<Rightarrow> bind_result (decode_error (r_dec_integer R first)) int_to_i64)"

definition peek_security :: "v3_rasn \<Rightarrow> u8 list \<Rightarrow> (header_data \<times> usm_params, snmp_error) result" where
  "peek_security R bytes =
     bind_result (message_version R bytes) (\<lambda>version.
       if version \<noteq> VERSION_V3 then Err (UnsupportedVersion version)
       else bind_result (decode_error (r_dec_raw R bytes)) (\<lambda>raw.
            bind_result (header_from_rasn (rw_global_data raw)) (\<lambda>header.
            bind_result (usm_decode_ber R (rw_security_parameters raw)) (\<lambda>usm.
              Ok (header, usm)))))"

definition verify_auth ::
  "crypto \<Rightarrow> v3_rasn \<Rightarrow> raw_v3_message \<Rightarrow> usm_params \<Rightarrow> usm_user option \<Rightarrow> (unit, snmp_error) result" where
  "verify_auth C R raw usm user =
     (case user of
        None \<Rightarrow> Err (AuthFailure ''authenticated message but no user'')
      | Some u \<Rightarrow>
          (case u_auth u of
             None \<Rightarrow> Err (AuthFailure ''user has no auth protocol'')
           | Some (proto, _) \<Rightarrow>
               (case auth_key C u (us_engine_id usm) of
                  None \<Rightarrow> Err (AuthFailure ''could not derive auth key'')
                | Some key \<Rightarrow>
                    if length (us_auth_params usm) \<noteq> mac_len proto
                    then Err (AuthFailure ''malformed auth parameters'')
                    else bind_result (usm_to_ber R (usm\<lparr>us_auth_params := replicate (mac_len proto) 0\<rparr>)) (\<lambda>sp.
                         bind_result (encode_error (r_enc_raw R (raw\<lparr>rw_security_parameters := sp\<rparr>))) (\<lambda>to_hash.
                           if mac_verify C proto key to_hash (us_auth_params usm) then Ok ()
                           else Err (AuthFailure ''HMAC mismatch''))))))"

definition recover_scoped ::
  "crypto \<Rightarrow> v3_rasn \<Rightarrow> raw_v3_message \<Rightarrow> usm_params \<Rightarrow> usm_user option \<Rightarrow> (scoped_pdu, snmp_error) result" where
  "recover_scoped C R raw usm user =
     bind_result (decode_error (r_dec_octets R (rw_scoped_data raw))) (\<lambda>ct.
       case user of
         None \<Rightarrow> Err (PrivFailure ''encrypted message but no user'')
       | Some u \<Rightarrow>
           (case u_priv u of
              None \<Rightarrow> Err (PrivFailure ''user has no privacy protocol'')
            | Some (proto, _) \<Rightarrow>
                (case priv_key C u (us_engine_id usm) of
                   None \<Rightarrow> Err (PrivFailure ''could not derive privacy key'')
                 | Some key \<Rightarrow>
                     bind_result (priv_decrypt C proto key (us_engine_boots usm) (us_engine_time usm)
                                    (us_priv_params usm) ct) (scoped_decode_ber R))))"

definition v3_parse ::
  "crypto \<Rightarrow> v3_rasn \<Rightarrow> u8 list \<Rightarrow> usm_user option \<Rightarrow> (v3_message, snmp_error) result" where
  "v3_parse C R bytes user =
     bind_result (decode_error (r_dec_raw R bytes)) (\<lambda>raw.
     bind_result (int_to_i64 (rw_version raw)) (\<lambda>version.
       if version \<noteq> VERSION_V3 then Err (UnsupportedVersion version)
       else bind_result (header_from_rasn (rw_global_data raw)) (\<lambda>header.
            bind_result (usm_decode_ber R (rw_security_parameters raw)) (\<lambda>usm.
            bind_result (if hd_flags header AND FLAG_AUTH \<noteq> 0 then verify_auth C R raw usm user else Ok ()) (\<lambda>_.
            bind_result (if hd_flags header AND FLAG_PRIV \<noteq> 0 then recover_scoped C R raw usm user
                         else scoped_decode_ber R (rw_scoped_data raw)) (\<lambda>scoped.
              Ok \<lparr>v3_header = header, v3_usm = usm, v3_scoped = scoped\<rparr>))))))"

section \<open>What is built is understood\<close>

text \<open>
  The laws of the BER codec: what it encodes it decodes again.  The scoped data of a message is kept
  raw, so its law is for data that are a BER value, a scoped PDU or an octet string.
\<close>

definition ber_element :: "v3_rasn \<Rightarrow> u8 list \<Rightarrow> bool" where
  "ber_element R sd \<longleftrightarrow> is_ok_result (r_dec_scoped R sd) \<or> is_ok_result (r_dec_octets R sd)"

definition v3_codec_laws :: "v3_rasn \<Rightarrow> bool" where
  "v3_codec_laws R \<longleftrightarrow>
     opaque_law R \<and>
     (\<forall>m b. ber_element R (rw_scoped_data m) \<longrightarrow> r_enc_raw R m = Ok b \<longrightarrow> r_dec_raw R b = Ok m) \<and>
     (\<forall>u b. r_enc_usm R u = Ok b \<longrightarrow> r_dec_usm R b = Ok u) \<and>
     (\<forall>s b. r_enc_scoped R s = Ok b \<longrightarrow> r_dec_scoped R b = Ok s) \<and>
     (\<forall>d b. r_enc_octets R d = Ok b \<longrightarrow> r_dec_octets R b = Ok d)"

definition crypto_laws :: "crypto \<Rightarrow> bool" where
  "crypto_laws C \<longleftrightarrow>
     (\<forall>k iv d. c_decrypt C k iv (c_encrypt C k iv d) = d) \<and>
     (\<forall>p k m. mac_len p \<le> length (c_hmac C p k m))"

lemma int_as_i32_sint [simp]: "int_as_i32 (sint (w :: i32)) = Ok w"
proof -
  have "- (2 ^ 31) \<le> sint w" "sint w < 2 ^ 31" using sint_ge [of w] sint_lt [of w] by simp_all
  then have "int_to_i64 (sint w) = Ok (word_of_int (sint w))"
    and "sint (word_of_int (sint w) :: i64) = sint w"
    by (simp_all only: int_to_i64_def signed_of_int) (simp_all add: signed_take_bit_int_eq_self)
  then show ?thesis by (simp only: int_as_i32_def bind_result.simps) simp
qed

lemma header_roundtrip: "header_from_rasn (header_to_rasn h) = Ok h"
  by (simp add: header_from_rasn_def header_to_rasn_def)

lemma int_to_u32_uint [simp]: "int_to_u32 (uint (w :: u32)) = Ok w"
  using unsigned_less [of w, where 'a = int] by (simp add: int_to_u32_def)

lemma usm_rasn_roundtrip: "usm_from_rasn (usm_to_rasn u) = Ok u"
  by (simp add: usm_from_rasn_def usm_to_rasn_def)

lemma usm_ber_roundtrip: "v3_codec_laws R \<Longrightarrow> usm_to_ber R u = Ok b \<Longrightarrow> usm_decode_ber R b = Ok u"
  by (simp add: v3_codec_laws_def usm_to_ber_def usm_decode_ber_def usm_rasn_roundtrip)

lemma scoped_ber_roundtrip:
  assumes "v3_codec_laws R" and "scoped_to_ber R s = Ok b"
  shows "scoped_decode_ber R b = Ok (s\<lparr>sc_pdu := wire_pdu (sc_pdu s)\<rparr>)"
proof -
  obtain d where d: "pdu_to_rasn R (sc_pdu s) = Ok d"
    and b: "r_enc_scoped R \<lparr>rs_engine_id = sc_engine_id s, rs_name = sc_context_name s, rs_data = d\<rparr> = Ok b"
    using assms(2) by (auto simp: scoped_to_ber_def)
  have "pdu_from_rasn d = Ok (wire_pdu (sc_pdu s))"
    using pdu_wire_roundtrip [OF _ d] assms(1) by (simp add: v3_codec_laws_def)
  with b assms(1) show ?thesis by (simp add: v3_codec_laws_def scoped_decode_ber_def)
qed

definition sealed ::
  "v3_rasn \<Rightarrow> header_data \<Rightarrow> u8 list \<Rightarrow> usm_params \<Rightarrow> u8 list \<Rightarrow> u8 list \<Rightarrow> bool" where
  "sealed R header sd usm sp bytes \<longleftrightarrow>
     usm_to_ber R usm = Ok sp \<and>
     r_enc_raw R \<lparr>rw_version = 3, rw_global_data = header_to_rasn header,
                   rw_security_parameters = sp, rw_scoped_data = sd\<rparr> = Ok bytes"

lemma encode_with_Ok: "encode_with R header sd usm = Ok bytes \<longleftrightarrow> (\<exists>sp. sealed R header sd usm sp bytes)"
  by (auto simp: encode_with_def sealed_def VERSION_V3_def)

lemma ber_element_scoped: "scoped_decode_ber R sd = Ok s \<Longrightarrow> ber_element R sd"
  by (cases "r_dec_scoped R sd") (simp_all add: scoped_decode_ber_def ber_element_def)

lemma v3_parse_sealed:
  assumes "v3_codec_laws R" and "sealed R header sd usm sp bytes" and "ber_element R sd"
  shows "v3_parse C R bytes user =
     bind_result (if hd_flags header AND FLAG_AUTH \<noteq> 0
                  then verify_auth C R \<lparr>rw_version = 3, rw_global_data = header_to_rasn header,
                         rw_security_parameters = sp, rw_scoped_data = sd\<rparr> usm user else Ok ()) (\<lambda>_.
     bind_result (if hd_flags header AND FLAG_PRIV \<noteq> 0
                  then recover_scoped C R \<lparr>rw_version = 3, rw_global_data = header_to_rasn header,
                         rw_security_parameters = sp, rw_scoped_data = sd\<rparr> usm user
                  else scoped_decode_ber R sd) (\<lambda>scoped.
       Ok \<lparr>v3_header = header, v3_usm = usm, v3_scoped = scoped\<rparr>))"
proof -
  have "r_dec_raw R bytes = Ok \<lparr>rw_version = 3, rw_global_data = header_to_rasn header,
      rw_security_parameters = sp, rw_scoped_data = sd\<rparr>"
    using assms by (simp add: v3_codec_laws_def sealed_def)
  moreover have "int_to_i64 3 = Ok VERSION_V3" by (simp add: int_to_i64_def VERSION_V3_def)
  moreover have "usm_decode_ber R sp = Ok usm"
    using assms usm_ber_roundtrip by (simp add: sealed_def)
  ultimately show ?thesis by (simp add: v3_parse_def header_roundtrip)
qed

lemma verify_sealed:
  assumes "u_auth user = Some (proto, pw)" and "auth_key C user (us_engine_id usm) = Some key"
    and "us_auth_params usm = replicate (mac_len proto) 0"
    and "sealed R header sd usm sp0 zeroed" and "length (mac C proto key zeroed) = mac_len proto"
  shows "verify_auth C R \<lparr>rw_version = 3, rw_global_data = header_to_rasn header,
           rw_security_parameters = sp, rw_scoped_data = sd\<rparr>
           (usm\<lparr>us_auth_params := mac C proto key zeroed\<rparr>) (Some user) = Ok ()"
proof -
  have "usm\<lparr>us_auth_params := replicate (mac_len proto) 0\<rparr> = usm"
    using assms(3) by (cases usm) simp
  with assms(4) have "usm_to_ber R (usm\<lparr>us_auth_params := replicate (mac_len proto) 0\<rparr>) = Ok sp0"
    by (simp only: sealed_def)
  then show ?thesis
    using assms by (simp add: verify_auth_def mac_verify_def sealed_def del: bind_result_Ok)
qed

lemma flag_tests:
  "((if rpt then FLAG_REPORTABLE else 0) OR (if a then FLAG_AUTH else 0) OR (if p then FLAG_PRIV else 0))
     AND FLAG_AUTH \<noteq> 0 \<longleftrightarrow> a"
  "((if rpt then FLAG_REPORTABLE else 0) OR (if a then FLAG_AUTH else 0) OR (if p then FLAG_PRIV else 0))
     AND FLAG_PRIV \<noteq> 0 \<longleftrightarrow> p"
  "((if rpt then FLAG_REPORTABLE else 0) OR (if a then FLAG_AUTH else 0) OR (if p then FLAG_PRIV else 0))
     AND FLAG_REPORTABLE \<noteq> 0 \<longleftrightarrow> rpt"
  by (cases rpt; cases a; cases p; simp add: FLAG_AUTH_def FLAG_PRIV_def FLAG_REPORTABLE_def)+

text \<open>The pieces of a message built for a user.\<close>

lemma user_parts:
  assumes "user_auth_part C user eid = Ok auth" and "user_priv_part C user eid = Ok priv"
  shows "auth = (case u_auth user of None \<Rightarrow> None | Some (proto, pw) \<Rightarrow> Some (proto, localized_key C proto (as_bytes pw) eid))"
    and "has_priv (user_level user) \<Longrightarrow>
      \<exists>proto pw key. u_priv user = Some (proto, pw) \<and> priv_key C user eid = Some key \<and> priv = Some (proto, key)"
  using assms
  by (auto simp: user_auth_part_def user_priv_part_def has_auth_user auth_key_def split: if_splits option.splits prod.splits)

lemma assembled_message:
  assumes "crypto_laws C" and "assemble C R header usm sd auth = Ok bytes"
    and "auth = (case u_auth user of None \<Rightarrow> None
                 | Some (proto, pw) \<Rightarrow> Some (proto, localized_key C proto (as_bytes pw) (us_engine_id usm)))"
    and "us_auth_params usm = (case u_auth user of None \<Rightarrow> [] | Some (proto, pw) \<Rightarrow> replicate (mac_len proto) 0)"
  shows "\<exists>tag sp. sealed R header sd (usm\<lparr>us_auth_params := tag\<rparr>) sp bytes \<and>
           (u_auth user \<noteq> None \<longrightarrow>
              verify_auth C R \<lparr>rw_version = 3, rw_global_data = header_to_rasn header,
                 rw_security_parameters = sp, rw_scoped_data = sd\<rparr> (usm\<lparr>us_auth_params := tag\<rparr>) (Some user) = Ok ())"
proof (cases "u_auth user")
  case None
  have "usm\<lparr>us_auth_params := []\<rparr> = usm" using None assms(4) by (cases usm) simp
  moreover obtain sp where "sealed R header sd usm sp bytes"
    using assms(2,3) None by (auto simp: assemble_def encode_with_Ok)
  ultimately have "sealed R header sd (usm\<lparr>us_auth_params := []\<rparr>) sp bytes" by simp
  then show ?thesis using None by blast
next
  case (Some a)
  obtain proto pw where a: "u_auth user = Some (proto, pw)" using Some by (cases a) auto
  let ?key = "localized_key C proto (as_bytes pw) (us_engine_id usm)"
  obtain zeroed sp0 sp where z: "sealed R header sd usm sp0 zeroed"
    and b: "sealed R header sd (usm\<lparr>us_auth_params := mac C proto ?key zeroed\<rparr>) sp bytes"
    using assms(2,3) a by (auto simp: assemble_def encode_with_Ok mac_def)
  have "length (mac C proto ?key zeroed) = mac_len proto"
    using assms(1) by (simp add: mac_def crypto_laws_def)
  then have "verify_auth C R \<lparr>rw_version = 3, rw_global_data = header_to_rasn header,
      rw_security_parameters = sp, rw_scoped_data = sd\<rparr>
      (usm\<lparr>us_auth_params := mac C proto ?key zeroed\<rparr>) (Some user) = Ok ()"
    using a assms(4) z by (intro verify_sealed [OF a]) (simp_all add: auth_key_def)
  with b show ?thesis by blast
qed

definition user_header :: "i32 \<Rightarrow> bool \<Rightarrow> security_level \<Rightarrow> header_data" where
  "user_header msg_id rpt level =
     \<lparr>hd_msg_id = msg_id, hd_max_size = word_of_int (sint DEFAULT_MAX_SIZE),
      hd_flags = (if rpt then FLAG_REPORTABLE else 0) OR (if has_auth level then FLAG_AUTH else 0)
                   OR (if has_priv level then FLAG_PRIV else 0),
      hd_security_model = word_of_int (sint SECURITY_MODEL_USM)\<rparr>"

definition user_params :: "usm_user \<Rightarrow> engine_params \<Rightarrow> u8 list \<Rightarrow> u8 list \<Rightarrow> usm_params" where
  "user_params user engine ap pp =
     \<lparr>us_engine_id = en_engine_id engine, us_engine_boots = en_engine_boots engine,
      us_engine_time = en_engine_time engine, us_user_name = as_bytes (u_name user),
      us_auth_params = ap, us_priv_params = pp\<rparr>"

definition carries ::
  "crypto \<Rightarrow> v3_rasn \<Rightarrow> usm_user \<Rightarrow> engine_params \<Rightarrow> u8 list \<Rightarrow> u8 list \<Rightarrow> u8 list \<Rightarrow> bool" where
  "carries C R user engine sb sd pp \<longleftrightarrow>
     (if has_priv (user_level user)
      then \<exists>proto pw key ct. u_priv user = Some (proto, pw) \<and> priv_key C user (en_engine_id engine) = Some key \<and>
             length pp = 8 \<and> r_enc_octets R ct = Ok sd \<and>
             priv_encrypt C proto key (en_engine_boots engine) (en_engine_time engine) pp sb = Ok ct
      else sd = sb \<and> pp = [])"

lemma ber_element_carried:
  assumes "v3_codec_laws R" and "carries C R user engine sb sd pp" and "scoped_to_ber R s = Ok sb"
  shows "ber_element R sd"
proof (cases "has_priv (user_level user)")
  case True
  then show ?thesis using assms(1,2) by (auto simp: carries_def v3_codec_laws_def ber_element_def)
next
  case False
  then have "sd = sb" using assms(2) by (simp add: carries_def)
  then show ?thesis using ber_element_scoped scoped_ber_roundtrip [OF assms(1,3)] by blast
qed

lemma built_message:
  assumes "crypto_laws C" and "length salt = 8"
    and "build_user_message C R salt msg_id rpt user engine ctx p = Ok bytes"
  obtains sb sd pp tag sp where
    "scoped_to_ber R \<lparr>sc_engine_id = (if ctx = [] then en_engine_id engine else ctx), sc_context_name = [], sc_pdu = p\<rparr> = Ok sb"
    "carries C R user engine sb sd pp"
    "sealed R (user_header msg_id rpt (user_level user)) sd (user_params user engine tag pp) sp bytes"
    "u_auth user \<noteq> None \<longrightarrow>
       verify_auth C R \<lparr>rw_version = 3, rw_global_data = header_to_rasn (user_header msg_id rpt (user_level user)),
          rw_security_parameters = sp, rw_scoped_data = sd\<rparr> (user_params user engine tag pp) (Some user) = Ok ()"
proof -
  obtain auth priv where parts: "user_auth_part C user (en_engine_id engine) = Ok auth"
      "user_priv_part C user (en_engine_id engine) = Ok priv"
    and bm: "build_message C R salt msg_id rpt (user_level user) (as_bytes (u_name user)) engine ctx auth priv p = Ok bytes"
    using assms(3) by (auto simp: build_user_message_def)
  note auth = user_parts(1) [OF parts] and priv = user_parts(2) [OF parts]
  let ?ph = "case u_auth user of None \<Rightarrow> [] | Some (proto, pw) \<Rightarrow> replicate (mac_len proto) 0"
  obtain sb sd pp where sb: "scoped_to_ber R \<lparr>sc_engine_id = (if ctx = [] then en_engine_id engine else ctx),
        sc_context_name = [], sc_pdu = p\<rparr> = Ok sb"
    and sd: "carries C R user engine sb sd pp"
    and asm: "assemble C R (user_header msg_id rpt (user_level user)) (user_params user engine ?ph pp) sd auth = Ok bytes"
    using bm auth priv assms(2)
    by (auto simp: build_message_def Let_def has_auth_user carries_def user_header_def user_params_def
        split: if_splits option.splits prod.splits)
  have upd: "user_params user engine ?ph pp\<lparr>us_auth_params := tag\<rparr> = user_params user engine tag pp" for tag
    by (simp add: user_params_def)
  have sel: "us_engine_id (user_params user engine ?ph pp) = en_engine_id engine"
    "us_auth_params (user_params user engine ?ph pp) = ?ph"
    by (simp_all add: user_params_def)
  show thesis
    using assembled_message [OF assms(1) asm, of user, unfolded upd sel, OF auth refl] sb sd that by blast
qed

lemma recover_carried:
  assumes "v3_codec_laws R" and "crypto_laws C" and "carries C R user engine sb sd pp"
    and "scoped_decode_ber R sb = Ok s"
  shows "(if has_priv (user_level user)
          then recover_scoped C R \<lparr>rw_version = 3, rw_global_data = g, rw_security_parameters = sp, rw_scoped_data = sd\<rparr>
                 (user_params user engine tag pp) (Some user)
          else scoped_decode_ber R sd) = Ok s"
proof (cases "has_priv (user_level user)")
  case True
  then obtain proto pw key ct where u: "u_priv user = Some (proto, pw)" "priv_key C user (en_engine_id engine) = Some key"
    and ct: "length pp = 8" "r_enc_octets R ct = Ok sd"
      "priv_encrypt C proto key (en_engine_boots engine) (en_engine_time engine) pp sb = Ok ct"
    using assms(3) by (auto simp: carries_def)
  have "priv_decrypt C proto key (en_engine_boots engine) (en_engine_time engine) pp ct = Ok sb"
    using priv_roundtrip [OF _ ct(3,1)] assms(2) by (simp add: crypto_laws_def)
  then show ?thesis
    using True u ct(2) assms(1,4) by (simp add: recover_scoped_def user_params_def v3_codec_laws_def)
qed (use assms in \<open>simp add: carries_def\<close>)

text \<open>A message built for a user at its security level is accepted by the receiver that knows
  the same user: the HMAC verifies, the scoped PDU decrypts, and header, engine parameters, user
  name, context and PDU come back as they were put in.\<close>

lemma v3_message_roundtrip:
  assumes "v3_codec_laws R" and "crypto_laws C" and "length salt = 8"
    and "build_user_message C R salt msg_id rpt user engine ctx p = Ok bytes"
  shows "\<exists>m. v3_parse C R bytes (Some user) = Ok m \<and>
     hd_msg_id (v3_header m) = msg_id \<and> reportable m = rpt \<and>
     us_engine_id (v3_usm m) = en_engine_id engine \<and> us_engine_boots (v3_usm m) = en_engine_boots engine \<and>
     us_engine_time (v3_usm m) = en_engine_time engine \<and> us_user_name (v3_usm m) = as_bytes (u_name user) \<and>
     v3_scoped m = \<lparr>sc_engine_id = (if ctx = [] then en_engine_id engine else ctx), sc_context_name = [],
                    sc_pdu = wire_pdu p\<rparr>"
  using assms(2,3,4)
proof (rule built_message)
  fix sb sd pp tag sp
  let ?h = "user_header msg_id rpt (user_level user)" and ?u = "user_params user engine tag pp"
  assume sb: "scoped_to_ber R \<lparr>sc_engine_id = (if ctx = [] then en_engine_id engine else ctx), sc_context_name = [], sc_pdu = p\<rparr> = Ok sb"
    and car: "carries C R user engine sb sd pp" and seal: "sealed R ?h sd ?u sp bytes"
    and ver: "u_auth user \<noteq> None \<longrightarrow> verify_auth C R \<lparr>rw_version = 3, rw_global_data = header_to_rasn ?h,
          rw_security_parameters = sp, rw_scoped_data = sd\<rparr> ?u (Some user) = Ok ()"
  have flags: "hd_flags ?h AND FLAG_AUTH \<noteq> 0 \<longleftrightarrow> u_auth user \<noteq> None"
    "hd_flags ?h AND FLAG_PRIV \<noteq> 0 \<longleftrightarrow> has_priv (user_level user)"
    "hd_flags ?h AND FLAG_REPORTABLE \<noteq> 0 \<longleftrightarrow> rpt"
    using has_auth_user [of user] by (simp_all only: user_header_def header_data.simps flag_tests)
  have "v3_parse C R bytes (Some user) =
      Ok \<lparr>v3_header = ?h, v3_usm = ?u, v3_scoped = \<lparr>sc_engine_id = (if ctx = [] then en_engine_id engine else ctx),
            sc_context_name = [], sc_pdu = wire_pdu p\<rparr>\<rparr>"
    unfolding v3_parse_sealed [OF assms(1) seal ber_element_carried [OF assms(1) car sb]] flags
    using recover_carried [OF assms(1,2) car scoped_ber_roundtrip [OF assms(1) sb]] ver by simp
  then show ?thesis using flags(3) by (simp add: user_header_def user_params_def reportable_def)
qed

end
