(* ===== verification/Snmp_Trap.thy ===== *)
theory Snmp_Trap
  imports Snmp_Wire
begin

text \<open>
  Notifications (\<^verbatim>\<open>crates/netsnmp/src/trap.rs\<close>): building and parsing SNMPv2 traps and informs,
  SNMPv1 traps, and the translation of SNMPv1 identities.
\<close>

section \<open>SNMPv2 notifications\<close>

definition SYSUPTIME_OID :: oid where
  "SYSUPTIME_OID = Oid [1, 3, 6, 1, 2, 1, 1, 3, 0]"

definition SNMP_TRAP_OID :: oid where
  "SNMP_TRAP_OID = Oid [1, 3, 6, 1, 6, 3, 1, 1, 4, 1, 0]"

definition SNMP_TRAPS_OID :: "u32 list" where
  "SNMP_TRAPS_OID = [1, 3, 6, 1, 6, 3, 1, 1, 5]"

text \<open>The two leading varbinds.\<close>

definition notification_head :: "u32 \<Rightarrow> oid \<Rightarrow> varbind list" where
  "notification_head sys_uptime trap_oid =
     [new_varbind SYSUPTIME_OID (TimeTicks sys_uptime), new_varbind SNMP_TRAP_OID (OidValue trap_oid)]"

definition build_notification ::
  "pdu_type \<Rightarrow> i32 \<Rightarrow> u32 \<Rightarrow> oid \<Rightarrow> varbind list \<Rightarrow> (pdu, snmp_error) result" where
  "build_notification t rid sys_uptime trap_oid vbs =
     (if t \<noteq> TrapV2 \<and> t \<noteq> Inform then Err (ProtocolError ''notification PDU must be TrapV2 or Inform'')
      else Ok ((new_pdu t rid)\<lparr>variables := notification_head sys_uptime trap_oid @ vbs\<rparr>))"

record notification =
  nf_sys_uptime :: u32
  nf_trap_oid :: oid
  nf_varbinds :: "varbind list"

definition parse_notification :: "pdu \<Rightarrow> (notification, snmp_error) result" where
  "parse_notification p =
     (case variables p of
        a # b # rest \<Rightarrow>
          (case vb_value a of
             TimeTicks t \<Rightarrow>
               (case vb_value b of
                  OidValue o1 \<Rightarrow> Ok \<lparr>nf_sys_uptime = t, nf_trap_oid = o1, nf_varbinds = rest\<rparr>
                | v \<Rightarrow> Err (ProtocolError (''notification snmpTrapOID.0 must be an OID, got '' @ type_name v)))
           | v \<Rightarrow> Err (ProtocolError (''notification sysUpTime.0 must be TimeTicks, got '' @ type_name v)))
      | _ \<Rightarrow> Err (ProtocolError
              ''notification is missing the mandatory sysUpTime.0/snmpTrapOID.0 varbinds''))"

section \<open>SNMPv1 traps\<close>

record v1_notification =
  v1_enterprise :: oid
  v1_agent_addr :: ipv4_addr
  v1_generic_trap :: u8
  v1_specific_trap :: u32
  v1_uptime :: u32
  v1_varbinds :: "varbind list"

definition build_v1_trap :: "oid \<Rightarrow> ipv4_addr \<Rightarrow> u8 \<Rightarrow> u32 \<Rightarrow> u32 \<Rightarrow> varbind list \<Rightarrow> pdu" where
  "build_v1_trap e addr g s t vbs = new_v1_trap (new_trap_v1 e addr g s t) vbs"

definition parse_v1_trap :: "pdu \<Rightarrow> (v1_notification, snmp_error) result" where
  "parse_v1_trap p =
     (case v1_trap p of
        None \<Rightarrow> Err (ProtocolError ''PDU is not an SNMPv1 Trap-PDU (missing V1Trap payload)'')
      | Some t \<Rightarrow>
          Ok \<lparr>v1_enterprise = enterprise t, v1_agent_addr = agent_addr t, v1_generic_trap = generic_trap t,
              v1_specific_trap = specific_trap t, v1_uptime = time_stamp t, v1_varbinds = variables p\<rparr>)"

definition v1_generic_trap_to_oid :: "u8 \<Rightarrow> oid option" where
  "v1_generic_trap_to_oid g = (if g \<le> 5 then Some (Oid (SNMP_TRAPS_OID @ [ucast g])) else None)"

text \<open>RFC 3584: the generic trap \<open>g\<close> is the notification \<open>snmpTraps.(g + 1)\<close>.\<close>

definition rfc3584_trap_oid :: "u8 \<Rightarrow> oid option" where
  "rfc3584_trap_oid g = (if g \<le> 5 then Some (Oid (SNMP_TRAPS_OID @ [ucast g + 1])) else None)"

section \<open>Properties\<close>

lemma parse_build_notification:
  assumes "build_notification t rid up o1 vbs = Ok p"
  shows "parse_notification p = Ok \<lparr>nf_sys_uptime = up, nf_trap_oid = o1, nf_varbinds = vbs\<rparr>"
  using assms
  by (auto simp: build_notification_def parse_notification_def notification_head_def new_varbind_def split: if_splits)

lemma generic_trap_shifted:
  "v1_generic_trap_to_oid g = Some o1 \<Longrightarrow> rfc3584_trap_oid g \<noteq> Some o1"
  by (auto simp: v1_generic_trap_to_oid_def rfc3584_trap_oid_def split: if_splits)

text \<open>A parsed notification says nothing about the names of its first two varbinds.\<close>

lemma parse_ignores_names:
  "parse_notification (p\<lparr>variables := [\<lparr>vb_oid = a, vb_value = TimeTicks t\<rparr>, \<lparr>vb_oid = b, vb_value = OidValue o1\<rparr>]\<rparr>) =
     Ok \<lparr>nf_sys_uptime = t, nf_trap_oid = o1, nf_varbinds = []\<rparr>"
  by (simp add: parse_notification_def)

end
