(* ===== verification/Snmp_Row.thy ===== *)
theory Snmp_Row
  imports Snmp_Pdu
begin

text \<open>
  The RowStatus textual convention (\<^verbatim>\<open>crates/netsnmp-agent/src/row.rs\<close>): the six wire values
  and the transition function, as a state machine over the life of one conceptual row.
\<close>

section \<open>The source's definitions\<close>

datatype row_status = Active | NotInService | NotReady | CreateAndGo | CreateAndWait | Destroy

fun row_as_i64 :: "row_status \<Rightarrow> i64" where
  "row_as_i64 Active = 1"
| "row_as_i64 NotInService = 2"
| "row_as_i64 NotReady = 3"
| "row_as_i64 CreateAndGo = 4"
| "row_as_i64 CreateAndWait = 5"
| "row_as_i64 Destroy = 6"

definition row_from_i64 :: "i64 \<Rightarrow> row_status option" where
  "row_from_i64 v =
     (if v = 1 then Some Active else if v = 2 then Some NotInService
      else if v = 3 then Some NotReady else if v = 4 then Some CreateAndGo
      else if v = 5 then Some CreateAndWait else if v = 6 then Some Destroy else None)"

fun row_from_value :: "value \<Rightarrow> row_status option" where
  "row_from_value (Integer v) = row_from_i64 v"
| "row_from_value (Gauge32 v) = row_from_i64 (ucast v)"
| "row_from_value _ = None"

fun is_create :: "row_status \<Rightarrow> bool" where
  "is_create CreateAndGo = True"
| "is_create CreateAndWait = True"
| "is_create _ = False"

fun row_name :: "row_status \<Rightarrow> string" where
  "row_name Active = ''active''"
| "row_name NotInService = ''notInService''"
| "row_name NotReady = ''notReady''"
| "row_name CreateAndGo = ''createAndGo''"
| "row_name CreateAndWait = ''createAndWait''"
| "row_name Destroy = ''destroy''"

definition display_row :: "row_status \<Rightarrow> string" where
  "display_row s = row_name s @ ''('' @ show_int (sint (row_as_i64 s)) @ '')''"

fun transition ::
  "row_status option \<Rightarrow> row_status \<Rightarrow> bool \<Rightarrow> (row_status option, error_status) result" where
  "transition current CreateAndGo satisfied =
     (if current \<noteq> None then Err InconsistentValue
      else if \<not> satisfied then Err InconsistentName
      else Ok (Some Active))"
| "transition current CreateAndWait satisfied =
     (if current \<noteq> None then Err InconsistentValue
      else if satisfied then Ok (Some NotInService)
      else Ok (Some NotReady))"
| "transition current Destroy satisfied =
     (case current of Some _ \<Rightarrow> Ok None | None \<Rightarrow> Ok None)"
| "transition current Active satisfied =
     (case current of
        Some s \<Rightarrow>
          if (s = NotInService \<or> s = NotReady \<or> s = Active) \<and> satisfied then Ok (Some Active)
          else if (s = NotInService \<or> s = NotReady) \<and> \<not> satisfied then Err InconsistentValue
          else if s = Active \<and> \<not> satisfied then Err InconsistentValue
          else Err InconsistentValue
      | None \<Rightarrow> Err InconsistentName)"
| "transition current NotInService satisfied =
     (case current of
        Some s \<Rightarrow> if s = Active \<or> s = NotInService then Ok (Some NotInService)
                  else Err InconsistentValue
      | None \<Rightarrow> Err InconsistentName)"
| "transition current NotReady satisfied =
     (case current of
        Some s \<Rightarrow> if s = NotInService \<or> s = NotReady then Ok (Some NotReady)
                  else Err InconsistentValue
      | None \<Rightarrow> Err InconsistentName)"

section \<open>The life of a row\<close>

text \<open>
  A row evolves by the RowStatus SETs a manager sends it, each evaluated when the required
  columns are or are not present; a rejected SET leaves the row as it is.
\<close>

inductive row_step :: "row_status option \<Rightarrow> row_status option \<Rightarrow> bool" where
  accepted: "transition cur req sat = Ok cur' \<Longrightarrow> row_step cur cur'"
| rejected: "transition cur req sat = Err e \<Longrightarrow> row_step cur cur"

inductive row_reachable :: "row_status option \<Rightarrow> bool" where
  absent: "row_reachable None"
| step: "row_reachable cur \<Longrightarrow> row_step cur cur' \<Longrightarrow> row_reachable cur'"

definition stored_status :: "row_status option \<Rightarrow> bool" where
  "stored_status s \<longleftrightarrow> s \<in> {None, Some Active, Some NotInService, Some NotReady}"

section \<open>Properties\<close>

lemma row_from_as_i64 [simp]: "row_from_i64 (row_as_i64 s) = Some s"
  by (cases s) (simp_all add: row_from_i64_def)

lemma row_from_i64_Some: "row_from_i64 v = Some s \<Longrightarrow> v = row_as_i64 s"
  by (auto simp: row_from_i64_def split: if_splits)

lemma transition_stored:
  "transition cur req sat = Ok cur' \<Longrightarrow> stored_status cur'"
  by (cases req) (auto simp: stored_status_def split: option.splits if_splits)

lemma row_step_stored: "row_step cur cur' \<Longrightarrow> stored_status cur \<Longrightarrow> stored_status cur'"
  by (induction rule: row_step.induct) (auto dest: transition_stored)

text \<open>However a manager drives it, the status kept for a row is one of active, notInService
  and notReady: the action verbs (createAndGo, createAndWait, destroy) are never stored.\<close>

lemma row_never_stores_verb:
  "row_reachable (Some s) \<Longrightarrow> s \<in> {Active, NotInService, NotReady}"
proof -
  assume "row_reachable (Some s)"
  then have "stored_status (Some s)"
    by (induction "Some s" arbitrary: s rule: row_reachable.induct)
      (metis row_step.cases row_step_stored stored_status_def insertI1 transition_stored)
  then show ?thesis by (simp add: stored_status_def)
qed

text \<open>The whole transition table: which requests are accepted in which state and what they
  lead to.  A row comes into being by a create verb only, disappears by destroy only, and
  becomes active only when every required column has a value.\<close>

lemma transition_table:
  "transition cur req sat = Ok new \<longleftrightarrow>
     (req = CreateAndGo \<and> cur = None \<and> sat \<and> new = Some Active) \<or>
     (req = CreateAndWait \<and> cur = None \<and> new = Some (if sat then NotInService else NotReady)) \<or>
     (req = Destroy \<and> new = None) \<or>
     (req = Active \<and> sat \<and> cur \<in> Some ` {Active, NotInService, NotReady} \<and> new = Some Active) \<or>
     (req = NotInService \<and> cur \<in> Some ` {Active, NotInService} \<and> new = Some NotInService) \<or>
     (req = NotReady \<and> cur \<in> Some ` {NotInService, NotReady} \<and> new = Some NotReady)"
  by (cases req) (auto split: option.splits)

text \<open>Every rejected RowStatus SET is answered with \<open>inconsistentName\<close> when the row does not
  exist and with \<open>inconsistentValue\<close> when it does, and with no other status.\<close>

lemma transition_errors:
  "transition cur req sat = Err e \<Longrightarrow>
     e = (case cur of None \<Rightarrow> InconsistentName | Some _ \<Rightarrow> InconsistentValue)"
  by (cases req) (auto split: option.splits if_splits)

end
