(* ===== verification/Snmp_Handler.thy ===== *)
theory Snmp_Handler
  imports Snmp_Row
begin

text \<open>
  The handler abstraction (\<^verbatim>\<open>crates/netsnmp-agent/src/handler.rs\<close>): the trait \<^verbatim>\<open>MibHandler\<close> as a
  record of operations over the agent's state, its default methods, and the two contracts
  its documentation states as locales: \<^verbatim>\<open>served_cells\<close> for reading and \<^verbatim>\<open>settable_cells\<close> for
  the two-phase SET.
\<close>

section \<open>The trait\<close>

text \<open>
  An operation takes \<open>&self\<close> and may change state behind a lock, so each is a computation of
  the state monad over the state \<open>'s\<close> of everything the handlers share.
\<close>

type_synonym reading = "oid \<times> value"
type_synonym set_result = "(unit, error_status) result"

datatype set_phase = Reserve1 | Reserve2 | Commit | Undo | Cleanup

record 's mib_handler =
  h_root :: oid
  h_get :: "oid \<Rightarrow> ('s, value option) state"
  h_get_next :: "oid \<Rightarrow> ('s, reading option) state"
  h_set :: "oid \<Rightarrow> value \<Rightarrow> ('s, set_result) state"
  h_prepare_set :: "oid \<Rightarrow> value \<Rightarrow> ('s, set_result) state"
  h_commit_set :: "oid \<Rightarrow> value \<Rightarrow> ('s, set_result) state"
  h_undo_set :: "oid \<Rightarrow> value \<Rightarrow> ('s, set_result) state"

definition default_set :: "oid \<Rightarrow> value \<Rightarrow> ('s, set_result) state" where
  "default_set o1 v = State_Monad.return (Err NotWritable)"

definition default_prepare_set :: "oid \<Rightarrow> value \<Rightarrow> ('s, set_result) state" where
  "default_prepare_set o1 v = State_Monad.return (Ok ())"

definition default_commit_set ::
  "(oid \<Rightarrow> value \<Rightarrow> ('s, set_result) state) \<Rightarrow> oid \<Rightarrow> value \<Rightarrow> ('s, set_result) state" where
  "default_commit_set set_op o1 v = set_op o1 v"

definition default_undo_set :: "oid \<Rightarrow> value \<Rightarrow> ('s, set_result) state" where
  "default_undo_set o1 v = State_Monad.return (Ok ())"

lemmas default_method_defs =
  default_set_def default_prepare_set_def default_commit_set_def default_undo_set_def

section \<open>Handlers that share a larger state\<close>

text \<open>
  A handler object lives somewhere in the agent's state.  \<open>rd\<close> finds the object there and \<open>wr\<close>
  puts it back; \<open>focus\<close> runs an operation of the object inside the larger state.
\<close>

definition focus_state :: "('w \<Rightarrow> 's) \<Rightarrow> ('s \<Rightarrow> 'w \<Rightarrow> 'w) \<Rightarrow> ('s, 'a) state \<Rightarrow> ('w, 'a) state" where
  "focus_state rd wr m = State (\<lambda>w. case run_state m (rd w) of (a, s) \<Rightarrow> (a, wr s w))"

definition focus :: "('w \<Rightarrow> 's) \<Rightarrow> ('s \<Rightarrow> 'w \<Rightarrow> 'w) \<Rightarrow> 's mib_handler \<Rightarrow> 'w mib_handler" where
  "focus rd wr h =
     \<lparr>h_root = h_root h,
      h_get = (\<lambda>o1. focus_state rd wr (h_get h o1)),
      h_get_next = (\<lambda>o1. focus_state rd wr (h_get_next h o1)),
      h_set = (\<lambda>o1 v. focus_state rd wr (h_set h o1 v)),
      h_prepare_set = (\<lambda>o1 v. focus_state rd wr (h_prepare_set h o1 v)),
      h_commit_set = (\<lambda>o1 v. focus_state rd wr (h_commit_set h o1 v)),
      h_undo_set = (\<lambda>o1 v. focus_state rd wr (h_undo_set h o1 v))\<rparr>"

lemma run_focus_state [simp]:
  "run_state (focus_state rd wr m) w = (case run_state m (rd w) of (a, s) \<Rightarrow> (a, wr s w))"
  by (simp add: focus_state_def)

lemma focus_simps [simp]:
  "h_root (focus rd wr h) = h_root h"
  "h_get (focus rd wr h) o1 = focus_state rd wr (h_get h o1)"
  "h_get_next (focus rd wr h) o1 = focus_state rd wr (h_get_next h o1)"
  "h_prepare_set (focus rd wr h) o1 v = focus_state rd wr (h_prepare_set h o1 v)"
  "h_commit_set (focus rd wr h) o1 v = focus_state rd wr (h_commit_set h o1 v)"
  "h_undo_set (focus rd wr h) o1 v = focus_state rd wr (h_undo_set h o1 v)"
  by (simp_all add: focus_def)

section \<open>The contract of GET and GETNEXT\<close>

text \<open>
  A handler serves a finite set of cells under its root: GET reads the cell at the OID,
  GETNEXT the cell with the least OID strictly above it, and neither changes what is served
  (a cache may change).
\<close>

locale served_cells =
  fixes h :: "'s mib_handler"
    and invar :: "'s \<Rightarrow> bool"
    and cells :: "'s \<Rightarrow> oid \<Rightarrow> value option"
  assumes get_served: "invar s \<Longrightarrow> run_state (h_get h o1) s = (r, s') \<Longrightarrow>
      r = cells s o1 \<and> invar s' \<and> cells s' = cells s"
    and next_served: "invar s \<Longrightarrow> run_state (h_get_next h o1) s = (n, s') \<Longrightarrow>
      is_next (cells s) o1 n \<and> invar s' \<and> cells s' = cells s"
    and finite_served: "invar s \<Longrightarrow> finite (dom (cells s))"
begin

text \<open>What GETNEXT answers, GET reads back.\<close>

lemma next_then_get:
  assumes "invar s" and "run_state (h_get_next h o1) s = (Some (o2, v), s')"
  shows "fst (run_state (h_get h o2) s') = Some v"
proof -
  obtain r s'' where g: "run_state (h_get h o2) s' = (r, s'')" by fastforce
  have "cells s o2 = Some v" "invar s'" "cells s' = cells s"
    using next_served [OF assms] by auto
  then show ?thesis using get_served [OF _ g] g by simp
qed

text \<open>A GETNEXT answer lies strictly above the request, so repeating it makes progress.\<close>

lemma next_greater:
  "invar s \<Longrightarrow> run_state (h_get_next h o1) s = (Some (o2, v), s') \<Longrightarrow> o1 < o2"
  using next_served by fastforce

text \<open>The number of cells above an OID, the measure of a walk.\<close>

lemma above_decreases:
  assumes "invar s" and "run_state (h_get_next h o1) s = (Some (o2, v), s')"
  shows "card {o'. o' \<in> dom (cells s') \<and> o2 < o'} < card {o'. o' \<in> dom (cells s) \<and> o1 < o'}"
proof (rule psubset_card_mono)
  show "finite {o'. o' \<in> dom (cells s) \<and> o1 < o'}"
    using finite_served [OF assms(1)] by simp
  have "is_next (cells s) o1 (Some (o2, v))" "cells s' = cells s"
    using next_served [OF assms] by auto
  then show "{o'. o' \<in> dom (cells s') \<and> o2 < o'} \<subset> {o'. o' \<in> dom (cells s) \<and> o1 < o'}"
    by auto
qed

end

section \<open>The contract of the two-phase SET\<close>

text \<open>
  Reserving changes nothing, a reserved value is committed without failure, and the commit
  changes exactly the cell that was named.
\<close>

locale settable_cells = served_cells +
  assumes prepare_pure: "invar s \<Longrightarrow> run_state (h_prepare_set h o1 v) s = (r, s') \<Longrightarrow> s' = s"
    and prepared_commits: "invar s \<Longrightarrow> fst (run_state (h_prepare_set h o1 v) s) = Ok () \<Longrightarrow>
      run_state (h_commit_set h o1 v) s = (r, s') \<Longrightarrow>
      r = Ok () \<and> invar s' \<and> cells s' = (cells s)(o1 \<mapsto> v)"
begin

lemma set_then_get:
  assumes "invar s" and "fst (run_state (h_prepare_set h o1 v) s) = Ok ()"
    and "run_state (h_commit_set h o1 v) s = (r, s')"
  shows "fst (run_state (h_get h o2) s') =
    (if o2 = o1 then Some v else fst (run_state (h_get h o2) s))"
proof -
  have s': "invar s'" "cells s' = (cells s)(o1 \<mapsto> v)" using prepared_commits [OF assms] by auto
  obtain a t where a: "run_state (h_get h o2) s' = (a, t)" by fastforce
  obtain b u where b: "run_state (h_get h o2) s = (b, u)" by fastforce
  show ?thesis
    using get_served [OF s'(1) a] get_served [OF assms(1) b] a b s'(2) by simp
qed

end

section \<open>Contracts lift to a shared state\<close>

text \<open>\<open>rd\<close> and \<open>wr\<close> address one object of the state.\<close>

locale addressed =
  fixes rd :: "'w \<Rightarrow> 's" and wr :: "'s \<Rightarrow> 'w \<Rightarrow> 'w" and ok :: "'w \<Rightarrow> bool"
  assumes rd_wr: "ok w \<Longrightarrow> rd (wr s w) = s" and ok_wr: "ok w \<Longrightarrow> ok (wr s w)"
    and wr_rd: "ok w \<Longrightarrow> wr (rd w) w = w"
begin

lemma focus_served:
  assumes "served_cells h invar cells"
  shows "served_cells (focus rd wr h) (\<lambda>w. ok w \<and> invar (rd w)) (\<lambda>w. cells (rd w))"
proof
  fix w o1 r w'
  assume w: "ok w \<and> invar (rd w)" and run: "run_state (h_get (focus rd wr h) o1) w = (r, w')"
  obtain a s where a: "run_state (h_get h o1) (rd w) = (a, s)" by fastforce
  then have "r = a" "w' = wr s w" using run by auto
  then show "r = cells (rd w) o1 \<and> (ok w' \<and> invar (rd w')) \<and> cells (rd w') = cells (rd w)"
    using served_cells.get_served [OF assms, OF _ a] w rd_wr ok_wr by simp
next
  fix w o1 n w'
  assume w: "ok w \<and> invar (rd w)" and run: "run_state (h_get_next (focus rd wr h) o1) w = (n, w')"
  obtain a s where a: "run_state (h_get_next h o1) (rd w) = (a, s)" by fastforce
  then have "n = a" "w' = wr s w" using run by auto
  then show "is_next (cells (rd w)) o1 n \<and> (ok w' \<and> invar (rd w')) \<and> cells (rd w') = cells (rd w)"
    using served_cells.next_served [OF assms, OF _ a] w rd_wr ok_wr by simp
next
  fix w assume "ok w \<and> invar (rd w)"
  then show "finite (dom (cells (rd w)))" using served_cells.finite_served [OF assms] by blast
qed

end

interpretation fst_store: addressed fst "\<lambda>s w. (s, snd w)" "\<lambda>_. True"
  by unfold_locales auto

interpretation snd_store: addressed snd "\<lambda>s w. (fst w, s)" "\<lambda>_. True"
  by unfold_locales auto

end
