(* ===== verification/Snmp_Session.thy ===== *)
theory Snmp_Session
  imports Snmp_V3 Snmp_Trap Snmp_Handler
begin

text \<open>
  Client sessions (\<^verbatim>\<open>crates/netsnmp/src/session/\<close>): the request-id source, the community session with
  its retry loop, requests, notifications and the walk, and the SNMPv3 session with engine
  discovery and time synchronization.  The transport is a record of operations on the state \<open>'s\<close> of
  the network; sending and receiving may fail, and waiting may time out.
\<close>

section \<open>Transport and request ids\<close>

datatype received = Received "u8 list" | RecvFailed snmp_error | Elapsed

record 's transport =
  t_send :: "u8 list \<Rightarrow> ('s, (unit, snmp_error) result) state"
  t_receive :: "('s, received) state"
  t_now :: "'s \<Rightarrow> nat"
  t_salt :: "('s, u8 list) state"

text \<open>
  The process-wide state of a client: the counter of request ids and the network.  The seed of
  the counter, taken from the clock at first use, is an argument.
\<close>

record 's client =
  cl_request_id :: i32
  cl_net :: 's

definition i32_max :: "i32 \<Rightarrow> i32 \<Rightarrow> i32" where
  "i32_max a b = (if sint a \<le> sint b then b else a)"

definition next_request_id :: "i32 \<Rightarrow> (('s, 'm) client_scheme, i32) state" where
  "next_request_id seed = State (\<lambda>c.
     let i = (if cl_request_id c = 0 then i32_max (seed AND 0x00ffffff) 1 else cl_request_id c)
     in (i, c\<lparr>cl_request_id := i32_max (i + 1) 1\<rparr>))"

definition on_net :: "('s, 'a) state \<Rightarrow> (('s, 'm) client_scheme, 'a) state" where
  "on_net m = focus_state cl_net (\<lambda>s c. c\<lparr>cl_net := s\<rparr>) m"

section \<open>The community session\<close>

record session_config =
  cf_version :: version
  cf_community :: "u8 list"
  cf_retries :: u32

definition session_config_default :: session_config where
  "session_config_default = \<lparr>cf_version = V2c, cf_community = as_bytes ''public'', cf_retries = 2\<rparr>"

text \<open>The attempts that are left, and the error of the last one.\<close>

fun attempt_loop ::
  "'s transport \<Rightarrow> ('r) rasn_scheme \<Rightarrow> u8 list \<Rightarrow> i32 \<Rightarrow> nat \<Rightarrow> snmp_error
     \<Rightarrow> ('s, (pdu, snmp_error) result) state" where
  "attempt_loop T R bytes rid 0 last_err = State_Monad.return (Err last_err)"
| "attempt_loop T R bytes rid (Suc n) last_err = do {
     s \<leftarrow> t_send T bytes;
     case s of
       Err e \<Rightarrow> State_Monad.return (Err e)
     | Ok _ \<Rightarrow> do {
         r \<leftarrow> t_receive T;
         case r of
           Received raw \<Rightarrow>
             (case message_decode R raw of
                Err e \<Rightarrow> State_Monad.return (Err e)
              | Ok m \<Rightarrow>
                  if request_id (m_pdu m) \<noteq> rid
                  then attempt_loop T R bytes rid n (RequestIdMismatch rid (request_id (m_pdu m)))
                  else State_Monad.return (Ok (m_pdu m)))
         | RecvFailed e \<Rightarrow> State_Monad.return (Err e)
         | Elapsed \<Rightarrow> attempt_loop T R bytes rid n Timeout
       }
   }"

definition session_request ::
  "'s transport \<Rightarrow> ('r) rasn_scheme \<Rightarrow> i32 \<Rightarrow> session_config \<Rightarrow> pdu
     \<Rightarrow> ('s client, (pdu, snmp_error) result) state" where
  "session_request T R seed cfg p = do {
     rid \<leftarrow> next_request_id seed;
     case message_encode R \<lparr>m_version = cf_version cfg, m_community = cf_community cfg, m_pdu = p\<lparr>request_id := rid\<rparr>\<rparr> of
       Err e \<Rightarrow> State_Monad.return (Err e)
     | Ok bytes \<Rightarrow> on_net (attempt_loop T R bytes rid (unat (cf_retries cfg) + 1) Timeout)
   }"

text \<open>\<open>error_index as usize\<close> reinterprets the sign bit.\<close>

definition check_status :: "(pdu, snmp_error) result \<Rightarrow> (pdu, snmp_error) result" where
  "check_status r =
     bind_result r (\<lambda>resp.
       let status = pdu_status resp
       in if \<not> status_is_ok status then Err (SnmpError status (unat (error_index resp))) else Ok resp)"

definition checked_request where
  "checked_request T R seed cfg p = do {
     r \<leftarrow> session_request T R seed cfg p;
     State_Monad.return (check_status r)
   }"

definition varbinds_of :: "(pdu, snmp_error) result \<Rightarrow> (varbind list, snmp_error) result" where
  "varbinds_of r = bind_result r (\<lambda>p. Ok (variables p))"

definition null_request :: "pdu_type \<Rightarrow> oid list \<Rightarrow> pdu" where
  "null_request t os = (new_pdu t 0)\<lparr>variables := map null_varbind os\<rparr>"

definition session_get where
  "session_get T R seed cfg os = do {
     r \<leftarrow> checked_request T R seed cfg (null_request Get os);
     State_Monad.return (varbinds_of r)
   }"

definition first_value :: "(varbind list, snmp_error) result \<Rightarrow> (value, snmp_error) result" where
  "first_value r =
     bind_result r (\<lambda>vbs. case vbs of
        vb # _ \<Rightarrow> Ok (vb_value vb)
      | [] \<Rightarrow> Err (ProtocolError ''empty response varbind list''))"

definition session_get_one where
  "session_get_one T R seed cfg o1 = do {
     r \<leftarrow> session_get T R seed cfg [o1];
     State_Monad.return (first_value r)
   }"

definition session_get_next where
  "session_get_next T R seed cfg os = do {
     r \<leftarrow> checked_request T R seed cfg (null_request GetNext os);
     State_Monad.return (varbinds_of r)
   }"

definition bulk_request :: "u32 \<Rightarrow> u32 \<Rightarrow> oid list \<Rightarrow> pdu" where
  "bulk_request nr reps os =
     (null_request GetBulk os)\<lparr>error_status := ucast nr, error_index := ucast reps\<rparr>"

definition session_get_bulk where
  "session_get_bulk T R seed cfg nr reps os =
     (if cf_version cfg = V1 then State_Monad.return (Err (ProtocolError ''GETBULK requires SNMPv2c''))
      else do {
        r \<leftarrow> checked_request T R seed cfg (bulk_request nr reps os);
        State_Monad.return (varbinds_of r)
      })"

definition session_set where
  "session_set T R seed cfg bindings = do {
     r \<leftarrow> checked_request T R seed cfg ((new_pdu Set 0)\<lparr>variables := bindings\<rparr>);
     State_Monad.return (varbinds_of r)
   }"

definition send_message ::
  "'s transport \<Rightarrow> ('r) rasn_scheme \<Rightarrow> message \<Rightarrow> ('s client, (unit, snmp_error) result) state" where
  "send_message T R m =
     (case message_encode R m of
        Err e \<Rightarrow> State_Monad.return (Err e)
      | Ok b \<Rightarrow> on_net (t_send T b))"

definition session_send_trap where
  "session_send_trap T R seed cfg sys_uptime trap_oid vbs =
     (if cf_version cfg = V1
      then State_Monad.return (Err (ProtocolError ''SNMPv1 session: use send_trap_v1 (not send_trap)''))
      else do {
        rid \<leftarrow> next_request_id seed;
        case build_notification TrapV2 rid sys_uptime trap_oid vbs of
          Err e \<Rightarrow> State_Monad.return (Err e)
        | Ok p \<Rightarrow> send_message T R \<lparr>m_version = cf_version cfg, m_community = cf_community cfg, m_pdu = p\<rparr>
      })"

definition session_send_trap_v1 where
  "session_send_trap_v1 T R cfg e addr g s t vbs =
     (if cf_version cfg \<noteq> V1
      then State_Monad.return (Err (ProtocolError ''send_trap_v1 requires SNMPv1 (use -v 1)''))
      else send_message T R \<lparr>m_version = V1, m_community = cf_community cfg, m_pdu = build_v1_trap e addr g s t vbs\<rparr>)"

definition session_send_inform where
  "session_send_inform T R seed cfg sys_uptime trap_oid vbs =
     (case build_notification Inform 0 sys_uptime trap_oid vbs of
        Err e \<Rightarrow> State_Monad.return (Err e)
      | Ok p \<Rightarrow> checked_request T R seed cfg p)"

text \<open>The items of the walk stream: \<open>None\<close> when it ends, else the varbind and where to go on.\<close>

definition walk_item :: "oid \<Rightarrow> oid \<Rightarrow> varbind list \<Rightarrow> varbind option" where
  "walk_item root current vbs =
     (case vbs of
        [] \<Rightarrow> None
      | vb # _ \<Rightarrow>
          if vb_value vb \<in> {EndOfMibView, NoSuchObject, NoSuchInstance} then None
          else if \<not> is_prefix_of root (vb_oid vb) \<or> vb_oid vb \<le> current then None
          else Some vb)"

text \<open>
  The walk collects the items until the stream ends or fails.  \<open>get_next\<close> is the request of the
  session; the walk ends with \<^const>\<open>None\<close> when the fuel is used up.
\<close>

fun walk_loop ::
  "nat \<Rightarrow> (oid \<Rightarrow> ('c, (varbind list, snmp_error) result) state) \<Rightarrow> oid \<Rightarrow> oid
     \<Rightarrow> ('c, (varbind list, snmp_error) result option) state" where
  "walk_loop 0 get_next root current = State_Monad.return None"
| "walk_loop (Suc n) get_next root current = do {
     r \<leftarrow> get_next current;
     case r of
       Err e \<Rightarrow> State_Monad.return (Some (Err e))
     | Ok vbs \<Rightarrow>
         (case walk_item root current vbs of
            None \<Rightarrow> State_Monad.return (Some (Ok []))
          | Some vb \<Rightarrow> do {
              rest \<leftarrow> walk_loop n get_next root (vb_oid vb);
              State_Monad.return (map_option (\<lambda>r. bind_result r (\<lambda>vs. Ok (vb # vs))) rest)
            })
   }"

definition session_walk where
  "session_walk fuel T R seed cfg root =
     walk_loop fuel (\<lambda>o1. session_get_next T R seed cfg [o1]) root root"

section \<open>The SNMPv3 session\<close>

text \<open>
  The fields of \<^verbatim>\<open>V3Session\<close> that change, beside the network and the counter of request ids.
\<close>

record 's v3_client = "'s client" +
  vs_engine :: engine_params
  vs_time_base :: nat
  vs_msg_id :: i32

record v3_config =
  vc_user :: usm_user
  vc_retries :: u32

definition next_msg_id :: "('s v3_client, i32) state" where
  "next_msg_id = State (\<lambda>c. (i32_max (vs_msg_id c) 1, c\<lparr>vs_msg_id := vs_msg_id c + 1\<rparr>))"

definition current_engine :: "'s transport \<Rightarrow> 's v3_client \<Rightarrow> engine_params" where
  "current_engine T c =
     (vs_engine c)\<lparr>en_engine_time := en_engine_time (vs_engine c) + of_nat (t_now T (cl_net c) - vs_time_base c)\<rparr>"

definition set_engine_time ::
  "'s transport \<Rightarrow> u32 \<Rightarrow> u32 \<Rightarrow> ('s v3_client, unit) state" where
  "set_engine_time T boots time = State (\<lambda>c. ((),
     c\<lparr>vs_engine := (vs_engine c)\<lparr>en_engine_boots := boots, en_engine_time := time\<rparr>,
       vs_time_base := t_now T (cl_net c)\<rparr>))"

definition v3_exchange_once ::
  "'s transport \<Rightarrow> u8 list \<Rightarrow> ('s v3_client, (u8 list, snmp_error) result) state" where
  "v3_exchange_once T bytes = on_net (do {
     s \<leftarrow> t_send T bytes;
     case s of
       Err e \<Rightarrow> State_Monad.return (Err e)
     | Ok _ \<Rightarrow> do {
         r \<leftarrow> t_receive T;
         State_Monad.return (case r of Received raw \<Rightarrow> Ok raw | RecvFailed e \<Rightarrow> Err e | Elapsed \<Rightarrow> Err Timeout)
       }
   })"

definition v3_discover ::
  "crypto \<Rightarrow> v3_rasn \<Rightarrow> 's transport \<Rightarrow> i32 \<Rightarrow> ('s v3_client, (unit, snmp_error) result) state" where
  "v3_discover C R T seed = do {
     rid \<leftarrow> next_request_id seed;
     mid \<leftarrow> next_msg_id;
     case build_discovery C R mid rid of
       Err e \<Rightarrow> State_Monad.return (Err e)
     | Ok bytes \<Rightarrow> do {
         raw \<leftarrow> v3_exchange_once T bytes;
         case bind_result raw (\<lambda>b. v3_parse C R b None) of
           Err e \<Rightarrow> State_Monad.return (Err e)
         | Ok msg \<Rightarrow>
             if us_engine_id (v3_usm msg) = []
             then State_Monad.return (Err (ReportError ''discovery response carried no engine id''))
             else State (\<lambda>c. (Ok (),
               c\<lparr>vs_engine := \<lparr>en_engine_id = us_engine_id (v3_usm msg), en_engine_boots = us_engine_boots (v3_usm msg),
                               en_engine_time = us_engine_time (v3_usm msg)\<rparr>,
                 vs_time_base := t_now T (cl_net c)\<rparr>))
       }
   }"

definition report_name :: "u32 \<Rightarrow> string" where
  "report_name n =
     (if n = 1 then ''usmStatsUnsupportedSecLevels'' else if n = 2 then ''usmStatsNotInTimeWindows''
      else if n = 3 then ''usmStatsUnknownUserNames'' else if n = 4 then ''usmStatsUnknownEngineIDs''
      else if n = 5 then ''usmStatsWrongDigests'' else if n = 6 then ''usmStatsDecryptionErrors''
      else ''usmStatsUnknown'')"

definition describe_report :: "pdu \<Rightarrow> string" where
  "describe_report p =
     (case variables p of
        [] \<Rightarrow> ''empty report''
      | vb # _ \<Rightarrow>
          (let s = as_slice (vb_oid vb); n = length USM_STATS_PREFIX
           in if n < length s \<and> take n s = USM_STATS_PREFIX
              then report_name (s ! n) @ '' ('' @ display_oid (vb_oid vb) @ '')''
              else ''report oid '' @ display_oid (vb_oid vb)))"

text \<open>What one reply means for the loop: an answer, a resynchronization, or another attempt.\<close>

datatype v3_verdict = Answer "(pdu, snmp_error) result" | Resync u32 u32 | Retry snmp_error

definition judge_reply ::
  "crypto \<Rightarrow> v3_rasn \<Rightarrow> usm_user \<Rightarrow> i32 \<Rightarrow> bool \<Rightarrow> u8 list \<Rightarrow> v3_verdict" where
  "judge_reply C R user rid resynced raw =
     (case v3_parse C R raw (Some user) of
        Err (AuthFailure e) \<Rightarrow>
          if resynced then Answer (Err (AuthFailure e))
          else (case v3_parse C R raw None of
                  Ok report \<Rightarrow>
                    if ptype (sc_pdu (v3_scoped report)) = Report
                    then Resync (us_engine_boots (v3_usm report)) (us_engine_time (v3_usm report))
                    else Answer (Err (AuthFailure ''response verification failed''))
                | Err _ \<Rightarrow> Answer (Err (AuthFailure ''response verification failed'')))
      | Err e \<Rightarrow> Answer (Err e)
      | Ok parsed \<Rightarrow>
          (let p = sc_pdu (v3_scoped parsed)
           in if ptype p = Report then
                if resynced then Answer (Err (ReportError (describe_report p)))
                else Resync (us_engine_boots (v3_usm parsed)) (us_engine_time (v3_usm parsed))
              else if request_id p \<noteq> rid then Retry (RequestIdMismatch rid (request_id p))
              else Answer (Ok p)))"

fun v3_attempts ::
  "crypto \<Rightarrow> v3_rasn \<Rightarrow> 's transport \<Rightarrow> usm_user \<Rightarrow> pdu \<Rightarrow> bool \<Rightarrow> nat \<Rightarrow> snmp_error
     \<Rightarrow> ('s v3_client, (pdu, snmp_error) result) state" where
  "v3_attempts C R T user p resynced 0 last_err = State_Monad.return (Err last_err)"
| "v3_attempts C R T user p resynced (Suc n) last_err = do {
     engine \<leftarrow> State (\<lambda>c. (current_engine T c, c));
     mid \<leftarrow> next_msg_id;
     salt \<leftarrow> on_net (t_salt T);
     case build_request C R salt mid user engine (en_engine_id engine) p of
       Err e \<Rightarrow> State_Monad.return (Err e)
     | Ok bytes \<Rightarrow> do {
         raw \<leftarrow> v3_exchange_once T bytes;
         case raw of
           Err Timeout \<Rightarrow> v3_attempts C R T user p resynced n Timeout
         | Err e \<Rightarrow> State_Monad.return (Err e)
         | Ok b \<Rightarrow>
             (case judge_reply C R user (request_id p) resynced b of
                Answer a \<Rightarrow> State_Monad.return a
              | Resync boots time \<Rightarrow> do {
                  set_engine_time T boots time;
                  v3_attempts C R T user p True n last_err
                }
              | Retry e \<Rightarrow> v3_attempts C R T user p resynced n e)
       }
   }"

definition v3_request ::
  "crypto \<Rightarrow> v3_rasn \<Rightarrow> 's transport \<Rightarrow> i32 \<Rightarrow> v3_config \<Rightarrow> pdu
     \<Rightarrow> ('s v3_client, (pdu, snmp_error) result) state" where
  "v3_request C R T seed cfg p = do {
     rid \<leftarrow> next_request_id seed;
     v3_attempts C R T (vc_user cfg) (p\<lparr>request_id := rid\<rparr>) False (unat (vc_retries cfg) + 1) Timeout
   }"

definition v3_checked_request where
  "v3_checked_request C R T seed cfg p = do {
     r \<leftarrow> v3_request C R T seed cfg p;
     State_Monad.return (check_status r)
   }"

definition v3_get where
  "v3_get C R T seed cfg os = do {
     r \<leftarrow> v3_checked_request C R T seed cfg (null_request Get os);
     State_Monad.return (varbinds_of r)
   }"

definition v3_get_one where
  "v3_get_one C R T seed cfg o1 = do {
     r \<leftarrow> v3_get C R T seed cfg [o1];
     State_Monad.return (first_value r)
   }"

definition v3_get_next where
  "v3_get_next C R T seed cfg os = do {
     r \<leftarrow> v3_checked_request C R T seed cfg (null_request GetNext os);
     State_Monad.return (varbinds_of r)
   }"

definition v3_get_bulk where
  "v3_get_bulk C R T seed cfg nr reps os = do {
     r \<leftarrow> v3_checked_request C R T seed cfg (bulk_request nr reps os);
     State_Monad.return (varbinds_of r)
   }"

definition v3_set where
  "v3_set C R T seed cfg bindings = do {
     r \<leftarrow> v3_checked_request C R T seed cfg ((new_pdu Set 0)\<lparr>variables := bindings\<rparr>);
     State_Monad.return (varbinds_of r)
   }"

definition v3_send_trap ::
  "crypto \<Rightarrow> v3_rasn \<Rightarrow> 's transport \<Rightarrow> i32 \<Rightarrow> v3_config \<Rightarrow> u32 \<Rightarrow> oid \<Rightarrow> varbind list
     \<Rightarrow> ('s v3_client, (unit, snmp_error) result) state" where
  "v3_send_trap C R T seed cfg sys_uptime trap_oid vbs = do {
     rid \<leftarrow> next_request_id seed;
     case build_notification TrapV2 rid sys_uptime trap_oid vbs of
       Err e \<Rightarrow> State_Monad.return (Err e)
     | Ok p \<Rightarrow> do {
         engine \<leftarrow> State (\<lambda>c. (current_engine T c, c));
         mid \<leftarrow> next_msg_id;
         salt \<leftarrow> on_net (t_salt T);
         case build_response C R salt mid (vc_user cfg) engine (en_engine_id engine) p of
           Err e \<Rightarrow> State_Monad.return (Err e)
         | Ok b \<Rightarrow> on_net (t_send T b)
       }
   }"

definition v3_send_inform where
  "v3_send_inform C R T seed cfg sys_uptime trap_oid vbs =
     (case build_notification Inform 0 sys_uptime trap_oid vbs of
        Err e \<Rightarrow> State_Monad.return (Err e)
      | Ok p \<Rightarrow> v3_checked_request C R T seed cfg p)"

definition v3_walk where
  "v3_walk fuel C R T seed cfg root =
     walk_loop fuel (\<lambda>o1. v3_get_next C R T seed cfg [o1]) root root"

section \<open>Request ids, attempts and answers\<close>

lemma run_on_net [simp]:
  "run_state (on_net m) c = (case run_state m (cl_net c) of (a, s) \<Rightarrow> (a, c\<lparr>cl_net := s\<rparr>))"
  by (simp add: on_net_def)

lemma run_next_request_id:
  "cl_request_id c \<noteq> 0 \<Longrightarrow>
   run_state (next_request_id seed) c = (cl_request_id c, c\<lparr>cl_request_id := i32_max (cl_request_id c + 1) 1\<rparr>)"
  by (simp add: next_request_id_def Let_def)

lemma i32_max_pos: "0 < sint (i32_max i 1)"
  by (simp add: i32_max_def)

lemma attempt_loop_Ok:
  "run_state (attempt_loop T R bytes rid n e) s = (Ok p, s') \<Longrightarrow> request_id p = rid"
  by (induction n arbitrary: e s)
    (auto split: prod.splits result.splits received.splits if_splits)

text \<open>A transport that records what is sent.\<close>

definition recorded :: "'s transport \<Rightarrow> (u8 list list \<times> 's) transport" where
  "recorded T =
     \<lparr>t_send = (\<lambda>b. State (\<lambda>(log, s). case run_state (t_send T b) s of (r, s') \<Rightarrow> (r, log @ [b], s'))),
      t_receive = State (\<lambda>(log, s). case run_state (t_receive T) s of (r, s') \<Rightarrow> (r, log, s')),
      t_now = (\<lambda>(log, s). t_now T s),
      t_salt = State (\<lambda>(log, s). case run_state (t_salt T) s of (r, s') \<Rightarrow> (r, log, s'))\<rparr>"

lemma run_recorded [simp]:
  "run_state (t_send (recorded T) b) (log, s) = (case run_state (t_send T b) s of (r, s') \<Rightarrow> (r, log @ [b], s'))"
  "run_state (t_receive (recorded T)) (log, s) = (case run_state (t_receive T) s of (r, s') \<Rightarrow> (r, log, s'))"
  by (simp_all add: recorded_def)

lemma attempt_loop_sends:
  "run_state (attempt_loop (recorded T) R bytes rid n e) (log, s) = (r, log', s') \<Longrightarrow>
   \<exists>k\<le>n. log' = log @ replicate k bytes"
proof (induction n arbitrary: e log s)
  case (Suc n)
  obtain a s1 where a: "run_state (t_send T bytes) s = (a, s1)" by fastforce
  obtain b s2 where b: "run_state (t_receive T) s1 = (b, s2)" by fastforce
  note run = Suc.prems [simplified, unfolded a, simplified]
  have again: "\<exists>k\<le>Suc n. log' = log @ replicate k bytes"
    if "run_state (attempt_loop (recorded T) R bytes rid n e') (log @ [bytes], s2) = (r, log', s')" for e'
    using Suc.IH [OF that] by (metis Suc_le_mono append.assoc append_Cons append_Nil replicate_Suc)
  have once: "\<exists>k\<le>Suc n. log' = log @ replicate k bytes" if "log' = log @ [bytes]"
    using that by (intro exI [of _ 1]) simp
  show ?case
  proof (cases a)
    case (Err e')
    with run show ?thesis by (intro once) simp
  next
    case (Ok u)
    show ?thesis
      using run Ok b once again
      by (cases b) (auto split: result.splits if_splits)
  qed
qed simp

text \<open>C37: A community request sends one and the same datagram, at most once more than the configured
  retries, and a response it returns carries the request-id that was sent.\<close>

theorem session_request_bounded:
  assumes "run_state (session_request (recorded T) R seed cfg p) c = (r, c')" and "cl_net c = (log, s)"
  shows "\<exists>rid k b. k \<le> unat (cf_retries cfg) + 1 \<and> fst (cl_net c') = log @ replicate k b \<and>
     (0 < k \<longrightarrow> message_encode R \<lparr>m_version = cf_version cfg, m_community = cf_community cfg,
                                   m_pdu = p\<lparr>request_id := rid\<rparr>\<rparr> = Ok b) \<and>
     (\<forall>q. r = Ok q \<longrightarrow> request_id q = rid)"
proof -
  obtain rid c1 where n: "run_state (next_request_id seed) c = (rid, c1)" by fastforce
  have net: "cl_net c1 = (log, s)" using n assms(2) by (auto simp: next_request_id_def Let_def)
  let ?m = "\<lparr>m_version = cf_version cfg, m_community = cf_community cfg, m_pdu = p\<lparr>request_id := rid\<rparr>\<rparr>"
  show ?thesis
  proof (cases "message_encode R ?m")
    case (Err e)
    then show ?thesis using assms(1) n net by (auto simp: session_request_def intro!: exI [of _ 0])
  next
    case (Ok b)
    obtain log' s' where run: "run_state (attempt_loop (recorded T) R b rid (unat (cf_retries cfg) + 1) Timeout) (log, s) = (r, log', s')"
        and c': "c' = c1\<lparr>cl_net := (log', s')\<rparr>"
      using assms(1) n net Ok by (auto simp: session_request_def split: prod.splits)
    obtain k where "k \<le> unat (cf_retries cfg) + 1" "log' = log @ replicate k b"
      using attempt_loop_sends [OF run] by blast
    moreover have "\<forall>q. r = Ok q \<longrightarrow> request_id q = rid" using attempt_loop_Ok [of "recorded T" R b rid _ Timeout "(log, s)"] run by blast
    ultimately show ?thesis using Ok c' by (intro exI [of _ rid] exI [of _ k] exI [of _ b]) simp
  qed
qed

definition silent_transport :: "unit transport" where
  "silent_transport = \<lparr>t_send = (\<lambda>b. State_Monad.return (Ok ())), t_receive = State_Monad.return Elapsed,
     t_now = (\<lambda>s. 0), t_salt = State_Monad.return []\<rparr>"

theorem session_request_bounded_witness:
  "\<exists>k b. k \<le> 3 \<and> fst (cl_net (snd (run_state (session_request (recorded silent_transport) demo_rasn 1
     session_config_default (new_pdu Get 0)) \<lparr>cl_request_id = 5, cl_net = ([], ())\<rparr>))) = replicate k b"
proof -
  obtain r c' where "run_state (session_request (recorded silent_transport) demo_rasn 1
     session_config_default (new_pdu Get 0)) \<lparr>cl_request_id = 5, cl_net = ([], ())\<rparr> = (r, c')" by fastforce
  then show ?thesis
    using session_request_bounded [of silent_transport demo_rasn 1 session_config_default "new_pdu Get 0"
        "\<lparr>cl_request_id = 5, cl_net = ([], ())\<rparr>" r c' "[]" "()"]
    by (auto simp: session_config_default_def)
qed

end
