(* ===== verification/Snmp_Scalar.thy ===== *)
theory Snmp_Scalar
  imports Snmp_Handler
begin

text \<open>
  The in-memory handlers of \<^verbatim>\<open>crates/netsnmp-agent/src/scalar.rs\<close>: \<^verbatim>\<open>ScalarHandler\<close>, \<^verbatim>\<open>MapHandler\<close>
  and the snapshot-caching \<^verbatim>\<open>FnHandler\<close>, each shown to satisfy the handler contracts.
\<close>

section \<open>Type compatibility\<close>

definition is_sentinel :: "value \<Rightarrow> bool" where
  "is_sentinel v = (v = Null \<or> v = NoSuchObject \<or> v = NoSuchInstance \<or> v = EndOfMibView)"

definition types_compatible :: "value \<Rightarrow> value \<Rightarrow> bool" where
  "types_compatible current new =
     (if is_sentinel new \<or> is_sentinel current then False
      else (case current of
              Integer _ \<Rightarrow> (case new of Integer _ \<Rightarrow> True | _ \<Rightarrow> False)
            | Counter32 _ \<Rightarrow> (case new of Counter32 _ \<Rightarrow> True | _ \<Rightarrow> False)
            | Gauge32 _ \<Rightarrow> (case new of Gauge32 _ \<Rightarrow> True | _ \<Rightarrow> False)
            | TimeTicks _ \<Rightarrow> (case new of TimeTicks _ \<Rightarrow> True | _ \<Rightarrow> False)
            | Counter64 _ \<Rightarrow> (case new of Counter64 _ \<Rightarrow> True | _ \<Rightarrow> False)
            | OctetString _ \<Rightarrow> (case new of OctetString _ \<Rightarrow> True | _ \<Rightarrow> False)
            | OidValue _ \<Rightarrow> (case new of OidValue _ \<Rightarrow> True | _ \<Rightarrow> False)
            | IpAddress _ \<Rightarrow> (case new of IpAddress _ \<Rightarrow> True | _ \<Rightarrow> False)
            | Opaque _ \<Rightarrow> (case new of Opaque _ \<Rightarrow> True | _ \<Rightarrow> False)
            | _ \<Rightarrow> False))"

lemma types_compatible_iff:
  "types_compatible a b \<longleftrightarrow> \<not> is_sentinel a \<and> \<not> is_sentinel b \<and> type_name a = type_name b"
  by (cases a; cases b) (simp_all add: types_compatible_def is_sentinel_def)

lemma types_compatible_sym: "types_compatible a b \<Longrightarrow> types_compatible b a"
  by (simp add: types_compatible_iff)

lemma types_compatible_trans: "types_compatible a b \<Longrightarrow> types_compatible b c \<Longrightarrow> types_compatible a c"
  by (simp add: types_compatible_iff)

section \<open>ScalarHandler\<close>

record scalar_handler =
  sc_root :: oid
  sc_instance :: oid
  sc_value :: "value"
  sc_writable :: bool

definition scalar_new :: "oid \<Rightarrow> value \<Rightarrow> scalar_handler" where
  "scalar_new root v =
     \<lparr>sc_root = root, sc_instance = child root 0, sc_value = v, sc_writable = False\<rparr>"

definition scalar_writable :: "scalar_handler \<Rightarrow> scalar_handler" where
  "scalar_writable s = s\<lparr>sc_writable := True\<rparr>"

definition scalar_get_value :: "scalar_handler \<Rightarrow> value" where
  "scalar_get_value s = sc_value s"

definition scalar_set_value :: "value \<Rightarrow> scalar_handler \<Rightarrow> scalar_handler" where
  "scalar_set_value v s = s\<lparr>sc_value := v\<rparr>"

definition scalar_get :: "oid \<Rightarrow> (scalar_handler, value option) state" where
  "scalar_get o1 = State (\<lambda>s. (if o1 = sc_instance s then Some (sc_value s) else None, s))"

definition scalar_get_next :: "oid \<Rightarrow> (scalar_handler, reading option) state" where
  "scalar_get_next o1 =
     State (\<lambda>s. (if o1 < sc_instance s then Some (sc_instance s, sc_value s) else None, s))"

definition scalar_set :: "oid \<Rightarrow> value \<Rightarrow> (scalar_handler, set_result) state" where
  "scalar_set o1 v =
     State (\<lambda>s. if \<not> sc_writable s then (Err NotWritable, s)
                else if o1 \<noteq> sc_instance s then (Err NoCreation, s)
                else (Ok (), s\<lparr>sc_value := v\<rparr>))"

definition scalar_prepare_set :: "oid \<Rightarrow> value \<Rightarrow> (scalar_handler, set_result) state" where
  "scalar_prepare_set o1 v =
     State (\<lambda>s. if \<not> sc_writable s then (Err NotWritable, s)
                else if o1 \<noteq> sc_instance s then (Err NoCreation, s)
                else if \<not> types_compatible (sc_value s) v then (Err WrongType, s)
                else (Ok (), s))"

definition scalar_commit_set :: "oid \<Rightarrow> value \<Rightarrow> (scalar_handler, set_result) state" where
  "scalar_commit_set o1 v = scalar_set o1 v"

text \<open>The trait implementation; \<open>undo_set\<close> is not overridden.\<close>

definition scalar_mib :: "oid \<Rightarrow> scalar_handler mib_handler" where
  "scalar_mib root =
     \<lparr>h_root = root, h_get = scalar_get, h_get_next = scalar_get_next, h_set = scalar_set,
      h_prepare_set = scalar_prepare_set, h_commit_set = scalar_commit_set,
      h_undo_set = default_undo_set\<rparr>"

lemmas scalar_ops_defs = scalar_get_def scalar_get_next_def scalar_set_def
  scalar_prepare_set_def scalar_commit_set_def

definition scalar_ok :: "oid \<Rightarrow> scalar_handler \<Rightarrow> bool" where
  "scalar_ok root s \<longleftrightarrow> sc_root s = root \<and> sc_instance s = child root 0"

definition scalar_cells :: "scalar_handler \<Rightarrow> oid \<Rightarrow> value option" where
  "scalar_cells s = [sc_instance s \<mapsto> sc_value s]"

lemma scalar_mib_simps [simp]:
  "h_root (scalar_mib root) = root" "h_get (scalar_mib root) = scalar_get"
  "h_get_next (scalar_mib root) = scalar_get_next"
  "h_prepare_set (scalar_mib root) = scalar_prepare_set"
  "h_commit_set (scalar_mib root) = scalar_commit_set"
  "h_undo_set (scalar_mib root) = default_undo_set"
  by (simp_all add: scalar_mib_def)

interpretation scalar: settable_cells "scalar_mib root" "scalar_ok root" scalar_cells for root
  by unfold_locales
    (auto simp: scalar_ops_defs scalar_cells_def scalar_ok_def split: if_splits)

section \<open>MapHandler\<close>

record map_handler =
  mh_root :: oid
  mh_entries :: "(oid, value) btree_map"
  mh_writable :: bool

definition map_new :: "oid \<Rightarrow> map_handler" where
  "map_new root = \<lparr>mh_root = root, mh_entries = [], mh_writable = False\<rparr>"

definition map_with :: "oid \<Rightarrow> value \<Rightarrow> map_handler \<Rightarrow> map_handler" where
  "map_with o1 v s = s\<lparr>mh_entries := btm_insert o1 v (mh_entries s)\<rparr>"

definition map_writable :: "map_handler \<Rightarrow> map_handler" where
  "map_writable s = s\<lparr>mh_writable := True\<rparr>"

definition map_insert :: "oid \<Rightarrow> value \<Rightarrow> map_handler \<Rightarrow> map_handler" where
  "map_insert o1 v s = s\<lparr>mh_entries := btm_insert o1 v (mh_entries s)\<rparr>"

definition map_get :: "oid \<Rightarrow> (map_handler, value option) state" where
  "map_get o1 = State (\<lambda>s. (btm_get (mh_entries s) o1, s))"

definition map_get_next :: "oid \<Rightarrow> (map_handler, reading option) state" where
  "map_get_next o1 = State (\<lambda>s. (btm_after o1 (mh_entries s), s))"

definition map_set :: "oid \<Rightarrow> value \<Rightarrow> (map_handler, set_result) state" where
  "map_set o1 v =
     State (\<lambda>s. if \<not> mh_writable s then (Err NotWritable, s)
                else case btm_get (mh_entries s) o1 of
                       Some slot \<Rightarrow> (Ok (), s\<lparr>mh_entries := btm_insert o1 v (mh_entries s)\<rparr>)
                     | None \<Rightarrow> (Err NoCreation, s))"

definition map_prepare_set :: "oid \<Rightarrow> value \<Rightarrow> (map_handler, set_result) state" where
  "map_prepare_set o1 v =
     State (\<lambda>s. if \<not> mh_writable s then (Err NotWritable, s)
                else case btm_get (mh_entries s) o1 of
                       Some current \<Rightarrow>
                         if \<not> types_compatible current v then (Err WrongType, s) else (Ok (), s)
                     | None \<Rightarrow> (Err NoCreation, s))"

definition map_commit_set :: "oid \<Rightarrow> value \<Rightarrow> (map_handler, set_result) state" where
  "map_commit_set o1 v = map_set o1 v"

definition map_mib :: "oid \<Rightarrow> map_handler mib_handler" where
  "map_mib root =
     \<lparr>h_root = root, h_get = map_get, h_get_next = map_get_next, h_set = map_set,
      h_prepare_set = map_prepare_set, h_commit_set = map_commit_set,
      h_undo_set = default_undo_set\<rparr>"

lemmas map_ops_defs = map_get_def map_get_next_def map_set_def map_prepare_set_def map_commit_set_def

definition map_ok :: "oid \<Rightarrow> map_handler \<Rightarrow> bool" where
  "map_ok root s \<longleftrightarrow> mh_root s = root \<and> btm_wf (mh_entries s)"

definition map_cells :: "map_handler \<Rightarrow> oid \<Rightarrow> value option" where
  "map_cells s = btm_get (mh_entries s)"

lemma map_mib_simps [simp]:
  "h_root (map_mib root) = root" "h_get (map_mib root) = map_get"
  "h_get_next (map_mib root) = map_get_next"
  "h_prepare_set (map_mib root) = map_prepare_set"
  "h_commit_set (map_mib root) = map_commit_set"
  "h_undo_set (map_mib root) = default_undo_set"
  by (simp_all add: map_mib_def)

lemma map_ok_builders:
  "map_ok root (map_new root)" "map_ok root s \<Longrightarrow> map_ok root (map_with o1 v s)"
  "map_ok root s \<Longrightarrow> map_ok root (map_writable s)" "map_ok root s \<Longrightarrow> map_ok root (map_insert o1 v s)"
  by (simp_all add: map_ok_def map_new_def map_with_def map_writable_def map_insert_def btm_wf_insert)

interpretation mapped: settable_cells "map_mib root" "map_ok root" map_cells for root
  by unfold_locales
    (auto simp: map_ops_defs map_cells_def map_ok_def btm_after_is_next btm_wf_insert
        btm_get_insert dom_btm_get split: if_splits option.splits)

section \<open>FnHandler\<close>

text \<open>
  Time is a count of milliseconds.  \<open>fn_live\<close> is what the provider closure returns when it
  is called at time \<open>fn_now\<close>.
\<close>

type_synonym cell_list = "(oid \<times> value) list"

definition SNAPSHOT_TTL :: nat where
  "SNAPSHOT_TTL = 900"

record fn_handler =
  fn_root :: oid
  fn_live :: cell_list
  fn_now :: nat
  fn_cache :: "(nat \<times> cell_list) option"

definition fn_new :: "oid \<Rightarrow> cell_list \<Rightarrow> nat \<Rightarrow> fn_handler" where
  "fn_new root live now = \<lparr>fn_root = root, fn_live = live, fn_now = now, fn_cache = None\<rparr>"

definition fn_scalar :: "oid \<Rightarrow> value \<Rightarrow> nat \<Rightarrow> fn_handler" where
  "fn_scalar root getter now = fn_new root [(child root 0, getter)] now"

definition fresh_cells :: "nat \<Rightarrow> nat \<Rightarrow> (nat \<times> cell_list) option \<Rightarrow> cell_list option" where
  "fresh_cells ttl now cache =
     (case cache of
        Some (built, cs) \<Rightarrow> if now - built < ttl then Some cs else None
      | None \<Rightarrow> None)"

definition fn_snapshot :: "(fn_handler, cell_list) state" where
  "fn_snapshot =
     State (\<lambda>s. case fresh_cells SNAPSHOT_TTL (fn_now s) (fn_cache s) of
                  Some cs \<Rightarrow> (cs, s)
                | None \<Rightarrow> (let cs = sort_key fst (fn_live s)
                           in (cs, s\<lparr>fn_cache := Some (fn_now s, cs)\<rparr>)))"

text \<open>The lookups that every snapshot handler performs on its sorted cells.\<close>

definition search_cells :: "cell_list \<Rightarrow> oid \<Rightarrow> value option" where
  "search_cells cs o1 =
     (case binary_search_by (\<lambda>(a, b). cmp a o1) cs of Ok i \<Rightarrow> Some (snd (cs ! i)) | Err _ \<Rightarrow> None)"

definition next_cell :: "cell_list \<Rightarrow> oid \<Rightarrow> reading option" where
  "next_cell cs o1 =
     (let idx = partition_point (\<lambda>(a, b). a \<le> o1) cs
      in if idx < length cs then Some (cs ! idx) else None)"

definition fn_get :: "oid \<Rightarrow> (fn_handler, value option) state" where
  "fn_get o1 = do { cs \<leftarrow> fn_snapshot; State_Monad.return (search_cells cs o1) }"

definition fn_get_next :: "oid \<Rightarrow> (fn_handler, reading option) state" where
  "fn_get_next o1 = do { cs \<leftarrow> fn_snapshot; State_Monad.return (next_cell cs o1) }"

definition fn_mib :: "oid \<Rightarrow> fn_handler mib_handler" where
  "fn_mib root =
     \<lparr>h_root = root, h_get = fn_get, h_get_next = fn_get_next, h_set = default_set,
      h_prepare_set = default_prepare_set, h_commit_set = default_commit_set default_set,
      h_undo_set = default_undo_set\<rparr>"

lemma sorted_distinct_wf: "sorted (map fst cs) \<Longrightarrow> distinct (map fst cs) \<Longrightarrow> btm_wf cs"
  by (simp add: btm_wf_def strict_sorted_iff)

lemma search_cells_eq:
  assumes "btm_wf cs" shows "search_cells cs o1 = btm_get cs o1"
proof -
  have s: "sorted (map fst cs)" and d: "distinct (map fst cs)"
    using assms by (simp_all add: btm_wf_def strict_sorted_iff)
  have b: "case binary_search_by (\<lambda>(a, b). cmp a o1) cs of
      Ok i \<Rightarrow> i < length cs \<and> fst (cs ! i) = o1 | Err i \<Rightarrow> o1 \<notin> fst ` set cs"
    using binary_search_by_cmp [OF s, of o1] by (simp add: case_prod_beta')
  show ?thesis
  proof (cases "binary_search_by (\<lambda>(a, b). cmp a o1) cs")
    case (Ok i)
    with b have "(o1, snd (cs ! i)) \<in> set cs" by (auto simp: in_set_conv_nth)
    with d Ok show ?thesis by (simp add: search_cells_def btm_get_def)
  next
    case (Err i)
    with b have "map_of cs o1 = None" by (simp add: map_of_eq_None_iff)
    with Err show ?thesis by (simp add: search_cells_def btm_get_def)
  qed
qed

lemma next_cell_eq: "sorted (map fst cs) \<Longrightarrow> next_cell cs o1 = btm_after o1 cs"
  using partition_point_next [of cs o1] by (simp add: next_cell_def Let_def)

lemma next_cell_is_next: "btm_wf cs \<Longrightarrow> is_next (btm_get cs) o1 (next_cell cs o1)"
  by (simp add: next_cell_eq btm_after_is_next btm_wf_def strict_sorted_iff)

lemma sort_cells_wf: "distinct (map fst cs) \<Longrightarrow> btm_wf (sort_key fst cs)"
  by (rule sorted_distinct_wf) (simp_all add: distinct_map)

lemma sort_cells_get: "distinct (map fst cs) \<Longrightarrow> btm_get (sort_key fst cs) = map_of cs"
proof -
  assume d: "distinct (map fst cs)"
  then have "distinct (map fst (sort_key fst cs))" by (simp add: distinct_map)
  with d have "map_of (sort_key fst cs) = map_of cs" by (simp add: map_of_inject_set)
  then show ?thesis by (simp add: btm_get_def fun_eq_iff)
qed

text \<open>The cells a snapshot serves: the cached ones while they are fresh, else the live ones.\<close>

definition fn_cells :: "fn_handler \<Rightarrow> oid \<Rightarrow> value option" where
  "fn_cells s = map_of (case fresh_cells SNAPSHOT_TTL (fn_now s) (fn_cache s) of
                          Some cs \<Rightarrow> cs | None \<Rightarrow> fn_live s)"

definition fn_ok :: "fn_handler \<Rightarrow> bool" where
  "fn_ok s \<longleftrightarrow> distinct (map fst (fn_live s)) \<and>
     (\<forall>t cs. fn_cache s = Some (t, cs) \<longrightarrow> btm_wf cs)"

lemma fn_snapshot_run:
  assumes "fn_ok s" and "run_state fn_snapshot s = (cs, s')"
  shows "btm_wf cs \<and> btm_get cs = fn_cells s \<and> fn_ok s' \<and> fn_cells s' = fn_cells s"
proof (cases "fresh_cells SNAPSHOT_TTL (fn_now s) (fn_cache s)")
  case (Some c)
  then show ?thesis using assms
    by (auto simp: fn_snapshot_def fn_ok_def fn_cells_def fresh_cells_def btm_get_def fun_eq_iff
        split: option.splits if_splits)
next
  case None
  then have cs: "cs = sort_key fst (fn_live s)" "s' = s\<lparr>fn_cache := Some (fn_now s, cs)\<rparr>"
    using assms(2) by (auto simp: fn_snapshot_def Let_def)
  have d: "distinct (map fst (fn_live s))" using assms(1) by (simp add: fn_ok_def)
  have "fn_cells s' = btm_get cs"
    by (simp add: cs fn_cells_def fresh_cells_def SNAPSHOT_TTL_def btm_get_def fun_eq_iff)
  with d None show ?thesis
    by (simp add: cs sort_cells_wf sort_cells_get fn_ok_def fn_cells_def)
qed

lemma fn_mib_simps [simp]:
  "h_root (fn_mib root) = root" "h_get (fn_mib root) = fn_get"
  "h_get_next (fn_mib root) = fn_get_next"
  by (simp_all add: fn_mib_def)

interpretation fn: served_cells "fn_mib root" fn_ok fn_cells for root
proof
  fix s o1 r s'
  assume ok: "fn_ok s" and run: "run_state (h_get (fn_mib root) o1) s = (r, s')"
  obtain cs t where c: "run_state fn_snapshot s = (cs, t)" by fastforce
  then show "r = fn_cells s o1 \<and> fn_ok s' \<and> fn_cells s' = fn_cells s"
    using fn_snapshot_run [OF ok c] run by (auto simp: fn_get_def search_cells_eq)
next
  fix s o1 n s'
  assume ok: "fn_ok s" and run: "run_state (h_get_next (fn_mib root) o1) s = (n, s')"
  obtain cs t where c: "run_state fn_snapshot s = (cs, t)" by fastforce
  then show "is_next (fn_cells s) o1 n \<and> fn_ok s' \<and> fn_cells s' = fn_cells s"
    using fn_snapshot_run [OF ok c] next_cell_is_next [of cs o1] run by (auto simp: fn_get_next_def)
next
  fix s assume "fn_ok s"
  show "finite (dom (fn_cells s))" by (simp add: fn_cells_def finite_dom_map_of)
qed

section \<open>Properties\<close>

text \<open>A SET that \<open>prepare_set\<close> of a map handler accepts is committed without failure; afterwards
  GET reads the new value at that OID and the old value everywhere else, the SMI type of
  the object is kept, and GETNEXT visits the same OIDs as before.\<close>

lemma map_two_phase_set:
  assumes ok: "map_ok root s" and prep: "run_state (h_prepare_set (map_mib root) o1 v) s = (Ok (), t)"
    and com: "run_state (h_commit_set (map_mib root) o1 v) t = (r, s')"
  shows "t = s \<and> r = Ok () \<and> map_ok root s' \<and>
    (\<exists>old. map_cells s o1 = Some old \<and> type_name v = type_name old) \<and>
    (\<forall>o2. fst (run_state (h_get (map_mib root) o2) s') =
       (if o2 = o1 then Some v else fst (run_state (h_get (map_mib root) o2) s))) \<and>
    (\<forall>o2. map_option fst (fst (run_state (h_get_next (map_mib root) o2) s')) =
       map_option fst (fst (run_state (h_get_next (map_mib root) o2) s)))"
proof -
  have t: "t = s" by (rule mapped.prepare_pure [OF ok prep])
  have p: "fst (run_state (h_prepare_set (map_mib root) o1 v) s) = Ok ()" using prep by simp
  have c: "run_state (h_commit_set (map_mib root) o1 v) s = (r, s')" using com t by simp
  obtain old where old: "map_cells s o1 = Some old" "types_compatible old v"
    using prep by (auto simp: map_prepare_set_def map_cells_def split: if_splits option.splits)
  have s': "s' = s\<lparr>mh_entries := btm_insert o1 v (mh_entries s)\<rparr>"
    using c old prep by (auto simp: map_ops_defs map_cells_def split: if_splits)
  have "map_option fst (btm_after o2 (btm_insert o1 v (mh_entries s))) = map_option fst (btm_after o2 (mh_entries s))"
    for o2 by (rule btm.after_overwrite) (use ok old in \<open>simp_all add: map_ok_def map_cells_def\<close>)
  then show ?thesis
    using mapped.prepared_commits [OF ok p c] mapped.set_then_get [OF ok p c] t old
    by (simp add: types_compatible_iff map_get_next_def s')
qed

text \<open>A snapshot handler answers GETNEXT with the least OID above the request among the
  cells it serves, and serves the very same cells on every read until the snapshot is
  stale, however the live data changes in between.\<close>

lemma fn_snapshot_stable:
  assumes "fn_ok s" and "run_state (fn_get_next o1) s = (r, s')"
    and "distinct (map fst live')" and "t < SNAPSHOT_TTL" and "fn_cache s = None"
  shows "is_next (map_of (fn_live s)) o1 r \<and>
    fst (run_state (fn_get_next o2) (s'\<lparr>fn_live := live', fn_now := fn_now s + t\<rparr>))
      = fst (run_state (fn_get_next o2) s)"
proof -
  have cells: "fn_cells s = map_of (fn_live s)"
    by (simp add: fn_cells_def fresh_cells_def assms(5))
  have s': "s' = s\<lparr>fn_cache := Some (fn_now s, sort_key fst (fn_live s))\<rparr>"
    using assms(2,5) by (auto simp: fn_get_next_def fn_snapshot_def fresh_cells_def Let_def)
  have "is_next (fn_cells s) o1 r"
    using fn.next_served [OF assms(1), of undefined] assms(2) by simp
  moreover have "fst (run_state (fn_get_next o2) (s'\<lparr>fn_live := live', fn_now := fn_now s + t\<rparr>))
      = next_cell (sort_key fst (fn_live s)) o2"
    using assms(4) by (simp add: s' fn_get_next_def fn_snapshot_def fresh_cells_def)
  moreover have "fst (run_state (fn_get_next o2) s) = next_cell (sort_key fst (fn_live s)) o2"
    using assms(5) by (simp add: fn_get_next_def fn_snapshot_def fresh_cells_def Let_def)
  ultimately show ?thesis by (simp add: cells)
qed

end
