(* ===== verification/Snmp_Helpers.thy ===== *)
theory Snmp_Helpers
  imports Snmp_Scalar
begin

text \<open>
  The handler helpers of \<^verbatim>\<open>crates/netsnmp-agent/src/helpers/\<close>: the provider-backed tables
  \<^verbatim>\<open>TableHandler\<close> and \<^verbatim>\<open>CacheHandler\<close>, the \<^verbatim>\<open>ReadOnly\<close> wrapper and the \<^verbatim>\<open>Watcher\<close> scalar, each
  with the reading contract of a handler.
\<close>

section \<open>Instance OIDs of a table\<close>

text \<open>\<open>root.col.<index>\<close>, built by repeated \<^const>\<open>child\<close>.\<close>

definition instance_oid :: "oid \<Rightarrow> u32 \<Rightarrow> u32 list \<Rightarrow> oid" where
  "instance_oid root col index = foldl child (child root col) index"

lemma foldl_child: "foldl child a xs = Oid (as_slice a @ xs)"
  by (induction xs arbitrary: a) (simp_all add: child_def)

lemma instance_oid_eq: "instance_oid root col index = Oid (as_slice root @ col # index)"
  by (simp add: instance_oid_def foldl_child child_def)

lemma instance_oid_inject [simp]:
  "instance_oid root c i = instance_oid root c' i' \<longleftrightarrow> c = c' \<and> i = i'"
  by (simp add: instance_oid_eq)

lemma instance_oid_under_root: "is_prefix_of root (instance_oid root c i)"
  by (simp add: is_prefix_of_iff instance_oid_eq)

text \<open>The cells of a list of rows, each row its index with the cells it has.\<close>

definition flatten_rows :: "oid \<Rightarrow> (u32 list \<times> (u32, value) btree_map) list \<Rightarrow> cell_list" where
  "flatten_rows root rows =
     concat (map (\<lambda>(index, cells). map (\<lambda>(col, v). (instance_oid root col index, v)) cells) rows)"

lemma in_flatten_rows:
  "(o1, v) \<in> set (flatten_rows root rows) \<longleftrightarrow>
     (\<exists>index cells col. (index, cells) \<in> set rows \<and> (col, v) \<in> set cells \<and>
        o1 = instance_oid root col index)"
  by (force simp: flatten_rows_def)

lemma flatten_rows_keys:
  "fst ` set (flatten_rows root rows) =
     {instance_oid root col index | index cells col. (index, cells) \<in> set rows \<and> col \<in> fst ` set cells}"
  by (force simp: flatten_rows_def)

lemma distinct_flatten_rows:
  assumes "distinct (map fst rows)" and "\<And>index cells. (index, cells) \<in> set rows \<Longrightarrow> distinct (map fst cells)"
  shows "distinct (map fst (flatten_rows root rows))"
  using assms
proof (induction rows)
  case Nil
  then show ?case by (simp add: flatten_rows_def)
next
  case (Cons r rows)
  obtain index cells where r: "r = (index, cells)" by (cases r)
  let ?row = "map (\<lambda>(col, v). (instance_oid root col index, v)) cells"
  have split: "flatten_rows root (r # rows) = ?row @ flatten_rows root rows"
    by (simp add: flatten_rows_def r)
  have "distinct (map fst cells)" using Cons.prems(2) [of index cells] by (simp add: r)
  moreover have "map fst ?row = map (\<lambda>col. instance_oid root col index) (map fst cells)" by auto
  ultimately have "distinct (map fst ?row)" by (simp add: distinct_map inj_on_def)
  moreover have "distinct (map fst (flatten_rows root rows))"
  proof (rule Cons.IH)
    show "distinct (map fst rows)" using Cons.prems(1) by simp
    show "distinct (map fst cells)" if "(index, cells) \<in> set rows" for index cells
      by (rule Cons.prems(2) [of index]) (simp add: that)
  qed
  moreover have "fst ` set ?row \<inter> fst ` set (flatten_rows root rows) = {}"
    using Cons.prems(1) unfolding flatten_rows_keys by (force simp: r)
  ultimately show ?case by (simp only: split map_append distinct_append set_map simp_thms)
qed

section \<open>TableHandler\<close>

record table_row =
  tr_index :: "u32 list"
  tr_cells :: "(u32, value) btree_map"

definition row_new :: "u32 list \<Rightarrow> table_row" where
  "row_new index = \<lparr>tr_index = index, tr_cells = []\<rparr>"

definition row_with :: "u32 \<Rightarrow> value \<Rightarrow> table_row \<Rightarrow> table_row" where
  "row_with col v r = r\<lparr>tr_cells := btm_insert col v (tr_cells r)\<rparr>"

record table_handler =
  th_root :: oid
  th_columns :: "u32 list"
  th_live :: "table_row list"
  th_now :: nat
  th_cache :: "(nat \<times> cell_list) option"

definition table_snapshot :: "(table_handler, cell_list) state" where
  "table_snapshot =
     State (\<lambda>s. case fresh_cells SNAPSHOT_TTL (th_now s) (th_cache s) of
                  Some cs \<Rightarrow> (cs, s)
                | None \<Rightarrow>
                    (let cs = sort_key fst (flatten_rows (th_root s)
                                (map (\<lambda>r. (tr_index r, tr_cells r)) (th_live s)))
                     in (cs, s\<lparr>th_cache := Some (th_now s, cs)\<rparr>)))"

definition table_get :: "oid \<Rightarrow> (table_handler, value option) state" where
  "table_get o1 = do { cs \<leftarrow> table_snapshot; State_Monad.return (search_cells cs o1) }"

definition table_get_next :: "oid \<Rightarrow> (table_handler, reading option) state" where
  "table_get_next o1 = do { cs \<leftarrow> table_snapshot; State_Monad.return (next_cell cs o1) }"

definition table_set :: "oid \<Rightarrow> value \<Rightarrow> (table_handler, set_result) state" where
  "table_set o1 v = State_Monad.return (Err NotWritable)"

definition table_mib :: "oid \<Rightarrow> table_handler mib_handler" where
  "table_mib root =
     \<lparr>h_root = root, h_get = table_get, h_get_next = table_get_next, h_set = table_set,
      h_prepare_set = default_prepare_set, h_commit_set = default_commit_set table_set,
      h_undo_set = default_undo_set\<rparr>"

section \<open>CacheHandler\<close>

record cache_handler =
  ch_root :: oid
  ch_ttl :: nat
  ch_live :: cell_list
  ch_now :: nat
  ch_cache :: "(nat \<times> cell_list) option"

definition cache_snapshot :: "(cache_handler, cell_list) state" where
  "cache_snapshot =
     State (\<lambda>s. case fresh_cells (ch_ttl s) (ch_now s) (ch_cache s) of
                  Some cs \<Rightarrow> (cs, s)
                | None \<Rightarrow> (let cs = sort_key fst (ch_live s)
                           in (cs, s\<lparr>ch_cache := Some (ch_now s, cs)\<rparr>)))"

definition cache_get :: "oid \<Rightarrow> (cache_handler, value option) state" where
  "cache_get o1 = do { cs \<leftarrow> cache_snapshot; State_Monad.return (search_cells cs o1) }"

definition cache_get_next :: "oid \<Rightarrow> (cache_handler, reading option) state" where
  "cache_get_next o1 = do { cs \<leftarrow> cache_snapshot; State_Monad.return (next_cell cs o1) }"

definition cache_set :: "oid \<Rightarrow> value \<Rightarrow> (cache_handler, set_result) state" where
  "cache_set o1 v = State_Monad.return (Err NotWritable)"

definition cache_mib :: "oid \<Rightarrow> cache_handler mib_handler" where
  "cache_mib root =
     \<lparr>h_root = root, h_get = cache_get, h_get_next = cache_get_next, h_set = cache_set,
      h_prepare_set = default_prepare_set, h_commit_set = default_commit_set cache_set,
      h_undo_set = default_undo_set\<rparr>"

section \<open>Snapshot handlers serve their snapshot\<close>

text \<open>
  The interface between a snapshot and the lookups on it: the snapshot is sorted, holds the
  served cells, and taking it again serves the same ones.
\<close>

locale snapshot_source =
  fixes snap :: "('s, cell_list) state"
    and invar :: "'s \<Rightarrow> bool"
    and cells :: "'s \<Rightarrow> oid \<Rightarrow> value option"
  assumes snap_run: "invar s \<Longrightarrow> run_state snap s = (cs, s') \<Longrightarrow>
      btm_wf cs \<and> btm_get cs = cells s \<and> invar s' \<and> cells s' = cells s"
begin

lemma snapshot_get:
  assumes "invar s" and "run_state (do { cs \<leftarrow> snap; State_Monad.return (search_cells cs o1) }) s = (r, s')"
  shows "r = cells s o1 \<and> invar s' \<and> cells s' = cells s"
proof -
  obtain cs t where c: "run_state snap s = (cs, t)" by fastforce
  show ?thesis using snap_run [OF assms(1) c] assms(2) c by (auto simp: search_cells_eq)
qed

lemma snapshot_next:
  assumes "invar s" and "run_state (do { cs \<leftarrow> snap; State_Monad.return (next_cell cs o1) }) s = (n, s')"
  shows "is_next (cells s) o1 n \<and> invar s' \<and> cells s' = cells s"
proof -
  obtain cs t where c: "run_state snap s = (cs, t)" by fastforce
  show ?thesis using snap_run [OF assms(1) c] next_cell_is_next [of cs o1] assms(2) c by auto
qed

lemma snapshot_finite: "invar s \<Longrightarrow> finite (dom (cells s))"
  using snap_run [of s "fst (run_state snap s)" "snd (run_state snap s)"]
  by (metis dom_btm_get finite_imageI List.finite_set prod.collapse)

end

definition cache_cells :: "cache_handler \<Rightarrow> oid \<Rightarrow> value option" where
  "cache_cells s = map_of (case fresh_cells (ch_ttl s) (ch_now s) (ch_cache s) of
                             Some cs \<Rightarrow> cs | None \<Rightarrow> ch_live s)"

definition cache_ok :: "cache_handler \<Rightarrow> bool" where
  "cache_ok s \<longleftrightarrow> 0 < ch_ttl s \<and> distinct (map fst (ch_live s)) \<and>
     (\<forall>t cs. ch_cache s = Some (t, cs) \<longrightarrow> btm_wf cs)"

definition table_live :: "table_handler \<Rightarrow> cell_list" where
  "table_live s = flatten_rows (th_root s) (map (\<lambda>r. (tr_index r, tr_cells r)) (th_live s))"

definition table_cells :: "table_handler \<Rightarrow> oid \<Rightarrow> value option" where
  "table_cells s = map_of (case fresh_cells SNAPSHOT_TTL (th_now s) (th_cache s) of
                             Some cs \<Rightarrow> cs | None \<Rightarrow> table_live s)"

definition table_ok :: "table_handler \<Rightarrow> bool" where
  "table_ok s \<longleftrightarrow> distinct (map tr_index (th_live s)) \<and>
     (\<forall>r\<in>set (th_live s). btm_wf (tr_cells r)) \<and>
     (\<forall>t cs. th_cache s = Some (t, cs) \<longrightarrow> btm_wf cs)"

lemma btm_wf_distinct: "btm_wf m \<Longrightarrow> distinct (map fst m)"
  by (simp add: btm_wf_def strict_sorted_iff)

lemma table_live_distinct: "table_ok s \<Longrightarrow> distinct (map fst (table_live s))"
  unfolding table_live_def
  by (rule distinct_flatten_rows) (auto simp: table_ok_def comp_def btm_wf_distinct)

lemma fresh_cells_wf:
  "\<forall>t cs. cache = Some (t, cs) \<longrightarrow> btm_wf cs \<Longrightarrow> fresh_cells ttl now cache = Some cs \<Longrightarrow> btm_wf cs"
  by (auto simp: fresh_cells_def split: option.splits if_splits)

interpretation cache_src: snapshot_source cache_snapshot cache_ok cache_cells
proof
  fix s cs s' assume ok: "cache_ok s" and run: "run_state cache_snapshot s = (cs, s')"
  show "btm_wf cs \<and> btm_get cs = cache_cells s \<and> cache_ok s' \<and> cache_cells s' = cache_cells s"
  proof (cases "fresh_cells (ch_ttl s) (ch_now s) (ch_cache s)")
    case (Some c)
    then show ?thesis using ok run fresh_cells_wf [OF _ Some]
      by (auto simp: cache_snapshot_def cache_ok_def cache_cells_def btm_get_def fun_eq_iff)
  next
    case None
    then have c: "cs = sort_key fst (ch_live s)" "s' = s\<lparr>ch_cache := Some (ch_now s, cs)\<rparr>"
      using run by (auto simp: cache_snapshot_def Let_def)
    have "cache_cells s' = btm_get cs"
      using ok by (simp add: c cache_ok_def cache_cells_def fresh_cells_def btm_get_def fun_eq_iff)
    with ok None show ?thesis
      by (simp add: c sort_cells_wf sort_cells_get cache_ok_def cache_cells_def)
  qed
qed

interpretation table_src: snapshot_source table_snapshot table_ok table_cells
proof
  fix s cs s' assume ok: "table_ok s" and run: "run_state table_snapshot s = (cs, s')"
  show "btm_wf cs \<and> btm_get cs = table_cells s \<and> table_ok s' \<and> table_cells s' = table_cells s"
  proof (cases "fresh_cells SNAPSHOT_TTL (th_now s) (th_cache s)")
    case (Some c)
    then show ?thesis using ok run fresh_cells_wf [OF _ Some]
      by (auto simp: table_snapshot_def table_ok_def table_cells_def btm_get_def fun_eq_iff)
  next
    case None
    then have c: "cs = sort_key fst (table_live s)" "s' = s\<lparr>th_cache := Some (th_now s, cs)\<rparr>"
      using run by (auto simp: table_snapshot_def table_live_def Let_def)
    have "table_cells s' = btm_get cs"
      by (simp add: c table_cells_def fresh_cells_def SNAPSHOT_TTL_def btm_get_def fun_eq_iff)
    with ok None table_live_distinct [OF ok] show ?thesis
      by (simp add: c sort_cells_wf sort_cells_get table_ok_def table_cells_def)
  qed
qed

lemma snapshot_mib_simps [simp]:
  "h_get (table_mib root) = table_get" "h_get_next (table_mib root) = table_get_next"
  "h_get (cache_mib root) = cache_get" "h_get_next (cache_mib root) = cache_get_next"
  by (simp_all add: table_mib_def cache_mib_def)

interpretation tabled: served_cells "table_mib root" table_ok table_cells for root
proof
  fix s o1 r s' assume ok: "table_ok s" and run: "run_state (h_get (table_mib root) o1) s = (r, s')"
  show "r = table_cells s o1 \<and> table_ok s' \<and> table_cells s' = table_cells s"
    using run unfolding snapshot_mib_simps table_get_def by (rule table_src.snapshot_get [OF ok])
next
  fix s o1 r s' assume ok: "table_ok s" and run: "run_state (h_get_next (table_mib root) o1) s = (r, s')"
  show "is_next (table_cells s) o1 r \<and> table_ok s' \<and> table_cells s' = table_cells s"
    using run unfolding snapshot_mib_simps table_get_next_def by (rule table_src.snapshot_next [OF ok])
qed (rule table_src.snapshot_finite)

interpretation cached: served_cells "cache_mib root" cache_ok cache_cells for root
proof
  fix s o1 r s' assume ok: "cache_ok s" and run: "run_state (h_get (cache_mib root) o1) s = (r, s')"
  show "r = cache_cells s o1 \<and> cache_ok s' \<and> cache_cells s' = cache_cells s"
    using run unfolding snapshot_mib_simps cache_get_def by (rule cache_src.snapshot_get [OF ok])
next
  fix s o1 r s' assume ok: "cache_ok s" and run: "run_state (h_get_next (cache_mib root) o1) s = (r, s')"
  show "is_next (cache_cells s) o1 r \<and> cache_ok s' \<and> cache_cells s' = cache_cells s"
    using run unfolding snapshot_mib_simps cache_get_next_def by (rule cache_src.snapshot_next [OF ok])
qed (rule cache_src.snapshot_finite)

section \<open>ReadOnly\<close>

definition read_only :: "'s mib_handler \<Rightarrow> 's mib_handler" where
  "read_only inner =
     \<lparr>h_root = h_root inner, h_get = h_get inner, h_get_next = h_get_next inner,
      h_set = (\<lambda>o1 v. State_Monad.return (Err NotWritable)),
      h_prepare_set = (\<lambda>o1 v. State_Monad.return (Err NotWritable)),
      h_commit_set = (\<lambda>o1 v. State_Monad.return (Err NotWritable)),
      h_undo_set = default_undo_set\<rparr>"

lemma read_only_simps [simp]:
  "h_root (read_only h) = h_root h" "h_get (read_only h) = h_get h"
  "h_get_next (read_only h) = h_get_next h"
  "h_prepare_set (read_only h) o1 v = State_Monad.return (Err NotWritable)"
  "h_commit_set (read_only h) o1 v = State_Monad.return (Err NotWritable)"
  "h_undo_set (read_only h) = default_undo_set"
  by (simp_all add: read_only_def)

context served_cells
begin

lemma read_only_served: "served_cells (read_only h) invar cells"
  by unfold_locales (auto dest: get_served next_served finite_served)

lemma read_only_settable: "settable_cells (read_only h) invar cells"
  by unfold_locales (auto dest: get_served next_served finite_served)

end

section \<open>Watcher\<close>

text \<open>
  The watched state is caller-owned; \<open>getter\<close> and \<open>setter\<close> are the caller's closures.
\<close>

definition watcher_get :: "oid \<Rightarrow> ('t \<Rightarrow> value) \<Rightarrow> oid \<Rightarrow> ('t, value option) state" where
  "watcher_get root getter o1 =
     State (\<lambda>t. (if o1 = child root 0 then Some (getter t) else None, t))"

definition watcher_get_next :: "oid \<Rightarrow> ('t \<Rightarrow> value) \<Rightarrow> oid \<Rightarrow> ('t, reading option) state" where
  "watcher_get_next root getter o1 =
     State (\<lambda>t. (if o1 < child root 0 then Some (child root 0, getter t) else None, t))"

definition watcher_prepare_set ::
  "oid \<Rightarrow> (value \<Rightarrow> ('t, error_status) result) \<Rightarrow> oid \<Rightarrow> value \<Rightarrow> ('t, set_result) state" where
  "watcher_prepare_set root setter o1 v =
     State (\<lambda>t. if o1 \<noteq> child root 0 then (Err NoCreation, t)
                else (bind_result (setter v) (\<lambda>_. Ok ()), t))"

definition watcher_commit_set ::
  "oid \<Rightarrow> (value \<Rightarrow> ('t, error_status) result) \<Rightarrow> oid \<Rightarrow> value \<Rightarrow> ('t, set_result) state" where
  "watcher_commit_set root setter o1 v =
     State (\<lambda>t. if o1 \<noteq> child root 0 then (Err NoCreation, t)
                else case setter v of Ok new \<Rightarrow> (Ok (), new) | Err e \<Rightarrow> (Err e, t))"

definition watcher_mib ::
  "oid \<Rightarrow> ('t \<Rightarrow> value) \<Rightarrow> (value \<Rightarrow> ('t, error_status) result) \<Rightarrow> 't mib_handler" where
  "watcher_mib root getter setter =
     \<lparr>h_root = root, h_get = watcher_get root getter, h_get_next = watcher_get_next root getter,
      h_set = default_set, h_prepare_set = watcher_prepare_set root setter,
      h_commit_set = watcher_commit_set root setter, h_undo_set = default_undo_set\<rparr>"

interpretation watcher: served_cells "watcher_mib root getter setter" "\<lambda>_. True"
  "\<lambda>t. [child root 0 \<mapsto> getter t]" for root getter setter
  by unfold_locales
    (auto simp: watcher_mib_def watcher_get_def watcher_get_next_def split: if_splits)

end
