(* ===== verification/Snmp_Table.thy ===== *)
theory Snmp_Table
  imports Snmp_Helpers
begin

text \<open>
  The writable table \<^verbatim>\<open>TableDataSet\<close> of
  \<^verbatim>\<open>crates/netsnmp-agent/src/helpers/table_dataset.rs\<close>: rows keyed by index, and
  optionally a RowStatus column whose SETs run the state machine of \<^verbatim>\<open>row.rs\<close>.  It serves
  its cells as every handler does, a reserved SET is always committed, and two invariants
  hold of the rows whatever is SET.
\<close>

section \<open>Column metadata\<close>

record column_meta =
  cm_number :: u32
  cm_syntax :: string
  cm_access :: string
  cm_defval :: "string option"

definition column_meta_new :: "u32 \<Rightarrow> string \<Rightarrow> string \<Rightarrow> column_meta" where
  "column_meta_new number syntax access =
     \<lparr>cm_number = number, cm_syntax = syntax, cm_access = access, cm_defval = None\<rparr>"

definition with_defval :: "string \<Rightarrow> column_meta \<Rightarrow> column_meta" where
  "with_defval d m = m\<lparr>cm_defval := Some d\<rparr>"

definition is_writable :: "column_meta \<Rightarrow> bool" where
  "is_writable m =
     (let a = to_ascii_lowercase (cm_access m) in a = ''read-create'' \<or> a = ''read-write'')"

section \<open>The table\<close>

type_synonym row_cells = "(u32, value) btree_map"
type_synonym row_map = "(u32 list, row_cells) btree_map"

record table_data_set =
  td_root :: oid
  td_columns :: "u32 list"
  td_meta :: "(u32, column_meta) btree_map"
  td_rows :: row_map
  row_status_column :: "u32 option"
  required_columns :: "u32 list"

definition td_new :: "oid \<Rightarrow> u32 list \<Rightarrow> table_data_set" where
  "td_new root columns =
     \<lparr>td_root = root, td_columns = columns,
      td_meta = foldl (\<lambda>m c. btm_insert c (column_meta_new c ''Integer32'' ''read-create'') m) [] columns,
      td_rows = [], row_status_column = None, required_columns = []\<rparr>"

definition with_column_meta :: "column_meta \<Rightarrow> table_data_set \<Rightarrow> table_data_set" where
  "with_column_meta m s =
     (let s = s\<lparr>td_meta := btm_insert (cm_number m) m (td_meta s)\<rparr> in
      if cm_number m \<notin> set (td_columns s)
      then s\<lparr>td_columns := sort (td_columns s @ [cm_number m])\<rparr> else s)"

definition with_row_status_column :: "u32 \<Rightarrow> table_data_set \<Rightarrow> table_data_set" where
  "with_row_status_column col s =
     (let s = s\<lparr>row_status_column := Some col\<rparr>;
          s = (if col \<notin> set (td_columns s) then s\<lparr>td_columns := sort (td_columns s @ [col])\<rparr> else s)
      in if col \<notin> set (required_columns s)
         then s\<lparr>required_columns := sort (required_columns s @ [col])\<rparr> else s)"

definition with_required_columns :: "u32 list \<Rightarrow> table_data_set \<Rightarrow> table_data_set" where
  "with_required_columns cols s =
     s\<lparr>required_columns :=
         sort (foldl (\<lambda>req c. if c \<notin> set req then req @ [c] else req) (required_columns s) cols)\<rparr>"

definition column_writable :: "table_data_set \<Rightarrow> u32 \<Rightarrow> bool" where
  "column_writable s col =
     (case btm_get (td_meta s) col of Some m \<Rightarrow> is_writable m | None \<Rightarrow> True)"

definition split_instance :: "oid \<Rightarrow> oid \<Rightarrow> (u32 \<times> u32 list) option" where
  "split_instance root o1 =
     (let slice = as_slice o1; r = as_slice root in
      if length slice < length r + 1 \<or> take (length r) slice \<noteq> r then None
      else Some (slice ! length r, drop (length r + 1) slice))"

definition required_satisfied :: "row_map \<Rightarrow> u32 list \<Rightarrow> u32 list \<Rightarrow> u32 option \<Rightarrow> bool" where
  "required_satisfied rows index required status_col =
     (case btm_get rows index of
        Some cells \<Rightarrow> list_all (btm_contains cells) (filter (\<lambda>c. Some c \<noteq> status_col) required)
      | None \<Rightarrow> False)"

text \<open>\<open>rows.entry(index).or_default()\<close> followed by \<open>insert\<close>.\<close>

definition put_cell :: "u32 \<Rightarrow> u32 list \<Rightarrow> value \<Rightarrow> row_map \<Rightarrow> row_map" where
  "put_cell col index v rows =
     btm_insert index
       (btm_insert col v (case btm_get rows index of Some cells \<Rightarrow> cells | None \<Rightarrow> [])) rows"

definition td_put :: "u32 \<Rightarrow> u32 list \<Rightarrow> value \<Rightarrow> table_data_set \<Rightarrow> table_data_set" where
  "td_put col index v s = s\<lparr>td_rows := put_cell col index v (td_rows s)\<rparr>"

definition remove_row :: "u32 list \<Rightarrow> table_data_set \<Rightarrow> bool \<times> table_data_set" where
  "remove_row index s =
     (btm_contains (td_rows s) index, s\<lparr>td_rows := btm_remove index (td_rows s)\<rparr>)"

text \<open>The status a row has: the decoded cell of the RowStatus column \<open>col\<close>.\<close>

definition current_status :: "row_map \<Rightarrow> u32 list \<Rightarrow> u32 \<Rightarrow> row_status option" where
  "current_status rows index col =
     Option.bind (btm_get rows index) (\<lambda>cells. Option.bind (btm_get cells col) row_from_value)"

definition apply_row_status ::
  "u32 \<Rightarrow> u32 list \<Rightarrow> u32 list \<Rightarrow> row_status \<Rightarrow> row_map \<Rightarrow> (value option, error_status) result \<times> row_map" where
  "apply_row_status col required index requested rows =
     (case transition (current_status rows index col) requested
             (required_satisfied rows index required (Some col)) of
        Err e \<Rightarrow> (Err e, rows)
      | Ok None \<Rightarrow> (Ok None, btm_remove index rows)
      | Ok (Some status) \<Rightarrow>
          (Ok (Some (Integer (row_as_i64 status))),
           put_cell col index (Integer (row_as_i64 status)) rows))"

section \<open>The handler\<close>

definition td_get :: "oid \<Rightarrow> (table_data_set, value option) state" where
  "td_get o1 = State (\<lambda>s.
     (case split_instance (td_root s) o1 of
        None \<Rightarrow> None
      | Some (col, index) \<Rightarrow> Option.bind (btm_get (td_rows s) index) (\<lambda>cells. btm_get cells col), s))"

definition td_get_next :: "oid \<Rightarrow> (table_data_set, reading option) state" where
  "td_get_next o1 = State (\<lambda>s.
     (next_cell (sort_key fst (flatten_rows (td_root s) (td_rows s))) o1, s))"

definition td_prepare :: "oid \<Rightarrow> value \<Rightarrow> table_data_set \<Rightarrow> set_result" where
  "td_prepare o1 v s =
     (case split_instance (td_root s) o1 of
        None \<Rightarrow> Err NoCreation
      | Some (col, index) \<Rightarrow>
          if \<not> column_writable s col then Err NotWritable
          else if row_status_column s = Some col then
            (case row_from_value v of
               None \<Rightarrow> Err WrongValue
             | Some requested \<Rightarrow>
                 bind_result
                   (transition (current_status (td_rows s) index col) requested
                      (required_satisfied (td_rows s) index (required_columns s) (row_status_column s)))
                   (\<lambda>_. Ok ()))
          else
            (case btm_get (td_rows s) index of
               Some cells \<Rightarrow>
                 (case btm_get cells col of
                    Some cur \<Rightarrow> if \<not> types_compatible cur v then Err WrongType else Ok ()
                  | None \<Rightarrow> Ok ())
             | None \<Rightarrow> if row_status_column s \<noteq> None then Ok () else Err NoCreation))"

definition td_prepare_set :: "oid \<Rightarrow> value \<Rightarrow> (table_data_set, set_result) state" where
  "td_prepare_set o1 v = State (\<lambda>s. (td_prepare o1 v s, s))"

definition td_commit :: "oid \<Rightarrow> value \<Rightarrow> table_data_set \<Rightarrow> set_result \<times> table_data_set" where
  "td_commit o1 v s =
     (case split_instance (td_root s) o1 of
        None \<Rightarrow> (Err NoCreation, s)
      | Some (col, index) \<Rightarrow>
          if row_status_column s = Some col then
            (case row_from_value v of
               None \<Rightarrow> (Err WrongValue, s)
             | Some requested \<Rightarrow>
                 (case apply_row_status col (required_columns s) index requested (td_rows s) of
                    (r, rows) \<Rightarrow> (bind_result r (\<lambda>_. Ok ()), s\<lparr>td_rows := rows\<rparr>)))
          else (Ok (), td_put col index v s))"

definition td_commit_set :: "oid \<Rightarrow> value \<Rightarrow> (table_data_set, set_result) state" where
  "td_commit_set o1 v = State (td_commit o1 v)"

definition td_set :: "oid \<Rightarrow> value \<Rightarrow> (table_data_set, set_result) state" where
  "td_set o1 v = do {
     r \<leftarrow> td_prepare_set o1 v;
     case r of Err e \<Rightarrow> State_Monad.return (Err e) | Ok _ \<Rightarrow> td_commit_set o1 v
   }"

definition td_mib :: "oid \<Rightarrow> table_data_set mib_handler" where
  "td_mib root =
     \<lparr>h_root = root, h_get = td_get, h_get_next = td_get_next, h_set = td_set,
      h_prepare_set = td_prepare_set, h_commit_set = td_commit_set,
      h_undo_set = default_undo_set\<rparr>"

lemma td_mib_simps [simp]:
  "h_root (td_mib root) = root" "h_get (td_mib root) = td_get" "h_get_next (td_mib root) = td_get_next"
  "h_prepare_set (td_mib root) = td_prepare_set" "h_commit_set (td_mib root) = td_commit_set"
  "h_undo_set (td_mib root) = default_undo_set"
  by (simp_all add: td_mib_def)

section \<open>The cells served\<close>

definition td_rows_wf :: "row_map \<Rightarrow> bool" where
  "td_rows_wf rows \<longleftrightarrow> btm_wf rows \<and> (\<forall>(index, cells)\<in>set rows. btm_wf cells)"

definition row_cell :: "row_map \<Rightarrow> u32 \<Rightarrow> u32 list \<Rightarrow> value option" where
  "row_cell rows col index = Option.bind (btm_get rows index) (\<lambda>cells. btm_get cells col)"

definition td_cells :: "table_data_set \<Rightarrow> oid \<Rightarrow> value option" where
  "td_cells s o1 = Option.bind (split_instance (td_root s) o1) (\<lambda>(col, index). row_cell (td_rows s) col index)"

definition td_ok :: "table_data_set \<Rightarrow> bool" where
  "td_ok s = td_rows_wf (td_rows s)"

lemma split_instance_iff:
  "split_instance root o1 = Some (col, index) \<longleftrightarrow> o1 = instance_oid root col index"
  "split_instance root o1 = None \<longleftrightarrow> (\<forall>col index. o1 \<noteq> instance_oid root col index)"
proof -
  have some: "split_instance root o1 = Some (col, index) \<longleftrightarrow> o1 = instance_oid root col index" for col index
  proof
    assume "split_instance root o1 = Some (col, index)"
    then have l: "length (as_slice root) < length (as_slice o1)"
        "take (length (as_slice root)) (as_slice o1) = as_slice root"
        "col = as_slice o1 ! length (as_slice root)" "index = drop (Suc (length (as_slice root))) (as_slice o1)"
      by (auto simp: split_instance_def Let_def split: if_splits)
    have "as_slice o1 = as_slice root @ col # index"
      using id_take_nth_drop [OF l(1)] l by simp
    then show "o1 = instance_oid root col index" by (cases o1) (simp add: instance_oid_eq)
  qed (simp add: split_instance_def instance_oid_eq nth_append)
  show "split_instance root o1 = Some (col, index) \<longleftrightarrow> o1 = instance_oid root col index" by (rule some)
  show "split_instance root o1 = None \<longleftrightarrow> (\<forall>col index. o1 \<noteq> instance_oid root col index)"
    using some by (metis not_None_eq surj_pair)
qed

lemma split_instance_oid [simp]: "split_instance root (instance_oid root col index) = Some (col, index)"
  by (simp add: split_instance_iff)

lemma td_cells_instance [simp]:
  "td_cells s (instance_oid (td_root s) col index) = row_cell (td_rows s) col index"
  by (simp add: td_cells_def)

lemma flatten_rows_get:
  assumes "td_rows_wf rows"
  shows "map_of (flatten_rows root rows) o1 =
    Option.bind (split_instance root o1) (\<lambda>(col, index). row_cell rows col index)"
proof -
  have d: "distinct (map fst rows)" and c: "\<And>i cells. (i, cells) \<in> set rows \<Longrightarrow> distinct (map fst cells)"
    using assms by (auto simp: td_rows_wf_def btm_wf_distinct)
  have "map_of (flatten_rows root rows) o1 = Some v \<longleftrightarrow>
      Option.bind (split_instance root o1) (\<lambda>(col, index). row_cell rows col index) = Some v" for v
  proof -
    have "map_of (flatten_rows root rows) o1 = Some v \<longleftrightarrow>
        (\<exists>index cells col. map_of rows index = Some cells \<and> map_of cells col = Some v \<and>
           o1 = instance_oid root col index)"
    proof -
      have "map_of (flatten_rows root rows) o1 = Some v \<longleftrightarrow>
          (\<exists>index cells col. (index, cells) \<in> set rows \<and> (col, v) \<in> set cells \<and>
             o1 = instance_oid root col index)"
        by (simp only: map_of_eq_Some_iff [OF distinct_flatten_rows [OF d c]] in_flatten_rows)
      also have "\<dots> \<longleftrightarrow> (\<exists>index cells col. map_of rows index = Some cells \<and>
          map_of cells col = Some v \<and> o1 = instance_oid root col index)"
        by (metis c d map_of_eq_Some_iff)
      finally show ?thesis .
    qed
    then show ?thesis
      by (auto simp: bind_eq_Some_conv split_instance_iff row_cell_def btm_get_def)
  qed
  then show ?thesis by (metis option.exhaust)
qed

lemma td_rows_wf_put: "td_rows_wf rows \<Longrightarrow> td_rows_wf (put_cell col index v rows)"
proof -
  assume wf: "td_rows_wf rows"
  have "btm_wf (case btm_get rows index of Some cells \<Rightarrow> cells | None \<Rightarrow> [])"
    using wf by (auto simp: td_rows_wf_def btm_get_def dest: map_of_SomeD split: option.splits)
  moreover have "set (btm_insert k w m) \<subseteq> insert (k, w) (set m)" for k :: "u32 list" and w :: row_cells and m
    by (induction k w m rule: btm_insert.induct) auto
  ultimately show ?thesis
    using wf by (fastforce simp: td_rows_wf_def put_cell_def btm_wf_insert)
qed

lemma td_rows_wf_remove: "td_rows_wf rows \<Longrightarrow> td_rows_wf (btm_remove index rows)"
  using btm_wf_remove [of rows index] by (auto simp: td_rows_wf_def btm_remove_def)

interpretation td: served_cells "td_mib root" td_ok td_cells for root
proof
  fix s o1 r s' assume "td_ok s" and "run_state (h_get (td_mib root) o1) s = (r, s')"
  then show "r = td_cells s o1 \<and> td_ok s' \<and> td_cells s' = td_cells s"
    by (auto simp: td_get_def td_cells_def row_cell_def split: option.splits)
next
  fix s o1 n s' assume ok: "td_ok s" and run: "run_state (h_get_next (td_mib root) o1) s = (n, s')"
  let ?cs = "flatten_rows (td_root s) (td_rows s)"
  have d: "distinct (map fst ?cs)"
    by (rule distinct_flatten_rows) (use ok in \<open>auto simp: td_ok_def td_rows_wf_def btm_wf_distinct\<close>)
  have "btm_get (sort_key fst ?cs) = td_cells s"
    using ok by (simp add: sort_cells_get [OF d] fun_eq_iff flatten_rows_get td_ok_def td_cells_def)
  then show "is_next (td_cells s) o1 n \<and> td_ok s' \<and> td_cells s' = td_cells s"
    using next_cell_is_next [OF sort_cells_wf [OF d], of o1] run ok by (auto simp: td_get_next_def)
next
  fix s assume "td_ok s"
  then have "td_cells s = map_of (flatten_rows (td_root s) (td_rows s))"
    by (simp add: fun_eq_iff flatten_rows_get td_ok_def td_cells_def)
  then show "finite (dom (td_cells s))" by (simp add: finite_dom_map_of)
qed

section \<open>The effect of a SET\<close>

lemma row_cell_put [simp]:
  "row_cell (put_cell col index v rows) c i =
     (if c = col \<and> i = index then Some v else row_cell rows c i)"
  by (auto simp: row_cell_def put_cell_def btm_get_insert split: option.splits)

lemma row_cell_remove [simp]:
  "row_cell (btm_remove index rows) c i = (if i = index then None else row_cell rows c i)"
  by (simp add: row_cell_def btm_get_remove)

lemma current_status_cell: "current_status rows index col = Option.bind (row_cell rows col index) row_from_value"
  by (simp add: current_status_def row_cell_def)

text \<open>What a SET of \<open>v\<close> at column \<open>col\<close> of row \<open>index\<close> stores there.\<close>

definition stored_value :: "table_data_set \<Rightarrow> u32 \<Rightarrow> u32 list \<Rightarrow> value \<Rightarrow> value option" where
  "stored_value s col index v =
     (if row_status_column s = Some col then
        (case row_from_value v of
           Some CreateAndGo \<Rightarrow> Some (Integer 1)
         | Some CreateAndWait \<Rightarrow>
             Some (Integer (if required_satisfied (td_rows s) index (required_columns s) (Some col) then 2 else 3))
         | Some Destroy \<Rightarrow> None
         | Some status \<Rightarrow> Some (Integer (row_as_i64 status))
         | None \<Rightarrow> None)
      else Some v)"

lemma transition_next:
  "transition cur req sat = Ok new \<Longrightarrow>
     new = (case req of CreateAndGo \<Rightarrow> Some Active
            | CreateAndWait \<Rightarrow> Some (if sat then NotInService else NotReady)
            | Destroy \<Rightarrow> None | status \<Rightarrow> Some status)"
  by (cases req) (auto split: option.splits if_splits)

lemma td_commit_root [simp]: "td_root (snd (td_commit o1 v s)) = td_root s"
  "row_status_column (snd (td_commit o1 v s)) = row_status_column s"
  "required_columns (snd (td_commit o1 v s)) = required_columns s"
  by (auto simp: td_commit_def td_put_def split: option.splits prod.splits)

lemma td_commit_ok: "td_ok s \<Longrightarrow> td_ok (snd (td_commit o1 v s))"
  by (auto simp: td_ok_def td_commit_def td_put_def apply_row_status_def td_rows_wf_put td_rows_wf_remove
      split: option.splits prod.splits result.splits if_splits)

lemma td_prepared_cells:
  assumes prep: "td_prepare (instance_oid (td_root s) col index) v s = Ok ()"
    and com: "td_commit (instance_oid (td_root s) col index) v s = (r, s')"
  shows "r = Ok () \<and> row_cell (td_rows s') c i =
    (if i = index \<and> (c = col \<or> stored_value s col index v = None) then stored_value s col index v
     else row_cell (td_rows s) c i)"
proof (cases "row_status_column s = Some col")
  case False
  then show ?thesis using com by (auto simp: td_commit_def td_put_def stored_value_def)
next
  case True
  let ?sat = "required_satisfied (td_rows s) index (required_columns s) (Some col)"
  obtain req new where req: "row_from_value v = Some req"
    and tr: "transition (current_status (td_rows s) index col) req ?sat = Ok new"
    using prep True by (auto simp: td_prepare_def split: option.splits if_splits result.splits)
  have r: "r = Ok ()" and s': "td_rows s' = (case new of None \<Rightarrow> btm_remove index (td_rows s)
      | Some st \<Rightarrow> put_cell col index (Integer (row_as_i64 st)) (td_rows s))"
    using com True req tr by (auto simp: td_commit_def apply_row_status_def split: option.splits)
  have "stored_value s col index v = map_option (\<lambda>st. Integer (row_as_i64 st)) new"
    using transition_next [OF tr] True req by (cases req) (simp_all add: stored_value_def)
  then show ?thesis using r s' by (cases new) auto
qed

section \<open>The invariant of the rows\<close>

text \<open>
  With a RowStatus column \<open>col\<close>, a stored status is one of the three states, and an active row
  has a cell in every required column.
\<close>

definition status_invariant :: "table_data_set \<Rightarrow> bool" where
  "status_invariant s \<longleftrightarrow>
     (\<forall>col index v. row_status_column s = Some col \<longrightarrow> row_cell (td_rows s) col index = Some v \<longrightarrow>
        v \<in> {Integer 1, Integer 2, Integer 3} \<and>
        (v = Integer 1 \<longrightarrow> (\<forall>c\<in>set (required_columns s). row_cell (td_rows s) c index \<noteq> None)))"

lemma required_satisfied_cells:
  "required_satisfied rows index required (Some col) \<Longrightarrow> c \<in> set required \<Longrightarrow> c \<noteq> col \<Longrightarrow>
     row_cell rows c index \<noteq> None"
  by (auto simp: required_satisfied_def row_cell_def btm_contains_get list_all_iff split: option.splits)

lemma transition_active: "transition cur req sat = Ok (Some Active) \<Longrightarrow> sat"
  by (cases req) (auto split: option.splits if_splits)

lemma status_invariant_commit:
  assumes inv: "status_invariant s" shows "status_invariant (snd (td_commit o1 v s))"
proof (cases "split_instance (td_root s) o1")
  case None
  then show ?thesis using inv by (simp add: td_commit_def)
next
  case (Some ci)
  obtain col index where ci: "split_instance (td_root s) o1 = Some (col, index)" using Some by (cases ci) auto
  show ?thesis
  proof (cases "row_status_column s = Some col")
    case False
    then show ?thesis using inv ci by (auto simp: status_invariant_def td_commit_def td_put_def)
  next
    case True
    let ?sat = "required_satisfied (td_rows s) index (required_columns s) (Some col)"
    let ?tr = "\<lambda>req. transition (current_status (td_rows s) index col) req ?sat"
    show ?thesis
    proof (cases "\<exists>req st. row_from_value v = Some req \<and> ?tr req = Ok (Some st)")
      case False
      then have "td_rows (snd (td_commit o1 v s)) \<in> {td_rows s, btm_remove index (td_rows s)}"
        using ci True by (auto simp: td_commit_def apply_row_status_def split: option.splits result.splits)
      then show ?thesis using inv by (fastforce simp: status_invariant_def split: if_splits)
    next
      case t: True
      then obtain req st where req: "row_from_value v = Some req" and tr: "?tr req = Ok (Some st)" by blast
      have st: "st \<in> {Active, NotInService, NotReady}"
        using transition_stored [OF tr] by (auto simp: stored_status_def)
      have sat: "st = Active \<Longrightarrow> ?sat" using transition_active tr by blast
      have "td_rows (snd (td_commit o1 v s)) = put_cell col index (Integer (row_as_i64 st)) (td_rows s)"
        using ci True req tr by (simp add: td_commit_def apply_row_status_def)
      then show ?thesis
        using inv st sat True required_satisfied_cells by (fastforce simp: status_invariant_def)
    qed
  qed
qed

section \<open>Properties\<close>

text \<open>The table of the module's tests: column 1 is the RowStatus, column 2 is required.\<close>

definition sample_table :: table_data_set where
  "sample_table = with_required_columns [2] (with_row_status_column 1 (td_new (Oid [1]) [1, 2, 3]))"

lemma sample_table_simps [simp]:
  "td_rows sample_table = []" "td_root sample_table = Oid [1]"
  "row_status_column sample_table = Some 1" "column_writable sample_table 1"
  "required_columns sample_table = [1, 2]" "td_ok sample_table"
  by (simp_all add: sample_table_def with_required_columns_def with_row_status_column_def td_new_def
      column_writable_def column_meta_new_def is_writable_def td_ok_def td_rows_wf_def Let_def
      to_ascii_lowercase_def lower_char_def)

text \<open>C8: A SET that \<open>prepare_set\<close> of a table accepts is committed without failure and has exactly
  this effect: a write to an ordinary column changes that cell only; createAndGo stores
  active, createAndWait stores notInService or notReady depending on whether every required
  column has a value, a state verb stores itself, and destroy removes the cells of that row
  and of no other.\<close>

theorem td_two_phase_set:
  assumes ok: "td_ok s" and prep: "run_state (h_prepare_set (td_mib root) o1 v) s = (Ok (), t)"
    and com: "run_state (h_commit_set (td_mib root) o1 v) t = (r, s')"
  shows "t = s \<and> r = Ok () \<and> td_ok s' \<and>
    (\<exists>col index. o1 = instance_oid (td_root s) col index \<and>
       (\<forall>c i. fst (run_state (h_get (td_mib root) (instance_oid (td_root s) c i)) s') =
          (if i = index \<and> (c = col \<or> stored_value s col index v = None)
           then stored_value s col index v
           else fst (run_state (h_get (td_mib root) (instance_oid (td_root s) c i)) s))))"
proof -
  have t: "t = s" and p: "td_prepare o1 v s = Ok ()" using prep by (auto simp: td_prepare_set_def)
  have c: "td_commit o1 v s = (r, s')" using com t by (simp add: td_commit_set_def)
  obtain col index where o1: "o1 = instance_oid (td_root s) col index"
    using p by (auto simp: td_prepare_def split_instance_iff split: option.splits)
  have root: "td_root s' = td_root s" "td_ok s'"
    using td_commit_root(1) [of o1 v s] td_commit_ok [OF ok, of o1 v] c by auto
  have "fst (run_state (td_get (instance_oid (td_root u) c i)) u) = row_cell (td_rows u) c i" for u c i
    by (simp add: td_get_def row_cell_def)
  note get = this
  have "r = Ok ()" using td_prepared_cells [of s col index v r s'] p c by (simp add: o1)
  moreover have "fst (run_state (h_get (td_mib root) (instance_oid (td_root s) c i)) s') =
      (if i = index \<and> (c = col \<or> stored_value s col index v = None) then stored_value s col index v
       else fst (run_state (h_get (td_mib root) (instance_oid (td_root s) c i)) s))" for c i
    using td_prepared_cells [of s col index v r s' c i] p c get [of s' c i] get [of s c i] root
    by (auto simp: o1)
  ultimately show ?thesis using root t o1 by blast
qed

theorem td_two_phase_set_witness:
  "fst (run_state (h_get (td_mib (Oid [1])) (Oid [1, 1, 5]))
     (snd (run_state (h_commit_set (td_mib (Oid [1])) (Oid [1, 1, 5]) (Integer 5)) sample_table)))
   = Some (Integer 3)"
proof -
  have o1: "Oid [1, 1, 5] = instance_oid (td_root sample_table) 1 [5]" by (simp add: instance_oid_eq)
  have p: "run_state (h_prepare_set (td_mib (Oid [1])) (Oid [1, 1, 5]) (Integer 5)) sample_table
      = (Ok (), sample_table)"
    unfolding o1 by (simp add: td_prepare_set_def td_prepare_def row_from_i64_def current_status_def)
  obtain r s' where c: "run_state (h_commit_set (td_mib (Oid [1])) (Oid [1, 1, 5]) (Integer 5)) sample_table
      = (r, s')" by fastforce
  obtain col index where "Oid [1, 1, 5] = instance_oid (td_root sample_table) col index"
    and g: "\<And>c i. fst (run_state (h_get (td_mib (Oid [1])) (instance_oid (td_root sample_table) c i)) s') =
          (if i = index \<and> (c = col \<or> stored_value sample_table col index (Integer 5) = None)
           then stored_value sample_table col index (Integer 5)
           else fst (run_state (h_get (td_mib (Oid [1])) (instance_oid (td_root sample_table) c i)) sample_table))"
    using td_two_phase_set [OF sample_table_simps(6) p c] by blast
  then have ci: "col = 1" "index = [5]" by (simp_all add: instance_oid_eq)
  have "stored_value sample_table 1 [5] (Integer 5) = Some (Integer 3)"
    by (simp add: stored_value_def row_from_i64_def required_satisfied_def)
  then show ?thesis using g [of 1 "[5]"] c by (simp add: ci o1 del: sample_table_simps(2))
qed

text \<open>C7: Whatever SETs a manager commits on an empty table, in whatever order and with whatever
  values, the RowStatus cells hold 1, 2 or 3 only, and every row whose status is active has a
  value in every required column.\<close>

theorem td_status_invariant:
  assumes "td_rows s = []" and "s' = fold (\<lambda>(o1, v) t. snd (td_commit o1 v t)) sets s"
    and "row_status_column s = Some col" and "row_cell (td_rows s') col index = Some v"
  shows "v \<in> {Integer 1, Integer 2, Integer 3} \<and>
    (v = Integer 1 \<longrightarrow> (\<forall>c\<in>set (required_columns s). row_cell (td_rows s') c index \<noteq> None))"
proof -
  have "status_invariant s" using assms(1) by (simp add: status_invariant_def row_cell_def)
  then have "status_invariant (fold (\<lambda>(o1, v) t. snd (td_commit o1 v t)) sets s)
      \<and> row_status_column (fold (\<lambda>(o1, v) t. snd (td_commit o1 v t)) sets s) = row_status_column s
      \<and> required_columns (fold (\<lambda>(o1, v) t. snd (td_commit o1 v t)) sets s) = required_columns s"
    by (induction sets arbitrary: s) (auto simp: status_invariant_commit)
  then show ?thesis using assms by (auto simp: status_invariant_def)
qed

theorem td_status_invariant_witness:
  "row_cell (td_rows (fold (\<lambda>(o1, v) t. snd (td_commit o1 v t))
       [(Oid [1, 2, 5], Integer 9), (Oid [1, 1, 5], Integer 4)] sample_table)) 1 [5] = Some (Integer 1) \<and>
   row_cell (td_rows (fold (\<lambda>(o1, v) t. snd (td_commit o1 v t))
       [(Oid [1, 2, 5], Integer 9), (Oid [1, 1, 5], Integer 4)] sample_table)) 2 [5] \<noteq> None"
proof -
  let ?s = "fold (\<lambda>(o1, v) t. snd (td_commit o1 v t))
       [(Oid [1, 2, 5], Integer 9), (Oid [1, 1, 5], Integer 4)] sample_table"
  have a: "row_cell (td_rows ?s) 1 [5] = Some (Integer 1)"
    by (simp add: td_commit_def td_put_def split_instance_def apply_row_status_def current_status_cell
        row_from_i64_def required_satisfied_def put_cell_def btm_contains_get row_cell_def)
  show ?thesis
    using td_status_invariant [OF sample_table_simps(1) refl sample_table_simps(3) a] a by simp
qed

text \<open>A createAndGo for an index that has no row yet is refused with \<open>inconsistentName\<close>
  whatever columns are required, none included: the row must have been staged by an earlier
  SET, a cell written by the same SET does not count.\<close>

lemma create_and_go_needs_staged_row:
  assumes "row_status_column s = Some col" and "column_writable s col"
    and "btm_get (td_rows s) index = None"
  shows "td_prepare (instance_oid (td_root s) col index) (Integer 4) s = Err InconsistentName"
  using assms
  by (simp add: td_prepare_def current_status_def required_satisfied_def row_from_i64_def)

end
