(* ===== verification/Rust_Text.thy ===== *)
theory Rust_Text
  imports Rust_Strings
begin

text \<open>
  More of the Rust standard library on text: \<^verbatim>\<open>str::chars\<close>, \<^verbatim>\<open>str::lines\<close>, the affix functions,
  \<^verbatim>\<open>split_once\<close>, \<^verbatim>\<open>join\<close>, \<^verbatim>\<open>char::is_whitespace\<close>, \<^verbatim>\<open>char::is_control\<close>, and \<^verbatim>\<open>std::path\<close> as the
  sequence of the components of a path, which is what its equality and order compare.
\<close>

section \<open>The scalar values of a string\<close>

function chars :: "string \<Rightarrow> string list" where
  "chars s =
     (if s = [] then []
      else take (snd (utf8_scan (as_bytes s))) s # chars (drop (snd (utf8_scan (as_bytes s))) s))"
  by pat_completeness auto
termination
  by (relation "measure length") (simp_all add: utf8_scan_pos)

declare chars.simps [simp del]

lemma chars_Nil [simp]: "chars [] = []"
  by (simp add: chars.simps)

lemma concat_chars [simp]: "concat (chars s) = s"
proof (induction s rule: chars.induct)
  case (1 s)
  then show ?case by (cases "s = []") (simp_all add: chars.simps [of s])
qed

lemma chars_nonempty: "c \<in> set (chars s) \<Longrightarrow> c \<noteq> []"
proof (induction s rule: chars.induct)
  case (1 s)
  then show ?case using utf8_scan_pos [of "as_bytes s"]
    by (cases "s = []") (auto simp: chars.simps [of s])
qed

lemma chars_eq_Nil [simp]: "chars s = [] \<longleftrightarrow> s = []"
  by (subst chars.simps) simp

definition is_ascii :: "char \<Rightarrow> bool" where
  "is_ascii c \<longleftrightarrow> (of_char c :: nat) < 128"

lemma unat_byte_of_char [simp]: "unat (byte_of_char c) = of_char c"
  by (simp add: byte_of_char_def unat_of_nat take_bit_eq_mod)

lemma chars_ascii [simp]: "is_ascii c \<Longrightarrow> chars (c # s) = [c] # chars s"
  by (simp add: chars.simps [of "c # s"] utf8_scan_def as_bytes_def is_ascii_def)

lemma utf8_scan_cases:
  assumes "fst (utf8_scan bs)"
  obtains (one) "unat (bs ! 0) < 0x80" "snd (utf8_scan bs) = 1"
    | (two) "\<not> unat (bs ! 0) < 0x80" "0xC2 \<le> unat (bs ! 0) \<and> unat (bs ! 0) \<le> 0xDF" "utf8_cont bs 1"
        "snd (utf8_scan bs) = 2"
    | (three) "\<not> unat (bs ! 0) < 0x80" "\<not> (0xC2 \<le> unat (bs ! 0) \<and> unat (bs ! 0) \<le> 0xDF)"
        "0xE0 \<le> unat (bs ! 0) \<and> unat (bs ! 0) \<le> 0xEF"
        "1 < length bs" "utf8_second (unat (bs ! 0)) (unat (bs ! 1))" "utf8_cont bs 2"
        "snd (utf8_scan bs) = 3"
    | (four) "\<not> unat (bs ! 0) < 0x80" "\<not> (0xC2 \<le> unat (bs ! 0) \<and> unat (bs ! 0) \<le> 0xDF)"
        "\<not> (0xE0 \<le> unat (bs ! 0) \<and> unat (bs ! 0) \<le> 0xEF)"
        "0xF0 \<le> unat (bs ! 0) \<and> unat (bs ! 0) \<le> 0xF4"
        "1 < length bs" "utf8_second (unat (bs ! 0)) (unat (bs ! 1))" "utf8_cont bs 2" "utf8_cont bs 3"
        "snd (utf8_scan bs) = 4"
proof -
  have "\<not> utf8_second b 0" for b by (simp add: utf8_second_def)
  then show thesis
    using assms that unfolding utf8_scan_def Let_def by (auto split: if_splits)
qed

lemma utf8_scan_local:
  assumes "fst (utf8_scan bs)" and "bs \<noteq> []"
    and "\<And>i. i < snd (utf8_scan bs) \<Longrightarrow> i < length bs \<Longrightarrow> i < length cs \<and> cs ! i = bs ! i"
  shows "utf8_scan cs = utf8_scan bs \<and> snd (utf8_scan bs) \<le> length bs"
  using assms(1)
proof (cases rule: utf8_scan_cases)
  case one
  then show ?thesis using assms(2) assms(3) [of 0]
    by (simp add: utf8_scan_def [of cs] utf8_scan_def [of bs] Let_def Suc_le_eq)
next
  case two
  then show ?thesis using assms(2) assms(3) [of 0] assms(3) [of 1]
    by (simp add: utf8_scan_def [of cs] utf8_scan_def [of bs] Let_def utf8_cont_def)
next
  case three
  then show ?thesis using assms(2) assms(3) [of 0] assms(3) [of 1] assms(3) [of 2]
    by (simp add: utf8_scan_def [of cs] utf8_scan_def [of bs] Let_def utf8_cont_def)
next
  case four
  then show ?thesis using assms(2) assms(3) [of 0] assms(3) [of 1] assms(3) [of 2] assms(3) [of 3]
    by (simp add: utf8_scan_def [of cs] utf8_scan_def [of bs] Let_def utf8_cont_def)
qed

lemma utf8_scan_append:
  assumes "fst (utf8_scan bs)" and "bs \<noteq> []"
  shows "utf8_scan (bs @ cs) = utf8_scan bs \<and> snd (utf8_scan bs) \<le> length bs"
  using assms by (intro utf8_scan_local) (auto simp: nth_append)

lemma utf8_scan_take:
  assumes "fst (utf8_scan bs)" and "bs \<noteq> []"
  shows "utf8_scan (take (snd (utf8_scan bs)) bs) = utf8_scan bs"
  using utf8_scan_local [OF assms, of "take (snd (utf8_scan bs)) bs"] by simp

lemma as_bytes_drop: "as_bytes (drop n s) = drop n (as_bytes s)"
  by (simp add: as_bytes_def drop_map)

lemma valid_string_step:
  assumes "valid_string s" and "s \<noteq> []"
  shows "fst (utf8_scan (as_bytes s)) \<and> valid_string (drop (snd (utf8_scan (as_bytes s))) s)"
proof -
  have "as_bytes s \<noteq> []" using assms(2) by (simp add: as_bytes_def)
  with assms(1) show ?thesis
    unfolding valid_string_def as_bytes_drop by (subst (asm) valid_utf8.simps) simp
qed

lemma chars_append: "valid_string s \<Longrightarrow> chars (s @ t) = chars s @ chars t"
proof (induction s rule: chars.induct)
  case (1 s)
  show ?case
  proof (cases "s = []")
    case False
    let ?n = "snd (utf8_scan (as_bytes s))"
    have ne: "as_bytes s \<noteq> []" using False by (simp add: as_bytes_def)
    have ok: "fst (utf8_scan (as_bytes s))" "valid_string (drop ?n s)"
      using "1.prems" False valid_string_step by blast+
    have scan: "utf8_scan (as_bytes (s @ t)) = utf8_scan (as_bytes s)" "?n \<le> length s"
      using utf8_scan_append [OF ok(1) ne, of "as_bytes t"] by (auto simp: as_bytes_def)
    have "chars (drop ?n s @ t) = chars (drop ?n s) @ chars t"
      using "1.IH" False ok(2) by simp
    then show ?thesis
      using False scan by (simp add: chars.simps [of s] chars.simps [of "s @ t"])
  qed simp
qed

lemma valid_string_Nil [simp]: "valid_string []"
  by (simp add: valid_string_def as_bytes_def valid_utf8.simps)

lemma valid_string_ascii [simp]: "is_ascii c \<Longrightarrow> valid_string (c # s) \<longleftrightarrow> valid_string s"
  by (simp add: valid_string_def as_bytes_def valid_utf8.simps [of "byte_of_char c # bs" for bs]
      utf8_scan_def is_ascii_def)

lemma valid_string_append: "valid_string s \<Longrightarrow> valid_string t \<Longrightarrow> valid_string (s @ t)"
proof (induction s rule: chars.induct)
  case (1 s)
  show ?case
  proof (cases "s = []")
    case True
    then show ?thesis using "1.prems" by simp
  next
    case False
    let ?n = "snd (utf8_scan (as_bytes s))"
    have ne: "as_bytes s \<noteq> []" using False by (simp add: as_bytes_def)
    have ok: "fst (utf8_scan (as_bytes s))" "valid_string (drop ?n s)"
      using "1.prems" False valid_string_step by blast+
    have scan: "utf8_scan (as_bytes s @ as_bytes t) = utf8_scan (as_bytes s)" "?n \<le> length s"
      using utf8_scan_append [OF ok(1) ne, of "as_bytes t"] by auto
    have "valid_string (drop ?n s @ t)" using "1.IH" False ok(2) "1.prems" by simp
    moreover have "as_bytes (s @ t) = as_bytes s @ as_bytes t" by (simp add: as_bytes_def)
    ultimately show ?thesis
      using False ok(1) scan ne
      by (simp add: valid_string_def valid_utf8.simps [of "as_bytes s @ as_bytes t"] as_bytes_drop)
         (simp add: as_bytes_def drop_map)
  qed
qed

lemma valid_string_all_ascii: "list_all is_ascii s \<Longrightarrow> valid_string s"
  by (induction s) auto

section \<open>Properties of one scalar value\<close>

definition is_whitespace :: "string \<Rightarrow> bool" where
  "is_whitespace c \<longleftrightarrow> c \<in> set white_space"

text \<open>A string that is one scalar value.\<close>

definition is_scalar :: "string \<Rightarrow> bool" where
  "is_scalar c \<longleftrightarrow> valid_string c \<and> chars c = [c]"

lemma is_scalar_ascii [simp]: "is_ascii c \<Longrightarrow> is_scalar [c]"
  by (simp add: is_scalar_def)

lemma chars_scalar: "is_scalar c \<Longrightarrow> chars (c @ s) = c # chars s"
  by (simp add: is_scalar_def chars_append)

lemma chars_scalars: "list_all is_scalar cs \<Longrightarrow> chars (concat cs @ s) = cs @ chars s"
  by (induction cs) (auto simp: chars_scalar)

lemma valid_scalars: "list_all is_scalar cs \<Longrightarrow> valid_string (concat cs)"
  by (induction cs) (auto simp: is_scalar_def intro: valid_string_append)

lemma valid_string_scalars: "valid_string s \<Longrightarrow> list_all is_scalar (chars s)"
proof (induction s rule: chars.induct)
  case (1 s)
  show ?case
  proof (cases "s = []")
    case False
    let ?n = "snd (utf8_scan (as_bytes s))"
    have step: "fst (utf8_scan (as_bytes s))" "valid_string (drop ?n s)"
      using valid_string_step [OF "1.prems" False] by auto
    have bs: "as_bytes s \<noteq> []" using False by (simp add: as_bytes_def)
    have take: "utf8_scan (take ?n (as_bytes s)) = utf8_scan (as_bytes s)" "?n \<le> length s"
      using utf8_scan_take [OF step(1) bs] utf8_scan_append [OF step(1) bs] by auto
    have ne: "take ?n s \<noteq> []" using utf8_scan_pos [of "as_bytes s"] False by (cases s) auto
    have tb: "as_bytes (take ?n s) = take ?n (as_bytes s)" by (simp add: as_bytes_def take_map)
    have "chars (take ?n s) = [take ?n s]"
      using ne take by (simp add: chars.simps [of "take ?n s"] tb)
    moreover have "valid_string (take ?n s)"
      using ne take bs step(1)
      by (simp add: valid_string_def tb valid_utf8.simps [of "take ?n (as_bytes s)"] valid_utf8.simps [of "[]"])
    ultimately show ?thesis
      using "1.IH" False step(2) by (simp add: chars.simps [of s] is_scalar_def)
  qed simp
qed

lemma is_scalar_bytes:
  assumes "c \<noteq> []" and "utf8_scan (as_bytes c) = (True, length c)"
  shows "is_scalar c"
proof -
  have "as_bytes c \<noteq> []" using assms(1) by (simp add: as_bytes_def)
  then have "valid_string c"
    using assms(2) unfolding valid_string_def
    by (subst valid_utf8.simps) (simp add: valid_utf8.simps [of "[]"])
  then show ?thesis using assms by (simp add: is_scalar_def chars.simps [of c])
qed

lemma is_scalar_two: "of_char a = (0xC2 :: nat) \<Longrightarrow> of_char b div 64 = (2 :: nat) \<Longrightarrow> is_scalar [a, b]"
  by (rule is_scalar_bytes) (simp_all add: as_bytes_def utf8_scan_def utf8_cont_def)

lemma is_scalar_three:
  "of_char a = (0xE1 :: nat) \<or> of_char a = (0xE2 :: nat) \<or> of_char a = (0xE3 :: nat) \<Longrightarrow>
   of_char b div 64 = (2 :: nat) \<Longrightarrow> of_char c div 64 = (2 :: nat) \<Longrightarrow> is_scalar [a, b, c]"
  by (rule is_scalar_bytes)
    (auto simp: as_bytes_def utf8_scan_def utf8_cont_def utf8_second_def Let_def)

lemma white_space_scalar: "w \<in> set white_space \<Longrightarrow> is_scalar w"
  unfolding white_space_def
  by (simp add: upt_rec) (elim disjE; simp add: is_ascii_def is_scalar_two is_scalar_three)

lemma is_whitespace_ascii: "is_ascii c \<Longrightarrow> is_whitespace [c] \<longleftrightarrow> of_char c \<in> {9, 10, 11, 12, 13, 32 :: nat}"
  by (auto simp: is_whitespace_def white_space_def) (metis char_of_char)+

lemma white_prefix_chars:
  "white_prefix s = (case chars s of [] \<Rightarrow> None | c # cs \<Rightarrow> if is_whitespace c then Some c else None)"
proof -
  have hd: "s \<noteq> [] \<and> hd (chars s) = w" if w: "w \<in> set white_space" "starts_with s w" for w
  proof -
    have "s = w @ drop (length w) s" using w(2) by (metis append_take_drop_id starts_with_def)
    then have "chars s = w # chars (drop (length w) s)"
      using chars_scalar [OF white_space_scalar [OF w(1)]] by metis
    then show ?thesis by auto
  qed
  show ?thesis
  proof (cases "white_prefix s")
    case None
    have "\<not> is_whitespace c" if "chars s = c # cs" for c cs
    proof
      assume "is_whitespace c"
      moreover have "s = c @ concat cs" using that by (metis concat.simps(2) concat_chars)
      ultimately have "starts_with s c" "c \<in> set white_space"
        by (auto simp: starts_with_def is_whitespace_def)
      with None show False by (auto simp: white_prefix_def find_None_iff)
    qed
    with None show ?thesis by (auto split: list.splits)
  next
    case (Some w)
    then have "w \<in> set white_space" "starts_with s w"
      by (auto simp: white_prefix_def find_Some_iff)
    with hd Some show ?thesis by (auto simp: is_whitespace_def split: list.splits)
  qed
qed

lemma trim_start_nonwhite: "s = [] \<or> \<not> is_whitespace (hd (chars s)) \<Longrightarrow> trim_start s = s"
  by (auto simp: trim_start.simps [of s] white_prefix_chars split: list.splits)

lemma trim_start_white: "is_whitespace c \<Longrightarrow> trim_start (c @ s) = trim_start s"
  using white_space_scalar [of c]
  by (simp add: trim_start.simps [of "c @ s"] white_prefix_chars chars_scalar is_whitespace_def)

lemma trim_start_space [simp]: "trim_start (CHR '' '' # s) = trim_start s"
  using trim_start_white [of "'' ''" s] by (simp add: is_whitespace_ascii is_ascii_def)

text \<open>The general category Cc: U+0000 to U+001F and U+007F to U+009F.\<close>

definition is_control :: "string \<Rightarrow> bool" where
  "is_control c =
     (case map of_char c of
        [n] \<Rightarrow> n < 0x20 \<or> n = (0x7F :: nat)
      | [m, n] \<Rightarrow> m = 0xC2 \<and> 0x80 \<le> n \<and> n \<le> 0x9F
      | _ \<Rightarrow> False)"

section \<open>Affixes, splitting, joining\<close>

definition strip_prefix :: "string \<Rightarrow> string \<Rightarrow> string option" where
  "strip_prefix p s = (if starts_with s p then Some (drop (length p) s) else None)"

definition ends_with :: "string \<Rightarrow> string \<Rightarrow> bool" where
  "ends_with s p = starts_with (rev s) (rev p)"

definition strip_suffix :: "string \<Rightarrow> string \<Rightarrow> string option" where
  "strip_suffix p s = (if ends_with s p then Some (take (length s - length p) s) else None)"

fun split_once :: "char \<Rightarrow> string \<Rightarrow> (string \<times> string) option" where
  "split_once c [] = None"
| "split_once c (x # xs) =
     (if x = c then Some ([], xs)
      else map_option (\<lambda>(a, b). (x # a, b)) (split_once c xs))"

fun join_with :: "string \<Rightarrow> string list \<Rightarrow> string" where
  "join_with sep [] = []"
| "join_with sep [s] = s"
| "join_with sep (s # t # ts) = s @ sep @ join_with sep (t # ts)"

fun split_inclusive :: "char \<Rightarrow> string \<Rightarrow> string list" where
  "split_inclusive c [] = []"
| "split_inclusive c (x # xs) =
     (if x = c then [x] # split_inclusive c xs
      else (case split_inclusive c xs of [] \<Rightarrow> [[x]] | y # ys \<Rightarrow> (x # y) # ys))"

abbreviation newline :: char where
  "newline \<equiv> CHR 0x0A"

definition line_body :: "string \<Rightarrow> string" where
  "line_body line =
     (case strip_suffix [newline] line of
        None \<Rightarrow> line
      | Some l \<Rightarrow> (case strip_suffix [CHR 0x0D] l of None \<Rightarrow> l | Some l' \<Rightarrow> l'))"

definition lines :: "string \<Rightarrow> string list" where
  "lines s = map line_body (split_inclusive newline s)"

lemma split_once_free: "c \<notin> set s \<Longrightarrow> split_once c s = None"
  by (induction s) auto

lemma split_once_append: "c \<notin> set s \<Longrightarrow> split_once c (s @ c # t) = Some (s, t)"
  by (induction s) auto

lemma split_inclusive_append:
  "c \<notin> set s \<Longrightarrow> split_inclusive c (s @ c # t) = (s @ [c]) # split_inclusive c t"
  by (induction s) auto

lemma split_inclusive_free: "c \<notin> set s \<Longrightarrow> s \<noteq> [] \<Longrightarrow> split_inclusive c s = [s]"
proof (induction s)
  case (Cons x xs)
  then show ?case by (cases "xs = []") auto
qed simp

lemma strip_suffix_snoc [simp]: "strip_suffix [c] (s @ [c]) = Some s"
  by (simp add: strip_suffix_def ends_with_def starts_with_def)

lemma strip_suffix_other: "s = [] \<or> last s \<noteq> c \<Longrightarrow> strip_suffix [c] s = None"
  by (cases s rule: rev_cases) (auto simp: strip_suffix_def ends_with_def starts_with_def)

text \<open>A text of terminated lines without carriage returns at their ends.\<close>

lemma lines_append:
  assumes "newline \<notin> set l" and "l = [] \<or> last l \<noteq> CHR 0x0D"
  shows "lines (l @ newline # t) = l # lines t"
  using assms by (auto simp: lines_def split_inclusive_append line_body_def strip_suffix_other)

lemma lines_Nil [simp]: "lines [] = []"
  by (simp add: lines_def)

lemma lines_single:
  assumes "newline \<notin> set l" and "l \<noteq> []"
  shows "lines l = [l]"
proof -
  have "last l \<noteq> newline" using assms by (metis last_in_set)
  then show ?thesis
    using assms by (simp add: lines_def split_inclusive_free line_body_def strip_suffix_other)
qed

definition upper_char :: "char \<Rightarrow> char" where
  "upper_char c = (let n = of_char c :: nat in if 97 \<le> n \<and> n \<le> 122 then char_of (n - 32) else c)"

definition to_ascii_uppercase :: "string \<Rightarrow> string" where
  "to_ascii_uppercase s = map upper_char s"

fun split_any :: "char list \<Rightarrow> string \<Rightarrow> string list" where
  "split_any cs [] = [[]]"
| "split_any cs (x # xs) =
     (if x \<in> set cs then [] # split_any cs xs
      else (case split_any cs xs of [] \<Rightarrow> [[x]] | y # ys \<Rightarrow> (x # y) # ys))"

fun contains_str :: "string \<Rightarrow> string \<Rightarrow> bool" where
  "contains_str [] pat \<longleftrightarrow> pat = []"
| "contains_str (c # s) pat \<longleftrightarrow> starts_with (c # s) pat \<or> contains_str s pat"

section \<open>Paths\<close>

text \<open>
  A path is absolute or relative, followed by its components: separators are collapsed and
  \<open>.\<close> components dropped, except a leading one of a relative path.
\<close>

record path =
  p_absolute :: bool
  p_components :: "string list"

definition path_of_str :: "string \<Rightarrow> path" where
  "path_of_str s =
     (let cs = filter (\<lambda>c. c \<noteq> []) (split_on CHR ''/'' s)
      in if starts_with s ''/''
         then \<lparr>p_absolute = True, p_components = filter (\<lambda>c. c \<noteq> ''.'') cs\<rparr>
         else \<lparr>p_absolute = False,
               p_components = (case cs of [] \<Rightarrow> [] | c # cs' \<Rightarrow> c # filter (\<lambda>c. c \<noteq> ''.'') cs')\<rparr>)"

definition path_join :: "path \<Rightarrow> path \<Rightarrow> path" where
  "path_join base p =
     (if p_absolute p then p
      else if \<not> p_absolute base \<and> p_components base = [] then p
      else base\<lparr>p_components := p_components base @
             (case p_components p of [] \<Rightarrow> [] | c # cs \<Rightarrow> if c = ''.'' then cs else c # cs)\<rparr>)"

definition path_parent :: "path \<Rightarrow> path option" where
  "path_parent p =
     (if p_components p = [] then None else Some (p\<lparr>p_components := butlast (p_components p)\<rparr>))"

end
