(* ===== verification/Snmp_Config.thy ===== *)
theory Snmp_Config
  imports Rust_Text
begin

text \<open>
  Configuration files (\<^verbatim>\<open>crates/netsnmp/src/config/\<close>): the words of a line with their quotes and
  escapes (\<^verbatim>\<open>word.rs\<close>), the classification of lines, sections and nested includes
  (\<^verbatim>\<open>parse.rs\<close>), and the search path (\<^verbatim>\<open>search.rs\<close>).  The file system and the environment are
  records of what the code reads from them.
\<close>

section \<open>Words\<close>

abbreviation backslash :: string where
  "backslash \<equiv> [CHR 0x5C]"

abbreviation dquote :: string where
  "dquote \<equiv> [CHR 0x22]"

abbreviation squote :: string where
  "squote \<equiv> [CHR 0x27]"

text \<open>The two loops of \<^verbatim>\<open>read_word\<close> over the characters: the word so far and what is left.\<close>

fun quoted_loop :: "string \<Rightarrow> string list \<Rightarrow> bool \<Rightarrow> string \<Rightarrow> string \<times> string list" where
  "quoted_loop q [] escaped word = (word, [])"
| "quoted_loop q (c # cs) escaped word =
     (if escaped then quoted_loop q cs False (word @ c)
      else if c = backslash then quoted_loop q cs True word
      else if c = q then (word, cs)
      else quoted_loop q cs False (word @ c))"

fun bare_loop :: "string list \<Rightarrow> bool \<Rightarrow> string \<Rightarrow> string \<times> string list" where
  "bare_loop [] escaped word = (word, [])"
| "bare_loop (c # cs) escaped word =
     (if escaped then bare_loop cs False (word @ c)
      else if c = backslash then bare_loop cs True word
      else if is_whitespace c then (word, c # cs)
      else bare_loop cs False (word @ c))"

definition read_word :: "string \<Rightarrow> (string \<times> string) option" where
  "read_word input =
     (case chars (trim_start input) of
        [] \<Rightarrow> None
      | first # cs \<Rightarrow>
          (let (word, rest) =
             (if first = dquote \<or> first = squote then quoted_loop first cs False []
              else bare_loop (first # cs) False [])
           in Some (word, trim_start (concat rest))))"

lemma quoted_loop_shorter: "length (concat (snd (quoted_loop q cs e w))) \<le> length (concat cs)"
  by (induction cs arbitrary: e w) (auto intro: trans_le_add2 le_SucI)

lemma bare_loop_shorter: "length (concat (snd (bare_loop cs e w))) \<le> length (concat cs)"
  by (induction cs arbitrary: e w) (auto intro: trans_le_add2 le_SucI)

lemma white_prefix_trim_start [simp]: "white_prefix (trim_start s) = None"
proof (induction s rule: trim_start.induct)
  case (1 s)
  then show ?case by (cases "white_prefix s") (simp_all add: trim_start.simps [of s])
qed

lemma length_trim_start: "length (trim_start s) \<le> length s"
proof (induction s rule: trim_start.induct)
  case (1 s)
  then show ?case by (cases "white_prefix s") (fastforce simp: trim_start.simps [of s])+
qed

lemma first_char_not_white:
  assumes "chars (trim_start s) = c # cs"
  shows "\<not> is_whitespace c"
proof
  assume "is_whitespace c"
  moreover have "trim_start s = c @ concat cs" using assms by (metis concat.simps(2) concat_chars)
  ultimately have "\<exists>w\<in>set white_space. starts_with (trim_start s) w"
    by (auto simp: is_whitespace_def starts_with_def intro!: bexI [of _ c])
  then have "white_prefix (trim_start s) \<noteq> None" by (auto simp: white_prefix_def find_None_iff)
  then show False by simp
qed

lemma read_word_shorter:
  assumes "read_word input = Some (w, r)"
  shows "length r < length input"
proof -
  obtain c cs where s: "chars (trim_start input) = c # cs"
    using assms by (auto simp: read_word_def split: list.splits)
  let ?l = "if c = dquote \<or> c = squote then quoted_loop c cs False [] else bare_loop (c # cs) False []"
  have r: "r = trim_start (concat (snd ?l))"
    using assms s by (auto simp: read_word_def Let_def split: prod.splits if_splits)
  have "length (concat (snd ?l)) \<le> length (concat cs)"
    using quoted_loop_shorter [of c cs False "[]"] bare_loop_shorter [of cs] first_char_not_white [OF s]
    by auto
  moreover have "c \<noteq> []" using chars_nonempty [of c "trim_start input"] s by simp
  moreover have "length (trim_start input) = length c + length (concat cs)"
    using s by (metis concat.simps(2) concat_chars length_append)
  ultimately have "length (concat (snd ?l)) < length (trim_start input)"
    by (cases c) auto
  then show ?thesis
    using length_trim_start [of input] length_trim_start [of "concat (snd ?l)"]
    unfolding r by (rule order.strict_trans2 [OF order.strict_trans1, rotated])
qed

function parse_words :: "string \<Rightarrow> string list" where
  "parse_words input =
     (case read_word input of None \<Rightarrow> [] | Some (word, rest) \<Rightarrow> word # parse_words rest)"
  by pat_completeness auto
termination
  by (relation "measure length") (auto simp: read_word_shorter)

declare parse_words.simps [simp del]

section \<open>Directives and lines\<close>

record directive =
  d_token :: string
  d_args :: "string list"
  d_rest :: string
  d_section :: "string option"
  d_source :: "path option"
  d_line_no :: nat

definition d_is :: "directive \<Rightarrow> string \<Rightarrow> bool" where
  "d_is d name = eq_ignore_ascii_case (d_token d) name"

definition d_arg :: "directive \<Rightarrow> nat \<Rightarrow> string option" where
  "d_arg d i = (if i < length (d_args d) then Some (d_args d ! i) else None)"

datatype include_kind = IncludeFile | IncludeDir | IncludeSearch

datatype classified =
    ClSection string
  | ClInclude include_kind string
  | ClEntry "string option" string "string list" string

definition first_word :: "string \<Rightarrow> string" where
  "first_word rest = (case read_word rest of None \<Rightarrow> [] | Some (w, r) \<Rightarrow> w)"

text \<open>What follows the section header, if any.\<close>

definition classify_token :: "string option \<Rightarrow> string \<Rightarrow> string \<Rightarrow> classified option" where
  "classify_token section_override token rest =
     (let lower = to_ascii_lowercase token
      in if lower = ''includefile'' then Some (ClInclude IncludeFile (first_word rest))
         else if lower = ''includedir'' then Some (ClInclude IncludeDir (first_word rest))
         else if lower = ''includesearch'' then Some (ClInclude IncludeSearch (first_word rest))
         else if lower = ''include'' then None
         else Some (ClEntry section_override token (parse_words rest) rest))"

definition classify_line :: "string \<Rightarrow> classified option" where
  "classify_line raw =
     (let trimmed = trim_start raw
      in if trimmed = [] \<or> starts_with trimmed ''#'' then None
         else case read_word raw of
           None \<Rightarrow> None
         | Some (token, rest) \<Rightarrow>
             if starts_with token ''['' then
               if \<not> ends_with token '']'' \<or> length token < 2 then None
               else (let name = drop 1 (take (length token - 1) token)
                     in if rest = [] then Some (ClSection name)
                        else case read_word rest of
                          None \<Rightarrow> None
                        | Some (t2, r2) \<Rightarrow> classify_token (Some name) t2 r2)
             else classify_token None token rest)"

definition entry_section :: "string option \<Rightarrow> string option \<Rightarrow> string option" where
  "entry_section ov section = (case ov of Some n \<Rightarrow> Some n | None \<Rightarrow> section)"

text \<open>
  The loop over the lines: \<open>inc\<close> is what an include directive contributes, nothing for
  \<^verbatim>\<open>parse_str\<close> and \<^verbatim>\<open>resolve_include\<close> for a file.
\<close>

fun parse_lines ::
  "(include_kind \<Rightarrow> string \<Rightarrow> directive list) \<Rightarrow> path option \<Rightarrow> string option \<Rightarrow> nat \<Rightarrow> string list
     \<Rightarrow> directive list" where
  "parse_lines inc src section idx [] = []"
| "parse_lines inc src section idx (raw # raws) =
     (case classify_line raw of
        None \<Rightarrow> parse_lines inc src section (idx + 1) raws
      | Some (ClSection name) \<Rightarrow> parse_lines inc src (Some name) (idx + 1) raws
      | Some (ClInclude kind arg) \<Rightarrow> inc kind arg @ parse_lines inc src section (idx + 1) raws
      | Some (ClEntry ov token args rest) \<Rightarrow>
          \<lparr>d_token = token, d_args = args, d_rest = rest, d_section = entry_section ov section,
           d_source = src, d_line_no = idx + 1\<rparr>
          # parse_lines inc src section (idx + 1) raws)"

definition parse_str :: "string \<Rightarrow> directive list" where
  "parse_str content = parse_lines (\<lambda>kind arg. []) None None 0 (lines content)"

section \<open>The search path\<close>

text \<open>The environment variables the code reads; \<^const>\<open>None\<close> when unset or not Unicode.\<close>

record environment =
  env_snmpconfpath :: "string option"
  env_home :: "string option"
  env_persistent_dir :: "string option"

definition DEFAULT_CONF_DIRS :: "string list" where
  "DEFAULT_CONF_DIRS = [''/etc/snmp'', ''/usr/share/snmp'', ''/usr/lib/snmp'']"

definition DEFAULT_PERSISTENT_DIR :: string where
  "DEFAULT_PERSISTENT_DIR = ''/var/lib/snmp''"

definition config_directories :: "environment \<Rightarrow> path list" where
  "config_directories env =
     (let dirs =
        (case env_snmpconfpath env of
           Some p \<Rightarrow> map path_of_str (filter (\<lambda>s. s \<noteq> []) (split_on CHR '':'' p))
         | None \<Rightarrow>
             map path_of_str DEFAULT_CONF_DIRS @
             (case env_home env of
                Some home \<Rightarrow>
                  if home \<noteq> [] then [path_join (path_of_str home) (path_of_str ''.snmp'')] else []
              | None \<Rightarrow> []));
        persistent = path_of_str
          (case env_persistent_dir env of Some p \<Rightarrow> p | None \<Rightarrow> DEFAULT_PERSISTENT_DIR)
      in if persistent \<in> set dirs then dirs else dirs @ [persistent])"

definition config_files_in :: "path list \<Rightarrow> string \<Rightarrow> path list" where
  "config_files_in dirs app_type =
     concat (map (\<lambda>dir. [path_join dir (path_of_str (app_type @ ''.conf'')),
                         path_join dir (path_of_str (app_type @ ''.local.conf''))]) dirs)"

definition config_files :: "environment \<Rightarrow> string \<Rightarrow> path list" where
  "config_files env app_type = config_files_in (config_directories env) app_type"

section \<open>Files\<close>

text \<open>
  \<open>fs_read\<close> is \<^verbatim>\<open>fs::read_to_string\<close> (\<^const>\<open>None\<close> for an error), \<open>fs_read_dir\<close> lists the file
  names of a directory in the order the system returns them, \<open>fs_is_file\<close> is \<^verbatim>\<open>Path::is_file\<close>.
\<close>

record file_system =
  fs_read :: "path \<Rightarrow> string option"
  fs_read_dir :: "path \<Rightarrow> string list option"
  fs_is_file :: "path \<Rightarrow> bool"

definition MAX_INCLUDE_DEPTH :: nat where
  "MAX_INCLUDE_DEPTH = 32"

definition resolve_relative :: "path \<Rightarrow> string \<Rightarrow> path" where
  "resolve_relative base arg =
     (let p = path_of_str arg
      in if p_absolute p then p
         else case path_parent base of Some dir \<Rightarrow> path_join dir p | None \<Rightarrow> p)"

definition or_nothing :: "directive list option \<Rightarrow> directive list" where
  "or_nothing r = (case r of None \<Rightarrow> [] | Some ds \<Rightarrow> ds)"

definition dir_entry :: "path \<Rightarrow> string \<Rightarrow> path" where
  "dir_entry dir name = dir\<lparr>p_components := p_components dir @ [name]\<rparr>"

text \<open>\<open>parse\<close> is \<^verbatim>\<open>parse_file_inner\<close> one level deeper.\<close>

definition resolve_include ::
  "environment \<Rightarrow> file_system \<Rightarrow> (path \<Rightarrow> directive list option) \<Rightarrow> path
     \<Rightarrow> include_kind \<Rightarrow> string \<Rightarrow> directive list" where
  "resolve_include env fs parse base kind arg =
     (case kind of
        IncludeFile \<Rightarrow> or_nothing (parse (resolve_relative base arg))
      | IncludeDir \<Rightarrow>
          (case fs_read_dir fs (path_of_str arg) of
             None \<Rightarrow> []
           | Some names \<Rightarrow>
               concat (map (\<lambda>n. or_nothing (parse (dir_entry (path_of_str arg) n)))
                 (sort (filter (\<lambda>n. \<not> starts_with n ''.'' \<and> ends_with n ''.conf'') names))))
      | IncludeSearch \<Rightarrow>
          (let header = (case strip_suffix ''.conf'' arg of Some h \<Rightarrow> h | None \<Rightarrow> arg)
           in concat (map (\<lambda>dir.
                let candidate = path_join dir (path_of_str (header @ ''.conf''))
                in if fs_is_file fs candidate then or_nothing (parse candidate) else [])
              (config_directories env))))"

function parse_file_inner ::
  "environment \<Rightarrow> file_system \<Rightarrow> path \<Rightarrow> nat \<Rightarrow> directive list option" where
  "parse_file_inner env fs p depth =
     (if depth > MAX_INCLUDE_DEPTH then Some []
      else case fs_read fs p of
        None \<Rightarrow> None
      | Some content \<Rightarrow>
          Some (parse_lines
            (\<lambda>kind arg. resolve_include env fs (\<lambda>q. parse_file_inner env fs q (depth + 1)) p kind arg)
            (Some p) None 0 (lines content)))"
  by pat_completeness auto
termination
  by (relation "measure (\<lambda>(env, fs, p, depth). Suc MAX_INCLUDE_DEPTH - depth)") auto

declare parse_file_inner.simps [simp del]

definition parse_file :: "environment \<Rightarrow> file_system \<Rightarrow> path \<Rightarrow> directive list option" where
  "parse_file env fs p = parse_file_inner env fs p 0"

definition read_app_config_in ::
  "environment \<Rightarrow> file_system \<Rightarrow> path list \<Rightarrow> string \<Rightarrow> directive list" where
  "read_app_config_in env fs dirs app_type =
     concat (map (\<lambda>f. if fs_is_file fs f then or_nothing (parse_file env fs f) else [])
       (config_files_in dirs app_type))"

definition read_app_config :: "environment \<Rightarrow> file_system \<Rightarrow> string \<Rightarrow> directive list" where
  "read_app_config env fs app_type = read_app_config_in env fs (config_directories env) app_type"

section \<open>Reading back what was written\<close>

text \<open>A word the reader takes verbatim: no quote in front, no white space, no backslash.\<close>

definition bare_char :: "string \<Rightarrow> bool" where
  "bare_char c \<longleftrightarrow> \<not> is_whitespace c \<and> c \<noteq> backslash"

definition bare_word :: "string \<Rightarrow> bool" where
  "bare_word w \<longleftrightarrow>
     w \<noteq> [] \<and> valid_string w \<and> list_all bare_char (chars w) \<and>
     hd (chars w) \<noteq> dquote \<and> hd (chars w) \<noteq> squote"

text \<open>What may follow a word.\<close>

definition word_end :: "string \<Rightarrow> bool" where
  "word_end r \<longleftrightarrow> r = [] \<or> is_whitespace (hd (chars r))"

lemma bare_loop_append:
  "list_all bare_char cs \<Longrightarrow> bare_loop (cs @ ds) False w = bare_loop ds False (w @ concat cs)"
  by (induction cs arbitrary: w) (auto simp: bare_char_def)

lemma not_whitespace_special [simp]:
  "\<not> is_whitespace backslash" "\<not> is_whitespace dquote" "\<not> is_whitespace squote"
  by (simp_all add: is_whitespace_ascii is_ascii_def)

lemma bare_loop_end: "word_end r \<Longrightarrow> bare_loop (chars r) False w = (w, chars r)"
  by (cases "chars r") (auto simp: word_end_def)

lemma hd_chars_append: "valid_string w \<Longrightarrow> w \<noteq> [] \<Longrightarrow> hd (chars (w @ r)) = hd (chars w)"
  by (cases "chars w") (auto simp: chars_append)

lemma read_word_bare:
  assumes "bare_word w" and "word_end r"
  shows "read_word (w @ r) = Some (w, trim_start r)"
proof -
  have w: "w \<noteq> []" "valid_string w" "list_all bare_char (chars w)"
    "hd (chars w) \<noteq> dquote" "hd (chars w) \<noteq> squote"
    using assms(1) by (auto simp: bare_word_def)
  obtain c cs where c: "chars w = c # cs" using w(1) by (cases "chars w") auto
  have "\<not> is_whitespace c" using w(3) c by (simp add: bare_char_def)
  then have "trim_start (w @ r) = w @ r"
    using w(1,2) c by (intro trim_start_nonwhite) (simp add: hd_chars_append)
  moreover have "chars (w @ r) = c # cs @ chars r" using w(2) c by (simp add: chars_append)
  moreover have "c @ concat cs = w" using c by (metis concat.simps(2) concat_chars)
  then have "bare_loop (c # cs @ chars r) False [] = (w, chars r)"
    using bare_loop_append [OF w(3), of "chars r" "[]"] bare_loop_end [OF assms(2)] c by simp
  ultimately show ?thesis using w(4,5) c by (simp add: read_word_def)
qed

lemma read_word_space [simp]: "read_word (CHR '' '' # s) = read_word s"
  by (simp add: read_word_def)

lemma trim_start_idem [simp]: "trim_start (trim_start s) = trim_start s"
  by (subst trim_start.simps) simp

lemma read_word_trim [simp]: "read_word (trim_start s) = read_word s"
  by (simp add: read_word_def)

lemma parse_words_trim [simp]: "parse_words (trim_start s) = parse_words s"
  by (subst (1 2) parse_words.simps) simp

lemma parse_words_Nil [simp]: "parse_words [] = []"
  by (simp add: parse_words.simps read_word_def trim_start_nonwhite)

lemma parse_words_read: "read_word s = Some (w, r) \<Longrightarrow> parse_words s = w # parse_words r"
  by (simp add: parse_words.simps [of s])

lemma parse_words_space [simp]: "parse_words (CHR '' '' # s) = parse_words s"
  by (subst (1 2) parse_words.simps) simp

lemma word_end_simps [simp]: "word_end []" "word_end (CHR '' '' # s)"
  by (simp_all add: word_end_def is_whitespace_ascii is_ascii_def)

text \<open>A token that opens an ordinary directive line.\<close>

definition plain_token :: "string \<Rightarrow> bool" where
  "plain_token t \<longleftrightarrow>
     bare_word t \<and> hd t \<noteq> CHR ''#'' \<and> hd t \<noteq> CHR ''['' \<and>
     to_ascii_lowercase t \<notin> {''includefile'', ''includedir'', ''includesearch'', ''include''}"

lemma classify_plain:
  assumes "plain_token t" and "word_end r"
  shows "classify_line (t @ r) = Some (ClEntry None t (parse_words r) (trim_start r))"
proof -
  have t: "bare_word t" "t \<noteq> []" "hd t \<noteq> CHR ''#''" "hd t \<noteq> CHR ''[''"
    using assms(1) by (auto simp: plain_token_def bare_word_def)
  obtain c cs where c: "chars t = c # cs" using t(2) by (cases "chars t") auto
  have "trim_start (t @ r) = t @ r"
    using t(1) c by (intro trim_start_nonwhite) (auto simp: bare_word_def hd_chars_append bare_char_def)
  moreover have "\<not> starts_with (t @ r) ''#''" "\<not> starts_with t ''[''"
    using t(2-4) by (cases t; simp add: starts_with_def)+
  ultimately show ?thesis
    using assms(1) t(2) read_word_bare [OF t(1) assms(2)]
    by (auto simp: classify_line_def classify_token_def plain_token_def Let_def)
qed

text \<open>A line of plain words.\<close>

definition plain_line :: "string \<Rightarrow> string list \<Rightarrow> string" where
  "plain_line token args = token @ concat (map (\<lambda>a. CHR '' '' # a) args)"

lemma parse_words_bare:
  "list_all bare_word args \<Longrightarrow> parse_words (concat (map (\<lambda>a. CHR '' '' # a) args)) = args"
proof (induction args)
  case (Cons a args)
  let ?r = "concat (map (\<lambda>a. CHR '' '' # a) args)"
  have "word_end ?r" by (cases args) simp_all
  with Cons have "read_word (a @ ?r) = Some (a, trim_start ?r)" by (simp add: read_word_bare)
  with Cons show ?case by (simp add: parse_words_read)
qed simp

lemma parse_str_plain_line:
  assumes "plain_token token" and "list_all bare_word args"
    and "newline \<notin> set (plain_line token args)"
  shows "parse_str (plain_line token args) =
     [\<lparr>d_token = token, d_args = args, d_rest = trim_start (concat (map (\<lambda>a. CHR '' '' # a) args)),
       d_section = None, d_source = None, d_line_no = 1\<rparr>]"
proof -
  have "plain_line token args \<noteq> []" using assms(1) by (simp add: plain_line_def plain_token_def bare_word_def)
  then have "lines (plain_line token args) = [plain_line token args]"
    using assms(3) by (intro lines_single)
  moreover have "word_end (concat (map (\<lambda>a. CHR '' '' # a) args))" by (cases args) simp_all
  ultimately show ?thesis
    using classify_plain [OF assms(1)] by (simp add: parse_str_def plain_line_def parse_words_bare assms(2) entry_section_def)
qed

end
