(* ===== verification/Snmp_Vacm.thy ===== *)
theory Snmp_Vacm
  imports Snmp_Oid Snmp_Config Rust_BTreeMap
begin

text \<open>
  View-based access control (\<^verbatim>\<open>crates/netsnmp-agent/src/vacm/mod.rs\<close>): the four tables, the
  operations that change them, the access check, and the \<^verbatim>\<open>snmpd.conf\<close> directives that
  fill the tables.  The abstract specification of the check is \<^verbatim>\<open>grants\<close>: some access row is
  selected and its view has an including and no excluding row for the OID.
\<close>

section \<open>The tables\<close>

type_synonym byte_string = "u8 list"

datatype access_view = ReadView | WriteView | NotifyView

datatype view_tree_family_type = Included | Excluded

fun vtf_code :: "view_tree_family_type \<Rightarrow> i64" where
  "vtf_code Included = 1"
| "vtf_code Excluded = 2"

definition vtf_from_code :: "i64 \<Rightarrow> view_tree_family_type option" where
  "vtf_from_code c = (if c = 1 then Some Included else if c = 2 then Some Excluded else None)"

record vacm_view =
  v_subtree :: oid
  v_mask :: "u8 list"
  v_typ :: view_tree_family_type

text \<open>Bit \<open>i\<close> of the mask, most significant first within each byte; missing bytes read as 0.\<close>

definition mask_bit :: "u8 list \<Rightarrow> nat \<Rightarrow> bool" where
  "mask_bit m i =
     (let byte = (if i div 8 < length m then m ! (i div 8) else 0)
      in and (drop_bit (7 - i mod 8) byte) 1 = 1)"

text \<open>The loop over the sub-identifiers of the subtree, from index \<open>i\<close> on.\<close>

fun mask_loop :: "u8 list \<Rightarrow> u32 list \<Rightarrow> u32 list \<Rightarrow> nat \<Rightarrow> u32 list \<Rightarrow> bool" where
  "mask_loop m sub o1 i [] = (length sub \<le> length o1)"
| "mask_loop m sub o1 i (want # rest) =
     (if mask_bit m i
      then if i < length o1 \<and> o1 ! i = want then mask_loop m sub o1 (i + 1) rest else False
      else i \<le> length o1 \<and> take i o1 = take i sub)"

definition view_matches :: "vacm_view \<Rightarrow> oid \<Rightarrow> bool" where
  "view_matches v o1 =
     (let sub = as_slice (v_subtree v); arcs = as_slice o1 in
      if v_mask v = [] then length sub \<le> length arcs \<and> take (length sub) arcs = sub
      else mask_loop (v_mask v) sub arcs 0 sub)"

record vacm_group =
  g_model :: i32
  g_name :: byte_string
  g_group :: byte_string

datatype context_match = Exact | Prefix

record vacm_access =
  a_group :: byte_string
  a_prefix :: byte_string
  a_model :: i32
  a_level :: i32
  a_match :: context_match
  a_read :: "byte_string option"
  a_write :: "byte_string option"
  a_notify :: "byte_string option"

record vacm =
  groups :: "vacm_group list"
  access :: "vacm_access list"
  views :: "(byte_string, vacm_view list) btree_map"
  contexts :: "byte_string list"

definition vacm_new :: vacm where
  "vacm_new = \<lparr>groups = [], access = [], views = [], contexts = []\<rparr>"

definition vacm_is_empty :: "vacm \<Rightarrow> bool" where
  "vacm_is_empty s =
     (if groups s \<noteq> [] then False else if access s \<noteq> [] then False else views s = [])"

section \<open>Changing the tables\<close>

text \<open>\<open>iter_mut().find(p)\<close> with assignment to the slot, or \<open>push\<close> when there is none.\<close>

fun replace_or_push :: "('a \<Rightarrow> bool) \<Rightarrow> 'a \<Rightarrow> 'a list \<Rightarrow> 'a list" where
  "replace_or_push p x [] = [x]"
| "replace_or_push p x (y # ys) = (if p y then x # ys else y # replace_or_push p x ys)"

definition add_group :: "vacm_group \<Rightarrow> vacm \<Rightarrow> vacm" where
  "add_group g s = s\<lparr>groups :=
     replace_or_push (\<lambda>e. g_model e = g_model g \<and> g_name e = g_name g) g (groups s)\<rparr>"

definition remove_group :: "i32 \<Rightarrow> byte_string \<Rightarrow> vacm \<Rightarrow> bool \<times> vacm" where
  "remove_group model name s =
     (let gs = filter (\<lambda>e. \<not> (g_model e = model \<and> g_name e = name)) (groups s)
      in (length gs \<noteq> length (groups s), s\<lparr>groups := gs\<rparr>))"

definition same_access_key :: "vacm_access \<Rightarrow> byte_string \<Rightarrow> byte_string \<Rightarrow> i32 \<Rightarrow> i32 \<Rightarrow> bool" where
  "same_access_key e grp pre model level \<longleftrightarrow>
     a_group e = grp \<and> a_prefix e = pre \<and> a_model e = model \<and> a_level e = level"

definition add_access :: "vacm_access \<Rightarrow> vacm \<Rightarrow> vacm" where
  "add_access a s = s\<lparr>access :=
     replace_or_push (\<lambda>e. same_access_key e (a_group a) (a_prefix a) (a_model a) (a_level a)) a (access s)\<rparr>"

definition remove_access :: "byte_string \<Rightarrow> byte_string \<Rightarrow> i32 \<Rightarrow> i32 \<Rightarrow> vacm \<Rightarrow> bool \<times> vacm" where
  "remove_access grp pre model level s =
     (let rows = filter (\<lambda>e. \<not> same_access_key e grp pre model level) (access s)
      in (length rows \<noteq> length (access s), s\<lparr>access := rows\<rparr>))"

definition add_view :: "byte_string \<Rightarrow> vacm_view \<Rightarrow> vacm \<Rightarrow> vacm" where
  "add_view name v s =
     (let rows = (case btm_get (views s) name of Some rows \<Rightarrow> rows | None \<Rightarrow> [])
      in s\<lparr>views := btm_insert name (replace_or_push (\<lambda>r. v_subtree r = v_subtree v) v rows) (views s)\<rparr>)"

definition remove_view :: "byte_string \<Rightarrow> oid \<Rightarrow> vacm \<Rightarrow> bool \<times> vacm" where
  "remove_view name subtree s =
     (case btm_get (views s) name of
        None \<Rightarrow> (False, s)
      | Some rows \<Rightarrow>
          (let kept = filter (\<lambda>r. v_subtree r \<noteq> subtree) rows;
               removed = (length kept \<noteq> length rows);
               vs = btm_insert name kept (views s)
           in (removed, s\<lparr>views := if removed \<and> kept = [] then btm_remove name vs else vs\<rparr>)))"

definition add_context :: "byte_string \<Rightarrow> vacm \<Rightarrow> vacm" where
  "add_context c s = (if c \<notin> set (contexts s) then s\<lparr>contexts := contexts s @ [c]\<rparr> else s)"

definition remove_context :: "byte_string \<Rightarrow> vacm \<Rightarrow> bool \<times> vacm" where
  "remove_context c s =
     (let cs = filter (\<lambda>x. x \<noteq> c) (contexts s)
      in (length cs \<noteq> length (contexts s), s\<lparr>contexts := cs\<rparr>))"

definition vacm_clear :: "vacm \<Rightarrow> vacm" where
  "vacm_clear s = s\<lparr>groups := [], access := [], views := [], contexts := []\<rparr>"

definition sorted_contexts :: "vacm \<Rightarrow> byte_string list" where
  "sorted_contexts s = sort (contexts s)"

definition views_for :: "byte_string \<Rightarrow> vacm \<Rightarrow> vacm_view list" where
  "views_for name s = (case btm_get (views s) name of Some rows \<Rightarrow> rows | None \<Rightarrow> [])"

section \<open>The access check\<close>

definition group_for :: "vacm \<Rightarrow> i32 \<Rightarrow> byte_string \<Rightarrow> byte_string option" where
  "group_for s model name =
     (case find (\<lambda>e. g_model e = model \<and> g_name e = name) (groups s) of
        Some e \<Rightarrow> Some (g_group e)
      | None \<Rightarrow> map_option g_group (find (\<lambda>e. g_model e = 0 \<and> g_name e = name) (groups s)))"

definition context_matches :: "context_match \<Rightarrow> byte_string \<Rightarrow> byte_string \<Rightarrow> bool" where
  "context_matches m pre name =
     (case m of Exact \<Rightarrow> pre = name | Prefix \<Rightarrow> take (length pre) name = pre)"

definition matching_access :: "vacm \<Rightarrow> byte_string \<Rightarrow> i32 \<Rightarrow> i32 \<Rightarrow> byte_string \<Rightarrow> vacm_access list" where
  "matching_access s grp model level ctx =
     filter (\<lambda>a. context_matches (a_match a) (a_prefix a) ctx)
       (filter (\<lambda>a. sint (a_level a) \<le> sint level)
         (filter (\<lambda>a. a_model a = model \<or> a_model a = 0)
           (filter (\<lambda>a. a_group a = grp) (access s))))"

text \<open>The comparator of \<open>max_by\<close>: the prefix length, then exact model over wildcard.\<close>

definition access_rank :: "vacm_access \<Rightarrow> nat \<times> nat" where
  "access_rank a = (length (a_prefix a), if a_model a \<noteq> 0 then 1 else 0)"

definition view_slot :: "access_view \<Rightarrow> vacm_access \<Rightarrow> byte_string option" where
  "view_slot t a = (case t of ReadView \<Rightarrow> a_read a | WriteView \<Rightarrow> a_write a | NotifyView \<Rightarrow> a_notify a)"

fun family_loop :: "oid \<Rightarrow> bool \<Rightarrow> vacm_view list \<Rightarrow> bool" where
  "family_loop o1 included [] = included"
| "family_loop o1 included (row # rows) =
     (if view_matches row o1
      then if v_typ row = Excluded then False else family_loop o1 True rows
      else family_loop o1 included rows)"

definition is_view_accessible ::
  "vacm \<Rightarrow> access_view \<Rightarrow> i32 \<Rightarrow> byte_string \<Rightarrow> i32 \<Rightarrow> byte_string \<Rightarrow> oid \<Rightarrow> bool" where
  "is_view_accessible s t model name level ctx o1 =
     (if vacm_is_empty s then True
      else case group_for s model name of
        None \<Rightarrow> False
      | Some grp \<Rightarrow>
          (case max_by_key access_rank (matching_access s grp model level ctx) of
             None \<Rightarrow> False
           | Some a \<Rightarrow>
               (case view_slot t a of
                  None \<Rightarrow> False
                | Some vn \<Rightarrow>
                    if vn = [] then False
                    else case btm_get (views s) vn of
                      None \<Rightarrow> False
                    | Some rows \<Rightarrow> family_loop o1 False rows)))"

section \<open>Configuration directives\<close>

definition parse_i32 :: "string \<Rightarrow> i32 option" where
  "parse_i32 w = map_option word_of_int (parse_signed 32 w)"

definition parse_model :: "string \<Rightarrow> i32 option" where
  "parse_model word =
     (let w = to_ascii_lowercase word in
      if w = ''v1'' \<or> w = ''snmpv1'' then Some 1
      else if w = ''v2c'' \<or> w = ''snmpv2c'' then Some 2
      else if w = ''usm'' then Some 3
      else if w = ''any'' \<or> w = [] then Some 0
      else parse_i32 w)"

definition parse_level :: "string \<Rightarrow> i32 option" where
  "parse_level word =
     (let w = to_ascii_lowercase word in
      if w = ''noauth'' \<or> w = ''noauthnopriv'' \<or> w = ''noauthnoprivacy'' then Some 0
      else if w = ''auth'' \<or> w = ''authnopriv'' \<or> w = ''authnoprivacy'' then Some 1
      else if w = ''priv'' \<or> w = ''authpriv'' \<or> w = ''authprivacy'' then Some 3
      else parse_i32 w)"

definition hex_digit :: "char \<Rightarrow> nat option" where
  "hex_digit c =
     (let n = of_char c :: nat in
      if 48 \<le> n \<and> n \<le> 57 then Some (n - 48)
      else if 97 \<le> n \<and> n \<le> 102 then Some (n - 87)
      else if 65 \<le> n \<and> n \<le> 70 then Some (n - 55)
      else None)"

fun hex_pairs :: "string \<Rightarrow> u8 list" where
  "hex_pairs (a # b # rest) =
     (case (hex_digit a, hex_digit b) of
        (Some x, Some y) \<Rightarrow> word_of_nat (16 * x + y) # hex_pairs rest
      | _ \<Rightarrow> hex_pairs rest)"
| "hex_pairs _ = []"

definition parse_mask :: "string \<Rightarrow> u8 list" where
  "parse_mask word =
     (let stripped = (if starts_with word ''0x'' \<or> starts_with word ''0X'' then drop 2 word else word) in
      if stripped \<noteq> [] \<and> length stripped mod 2 = 0 \<and> list_all (\<lambda>c. hex_digit c \<noteq> None) stripped
      then hex_pairs stripped else as_bytes word)"

definition apply_com2sec :: "directive \<Rightarrow> vacm \<Rightarrow> vacm" where
  "apply_com2sec d s =
     (case dropWhile (\<lambda>a. starts_with a ''-'') (d_args d) of
        name # source # community # _ \<Rightarrow>
          add_group \<lparr>g_model = 2, g_name = as_bytes community, g_group = as_bytes name\<rparr>
            (add_group \<lparr>g_model = 1, g_name = as_bytes community, g_group = as_bytes name\<rparr> s)
      | _ \<Rightarrow> s)"

definition apply_group :: "directive \<Rightarrow> vacm \<Rightarrow> vacm" where
  "apply_group d s =
     (case d_args d of
        name # model_word # sec_name # _ \<Rightarrow>
          (case parse_model model_word of
             None \<Rightarrow> s
           | Some model \<Rightarrow>
               add_group \<lparr>g_model = model, g_name = as_bytes sec_name, g_group = as_bytes name\<rparr> s)
      | _ \<Rightarrow> s)"

definition parse_view_type :: "string \<Rightarrow> view_tree_family_type option" where
  "parse_view_type word =
     (let w = to_ascii_lowercase word in
      if w = ''included'' \<or> w = ''include'' then Some Included
      else if w = ''excluded'' \<or> w = ''exclude'' then Some Excluded
      else None)"

definition apply_view :: "directive \<Rightarrow> vacm \<Rightarrow> vacm" where
  "apply_view d s =
     (case d_args d of
        name # typ_word # subtree_word # rest \<Rightarrow>
          (case parse_view_type typ_word of
             None \<Rightarrow> s
           | Some typ \<Rightarrow>
               (case oid_from_str subtree_word of
                  Err _ \<Rightarrow> s
                | Ok subtree \<Rightarrow>
                    add_view (as_bytes name)
                      \<lparr>v_subtree = subtree,
                       v_mask = (case rest of m # _ \<Rightarrow> parse_mask m | [] \<Rightarrow> []), v_typ = typ\<rparr> s))
      | _ \<Rightarrow> s)"

definition view_or_none :: "string \<Rightarrow> byte_string option" where
  "view_or_none w = (if w = [] \<or> w = ''NULL'' \<or> w = ''null'' then None else Some (as_bytes w))"

definition apply_access :: "directive \<Rightarrow> vacm \<Rightarrow> vacm" where
  "apply_access d s =
     (let args = d_args d in
      if length args < 7 then s
      else case parse_model (args ! 2) of
        None \<Rightarrow> s
      | Some model \<Rightarrow>
          (case parse_level (args ! 3) of
             None \<Rightarrow> s
           | Some level \<Rightarrow>
               (let w = to_ascii_lowercase (args ! 4);
                    (cm, i) = (if 8 \<le> length args \<and> (w = ''exact'' \<or> w = ''prefix'')
                               then (if eq_ignore_ascii_case (args ! 4) ''prefix'' then Prefix else Exact, 5)
                               else (Exact, 4 :: nat))
                in add_access
                     \<lparr>a_group = as_bytes (args ! 0), a_prefix = as_bytes (args ! 1), a_model = model,
                      a_level = level, a_match = cm, a_read = view_or_none (args ! i),
                      a_write = view_or_none (args ! (i + 1)),
                      a_notify = view_or_none (args ! (i + 2))\<rparr> s)))"

text \<open>The subtree of the community shortcuts: a malformed OID falls back to \<open>1.3.6.1.2.1\<close>.\<close>

definition community_subtree :: "string list \<Rightarrow> oid" where
  "community_subtree args =
     (let w = (if 2 < length args then args ! 2 else ''.1'')
      in case oid_from_str w of Ok sub \<Rightarrow> sub | Err _ \<Rightarrow> Oid [1, 3, 6, 1, 2, 1])"

definition apply_rocommunity :: "directive \<Rightarrow> vacm \<Rightarrow> vacm" where
  "apply_rocommunity d s =
     (case d_args d of
        [] \<Rightarrow> s
      | community # _ \<Rightarrow>
          (let subtree = community_subtree (d_args d);
               grp = as_bytes (''community_'' @ community);
               view = as_bytes (''ro_'' @ community);
               s = add_group \<lparr>g_model = 1, g_name = as_bytes community, g_group = grp\<rparr> s;
               s = add_group \<lparr>g_model = 2, g_name = as_bytes community, g_group = grp\<rparr> s;
               s = add_view view \<lparr>v_subtree = subtree, v_mask = [], v_typ = Included\<rparr> s
           in add_access
                \<lparr>a_group = grp, a_prefix = [], a_model = 0, a_level = 0, a_match = Prefix,
                 a_read = Some view, a_write = None, a_notify = None\<rparr> s))"

definition apply_rwcommunity :: "directive \<Rightarrow> vacm \<Rightarrow> vacm" where
  "apply_rwcommunity d s =
     (case d_args d of
        [] \<Rightarrow> s
      | community # _ \<Rightarrow>
          (let subtree = community_subtree (d_args d);
               grp = as_bytes (''community_'' @ community);
               view = as_bytes (''rw_'' @ community);
               s = add_group \<lparr>g_model = 1, g_name = as_bytes community, g_group = grp\<rparr> s;
               s = add_group \<lparr>g_model = 2, g_name = as_bytes community, g_group = grp\<rparr> s;
               s = add_view view \<lparr>v_subtree = subtree, v_mask = [], v_typ = Included\<rparr> s
           in add_access
                \<lparr>a_group = grp, a_prefix = [], a_model = 0, a_level = 0, a_match = Prefix,
                 a_read = Some view, a_write = Some view, a_notify = None\<rparr> s))"

definition apply_directive :: "directive \<Rightarrow> vacm \<Rightarrow> vacm" where
  "apply_directive d s =
     (if d_is d ''com2sec'' \<or> d_is d ''com2sec6'' then apply_com2sec d s
      else if d_is d ''group'' then apply_group d s
      else if d_is d ''view'' then apply_view d s
      else if d_is d ''access'' \<or> d_is d ''access2'' then apply_access d s
      else if d_is d ''rocommunity'' \<or> d_is d ''rocommunity6'' then apply_rocommunity d s
      else if d_is d ''rwcommunity'' \<or> d_is d ''rwcommunity6'' then apply_rwcommunity d s
      else s)"

definition from_config_directives :: "directive list \<Rightarrow> vacm" where
  "from_config_directives ds = fold apply_directive ds vacm_new"

section \<open>What a view row matches\<close>

text \<open>The number of leading sub-identifiers that a row compares.\<close>

definition significant :: "vacm_view \<Rightarrow> nat" where
  "significant v =
     (if v_mask v = [] then length (as_slice (v_subtree v))
      else length (takeWhile (mask_bit (v_mask v)) [0..<length (as_slice (v_subtree v))]))"

lemma mask_loop_prefix:
  assumes "sub = pre @ rest" and "take (length pre) o1 = pre"
  shows "mask_loop m sub o1 (length pre) rest \<longleftrightarrow>
    (let k = length pre + length (takeWhile (mask_bit m) [length pre..<length sub]) in take k o1 = take k sub)"
  using assms
proof (induction rest arbitrary: pre)
  case Nil
  then show ?case by (auto simp: Let_def) (metis length_take min.absorb_iff2)
next
  case (Cons want rest)
  have l: "[length pre..<length sub] = length pre # [length (pre @ [want])..<length sub]"
    using upt_conv_Cons [of "length pre" "length sub"] Cons.prems(1) by simp
  have tw: "takeWhile (mask_bit m) [length pre..<length sub] =
      (if mask_bit m (length pre)
       then length pre # takeWhile (mask_bit m) [length (pre @ [want])..<length sub] else [])"
    by (subst l) simp
  have tk: "length pre \<le> length o1" using Cons.prems(2) by (metis length_take min.absorb_iff2 nat_le_linear)
  show ?case
  proof (cases "mask_bit m (length pre)")
    case False
    then show ?thesis using Cons.prems tk unfolding tw by simp
  next
    case bit: True
    show ?thesis
    proof (cases "length pre < length o1 \<and> o1 ! length pre = want")
      case True
      then have "take (length (pre @ [want])) o1 = pre @ [want]"
        using Cons.prems(2) by (simp add: take_Suc_conv_app_nth)
      then show ?thesis
        using Cons.IH [of "pre @ [want]"] Cons.prems(1) True bit unfolding tw by (simp add: Let_def)
    next
      case False
      have "take k o1 \<noteq> take k sub" if "length pre < k" for k
      proof
        assume eq: "take k o1 = take k sub"
        then have "take k o1 ! length pre = want" "length pre < length (take k o1)"
          using that Cons.prems(1) by (simp_all add: nth_append)
        then show False using False that by simp
      qed
      then show ?thesis using False bit unfolding tw by (auto simp: Let_def)
    qed
  qed
qed

lemma view_matches_iff:
  "view_matches v o1 \<longleftrightarrow> is_prefix_of (Oid (take (significant v) (as_slice (v_subtree v)))) o1"
proof -
  let ?s = "as_slice (v_subtree v)" and ?k = "significant v"
  have k: "?k \<le> length ?s"
    by (simp add: significant_def) (metis diff_zero length_takeWhile_le length_upt)
  have eq: "is_prefix_of (Oid (take ?k ?s)) o1 \<longleftrightarrow> take ?k (as_slice o1) = take ?k ?s"
    using k by (auto simp: is_prefix_of_def) (metis length_take min.absorb2 min.cobounded1)
  show ?thesis
  proof (cases "v_mask v = []")
    case True
    then show ?thesis unfolding eq
      by (auto simp: view_matches_def significant_def Let_def) (metis length_take min.cobounded1)
  next
    case False
    then show ?thesis unfolding eq
      using mask_loop_prefix [of ?s "[]" ?s "as_slice o1" "v_mask v"]
      by (simp add: view_matches_def significant_def Let_def)
  qed
qed

lemma not_excluded: "t \<noteq> Excluded \<longleftrightarrow> t = Included"
  by (cases t) simp_all

lemma family_loop_iff:
  "family_loop o1 inc rows \<longleftrightarrow>
     (\<forall>r\<in>set rows. view_matches r o1 \<longrightarrow> v_typ r = Included) \<and>
     (inc \<or> (\<exists>r\<in>set rows. view_matches r o1))"
  by (induction o1 inc rows rule: family_loop.induct) (auto simp: not_excluded)

section \<open>The check, declaratively\<close>

definition eligible :: "byte_string \<Rightarrow> i32 \<Rightarrow> i32 \<Rightarrow> byte_string \<Rightarrow> vacm_access \<Rightarrow> bool" where
  "eligible grp model level ctx a \<longleftrightarrow>
     a_group a = grp \<and> a_model a \<in> {model, 0} \<and> sint (a_level a) \<le> sint level \<and>
     context_matches (a_match a) (a_prefix a) ctx"

text \<open>The row that decides: eligible, of the highest rank, the last one among equals.\<close>

definition selects :: "vacm \<Rightarrow> byte_string \<Rightarrow> i32 \<Rightarrow> i32 \<Rightarrow> byte_string \<Rightarrow> vacm_access \<Rightarrow> bool" where
  "selects s grp model level ctx a \<longleftrightarrow>
     (\<exists>us ws. access s = us @ a # ws \<and> eligible grp model level ctx a \<and>
        (\<forall>u\<in>set us. eligible grp model level ctx u \<longrightarrow> access_rank u \<le> access_rank a) \<and>
        (\<forall>w\<in>set ws. eligible grp model level ctx w \<longrightarrow> access_rank w < access_rank a))"

lemma matching_access_eq: "matching_access s grp model level ctx = filter (eligible grp model level ctx) (access s)"
  unfolding matching_access_def filter_filter eligible_def by (rule filter_cong) auto

lemma filter_eq_split:
  "filter p xs = us @ a # ws \<Longrightarrow>
     \<exists>us' ws'. xs = us' @ a # ws' \<and> p a \<and> filter p us' = us \<and> filter p ws' = ws"
proof (induction us arbitrary: xs)
  case Nil
  then show ?case by (auto simp: filter_eq_Cons_iff) (metis filter_False)
next
  case (Cons u us)
  then obtain us1 vs where xs: "xs = us1 @ u # vs" "p u" "\<forall>x\<in>set us1. \<not> p x" "filter p vs = us @ a # ws"
    by (auto simp: filter_eq_Cons_iff)
  obtain us' ws' where "vs = us' @ a # ws'" "p a" "filter p us' = us" "filter p ws' = ws"
    using Cons.IH [OF xs(4)] by blast
  then show ?case using xs by (intro exI [of _ "us1 @ u # us'"] exI [of _ ws']) auto
qed

lemma max_selects:
  "max_by_key access_rank (matching_access s grp model level ctx) = Some a \<Longrightarrow>
     selects s grp model level ctx a"
proof -
  assume m: "max_by_key access_rank (matching_access s grp model level ctx) = Some a"
  obtain us ws where fl: "filter (eligible grp model level ctx) (access s) = us @ a # ws"
    and us: "\<And>u. u \<in> set us \<Longrightarrow> access_rank u \<le> access_rank a"
    and ws: "\<And>w. w \<in> set ws \<Longrightarrow> access_rank w < access_rank a"
    using m by (auto simp: matching_access_eq elim: max_by_key_SomeE)
  obtain us' ws' where "access s = us' @ a # ws'" "eligible grp model level ctx a"
      "filter (eligible grp model level ctx) us' = us" "filter (eligible grp model level ctx) ws' = ws"
    using filter_eq_split [OF fl] by blast
  then show ?thesis unfolding selects_def using us ws
    by (intro exI [of _ us'] exI [of _ ws']) auto
qed

lemma selects_unique: "selects s grp model level ctx a \<Longrightarrow> selects s grp model level ctx b \<Longrightarrow> a = b"
  unfolding selects_def
  by (elim exE conjE) (auto simp: append_eq_append_conv2 Cons_eq_append_conv append_eq_Cons_conv
      dest: leD)

lemma selects_max:
  "selects s grp model level ctx a \<longleftrightarrow>
     max_by_key access_rank (matching_access s grp model level ctx) = Some a"
proof
  assume a: "selects s grp model level ctx a"
  then have "a \<in> set (matching_access s grp model level ctx)"
    by (auto simp: selects_def matching_access_eq)
  then obtain b where "max_by_key access_rank (matching_access s grp model level ctx) = Some b"
    by (metis max_by_key_None emptyE list.set(1) not_None_eq)
  then show "max_by_key access_rank (matching_access s grp model level ctx) = Some a"
    using max_selects selects_unique [OF a] by metis
qed (rule max_selects)

section \<open>The invariant of the tables\<close>

definition group_key :: "vacm_group \<Rightarrow> i32 \<times> byte_string" where
  "group_key g = (g_model g, g_name g)"

definition access_key :: "vacm_access \<Rightarrow> byte_string \<times> byte_string \<times> i32 \<times> i32" where
  "access_key a = (a_group a, a_prefix a, a_model a, a_level a)"

text \<open>Every table has at most one row per key, and no view name is left without rows.\<close>

definition vacm_ok :: "vacm \<Rightarrow> bool" where
  "vacm_ok s \<longleftrightarrow> distinct (map group_key (groups s)) \<and> distinct (map access_key (access s)) \<and>
     btm_wf (views s) \<and> distinct (contexts s) \<and>
     (\<forall>name rows. btm_get (views s) name = Some rows \<longrightarrow> rows \<noteq> [] \<and> distinct (map v_subtree rows))"

inductive vacm_step :: "vacm \<Rightarrow> vacm \<Rightarrow> bool" where
  "vacm_step s (add_group g s)"
| "remove_group model name s = (b, s') \<Longrightarrow> vacm_step s s'"
| "vacm_step s (add_access a s)"
| "remove_access grp pre model level s = (b, s') \<Longrightarrow> vacm_step s s'"
| "vacm_step s (add_view name v s)"
| "remove_view name subtree s = (b, s') \<Longrightarrow> vacm_step s s'"
| "vacm_step s (add_context c s)"
| "remove_context c s = (b, s') \<Longrightarrow> vacm_step s s'"
| "vacm_step s (vacm_clear s)"

lemma replace_or_push_key:
  assumes "\<And>y. p y \<longleftrightarrow> key y = key x"
  shows "key ` set (replace_or_push p x ys) = insert (key x) (key ` set ys)"
    and "distinct (map key ys) \<Longrightarrow> distinct (map key (replace_or_push p x ys))"
    and "replace_or_push p x ys \<noteq> []"
proof -
  have k: "key ` set (replace_or_push p x ys) = insert (key x) (key ` set ys)" for ys
    by (induction ys) (auto simp: assms)
  show "key ` set (replace_or_push p x ys) = insert (key x) (key ` set ys)" by (rule k)
  show "distinct (map key ys) \<Longrightarrow> distinct (map key (replace_or_push p x ys))"
    by (induction ys) (auto simp: assms k)
  show "replace_or_push p x ys \<noteq> []" by (cases ys) auto
qed

lemma distinct_map_filter: "distinct (map f xs) \<Longrightarrow> distinct (map f (filter p xs))"
  by (induction xs) auto

lemma vacm_ok_new: "vacm_ok vacm_new"
  by (simp add: vacm_ok_def vacm_new_def)

lemma vacm_ok_add_group: "vacm_ok s \<Longrightarrow> vacm_ok (add_group g s)"
  by (simp add: vacm_ok_def add_group_def replace_or_push_key(2) group_key_def)

lemma vacm_ok_add_access: "vacm_ok s \<Longrightarrow> vacm_ok (add_access a s)"
  by (simp add: vacm_ok_def add_access_def replace_or_push_key(2) access_key_def same_access_key_def)

lemma vacm_ok_add_view: "vacm_ok s \<Longrightarrow> vacm_ok (add_view name v s)"
  by (auto simp: vacm_ok_def add_view_def Let_def btm_wf_insert btm_get_insert
      intro: replace_or_push_key(2) [of _ v_subtree]
      dest: replace_or_push_key(3) [of "\<lambda>r. v_subtree r = v_subtree v" v_subtree v, OF refl, THEN notE]
      split: option.splits if_splits)

lemma vacm_ok_remove_view: "vacm_ok s \<Longrightarrow> vacm_ok (snd (remove_view name subtree s))"
  by (auto simp: vacm_ok_def remove_view_def Let_def btm_wf_insert btm_wf_remove btm_get_insert
      btm_get_remove distinct_map_filter split: option.splits if_splits)

lemma vacm_ok_remove:
  assumes "vacm_ok s"
  shows "vacm_ok (snd (remove_group model name s))" "vacm_ok (snd (remove_access grp pre model level s))"
    "vacm_ok (snd (remove_context c s))" "vacm_ok (add_context c s)" "vacm_ok (vacm_clear s)"
  using assms by (simp_all add: vacm_ok_def remove_group_def remove_access_def remove_context_def
      add_context_def vacm_clear_def Let_def distinct_map_filter)

lemma vacm_step_ok: "vacm_step s s' \<Longrightarrow> vacm_ok s \<Longrightarrow> vacm_ok s'"
  by (induction rule: vacm_step.induct)
    (metis vacm_ok_add_group vacm_ok_add_access vacm_ok_add_view vacm_ok_remove_view vacm_ok_remove snd_conv)+

text \<open>A directive is a sequence of steps.\<close>

lemma apply_directive_steps: "vacm_step\<^sup>*\<^sup>* s (apply_directive d s)"
proof -
  have com: "vacm_step\<^sup>*\<^sup>* s (add_access a (add_view n v (add_group g (add_group h s))))" for a n v g h
    by (meson converse_rtranclp_into_rtranclp rtranclp.rtrancl_refl vacm_step.intros(1,3,5))
  have "vacm_step\<^sup>*\<^sup>* s (apply_rocommunity d s)" "vacm_step\<^sup>*\<^sup>* s (apply_rwcommunity d s)"
    by (simp_all add: apply_rocommunity_def apply_rwcommunity_def Let_def com split: list.splits)
  moreover have "vacm_step\<^sup>*\<^sup>* s (add_group g (add_group h s))" for g h
    by (meson converse_rtranclp_into_rtranclp rtranclp.rtrancl_refl vacm_step.intros(1))
  then have "vacm_step\<^sup>*\<^sup>* s (apply_com2sec d s)"
    by (simp add: apply_com2sec_def split: list.splits)
  moreover have "vacm_step\<^sup>*\<^sup>* s (apply_group d s)" "vacm_step\<^sup>*\<^sup>* s (apply_view d s)"
      "vacm_step\<^sup>*\<^sup>* s (apply_access d s)"
    by (auto simp: apply_group_def apply_view_def apply_access_def Let_def
        intro: r_into_rtranclp vacm_step.intros split: list.splits option.splits result.splits prod.splits)
  ultimately show ?thesis by (simp add: apply_directive_def)
qed

lemma config_steps: "vacm_step\<^sup>*\<^sup>* s (fold apply_directive ds s)"
  by (induction ds arbitrary: s) (auto intro: rtranclp_trans apply_directive_steps)

lemma vacm_steps_ok: "vacm_step\<^sup>*\<^sup>* s s' \<Longrightarrow> vacm_ok s \<Longrightarrow> vacm_ok s'"
  by (induction rule: rtranclp_induct) (auto dest: vacm_step_ok)

section \<open>Properties\<close>

text \<open>C6: The access check decides exactly this: access control is not configured at all, or the
  caller's pair has a group, an access row of the group is eligible for the security model,
  level and context and outranks the others, that row names a view of the requested kind,
  some row of the view matches the OID and every row that matches it is an inclusion.  A row
  matches the OIDs below the part of its subtree that its mask makes significant.\<close>

theorem vacm_check_spec:
  "is_view_accessible s t model name level ctx o1 \<longleftrightarrow>
     vacm_is_empty s \<or>
     (\<exists>grp a vn. group_for s model name = Some grp \<and> selects s grp model level ctx a \<and>
        view_slot t a = Some vn \<and> vn \<noteq> [] \<and>
        (\<exists>r\<in>set (views_for vn s). is_prefix_of (Oid (take (significant r) (as_slice (v_subtree r)))) o1) \<and>
        \<not> (\<exists>r\<in>set (views_for vn s). is_prefix_of (Oid (take (significant r) (as_slice (v_subtree r)))) o1 \<and>
             v_typ r = Excluded))"
proof -
  show ?thesis
    unfolding view_matches_iff [symmetric] selects_max
    by (auto simp: is_view_accessible_def family_loop_iff views_for_def not_excluded split: option.splits)
qed

text \<open>C9: Whatever directives a configuration has and whatever rows are added and removed later,
  every VACM table keeps at most one row per key and no view name is left empty; so once
  the last group, access and view row is removed every request is allowed again.\<close>

theorem vacm_tables_invariant:
  assumes "vacm_step\<^sup>*\<^sup>* (from_config_directives ds) s"
  shows "vacm_ok s \<and>
    (groups s = [] \<and> access s = [] \<and> (\<forall>vn. views_for vn s = []) \<longrightarrow>
       is_view_accessible s t model name level ctx o1)"
proof -
  have "vacm_step\<^sup>*\<^sup>* vacm_new s"
    using config_steps assms unfolding from_config_directives_def by (rule rtranclp_trans)
  then have ok: "vacm_ok s" using vacm_ok_new by (rule vacm_steps_ok)
  moreover have "views s = []" if none: "\<forall>vn. views_for vn s = []"
  proof (rule ccontr)
    assume "views s \<noteq> []"
    then obtain vn rows where "btm_get (views s) vn = Some rows"
      by (metis btm_get_Cons neq_Nil_conv surj_pair)
    then show False using spec [OF none, of vn] ok unfolding vacm_ok_def views_for_def by fastforce
  qed
  ultimately show ?thesis by (auto simp: is_view_accessible_def vacm_is_empty_def)
qed

theorem vacm_tables_invariant_witness:
  "vacm_ok (snd (remove_view [1] (Oid [1]) (add_view [1] \<lparr>v_subtree = Oid [1], v_mask = [], v_typ = Included\<rparr>
     (from_config_directives []))))"
proof -
  let ?s = "from_config_directives []" and ?v = "\<lparr>v_subtree = Oid [1], v_mask = [], v_typ = Included\<rparr>"
  have "vacm_step ?s (add_view [1] ?v ?s)" by (rule vacm_step.intros(5))
  moreover have "vacm_step (add_view [1] ?v ?s) (snd (remove_view [1] (Oid [1]) (add_view [1] ?v ?s)))"
    by (rule vacm_step.intros(6)) (rule prod.collapse [symmetric])
  ultimately have "vacm_step\<^sup>*\<^sup>* ?s (snd (remove_view [1] (Oid [1]) (add_view [1] ?v ?s)))"
    by (rule rtranclp.rtrancl_into_rtrancl [OF r_into_rtranclp])
  from vacm_tables_invariant [OF this] show ?thesis by (rule conjunct1)
qed

lemma as_bytes_eq [simp]: "as_bytes a = as_bytes b \<longleftrightarrow> a = b"
  by (metis str_of_as_bytes)

lemma apply_rocommunity_fresh:
  assumes "d_args d = community # args"
  shows "apply_rocommunity d vacm_new =
     \<lparr>groups = [\<lparr>g_model = 1, g_name = as_bytes community, g_group = as_bytes (''community_'' @ community)\<rparr>,
               \<lparr>g_model = 2, g_name = as_bytes community, g_group = as_bytes (''community_'' @ community)\<rparr>],
      access = [\<lparr>a_group = as_bytes (''community_'' @ community), a_prefix = [], a_model = 0, a_level = 0,
                 a_match = Prefix, a_read = Some (as_bytes (''ro_'' @ community)), a_write = None, a_notify = None\<rparr>],
      views = [(as_bytes (''ro_'' @ community),
                [\<lparr>v_subtree = community_subtree (community # args), v_mask = [], v_typ = Included\<rparr>])],
      contexts = []\<rparr>"
  using assms
  by (simp add: apply_rocommunity_def vacm_new_def add_group_def add_view_def add_access_def Let_def)

text \<open>A configuration with the single line \<open>rocommunity COMMUNITY [SOURCE] [OID]\<close> allows reading the
  subtree of OID to SNMPv1 and SNMPv2c requests with that community, at every context, and
  allows nothing else to anybody: no write, no notification, no other community, model or
  subtree.\<close>

lemma rocommunity_access:
  assumes "d_is d ''rocommunity''" and "d_args d = community # args"
  shows "is_view_accessible (from_config_directives [d]) t model name level ctx o1 \<longleftrightarrow>
   t = ReadView \<and> model \<in> {1, 2} \<and> name = as_bytes community \<and> 0 \<le> sint level \<and>
   is_prefix_of (community_subtree (community # args)) o1"
proof -
  have c: "from_config_directives [d] = apply_rocommunity d vacm_new"
    using assms(1)
    by (simp add: from_config_directives_def apply_directive_def d_is_def eq_ignore_ascii_case_def
        to_ascii_lowercase_def lower_char_def)
  show ?thesis
    unfolding c apply_rocommunity_fresh [OF assms(2)]
    by (cases t) (auto simp: is_view_accessible_def vacm_is_empty_def group_for_def matching_access_def
        context_matches_def max_by_key_def view_slot_def view_matches_def is_prefix_of_def Let_def as_bytes_def)
qed

text \<open>Rows of the access table that a directive can add without being an \<open>access\<close> or
  \<open>rwcommunity\<close> line grant no write view.\<close>

definition grants_write :: "directive \<Rightarrow> bool" where
  "grants_write d \<longleftrightarrow> d_is d ''access'' \<or> d_is d ''access2'' \<or> d_is d ''rwcommunity'' \<or> d_is d ''rwcommunity6''"

definition no_write_rows :: "vacm \<Rightarrow> bool" where
  "no_write_rows s \<longleftrightarrow> (\<forall>a\<in>set (access s). a_write a = None)"

lemma set_replace_or_push: "set (replace_or_push p x ys) \<subseteq> insert x (set ys)"
  by (induction ys) auto

lemma no_write_rows_add:
  "no_write_rows (add_group g s) = no_write_rows s" "no_write_rows (add_view n v s) = no_write_rows s"
  "no_write_rows s \<Longrightarrow> a_write a = None \<Longrightarrow> no_write_rows (add_access a s)"
  using set_replace_or_push [of _ a "access s"]
  by (auto simp: no_write_rows_def add_group_def add_view_def add_access_def Let_def subset_iff)

lemma no_write_rows_apply:
  assumes "no_write_rows s"
  shows "no_write_rows (apply_com2sec d s)" "no_write_rows (apply_group d s)" "no_write_rows (apply_view d s)"
    "no_write_rows (apply_rocommunity d s)"
  using assms
  by (simp_all add: apply_com2sec_def apply_group_def apply_view_def apply_rocommunity_def Let_def
      no_write_rows_add split: list.split option.split result.split)

lemma no_write_rows_directive: "\<not> grants_write d \<Longrightarrow> no_write_rows s \<Longrightarrow> no_write_rows (apply_directive d s)"
  by (simp add: grants_write_def apply_directive_def no_write_rows_apply)

lemma no_write_rows_config:
  "\<forall>d\<in>set ds. \<not> grants_write d \<Longrightarrow> no_write_rows s \<Longrightarrow> no_write_rows (fold apply_directive ds s)"
  by (induction ds arbitrary: s) (auto simp: no_write_rows_directive)

lemma no_write_denied:
  "no_write_rows s \<Longrightarrow> \<not> vacm_is_empty s \<Longrightarrow> \<not> is_view_accessible s WriteView model name level ctx o1"
  by (auto simp: is_view_accessible_def no_write_rows_def view_slot_def matching_access_def
      dest!: max_by_key_in split: option.splits)

text \<open>Tables that were built without \<open>access\<close> and \<open>rwcommunity\<close> lines and are not empty give nobody
  write access.\<close>

lemma config_denies_write:
  assumes "\<forall>d\<in>set ds. \<not> grants_write d" and "\<not> vacm_is_empty (from_config_directives ds)"
  shows "\<not> is_view_accessible (from_config_directives ds) WriteView model name level ctx o1"
proof (rule no_write_denied [OF _ assms(2)])
  show "no_write_rows (from_config_directives ds)"
    unfolding from_config_directives_def
    by (rule no_write_rows_config [OF assms(1)]) (simp add: no_write_rows_def vacm_new_def)
qed

lemma find_replace_or_push:
  "(\<And>y. p y \<Longrightarrow> \<not> q y) \<Longrightarrow> \<not> q x \<Longrightarrow> find q (replace_or_push p x ys) = find q ys"
  by (induction ys) auto

lemma find_replace_or_push_same: "p x \<Longrightarrow> find p (replace_or_push p x ys) = Some x"
  by (induction ys) auto

lemma group_for_add_same: "group_for (add_group g s) (g_model g) (g_name g) = Some (g_group g)"
  by (simp add: group_for_def add_group_def find_replace_or_push_same)

lemma group_for_add_other: "g_name g \<noteq> name \<Longrightarrow> group_for (add_group g s) model name = group_for s model name"
proof -
  assume n: "g_name g \<noteq> name"
  have "find (\<lambda>e. g_model e = k \<and> g_name e = name) (groups (add_group g s)) =
      find (\<lambda>e. g_model e = k \<and> g_name e = name) (groups s)" for k
    using n by (simp add: add_group_def) (rule find_replace_or_push; auto)
  then show ?thesis unfolding group_for_def by (simp only:)
qed

text \<open>After \<open>com2sec NAME SOURCE COMMUNITY\<close> an SNMPv2c request with the community belongs to the
  group NAME itself, and a later \<open>group GROUP MODEL NAME\<close> line, which is meant to put the
  security name into GROUP, does not change that.\<close>

lemma com2sec_bypasses_group:
  assumes "name \<noteq> community" and "\<not> starts_with name ''-''"
    and "d_args g = [grp, model_word, name]" and "d_args c = [name, src, community]"
  shows "group_for (apply_group g (apply_com2sec c s)) 2 (as_bytes community) = Some (as_bytes name)"
proof -
  have "group_for (apply_com2sec c s) 2 (as_bytes community) = Some (as_bytes name)"
    using assms(2,4) group_for_add_same [of "\<lparr>g_model = 2, g_name = as_bytes community, g_group = as_bytes name\<rparr>"]
    by (simp add: apply_com2sec_def)
  then show ?thesis
    using assms(1,3) by (simp add: apply_group_def group_for_add_other split: option.splits)
qed

end
