(* ===== verification/Snmp_Registry.thy ===== *)
theory Snmp_Registry
  imports Snmp_Table Snmp_Vacm
begin

text \<open>
  The MIB registry and the request dispatch (\<^verbatim>\<open>crates/netsnmp-agent/src/registry.rs\<close>):
  longest-prefix routing, GET, GETNEXT and GETBULK with and without access control, and the
  transaction of SET, over any handlers.  What the dispatch guarantees is proved from the
  reading contract of the handlers (locale \<^verbatim>\<open>mib_world\<close>) and instantiated at the handlers of
  this crate.
\<close>

section \<open>Security context\<close>

record security_context =
  security_model :: i32
  security_name :: byte_string
  security_level :: i32
  sec_context :: byte_string
  sec_vacm :: "vacm option"

definition permissive :: security_context where
  "permissive = \<lparr>security_model = 0, security_name = [], security_level = 0, sec_context = [],
                 sec_vacm = None\<rparr>"

definition allows :: "security_context \<Rightarrow> access_view \<Rightarrow> oid \<Rightarrow> bool" where
  "allows sec t o1 =
     (case sec_vacm sec of
        None \<Rightarrow> True
      | Some v \<Rightarrow> is_view_accessible v t (security_model sec) (security_name sec)
                    (security_level sec) (sec_context sec) o1)"

section \<open>Routing\<close>

type_synonym 's registry = "'s mib_handler list"

definition register :: "'s mib_handler \<Rightarrow> 's registry \<Rightarrow> 's registry" where
  "register h hs = sort_key h_root (hs @ [h])"

definition handler_for :: "'s registry \<Rightarrow> oid \<Rightarrow> 's mib_handler option" where
  "handler_for hs o1 =
     max_by_key (\<lambda>h. oid_len (h_root h)) (filter (\<lambda>h. is_prefix_of (h_root h) o1) hs)"

definition do_get :: "'s registry \<Rightarrow> oid \<Rightarrow> ('s, value) state" where
  "do_get hs o1 =
     (case handler_for hs o1 of
        Some h \<Rightarrow> do {
          r \<leftarrow> h_get h o1;
          State_Monad.return (case r of Some v \<Rightarrow> v | None \<Rightarrow> NoSuchInstance)
        }
      | None \<Rightarrow> State_Monad.return NoSuchObject)"

text \<open>The loop of \<open>do_get_next\<close>: the first handler that has a successor answers.\<close>

fun first_next :: "'s registry \<Rightarrow> oid \<Rightarrow> ('s, reading option) state" where
  "first_next [] o1 = State_Monad.return None"
| "first_next (h # hs) o1 = do {
     r \<leftarrow> h_get_next h o1;
     case r of Some rd \<Rightarrow> State_Monad.return (Some rd) | None \<Rightarrow> first_next hs o1
   }"

definition do_get_next :: "'s registry \<Rightarrow> oid \<Rightarrow> ('s, varbind) state" where
  "do_get_next hs o1 = do {
     r \<leftarrow> first_next hs o1;
     State_Monad.return (case r of Some (o2, v) \<Rightarrow> new_varbind o2 v
                                 | None \<Rightarrow> new_varbind o1 EndOfMibView)
   }"

text \<open>
  The loop of \<open>do_get_next_accessible\<close> from \<open>cursor\<close>.  The source bounds it by nothing but the
  progress of the handlers, so it has fuel, and \<^const>\<open>None\<close> is a loop that is still running.
\<close>

fun accessible_loop ::
  "nat \<Rightarrow> 's registry \<Rightarrow> security_context \<Rightarrow> oid \<Rightarrow> oid \<Rightarrow> ('s, varbind option) state" where
  "accessible_loop 0 hs sec last_accessible cursor = State_Monad.return None"
| "accessible_loop (Suc n) hs sec last_accessible cursor = do {
     next_vb \<leftarrow> do_get_next hs cursor;
     if vb_value next_vb = EndOfMibView then
       State_Monad.return (Some (new_varbind last_accessible EndOfMibView))
     else if allows sec ReadView (vb_oid next_vb) then State_Monad.return (Some next_vb)
     else if vb_oid next_vb \<le> cursor then
       State_Monad.return (Some (new_varbind last_accessible EndOfMibView))
     else accessible_loop n hs sec last_accessible (vb_oid next_vb)
   }"

definition do_get_next_accessible ::
  "nat \<Rightarrow> 's registry \<Rightarrow> security_context \<Rightarrow> oid \<Rightarrow> ('s, varbind option) state" where
  "do_get_next_accessible fuel hs sec o1 = accessible_loop fuel hs sec o1 o1"

section \<open>Requests\<close>

definition deny :: "pdu \<Rightarrow> nat \<Rightarrow> error_status \<Rightarrow> pdu \<Rightarrow> pdu" where
  "deny request idx status response =
     response\<lparr>error_status := status_code status, error_index := word_of_nat (idx + 1),
              variables := variables request\<rparr>"

fun get_loop ::
  "'s registry \<Rightarrow> security_context \<Rightarrow> pdu \<Rightarrow> nat \<Rightarrow> varbind list \<Rightarrow> pdu \<Rightarrow> ('s, pdu) state" where
  "get_loop hs sec request idx [] response = State_Monad.return response"
| "get_loop hs sec request idx (vb # vbs) response =
     (if \<not> allows sec ReadView (vb_oid vb)
      then State_Monad.return (deny request idx NoAccess response)
      else do {
        v \<leftarrow> do_get hs (vb_oid vb);
        get_loop hs sec request (idx + 1) vbs
          (response\<lparr>variables := variables response @ [new_varbind (vb_oid vb) v]\<rparr>)
      })"

text \<open>One \<open>fetch\<close> per OID, in order, stopping when one does not return.\<close>

fun fetch_all :: "(oid \<Rightarrow> ('s, varbind option) state) \<Rightarrow> oid list \<Rightarrow> ('s, varbind list option) state" where
  "fetch_all fetch [] = State_Monad.return (Some [])"
| "fetch_all fetch (o1 # os) = do {
     r \<leftarrow> fetch o1;
     case r of
       None \<Rightarrow> State_Monad.return None
     | Some vb \<Rightarrow> do { rs \<leftarrow> fetch_all fetch os; State_Monad.return (map_option ((#) vb) rs) }
   }"

text \<open>The repetition loop of GETBULK.\<close>

fun bulk_rounds ::
  "(oid \<Rightarrow> ('s, varbind option) state) \<Rightarrow> nat \<Rightarrow> oid list \<Rightarrow> ('s, varbind list option) state" where
  "bulk_rounds fetch 0 cursors = State_Monad.return (Some [])"
| "bulk_rounds fetch (Suc n) cursors = do {
     r \<leftarrow> fetch_all fetch cursors;
     case r of
       None \<Rightarrow> State_Monad.return None
     | Some vbs \<Rightarrow>
         if list_all (\<lambda>vb. vb_value vb = EndOfMibView) vbs then State_Monad.return (Some vbs)
         else do {
           rs \<leftarrow> bulk_rounds fetch n (map vb_oid vbs);
           State_Monad.return (map_option ((@) vbs) rs)
         }
   }"

definition bulk_with ::
  "(oid \<Rightarrow> ('s, varbind option) state) \<Rightarrow> pdu \<Rightarrow> pdu \<Rightarrow> ('s, pdu option) state" where
  "bulk_with fetch request response =
     (let nr = i64_max0_usize (non_repeaters request);
          max_reps = i64_max0_usize (max_repetitions request);
          vars = variables request
      in do {
        once \<leftarrow> fetch_all fetch (map vb_oid (take nr vars));
        case once of
          None \<Rightarrow> State_Monad.return None
        | Some vbs \<Rightarrow> do {
            reps \<leftarrow> bulk_rounds fetch max_reps (map vb_oid (drop nr vars));
            State_Monad.return
              (map_option (\<lambda>rs. response\<lparr>variables := variables response @ vbs @ rs\<rparr>) reps)
          }
      })"

definition process_bulk :: "'s registry \<Rightarrow> pdu \<Rightarrow> pdu \<Rightarrow> ('s, pdu option) state" where
  "process_bulk hs request response =
     bulk_with (\<lambda>o1. do { vb \<leftarrow> do_get_next hs o1; State_Monad.return (Some vb) }) request response"

definition process_bulk_accessible ::
  "nat \<Rightarrow> 's registry \<Rightarrow> security_context \<Rightarrow> pdu \<Rightarrow> pdu \<Rightarrow> ('s, pdu option) state" where
  "process_bulk_accessible fuel hs sec request response =
     bulk_with (do_get_next_accessible fuel hs sec) request response"

section \<open>SET\<close>

type_synonym 's plan = "'s mib_handler option \<times> varbind"

definition status_of :: "set_result \<Rightarrow> error_status" where
  "status_of r = (case r of Ok _ \<Rightarrow> NoError | Err e \<Rightarrow> e)"

text \<open>A reserve pass: the index and status of the first failure.\<close>

fun reserve :: "nat \<Rightarrow> 's plan list \<Rightarrow> ('s, (nat \<times> error_status) option) state" where
  "reserve idx [] = State_Monad.return None"
| "reserve idx ((h, vb) # plans) = do {
     status \<leftarrow> (case h of
        Some hdl \<Rightarrow> do { r \<leftarrow> h_prepare_set hdl (vb_oid vb) (vb_value vb); State_Monad.return (status_of r) }
      | None \<Rightarrow> State_Monad.return NotWritable);
     if \<not> status_is_ok status then State_Monad.return (Some (idx, status))
     else reserve (idx + 1) plans
   }"

definition note_failure :: "(nat \<times> error_status) option \<Rightarrow> nat \<Rightarrow> error_status \<Rightarrow> (nat \<times> error_status) option" where
  "note_failure failed idx e = (case failed of None \<Rightarrow> Some (idx, e) | Some f \<Rightarrow> Some f)"

fun commit_loop ::
  "nat \<Rightarrow> 's plan list \<Rightarrow> (nat \<times> error_status) option \<Rightarrow> nat list
     \<Rightarrow> ('s, (nat \<times> error_status) option \<times> nat list) state" where
  "commit_loop idx [] failed committed = State_Monad.return (failed, committed)"
| "commit_loop idx ((h, vb) # plans) failed committed =
     (case h of
        None \<Rightarrow> commit_loop (idx + 1) plans (note_failure failed idx NotWritable) committed
      | Some hdl \<Rightarrow> do {
          r \<leftarrow> h_commit_set hdl (vb_oid vb) (vb_value vb);
          case r of
            Ok _ \<Rightarrow> commit_loop (idx + 1) plans failed (committed @ [idx])
          | Err e \<Rightarrow> commit_loop (idx + 1) plans (note_failure failed idx e) committed
        })"

text \<open>Undo of the committed varbinds; the result tells whether some undo failed.\<close>

fun undo_loop :: "'s registry \<Rightarrow> 's plan list \<Rightarrow> nat list \<Rightarrow> bool \<Rightarrow> ('s, bool) state" where
  "undo_loop hs plans [] undo_failed = State_Monad.return undo_failed"
| "undo_loop hs plans (c # cs) undo_failed =
     (let vb = snd (plans ! c) in
      case handler_for hs (vb_oid vb) of
        None \<Rightarrow> undo_loop hs plans cs undo_failed
      | Some h \<Rightarrow> do {
          r \<leftarrow> h_undo_set h (vb_oid vb) (vb_value vb);
          undo_loop hs plans cs (undo_failed \<or> \<not> is_ok_result r)
        })"

definition process_set :: "'s registry \<Rightarrow> pdu \<Rightarrow> pdu \<Rightarrow> ('s, pdu) state" where
  "process_set hs request response =
     (let plans = map (\<lambda>vb. (handler_for hs (vb_oid vb), vb)) (variables request) in do {
        r1 \<leftarrow> reserve 0 plans;
        case r1 of
          Some (idx, status) \<Rightarrow> State_Monad.return (deny request idx status response)
        | None \<Rightarrow> do {
            r2 \<leftarrow> reserve 0 plans;
            case r2 of
              Some (idx, status) \<Rightarrow> State_Monad.return (deny request idx status response)
            | None \<Rightarrow> do {
                c \<leftarrow> commit_loop 0 plans None [];
                case c of
                  (Some (idx, status), committed) \<Rightarrow> do {
                    undo_failed \<leftarrow> undo_loop hs plans committed False;
                    State_Monad.return
                      (deny request idx (if undo_failed then UndoFailed else status) response)
                  }
                | (None, _) \<Rightarrow> State_Monad.return (response\<lparr>variables := variables request\<rparr>)
              }
          }
      })"

text \<open>The write check before a SET: the index of the first varbind outside the write view.\<close>

fun first_denied :: "security_context \<Rightarrow> nat \<Rightarrow> varbind list \<Rightarrow> nat option" where
  "first_denied sec idx [] = None"
| "first_denied sec idx (vb # vbs) =
     (if \<not> allows sec WriteView (vb_oid vb) then Some idx else first_denied sec (idx + 1) vbs)"

definition process_with_access ::
  "nat \<Rightarrow> 's registry \<Rightarrow> pdu \<Rightarrow> security_context \<Rightarrow> ('s, pdu option) state" where
  "process_with_access fuel hs request sec =
     (let response = new_pdu Response (request_id request) in
      case ptype request of
        Get \<Rightarrow> do {
          r \<leftarrow> get_loop hs sec request 0 (variables request) response;
          State_Monad.return (Some r)
        }
      | GetNext \<Rightarrow> do {
          vbs \<leftarrow> fetch_all (do_get_next_accessible fuel hs sec) (map vb_oid (variables request));
          State_Monad.return
            (map_option (\<lambda>vs. response\<lparr>variables := variables response @ vs\<rparr>) vbs)
        }
      | GetBulk \<Rightarrow>
          if sec_vacm sec = None then process_bulk hs request response
          else process_bulk_accessible fuel hs sec request response
      | Set \<Rightarrow>
          (case first_denied sec 0 (variables request) of
             Some idx \<Rightarrow> State_Monad.return (Some (deny request idx NoAccess response))
           | None \<Rightarrow> do {
               r \<leftarrow> process_set hs request response;
               State_Monad.return (Some r)
             })
      | _ \<Rightarrow> State_Monad.return (Some (response\<lparr>error_status := status_code GenErr\<rparr>)))"

definition process :: "nat \<Rightarrow> 's registry \<Rightarrow> pdu \<Rightarrow> ('s, pdu option) state" where
  "process fuel hs request = process_with_access fuel hs request permissive"

section \<open>Routing is longest-prefix\<close>

lemma register_sorted [simp]: "sorted (map h_root (register h hs))"
  by (simp add: register_def)

lemma set_register [simp]: "set (register h hs) = insert h (set hs)"
  by (simp add: register_def)

lemma handler_for_Some:
  assumes "handler_for hs o1 = Some h"
  shows "h \<in> set hs" "is_prefix_of (h_root h) o1"
    "\<And>h'. h' \<in> set hs \<Longrightarrow> is_prefix_of (h_root h') o1 \<Longrightarrow> oid_len (h_root h') \<le> oid_len (h_root h)"
  using max_by_key_in [OF assms [unfolded handler_for_def]]
    max_by_key_ge [OF assms [unfolded handler_for_def]] by auto

lemma handler_for_None: "handler_for hs o1 = None \<longleftrightarrow> (\<forall>h\<in>set hs. \<not> is_prefix_of (h_root h) o1)"
  by (simp add: handler_for_def filter_empty_conv)

section \<open>The contract of the registered handlers\<close>

text \<open>
  The handlers of a registry read the world \<open>'s\<close> without changing what any of them serves.
  \<open>cells s root\<close> is what the handler registered at \<open>root\<close> serves in the world \<open>s\<close>,
  and \<open>mib_value\<close> is what GET answers when the handlers serve \<open>c\<close>.
\<close>

definition mib_value :: "'s registry \<Rightarrow> (oid \<Rightarrow> oid \<Rightarrow> value option) \<Rightarrow> oid \<Rightarrow> value" where
  "mib_value hs c o1 =
     (case handler_for hs o1 of
        None \<Rightarrow> NoSuchObject
      | Some h \<Rightarrow> (case c (h_root h) o1 of None \<Rightarrow> NoSuchInstance | Some v \<Rightarrow> v))"

locale mib_world =
  fixes hs :: "'s registry"
    and invar :: "'s \<Rightarrow> bool"
    and cells :: "'s \<Rightarrow> oid \<Rightarrow> oid \<Rightarrow> value option"
  assumes get_world: "h \<in> set hs \<Longrightarrow> invar s \<Longrightarrow> run_state (h_get h o1) s = (r, s') \<Longrightarrow>
      r = cells s (h_root h) o1 \<and> invar s' \<and> cells s' = cells s"
    and next_world: "h \<in> set hs \<Longrightarrow> invar s \<Longrightarrow> run_state (h_get_next h o1) s = (n, s') \<Longrightarrow>
      is_next (cells s (h_root h)) o1 n \<and> invar s' \<and> cells s' = cells s"
    and finite_world: "h \<in> set hs \<Longrightarrow> invar s \<Longrightarrow> finite (dom (cells s (h_root h)))"
begin

lemma do_get_run:
  assumes "invar s" and "run_state (do_get hs o1) s = (v, s')"
  shows "v = mib_value hs (cells s) o1 \<and> invar s' \<and> cells s' = cells s"
proof (cases "handler_for hs o1")
  case None
  then show ?thesis using assms by (auto simp: do_get_def mib_value_def)
next
  case (Some h)
  obtain r t where r: "run_state (h_get h o1) s = (r, t)" by fastforce
  from get_world [OF handler_for_Some(1) [OF Some] assms(1) r] show ?thesis
    using assms(2) Some r by (auto simp: do_get_def mib_value_def)
qed

lemma get_loop_run:
  assumes "invar s" and "run_state (get_loop hs sec request idx vbs resp) s = (r, s')"
  shows "invar s' \<and> cells s' = cells s \<and>
    r = (if \<forall>vb\<in>set vbs. allows sec ReadView (vb_oid vb)
         then resp\<lparr>variables := variables resp @ map (\<lambda>vb. new_varbind (vb_oid vb) (mib_value hs (cells s) (vb_oid vb))) vbs\<rparr>
         else deny request
                (idx + length (takeWhile (\<lambda>vb. allows sec ReadView (vb_oid vb)) vbs)) NoAccess resp)"
  using assms
proof (induction vbs arbitrary: s idx resp)
  case Nil
  then show ?case by simp
next
  case (Cons vb vbs)
  show ?case
  proof (cases "allows sec ReadView (vb_oid vb)")
    case False
    then show ?thesis using Cons.prems by simp
  next
    case True
    obtain v t where v: "run_state (do_get hs (vb_oid vb)) s = (v, t)" by fastforce
    have t: "v = mib_value hs (cells s) (vb_oid vb)" "invar t" "cells t = cells s"
      using do_get_run [OF Cons.prems(1) v] by auto
    have "run_state (get_loop hs sec request (idx + 1) vbs
        (resp\<lparr>variables := variables resp @ [new_varbind (vb_oid vb) v]\<rparr>)) t = (r, s')"
      using Cons.prems(2) True v by simp
    from Cons.IH [OF t(2) this] show ?thesis
      using True t by (auto simp: deny_def)
  qed
qed

lemma first_next_run:
  assumes "set hs' \<subseteq> set hs" and "invar s" and "run_state (first_next hs' o1) s = (r, s')"
  shows "invar s' \<and> cells s' = cells s \<and>
    (case r of None \<Rightarrow> \<forall>h\<in>set hs'. is_next (cells s (h_root h)) o1 None
     | Some rd \<Rightarrow> \<exists>us h ws. hs' = us @ h # ws \<and> is_next (cells s (h_root h)) o1 (Some rd) \<and>
         (\<forall>u\<in>set us. is_next (cells s (h_root u)) o1 None))"
  using assms
proof (induction hs' arbitrary: s)
  case Nil
  then show ?case by simp
next
  case (Cons h hs')
  obtain n t where n: "run_state (h_get_next h o1) s = (n, t)" by fastforce
  have t: "is_next (cells s (h_root h)) o1 n" "invar t" "cells t = cells s"
    using next_world [OF _ Cons.prems(2) n] Cons.prems(1) by auto
  show ?case
  proof (cases n)
    case None
    then have "run_state (first_next hs' o1) t = (r, s')" using Cons.prems(3) n by simp
    from Cons.IH [OF _ t(2) this, unfolded t(3)] Cons.prems(1) have
      ih: "invar s' \<and> cells s' = cells s \<and>
        (case r of None \<Rightarrow> \<forall>h\<in>set hs'. is_next (cells s (h_root h)) o1 None
         | Some rd \<Rightarrow> \<exists>us h ws. hs' = us @ h # ws \<and> is_next (cells s (h_root h)) o1 (Some rd) \<and>
             (\<forall>u\<in>set us. is_next (cells s (h_root u)) o1 None))"
      by simp
    show ?thesis
    proof (cases r)
      case None
      then show ?thesis using ih t(1) \<open>n = None\<close> by simp
    next
      case (Some rd)
      then obtain us h' ws where "hs' = us @ h' # ws" "is_next (cells s (h_root h')) o1 (Some rd)"
          "\<forall>u\<in>set us. is_next (cells s (h_root u)) o1 None"
        using ih by auto
      then have "\<exists>us0 h0 ws0. h # hs' = us0 @ h0 # ws0 \<and> is_next (cells s (h_root h0)) o1 (Some rd) \<and>
          (\<forall>u\<in>set us0. is_next (cells s (h_root u)) o1 None)"
        using t(1) \<open>n = None\<close>
        by (intro exI [of _ "h # us"] exI [of _ h'] exI [of _ ws] conjI) auto
      then show ?thesis using ih Some by simp
    qed
  next
    case (Some rd)
    then have "r = Some rd" "s' = t" using Cons.prems(3) n by auto
    then show ?thesis using t Some by (auto intro!: exI [of _ "[]"])
  qed
qed

end

section \<open>Registries of disjoint subtrees\<close>

text \<open>The objects of the whole MIB: at each OID the one of the handler that is responsible.\<close>

definition merged :: "'s registry \<Rightarrow> (oid \<Rightarrow> oid \<Rightarrow> value option) \<Rightarrow> oid \<Rightarrow> value option" where
  "merged hs c o1 = (case handler_for hs o1 of None \<Rightarrow> None | Some h \<Rightarrow> c (h_root h) o1)"

lemma mib_value_merged:
  "mib_value hs c o1 =
     (case merged hs c o1 of Some v \<Rightarrow> v
      | None \<Rightarrow> if \<exists>h\<in>set hs. is_prefix_of (h_root h) o1 then NoSuchInstance else NoSuchObject)"
  using handler_for_None [of hs o1] by (auto simp: mib_value_def merged_def split: option.splits)

text \<open>The objects a caller may read, and what a GETNEXT varbind for \<open>o1\<close> has to be over the objects \<open>m\<close>.\<close>

definition visible :: "security_context \<Rightarrow> (oid \<Rightarrow> value option) \<Rightarrow> oid \<Rightarrow> value option" where
  "visible sec m o1 = (if allows sec ReadView o1 then m o1 else None)"

definition answers_next :: "(oid \<Rightarrow> value option) \<Rightarrow> oid \<Rightarrow> varbind \<Rightarrow> bool" where
  "answers_next m o1 vb \<longleftrightarrow>
     (if vb_value vb = EndOfMibView then vb_oid vb = o1 \<and> is_next m o1 None
      else is_next m o1 (Some (vb_oid vb, vb_value vb)))"

text \<open>What the repetitions of a GETBULK have to be: rows of successors, each row continuing from the
  one before, up to \<open>n\<close> rows or the row that is past the end everywhere.\<close>

fun answers_bulk :: "(oid \<Rightarrow> value option) \<Rightarrow> nat \<Rightarrow> oid list \<Rightarrow> varbind list \<Rightarrow> bool" where
  "answers_bulk m 0 cursors vbs \<longleftrightarrow> vbs = []"
| "answers_bulk m (Suc n) cursors vbs \<longleftrightarrow>
     (\<exists>row rest. vbs = row @ rest \<and> list_all2 (answers_next m) cursors row \<and>
        (if list_all (\<lambda>vb. vb_value vb = EndOfMibView) row then rest = []
         else answers_bulk m n (map vb_oid row) rest))"

lemma dom_visible: "dom (visible sec m) = {o1 \<in> dom m. allows sec ReadView o1}"
  by (auto simp: visible_def split: if_splits)

lemma answers_next_unique: "answers_next m o1 a \<Longrightarrow> answers_next m o1 b \<Longrightarrow> a = b"
proof -
  assume a: "answers_next m o1 a" and b: "answers_next m o1 b"
  let ?r = "\<lambda>vb. if vb_value vb = EndOfMibView then None else Some (vb_oid vb, vb_value vb)"
  have "is_next m o1 (?r a)" "is_next m o1 (?r b)"
    using a b unfolding answers_next_def by (simp_all split: if_splits)
  then have "?r a = ?r b" by (rule is_next_unique)
  then show "a = b" using a b by (simp add: answers_next_def split: if_splits)
qed

lemma list_all2_functional:
  "list_all2 R xs ys \<Longrightarrow> list_all2 R xs zs \<Longrightarrow> (\<And>x y z. R x y \<Longrightarrow> R x z \<Longrightarrow> y = z) \<Longrightarrow> ys = zs"
  by (induction xs arbitrary: ys zs) (auto simp: list_all2_Cons1)

lemma answers_bulk_unique: "answers_bulk m n cursors a \<Longrightarrow> answers_bulk m n cursors b \<Longrightarrow> a = b"
proof (induction n arbitrary: cursors a b)
  case 0
  then show ?case by simp
next
  case (Suc n)
  obtain row rest where a: "a = row @ rest" "list_all2 (answers_next m) cursors row"
      "if list_all (\<lambda>vb. vb_value vb = EndOfMibView) row then rest = [] else answers_bulk m n (map vb_oid row) rest"
    using Suc.prems(1) by auto
  obtain row' rest' where b: "b = row' @ rest'" "list_all2 (answers_next m) cursors row'"
      "if list_all (\<lambda>vb. vb_value vb = EndOfMibView) row' then rest' = [] else answers_bulk m n (map vb_oid row') rest'"
    using Suc.prems(2) by auto
  have "row = row'" using list_all2_functional [OF a(2) b(2)] answers_next_unique by blast
  then show ?case using a b Suc.IH [of "map vb_oid row" rest rest'] by (auto split: if_splits)
qed

lemma answers_bulk_bound: "answers_bulk m n cursors vbs \<Longrightarrow> length vbs \<le> n * length cursors"
proof (induction n arbitrary: cursors vbs)
  case 0
  then show ?case by simp
next
  case (Suc n)
  then obtain row rest where r: "vbs = row @ rest" "list_all2 (answers_next m) cursors row"
      "if list_all (\<lambda>vb. vb_value vb = EndOfMibView) row then rest = [] else answers_bulk m n (map vb_oid row) rest"
    by auto
  have "length row = length cursors" using r(2) by (simp add: list_all2_lengthD)
  moreover have "length rest \<le> n * length (map vb_oid row)"
    using r(3) Suc.IH [of "map vb_oid row" rest] by (auto split: if_splits)
  ultimately show ?case by (simp add: r(1))
qed

locale disjoint_world = mib_world +
  assumes sorted_roots: "sorted (map h_root hs)"
    and disjoint_roots: "invar s \<Longrightarrow> h \<in> set hs \<Longrightarrow> h' \<in> set hs \<Longrightarrow> is_prefix_of (h_root h) (h_root h') \<Longrightarrow>
      h_root h = h_root h'"
    and under_root: "h \<in> set hs \<Longrightarrow> invar s \<Longrightarrow> cells s (h_root h) o1 = Some v \<Longrightarrow>
      is_prefix_of (h_root h) o1 \<and> v \<noteq> EndOfMibView"
begin

lemma merged_iff:
  assumes "invar s"
  shows "merged hs (cells s) o1 = Some v \<longleftrightarrow> (\<exists>h\<in>set hs. cells s (h_root h) o1 = Some v)"
proof
  assume "merged hs (cells s) o1 = Some v"
  then show "\<exists>h\<in>set hs. cells s (h_root h) o1 = Some v"
    using handler_for_Some(1) by (auto simp: merged_def split: option.splits)
next
  assume "\<exists>h\<in>set hs. cells s (h_root h) o1 = Some v"
  then obtain h where h: "h \<in> set hs" "cells s (h_root h) o1 = Some v" by blast
  then have p: "is_prefix_of (h_root h) o1" using under_root [OF _ assms] by blast
  then obtain h' where h': "handler_for hs o1 = Some h'" using h(1) handler_for_None by fastforce
  have "h_root h' = h_root h"
    using is_prefix_of_comparable [OF p handler_for_Some(2) [OF h']] disjoint_roots [OF assms] h(1)
      handler_for_Some(1) [OF h'] by metis
  then show "merged hs (cells s) o1 = Some v" using h(2) h' by (simp add: merged_def)
qed

lemma dom_merged: "invar s \<Longrightarrow> dom (merged hs (cells s)) = (\<Union>h\<in>set hs. dom (cells s (h_root h)))"
  using merged_iff by (auto simp: dom_def)

lemma finite_merged: "invar s \<Longrightarrow> finite (dom (merged hs (cells s)))"
  by (simp add: dom_merged finite_world)

lemma merged_no_end: "invar s \<Longrightarrow> merged hs (cells s) o1 \<noteq> Some EndOfMibView"
  using merged_iff under_root by blast

lemma first_next_merged:
  assumes "invar s" and "run_state (first_next hs o1) s = (r, s')"
  shows "is_next (merged hs (cells s)) o1 r \<and> invar s' \<and> cells s' = cells s"
proof (cases r)
  case None
  then show ?thesis using first_next_run [OF subset_refl assms] by (auto simp: dom_merged [OF assms(1)])
next
  case (Some rd)
  obtain o2 v where rd: "rd = (o2, v)" by (cases rd)
  obtain us h ws where hs: "hs = us @ h # ws" and n: "is_next (cells s (h_root h)) o1 (Some (o2, v))"
    and us: "\<And>u. u \<in> set us \<Longrightarrow> is_next (cells s (h_root u)) o1 None"
    using first_next_run [OF subset_refl assms] Some rd by auto
  have h: "h \<in> set hs" using hs by simp
  have least: "o2 \<le> j" if k: "k \<in> set hs" "j \<in> dom (cells s (h_root k))" and j: "o1 < j" for k j
  proof (cases "h_root k = h_root h")
    case True
    then show ?thesis using n k(2) j by simp
  next
    case False
    have "k \<notin> set us" using us [of k] k(2) j by (metis is_next_None leD)
    then have "k \<in> set ws" using k(1) hs False by auto
    then have "h_root h < h_root k"
      using sorted_roots hs False by (auto simp: sorted_append less_le)
    moreover have "\<not> is_prefix_of (h_root h) (h_root k)" using disjoint_roots [OF assms(1) h k(1)] False by auto
    moreover have "is_prefix_of (h_root h) o2" using under_root [OF h assms(1)] n by auto
    moreover have "is_prefix_of (h_root k) j" using under_root [OF k(1) assms(1)] k(2) by blast
    ultimately have "o2 < j" by (rule disjoint_subtrees_ordered)
    then show ?thesis by simp
  qed
  have "merged hs (cells s) o2 = Some v" using merged_iff [OF assms(1)] h n by auto
  then show ?thesis
    using first_next_run [OF subset_refl assms] least n Some rd by (auto simp: dom_merged [OF assms(1)])
qed

text \<open>The answer of a GETNEXT varbind, as the successor it stands for.\<close>

lemma do_get_next_run:
  assumes "invar s" and "run_state (do_get_next hs o1) s = (vb, s')"
  shows "invar s' \<and> cells s' = cells s \<and> answers_next (merged hs (cells s)) o1 vb"
proof -
  obtain r t where r: "run_state (first_next hs o1) s = (r, t)" by fastforce
  have n: "is_next (merged hs (cells s)) o1 r" "invar t" "cells t = cells s"
    using first_next_merged [OF assms(1) r] by auto
  show ?thesis
  proof (cases r)
    case None
    then show ?thesis using assms(2) r n by (auto simp: do_get_next_def answers_next_def)
  next
    case (Some rd)
    obtain o2 v where rd: "rd = (o2, v)" by (cases rd)
    then have "v \<noteq> EndOfMibView" using n(1) Some merged_no_end [OF assms(1), of o2] by auto
    then show ?thesis using assms(2) r n rd Some by (auto simp: do_get_next_def answers_next_def)
  qed
qed

lemma accessible_loop_run:
  assumes "invar s" and "run_state (accessible_loop n hs sec start cursor) s = (r, s')"
    and "card {o1 \<in> dom (merged hs (cells s)). cursor < o1} < n"
    and "start \<le> cursor" and "\<forall>j \<in> dom (visible sec (merged hs (cells s))). start < j \<longrightarrow> cursor < j"
  shows "invar s' \<and> cells s' = cells s \<and>
    (\<exists>vb. r = Some vb \<and> answers_next (visible sec (merged hs (cells s))) start vb)"
  using assms
proof (induction n arbitrary: s cursor)
  case 0
  then show ?case by simp
next
  case (Suc n)
  let ?m = "merged hs (cells s)"
  obtain vb t where vb: "run_state (do_get_next hs cursor) s = (vb, t)" by fastforce
  have t: "invar t" "cells t = cells s" "answers_next ?m cursor vb"
    using do_get_next_run [OF Suc.prems(1) vb] by auto
  consider (finished) "vb_value vb = EndOfMibView" | (ok) "vb_value vb \<noteq> EndOfMibView" "allows sec ReadView (vb_oid vb)"
    | (skip) "vb_value vb \<noteq> EndOfMibView" "\<not> allows sec ReadView (vb_oid vb)" by blast
  then show ?case
  proof cases
    case finished
    then have "is_next ?m cursor None" using t(3) by (simp add: answers_next_def)
    then have "answers_next (visible sec ?m) start (new_varbind start EndOfMibView)"
      using Suc.prems(5) by (auto simp: answers_next_def dom_visible) (metis domI leD leI)
    then show ?thesis using Suc.prems(2) vb finished t by auto
  next
    case ok
    then have "is_next ?m cursor (Some (vb_oid vb, vb_value vb))" using t(3) by (simp add: answers_next_def)
    then have "answers_next (visible sec ?m) start vb"
      using ok Suc.prems(4,5) visible_def [of sec ?m "vb_oid vb"] by (auto simp: answers_next_def dom_visible)
    then show ?thesis using Suc.prems(2) vb ok t by auto
  next
    case skip
    then have n: "is_next ?m cursor (Some (vb_oid vb, vb_value vb))" using t(3) by (simp add: answers_next_def)
    then have lt: "cursor < vb_oid vb" by simp
    have run: "run_state (accessible_loop n hs sec start (vb_oid vb)) t = (r, s')"
      using Suc.prems(2) vb skip lt [unfolded not_le [symmetric]] by simp
    have "{o1 \<in> dom ?m. vb_oid vb < o1} \<subset> {o1 \<in> dom ?m. cursor < o1}" using n by auto
    then have "card {o1 \<in> dom ?m. vb_oid vb < o1} < card {o1 \<in> dom ?m. cursor < o1}"
      by (rule psubset_card_mono [rotated]) (simp add: finite_merged Suc.prems(1))
    moreover have "\<forall>j \<in> dom (visible sec ?m). start < j \<longrightarrow> vb_oid vb < j"
    proof (intro ballI impI)
      fix j assume j: "j \<in> dom (visible sec ?m)" "start < j"
      then have "cursor < j" "j \<in> dom ?m" "allows sec ReadView j" using Suc.prems(5) by (auto simp: dom_visible)
      then show "vb_oid vb < j" using n skip(2) by (auto simp: less_le)
    qed
    ultimately show ?thesis
      using Suc.IH [OF t(1) run] Suc.prems(3,4) lt t(2) by simp
  qed
qed

text \<open>Enough fuel for every request: one more than the number of objects.\<close>

lemma do_get_next_accessible_run:
  assumes "invar s" and "run_state (do_get_next_accessible fuel hs sec o1) s = (r, s')"
    and "card (dom (merged hs (cells s))) < fuel"
  shows "invar s' \<and> cells s' = cells s \<and>
    (\<exists>vb. r = Some vb \<and> answers_next (visible sec (merged hs (cells s))) o1 vb)"
proof -
  have "card {o2 \<in> dom (merged hs (cells s)). o1 < o2} \<le> card (dom (merged hs (cells s)))"
    by (rule card_mono) (auto simp: finite_merged assms(1))
  then show ?thesis
    using accessible_loop_run [OF assms(1), of fuel sec o1 o1 r s'] assms(2,3)
    by (simp add: do_get_next_accessible_def)
qed

text \<open>Any \<open>fetch\<close> that answers the successors over \<open>m\<close> gives the rows over \<open>m\<close>.\<close>

definition fetches ::
  "(oid \<Rightarrow> oid \<Rightarrow> value option) \<Rightarrow> (oid \<Rightarrow> value option) \<Rightarrow> (oid \<Rightarrow> ('a, varbind option) state) \<Rightarrow> bool" where
  "fetches c m fetch \<longleftrightarrow>
     (\<forall>t o1 r t'. invar t \<longrightarrow> cells t = c \<longrightarrow> run_state (fetch o1) t = (r, t') \<longrightarrow>
        invar t' \<and> cells t' = c \<and> (\<exists>vb. r = Some vb \<and> answers_next m o1 vb))"

lemma fetchesD: "fetches c m fetch \<Longrightarrow> invar t \<Longrightarrow> cells t = c \<Longrightarrow> run_state (fetch o1) t = (r, t') \<Longrightarrow>
    invar t' \<and> cells t' = c \<and> (\<exists>vb. r = Some vb \<and> answers_next m o1 vb)"
  unfolding fetches_def by blast

lemma fetches_plain:
  "fetches (cells s) (merged hs (cells s)) (\<lambda>o1. do { vb \<leftarrow> do_get_next hs o1; State_Monad.return (Some vb) })"
  unfolding fetches_def
proof (intro allI impI)
  fix t o1 r t'
  assume t: "invar t" "cells t = cells s"
    and run: "run_state (do { vb \<leftarrow> do_get_next hs o1; State_Monad.return (Some vb) }) t = (r, t')"
  obtain vb u where vb: "run_state (do_get_next hs o1) t = (vb, u)" by fastforce
  then have "r = Some vb" "t' = u" using run by auto
  then show "invar t' \<and> cells t' = cells s \<and> (\<exists>vb. r = Some vb \<and> answers_next (merged hs (cells s)) o1 vb)"
    using do_get_next_run [OF t(1) vb] t(2) by simp
qed

lemma fetches_accessible:
  "card (dom (merged hs (cells s))) < fuel \<Longrightarrow>
     fetches (cells s) (visible sec (merged hs (cells s))) (do_get_next_accessible fuel hs sec)"
  unfolding fetches_def by (intro allI impI) (metis do_get_next_accessible_run)

lemma fetch_all_run:
  assumes fetch: "fetches c m fetch"
    and "invar s" and "cells s = c" and "run_state (fetch_all fetch os) s = (r, s')"
  shows "invar s' \<and> cells s' = c \<and> (\<exists>vbs. r = Some vbs \<and> list_all2 (answers_next m) os vbs)"
  using assms(2-)
proof (induction os arbitrary: s s' r)
  case Nil
  then show ?case by simp
next
  case (Cons o1 os)
  obtain x t where x: "run_state (fetch o1) s = (x, t)" by fastforce
  obtain vb where vb: "x = Some vb" "answers_next m o1 vb" "invar t" "cells t = c"
    using fetchesD [OF fetch Cons.prems(1,2) x] by auto
  obtain y u where y: "run_state (fetch_all fetch os) t = (y, u)" by fastforce
  show ?case using Cons.IH [OF vb(3,4) y] Cons.prems(3) x vb y by auto
qed

lemma bulk_rounds_run:
  assumes fetch: "fetches c m fetch"
    and "invar s" and "cells s = c" and "run_state (bulk_rounds fetch n os) s = (r, s')"
  shows "invar s' \<and> cells s' = c \<and> (\<exists>vbs. r = Some vbs \<and> answers_bulk m n os vbs)"
  using assms(2-)
proof (induction n arbitrary: s s' r os)
  case 0
  then show ?case by simp
next
  case (Suc n)
  obtain x t where x: "run_state (fetch_all fetch os) s = (x, t)" by fastforce
  obtain row where row: "x = Some row" "list_all2 (answers_next m) os row" "invar t" "cells t = c"
    using fetch_all_run [OF fetch Suc.prems(1,2) x] by auto
  show ?case
  proof (cases "list_all (\<lambda>vb. vb_value vb = EndOfMibView) row")
    case True
    then show ?thesis using Suc.prems(3) x row by auto
  next
    case False
    obtain y u where y: "run_state (bulk_rounds fetch n (map vb_oid row)) t = (y, u)" by fastforce
    show ?thesis using Suc.IH [OF row(3,4) y] Suc.prems(3) x row y False by auto
  qed
qed

lemma bulk_with_run:
  assumes fetch: "fetches c m fetch"
    and "invar s" and "cells s = c" and "run_state (bulk_with fetch request resp) s = (r, s')"
  shows "invar s' \<and> cells s' = c \<and>
    (\<exists>once reps. r = Some (resp\<lparr>variables := variables resp @ once @ reps\<rparr>) \<and>
       list_all2 (answers_next m) (map vb_oid (take (i64_max0_usize (non_repeaters request)) (variables request))) once \<and>
       answers_bulk m (i64_max0_usize (max_repetitions request))
         (map vb_oid (drop (i64_max0_usize (non_repeaters request)) (variables request))) reps)"
proof -
  let ?nr = "i64_max0_usize (non_repeaters request)" and ?mr = "i64_max0_usize (max_repetitions request)"
  obtain x t where x: "run_state (fetch_all fetch (map vb_oid (take ?nr (variables request)))) s = (x, t)" by fastforce
  obtain once where o1: "x = Some once" "invar t" "cells t = c"
      "list_all2 (answers_next m) (map vb_oid (take ?nr (variables request))) once"
    using fetch_all_run [OF fetch assms(2,3) x] by auto
  obtain y u where y: "run_state (bulk_rounds fetch ?mr (map vb_oid (drop ?nr (variables request)))) t = (y, u)" by fastforce
  from bulk_rounds_run [OF fetch o1(2,3) y] show ?thesis
    using assms(4) x o1 y by (auto simp: bulk_with_def Let_def)
qed

text \<open>The reading requests, answered whole.\<close>

lemma process_get_run:
  assumes "invar s" and "ptype request = Get" and "run_state (process_with_access fuel hs request sec) s = (r, s')"
  shows "invar s' \<and> cells s' = cells s \<and> r = Some
    (if \<forall>vb\<in>set (variables request). allows sec ReadView (vb_oid vb)
     then (new_pdu Response (request_id request))
            \<lparr>variables := map (\<lambda>vb. new_varbind (vb_oid vb) (mib_value hs (cells s) (vb_oid vb))) (variables request)\<rparr>
     else deny request
            (length (takeWhile (\<lambda>vb. allows sec ReadView (vb_oid vb)) (variables request))) NoAccess
            (new_pdu Response (request_id request)))"
proof -
  obtain x t where x: "run_state (get_loop hs sec request 0 (variables request)
      (new_pdu Response (request_id request))) s = (x, t)" by fastforce
  then have "r = Some x" "s' = t" using assms(2,3) by (auto simp: process_with_access_def Let_def)
  then show ?thesis using get_loop_run [OF assms(1) x] by (simp del: split_paired_All)
qed

lemma process_next_run:
  assumes "invar s" and "ptype request = GetNext" and "card (dom (merged hs (cells s))) < fuel"
    and "run_state (process_with_access fuel hs request sec) s = (r, s')"
  shows "invar s' \<and> cells s' = cells s \<and>
    (\<exists>vbs. r = Some ((new_pdu Response (request_id request))\<lparr>variables := vbs\<rparr>) \<and>
       list_all2 (\<lambda>vb. answers_next (visible sec (merged hs (cells s))) (vb_oid vb)) (variables request) vbs)"
proof -
  obtain x t where x: "run_state (fetch_all (do_get_next_accessible fuel hs sec) (map vb_oid (variables request))) s
      = (x, t)" by fastforce
  from fetch_all_run [OF fetches_accessible [OF assms(3)] assms(1) refl x] show ?thesis
    using assms(2,4) x by (auto simp: process_with_access_def Let_def list.rel_map)
qed

lemma visible_permissive: "sec_vacm sec = None \<Longrightarrow> visible sec m = m"
  by (simp add: visible_def allows_def fun_eq_iff)

lemma process_bulk_run:
  assumes "invar s" and "ptype request = GetBulk" and "card (dom (merged hs (cells s))) < fuel"
    and "run_state (process_with_access fuel hs request sec) s = (r, s')"
  shows "invar s' \<and> cells s' = cells s \<and>
    (\<exists>once reps. r = Some ((new_pdu Response (request_id request))\<lparr>variables := once @ reps\<rparr>) \<and>
       list_all2 (answers_next (visible sec (merged hs (cells s))))
         (map vb_oid (take (i64_max0_usize (non_repeaters request)) (variables request))) once \<and>
       answers_bulk (visible sec (merged hs (cells s))) (i64_max0_usize (max_repetitions request))
         (map vb_oid (drop (i64_max0_usize (non_repeaters request)) (variables request))) reps)"
proof (cases "sec_vacm sec = None")
  case True
  then have "run_state (bulk_with (\<lambda>o1. do { vb \<leftarrow> do_get_next hs o1; State_Monad.return (Some vb) }) request
      (new_pdu Response (request_id request))) s = (r, s')"
    using assms(2,4) by (simp add: process_with_access_def process_bulk_def Let_def)
  from bulk_with_run [OF fetches_plain assms(1) refl this] show ?thesis
    by (simp add: visible_permissive True)
next
  case False
  then have "run_state (bulk_with (do_get_next_accessible fuel hs sec) request
      (new_pdu Response (request_id request))) s = (r, s')"
    using assms(2,4) by (auto simp: process_with_access_def process_bulk_accessible_def Let_def)
  from bulk_with_run [OF fetches_accessible [OF assms(3)] assms(1) refl this] show ?thesis
    by simp
qed

end

section \<open>The transaction of SET\<close>

text \<open>The status a varbind gets when it is reserved in \<open>s\<close>.\<close>

definition plan_status :: "'s \<Rightarrow> 's plan \<Rightarrow> error_status" where
  "plan_status s p =
     (case fst p of
        None \<Rightarrow> NotWritable
      | Some h \<Rightarrow> status_of (fst (run_state (h_prepare_set h (vb_oid (snd p)) (vb_value (snd p))) s)))"

definition plans_of :: "'s registry \<Rightarrow> varbind list \<Rightarrow> 's plan list" where
  "plans_of hs vbs = map (\<lambda>vb. (handler_for hs (vb_oid vb), vb)) vbs"

lemma length_plans_of [simp]: "length (plans_of hs vbs) = length vbs"
  by (simp add: plans_of_def)

text \<open>Handlers whose reserve phase changes nothing.\<close>

locale reserving_world =
  fixes hs :: "'s registry" and invar :: "'s \<Rightarrow> bool"
  assumes prepare_same: "h \<in> set hs \<Longrightarrow> invar s \<Longrightarrow> run_state (h_prepare_set h o1 v) s = (r, s') \<Longrightarrow> s' = s"
begin

lemma reserve_run:
  assumes "invar s" and "\<forall>p\<in>set plans. \<forall>h. fst p = Some h \<longrightarrow> h \<in> set hs"
  shows "run_state (reserve idx plans) s =
    (let k = length (takeWhile (\<lambda>p. plan_status s p = NoError) plans) in
     (if k = length plans then None else Some (idx + k, plan_status s (plans ! k))), s)"
  using assms(2)
proof (induction plans arbitrary: idx)
  case Nil
  then show ?case by simp
next
  case (Cons p plans)
  obtain h vb where p: "p = (h, vb)" by (cases p)
  have st: "run_state (case h of
        Some hdl \<Rightarrow> do { r \<leftarrow> h_prepare_set hdl (vb_oid vb) (vb_value vb); State_Monad.return (status_of r) }
      | None \<Rightarrow> State_Monad.return NotWritable) s = (plan_status s p, s)"
  proof (cases h)
    case None
    then show ?thesis by (simp add: p plan_status_def)
  next
    case (Some h')
    obtain r t where r: "run_state (h_prepare_set h' (vb_oid vb) (vb_value vb)) s = (r, t)" by fastforce
    then have "t = s" using prepare_same [OF _ assms(1) r] Cons.prems p Some by simp
    then show ?thesis using r by (simp add: p plan_status_def Some)
  qed
  show ?case
  proof (cases "plan_status s p = NoError")
    case True
    then show ?thesis using st Cons.IH [of "idx + 1"] Cons.prems by (simp add: p Let_def)
  next
    case False
    then show ?thesis using st by (simp add: p)
  qed
qed

lemma plans_of_handlers: "\<forall>p\<in>set (plans_of hs vbs). \<forall>h. fst p = Some h \<longrightarrow> h \<in> set hs"
  by (auto simp: plans_of_def dest: handler_for_Some(1))

text \<open>A SET that is refused at reserve time changes nothing and names the first offender.\<close>

lemma process_set_refused:
  assumes "invar s" and "k < length (variables request)"
    and "plan_status s (plans_of hs (variables request) ! k) = st" and "st \<noteq> NoError"
    and "\<forall>i<k. plan_status s (plans_of hs (variables request) ! i) = NoError"
  shows "run_state (process_set hs request resp) s = (deny request k st resp, s)"
proof -
  let ?ps = "plans_of hs (variables request)"
  have "takeWhile (\<lambda>p. plan_status s p = NoError) ?ps = take k ?ps"
    using assms(2-5) by (intro takeWhile_eq_take_P_nth) auto
  then have "run_state (reserve 0 ?ps) s = (Some (k, st), s)"
    using reserve_run [OF assms(1) plans_of_handlers [of "variables request"], of 0] assms(2,3) by simp
  then show ?thesis by (simp add: process_set_def plans_of_def Let_def)
qed

lemma reserve_passes:
  assumes "invar s" and "\<forall>p\<in>set (plans_of hs vbs). plan_status s p = NoError"
  shows "run_state (reserve 0 (plans_of hs vbs)) s = (None, s)"
proof -
  have "takeWhile (\<lambda>p. plan_status s p = NoError) (plans_of hs vbs) = plans_of hs vbs"
    using assms(2) by (simp add: takeWhile_eq_all_conv)
  note tw = this
  show ?thesis
    using reserve_run [OF assms(1) plans_of_handlers [of vbs], of 0] unfolding tw by simp
qed

end

text \<open>Handlers that, beyond that, commit what they reserved, and keep every other reservation.\<close>

locale settable_world = mib_world + reserving_world hs invar +
  assumes commit_prepared: "h \<in> set hs \<Longrightarrow> invar s \<Longrightarrow>
      status_of (fst (run_state (h_prepare_set h o1 v) s)) = NoError \<Longrightarrow>
      run_state (h_commit_set h o1 v) s = (r, s') \<Longrightarrow>
      r = Ok () \<and> invar s' \<and> cells s' = (cells s)(h_root h := (cells s (h_root h))(o1 \<mapsto> v))"
    and prepared_stays: "h \<in> set hs \<Longrightarrow> h' \<in> set hs \<Longrightarrow> invar s \<Longrightarrow>
      status_of (fst (run_state (h_prepare_set h o1 v) s)) = NoError \<Longrightarrow>
      status_of (fst (run_state (h_prepare_set h' o2 v2) s)) = NoError \<Longrightarrow>
      run_state (h_commit_set h o1 v) s = (r, s') \<Longrightarrow>
      status_of (fst (run_state (h_prepare_set h' o2 v2) s')) = NoError"
begin

lemma merged_upd:
  "handler_for hs o1 = Some h \<Longrightarrow>
     merged hs (c(h_root h := (c (h_root h))(o1 \<mapsto> v))) = (merged hs c)(o1 \<mapsto> v)"
  by (auto simp: merged_def fun_eq_iff split: option.splits)

lemma commit_loop_run:
  assumes "invar s" and "\<forall>p\<in>set (plans_of hs vbs). plan_status s p = NoError"
    and "run_state (commit_loop idx (plans_of hs vbs) None committed) s = (r, s')"
  shows "fst r = None \<and> invar s' \<and>
    merged hs (cells s') = foldl (\<lambda>m vb. m(vb_oid vb \<mapsto> vb_value vb)) (merged hs (cells s)) vbs"
  using assms
proof (induction vbs arbitrary: s idx committed)
  case Nil
  then show ?case by (auto simp: plans_of_def)
next
  case (Cons vb vbs)
  have st: "plan_status s (handler_for hs (vb_oid vb), vb) = NoError" using Cons.prems(2) by (simp add: plans_of_def)
  then obtain h where h: "handler_for hs (vb_oid vb) = Some h" by (cases "handler_for hs (vb_oid vb)") (auto simp: plan_status_def)
  note hin = handler_for_Some(1) [OF h]
  have pre: "status_of (fst (run_state (h_prepare_set h (vb_oid vb) (vb_value vb)) s)) = NoError"
    using st h by (simp add: plan_status_def)
  obtain x t where x: "run_state (h_commit_set h (vb_oid vb) (vb_value vb)) s = (x, t)" by fastforce
  note c = commit_prepared [OF hin Cons.prems(1) pre x]
  have stays: "\<forall>p\<in>set (plans_of hs vbs). plan_status t p = NoError"
  proof
    fix p assume "p \<in> set (plans_of hs vbs)"
    then obtain w where w: "p = (handler_for hs (vb_oid w), w)" "plan_status s p = NoError"
      using Cons.prems(2) by (auto simp: plans_of_def)
    then obtain h' where h': "handler_for hs (vb_oid w) = Some h'"
      by (cases "handler_for hs (vb_oid w)") (auto simp: plan_status_def)
    then show "plan_status t p = NoError"
      using prepared_stays [OF hin handler_for_Some(1) [OF h'] Cons.prems(1) pre _ x] w
      by (simp add: plan_status_def)
  qed
  have run: "run_state (commit_loop (idx + 1) (plans_of hs vbs) None (committed @ [idx])) t = (r, s')"
    using Cons.prems(3) h x c by (auto simp: plans_of_def)
  have mt: "merged hs (cells t) = (merged hs (cells s))(vb_oid vb \<mapsto> vb_value vb)"
    using c merged_upd [OF h] by simp
  show ?case using Cons.IH [OF _ stays run] c unfolding mt foldl.simps by blast
qed

lemma process_set_accepted:
  assumes "invar s" and "\<forall>p\<in>set (plans_of hs (variables request)). plan_status s p = NoError"
    and "run_state (process_set hs request resp) s = (r, s')"
  shows "r = resp\<lparr>variables := variables request\<rparr> \<and> invar s' \<and>
    merged hs (cells s') = foldl (\<lambda>m vb. m(vb_oid vb \<mapsto> vb_value vb)) (merged hs (cells s)) (variables request)"
proof -
  obtain x t where x: "run_state (commit_loop 0 (plans_of hs (variables request)) None []) s = (x, t)" by fastforce
  note c = commit_loop_run [OF assms(1,2) x]
  then obtain cs where "x = (None, cs)" by (cases x) auto
  then show ?thesis
    using c assms(3) x reserve_passes [OF assms(1,2)] by (auto simp: process_set_def plans_of_def Let_def)
qed

end

end
