(* ===== verification/Snmp_Agent.thy ===== *)
theory Snmp_Agent
  imports Snmp_V3 Snmp_Registry
begin

text \<open>
  The agent's datagram handler (\<^verbatim>\<open>crates/netsnmp-agent/src/agent.rs\<close>): version dispatch, the community
  path, and the authoritative side of the user-based security model (discovery, user lookup,
  verification, time window, reports), each ending in the request dispatch of \<^verbatim>\<open>Snmp_Registry\<close>.  The
  socket loop \<open>serve_on\<close> is the sequence of datagrams it is given.
\<close>

section \<open>The agent\<close>

record 's agent =
  ag_registry :: "'s registry"
  ag_community :: "u8 list"
  ag_engine_id :: "u8 list"
  ag_engine_boots :: u32
  ag_users :: "usm_user list"
  ag_vacm :: vacm

record 's agent_state =
  as_usm_stats :: u32
  as_world :: 's

definition default_engine_id :: "u8 list" where
  "default_engine_id = [0x80, 0x00, 0x1f, 0x88, 0x04, 114, 115, 0x00, 0x01]"

text \<open>The users by name: a later user of the same name replaces an earlier one.\<close>

definition user_named :: "'s agent \<Rightarrow> u8 list \<Rightarrow> usm_user option" where
  "user_named ag name = map_of (rev (map (\<lambda>u. (as_bytes (u_name u), u)) (ag_users ag))) name"

definition agent_engine :: "'s agent \<Rightarrow> u32 \<Rightarrow> engine_params" where
  "agent_engine ag now =
     \<lparr>en_engine_id = ag_engine_id ag, en_engine_boots = ag_engine_boots ag, en_engine_time = now\<rparr>"

lemma agent_engine_simps [simp]:
  "en_engine_id (agent_engine ag now) = ag_engine_id ag"
  "en_engine_boots (agent_engine ag now) = ag_engine_boots ag" "en_engine_time (agent_engine ag now) = now"
  by (simp_all add: agent_engine_def)

definition TIME_WINDOW_SECS :: int where
  "TIME_WINDOW_SECS = 150"

definition in_window :: "engine_params \<Rightarrow> usm_params \<Rightarrow> bool" where
  "in_window engine usm \<longleftrightarrow>
     us_engine_boots usm = en_engine_boots engine \<and>
     \<bar>uint (en_engine_time engine) - uint (us_engine_time usm)\<bar> \<le> TIME_WINDOW_SECS"

fun level_code :: "security_level \<Rightarrow> i32" where
  "level_code NoAuthNoPriv = 0"
| "level_code AuthNoPriv = 1"
| "level_code AuthPriv = 3"

text \<open>
  A reply to send, nothing to send, or an error for the caller; the outer option is \<^const>\<open>None\<close> while
  the request dispatch is still running.
\<close>

type_synonym reply = "(u8 list option, snmp_error) result option"

definition reply_with :: "(u8 list, snmp_error) result \<Rightarrow> reply" where
  "reply_with r = Some (bind_result r (\<lambda>b. Ok (Some b)))"

abbreviation dropped :: reply where
  "dropped \<equiv> Some (Ok None)"

definition handle_community ::
  "nat \<Rightarrow> ('r) rasn_scheme \<Rightarrow> 's agent \<Rightarrow> u8 list \<Rightarrow> 's agent_state \<Rightarrow> reply \<times> 's agent_state" where
  "handle_community fuel R ag data st =
     (case message_decode R data of
        Err _ \<Rightarrow> (dropped, st)
      | Ok msg \<Rightarrow>
          if m_community msg \<noteq> ag_community ag then (dropped, st)
          else
            (let sec = \<lparr>security_model = (case m_version msg of V1 \<Rightarrow> 1 | V2c \<Rightarrow> 2),
                        security_name = m_community msg, security_level = 0, sec_context = [],
                        sec_vacm = Some (ag_vacm ag)\<rparr>;
                 (resp, w) = run_state (process_with_access fuel (ag_registry ag) (m_pdu msg) sec) (as_world st)
             in (case resp of
                   None \<Rightarrow> None
                 | Some p \<Rightarrow> reply_with (message_encode R \<lparr>m_version = m_version msg,
                               m_community = m_community msg, m_pdu = p\<rparr>),
                 st\<lparr>as_world := w\<rparr>)))"

definition next_stat :: "'s agent_state \<Rightarrow> u32 \<times> 's agent_state" where
  "next_stat st = (as_usm_stats st + 1, st\<lparr>as_usm_stats := as_usm_stats st + 1\<rparr>)"

definition send_report ::
  "crypto \<Rightarrow> v3_rasn \<Rightarrow> u8 list \<Rightarrow> i32 \<Rightarrow> usm_user option \<Rightarrow> engine_params \<Rightarrow> usm_stat \<Rightarrow> i32
     \<Rightarrow> 's agent_state \<Rightarrow> reply \<times> 's agent_state" where
  "send_report C R salt mid user engine stat rid st =
     (let (n, st') = next_stat st in (reply_with (build_report C R salt mid user engine stat n rid), st'))"

definition user_security :: "'s agent \<Rightarrow> usm_user \<Rightarrow> v3_message \<Rightarrow> security_context" where
  "user_security ag user msg =
     \<lparr>security_model = 3, security_name = as_bytes (u_name user),
      security_level = level_code (user_level user),
      sec_context = sc_context_name (v3_scoped msg), sec_vacm = Some (ag_vacm ag)\<rparr>"

definition handle_v3 ::
  "nat \<Rightarrow> crypto \<Rightarrow> v3_rasn \<Rightarrow> u8 list \<Rightarrow> u32 \<Rightarrow> 's agent \<Rightarrow> u8 list \<Rightarrow> header_data \<Rightarrow> usm_params
     \<Rightarrow> 's agent_state \<Rightarrow> reply \<times> 's agent_state" where
  "handle_v3 fuel C R salt now ag data header usm st =
     (let engine = agent_engine ag now; mid = hd_msg_id header
      in if us_engine_id usm = [] \<or> us_engine_id usm \<noteq> en_engine_id engine
         then send_report C R salt mid None engine UnknownEngineIDs 0 st
         else case user_named ag (us_user_name usm) of
           None \<Rightarrow> send_report C R salt mid None engine UnknownUserNames 0 st
         | Some user \<Rightarrow>
             (case v3_parse C R data (Some user) of
                Err (AuthFailure _) \<Rightarrow> (dropped, st)
              | Err (PrivFailure _) \<Rightarrow> send_report C R salt mid (Some user) engine DecryptionErrors 0 st
              | Err _ \<Rightarrow> (dropped, st)
              | Ok msg \<Rightarrow>
                  if has_auth (user_level user) \<and> \<not> in_window engine usm
                  then send_report C R salt mid (Some user) engine NotInTimeWindows
                         (request_id (sc_pdu (v3_scoped msg))) st
                  else
                    (let (resp, w) = run_state (process_with_access fuel (ag_registry ag)
                                       (sc_pdu (v3_scoped msg)) (user_security ag user msg)) (as_world st)
                     in (case resp of
                           None \<Rightarrow> None
                         | Some p \<Rightarrow> reply_with (build_response C R salt mid user engine (en_engine_id engine) p),
                         st\<lparr>as_world := w\<rparr>))))"

definition handle_datagram ::
  "nat \<Rightarrow> crypto \<Rightarrow> v3_rasn \<Rightarrow> u8 list \<Rightarrow> u32 \<Rightarrow> 's agent \<Rightarrow> u8 list \<Rightarrow> 's agent_state
     \<Rightarrow> reply \<times> 's agent_state" where
  "handle_datagram fuel C R salt now ag data st =
     (case peek_security R data of
        Ok (header, usm) \<Rightarrow> handle_v3 fuel C R salt now ag data header usm st
      | Err (UnsupportedVersion _) \<Rightarrow> handle_community fuel R ag data st
      | Err _ \<Rightarrow> (dropped, st))"

text \<open>
  The serve loop over the datagrams that arrive: an error of the handler ends the loop, and with
  it the agent.  The result is what was sent and whether the loop is still serving.
\<close>

datatype serving = Serving | Failed snmp_error | Stuck

fun serve_on ::
  "nat \<Rightarrow> crypto \<Rightarrow> v3_rasn \<Rightarrow> 's agent \<Rightarrow> (u8 list \<times> u8 list \<times> u32) list \<Rightarrow> 's agent_state
     \<Rightarrow> u8 list list \<times> serving \<times> 's agent_state" where
  "serve_on fuel C R ag [] st = ([], Serving, st)"
| "serve_on fuel C R ag ((data, salt, now) # ds) st =
     (case handle_datagram fuel C R salt now ag data st of
        (None, st') \<Rightarrow> ([], Stuck, st')
      | (Some (Err e), st') \<Rightarrow> ([], Failed e, st')
      | (Some (Ok None), st') \<Rightarrow> serve_on fuel C R ag ds st'
      | (Some (Ok (Some b)), st') \<Rightarrow>
          (let (sent, s, st'') = serve_on fuel C R ag ds st' in (b # sent, s, st'')))"

section \<open>Responses answer their request\<close>

definition answers :: "pdu \<Rightarrow> pdu \<Rightarrow> bool" where
  "answers request r \<longleftrightarrow> ptype r = Response \<and> request_id r = request_id request \<and> v1_trap r = None"

lemma answers_new [simp]: "answers request (new_pdu Response (request_id request))"
  by (simp add: answers_def new_pdu_def)

lemma answers_update [simp]:
  "answers request r \<Longrightarrow> answers request (r\<lparr>variables := vs\<rparr>)"
  "answers request r \<Longrightarrow> answers request (r\<lparr>error_status := e\<rparr>)"
  "answers request r \<Longrightarrow> answers request (deny q i s r)"
  by (simp_all add: answers_def deny_def)

lemma answers_get_loop:
  "answers request response \<Longrightarrow> answers request (fst (run_state (get_loop hs sec q idx vbs response) s))"
  by (induction hs sec q idx vbs response arbitrary: s rule: get_loop.induct)
    (auto split: prod.split)

lemma answers_bulk:
  "answers request response \<Longrightarrow> fst (run_state (bulk_with fetch q response) s) = Some r \<Longrightarrow> answers request r"
  by (auto simp: bulk_with_def Let_def split: prod.splits option.splits)

lemma answers_process_set:
  "answers request response \<Longrightarrow> answers request (fst (run_state (process_set hs q response) s))"
  by (auto simp: process_set_def Let_def split: prod.splits option.splits)

lemma process_answers:
  assumes "fst (run_state (process_with_access fuel hs request sec) s) = Some r"
  shows "answers request r"
  using assms answers_get_loop [of request "new_pdu Response (request_id request)" hs sec request 0 "variables request" s]
    answers_process_set [of request "new_pdu Response (request_id request)" hs request s]
  by (auto simp: process_with_access_def process_bulk_def process_bulk_accessible_def Let_def
      intro: answers_bulk [OF answers_new] split: pdu_type.splits prod.splits option.splits if_splits)

section \<open>A small agent\<close>

text \<open>
  A concrete codec, cryptography and agent, on which the theorems below are applied: the codec
  knows a table of structures for each type, and the handler counts how often it is read.
\<close>

definition table_enc :: "('a \<times> u8 list) list \<Rightarrow> 'a \<Rightarrow> (u8 list, string) result" where
  "table_enc t x = (case map_of t x of None \<Rightarrow> Err ''unknown'' | Some b \<Rightarrow> Ok b)"

definition table_dec :: "('a \<times> u8 list) list \<Rightarrow> u8 list \<Rightarrow> ('a, string) result" where
  "table_dec t b = (case map_of (map prod.swap t) b of None \<Rightarrow> Err ''unknown'' | Some x \<Rightarrow> Ok x)"

lemma table_law:
  assumes "distinct (map snd t)" and "table_enc t x = Ok b"
  shows "table_dec t b = Ok x"
proof -
  have "(x, b) \<in> set t" using assms(2) by (auto simp: table_enc_def split: option.splits dest: map_of_SomeD)
  then have "(b, x) \<in> set (map prod.swap t)" by force
  moreover have "distinct (map fst (map prod.swap t))" using assms(1) by (simp add: comp_def)
  ultimately show ?thesis by (simp only: table_dec_def map_of_is_SomeI) simp
qed

definition demo_get :: "pdu" where
  "demo_get = with_null_var (new_pdu Get 5) (Oid [1, 3])"

definition demo_query :: rasn_pdu where
  "demo_query = \<lparr>rp_request_id = 5, rp_error_status = 0, rp_error_index = 0,
     rp_bindings = [\<lparr>rv_name = [1, 3], rv_value = VUnspecified\<rparr>]\<rparr>"

definition demo_answer :: rasn_pdu where
  "demo_answer = demo_query\<lparr>rp_bindings := [\<lparr>rv_name = [1, 3], rv_value = VValue (SInteger 1)\<rparr>]\<rparr>"

definition demo_messages :: "(community_message \<times> u8 list) list" where
  "demo_messages =
     [(\<lparr>cm_version = 1, cm_community = [112], cm_data = PGetRequest demo_query\<rparr>, [48]),
      (\<lparr>cm_version = 1, cm_community = [112], cm_data = PResponse demo_answer\<rparr>, [49])]"

definition demo_usm :: "u8 list \<Rightarrow> rasn_usm" where
  "demo_usm tag = \<lparr>ru_engine_id = [9], ru_engine_boots = 1, ru_engine_time = 5, ru_user_name = [117],
     ru_auth_params = tag, ru_priv_params = []\<rparr>"

definition demo_usms :: "(rasn_usm \<times> u8 list) list" where
  "demo_usms = [(demo_usm (replicate 12 0), [1]), (demo_usm [], [2])]"

definition demo_scoped :: "(rasn_scoped \<times> u8 list) list" where
  "demo_scoped =
     [(\<lparr>rs_engine_id = [9], rs_name = [], rs_data = PGetRequest demo_query\<rparr>, [3]),
      (\<lparr>rs_engine_id = [9], rs_name = [], rs_data = PResponse demo_answer\<rparr>, [4])]"

definition demo_raw :: "u8 \<Rightarrow> u8 list \<Rightarrow> u8 list \<Rightarrow> raw_v3_message" where
  "demo_raw flags sp sd =
     \<lparr>rw_version = 3,
      rw_global_data = \<lparr>rh_message_id = 7, rh_max_size = 65507, rh_flags = [flags], rh_security_model = 3\<rparr>,
      rw_security_parameters = sp, rw_scoped_data = sd\<rparr>"

definition demo_raws :: "(raw_v3_message \<times> u8 list) list" where
  "demo_raws = [(demo_raw 5 [1] [3], [10]), (demo_raw 1 [1] [4], [11]), (demo_raw 0 [2] [3], [12]), (demo_raw 0 [2] [4], [13])]"

definition demo_v3 :: v3_rasn where
  "demo_v3 =
     \<lparr>r_oid_new = (\<lambda>arcs. arcs \<noteq> [] \<and> hd arcs \<le> 2), r_opaque = Ok,
      r_enc_message = table_enc demo_messages, r_dec_message = table_dec demo_messages,
      r_enc_v1 = table_enc [], r_dec_v1 = table_dec [],
      r_dec_any = (\<lambda>b. Ok [b]), r_dec_integer = (\<lambda>b. Ok (if b = [48] then 1 else 3)),
      r_enc_raw = table_enc demo_raws, r_dec_raw = table_dec demo_raws,
      r_enc_usm = table_enc demo_usms, r_dec_usm = table_dec demo_usms,
      r_enc_scoped = table_enc demo_scoped, r_dec_scoped = table_dec demo_scoped,
      r_enc_octets = Ok, r_dec_octets = Ok\<rparr>"

lemma demo_v3_laws:
  "opaque_law demo_v3" "message_codec_laws demo_v3" "v3_codec_laws demo_v3"
  by (auto simp: opaque_law_def message_codec_laws_def v3_codec_laws_def demo_v3_def table_enc_def [of "[]"]
      intro!: table_law simp: demo_messages_def demo_usms_def demo_scoped_def demo_raws_def)

lemmas demo_table_defs = table_enc_def table_dec_def demo_messages_def demo_usms_def demo_scoped_def demo_raws_def
  demo_raw_def demo_usm_def demo_query_def demo_answer_def

lemmas demo_pdu_defs = demo_get_def with_null_var_def null_varbind_def new_varbind_def new_pdu_def

definition demo_crypto :: crypto where
  "demo_crypto =
     \<lparr>c_hash = (\<lambda>p m. []), c_hmac = (\<lambda>p k m. replicate 24 0),
      c_encrypt = (\<lambda>k iv d. d), c_decrypt = (\<lambda>k iv d. d)\<rparr>"

lemma demo_crypto_laws: "crypto_laws demo_crypto"
  by (simp add: crypto_laws_def demo_crypto_def mac_len_def split: auth_protocol.split)

definition demo_handler :: "value \<Rightarrow> nat mib_handler" where
  "demo_handler v =
     \<lparr>h_root = Oid [1, 3], h_get = (\<lambda>o1. State (\<lambda>n. (Some v, Suc n))),
      h_get_next = (\<lambda>o1. State_Monad.return None), h_set = default_set,
      h_prepare_set = default_prepare_set, h_commit_set = default_set, h_undo_set = default_undo_set\<rparr>"

definition demo_user :: usm_user where
  "demo_user = usm_auth ''u'' HmacMd5 ''secret''"

definition demo_agent :: "value \<Rightarrow> nat agent" where
  "demo_agent v =
     \<lparr>ag_registry = [demo_handler v], ag_community = [112], ag_engine_id = [9], ag_engine_boots = 1,
      ag_users = [demo_user], ag_vacm = vacm_new\<rparr>"

lemma demo_agent_simps [simp]:
  "ag_registry (demo_agent v) = [demo_handler v]" "ag_community (demo_agent v) = [112]"
  "ag_engine_id (demo_agent v) = [9]" "ag_engine_boots (demo_agent v) = 1" "ag_vacm (demo_agent v) = vacm_new"
  by (simp_all add: demo_agent_def)

definition demo_state :: "nat agent_state" where
  "demo_state = \<lparr>as_usm_stats = 0, as_world = 0\<rparr>"

definition demo_reply :: "value \<Rightarrow> pdu" where
  "demo_reply v = (new_pdu Response 5)\<lparr>variables := [new_varbind (Oid [1, 3]) v]\<rparr>"

lemma demo_get_run:
  assumes "sec_vacm sec = Some vacm_new"
  shows "run_state (process_with_access fuel [demo_handler v] demo_get sec) n = (Some (demo_reply v), Suc n)"
  using assms
  by (simp add: process_with_access_def demo_get_def demo_reply_def with_null_var_def null_varbind_def new_pdu_def
      allows_def is_view_accessible_def vacm_is_empty_def vacm_new_def do_get_def handler_for_def
      demo_handler_def is_prefix_of_def max_by_key_def Let_def)

lemma demo_decode: "message_decode demo_v3 [48] = Ok \<lparr>m_version = V2c, m_community = [112], m_pdu = demo_get\<rparr>"
  by (simp add: message_decode_def demo_v3_def demo_table_defs demo_pdu_defs pdu_from_rasn_def varbind_from_rasn_def
      oid_from_rasn_def int_to_i64_def version_from_code_def)

lemma demo_peek:
  "peek_security demo_v3 [48] = Err (UnsupportedVersion 1)"
  by (simp add: peek_security_def message_version_def demo_v3_def int_to_i64_def VERSION_V3_def)

lemma demo_user_named: "user_named (demo_agent v) [117] = Some demo_user"
  by (simp add: user_named_def demo_agent_def demo_user_def usm_auth_def as_bytes_def byte_of_char_def)

definition demo_header :: header_data where
  "demo_header = \<lparr>hd_msg_id = 7, hd_max_size = 65507, hd_flags = 0, hd_security_model = 3\<rparr>"

definition demo_forged :: usm_params where
  "demo_forged = \<lparr>us_engine_id = [9], us_engine_boots = 1, us_engine_time = 5, us_user_name = [117],
     us_auth_params = [], us_priv_params = []\<rparr>"

lemma demo_forged_encodes: "encode_with demo_v3 demo_header [3] demo_forged = Ok [12]"
  by (simp add: encode_with_def usm_to_ber_def usm_to_rasn_def header_to_rasn_def VERSION_V3_def demo_header_def
      demo_forged_def demo_v3_def demo_table_defs)

lemma demo_scoped_decodes:
  "scoped_decode_ber demo_v3 [3] = Ok \<lparr>sc_engine_id = [9], sc_context_name = [], sc_pdu = demo_get\<rparr>"
  by (simp add: scoped_decode_ber_def pdu_from_rasn_def varbind_from_rasn_def oid_from_rasn_def demo_v3_def
      demo_table_defs demo_pdu_defs)

lemma demo_forged_guards:
  "hd_flags demo_header AND FLAG_AUTH = 0" "hd_flags demo_header AND FLAG_PRIV = 0"
  "us_engine_id demo_forged = ag_engine_id (demo_agent v)" "ag_engine_id (demo_agent v) \<noteq> []"
  "user_named (demo_agent v) (us_user_name demo_forged) = Some demo_user"
  "in_window (agent_engine (demo_agent v) 5) demo_forged"
  by (simp_all add: demo_header_def demo_forged_def demo_agent_def [of v] demo_user_named [unfolded demo_agent_def]
      in_window_def agent_engine_def TIME_WINDOW_SECS_def)

lemma demo_scoped_encodes:
  "scoped_to_ber demo_v3 \<lparr>sc_engine_id = [9], sc_context_name = [], sc_pdu = demo_get\<rparr> = Ok [3]"
  "scoped_to_ber demo_v3 \<lparr>sc_engine_id = [9], sc_context_name = [], sc_pdu = demo_reply (Integer 1)\<rparr> = Ok [4]"
  by (simp_all add: scoped_to_ber_def pdu_to_rasn_def varbind_to_rasn_def oid_to_rasn_def u32_try_from_def
      int_to_u32_def demo_v3_def demo_reply_def demo_table_defs demo_pdu_defs Let_def)

lemma demo_user_parts:
  "user_auth_part demo_crypto demo_user [9] = Ok (Some (HmacMd5, []))"
  "user_priv_part demo_crypto demo_user [9] = Ok None" "user_level demo_user = AuthNoPriv"
  "as_bytes (u_name demo_user) = [117]"
  by (simp_all add: user_auth_part_def user_priv_part_def user_level_def has_auth_def has_priv_def auth_key_def
      localized_key_def localize_key_def demo_user_def usm_auth_def demo_crypto_def as_bytes_def byte_of_char_def)

definition demo_signed :: usm_params where
  "demo_signed = demo_forged\<lparr>us_auth_params := replicate 12 0\<rparr>"

lemma demo_signed_encodes:
  "encode_with demo_v3 (demo_header\<lparr>hd_flags := 5\<rparr>) [3] demo_signed = Ok [10]"
  "encode_with demo_v3 (demo_header\<lparr>hd_flags := 1\<rparr>) [4] demo_signed = Ok [11]"
  by (simp_all add: encode_with_def usm_to_ber_def usm_to_rasn_def header_to_rasn_def VERSION_V3_def demo_header_def
      demo_signed_def demo_forged_def demo_v3_def demo_table_defs)

lemma demo_mac: "mac demo_crypto HmacMd5 k m = replicate 12 0"
  by (simp add: mac_def mac_len_def demo_crypto_def)

lemma demo_builds:
  "build_request demo_crypto demo_v3 salt 7 demo_user (agent_engine (demo_agent v) 5) [] demo_get = Ok [10]"
  "build_response demo_crypto demo_v3 salt 7 demo_user (agent_engine (demo_agent v) 5) [9] (demo_reply (Integer 1)) = Ok [11]"
  using demo_signed_encodes
  by (simp_all add: build_request_def build_response_def build_user_message_def demo_user_parts build_message_def
      agent_engine_def demo_agent_def demo_scoped_encodes has_auth_def has_priv_def assemble_def demo_mac mac_len_def
      FLAG_AUTH_def FLAG_PRIV_def FLAG_REPORTABLE_def DEFAULT_MAX_SIZE_def SECURITY_MODEL_USM_def
      demo_signed_def demo_forged_def demo_header_def Let_def)

lemma demo_wire: "wire_pdu demo_get = demo_get"
  by (simp add: wire_pdu_def wire_varbind_def wire_oid_def demo_pdu_defs)

lemma demo_version: "message_version demo_v3 [b] = Ok (if b = 48 then 1 else VERSION_V3)"
  by (simp add: message_version_def demo_v3_def int_to_i64_def VERSION_V3_def)

section \<open>Community requests\<close>

lemma message_encode_pdu:
  assumes "opaque_law R" and "message_codec_laws R"
    and "message_encode R \<lparr>m_version = v, m_community = c, m_pdu = p\<rparr> = Ok b" and "v1_trap p = None"
  shows "message_decode R b = Ok \<lparr>m_version = v, m_community = c, m_pdu = wire_pdu p\<rparr>"
  using message_wire_decode [OF assms(1-3)] assms(4) by (simp add: wire_message_def)

text \<open>A community reply is sent only to a request that carries the agent's community; it has the
  request's version, community and request-id, and is a Response.  Everything else is dropped
  without touching any handler.\<close>

lemma community_reply:
  assumes "opaque_law R" and "message_codec_laws R"
    and "handle_community fuel R ag data st = (rep, st')" and "rep \<noteq> dropped \<or> st' \<noteq> st"
  shows "\<exists>msg. message_decode R data = Ok msg \<and> m_community msg = ag_community ag \<and>
     (\<forall>b. rep = Some (Ok (Some b)) \<longrightarrow>
        (\<exists>r. message_decode R b = Ok \<lparr>m_version = m_version msg, m_community = m_community msg, m_pdu = r\<rparr> \<and>
             answers (m_pdu msg) r))"
proof (cases "message_decode R data")
  case (Ok msg)
  then have c: "m_community msg = ag_community ag"
    using assms(3,4) by (auto simp: handle_community_def split: if_splits)
  let ?sec = "\<lparr>security_model = (case m_version msg of V1 \<Rightarrow> 1 | V2c \<Rightarrow> 2), security_name = m_community msg,
      security_level = 0, sec_context = [], sec_vacm = Some (ag_vacm ag)\<rparr>"
  have "\<exists>r. message_decode R b = Ok \<lparr>m_version = m_version msg, m_community = m_community msg, m_pdu = r\<rparr> \<and> answers (m_pdu msg) r"
    if b: "rep = Some (Ok (Some b))" for b
  proof -
    obtain p where p: "fst (run_state (process_with_access fuel (ag_registry ag) (m_pdu msg) ?sec) (as_world st)) = Some p"
      and enc: "message_encode R \<lparr>m_version = m_version msg, m_community = m_community msg, m_pdu = p\<rparr> = Ok b"
      using assms(3) b c Ok
      by (auto simp: handle_community_def reply_with_def Let_def split: prod.splits option.splits)
    have "answers (m_pdu msg) p" using process_answers [OF p] .
    with message_encode_pdu [OF assms(1,2) enc] show ?thesis by (auto simp: answers_def wire_pdu_def)
  qed
  with Ok c show ?thesis by blast
next
  case (Err e)
  with assms(3,4) show ?thesis by (simp add: handle_community_def)
qed

section \<open>The user-based security model\<close>

text \<open>C24: An SNMPv3 datagram reaches the handlers only under the agent's own engine id, for a
  configured user under which the message parses, and, when the user has an authentication
  protocol, with the agent's boot count and an engine time at most 150 seconds off.\<close>

theorem v3_dispatch_guard:
  assumes "handle_v3 fuel C R salt now ag data header usm st = (rep, st')" and "as_world st' \<noteq> as_world st"
  shows "\<exists>user msg. us_engine_id usm = ag_engine_id ag \<and> us_engine_id usm \<noteq> [] \<and>
     user_named ag (us_user_name usm) = Some user \<and> v3_parse C R data (Some user) = Ok msg \<and>
     (u_auth user \<noteq> None \<longrightarrow>
        us_engine_boots usm = ag_engine_boots ag \<and> \<bar>uint now - uint (us_engine_time usm)\<bar> \<le> 150) \<and>
     as_world st' = snd (run_state (process_with_access fuel (ag_registry ag) (sc_pdu (v3_scoped msg))
                                     (user_security ag user msg)) (as_world st))"
  using assms
  by (auto simp: handle_v3_def send_report_def next_stat_def has_auth_user in_window_def agent_engine_def
      TIME_WINDOW_SECS_def Let_def split: if_splits option.splits result.splits snmp_error.splits prod.splits)

lemma v3_served:
  assumes "us_engine_id usm = ag_engine_id ag" and "ag_engine_id ag \<noteq> []"
    and "user_named ag (us_user_name usm) = Some user" and "v3_parse C R data (Some user) = Ok msg"
    and "in_window (agent_engine ag now) usm"
  shows "handle_v3 fuel C R salt now ag data header usm st =
     (case run_state (process_with_access fuel (ag_registry ag) (sc_pdu (v3_scoped msg)) (user_security ag user msg)) (as_world st) of
        (resp, w) \<Rightarrow> (case resp of None \<Rightarrow> None
           | Some p \<Rightarrow> reply_with (build_response C R salt (hd_msg_id header) user (agent_engine ag now) (ag_engine_id ag) p),
           st\<lparr>as_world := w\<rparr>))"
  using assms by (simp add: handle_v3_def Let_def split: prod.split option.split)

lemma peek_sealed:
  assumes "v3_codec_laws R" and "message_version R data = Ok VERSION_V3" and "sealed R h sd usm sp data"
    and "ber_element R sd"
  shows "peek_security R data = Ok (h, usm)"
proof -
  have "r_dec_raw R data = Ok \<lparr>rw_version = 3, rw_global_data = header_to_rasn h, rw_security_parameters = sp, rw_scoped_data = sd\<rparr>"
    "usm_decode_ber R sp = Ok usm"
    using assms usm_ber_roundtrip by (auto simp: sealed_def v3_codec_laws_def)
  then show ?thesis using assms(2) by (simp add: peek_security_def header_roundtrip)
qed

text \<open>C38: A message whose flags claim neither authentication nor privacy is served as any configured
  user, at the security level of that user's keys, although nothing in it depends on a key: whoever
  knows the user's name and the engine's public id, boot count and time can read and write with
  the rights of the user, whatever the cryptography.\<close>

theorem unauthenticated_request_served:
  assumes "v3_codec_laws R" and "message_version R data = Ok VERSION_V3"
    and "encode_with R header sd usm = Ok data" and "scoped_decode_ber R sd = Ok s"
    and "hd_flags header AND FLAG_AUTH = 0" and "hd_flags header AND FLAG_PRIV = 0"
    and "us_engine_id usm = ag_engine_id ag" and "ag_engine_id ag \<noteq> []"
    and "user_named ag (us_user_name usm) = Some user" and "in_window (agent_engine ag now) usm"
  shows "as_world (snd (handle_datagram fuel C R salt now ag data st)) =
     snd (run_state (process_with_access fuel (ag_registry ag) (sc_pdu s)
       \<lparr>security_model = 3, security_name = as_bytes (u_name user), security_level = level_code (user_level user),
        sec_context = sc_context_name s, sec_vacm = Some (ag_vacm ag)\<rparr>) (as_world st))"
proof -
  obtain sp where seal: "sealed R header sd usm sp data" using assms(3) by (auto simp: encode_with_Ok)
  have "v3_parse C R data (Some user) = Ok \<lparr>v3_header = header, v3_usm = usm, v3_scoped = s\<rparr>"
    unfolding v3_parse_sealed [OF assms(1) seal ber_element_scoped [OF assms(4)]] using assms(4-6) by simp
  from v3_served [OF assms(7-9) this assms(10)] show ?thesis
    by (simp add: handle_datagram_def peek_sealed [OF assms(1,2) seal ber_element_scoped [OF assms(4)]] user_security_def split: prod.split)
qed

theorem unauthenticated_request_served_witness:
  "as_world (snd (handle_datagram 0 demo_crypto demo_v3 [] 5 (demo_agent (Integer 1)) [12] demo_state)) = 1"
  using unauthenticated_request_served [OF demo_v3_laws(3) _ demo_forged_encodes demo_scoped_decodes demo_forged_guards(1,2) demo_forged_guards(3-6) [of "Integer 1"],
      where C = demo_crypto and fuel = 0 and salt = "[]" and st = demo_state]
  by (simp add: demo_version demo_get_run demo_state_def)

lemma demo_forged_parses:
  "v3_parse demo_crypto demo_v3 [12] (Some demo_user) = Ok
     \<lparr>v3_header = demo_header, v3_usm = demo_forged,
      v3_scoped = \<lparr>sc_engine_id = [9], sc_context_name = [], sc_pdu = demo_get\<rparr>\<rparr>"
proof -
  obtain sp where "sealed demo_v3 demo_header [3] demo_forged sp [12]"
    using demo_forged_encodes by (auto simp: encode_with_Ok)
  from v3_parse_sealed [OF demo_v3_laws(3) this ber_element_scoped [OF demo_scoped_decodes]] show ?thesis
    using demo_forged_guards(1,2) by (simp add: demo_scoped_decodes)
qed

theorem v3_dispatch_guard_witness:
  "us_engine_boots demo_forged = 1 \<and> \<bar>uint (5 :: u32) - uint (us_engine_time demo_forged)\<bar> \<le> 150"
proof -
  have "\<exists>rep. handle_v3 0 demo_crypto demo_v3 [] 5 (demo_agent (Integer 1)) [12] demo_header demo_forged demo_state =
      (rep, \<lparr>as_usm_stats = 0, as_world = 1\<rparr>)"
    unfolding v3_served [OF demo_forged_guards(3-5) demo_forged_parses demo_forged_guards(6)]
    by (simp add: demo_get_run user_security_def demo_state_def)
  then obtain rep where "handle_v3 0 demo_crypto demo_v3 [] 5 (demo_agent (Integer 1)) [12] demo_header demo_forged demo_state =
      (rep, \<lparr>as_usm_stats = 0, as_world = 1\<rparr>)" ..
  from v3_dispatch_guard [OF this] obtain user where
    "user_named (demo_agent (Integer 1)) (us_user_name demo_forged) = Some user"
    "u_auth user \<noteq> None \<longrightarrow> us_engine_boots demo_forged = ag_engine_boots (demo_agent (Integer 1)) \<and>
       \<bar>uint (5 :: u32) - uint (us_engine_time demo_forged)\<bar> \<le> 150"
    by (auto simp: demo_state_def)
  then show ?thesis
    using demo_forged_guards(5) [of "Integer 1"] by (auto simp: demo_user_def usm_auth_def demo_agent_def)
qed

section \<open>A reply that does not encode\<close>

text \<open>One response that cannot be encoded ends the serve loop: the agent answers neither this
  datagram nor any later one.  A value such as an OID whose first arc the codec refuses, which a
  handler or a subagent may return, is enough.\<close>

lemma unencodable_response_stops_agent:
  assumes "peek_security R data = Err (UnsupportedVersion v)" and "message_decode R data = Ok msg"
    and "m_community msg = ag_community ag"
    and "run_state (process_with_access fuel (ag_registry ag) (m_pdu msg)
           \<lparr>security_model = (case m_version msg of V1 \<Rightarrow> 1 | V2c \<Rightarrow> 2), security_name = m_community msg,
            security_level = 0, sec_context = [], sec_vacm = Some (ag_vacm ag)\<rparr>) (as_world st) = (Some p, w)"
    and "varbind_to_rasn R vb = Err e" and "vb \<in> set (variables p)"
  shows "\<exists>e'. serve_on fuel C R ag ((data, salt, now) # ds) st = ([], Failed e', st\<lparr>as_world := w\<rparr>)"
proof -
  have "\<exists>e'. collect_results (map (varbind_to_rasn R) vbs) = Err e'" if "vb \<in> set vbs" for vbs
    using that assms(5)
  proof (induction vbs)
    case (Cons a vbs)
    then show ?case by (cases "varbind_to_rasn R a"; cases "collect_results (map (varbind_to_rasn R) vbs)") auto
  qed simp
  then obtain e' where "pdu_to_rasn R p = Err e'" using assms(6) by (fastforce simp: pdu_to_rasn_def)
  moreover have "answers (m_pdu msg) p" 
    by (rule process_answers [OF trans [OF arg_cong [where f = fst, OF assms(4)] fst_conv]])
  ultimately have "message_encode R \<lparr>m_version = m_version msg, m_community = m_community msg, m_pdu = p\<rparr> = Err e'"
    by (simp add: message_encode_def answers_def)
  with assms(1-4) show ?thesis by (simp add: handle_datagram_def handle_community_def reply_with_def)
qed

section \<open>An authenticated exchange\<close>

text \<open>C23: A request that a user builds with its keys, for the agent's engine and inside the time window, is
  answered: the agent verifies and decrypts it, processes the PDU under the user's name and level,
  and the reply it sends is accepted by the user, carries the message id of the request, and is a
  Response with its request-id.\<close>

theorem v3_exchange:
  assumes "v3_codec_laws R" and "crypto_laws C" and "length salt = 8" and "length salt' = 8"
    and "build_request C R salt' mid user engine ctx p = Ok data" and "message_version R data = Ok VERSION_V3"
    and "en_engine_id engine = ag_engine_id ag" and "ag_engine_id ag \<noteq> []"
    and "en_engine_boots engine = ag_engine_boots ag" and "\<bar>uint now - uint (en_engine_time engine)\<bar> \<le> 150"
    and "user_named ag (as_bytes (u_name user)) = Some user"
    and "run_state (process_with_access fuel (ag_registry ag) (wire_pdu p)
           \<lparr>security_model = 3, security_name = as_bytes (u_name user), security_level = level_code (user_level user),
            sec_context = [], sec_vacm = Some (ag_vacm ag)\<rparr>) (as_world st) = (Some r, w)"
    and "build_response C R salt mid user (agent_engine ag now) (ag_engine_id ag) r = Ok b"
  shows "handle_datagram fuel C R salt now ag data st = (Some (Ok (Some b)), st\<lparr>as_world := w\<rparr>) \<and>
     (\<exists>m. v3_parse C R b (Some user) = Ok m \<and> hd_msg_id (v3_header m) = mid \<and> answers p (sc_pdu (v3_scoped m)))"
proof -
  obtain sb sd pp tag sp where
    seal: "sealed R (user_header mid True (user_level user)) sd (user_params user engine tag pp) sp data"
      and el: "ber_element R sd"
    by (rule built_message [OF assms(2,4) assms(5) [unfolded build_request_def]]) (blast intro: ber_element_carried [OF assms(1)])
  have peek: "peek_security R data = Ok (user_header mid True (user_level user), user_params user engine tag pp)"
    using peek_sealed [OF assms(1,6) seal el] .
  obtain m where m: "v3_parse C R data (Some user) = Ok m"
    "sc_pdu (v3_scoped m) = wire_pdu p" "sc_context_name (v3_scoped m) = []"
    using v3_message_roundtrip [OF assms(1,2,4) assms(5) [unfolded build_request_def]] by auto
  have win: "in_window (agent_engine ag now) (user_params user engine tag pp)"
    using assms(9,10) by (simp add: in_window_def agent_engine_def user_params_def TIME_WINDOW_SECS_def)
  have "handle_v3 fuel C R salt now ag data (user_header mid True (user_level user)) (user_params user engine tag pp) st =
      (Some (Ok (Some b)), st\<lparr>as_world := w\<rparr>)"
    using v3_served [OF _ assms(8) _ m(1) win, of fuel salt "user_header mid True (user_level user)" st] assms(7,11,12,13) m(2,3)
    by (simp add: user_params_def user_security_def user_header_def reply_with_def)
  moreover have "answers (wire_pdu p) r"
    by (rule process_answers [OF trans [OF arg_cong [where f = fst, OF assms(12)] fst_conv]])
  then have "answers p (wire_pdu r)" by (simp add: answers_def wire_pdu_def)
  moreover obtain m' where "v3_parse C R b (Some user) = Ok m'" "hd_msg_id (v3_header m') = mid"
      "sc_pdu (v3_scoped m') = wire_pdu r"
    using v3_message_roundtrip [OF assms(1,2,3) assms(13) [unfolded build_response_def]] by auto
  ultimately show ?thesis using peek by (auto simp: handle_datagram_def)
qed

theorem v3_exchange_witness:
  "handle_datagram 0 demo_crypto demo_v3 (replicate 8 0) 5 (demo_agent (Integer 1)) [10] demo_state =
     (Some (Ok (Some [11])), \<lparr>as_usm_stats = 0, as_world = 1\<rparr>)"
proof -
  have "\<bar>uint (5 :: u32) - uint (en_engine_time (agent_engine (demo_agent (Integer 1)) 5))\<bar> \<le> 150"
    by (simp add: agent_engine_def)
  then have "handle_datagram 0 demo_crypto demo_v3 (replicate 8 0) 5 (demo_agent (Integer 1)) [10] demo_state =
      (Some (Ok (Some [11])), demo_state\<lparr>as_world := 1\<rparr>)"
    using v3_exchange [OF demo_v3_laws(3) demo_crypto_laws _ _ demo_builds(1) [of _ "Integer 1"],
        where salt = "replicate 8 0" and salt' = "replicate 8 0" and ag = "demo_agent (Integer 1)" and now = 5
          and fuel = 0 and st = demo_state and r = "demo_reply (Integer 1)" and w = 1 and b = "[11]"]
    by (simp add: demo_version demo_user_parts demo_user_named demo_get_run demo_wire demo_state_def demo_builds(2))
  then show ?thesis by (simp add: demo_state_def)
qed

end
