(* ===== verification/Snmp_Objects.thy ===== *)
theory Snmp_Objects
  imports Snmp_Registry
begin

text \<open>
  The handlers of the crate behind the trait object \<^verbatim>\<open>Arc<dyn MibHandler>\<close>: one datatype of
  handler objects with the dispatch of the trait's methods, the agent's world as the list of
  the registered objects, and the registry that the sources build by registering them.  The
  contracts of \<^verbatim>\<open>Snmp_Registry\<close> are discharged here for these objects, and the properties
  of the dispatch are stated for every such world.
\<close>

section \<open>Handler objects\<close>

datatype mib_object =
    ScalarObj scalar_handler
  | MapObj map_handler
  | FnObj fn_handler
  | TableObj table_handler
  | CacheObj cache_handler
  | DataSetObj table_data_set
  | ReadOnlyObj mib_object

definition lift_obj :: "('s \<Rightarrow> mib_object) \<Rightarrow> ('s, 'a) state \<Rightarrow> 's \<Rightarrow> 'a \<times> mib_object" where
  "lift_obj C m s = (case run_state m s of (a, s') \<Rightarrow> (a, C s'))"

primrec obj_root :: "mib_object \<Rightarrow> oid" where
  "obj_root (ScalarObj s) = sc_root s"
| "obj_root (MapObj s) = mh_root s"
| "obj_root (FnObj s) = fn_root s"
| "obj_root (TableObj s) = th_root s"
| "obj_root (CacheObj s) = ch_root s"
| "obj_root (DataSetObj s) = td_root s"
| "obj_root (ReadOnlyObj ob) = obj_root ob"

primrec obj_get :: "oid \<Rightarrow> mib_object \<Rightarrow> value option \<times> mib_object" where
  "obj_get o1 (ScalarObj s) = lift_obj ScalarObj (scalar_get o1) s"
| "obj_get o1 (MapObj s) = lift_obj MapObj (map_get o1) s"
| "obj_get o1 (FnObj s) = lift_obj FnObj (fn_get o1) s"
| "obj_get o1 (TableObj s) = lift_obj TableObj (table_get o1) s"
| "obj_get o1 (CacheObj s) = lift_obj CacheObj (cache_get o1) s"
| "obj_get o1 (DataSetObj s) = lift_obj DataSetObj (td_get o1) s"
| "obj_get o1 (ReadOnlyObj ob) = apsnd ReadOnlyObj (obj_get o1 ob)"

primrec obj_get_next :: "oid \<Rightarrow> mib_object \<Rightarrow> reading option \<times> mib_object" where
  "obj_get_next o1 (ScalarObj s) = lift_obj ScalarObj (scalar_get_next o1) s"
| "obj_get_next o1 (MapObj s) = lift_obj MapObj (map_get_next o1) s"
| "obj_get_next o1 (FnObj s) = lift_obj FnObj (fn_get_next o1) s"
| "obj_get_next o1 (TableObj s) = lift_obj TableObj (table_get_next o1) s"
| "obj_get_next o1 (CacheObj s) = lift_obj CacheObj (cache_get_next o1) s"
| "obj_get_next o1 (DataSetObj s) = lift_obj DataSetObj (td_get_next o1) s"
| "obj_get_next o1 (ReadOnlyObj ob) = apsnd ReadOnlyObj (obj_get_next o1 ob)"

fun obj_set :: "oid \<Rightarrow> value \<Rightarrow> mib_object \<Rightarrow> set_result \<times> mib_object" where
  "obj_set o1 v (ScalarObj s) = lift_obj ScalarObj (scalar_set o1 v) s"
| "obj_set o1 v (MapObj s) = lift_obj MapObj (map_set o1 v) s"
| "obj_set o1 v (FnObj s) = lift_obj FnObj (default_set o1 v) s"
| "obj_set o1 v (TableObj s) = lift_obj TableObj (table_set o1 v) s"
| "obj_set o1 v (CacheObj s) = lift_obj CacheObj (cache_set o1 v) s"
| "obj_set o1 v (DataSetObj s) = lift_obj DataSetObj (td_set o1 v) s"
| "obj_set o1 v (ReadOnlyObj ob) = (Err NotWritable, ReadOnlyObj ob)"

fun obj_prepare :: "oid \<Rightarrow> value \<Rightarrow> mib_object \<Rightarrow> set_result \<times> mib_object" where
  "obj_prepare o1 v (ScalarObj s) = lift_obj ScalarObj (scalar_prepare_set o1 v) s"
| "obj_prepare o1 v (MapObj s) = lift_obj MapObj (map_prepare_set o1 v) s"
| "obj_prepare o1 v (FnObj s) = lift_obj FnObj (default_prepare_set o1 v) s"
| "obj_prepare o1 v (TableObj s) = lift_obj TableObj (default_prepare_set o1 v) s"
| "obj_prepare o1 v (CacheObj s) = lift_obj CacheObj (default_prepare_set o1 v) s"
| "obj_prepare o1 v (DataSetObj s) = lift_obj DataSetObj (td_prepare_set o1 v) s"
| "obj_prepare o1 v (ReadOnlyObj ob) = (Err NotWritable, ReadOnlyObj ob)"

fun obj_commit :: "oid \<Rightarrow> value \<Rightarrow> mib_object \<Rightarrow> set_result \<times> mib_object" where
  "obj_commit o1 v (ScalarObj s) = lift_obj ScalarObj (scalar_commit_set o1 v) s"
| "obj_commit o1 v (MapObj s) = lift_obj MapObj (map_commit_set o1 v) s"
| "obj_commit o1 v (FnObj s) = lift_obj FnObj (default_commit_set default_set o1 v) s"
| "obj_commit o1 v (TableObj s) = lift_obj TableObj (default_commit_set table_set o1 v) s"
| "obj_commit o1 v (CacheObj s) = lift_obj CacheObj (default_commit_set cache_set o1 v) s"
| "obj_commit o1 v (DataSetObj s) = lift_obj DataSetObj (td_commit_set o1 v) s"
| "obj_commit o1 v (ReadOnlyObj ob) = (Err NotWritable, ReadOnlyObj ob)"

text \<open>None of these handlers overrides \<open>undo_set\<close>.\<close>

definition obj_mib :: "oid \<Rightarrow> mib_object mib_handler" where
  "obj_mib root =
     \<lparr>h_root = root, h_get = (\<lambda>o1. State (obj_get o1)), h_get_next = (\<lambda>o1. State (obj_get_next o1)),
      h_set = (\<lambda>o1 v. State (obj_set o1 v)), h_prepare_set = (\<lambda>o1 v. State (obj_prepare o1 v)),
      h_commit_set = (\<lambda>o1 v. State (obj_commit o1 v)), h_undo_set = default_undo_set\<rparr>"

section \<open>The world\<close>

type_synonym world = "mib_object list"

text \<open>The handler of the \<open>i\<close>-th object, and the registry after registering the objects in order.\<close>

definition slot_handler :: "nat \<times> oid \<Rightarrow> world mib_handler" where
  "slot_handler p = focus (\<lambda>w. w ! fst p) (\<lambda>s w. w[fst p := s]) (obj_mib (snd p))"

definition registry_for :: "oid list \<Rightarrow> world registry" where
  "registry_for roots = foldl (\<lambda>hs h. register h hs) [] (map slot_handler (enumerate 0 roots))"

lemma obj_mib_simps [simp]:
  "h_root (obj_mib root) = root" "h_get (obj_mib root) o1 = State (obj_get o1)"
  "h_get_next (obj_mib root) o1 = State (obj_get_next o1)"
  "h_prepare_set (obj_mib root) o1 v = State (obj_prepare o1 v)"
  "h_commit_set (obj_mib root) o1 v = State (obj_commit o1 v)"
  "h_undo_set (obj_mib root) = default_undo_set"
  by (simp_all add: obj_mib_def)

lemma set_registry_for: "set (registry_for roots) = {slot_handler (i, roots ! i) | i. i < length roots}"
proof -
  have "set (foldl (\<lambda>hs h. register h hs) acc xs) = set acc \<union> set xs" for acc and xs :: "world registry"
    by (induction xs arbitrary: acc) auto
  then show ?thesis by (auto simp: registry_for_def in_set_enumerate_eq)
qed

lemma sorted_registry_for: "sorted (map h_root (registry_for roots))"
proof -
  have "sorted (map h_root acc) \<Longrightarrow> sorted (map h_root (foldl (\<lambda>hs h. register h hs) acc xs))"
    for acc and xs :: "world registry"
    by (induction xs arbitrary: acc) auto
  then show ?thesis by (simp add: registry_for_def)
qed

section \<open>Objects keep the contracts\<close>

primrec obj_cells :: "mib_object \<Rightarrow> oid \<Rightarrow> value option" where
  "obj_cells (ScalarObj s) = scalar_cells s"
| "obj_cells (MapObj s) = map_cells s"
| "obj_cells (FnObj s) = fn_cells s"
| "obj_cells (TableObj s) = table_cells s"
| "obj_cells (CacheObj s) = cache_cells s"
| "obj_cells (DataSetObj s) = td_cells s"
| "obj_cells (ReadOnlyObj ob) = obj_cells ob"

primrec obj_wf :: "mib_object \<Rightarrow> bool" where
  "obj_wf (ScalarObj s) = scalar_ok (sc_root s) s"
| "obj_wf (MapObj s) = map_ok (mh_root s) s"
| "obj_wf (FnObj s) = fn_ok s"
| "obj_wf (TableObj s) = table_ok s"
| "obj_wf (CacheObj s) = cache_ok s"
| "obj_wf (DataSetObj s) = td_ok s"
| "obj_wf (ReadOnlyObj ob) = obj_wf ob"

text \<open>The objects whose SETs are independent of each other: scalars, maps, and anything read-only.\<close>

primrec obj_settable :: "mib_object \<Rightarrow> bool" where
  "obj_settable (ScalarObj s) = True"
| "obj_settable (MapObj s) = True"
| "obj_settable (FnObj s) = False"
| "obj_settable (TableObj s) = False"
| "obj_settable (CacheObj s) = False"
| "obj_settable (DataSetObj s) = False"
| "obj_settable (ReadOnlyObj ob) = True"

text \<open>An object after a read: it serves the same cells under the same root.\<close>

definition same_served :: "mib_object \<Rightarrow> mib_object \<Rightarrow> bool" where
  "same_served ob ob' \<longleftrightarrow> obj_wf ob' \<and> obj_cells ob' = obj_cells ob \<and> obj_root ob' = obj_root ob \<and>
     (obj_settable ob' \<longleftrightarrow> obj_settable ob)"

lemma read_keeps_root:
  "run_state (scalar_get o1) a = (ra, a') \<Longrightarrow> sc_root a' = sc_root a"
  "run_state (scalar_get_next o1) a = (na, a') \<Longrightarrow> sc_root a' = sc_root a"
  "run_state (map_get o1) b = (ra, b') \<Longrightarrow> mh_root b' = mh_root b"
  "run_state (map_get_next o1) b = (na, b') \<Longrightarrow> mh_root b' = mh_root b"
  "run_state (td_get o1) c = (ra, c') \<Longrightarrow> td_root c' = td_root c"
  "run_state (td_get_next o1) c = (na, c') \<Longrightarrow> td_root c' = td_root c"
  by (auto simp: scalar_ops_defs map_ops_defs td_get_def td_get_next_def)

lemma snapshot_keeps_root:
  "run_state (fn_get o1) a = (ra, a') \<Longrightarrow> fn_root a' = fn_root a"
  "run_state (fn_get_next o1) a = (na, a') \<Longrightarrow> fn_root a' = fn_root a"
  "run_state (table_get o1) b = (ra, b') \<Longrightarrow> th_root b' = th_root b"
  "run_state (table_get_next o1) b = (na, b') \<Longrightarrow> th_root b' = th_root b"
  "run_state (cache_get o1) c = (ra, c') \<Longrightarrow> ch_root c' = ch_root c"
  "run_state (cache_get_next o1) c = (na, c') \<Longrightarrow> ch_root c' = ch_root c"
  by (auto simp: fn_get_def fn_get_next_def fn_snapshot_def table_get_def table_get_next_def
      table_snapshot_def cache_get_def cache_get_next_def cache_snapshot_def Let_def split: option.splits)

lemma lift_obj_pair: "lift_obj C m s = (r, ob) \<longleftrightarrow> (\<exists>s'. run_state m s = (r, s') \<and> ob = C s')"
  by (auto simp: lift_obj_def split: prod.splits)

lemmas get_served_instances =
  scalar.get_served [unfolded scalar_mib_simps] mapped.get_served [unfolded map_mib_simps]
  fn.get_served [of _ undefined, unfolded fn_mib_simps]
  tabled.get_served [of _ undefined, unfolded snapshot_mib_simps]
  cached.get_served [of _ undefined, unfolded snapshot_mib_simps]
  td.get_served [of _ undefined, unfolded td_mib_simps]

lemmas next_served_instances =
  scalar.next_served [unfolded scalar_mib_simps] mapped.next_served [unfolded map_mib_simps]
  fn.next_served [of _ undefined, unfolded fn_mib_simps]
  tabled.next_served [of _ undefined, unfolded snapshot_mib_simps]
  cached.next_served [of _ undefined, unfolded snapshot_mib_simps]
  td.next_served [of _ undefined, unfolded td_mib_simps]

lemma obj_get_served: "obj_wf ob \<Longrightarrow> obj_get o1 ob = (r, ob') \<Longrightarrow> r = obj_cells ob o1 \<and> same_served ob ob'"
proof (induction ob arbitrary: ob')
  case (ReadOnlyObj ob)
  then show ?case by (cases "obj_get o1 ob") (auto simp: same_served_def)
qed (auto simp: lift_obj_pair same_served_def read_keeps_root snapshot_keeps_root
    dest: get_served_instances)

lemma obj_next_served:
  "obj_wf ob \<Longrightarrow> obj_get_next o1 ob = (n, ob') \<Longrightarrow> is_next (obj_cells ob) o1 n \<and> same_served ob ob'"
proof (induction ob arbitrary: ob')
  case (ReadOnlyObj ob)
  then show ?case by (cases "obj_get_next o1 ob") (auto simp: same_served_def)
qed (auto simp: lift_obj_pair same_served_def read_keeps_root snapshot_keeps_root
    dest: next_served_instances)

lemma obj_finite: "obj_wf ob \<Longrightarrow> finite (dom (obj_cells ob))"
  by (induction ob) (auto intro: scalar.finite_served mapped.finite_served fn.finite_served
      tabled.finite_served cached.finite_served td.finite_served)

interpretation obj: served_cells "obj_mib root" obj_wf obj_cells for root
  by unfold_locales (auto dest: obj_get_served obj_next_served obj_finite simp: same_served_def)

lemma obj_prepare_same: "obj_prepare o1 v ob = (r, ob') \<Longrightarrow> ob' = ob"
  by (cases ob) (auto simp: lift_obj_pair default_method_defs scalar_ops_defs map_ops_defs td_prepare_set_def
      split: if_splits option.splits)

text \<open>The type of the value a settable object has decides a reservation, and a commit keeps it.\<close>

lemma obj_prepare_ok:
  "obj_settable ob \<Longrightarrow> status_of (fst (obj_prepare o1 v ob)) = NoError \<Longrightarrow>
     (\<exists>old. obj_cells ob o1 = Some old \<and> types_compatible old v) \<and>
     (\<exists>s. (ob = ScalarObj s \<and> sc_writable s) \<or> (\<exists>m. ob = MapObj m \<and> mh_writable m))"
  by (cases ob) (auto simp: lift_obj_def scalar_ops_defs map_ops_defs status_of_def scalar_cells_def
      map_cells_def split: if_splits option.splits)

lemma obj_commit_ok:
  assumes "obj_wf ob" and "obj_settable ob" and "status_of (fst (obj_prepare o1 v ob)) = NoError"
    and "obj_commit o1 v ob = (r, ob')"
  shows "r = Ok () \<and> obj_wf ob' \<and> obj_settable ob' \<and> obj_root ob' = obj_root ob \<and>
    obj_cells ob' = (obj_cells ob)(o1 \<mapsto> v)"
  using obj_prepare_ok [OF assms(2,3)] assms
  by (auto simp: lift_obj_def scalar_ops_defs map_ops_defs scalar_cells_def map_cells_def scalar_ok_def
      map_ok_def btm_get_insert btm_wf_insert split: if_splits option.splits)

lemma obj_prepare_stays:
  assumes "obj_settable ob" and "status_of (fst (obj_prepare o1 v ob)) = NoError"
    and "status_of (fst (obj_prepare o2 v2 ob)) = NoError" and "obj_commit o1 v ob = (r, ob')"
  shows "status_of (fst (obj_prepare o2 v2 ob')) = NoError"
proof -
  obtain old where "obj_cells ob o1 = Some old" "types_compatible old v"
    using obj_prepare_ok [OF assms(1,2)] by auto
  moreover obtain old2 where "obj_cells ob o2 = Some old2" "types_compatible old2 v2"
    using obj_prepare_ok [OF assms(1,3)] by auto
  moreover have "types_compatible v v2" if "o1 = o2"
    using calculation that by (auto intro: types_compatible_trans types_compatible_sym)
  ultimately show ?thesis
    using obj_prepare_ok [OF assms(1,2)] assms(4)
    by (auto simp: lift_obj_def scalar_ops_defs map_ops_defs scalar_cells_def map_cells_def status_of_def
        btm_get_insert split: if_splits option.splits)
qed

section \<open>The world keeps the contracts\<close>

definition roots_disjoint :: "oid list \<Rightarrow> bool" where
  "roots_disjoint roots \<longleftrightarrow>
     (\<forall>i<length roots. \<forall>j<length roots. is_prefix_of (roots ! i) (roots ! j) \<longrightarrow> i = j)"

text \<open>The cells of an object lie under its root and none holds the end-of-view marker.\<close>

definition obj_rooted :: "mib_object \<Rightarrow> bool" where
  "obj_rooted ob \<longleftrightarrow>
     (\<forall>o1 v. obj_cells ob o1 = Some v \<longrightarrow> is_prefix_of (obj_root ob) o1 \<and> v \<noteq> EndOfMibView)"

definition world_ok :: "oid list \<Rightarrow> world \<Rightarrow> bool" where
  "world_ok roots w \<longleftrightarrow> roots_disjoint roots \<and> map obj_root w = roots \<and>
     (\<forall>ob\<in>set w. obj_wf ob \<and> obj_rooted ob)"

definition world_settable :: "oid list \<Rightarrow> world \<Rightarrow> bool" where
  "world_settable roots w \<longleftrightarrow> world_ok roots w \<and> (\<forall>ob\<in>set w. obj_settable ob)"

definition world_cells :: "world \<Rightarrow> oid \<Rightarrow> oid \<Rightarrow> value option" where
  "world_cells w root =
     (case map_of (map (\<lambda>ob. (obj_root ob, obj_cells ob)) w) root of Some c \<Rightarrow> c | None \<Rightarrow> Map.empty)"

lemma roots_distinct: "roots_disjoint roots \<Longrightarrow> distinct roots"
  by (auto simp: roots_disjoint_def distinct_conv_nth)

lemma map_of_list_update:
  "distinct (map fst xs) \<Longrightarrow> i < length xs \<Longrightarrow>
     map_of (xs[i := (fst (xs ! i), c)]) = (map_of xs)(fst (xs ! i) \<mapsto> c)"
proof (induction xs arbitrary: i)
  case (Cons x xs)
  show ?case
  proof (cases i)
    case 0
    then show ?thesis by (cases x) (simp add: fun_eq_iff)
  next
    case (Suc k)
    then have "fst (xs ! k) \<noteq> fst x" using Cons.prems by (auto simp: image_iff) (metis nth_mem)
    then show ?thesis using Cons Suc by (cases x) (auto simp: fun_upd_twist)
  qed
qed simp

lemma world_cells_nth:
  assumes "world_ok roots w" and "i < length roots"
  shows "world_cells w (roots ! i) = obj_cells (w ! i)" and "w ! i \<in> set w" and "obj_root (w ! i) = roots ! i"
proof -
  have m: "map obj_root w = roots" "distinct roots" using assms(1) roots_distinct by (auto simp: world_ok_def)
  have l: "i < length w" using assms(2) m(1) by auto
  show r: "obj_root (w ! i) = roots ! i" using m(1) l by (metis nth_map)
  show "w ! i \<in> set w" using l by simp
  have "map_of (map (\<lambda>ob. (obj_root ob, obj_cells ob)) w) (roots ! i) = Some (obj_cells (w ! i))"
    using l m r by (subst map_of_eq_Some_iff) (auto simp: comp_def intro!: image_eqI [of _ _ "w ! i"])
  then show "world_cells w (roots ! i) = obj_cells (w ! i)" by (simp add: world_cells_def)
qed

lemma world_read:
  assumes "world_ok roots w" and "i < length roots" and "same_served (w ! i) ob"
  shows "world_ok roots (w[i := ob]) \<and> world_cells (w[i := ob]) = world_cells w \<and>
    (world_settable roots w \<longrightarrow> world_settable roots (w[i := ob]))"
proof -
  note n = world_cells_nth [OF assms(1,2)]
  have l: "i < length w" using assms(1,2) by (auto simp: world_ok_def)
  have "map (\<lambda>ob. (obj_root ob, obj_cells ob)) (w[i := ob]) = map (\<lambda>ob. (obj_root ob, obj_cells ob)) w"
    using assms(3) l by (simp add: map_update same_served_def)
      (metis (mono_tags, lifting) length_map list_update_id nth_map)
  then have c: "world_cells (w[i := ob]) = world_cells w" by (simp add: world_cells_def fun_eq_iff)
  have "obj_wf (w ! i)" "obj_rooted (w ! i)" using assms(1) n(2) by (auto simp: world_ok_def)
  then have ob: "obj_wf ob" "obj_rooted ob" "obj_root ob = roots ! i"
    using assms(3) n(3) by (auto simp: same_served_def obj_rooted_def)
  have ok: "world_ok roots (w[i := ob])"
    using assms(1) ob l set_update_subset_insert [of w i ob]
    by (auto simp: world_ok_def map_update)
  moreover have "world_settable roots (w[i := ob])" if "world_settable roots w"
    using that ok assms(3) n(2) set_update_subset_insert [of w i ob]
    by (auto simp: world_settable_def same_served_def)
  ultimately show ?thesis using c by blast
qed

lemma slot_handler_simps [simp]:
  "h_root (slot_handler (i, r)) = r"
  "run_state (h_get (slot_handler (i, r)) o1) w = apsnd (\<lambda>ob. w[i := ob]) (obj_get o1 (w ! i))"
  "run_state (h_get_next (slot_handler (i, r)) o1) w = apsnd (\<lambda>ob. w[i := ob]) (obj_get_next o1 (w ! i))"
  "run_state (h_prepare_set (slot_handler (i, r)) o1 v) w = apsnd (\<lambda>ob. w[i := ob]) (obj_prepare o1 v (w ! i))"
  "run_state (h_commit_set (slot_handler (i, r)) o1 v) w = apsnd (\<lambda>ob. w[i := ob]) (obj_commit o1 v (w ! i))"
  "run_state (h_undo_set (slot_handler (i, r)) o1 v) w = (Ok (), w[i := w ! i])"
  by (simp_all add: slot_handler_def default_undo_set_def apsnd_def map_prod_def split: prod.split)

lemma world_get:
  assumes "h \<in> set (registry_for roots)" and "world_ok roots w" and "run_state (h_get h o1) w = (r, w')"
  shows "r = world_cells w (h_root h) o1 \<and> world_ok roots w' \<and> world_cells w' = world_cells w \<and>
    (world_settable roots w \<longrightarrow> world_settable roots w')"
proof -
  obtain i where i: "i < length roots" "h = slot_handler (i, roots ! i)"
    using assms(1) by (auto simp: set_registry_for)
  obtain x ob where x: "obj_get o1 (w ! i) = (x, ob)" by fastforce
  have "obj_wf (w ! i)" using world_cells_nth(2) [OF assms(2) i(1)] assms(2) by (auto simp: world_ok_def)
  from obj_get_served [OF this x] world_read [OF assms(2) i(1), of ob] show ?thesis
    using assms(3) x i world_cells_nth(1) [OF assms(2) i(1)] by auto
qed

lemma world_next:
  assumes "h \<in> set (registry_for roots)" and "world_ok roots w" and "run_state (h_get_next h o1) w = (n, w')"
  shows "is_next (world_cells w (h_root h)) o1 n \<and> world_ok roots w' \<and> world_cells w' = world_cells w \<and>
    (world_settable roots w \<longrightarrow> world_settable roots w')"
proof -
  obtain i where i: "i < length roots" "h = slot_handler (i, roots ! i)"
    using assms(1) by (auto simp: set_registry_for)
  obtain x ob where x: "obj_get_next o1 (w ! i) = (x, ob)" by fastforce
  have "obj_wf (w ! i)" using world_cells_nth(2) [OF assms(2) i(1)] assms(2) by (auto simp: world_ok_def)
  from obj_next_served [OF this x] world_read [OF assms(2) i(1), of ob] show ?thesis
    using assms(3) x i world_cells_nth(1) [OF assms(2) i(1)] by auto
qed

lemma world_finite:
  assumes "h \<in> set (registry_for roots)" and "world_ok roots w"
  shows "finite (dom (world_cells w (h_root h)))"
proof -
  obtain i where i: "i < length roots" "h = slot_handler (i, roots ! i)"
    using assms(1) by (auto simp: set_registry_for)
  show ?thesis
    using world_cells_nth [OF assms(2) i(1)] assms(2) i by (auto simp: world_ok_def obj_finite)
qed

lemma world_prepare:
  assumes "h \<in> set (registry_for roots)" and "run_state (h_prepare_set h o1 v) w = (r, w')"
  shows "w' = w"
proof -
  obtain i where i: "h = slot_handler (i, roots ! i)" using assms(1) by (auto simp: set_registry_for)
  show ?thesis
    using assms(2) obj_prepare_same [of o1 v "w ! i"] by (cases "obj_prepare o1 v (w ! i)") (auto simp: i)
qed

interpretation agent_reserve: reserving_world "registry_for roots" "world_ok roots" for roots
  by unfold_locales (rule world_prepare)

interpretation agent_world: disjoint_world "registry_for roots" "world_ok roots" world_cells for roots
proof
  fix h h' w assume "world_ok roots w" "h \<in> set (registry_for roots)" "h' \<in> set (registry_for roots)"
    "is_prefix_of (h_root h) (h_root h')"
  then show "h_root h = h_root h'"
    by (auto simp: set_registry_for world_ok_def roots_disjoint_def) blast
next
  fix h w o1 v assume h: "h \<in> set (registry_for roots)" and w: "world_ok roots w"
    and c: "world_cells w (h_root h) o1 = Some v"
  obtain i where i: "i < length roots" "h = slot_handler (i, roots ! i)" using h by (auto simp: set_registry_for)
  show "is_prefix_of (h_root h) o1 \<and> v \<noteq> EndOfMibView"
    using world_cells_nth [OF w i(1)] w c i(2) by (auto simp: world_ok_def obj_rooted_def)
qed (use world_get world_next world_finite sorted_registry_for in \<open>blast+\<close>)

lemma world_commit:
  assumes "h \<in> set (registry_for roots)" and "world_settable roots w"
    and "status_of (fst (run_state (h_prepare_set h o1 v) w)) = NoError"
    and "run_state (h_commit_set h o1 v) w = (r, w')"
  shows "r = Ok () \<and> world_settable roots w' \<and>
    world_cells w' = (world_cells w)(h_root h := (world_cells w (h_root h))(o1 \<mapsto> v))"
proof -
  have ok: "world_ok roots w" using assms(2) by (simp add: world_settable_def)
  obtain i where i: "i < length roots" "h = slot_handler (i, roots ! i)"
    using assms(1) by (auto simp: set_registry_for)
  note n = world_cells_nth [OF ok i(1)]
  have l: "i < length w" using ok i(1) by (auto simp: world_ok_def)
  have wi: "obj_wf (w ! i)" "obj_settable (w ! i)" "obj_rooted (w ! i)"
    using assms(2) n(2) by (auto simp: world_settable_def world_ok_def)
  have pre: "status_of (fst (obj_prepare o1 v (w ! i))) = NoError" using assms(3) by (simp add: i)
  obtain x ob where x: "obj_commit o1 v (w ! i) = (x, ob)" by fastforce
  note c = obj_commit_ok [OF wi(1,2) pre x]
  have r: "r = x" "w' = w[i := ob]" using assms(4) x by (auto simp: i)
  obtain old where old: "obj_cells (w ! i) o1 = Some old" "types_compatible old v"
    using obj_prepare_ok [OF wi(2) pre] by auto
  have "v \<noteq> EndOfMibView" using old(2) by (auto simp: types_compatible_iff is_sentinel_def)
  then have rooted: "obj_rooted ob" using wi(3) c old(1) by (auto simp: obj_rooted_def)
  have "distinct (map fst (map (\<lambda>ob. (obj_root ob, obj_cells ob)) w))"
    using ok roots_distinct by (auto simp: world_ok_def comp_def)
  from map_of_list_update [OF this, of i "obj_cells ob"]
  have "map_of (map (\<lambda>ob. (obj_root ob, obj_cells ob)) w') =
      (map_of (map (\<lambda>ob. (obj_root ob, obj_cells ob)) w))(roots ! i \<mapsto> obj_cells ob)"
    using conjunct1 [OF conjunct2 [OF conjunct2 [OF conjunct2 [OF c]]]] l n(3) by (simp add: r map_update)
  then have "world_cells w' = (world_cells w)(roots ! i := obj_cells ob)"
    by (intro ext) (simp add: world_cells_def)
  then have "world_cells w' = (world_cells w)(h_root h := (world_cells w (h_root h))(o1 \<mapsto> v))"
    using c n(1) by (simp add: i)
  moreover have "world_settable roots w'"
    using assms(2) c rooted l n(3) set_update_subset_insert [of w i ob]
    by (auto simp: world_settable_def world_ok_def r map_update)
  ultimately show ?thesis using c r by simp
qed

interpretation agent_settable: settable_world "registry_for roots" "world_settable roots" world_cells for roots
proof
  fix h h' w o1 v o2 v2 r w'
  assume h: "h \<in> set (registry_for roots)" "h' \<in> set (registry_for roots)" and w: "world_settable roots w"
    and p: "status_of (fst (run_state (h_prepare_set h o1 v) w)) = NoError"
      "status_of (fst (run_state (h_prepare_set h' o2 v2) w)) = NoError"
    and c: "run_state (h_commit_set h o1 v) w = (r, w')"
  obtain i j where i: "i < length roots" "h = slot_handler (i, roots ! i)"
    and j: "j < length roots" "h' = slot_handler (j, roots ! j)"
    using h by (auto simp: set_registry_for)
  obtain x ob where x: "obj_commit o1 v (w ! i) = (x, ob)" by fastforce
  have s: "obj_settable (w ! i)" "i < length w"
    using w i(1) world_cells_nth(2) [of roots w i] by (auto simp: world_settable_def world_ok_def)
  show "status_of (fst (run_state (h_prepare_set h' o2 v2) w')) = NoError"
  proof (cases "i = j")
    case True
    then show ?thesis using obj_prepare_stays [OF s(1) _ _ x, of o2 v2] p c x i j s(2) by auto
  next
    case False
    then show ?thesis using p(2) c x i j by auto
  qed
next
  fix h w o1 r w' assume "h \<in> set (registry_for roots)" "world_settable roots w" "run_state (h_get h o1) w = (r, w')"
  then show "r = world_cells w (h_root h) o1 \<and> world_settable roots w' \<and> world_cells w' = world_cells w"
    using world_get world_settable_def by blast
next
  fix h w o1 n w' assume "h \<in> set (registry_for roots)" "world_settable roots w" "run_state (h_get_next h o1) w = (n, w')"
  then show "is_next (world_cells w (h_root h)) o1 n \<and> world_settable roots w' \<and> world_cells w' = world_cells w"
    using world_next world_settable_def by blast
qed (use world_finite world_prepare world_commit world_settable_def in \<open>blast+\<close>)

section \<open>Properties of the dispatch\<close>

text \<open>The objects of the agent: what the registered handlers serve, each under its own root.\<close>

definition agent_mib :: "oid list \<Rightarrow> world \<Rightarrow> oid \<Rightarrow> value option" where
  "agent_mib roots w = merged (registry_for roots) (world_cells w)"

lemma agent_mib_iff:
  assumes "world_ok roots w"
  shows "agent_mib roots w o1 = Some v \<longleftrightarrow> (\<exists>ob\<in>set w. obj_cells ob o1 = Some v)"
proof -
  have "agent_mib roots w o1 = Some v \<longleftrightarrow> (\<exists>i<length roots. world_cells w (roots ! i) o1 = Some v)"
    unfolding agent_mib_def agent_world.merged_iff [OF assms] by (auto simp: set_registry_for)
  also have "\<dots> \<longleftrightarrow> (\<exists>i<length w. obj_cells (w ! i) o1 = Some v)"
  proof -
    have "length w = length roots" using assms by (auto simp: world_ok_def)
    then show ?thesis by (intro iff_exI conj_cong) (simp_all add: world_cells_nth(1) [OF assms])
  qed
  finally show ?thesis by (metis in_set_conv_nth)
qed

text \<open>A small agent for the witnesses: a writable scalar and a map.\<close>

definition sample_world :: world where
  "sample_world = [ScalarObj (scalar_writable (scalar_new (Oid [1, 1]) (Integer 5))),
                   MapObj (map_with (Oid [1, 2, 1]) (Integer 9) (map_new (Oid [1, 2])))]"

abbreviation sample_roots :: "oid list" where
  "sample_roots \<equiv> [Oid [1, 1], Oid [1, 2]]"

lemma sample_world_settable: "world_settable sample_roots sample_world"
  by (auto simp: world_settable_def world_ok_def roots_disjoint_def sample_world_def scalar_writable_def
      scalar_new_def map_with_def map_new_def scalar_ok_def map_ok_def obj_rooted_def scalar_cells_def
      map_cells_def is_prefix_of_iff child_def nth_Cons' less_Suc_eq split: if_splits)

lemma sample_world_ok: "world_ok sample_roots sample_world"
  using sample_world_settable by (simp add: world_settable_def)

lemma sample_mib: "agent_mib sample_roots sample_world = [Oid [1, 1, 0] \<mapsto> Integer 5, Oid [1, 2, 1] \<mapsto> Integer 9]"
proof
  fix o1
  have "agent_mib sample_roots sample_world o1 = Some v \<longleftrightarrow>
      [Oid [1, 1, 0] \<mapsto> Integer 5, Oid [1, 2, 1] \<mapsto> Integer 9] o1 = Some v" for v
    by (simp add: agent_mib_iff [OF sample_world_ok])
      (auto simp: sample_world_def scalar_writable_def scalar_new_def map_with_def map_new_def scalar_cells_def
        map_cells_def child_def split: if_splits)
  then show "agent_mib sample_roots sample_world o1 =
      [Oid [1, 1, 0] \<mapsto> Integer 5, Oid [1, 2, 1] \<mapsto> Integer 9] o1"
    by (metis option.exhaust)
qed

text \<open>C4: A GET request is answered for every varbind with the value of the object at that OID,
  with noSuchInstance when only the subtree is served and with noSuchObject when no handler is
  registered above the OID; or, when some varbind is outside the caller's read view, with
  noAccess, the 1-based index of the first such varbind and the varbinds as requested.  It
  does not change what the agent serves.\<close>

theorem get_request_spec:
  assumes "world_ok roots w" and "ptype request = Get"
    and "run_state (process_with_access fuel (registry_for roots) request sec) w = (r, w')"
  shows "world_ok roots w' \<and> agent_mib roots w' = agent_mib roots w \<and> r = Some
    (if \<forall>vb\<in>set (variables request). allows sec ReadView (vb_oid vb)
     then \<lparr>ptype = Response, request_id = request_id request, error_status = 0, error_index = 0,
           variables = map (\<lambda>vb. \<lparr>vb_oid = vb_oid vb,
               vb_value = (case agent_mib roots w (vb_oid vb) of Some v \<Rightarrow> v
                 | None \<Rightarrow> if \<exists>root\<in>set roots. is_prefix_of root (vb_oid vb)
                           then NoSuchInstance else NoSuchObject)\<rparr>) (variables request),
           v1_trap = None\<rparr>
     else \<lparr>ptype = Response, request_id = request_id request, error_status = status_code NoAccess,
           error_index = word_of_nat
             (length (takeWhile (\<lambda>vb. allows sec ReadView (vb_oid vb)) (variables request)) + 1),
           variables = variables request, v1_trap = None\<rparr>)"
proof -
  have roots: "(\<exists>h\<in>set (registry_for roots). is_prefix_of (h_root h) o1) \<longleftrightarrow> (\<exists>root\<in>set roots. is_prefix_of root o1)" for o1
  proof -
    have "h_root ` set (registry_for roots) = set roots"
      by (auto simp: set_registry_for in_set_conv_nth image_iff) (metis slot_handler_simps(1))
    then show ?thesis by (metis (no_types, lifting) image_iff)
  qed
  show ?thesis
    using agent_world.process_get_run [OF assms(1,2,3)]
    unfolding mib_value_merged roots agent_mib_def deny_def new_pdu_def new_varbind_def by simp
qed

theorem get_request_spec_witness:
  "\<exists>resp. fst (run_state (process_with_access 0 (registry_for sample_roots)
       (with_null_var (with_null_var (new_pdu Get 7) (Oid [1, 2, 1])) (Oid [1, 3])) permissive) sample_world)
     = Some resp \<and> map vb_value (variables resp) = [Integer 9, NoSuchObject]"
proof -
  let ?req = "with_null_var (with_null_var (new_pdu Get 7) (Oid [1, 2, 1])) (Oid [1, 3])"
  obtain r w' where run: "run_state (process_with_access 0 (registry_for sample_roots) ?req permissive) sample_world
      = (r, w')" by fastforce
  have "ptype ?req = Get" by (simp add: with_null_var_def)
  from get_request_spec [OF sample_world_ok this run] show ?thesis
    unfolding run fst_conv by (simp add: sample_mib with_null_var_def null_varbind_def allows_def permissive_def is_prefix_of_def)
qed

text \<open>C3: A GETNEXT request returns, given more fuel than the agent has objects, and answers every
  varbind with the object of the least OID above the requested one that the caller may read,
  or with endOfMibView at the requested OID when there is none.  So the walk over objects
  outside the view ends, and no such object shows in the answer.\<close>

theorem get_next_request_spec:
  assumes "world_ok roots w" and "ptype request = GetNext"
    and "card (dom (agent_mib roots w)) < fuel"
    and "run_state (process_with_access fuel (registry_for roots) request sec) w = (r, w')"
  shows "world_ok roots w' \<and> agent_mib roots w' = agent_mib roots w \<and>
    (\<exists>vbs. r = Some ((new_pdu Response (request_id request))\<lparr>variables := vbs\<rparr>) \<and>
       list_all2 (\<lambda>req vb. answers_next (visible sec (agent_mib roots w)) (vb_oid req) vb)
         (variables request) vbs)"
  using agent_world.process_next_run [OF assms(1,2) assms(3) [unfolded agent_mib_def] assms(4)]
  by (simp add: agent_mib_def)

lemma sample_card: "card (dom (agent_mib sample_roots sample_world)) < 3"
  by (simp add: sample_mib)

theorem get_next_request_spec_witness:
  "\<exists>resp. fst (run_state (process_with_access 3 (registry_for sample_roots)
       (with_null_var (new_pdu GetNext 7) (Oid [1, 1, 0])) permissive) sample_world) = Some resp \<and>
     list_all2 (\<lambda>req vb. answers_next (agent_mib sample_roots sample_world) (vb_oid req) vb)
       [null_varbind (Oid [1, 1, 0])] (variables resp)"
proof -
  let ?req = "with_null_var (new_pdu GetNext 7) (Oid [1, 1, 0])"
  obtain r w' where run: "run_state (process_with_access 3 (registry_for sample_roots) ?req permissive) sample_world
      = (r, w')" by fastforce
  have "ptype ?req = GetNext" by (simp add: with_null_var_def)
  from get_next_request_spec [OF sample_world_ok this sample_card run] show ?thesis
    unfolding run fst_conv
    using agent_world.visible_permissive [of permissive] by (auto simp: with_null_var_def permissive_def)
qed

text \<open>C5: A GETBULK request returns and answers the first \<open>non-repeaters\<close> varbinds like GETNEXT and the
  others with up to \<open>max-repetitions\<close> rows of successors, each row continuing from the one
  before and the last row being the one where every column is past the end; a negative
  counter is taken as zero, and the response has at most
  \<open>non-repeaters + max-repetitions * repeaters\<close> varbinds.\<close>

theorem get_bulk_request_spec:
  assumes "world_ok roots w" and "ptype request = GetBulk"
    and "card (dom (agent_mib roots w)) < fuel"
    and "run_state (process_with_access fuel (registry_for roots) request sec) w = (r, w')"
    and "nr = nat (max 0 (sint (error_status request)))" and "reps = nat (max 0 (sint (error_index request)))"
  shows "world_ok roots w' \<and> agent_mib roots w' = agent_mib roots w \<and>
    (\<exists>once rows. r = Some ((new_pdu Response (request_id request))\<lparr>variables := once @ rows\<rparr>) \<and>
       list_all2 (answers_next (visible sec (agent_mib roots w))) (map vb_oid (take nr (variables request))) once \<and>
       answers_bulk (visible sec (agent_mib roots w)) reps (map vb_oid (drop nr (variables request))) rows \<and>
       length rows \<le> reps * (length (variables request) - nr))"
proof -
  have n: "i64_max0_usize (non_repeaters request) = nr" "i64_max0_usize (max_repetitions request) = reps"
    by (simp_all add: i64_max0_usize_def non_repeaters_def max_repetitions_def assms(5,6))
  let ?m = "visible sec (agent_mib roots w)"
  obtain once rows where p: "world_ok roots w'" "world_cells w' = world_cells w"
    and rows: "r = Some ((new_pdu Response (request_id request))\<lparr>variables := once @ rows\<rparr>)"
      "list_all2 (answers_next ?m) (map vb_oid (take nr (variables request))) once"
      "answers_bulk ?m reps (map vb_oid (drop nr (variables request))) rows"
    using agent_world.process_bulk_run [OF assms(1,2) assms(3) [unfolded agent_mib_def] assms(4)]
    unfolding n agent_mib_def by blast
  have "length rows \<le> reps * (length (variables request) - nr)" using answers_bulk_bound [OF rows(3)] by simp
  then have "\<exists>once rows. r = Some ((new_pdu Response (request_id request))\<lparr>variables := once @ rows\<rparr>) \<and>
       list_all2 (answers_next ?m) (map vb_oid (take nr (variables request))) once \<and>
       answers_bulk ?m reps (map vb_oid (drop nr (variables request))) rows \<and>
       length rows \<le> reps * (length (variables request) - nr)"
    using rows by blast
  then show ?thesis using p unfolding agent_mib_def by simp
qed

theorem get_bulk_request_spec_witness:
  "\<exists>rows. fst (run_state (process_with_access 3 (registry_for sample_roots)
       ((with_null_var (new_pdu GetBulk 7) (Oid [1]))\<lparr>error_index := 2\<rparr>) permissive) sample_world)
     = Some ((new_pdu Response 7)\<lparr>variables := rows\<rparr>) \<and> length rows \<le> 2"
proof -
  let ?req = "(with_null_var (new_pdu GetBulk 7) (Oid [1]))\<lparr>error_index := 2\<rparr>"
  obtain r w' where run: "run_state (process_with_access 3 (registry_for sample_roots) ?req permissive) sample_world
      = (r, w')" by fastforce
  have "ptype ?req = GetBulk" "0 = nat (max 0 (sint (error_status ?req)))"
      "2 = nat (max 0 (sint (error_index ?req)))"
    by (simp_all add: with_null_var_def)
  from get_bulk_request_spec [OF sample_world_ok this(1) sample_card run this(2,3)] show ?thesis
    unfolding run fst_conv by (auto simp: with_null_var_def)
qed

text \<open>C2: A SET of which some varbind cannot be reserved changes nothing: the response carries the
  status of the first varbind that fails, its 1-based index and the varbinds as requested, and
  the agent's whole state is as before.  This holds for every kind of handler.\<close>

theorem set_refused_changes_nothing:
  assumes "world_ok roots w" and "ptype request = Set"
    and "first_denied sec 0 (variables request) = None"
    and "k < length (variables request)"
    and "plan_status w (plans_of (registry_for roots) (variables request) ! k) = st" and "st \<noteq> NoError"
    and "\<forall>i<k. plan_status w (plans_of (registry_for roots) (variables request) ! i) = NoError"
  shows "run_state (process_with_access fuel (registry_for roots) request sec) w =
    (Some \<lparr>ptype = Response, request_id = request_id request, error_status = status_code st,
           error_index = word_of_nat (k + 1), variables = variables request, v1_trap = None\<rparr>, w)"
  using agent_reserve.process_set_refused [OF assms(1,4-7)] assms(2,3)
  by (simp add: process_with_access_def deny_def new_pdu_def)

lemma sample_registry: "registry_for sample_roots = [slot_handler (0, Oid [1, 1]), slot_handler (1, Oid [1, 2])]"
  by (simp add: registry_for_def register_def less_eq_oid_def)

lemma sample_handler_for:
  "handler_for (registry_for sample_roots) (Oid (1 # 1 # t)) = Some (slot_handler (0, Oid [1, 1]))"
  "handler_for (registry_for sample_roots) (Oid (1 # 2 # t)) = Some (slot_handler (1, Oid [1, 2]))"
  by (simp_all add: sample_registry handler_for_def is_prefix_of_def max_by_key_def)

theorem set_refused_changes_nothing_witness:
  "run_state (process_with_access 0 (registry_for sample_roots)
     (with_var (with_var (new_pdu Set 7) (Oid [1, 1, 0]) (Integer 8)) (Oid [1, 2, 1]) (Integer 8)) permissive)
     sample_world
   = (Some \<lparr>ptype = Response, request_id = 7, error_status = status_code NotWritable, error_index = 2,
           variables = [new_varbind (Oid [1, 1, 0]) (Integer 8), new_varbind (Oid [1, 2, 1]) (Integer 8)],
           v1_trap = None\<rparr>, sample_world)"
proof -
  let ?req = "with_var (with_var (new_pdu Set 7) (Oid [1, 1, 0]) (Integer 8)) (Oid [1, 2, 1]) (Integer 8)"
  let ?ps = "plans_of (registry_for sample_roots) (variables ?req)"
  have "plan_status sample_world (?ps ! 1) = NotWritable" "plan_status sample_world (?ps ! 0) = NoError"
    by (simp_all add: plans_of_def with_var_def sample_handler_for plan_status_def sample_world_def lift_obj_def
        map_ops_defs map_with_def map_new_def status_of_def scalar_ops_defs scalar_writable_def scalar_new_def
        child_def types_compatible_def is_sentinel_def)
  then show ?thesis
    using set_refused_changes_nothing [of sample_roots sample_world ?req permissive 1 NotWritable 0]
    by (simp add: sample_world_ok with_var_def allows_def permissive_def)
qed

text \<open>C1: On an agent of scalars, maps and read-only handlers, a SET whose varbinds can all be
  reserved succeeds: the response has no error and echoes the varbinds, and afterwards every
  object named in the request has the last value requested for it and every other object the
  value it had.\<close>

theorem set_accepted_updates:
  assumes "world_settable roots w" and "ptype request = Set"
    and "first_denied sec 0 (variables request) = None"
    and "\<forall>p\<in>set (plans_of (registry_for roots) (variables request)). plan_status w p = NoError"
    and "run_state (process_with_access fuel (registry_for roots) request sec) w = (r, w')"
  shows "r = Some ((new_pdu Response (request_id request))\<lparr>variables := variables request\<rparr>) \<and>
    world_settable roots w' \<and>
    agent_mib roots w' =
      foldl (\<lambda>m vb. m(vb_oid vb \<mapsto> vb_value vb)) (agent_mib roots w) (variables request)"
proof -
  obtain x t where x: "run_state (process_set (registry_for roots) request
      (new_pdu Response (request_id request))) w = (x, t)" by fastforce
  then have "r = Some x" "w' = t" using assms(2,3,5) by (auto simp: process_with_access_def)
  then show ?thesis
    using agent_settable.process_set_accepted [OF assms(1,4) x] unfolding agent_mib_def by simp
qed

theorem set_accepted_updates_witness:
  "agent_mib sample_roots (snd (run_state (process_with_access 0 (registry_for sample_roots)
     (with_var (new_pdu Set 7) (Oid [1, 1, 0]) (Integer 8)) permissive) sample_world)) (Oid [1, 1, 0])
   = Some (Integer 8)"
proof -
  let ?req = "with_var (new_pdu Set 7) (Oid [1, 1, 0]) (Integer 8)"
  obtain r w' where run: "run_state (process_with_access 0 (registry_for sample_roots) ?req permissive) sample_world
      = (r, w')" by fastforce
  have "\<forall>p\<in>set (plans_of (registry_for sample_roots) (variables ?req)). plan_status sample_world p = NoError"
    by (simp add: plans_of_def with_var_def sample_handler_for plan_status_def sample_world_def lift_obj_def
        status_of_def scalar_ops_defs scalar_writable_def scalar_new_def child_def types_compatible_def
        is_sentinel_def)
  moreover have "ptype ?req = Set" "first_denied permissive 0 (variables ?req) = None"
    by (simp_all add: with_var_def allows_def permissive_def)
  ultimately show ?thesis
    using set_accepted_updates [OF sample_world_settable _ _ _ run] unfolding run snd_conv by (simp add: with_var_def)
qed

text \<open>A SET with a varbind outside the caller's write view is refused with noAccess and the
  1-based index of the first such varbind before any handler is asked, whatever the handlers
  are, and changes nothing.\<close>

lemma set_denied_changes_nothing:
  assumes "ptype request = Set" and "k < length (variables request)"
    and "\<not> allows sec WriteView (vb_oid (variables request ! k))"
    and "\<forall>i<k. allows sec WriteView (vb_oid (variables request ! i))"
  shows "run_state (process_with_access fuel hs request sec) w =
    (Some \<lparr>ptype = Response, request_id = request_id request, error_status = status_code NoAccess,
           error_index = word_of_nat (k + 1), variables = variables request, v1_trap = None\<rparr>, w)"
proof -
  have "first_denied sec idx vbs = Some (idx + k)"
    if "k < length vbs" "\<not> allows sec WriteView (vb_oid (vbs ! k))" "\<forall>i<k. allows sec WriteView (vb_oid (vbs ! i))"
    for idx vbs k
    using that
  proof (induction vbs arbitrary: idx k)
    case (Cons vb vbs)
    show ?case
    proof (cases k)
      case 0
      then show ?thesis using Cons.prems by simp
    next
      case (Suc j)
      then have "allows sec WriteView (vb_oid vb)" "\<forall>i<j. allows sec WriteView (vb_oid (vbs ! i))"
        using Cons.prems(3) by force+
      then show ?thesis using Cons.IH [of j "idx + 1"] Cons.prems Suc by simp
    qed
  qed simp
  from this [OF assms(2-4), of 0] show ?thesis
    using assms(1) by (simp add: process_with_access_def deny_def new_pdu_def)
qed

text \<open>An agent with an empty access control configuration answers every request as one without
  access control, although GETBULK takes a different path in the two cases.\<close>

lemma empty_vacm_is_permissive:
  assumes "world_ok roots w" and "card (dom (agent_mib roots w)) < fuel" and "vacm_is_empty v"
  shows "fst (run_state (process_with_access fuel (registry_for roots) request (sec\<lparr>sec_vacm := Some v\<rparr>)) w) =
    fst (run_state (process_with_access fuel (registry_for roots) request (sec\<lparr>sec_vacm := None\<rparr>)) w)"
proof -
  let ?a = "sec\<lparr>sec_vacm := Some v\<rparr>" and ?b = "sec\<lparr>sec_vacm := None\<rparr>"
  have al: "allows ?a t o1" "allows ?b t o1" for t o1
    using assms(3) by (simp_all add: allows_def is_view_accessible_def)
  obtain r wr q wq where r: "run_state (process_with_access fuel (registry_for roots) request ?a) w = (r, wr)"
    and q: "run_state (process_with_access fuel (registry_for roots) request ?b) w = (q, wq)" by fastforce
  have vis: "visible ?a m = m" "visible ?b m = m" for m by (simp_all add: visible_def al fun_eq_iff)
  have fd: "first_denied ?a idx vbs = None" "first_denied ?b idx vbs = None" for idx vbs
    by (induction vbs arbitrary: idx) (simp_all add: al)
  show ?thesis
  proof (cases "ptype request")
    case Get
    from agent_world.process_get_run [OF assms(1) this r] agent_world.process_get_run [OF assms(1) this q]
    show ?thesis by (simp add: r q al)
  next
    case GetNext
    note n = agent_world.process_next_run [OF assms(1) this assms(2) [unfolded agent_mib_def]]
    obtain a where a: "r = Some ((new_pdu Response (request_id request))\<lparr>variables := a\<rparr>)"
        "list_all2 (\<lambda>vb. answers_next (merged (registry_for roots) (world_cells w)) (vb_oid vb)) (variables request) a"
      using n [OF r, unfolded vis] by blast
    obtain b where b: "q = Some ((new_pdu Response (request_id request))\<lparr>variables := b\<rparr>)"
        "list_all2 (\<lambda>vb. answers_next (merged (registry_for roots) (world_cells w)) (vb_oid vb)) (variables request) b"
      using n [OF q, unfolded vis] by blast
    have "a = b" using a(2) b(2) by (rule list_all2_functional) (rule answers_next_unique)
    then show ?thesis by (simp add: r q a(1) b(1))
  next
    case GetBulk
    note n = agent_world.process_bulk_run [OF assms(1) this assms(2) [unfolded agent_mib_def]]
    obtain o1 r1 where r1: "r = Some ((new_pdu Response (request_id request))\<lparr>variables := o1 @ r1\<rparr>)"
        "list_all2 (answers_next (merged (registry_for roots) (world_cells w)))
           (map vb_oid (take (i64_max0_usize (non_repeaters request)) (variables request))) o1"
        "answers_bulk (merged (registry_for roots) (world_cells w)) (i64_max0_usize (max_repetitions request))
           (map vb_oid (drop (i64_max0_usize (non_repeaters request)) (variables request))) r1"
      using n [OF r, unfolded vis] by blast
    obtain o2 r2 where r2: "q = Some ((new_pdu Response (request_id request))\<lparr>variables := o2 @ r2\<rparr>)"
        "list_all2 (answers_next (merged (registry_for roots) (world_cells w)))
           (map vb_oid (take (i64_max0_usize (non_repeaters request)) (variables request))) o2"
        "answers_bulk (merged (registry_for roots) (world_cells w)) (i64_max0_usize (max_repetitions request))
           (map vb_oid (drop (i64_max0_usize (non_repeaters request)) (variables request))) r2"
      using n [OF q, unfolded vis] by blast
    have "o1 = o2" using r1(2) r2(2) by (rule list_all2_functional) (rule answers_next_unique)
    moreover have "r1 = r2" using r1(3) r2(3) by (rule answers_bulk_unique)
    ultimately show ?thesis by (simp add: r q r1(1) r2(1))
  qed (simp_all add: process_with_access_def fd Let_def)
qed

end
