(* ===== verification/Snmp_Walk.thy ===== *)
theory Snmp_Walk
  imports Snmp_Objects
begin

text \<open>
  What a manager sees of a whole agent: a walk by repeated GETNEXT enumerates exactly the
  objects the caller may read, in order; and two situations in which the agent does less
  than its documentation says: a SET whose commit fails part way, and registered roots that
  are nested.
\<close>

section \<open>A walk\<close>

text \<open>Repeated single-varbind GETNEXT requests, each continuing from the OID of the last answer.\<close>

fun walk ::
  "nat \<Rightarrow> nat \<Rightarrow> oid list \<Rightarrow> security_context \<Rightarrow> oid \<Rightarrow> (world, oid list) state" where
  "walk 0 fuel roots sec o1 = State_Monad.return []"
| "walk (Suc n) fuel roots sec o1 = do {
     r \<leftarrow> process_with_access fuel (registry_for roots) (with_null_var (new_pdu GetNext 0) o1) sec;
     case r of
       None \<Rightarrow> State_Monad.return []
     | Some resp \<Rightarrow>
         (let vb = hd (variables resp) in
          if vb_value vb = EndOfMibView then State_Monad.return []
          else do {
            rest \<leftarrow> walk n fuel roots sec (vb_oid vb);
            State_Monad.return (vb_oid vb # rest)
          })
   }"

lemma sorted_list_above:
  fixes D :: "'a::linorder set"
  assumes "finite D" and "k' \<in> D" and "k < k'" and "\<forall>j\<in>D. k < j \<longrightarrow> k' \<le> j"
  shows "sorted_list_of_set {j\<in>D. k < j} = k' # sorted_list_of_set {j\<in>D. k' < j}"
proof -
  have A: "{j\<in>D. k < j} = insert k' {j\<in>D. k' < j}" using assms by force
  have f: "finite {j\<in>D. k' < j}" using assms(1) by simp
  show ?thesis
    unfolding A
    by (rule sorted_list_of_set.idem_if_sorted_distinct [of "k' # sorted_list_of_set {j\<in>D. k' < j}",
          simplified, THEN trans [rotated], OF _ _])
      (use f in \<open>auto simp: less_imp_le\<close>)
qed

lemma walk_step:
  assumes "world_ok roots w" and "card (dom (agent_mib roots w)) < fuel"
    and "run_state (process_with_access fuel (registry_for roots) (with_null_var (new_pdu GetNext 0) o1) sec) w = (r, w')"
  obtains vb where "r = Some ((new_pdu Response 0)\<lparr>variables := [vb]\<rparr>)" "world_ok roots w'"
    "agent_mib roots w' = agent_mib roots w" "answers_next (visible sec (agent_mib roots w)) o1 vb"
proof -
  have "ptype (with_null_var (new_pdu GetNext 0) o1) = GetNext" by (simp add: with_null_var_def)
  from agent_world.process_next_run [OF assms(1) this assms(2) [unfolded agent_mib_def] assms(3)]
  show ?thesis
    using that by (auto simp: with_null_var_def null_varbind_def agent_mib_def list_all2_Cons1)
qed

lemma walk_run:
  assumes "world_ok roots w" and "card (dom (agent_mib roots w)) < fuel"
    and "card {o2 \<in> dom (visible sec (agent_mib roots w)). o1 < o2} < n"
    and "run_state (walk n fuel roots sec o1) w = (os, w')"
  shows "os = sorted_list_of_set {o2 \<in> dom (visible sec (agent_mib roots w)). o1 < o2} \<and>
    agent_mib roots w' = agent_mib roots w"
  using assms
proof (induction n arbitrary: w o1 os w')
  case 0
  then show ?case by simp
next
  case (Suc n)
  let ?m = "visible sec (agent_mib roots w)"
  have fin: "finite (dom ?m)"
    using agent_world.finite_merged [OF Suc.prems(1)] by (simp add: dom_visible agent_mib_def)
  obtain r t where r: "run_state (process_with_access fuel (registry_for roots)
      (with_null_var (new_pdu GetNext 0) o1) sec) w = (r, t)" by fastforce
  obtain vb where vb: "r = Some ((new_pdu Response 0)\<lparr>variables := [vb]\<rparr>)" "world_ok roots t"
      "agent_mib roots t = agent_mib roots w" "answers_next ?m o1 vb"
    using walk_step [OF Suc.prems(1,2) r] .
  show ?case
  proof (cases "vb_value vb = EndOfMibView")
    case True
    then have none: "{o2 \<in> dom ?m. o1 < o2} = {}" using vb(4) by (auto simp: answers_next_def leD)
    have "os = []" "w' = t" using Suc.prems(4) r vb(1) True by (auto simp: Let_def)
    then show ?thesis unfolding none using vb(3) by simp
  next
    case False
    then have nx: "is_next ?m o1 (Some (vb_oid vb, vb_value vb))" using vb(4) by (simp add: answers_next_def)
    obtain rest u where rest: "run_state (walk n fuel roots sec (vb_oid vb)) t = (rest, u)" by fastforce
    have "{o2 \<in> dom ?m. vb_oid vb < o2} \<subset> {o2 \<in> dom ?m. o1 < o2}" using nx by auto
    then have "card {o2 \<in> dom ?m. vb_oid vb < o2} < card {o2 \<in> dom ?m. o1 < o2}"
      by (rule psubset_card_mono [rotated]) (simp add: fin)
    then have ih: "rest = sorted_list_of_set {o2 \<in> dom ?m. vb_oid vb < o2} \<and> agent_mib roots u = agent_mib roots w"
      using Suc.IH [OF vb(2) _ _ rest] Suc.prems(2,3) vb(3) by simp
    have "sorted_list_of_set {o2 \<in> dom ?m. o1 < o2} = vb_oid vb # sorted_list_of_set {o2 \<in> dom ?m. vb_oid vb < o2}"
      by (rule sorted_list_above [OF fin]) (use nx in auto)
    then show ?thesis using Suc.prems(4) r vb False rest ih by (auto simp: Let_def)
  qed
qed

section \<open>Properties\<close>

text \<open>A walk from any OID visits exactly the objects above it that the caller may read, each
  once and in the order of their OIDs, and then stops; it changes nothing that the agent
  serves.\<close>

lemma walk_enumerates:
  assumes "world_ok roots w" and "card (dom (agent_mib roots w)) < fuel"
    and "card (dom (agent_mib roots w)) < n"
    and "run_state (walk n fuel roots sec start) w = (os, w')"
  shows "set os = {o1. start < o1 \<and> agent_mib roots w o1 \<noteq> None \<and> allows sec ReadView o1} \<and>
    sorted os \<and> distinct os \<and> agent_mib roots w' = agent_mib roots w"
proof -
  have fin: "finite (dom (agent_mib roots w))"
    using agent_world.finite_merged [OF assms(1)] by (simp add: agent_mib_def)
  have "card {o2 \<in> dom (visible sec (agent_mib roots w)). start < o2} \<le> card (dom (agent_mib roots w))"
    by (rule card_mono [OF fin]) (auto simp: dom_visible)
  then have "os = sorted_list_of_set {o2 \<in> dom (visible sec (agent_mib roots w)). start < o2} \<and>
      agent_mib roots w' = agent_mib roots w"
    using walk_run [OF assms(1,2) _ assms(4)] assms(3) by simp
  then show ?thesis using fin by (auto simp: dom_visible)
qed

text \<open>A writable scalar beside a computed handler, which keeps the default \<open>prepare_set\<close>.\<close>

definition mixed_world :: world where
  "mixed_world = [ScalarObj (scalar_writable (scalar_new (Oid [1, 1]) (Integer 5))),
                  FnObj (fn_scalar (Oid [1, 2]) (Integer 9) 0)]"

lemma mixed_plans:
  "handler_for (registry_for sample_roots) (Oid [1, 1, 0]) = Some (slot_handler (0, Oid [1, 1]))"
  "handler_for (registry_for sample_roots) (Oid [1, 2, 0]) = Some (slot_handler (1, Oid [1, 2]))"
  by (rule sample_handler_for)+

text \<open>When a commit fails after another varbind was committed, the SET is reported as failed but is
  not undone: the handlers keep the default undo, which does nothing.  Here a writable scalar
  precedes a read-only computed handler, whose default reservation accepts everything.\<close>

lemma failed_set_is_not_undone:
  "run_state (process 0 (registry_for sample_roots)
       (with_var (with_var (new_pdu Set 7) (Oid [1, 1, 0]) (Integer 8)) (Oid [1, 2, 0]) (Integer 8))) mixed_world =
     (Some \<lparr>ptype = Response, request_id = 7, error_status = status_code NotWritable, error_index = 2,
            variables = [new_varbind (Oid [1, 1, 0]) (Integer 8), new_varbind (Oid [1, 2, 0]) (Integer 8)],
            v1_trap = None\<rparr>,
      [ScalarObj (scalar_writable (scalar_new (Oid [1, 1]) (Integer 8))), FnObj (fn_scalar (Oid [1, 2]) (Integer 9) 0)])"
  by (simp add: process_def process_with_access_def process_set_def with_var_def permissive_def allows_def
      mixed_plans mixed_world_def lift_obj_def scalar_ops_defs scalar_writable_def scalar_new_def child_def
      types_compatible_def is_sentinel_def status_of_def default_method_defs note_failure_def deny_def new_pdu_def
      Let_def)

text \<open>A scalar registered inside the subtree of a map.\<close>

definition nested_world :: world where
  "nested_world = [MapObj (map_with (Oid [1, 9]) (Integer 1) (map_new (Oid [1]))),
                   ScalarObj (scalar_new (Oid [1, 5]) (Integer 2))]"

text \<open>With nested roots GETNEXT is not the least successor: a map registered at 1 with an object at
  1.9 hides the scalar registered at 1.5 from every walk, although GET reads it.\<close>

lemma nested_root_hidden_from_walk:
  "fst (run_state (walk 3 3 [Oid [1], Oid [1, 5]] permissive (Oid [])) nested_world) = [Oid [1, 9]] \<and>
   fst (run_state (do_get (registry_for [Oid [1], Oid [1, 5]]) (Oid [1, 5, 0])) nested_world) = Integer 2"
proof -
  have reg: "registry_for [Oid [1], Oid [1, 5]] = [slot_handler (0, Oid [1]), slot_handler (1, Oid [1, 5])]"
    by (simp add: registry_for_def register_def less_eq_oid_def)
  show ?thesis
    by (simp add: reg numeral_3_eq_3 process_with_access_def do_get_next_accessible_def do_get_next_def
        nested_world_def lift_obj_def map_ops_defs scalar_ops_defs map_with_def map_new_def scalar_new_def child_def
        btm_after_def less_oid_def permissive_def allows_def with_null_var_def null_varbind_def do_get_def
        handler_for_def max_by_key_def is_prefix_of_def oid_len_def)
qed

end
