(* ===== verification/Snmp_Manager.thy ===== *)
theory Snmp_Manager
  imports Snmp_Session Snmp_Agent Snmp_Walk "HOL-Library.Countable"
begin

text \<open>
  A manager and an agent: the sessions of \<^verbatim>\<open>Snmp_Session\<close> over a link to the agent of
  \<^verbatim>\<open>Snmp_Agent\<close>.  A walk through the session returns exactly the objects of the subtree that the
  caller may read; an attacker on the link can answer for the agent.
\<close>

section \<open>The link to an agent\<close>

text \<open>A lossless link: what is sent is handled by the agent, whose reply is there to be received.\<close>

definition agent_link ::
  "nat \<Rightarrow> crypto \<Rightarrow> v3_rasn \<Rightarrow> u8 list \<Rightarrow> u32 \<Rightarrow> 's agent \<Rightarrow> ('s agent_state \<times> u8 list option) transport" where
  "agent_link fuel C R salt now ag =
     \<lparr>t_send = (\<lambda>b. State (\<lambda>(st, q). case handle_datagram fuel C R salt now ag b st of
                  (rep, st') \<Rightarrow> (Ok (), st', case rep of Some (Ok r) \<Rightarrow> r | _ \<Rightarrow> None))),
      t_receive = State (\<lambda>(st, q). (case q of Some r \<Rightarrow> Received r | None \<Rightarrow> Elapsed, st, None)),
      t_now = (\<lambda>s. unat now), t_salt = State_Monad.return salt\<rparr>"

text \<open>
  What the link relies on in the BER codec: it encodes the messages whose PDU converts, decoding
  inverts encoding, and the first element of an encoded message, a sequence, reads back as its version.
\<close>

definition link_codec :: "v3_rasn \<Rightarrow> bool" where
  "link_codec R \<longleftrightarrow>
     opaque_law R \<and> message_codec_laws R \<and>
     (\<forall>v com p d. pdu_to_rasn R p = Ok d \<longrightarrow>
        is_ok_result (r_enc_message R \<lparr>cm_version = sint (version_code v), cm_community = com, cm_data = d\<rparr>)) \<and>
     (\<forall>m b. r_enc_message R m = Ok b \<longrightarrow>
        (\<exists>first rest. r_dec_any R b = Ok (first # rest) \<and> r_dec_integer R first = Ok (cm_version m)))"

text \<open>So the agent sees that a community message is not a version 3 message.\<close>

lemma community_peek:
  assumes "link_codec R" and "pdu_to_rasn R p = Ok d"
  obtains b where "r_enc_message R \<lparr>cm_version = sint (version_code v), cm_community = com, cm_data = d\<rparr> = Ok b"
    "peek_security R b = Err (UnsupportedVersion (version_code v))"
proof -
  let ?m = "\<lparr>cm_version = sint (version_code v), cm_community = com, cm_data = d\<rparr>"
  have "is_ok_result (r_enc_message R ?m)" using assms by (simp add: link_codec_def)
  then obtain b where b: "r_enc_message R ?m = Ok b" by (cases "r_enc_message R ?m") auto
  then obtain first rest where "r_dec_any R b = Ok (first # rest)" "r_dec_integer R first = Ok (sint (version_code v))"
    using assms(1) unfolding link_codec_def by (metis community_message.select_convs(1))
  then have "peek_security R b = Err (UnsupportedVersion (version_code v))"
    by (cases v) (simp_all add: peek_security_def message_version_def int_to_i64_def VERSION_V3_def)
  with b show ?thesis using that by blast
qed

definition sendable :: "v3_rasn \<Rightarrow> varbind \<Rightarrow> bool" where
  "sendable R vb \<longleftrightarrow> is_ok_result (varbind_to_rasn R vb)"

lemma collect_sendable:
  "list_all (sendable R) vbs \<Longrightarrow> \<exists>xs. collect_results (map (varbind_to_rasn R) vbs) = Ok xs"
proof (induction vbs)
  case (Cons vb vbs)
  then obtain xs where "collect_results (map (varbind_to_rasn R) vbs) = Ok xs" by auto
  with Cons.prems show ?case by (cases "varbind_to_rasn R vb") (auto simp: sendable_def)
qed simp

lemma message_encodes:
  assumes "link_codec R" and "ptype p \<in> {GetNext, Response, TrapV2, Inform}" and "v1_trap p = None"
    and "list_all (sendable R) (variables p)" and "error_status p = 0" and "error_index p = 0"
  obtains b ver where "message_encode R \<lparr>m_version = v, m_community = com, m_pdu = p\<rparr> = Ok b"
    "peek_security R b = Err (UnsupportedVersion ver)"
proof -
  obtain xs where "collect_results (map (varbind_to_rasn R) (variables p)) = Ok xs"
    using collect_sendable [OF assms(4)] by blast
  then obtain d where d: "pdu_to_rasn R p = Ok d"
    using assms(2,5,6) by (auto simp: pdu_to_rasn_def u32_try_from_def int_to_u32_def Let_def)
  obtain b where "r_enc_message R \<lparr>cm_version = sint (version_code v), cm_community = com, cm_data = d\<rparr> = Ok b"
      "peek_security R b = Err (UnsupportedVersion (version_code v))"
    by (rule community_peek [OF assms(1) d])
  then show ?thesis using that [of b "version_code v"] d assms(2,3) by (auto simp: message_encode_def)
qed

definition community_security :: "'s agent \<Rightarrow> version \<Rightarrow> security_context" where
  "community_security ag v =
     \<lparr>security_model = (case v of V1 \<Rightarrow> 1 | V2c \<Rightarrow> 2), security_name = ag_community ag, security_level = 0,
      sec_context = [], sec_vacm = Some (ag_vacm ag)\<rparr>"

lemma link_attempt:
  assumes "link_codec R" and "message_encode R \<lparr>m_version = v, m_community = ag_community ag, m_pdu = p\<rparr> = Ok b"
    and "peek_security R b = Err (UnsupportedVersion ver)" and "v1_trap p = None"
    and "run_state (process_with_access fuel (ag_registry ag) (wire_pdu p) (community_security ag v)) (as_world st) = (Some r, w)"
    and "message_encode R \<lparr>m_version = v, m_community = ag_community ag, m_pdu = r\<rparr> = Ok b'"
  shows "run_state (attempt_loop (agent_link fuel C R salt now ag) R b (request_id p) (Suc n) e) (st, q) =
     (Ok (wire_pdu r), st\<lparr>as_world := w\<rparr>, None)"
proof -
  have l: "opaque_law R" "message_codec_laws R" using assms(1) by (simp_all add: link_codec_def)
  have dec: "message_decode R b = Ok \<lparr>m_version = v, m_community = ag_community ag, m_pdu = wire_pdu p\<rparr>"
    using message_encode_pdu [OF l assms(2,4)] .
  have ans: "answers (wire_pdu p) r"
    by (rule process_answers [OF trans [OF arg_cong [where f = fst, OF assms(5)] fst_conv]])
  then have "v1_trap r = None" and rid: "request_id (wire_pdu r) = request_id p" by (auto simp: answers_def wire_pdu_def)
  then have "message_decode R b' = Ok \<lparr>m_version = v, m_community = ag_community ag, m_pdu = wire_pdu r\<rparr>"
    using message_encode_pdu [OF l assms(6)] by simp
  then show ?thesis
    using dec rid assms(3,5,6)
    by (simp add: agent_link_def handle_datagram_def handle_community_def reply_with_def community_security_def)
qed

section \<open>A walk through a session\<close>

text \<open>The objects of the agent can be sent, and none of them is an exception marker.\<close>

definition walkable :: "v3_rasn \<Rightarrow> (oid \<Rightarrow> value option) \<Rightarrow> bool" where
  "walkable R m \<longleftrightarrow>
     (\<forall>o1 v. m o1 = Some v \<longrightarrow> 2 \<le> oid_len o1 \<and> sendable R (new_varbind o1 v) \<and>
        v \<notin> {EndOfMibView, NoSuchObject, NoSuchInstance})"

definition linked :: "oid list \<Rightarrow> (oid \<Rightarrow> value option) \<Rightarrow> (world agent_state \<times> u8 list option) client \<Rightarrow> bool" where
  "linked roots m c \<longleftrightarrow>
     world_ok roots (as_world (fst (cl_net c))) \<and> agent_mib roots (as_world (fst (cl_net c))) = m"

lemma sendable_end: "sendable R (new_varbind o1 v) \<Longrightarrow> sendable R (new_varbind o1 EndOfMibView)"
  by (cases "oid_to_rasn R o1") (simp_all add: sendable_def varbind_to_rasn_def new_varbind_def)


lemma link_get_next:
  assumes "link_codec R" and "ag_registry ag = registry_for roots" and "card (dom m) < fuel" and "walkable R m"
    and "linked roots m c" and "2 \<le> oid_len o1" and "sendable R (new_varbind o1 Null)"
    and "cf_community cfg = ag_community ag"
  obtains vb c' where
    "run_state (session_get_next (agent_link fuel C R salt now ag) R seed cfg [o1]) c = (Ok [wire_varbind vb], c')"
    "linked roots m c'" "answers_next (visible (community_security ag (cf_version cfg)) m) o1 vb"
proof -
  let ?sec = "community_security ag (cf_version cfg)"
  obtain rid c1 where n: "run_state (next_request_id seed) c = (rid, c1)" by fastforce
  then have net: "cl_net c1 = cl_net c" by (auto simp: next_request_id_def Let_def)
  obtain st q where sq: "cl_net c = (st, q)" by fastforce
  let ?p = "(null_request GetNext [o1])\<lparr>request_id := rid\<rparr>"
  have ok: "world_ok roots (as_world st)" and m: "agent_mib roots (as_world st) = m"
    using assms(5) sq by (simp_all add: linked_def)
  have p: "ptype ?p = GetNext" "v1_trap ?p = None" "variables ?p = [null_varbind o1]" "error_status ?p = 0"
    "error_index ?p = 0" "request_id ?p = rid"
    by (simp_all add: null_request_def new_pdu_def)
  have wp: "wire_pdu ?p = ?p"
    using p assms(6) by (simp add: wire_pdu_def wire_varbind_def null_varbind_def wire_oid_id)
  obtain b ver where b: "message_encode R \<lparr>m_version = cf_version cfg, m_community = ag_community ag, m_pdu = ?p\<rparr> = Ok b"
      "peek_security R b = Err (UnsupportedVersion ver)"
    by (rule message_encodes [OF assms(1), of ?p]) (use p assms(7) in \<open>simp_all add: new_varbind_def null_varbind_def\<close>)
  obtain r w where run: "run_state (process_with_access fuel (ag_registry ag) ?p ?sec) (as_world st) = (r, w)" by fastforce
  obtain vb where r: "r = Some ((new_pdu Response rid)\<lparr>variables := [vb]\<rparr>)" and w: "world_ok roots w" "agent_mib roots w = m"
      and vb: "answers_next (visible ?sec m) o1 vb"
    using agent_world.process_next_run [OF ok p(1) _ run [unfolded assms(2)]] assms(3) p m
    by (auto simp: agent_mib_def null_varbind_def list_all2_Cons1)
  let ?r = "(new_pdu Response rid)\<lparr>variables := [vb]\<rparr>"
  have "sendable R vb"
    using vb assms(4,7) sendable_end [of R o1 Null]
    by (cases vb) (auto simp: answers_next_def walkable_def visible_def new_varbind_def split: if_splits)
  then obtain b' ver' where b': "message_encode R \<lparr>m_version = cf_version cfg, m_community = ag_community ag, m_pdu = ?r\<rparr> = Ok b'"
    by (rule_tac message_encodes [OF assms(1), of ?r]) (simp_all add: new_pdu_def)
  have "run_state (attempt_loop (agent_link fuel C R salt now ag) R b rid (Suc (unat (cf_retries cfg))) Timeout) (st, q) =
      (Ok (wire_pdu ?r), st\<lparr>as_world := w\<rparr>, None)"
    using link_attempt [OF assms(1) b p(2) _ b', of fuel st w C salt now "unat (cf_retries cfg)" Timeout q] run r wp p(6)
    by simp
  then have "run_state (session_get_next (agent_link fuel C R salt now ag) R seed cfg [o1]) c =
      (Ok [wire_varbind vb], c1\<lparr>cl_net := (st\<lparr>as_world := w\<rparr>, None)\<rparr>)"
    using n net sq b(1) assms(8)
    by (simp add: session_get_next_def checked_request_def session_request_def check_status_def varbinds_of_def
        wire_pdu_def pdu_status_def status_from_code_def new_pdu_def Let_def)
  then show ?thesis using that w vb by (simp add: linked_def)
qed

lemma wire_value_marker:
  "wire_value v \<in> {EndOfMibView, NoSuchObject, NoSuchInstance} \<longleftrightarrow> v \<in> {EndOfMibView, NoSuchObject, NoSuchInstance}"
  by (cases v) simp_all

text \<open>The objects of a subtree above an OID that the caller may read.\<close>

definition subtree_above :: "(oid \<Rightarrow> value option) \<Rightarrow> oid \<Rightarrow> oid \<Rightarrow> oid set" where
  "subtree_above m root o1 = {o2 \<in> dom m. o1 < o2 \<and> is_prefix_of root o2}"

lemma subtree_step:
  assumes "is_next m o1 (Some (o2, v))" and "is_prefix_of root o1"
  shows "subtree_above m root o1 =
    (if is_prefix_of root o2 then insert o2 (subtree_above m root o2) else {})"
proof -
  have n: "m o2 = Some v" "o1 < o2" "\<And>j. j \<in> dom m \<Longrightarrow> o1 < j \<Longrightarrow> o2 \<le> j" using assms(1) by auto
  show ?thesis
  proof (cases "is_prefix_of root o2")
    case True
    then show ?thesis using n by (force simp: subtree_above_def)
  next
    case False
    have "x \<notin> subtree_above m root o1" for x
      using subtree_convex [OF assms(2), of x o2] n False by (auto simp: subtree_above_def less_imp_le)
    with False show ?thesis by auto
  qed
qed

lemma sorted_insert_least:
  fixes D :: "'a::linorder set"
  assumes "finite D" and "\<And>d. d \<in> D \<Longrightarrow> k < d"
  shows "sorted_list_of_set (insert k D) = k # sorted_list_of_set D"
proof -
  have "k \<notin> D" using assms(2) by blast
  moreover have "insort k (sorted_list_of_set D) = k # sorted_list_of_set D"
    using assms by (intro insort_is_Cons) (auto simp: less_imp_le)
  ultimately show ?thesis using assms(1) by simp
qed

definition sent_varbind :: "(oid \<Rightarrow> value option) \<Rightarrow> oid \<Rightarrow> varbind" where
  "sent_varbind m o1 = \<lparr>vb_oid = o1, vb_value = wire_value (the (m o1))\<rparr>"

lemma walk_loop_run:
  assumes "link_codec R" and "ag_registry ag = registry_for roots" and "card (dom m) < fuel" and "walkable R m"
    and "finite (dom m)" and "cf_community cfg = ag_community ag"
    and "linked roots m c" and "2 \<le> oid_len o1" and "sendable R (new_varbind o1 Null)" and "is_prefix_of root o1"
    and "card (subtree_above (visible (community_security ag (cf_version cfg)) m) root o1) < n"
  shows "\<exists>c'. run_state (walk_loop n (\<lambda>ox. session_get_next (agent_link fuel C R salt now ag) R seed cfg [ox]) root o1) c =
      (Some (Ok (map (sent_varbind m) (sorted_list_of_set
         (subtree_above (visible (community_security ag (cf_version cfg)) m) root o1)))), c') \<and> linked roots m c'"
  using assms(7-11)
proof (induction n arbitrary: c o1)
  case (Suc n)
  let ?T = "agent_link fuel C R salt now ag" and ?m = "visible (community_security ag (cf_version cfg)) m"
  have fin: "finite (subtree_above ?m root x)" for x
    using assms(5) by (rule rev_finite_subset) (auto simp: subtree_above_def dom_visible)
  obtain vb c1 where vb: "run_state (session_get_next ?T R seed cfg [o1]) c = (Ok [wire_varbind vb], c1)"
      "linked roots m c1" "answers_next ?m o1 vb"
    using link_get_next [OF assms(1-4) Suc.prems(1-3) assms(6)] .
  show ?case
  proof (cases "vb_value vb = EndOfMibView")
    case True
    then have "subtree_above ?m root o1 = {}" using vb(3)
      by (fastforce simp: answers_next_def subtree_above_def dest: bspec [OF _ domI])
    then show ?thesis using vb(1,2) True by (simp add: walk_item_def wire_varbind_def)
  next
    case False
    then have nx: "is_next ?m o1 (Some (vb_oid vb, vb_value vb))" using vb(3) by (simp add: answers_next_def)
    then have mv: "m (vb_oid vb) = Some (vb_value vb)" by (auto simp: visible_def split: if_splits)
    then have good: "2 \<le> oid_len (vb_oid vb)" "sendable R (new_varbind (vb_oid vb) (vb_value vb))"
      "vb_value vb \<notin> {EndOfMibView, NoSuchObject, NoSuchInstance}"
      using assms(4) by (auto simp: walkable_def)
    have gt: "o1 < vb_oid vb" using nx by simp
    have item: "walk_item root o1 [wire_varbind vb] = (if is_prefix_of root (vb_oid vb) then Some (wire_varbind vb) else None)"
      using good(1,3) wire_value_marker [of "vb_value vb"] gt
      by (auto simp: walk_item_def wire_varbind_def wire_oid_id)
    have wv: "wire_varbind vb = sent_varbind m (vb_oid vb)" "vb_oid (wire_varbind vb) = vb_oid vb"
      using mv good(1) by (simp_all add: wire_varbind_def sent_varbind_def wire_oid_id)
    show ?thesis
    proof (cases "is_prefix_of root (vb_oid vb)")
      case True
      have S: "subtree_above ?m root o1 = insert (vb_oid vb) (subtree_above ?m root (vb_oid vb))"
        using subtree_step [OF nx Suc.prems(4)] True by simp
      have "card (subtree_above ?m root (vb_oid vb)) < card (subtree_above ?m root o1)"
        unfolding S using fin by (subst card_insert_disjoint) (auto simp: subtree_above_def)
      then have "card (subtree_above ?m root (vb_oid vb)) < n" using Suc.prems(5) by simp
      moreover have "sendable R (new_varbind (vb_oid vb) Null)"
        using good(2) by (cases "oid_to_rasn R (vb_oid vb)") (simp_all add: sendable_def varbind_to_rasn_def new_varbind_def)
      ultimately obtain c' where "run_state (walk_loop n (\<lambda>ox. session_get_next ?T R seed cfg [ox]) root (vb_oid vb)) c1 =
          (Some (Ok (map (sent_varbind m) (sorted_list_of_set (subtree_above ?m root (vb_oid vb))))), c')" "linked roots m c'"
        using Suc.IH [OF vb(2) good(1) _ True] by blast
      moreover have "sorted_list_of_set (subtree_above ?m root o1) =
          vb_oid vb # sorted_list_of_set (subtree_above ?m root (vb_oid vb))"
        unfolding S by (rule sorted_insert_least [OF fin]) (simp add: subtree_above_def)
      ultimately show ?thesis using vb(1) item True wv by simp
    next
      case False
      then have "subtree_above ?m root o1 = {}" using subtree_step [OF nx Suc.prems(4)] by simp
      then show ?thesis using vb(1,2) item False by simp
    qed
  qed
qed simp

text \<open>C22: A walk by a manager through a community session returns exactly the objects below the root that
  the community may read, in OID order, with their values, and then stops: requests and answers
  travel as messages, the agent decodes, checks the community, consults its access control and the
  registry, and the session matches the answer.  Nothing the agent serves changes.\<close>

theorem session_walk_complete:
  assumes "link_codec R" and "ag_registry ag = registry_for roots" and "cf_community cfg = ag_community ag"
    and "world_ok roots (as_world st)" and "m = agent_mib roots (as_world st)" and "walkable R m"
    and "card (dom m) < fuel" and "card (dom m) < n" and "2 \<le> oid_len root" and "sendable R (new_varbind root Null)"
    and "cl_net c = (st, q)"
  shows "\<exists>c'. run_state (session_walk n (agent_link fuel C R salt now ag) R seed cfg root) c =
      (Some (Ok (map (sent_varbind m) (sorted_list_of_set
         {o1. m o1 \<noteq> None \<and> root < o1 \<and> is_prefix_of root o1 \<and>
              allows (community_security ag (cf_version cfg)) ReadView o1}))), c') \<and>
      agent_mib roots (as_world (fst (cl_net c'))) = m"
proof -
  let ?m = "visible (community_security ag (cf_version cfg)) m"
  have fin: "finite (dom m)"
    using agent_world.finite_merged [OF assms(4)] by (simp add: assms(5) agent_mib_def)
  have "card (subtree_above ?m root root) \<le> card (dom m)"
    by (rule card_mono [OF fin]) (auto simp: subtree_above_def dom_visible)
  moreover have "linked roots m c" using assms(4,5,11) by (simp add: linked_def)
  ultimately have "\<exists>c'. run_state (session_walk n (agent_link fuel C R salt now ag) R seed cfg root) c =
      (Some (Ok (map (sent_varbind m) (sorted_list_of_set (subtree_above ?m root root)))), c') \<and> linked roots m c'"
    unfolding session_walk_def
    using walk_loop_run [OF assms(1,2,7,6) fin assms(3) _ assms(9,10) is_prefix_of_refl, of c n C salt now seed] assms(8) by simp
  moreover have "subtree_above ?m root root =
      {o1. m o1 \<noteq> None \<and> root < o1 \<and> is_prefix_of root o1 \<and> allows (community_security ag (cf_version cfg)) ReadView o1}"
    by (auto simp: subtree_above_def dom_visible)
  ultimately show ?thesis by (auto simp: linked_def)
qed

text \<open>
  A codec that encodes every community message: the wire structures are countable, and a message
  becomes as many bytes as its number.
\<close>

instance object_syntax :: countable by countable_datatype

instance var_bind_value :: countable by countable_datatype

instance rasn_var_bind_ext :: (countable) countable
  by (rule countable_classI [of "\<lambda>r. to_nat (rv_name r, rv_value r, rasn_var_bind.more r)"])
    (auto intro: rasn_var_bind.equality)

instance rasn_pdu_ext :: (countable) countable
  by (rule countable_classI [of "\<lambda>r. to_nat (rp_request_id r, rp_error_status r, rp_error_index r, rp_bindings r, rasn_pdu.more r)"])
    (auto intro: rasn_pdu.equality)

instance pdus :: countable by countable_datatype

instance community_message_ext :: (countable) countable
  by (rule countable_classI [of "\<lambda>r. to_nat (cm_version r, cm_community r, cm_data r, community_message.more r)"])
    (auto intro: community_message.equality)

definition numbering_rasn :: v3_rasn where
  "numbering_rasn = demo_v3
     \<lparr>r_oid_new := (\<lambda>arcs. True), r_enc_message := (\<lambda>m. Ok (replicate (to_nat m) 0)),
      r_dec_message := (\<lambda>b. Ok (from_nat (length b))), r_enc_v1 := (\<lambda>m. Err ''unknown''),
      r_dec_any := (\<lambda>b. Ok [b]), r_dec_integer := (\<lambda>b. Ok (cm_version (from_nat (length b) :: community_message)))\<rparr>"

lemma numbering_link: "link_codec numbering_rasn"
  by (simp add: link_codec_def opaque_law_def message_codec_laws_def numbering_rasn_def demo_v3_def)

theorem session_walk_complete_witness:
  "\<exists>c'. run_state (session_walk 3 (agent_link 3 demo_crypto numbering_rasn [] 0
        \<lparr>ag_registry = registry_for sample_roots, ag_community = [112], ag_engine_id = [9], ag_engine_boots = 1,
         ag_users = [], ag_vacm = vacm_new\<rparr>) numbering_rasn 1
        \<lparr>cf_version = V2c, cf_community = [112], cf_retries = 0\<rparr> (Oid [1, 1]))
      \<lparr>cl_request_id = 5, cl_net = (\<lparr>as_usm_stats = 0, as_world = sample_world\<rparr>, None)\<rparr> =
      (Some (Ok [\<lparr>vb_oid = Oid [1, 1, 0], vb_value = Integer 5\<rparr>]), c')"
proof -
  let ?m = "agent_mib sample_roots sample_world" and ?st = "\<lparr>as_usm_stats = 0, as_world = sample_world\<rparr>"
  let ?ag = "\<lparr>ag_registry = registry_for sample_roots, ag_community = [112], ag_engine_id = [9], ag_engine_boots = 1,
         ag_users = [], ag_vacm = vacm_new\<rparr> :: world agent"
  have send: "sendable numbering_rasn (new_varbind o1 (Integer i))" "sendable numbering_rasn (new_varbind o1 Null)" for o1 i
    by (simp_all add: sendable_def varbind_to_rasn_def oid_to_rasn_def numbering_rasn_def new_varbind_def Let_def)
  have walk: "walkable numbering_rasn ?m"
    unfolding walkable_def using send by (auto simp: sample_mib oid_len_def split: if_splits)
  have set: "{o1. ?m o1 \<noteq> None \<and> Oid [1, 1] < o1 \<and> is_prefix_of (Oid [1, 1]) o1 \<and>
      allows (community_security ?ag V2c) ReadView o1} = {Oid [1, 1, 0]}"
    by (auto simp: sample_mib less_oid_def is_prefix_of_def allows_def community_security_def is_view_accessible_def
        vacm_is_empty_def vacm_new_def split: if_splits)
  have "\<exists>c'. run_state (session_walk 3 (agent_link 3 demo_crypto numbering_rasn [] 0 ?ag) numbering_rasn 1
        \<lparr>cf_version = V2c, cf_community = [112], cf_retries = 0\<rparr> (Oid [1, 1])) \<lparr>cl_request_id = 5, cl_net = (?st, None)\<rparr> =
      (Some (Ok (map (sent_varbind ?m) (sorted_list_of_set {Oid [1, 1, 0]}))), c') \<and>
      agent_mib sample_roots (as_world (fst (cl_net c'))) = ?m"
    using session_walk_complete [OF numbering_link, of ?ag sample_roots "\<lparr>cf_version = V2c, cf_community = [112], cf_retries = 0\<rparr>"
        ?st ?m 3 3 "Oid [1, 1]" "\<lparr>cl_request_id = 5, cl_net = (?st, None)\<rparr>" None demo_crypto "[]" 0 1]
      walk sample_world_ok sample_card send(2) [of "Oid [1, 1]"] set
    by (simp add: oid_len_def)
  then show ?thesis by (auto simp: sent_varbind_def sample_mib)
qed

section \<open>Unauthenticated answers\<close>

lemma judge_unauthenticated:
  assumes "v3_codec_laws R" and "encode_with R header sd usm = Ok data" and "scoped_decode_ber R sd = Ok s"
    and "hd_flags header AND FLAG_AUTH = 0" and "hd_flags header AND FLAG_PRIV = 0"
    and "ptype (sc_pdu s) \<noteq> Report" and "request_id (sc_pdu s) = rid"
  shows "judge_reply C R user rid resynced data = Answer (Ok (sc_pdu s))"
proof -
  obtain sp where seal: "sealed R header sd usm sp data" using assms(2) by (auto simp: encode_with_Ok)
  have "v3_parse C R data (Some user) = Ok \<lparr>v3_header = header, v3_usm = usm, v3_scoped = s\<rparr>"
    unfolding v3_parse_sealed [OF assms(1) seal ber_element_scoped [OF assms(3)]] using assms(3-5) by simp
  then show ?thesis using assms(6,7) by (simp add: judge_reply_def)
qed

text \<open>C39: An SNMPv3 session accepts a reply whose flags claim neither authentication nor privacy, whatever
  the keys of its user: whoever answers first with the expected request-id, which is a counter,
  decides what the request returns.\<close>

theorem forged_response_accepted:
  assumes "v3_codec_laws R" and "encode_with R header sd usm = Ok data" and "scoped_decode_ber R sd = Ok s"
    and "hd_flags header AND FLAG_AUTH = 0" and "hd_flags header AND FLAG_PRIV = 0"
    and "ptype (sc_pdu s) \<noteq> Report" and "request_id (sc_pdu s) = cl_request_id c" and "cl_request_id c \<noteq> 0"
    and "\<And>salt. \<exists>b. build_request C R salt (i32_max (vs_msg_id c) 1) (vc_user cfg) (current_engine T c)
                      (en_engine_id (current_engine T c)) (p\<lparr>request_id := cl_request_id c\<rparr>) = Ok b"
    and "\<And>b n. fst (run_state (t_send T b) n) = Ok ()" and "\<And>n. fst (run_state (t_receive T) n) = Received data"
  shows "fst (run_state (v3_request C R T seed cfg p) c) = Ok (sc_pdu s)"
proof -
  let ?p = "p\<lparr>request_id := cl_request_id c\<rparr>" and ?d = "c\<lparr>cl_request_id := i32_max (cl_request_id c + 1) 1\<rparr>"
  obtain salt n1 where salt: "run_state (t_salt T) (cl_net c) = (salt, n1)" by fastforce
  have d: "current_engine T ?d = current_engine T c" by (simp add: current_engine_def)
  obtain b where b: "build_request C R salt (i32_max (vs_msg_id c) 1) (vc_user cfg) (current_engine T c)
      (en_engine_id (current_engine T c)) ?p = Ok b" using assms(9) by blast
  obtain n2 where n2: "run_state (t_send T b) n1 = (Ok (), n2)"
    using assms(10) [of b n1] by (cases "run_state (t_send T b) n1") auto
  obtain n3 where n3: "run_state (t_receive T) n2 = (Received data, n3)"
    using assms(11) [of n2] by (cases "run_state (t_receive T) n2") auto
  have "judge_reply C R (vc_user cfg) (cl_request_id c) False data = Answer (Ok (sc_pdu s))"
    by (rule judge_unauthenticated [OF assms(1-7)])
  then show ?thesis
    using salt b n2 n3 d by (simp add: v3_request_def run_next_request_id [OF assms(8)] next_msg_id_def v3_exchange_once_def)
qed

lemma demo_scoped_answer:
  "scoped_decode_ber demo_v3 [4] = Ok \<lparr>sc_engine_id = [9], sc_context_name = [], sc_pdu = demo_reply (Integer 1)\<rparr>"
  by (simp add: scoped_decode_ber_def pdu_from_rasn_def varbind_from_rasn_def oid_from_rasn_def demo_v3_def int_to_i64_def
      demo_reply_def demo_table_defs demo_pdu_defs)

lemma demo_forged_answer: "encode_with demo_v3 demo_header [4] demo_forged = Ok [13]"
  by (simp add: encode_with_def usm_to_ber_def usm_to_rasn_def header_to_rasn_def VERSION_V3_def demo_header_def
      demo_forged_def demo_v3_def demo_table_defs)

theorem forged_response_accepted_witness:
  "fst (run_state (v3_request demo_crypto demo_v3
      \<lparr>t_send = (\<lambda>b. State_Monad.return (Ok ())), t_receive = State_Monad.return (Received [13]),
       t_now = (\<lambda>s. 0), t_salt = State_Monad.return []\<rparr> 1 \<lparr>vc_user = demo_user, vc_retries = 0\<rparr> demo_get)
      \<lparr>cl_request_id = 5, cl_net = (), vs_engine = \<lparr>en_engine_id = [9], en_engine_boots = 1, en_engine_time = 5\<rparr>,
       vs_time_base = 0, vs_msg_id = 7\<rparr>) = Ok (demo_reply (Integer 1))"
proof -
  let ?T = "\<lparr>t_send = (\<lambda>b. State_Monad.return (Ok ())), t_receive = State_Monad.return (Received [13]),
       t_now = (\<lambda>s. 0), t_salt = State_Monad.return []\<rparr> :: unit transport"
  let ?c = "\<lparr>cl_request_id = 5, cl_net = (), vs_engine = \<lparr>en_engine_id = [9], en_engine_boots = 1, en_engine_time = 5\<rparr>,
       vs_time_base = 0, vs_msg_id = 7\<rparr> :: unit v3_client"
  have e: "current_engine ?T ?c = agent_engine (demo_agent (Integer 1)) 5"
    by (simp add: current_engine_def agent_engine_def)
  have b: "build_request demo_crypto demo_v3 salt 7 demo_user (agent_engine (demo_agent (Integer 1)) 5) [9] demo_get = Ok [10]" for salt
    using demo_builds(1) [of salt "Integer 1"] by (simp add: build_request_def build_user_message_def build_message_def Let_def)
  have "demo_get\<lparr>request_id := 5\<rparr> = demo_get" by (simp add: demo_pdu_defs)
  then show ?thesis
    using forged_response_accepted [OF demo_v3_laws(3) demo_forged_answer demo_scoped_answer demo_forged_guards(1,2),
        of ?c demo_crypto "\<lparr>vc_user = demo_user, vc_retries = 0\<rparr>" ?T demo_get 1] b
    unfolding e by (simp add: demo_reply_def new_pdu_def i32_max_def)
qed

end
