(* ===== verification/Snmpd_Settings.thy ===== *)
theory Snmpd_Settings
  imports Snmp_Vacm Snmp_Usm
begin

text \<open>
  The settings the programs take from their configuration files
  (\<^verbatim>\<open>crates/netsnmp-apps/src/settings.rs\<close>, \<^verbatim>\<open>addr.rs\<close>, \<^verbatim>\<open>usm.rs\<close>, \<^verbatim>\<open>mib.rs\<close>): client defaults
  from \<^verbatim>\<open>snmp.conf\<close> and the agent's settings from \<^verbatim>\<open>snmpd.conf\<close>, one parser per directive.
\<close>

section \<open>Addresses, protocols and directory lists\<close>

definition DEFAULT_PORT :: string where
  "DEFAULT_PORT = ''161''"

definition with_port :: "string \<Rightarrow> string \<Rightarrow> string" where
  "with_port agent port =
     (if starts_with agent ''['' then if contains_str agent '']:'' then agent else agent @ '':'' @ port
      else if count_list agent CHR '':'' = 1 then agent
      else if CHR '':'' \<in> set agent then ''['' @ agent @ '']:'' @ port
      else agent @ '':'' @ port)"

definition normalize_agent_port :: "string \<Rightarrow> u16 \<Rightarrow> string" where
  "normalize_agent_port agent default_port =
     with_port (case strip_prefix ''udp:'' agent of Some a \<Rightarrow> a | None \<Rightarrow> agent) (show_nat (unat default_port))"

definition normalize_agent :: "string \<Rightarrow> string" where
  "normalize_agent agent = normalize_agent_port agent 161"

definition normalize_bind_addr :: "string \<Rightarrow> string" where
  "normalize_bind_addr spec0 =
     (let spec1 = trim (case split_on CHR '','' spec0 of [] \<Rightarrow> spec0 | p # _ \<Rightarrow> p);
          spec = (case strip_prefix ''udp:'' spec1 of
                    Some s \<Rightarrow> s
                  | None \<Rightarrow> (case strip_prefix ''tcp:'' spec1 of Some s \<Rightarrow> s | None \<Rightarrow> spec1))
      in if spec \<noteq> [] \<and> list_all is_ascii_digit spec then ''0.0.0.0:'' @ spec
         else with_port spec DEFAULT_PORT)"

definition split_dir_list :: "string \<Rightarrow> string list" where
  "split_dir_list list = filter (\<lambda>s. s \<noteq> []) (map trim (split_any '':,'' list))"

type_synonym arg_error = string

definition proto_word :: "string \<Rightarrow> string" where
  "proto_word s = filter (\<lambda>c. c \<noteq> CHR ''-'' \<and> c \<noteq> CHR ''_'') (to_ascii_uppercase s)"

definition parse_auth_proto :: "string \<Rightarrow> (auth_protocol, arg_error) result" where
  "parse_auth_proto s =
     (let w = proto_word s
      in if w \<in> {''MD5'', ''USMHMACMD5AUTHPROTOCOL''} then Ok HmacMd5
         else if w \<in> {''SHA'', ''SHA1'', ''USMHMACSHAAUTHPROTOCOL''} then Ok HmacSha1
         else if w \<in> {''SHA256'', ''SHA2256'', ''USMHMAC192SHA256AUTHPROTOCOL''} then Ok HmacSha256
         else Err (''unsupported auth protocol '' @ squote @ w @ squote @ '' (use MD5, SHA, or SHA-256)''))"

definition parse_priv_proto :: "string \<Rightarrow> (priv_protocol, arg_error) result" where
  "parse_priv_proto s =
     (let w = proto_word s
      in if w \<in> {''AES'', ''AES128'', ''USMAESCFB128PROTOCOL''} then Ok AesCfb128
         else Err (''unsupported privacy protocol '' @ squote @ w @ squote @ '' (use AES)''))"

text \<open>The level asked for with \<^verbatim>\<open>-l\<close>, or the one the passphrases imply.\<close>

definition wanted_level ::
  "string option \<Rightarrow> string option \<Rightarrow> string option \<Rightarrow> (bool \<times> bool, arg_error) result" where
  "wanted_level level auth_pass priv_pass =
     (case level of
        None \<Rightarrow> Ok (auth_pass \<noteq> None, priv_pass \<noteq> None)
      | Some l0 \<Rightarrow>
          (let l = to_ascii_lowercase l0
           in if l = ''noauthnopriv'' then Ok (False, False)
              else if l = ''authnopriv'' then Ok (True, False)
              else if l = ''authpriv'' then Ok (True, True)
              else Err (''invalid security level '' @ squote @ l @ squote)))"

definition build_usm_user ::
  "string option \<Rightarrow> auth_protocol option \<Rightarrow> string option \<Rightarrow> priv_protocol option \<Rightarrow> string option
     \<Rightarrow> string option \<Rightarrow> (usm_user, arg_error) result" where
  "build_usm_user sec_name auth_proto auth_pass priv_proto priv_pass level =
     (case sec_name of
        None \<Rightarrow> Err ''SNMPv3 requires -u SECURITY-NAME''
      | Some name \<Rightarrow>
          bind_result (wanted_level level auth_pass priv_pass) (\<lambda>(want_auth, want_priv).
            if want_priv \<and> \<not> want_auth then Err ''authPriv requires authentication (-a/-A)''
            else if \<not> want_auth then Ok (usm_noauth name)
            else
              (let proto = (case auth_proto of Some p \<Rightarrow> p | None \<Rightarrow> HmacSha1)
               in case auth_pass of
                    None \<Rightarrow> Err ''auth level requires -A AUTH-PASSPHRASE''
                  | Some apass \<Rightarrow>
                      if \<not> want_priv then Ok (usm_auth name proto apass)
                      else (case priv_pass of
                              None \<Rightarrow> Err ''authPriv requires -X PRIV-PASSPHRASE''
                            | Some ppass \<Rightarrow>
                                Ok (usm_auth_priv name proto apass
                                      (case priv_proto of Some p \<Rightarrow> p | None \<Rightarrow> AesCfb128) ppass)))))"

section \<open>Client defaults\<close>

record client_defaults =
  cd_version :: "string option"
  cd_community :: "string option"
  cd_sec_name :: "string option"
  cd_auth_protocol :: "string option"
  cd_auth_pass :: "string option"
  cd_priv_protocol :: "string option"
  cd_priv_pass :: "string option"
  cd_level :: "string option"
  cd_mib_dirs :: "string list"

definition client_defaults_default :: client_defaults where
  "client_defaults_default =
     \<lparr>cd_version = None, cd_community = None, cd_sec_name = None, cd_auth_protocol = None, cd_auth_pass = None,
      cd_priv_protocol = None, cd_priv_pass = None, cd_level = None, cd_mib_dirs = []\<rparr>"

text \<open>A directive outside every section or in the program's own.\<close>

definition in_section :: "string \<Rightarrow> directive \<Rightarrow> bool" where
  "in_section name d = (case d_section d of None \<Rightarrow> True | Some s \<Rightarrow> eq_ignore_ascii_case s name)"

definition client_mib_dirs :: "string list \<Rightarrow> string list" where
  "client_mib_dirs args =
     concat (map (\<lambda>entry. split_dir_list (dropWhile (\<lambda>c. c = CHR ''+'' \<or> c = CHR ''-'') entry)) args)"

definition client_step :: "directive \<Rightarrow> client_defaults \<Rightarrow> client_defaults" where
  "client_step dir d =
     (let t = to_ascii_lowercase (d_token dir); v = trim (d_rest dir)
      in if \<not> in_section ''snmp'' dir then d
         else if t = ''defversion'' then d\<lparr>cd_version := d_arg dir 0\<rparr>
         else if t = ''defcommunity'' then d\<lparr>cd_community := Some v\<rparr>
         else if t \<in> {''defsecurityname'', ''defsecname''} then d\<lparr>cd_sec_name := d_arg dir 0\<rparr>
         else if t = ''defauthtype'' then d\<lparr>cd_auth_protocol := d_arg dir 0\<rparr>
         else if t = ''defauthpassphrase'' then d\<lparr>cd_auth_pass := Some v\<rparr>
         else if t = ''defprivtype'' then d\<lparr>cd_priv_protocol := d_arg dir 0\<rparr>
         else if t = ''defprivpassphrase'' then d\<lparr>cd_priv_pass := Some v\<rparr>
         else if t \<in> {''defseclevel'', ''defsecuritylevel''} then d\<lparr>cd_level := d_arg dir 0\<rparr>
         else if t = ''mibdirs'' then d\<lparr>cd_mib_dirs := cd_mib_dirs d @ client_mib_dirs (d_args dir)\<rparr>
         else d)"

definition client_from_directives :: "directive list \<Rightarrow> client_defaults" where
  "client_from_directives ds = fold client_step ds client_defaults_default"

section \<open>Entries of snmpd.conf\<close>

record com2sec_entry =
  c2_name :: string
  c2_source :: string
  c2_community :: string

record group_entry =
  ge_name :: string
  ge_model :: string
  ge_security_name :: string

record view_entry =
  ve_name :: string
  ve_typ :: string
  ve_subtree :: string
  ve_mask :: "string option"

record access_entry =
  ae_name :: string
  ae_context_prefix :: string
  ae_model :: string
  ae_level :: string
  ae_context_match :: "string option"
  ae_read_view :: string
  ae_write_view :: string
  ae_notify_view :: string

datatype trap_sink_kind = TrapSink | Trap2Sink | InformSink

record trap_sink =
  tk_kind :: trap_sink_kind
  tk_host :: string
  tk_community :: string
  tk_port :: "u16 option"

record trap_session =
  tn_version :: string
  tn_host :: string
  tn_args :: "string list"

record proxy_entry =
  pe_context :: "string option"
  pe_community :: string
  pe_host :: string
  pe_oid :: string

record exec_entry =
  xe_kind :: string
  xe_mib_oid :: "string option"
  xe_name :: string
  xe_program :: string
  xe_args :: "string list"

record pass_entry =
  pa_persist :: bool
  pa_mib_oid :: string
  pa_program :: string

record disk_entry =
  de_path :: string
  de_min :: "string option"

record proc_entry =
  pr_name :: string
  pr_max :: "string option"
  pr_min :: "string option"

record load_entry =
  le_one :: "string option"
  le_five :: "string option"
  le_fifteen :: "string option"

record file_entry =
  fe_path :: string
  fe_max :: "string option"

record log_match_entry =
  lm_name :: string
  lm_file :: string
  lm_args :: "string list"

record master_config =
  mc_typ :: string
  mc_socket :: "string option"

record smuxpeer_entry =
  sm_oid :: string
  sm_password :: string

record snmpd_settings =
  ss_community :: "string option"
  ss_sys_location :: "string option"
  ss_sys_contact :: "string option"
  ss_agent_address :: "string list"
  ss_users :: "usm_user list"
  ss_persistent_dir :: "path option"
  ss_com2sec :: "com2sec_entry list"
  ss_groups :: "group_entry list"
  ss_views :: "view_entry list"
  ss_access :: "access_entry list"
  ss_vacm :: "vacm option"
  ss_trapsinks :: "trap_sink list"
  ss_trapsesses :: "trap_session list"
  ss_proxy :: "proxy_entry list"
  ss_exec :: "exec_entry list"
  ss_pass :: "pass_entry list"
  ss_disk :: "disk_entry list"
  ss_proc :: "proc_entry list"
  ss_load :: "load_entry option"
  ss_file :: "file_entry list"
  ss_logmatch :: "log_match_entry list"
  ss_master :: "master_config option"
  ss_smuxpeer :: "smuxpeer_entry list"
  ss_smuxsocket :: "string option"
  ss_iquery :: "string option"

definition settings_default :: snmpd_settings where
  "settings_default =
     \<lparr>ss_community = None, ss_sys_location = None, ss_sys_contact = None, ss_agent_address = [], ss_users = [],
      ss_persistent_dir = None, ss_com2sec = [], ss_groups = [], ss_views = [], ss_access = [], ss_vacm = None,
      ss_trapsinks = [], ss_trapsesses = [], ss_proxy = [], ss_exec = [], ss_pass = [], ss_disk = [], ss_proc = [],
      ss_load = None, ss_file = [], ss_logmatch = [], ss_master = None, ss_smuxpeer = [], ss_smuxsocket = None,
      ss_iquery = None\<rparr>"

section \<open>Parsing the entries\<close>

text \<open>The next word of an argument iterator.\<close>

definition nth_arg :: "string list \<Rightarrow> nat \<Rightarrow> string option" where
  "nth_arg args i = (if i < length args then Some (args ! i) else None)"

definition expand_address_list :: "string list \<Rightarrow> string list" where
  "expand_address_list args =
     concat (map (\<lambda>arg. filter (\<lambda>s. s \<noteq> []) (map trim (split_on CHR '','' arg))) args)"

definition parse_com2sec :: "directive \<Rightarrow> com2sec_entry option" where
  "parse_com2sec dir =
     (case dropWhile (\<lambda>a. starts_with a ''-'') (d_args dir) of
        name # source # community # _ \<Rightarrow>
          Some \<lparr>c2_name = name, c2_source = source, c2_community = community\<rparr>
      | _ \<Rightarrow> None)"

definition parse_group :: "directive \<Rightarrow> group_entry option" where
  "parse_group dir =
     (case (d_arg dir 0, d_arg dir 1, d_arg dir 2) of
        (Some name, Some model, Some sec) \<Rightarrow>
          Some \<lparr>ge_name = name, ge_model = model, ge_security_name = sec\<rparr>
      | _ \<Rightarrow> None)"

definition parse_view :: "directive \<Rightarrow> view_entry option" where
  "parse_view dir = do {
     name \<leftarrow> d_arg dir 0;
     typ \<leftarrow> d_arg dir 1;
     subtree \<leftarrow> d_arg dir 2;
     Some \<lparr>ve_name = name, ve_typ = typ, ve_subtree = subtree, ve_mask = d_arg dir 3\<rparr>
   }"

definition parse_access :: "directive \<Rightarrow> access_entry option" where
  "parse_access dir =
     (let args = d_args dir
      in if length args < 7 then None
         else
           (let (context_match, read_idx) =
              (if 8 \<le> length args \<and> to_ascii_lowercase (args ! 4) \<in> {''exact'', ''prefix''}
               then (Some (args ! 4), 5) else (None, 4))
            in Some \<lparr>ae_name = args ! 0, ae_context_prefix = args ! 1, ae_model = args ! 2, ae_level = args ! 3,
                     ae_context_match = context_match, ae_read_view = args ! read_idx,
                     ae_write_view = args ! (read_idx + 1), ae_notify_view = args ! (read_idx + 2)\<rparr>))"

definition parse_u16 :: "string \<Rightarrow> u16 option" where
  "parse_u16 s = map_option word_of_nat (parse_unsigned 16 s)"

definition parse_trap_sink :: "trap_sink_kind \<Rightarrow> directive \<Rightarrow> trap_sink" where
  "parse_trap_sink kind dir =
     \<lparr>tk_kind = kind,
      tk_host = (case d_arg dir 0 of Some h \<Rightarrow> h | None \<Rightarrow> ''localhost''),
      tk_community = (case d_arg dir 1 of Some c \<Rightarrow> c | None \<Rightarrow> ''public''),
      tk_port = Option.bind (d_arg dir 2) parse_u16\<rparr>"

definition VALUE_FLAGS :: "string list" where
  "VALUE_FLAGS = [''-v'', ''-c'', ''-u'', ''-a'', ''-A'', ''-x'', ''-X'', ''-l'', ''-e'', ''-E'', ''-r'', ''-t'']"

text \<open>
  The loop over the arguments of \<^verbatim>\<open>trapsess\<close>.  A final \<^verbatim>\<open>-v\<close> without a value falls through to the
  increment at the end of the body.
\<close>

fun trapsess_loop :: "string list \<Rightarrow> string \<Rightarrow> string option \<Rightarrow> string \<times> string option" where
  "trapsess_loop [] version host = (version, host)"
| "trapsess_loop (arg # args) version host =
     (if arg = ''-v'' then
        (case args of
           v # args' \<Rightarrow> trapsess_loop args' v host
         | [] \<Rightarrow> (version, host))
      else if arg \<in> set VALUE_FLAGS then trapsess_loop (drop 1 args) version host
      else if starts_with arg ''-'' \<and> length arg = 2 then trapsess_loop args version host
      else trapsess_loop args version (case host of None \<Rightarrow> Some arg | Some h \<Rightarrow> Some h))"

definition parse_trapsess :: "directive \<Rightarrow> trap_session option" where
  "parse_trapsess dir =
     (if d_args dir = [] then None
      else case trapsess_loop (d_args dir) ''2c'' None of
        (version, None) \<Rightarrow> None
      | (version, Some host) \<Rightarrow> Some \<lparr>tn_version = version, tn_host = host, tn_args = d_args dir\<rparr>)"

definition parse_proxy :: "directive \<Rightarrow> proxy_entry option" where
  "parse_proxy dir =
     (let (context, args) =
        (case d_args dir of
           a # rest \<Rightarrow> if a = ''-Cn'' then (nth_arg rest 0, drop 1 rest) else (None, d_args dir)
         | [] \<Rightarrow> (None, []))
      in case args of
           community # host # o1 # _ \<Rightarrow>
             Some \<lparr>pe_context = context, pe_community = community, pe_host = host, pe_oid = o1\<rparr>
         | _ \<Rightarrow> None)"

definition or_empty :: "string option \<Rightarrow> string" where
  "or_empty s = (case s of None \<Rightarrow> [] | Some x \<Rightarrow> x)"

definition parse_exec :: "directive \<Rightarrow> exec_entry" where
  "parse_exec dir =
     (let (mib_oid, name, args) =
        (case d_args dir of
           [] \<Rightarrow> (None, None, [])
         | f # rest \<Rightarrow>
             (case oid_from_str f of
                Ok _ \<Rightarrow> (Some f, nth_arg rest 0, drop 1 rest)
              | Err _ \<Rightarrow> (None, Some f, rest)))
      in \<lparr>xe_kind = to_ascii_lowercase (d_token dir), xe_mib_oid = mib_oid, xe_name = or_empty name,
          xe_program = or_empty (nth_arg args 0), xe_args = drop 1 args\<rparr>)"

definition parse_pass :: "bool \<Rightarrow> directive \<Rightarrow> pass_entry option" where
  "parse_pass persist dir = do {
     mib_oid \<leftarrow> d_arg dir 0;
     program \<leftarrow> d_arg dir 1;
     Some \<lparr>pa_persist = persist, pa_mib_oid = mib_oid, pa_program = program\<rparr>
   }"

definition parse_disk :: "directive \<Rightarrow> disk_entry option" where
  "parse_disk dir = do { p \<leftarrow> d_arg dir 0; Some \<lparr>de_path = p, de_min = d_arg dir 1\<rparr> }"

definition parse_proc :: "directive \<Rightarrow> proc_entry option" where
  "parse_proc dir = do { n \<leftarrow> d_arg dir 0; Some \<lparr>pr_name = n, pr_max = d_arg dir 1, pr_min = d_arg dir 2\<rparr> }"

definition parse_load :: "directive \<Rightarrow> load_entry option" where
  "parse_load dir =
     (if d_args dir = [] then Some \<lparr>le_one = None, le_five = None, le_fifteen = None\<rparr>
      else Some \<lparr>le_one = d_arg dir 0, le_five = d_arg dir 1, le_fifteen = d_arg dir 2\<rparr>)"

definition parse_file_entry :: "directive \<Rightarrow> file_entry option" where
  "parse_file_entry dir = do { p \<leftarrow> d_arg dir 0; Some \<lparr>fe_path = p, fe_max = d_arg dir 1\<rparr> }"

definition parse_logmatch :: "directive \<Rightarrow> log_match_entry option" where
  "parse_logmatch dir = do {
     name \<leftarrow> d_arg dir 0;
     file \<leftarrow> d_arg dir 1;
     Some \<lparr>lm_name = name, lm_file = file, lm_args = drop 2 (d_args dir)\<rparr>
   }"

definition parse_master :: "directive \<Rightarrow> master_config option" where
  "parse_master dir = do { typ \<leftarrow> d_arg dir 0; Some \<lparr>mc_typ = typ, mc_socket = None\<rparr> }"

definition parse_smuxpeer :: "directive \<Rightarrow> smuxpeer_entry option" where
  "parse_smuxpeer dir = do {
     o1 \<leftarrow> d_arg dir 0;
     Some \<lparr>sm_oid = o1, sm_password = (case d_arg dir 1 of Some p \<Rightarrow> p | None \<Rightarrow> [])\<rparr>
   }"

definition freeform_value :: "directive \<Rightarrow> string" where
  "freeform_value dir = (case d_args dir of [a] \<Rightarrow> a | _ \<Rightarrow> trim (d_rest dir))"

definition create_user_args :: "string list \<Rightarrow> string list" where
  "create_user_args args = (case args of a # _ \<Rightarrow> if a = ''-e'' then drop 2 args else args | [] \<Rightarrow> [])"

definition build_create_user :: "string list \<Rightarrow> (usm_user, arg_error) result" where
  "build_create_user args0 =
     (case create_user_args args0 of
        [] \<Rightarrow> Err ''createUser requires a username''
      | [name] \<Rightarrow> Ok (usm_noauth name)
      | [name, auth] \<Rightarrow> Err (''createUser '' @ squote @ name @ squote @ '': auth type without a passphrase'')
      | [name, auth, apass] \<Rightarrow>
          bind_result (parse_auth_proto auth) (\<lambda>proto. Ok (usm_auth name proto apass))
      | [name, auth, apass, priv] \<Rightarrow>
          Err (''createUser '' @ squote @ name @ squote @ '': privacy type without a passphrase'')
      | name # auth # apass # priv # ppass # _ \<Rightarrow>
          bind_result (parse_auth_proto auth) (\<lambda>aproto.
          bind_result (parse_priv_proto priv) (\<lambda>pproto.
            Ok (usm_auth_priv name aproto apass pproto ppass))))"

section \<open>The loop over the directives\<close>

text \<open>The settings so far with the local variables \<open>ro\<close>, \<open>rw\<close> and \<open>agentx_socket\<close>.\<close>

record settings_state = snmpd_settings +
  st_ro :: "string option"
  st_rw :: "string option"
  st_agentx_socket :: "string option"

definition add_opt :: "'a option \<Rightarrow> 'a list \<Rightarrow> 'a list" where
  "add_opt e xs = (case e of None \<Rightarrow> xs | Some x \<Rightarrow> xs @ [x])"

definition vacm_step :: "string \<Rightarrow> directive \<Rightarrow> settings_state \<Rightarrow> settings_state" where
  "vacm_step t dir s =
     (if t \<in> {''com2sec'', ''com2sec6''} then s\<lparr>ss_com2sec := add_opt (parse_com2sec dir) (ss_com2sec s)\<rparr>
      else if t = ''group'' then s\<lparr>ss_groups := add_opt (parse_group dir) (ss_groups s)\<rparr>
      else if t = ''view'' then s\<lparr>ss_views := add_opt (parse_view dir) (ss_views s)\<rparr>
      else if t \<in> {''access'', ''access2''} then s\<lparr>ss_access := add_opt (parse_access dir) (ss_access s)\<rparr>
      else s)"

definition trap_step :: "string \<Rightarrow> directive \<Rightarrow> settings_state \<Rightarrow> settings_state" where
  "trap_step t dir s =
     (if t = ''trapsink'' then s\<lparr>ss_trapsinks := ss_trapsinks s @ [parse_trap_sink TrapSink dir]\<rparr>
      else if t = ''trap2sink'' then s\<lparr>ss_trapsinks := ss_trapsinks s @ [parse_trap_sink Trap2Sink dir]\<rparr>
      else if t = ''informsink'' then s\<lparr>ss_trapsinks := ss_trapsinks s @ [parse_trap_sink InformSink dir]\<rparr>
      else if t = ''trapsess'' then s\<lparr>ss_trapsesses := add_opt (parse_trapsess dir) (ss_trapsesses s)\<rparr>
      else s)"

definition extension_step :: "string \<Rightarrow> directive \<Rightarrow> settings_state \<Rightarrow> settings_state" where
  "extension_step t dir s =
     (if t = ''proxy'' then s\<lparr>ss_proxy := add_opt (parse_proxy dir) (ss_proxy s)\<rparr>
      else if t \<in> {''exec'', ''extend'', ''sh''} then s\<lparr>ss_exec := ss_exec s @ [parse_exec dir]\<rparr>
      else if t = ''pass'' then s\<lparr>ss_pass := add_opt (parse_pass False dir) (ss_pass s)\<rparr>
      else if t \<in> {''pass_persist'', ''passpersist''} then s\<lparr>ss_pass := add_opt (parse_pass True dir) (ss_pass s)\<rparr>
      else if t = ''disk'' then s\<lparr>ss_disk := add_opt (parse_disk dir) (ss_disk s)\<rparr>
      else if t = ''proc'' then s\<lparr>ss_proc := add_opt (parse_proc dir) (ss_proc s)\<rparr>
      else if t = ''load'' then s\<lparr>ss_load := parse_load dir\<rparr>
      else if t = ''file'' then s\<lparr>ss_file := add_opt (parse_file_entry dir) (ss_file s)\<rparr>
      else if t = ''logmatch'' then s\<lparr>ss_logmatch := add_opt (parse_logmatch dir) (ss_logmatch s)\<rparr>
      else s)"

definition attach_socket :: "string option \<Rightarrow> master_config \<Rightarrow> master_config" where
  "attach_socket socket m = m\<lparr>mc_socket := (case socket of Some p \<Rightarrow> Some p | None \<Rightarrow> mc_socket m)\<rparr>"

definition subagent_step :: "string \<Rightarrow> directive \<Rightarrow> settings_state \<Rightarrow> settings_state" where
  "subagent_step t dir s =
     (if t = ''master'' then
        (case parse_master dir of
           None \<Rightarrow> s
         | Some m \<Rightarrow> s\<lparr>ss_master := Some (attach_socket (st_agentx_socket s) m)\<rparr>)
      else if t = ''agentxsocket'' then
        s\<lparr>st_agentx_socket := d_arg dir 0,
          ss_master := map_option (\<lambda>m. m\<lparr>mc_socket := d_arg dir 0\<rparr>) (ss_master s)\<rparr>
      else if t = ''smuxpeer'' then s\<lparr>ss_smuxpeer := add_opt (parse_smuxpeer dir) (ss_smuxpeer s)\<rparr>
      else if t = ''smuxsocket'' then s\<lparr>ss_smuxsocket := d_arg dir 0\<rparr>
      else if t \<in> {''iquery'', ''agentsecname''} then s\<lparr>ss_iquery := d_arg dir 0\<rparr>
      else s)"

text \<open>
  The tokens of the groups are distinct, so at most one of the four last steps changes anything.
\<close>

definition settings_step :: "directive \<Rightarrow> settings_state \<Rightarrow> (settings_state, arg_error) result" where
  "settings_step dir s =
     (let t = to_ascii_lowercase (d_token dir)
      in if \<not> in_section ''snmpd'' dir then Ok s
         else if t \<in> {''rocommunity'', ''rocommunity6''} then Ok (s\<lparr>st_ro := d_arg dir 0\<rparr>)
         else if t \<in> {''rwcommunity'', ''rwcommunity6''} then Ok (s\<lparr>st_rw := d_arg dir 0\<rparr>)
         else if t = ''syslocation'' then Ok (s\<lparr>ss_sys_location := Some (freeform_value dir)\<rparr>)
         else if t = ''syscontact'' then Ok (s\<lparr>ss_sys_contact := Some (freeform_value dir)\<rparr>)
         else if t = ''agentaddress'' then
           Ok (s\<lparr>ss_agent_address := ss_agent_address s @ map normalize_bind_addr (expand_address_list (d_args dir))\<rparr>)
         else if t = ''createuser'' then
           bind_result (build_create_user (d_args dir)) (\<lambda>u. Ok (s\<lparr>ss_users := ss_users s @ [u]\<rparr>))
         else if t = ''persistentdir'' then
           Ok (case d_arg dir 0 of None \<Rightarrow> s | Some p \<Rightarrow> s\<lparr>ss_persistent_dir := Some (path_of_str p)\<rparr>)
         else Ok (subagent_step t dir (extension_step t dir (trap_step t dir (vacm_step t dir s)))))"

fun settings_loop :: "directive list \<Rightarrow> settings_state \<Rightarrow> (settings_state, arg_error) result" where
  "settings_loop [] s = Ok s"
| "settings_loop (d # ds) s = bind_result (settings_step d s) (settings_loop ds)"

definition settings_start :: settings_state where
  "settings_start =
     snmpd_settings.extend settings_default \<lparr>st_ro = None, st_rw = None, st_agentx_socket = None\<rparr>"

definition settings_end :: "directive list \<Rightarrow> settings_state \<Rightarrow> snmpd_settings" where
  "settings_end ds s =
     (snmpd_settings.truncate s)
       \<lparr>ss_community := (case st_rw s of Some c \<Rightarrow> Some c | None \<Rightarrow> st_ro s),
        ss_vacm := (if ss_com2sec s \<noteq> [] \<or> ss_groups s \<noteq> [] \<or> ss_views s \<noteq> [] \<or> ss_access s \<noteq> []
                    then Some (from_config_directives ds) else ss_vacm s)\<rparr>"

definition settings_from_directives :: "directive list \<Rightarrow> (snmpd_settings, arg_error) result" where
  "settings_from_directives ds =
     bind_result (settings_loop ds settings_start) (\<lambda>s. Ok (settings_end ds s))"

definition first_agent_address :: "snmpd_settings \<Rightarrow> string option" where
  "first_agent_address s = (case ss_agent_address s of [] \<Rightarrow> None | a # _ \<Rightarrow> Some a)"

definition has_vacm :: "snmpd_settings \<Rightarrow> bool" where
  "has_vacm s \<longleftrightarrow> ss_vacm s \<noteq> None"

section \<open>What the settings say about access\<close>

definition snmpd_line :: "string set \<Rightarrow> directive \<Rightarrow> bool" where
  "snmpd_line tokens d \<longleftrightarrow> in_section ''snmpd'' d \<and> to_ascii_lowercase (d_token d) \<in> tokens"

text \<open>The argument of the last such line.\<close>

definition last_line :: "string set \<Rightarrow> string option \<Rightarrow> directive list \<Rightarrow> string option" where
  "last_line tokens v ds = (case filter (snmpd_line tokens) ds of [] \<Rightarrow> v | ls \<Rightarrow> d_arg (last ls) 0)"

definition created_users :: "directive list \<Rightarrow> (usm_user, arg_error) result list" where
  "created_users ds = map (\<lambda>d. build_create_user (d_args d)) (filter (snmpd_line {''createuser''}) ds)"

text \<open>The lines that make the agent build access control tables.\<close>

definition vacm_line :: "directive \<Rightarrow> bool" where
  "vacm_line d \<longleftrightarrow>
     snmpd_line {''com2sec'', ''com2sec6''} d \<and> parse_com2sec d \<noteq> None \<or>
     snmpd_line {''group''} d \<and> parse_group d \<noteq> None \<or>
     snmpd_line {''view''} d \<and> parse_view d \<noteq> None \<or>
     snmpd_line {''access'', ''access2''} d \<and> parse_access d \<noteq> None"

definition some_vacm_entry :: "settings_state \<Rightarrow> bool" where
  "some_vacm_entry s \<longleftrightarrow> ss_com2sec s \<noteq> [] \<or> ss_groups s \<noteq> [] \<or> ss_views s \<noteq> [] \<or> ss_access s \<noteq> []"

lemma last_line_Cons:
  "last_line tokens v (d # ds) = last_line tokens (if snmpd_line tokens d then d_arg d 0 else v) ds"
  by (simp add: last_line_def split: list.split)

lemma add_opt_nonempty [simp]: "add_opt e xs = [] \<longleftrightarrow> e = None \<and> xs = []"
  by (simp add: add_opt_def split: option.split)

lemma other_steps_keep [simp]:
  "st_ro (vacm_step t d s) = st_ro s" "st_rw (vacm_step t d s) = st_rw s" "ss_users (vacm_step t d s) = ss_users s"
  "ss_vacm (vacm_step t d s) = ss_vacm s"
  "st_ro (trap_step t d s) = st_ro s" "st_rw (trap_step t d s) = st_rw s" "ss_users (trap_step t d s) = ss_users s"
  "ss_vacm (trap_step t d s) = ss_vacm s" "some_vacm_entry (trap_step t d s) = some_vacm_entry s"
  "st_ro (extension_step t d s) = st_ro s" "st_rw (extension_step t d s) = st_rw s"
  "ss_users (extension_step t d s) = ss_users s"
  "ss_vacm (extension_step t d s) = ss_vacm s" "some_vacm_entry (extension_step t d s) = some_vacm_entry s"
  "st_ro (subagent_step t d s) = st_ro s" "st_rw (subagent_step t d s) = st_rw s"
  "ss_users (subagent_step t d s) = ss_users s"
  "ss_vacm (subagent_step t d s) = ss_vacm s" "some_vacm_entry (subagent_step t d s) = some_vacm_entry s"
  by (simp_all add: vacm_step_def trap_step_def extension_step_def subagent_step_def some_vacm_entry_def
      split: option.split)

definition VACM_TOKENS :: "string set" where
  "VACM_TOKENS = {''com2sec'', ''com2sec6'', ''group'', ''view'', ''access'', ''access2''}"

lemma vacm_step_other: "t \<notin> VACM_TOKENS \<Longrightarrow> vacm_step t d s = s"
  by (simp add: vacm_step_def VACM_TOKENS_def)

lemma vacm_line_cases:
  assumes "in_section ''snmpd'' d" and "to_ascii_lowercase (d_token d) = t"
  shows "vacm_line d \<longleftrightarrow> some_vacm_entry (vacm_step t d settings_start)"
proof (cases "t \<in> VACM_TOKENS")
  case True
  then show ?thesis
    unfolding VACM_TOKENS_def using assms
    by (elim insertE emptyE) (simp_all add: vacm_line_def snmpd_line_def vacm_step_def some_vacm_entry_def
        settings_start_def settings_default_def snmpd_settings.defs)
next
  case False
  then show ?thesis
    using assms unfolding vacm_step_other [OF False]
    by (simp add: vacm_line_def snmpd_line_def VACM_TOKENS_def some_vacm_entry_def settings_start_def
        settings_default_def snmpd_settings.defs)
qed

lemma vacm_step_entries:
  "some_vacm_entry (vacm_step t d s) \<longleftrightarrow> some_vacm_entry s \<or> some_vacm_entry (vacm_step t d settings_start)"
proof (cases "t \<in> VACM_TOKENS")
  case True
  then show ?thesis
    unfolding VACM_TOKENS_def
    by (elim insertE emptyE) (auto simp: vacm_step_def some_vacm_entry_def settings_start_def settings_default_def
        snmpd_settings.defs)
next
  case False
  then show ?thesis
    by (simp add: vacm_step_other some_vacm_entry_def settings_start_def settings_default_def snmpd_settings.defs)
qed

definition OWN_TOKENS :: "string set" where
  "OWN_TOKENS = {''rocommunity'', ''rocommunity6'', ''rwcommunity'', ''rwcommunity6'', ''syslocation'',
     ''syscontact'', ''agentaddress'', ''createuser'', ''persistentdir''}"

lemma settings_step_other:
  assumes "in_section ''snmpd'' d" and "to_ascii_lowercase (d_token d) = t" and "t \<notin> OWN_TOKENS"
  shows "settings_step d s = Ok (subagent_step t d (extension_step t d (trap_step t d (vacm_step t d s))))"
  using assms by (simp add: settings_step_def OWN_TOKENS_def)

definition step_effect :: "directive \<Rightarrow> settings_state \<Rightarrow> settings_state \<Rightarrow> bool" where
  "step_effect d s s' \<longleftrightarrow>
     st_ro s' = (if snmpd_line {''rocommunity'', ''rocommunity6''} d then d_arg d 0 else st_ro s) \<and>
     st_rw s' = (if snmpd_line {''rwcommunity'', ''rwcommunity6''} d then d_arg d 0 else st_rw s) \<and>
     map Ok (ss_users s') = map Ok (ss_users s) @ created_users [d] \<and>
     ss_vacm s' = ss_vacm s \<and> (some_vacm_entry s' \<longleftrightarrow> some_vacm_entry s \<or> vacm_line d)"

lemma settings_step_Ok:
  assumes "settings_step d s = Ok s'"
  shows "step_effect d s s'"
proof -
  define t where t: "t = to_ascii_lowercase (d_token d)"
  consider (out) "\<not> in_section ''snmpd'' d" | (own) "in_section ''snmpd'' d" "t \<in> OWN_TOKENS"
    | (other) "in_section ''snmpd'' d" "t \<notin> OWN_TOKENS" by blast
  then show ?thesis
  proof cases
    case out
    with assms show ?thesis by (simp add: settings_step_def step_effect_def snmpd_line_def vacm_line_def created_users_def)
  next
    case own
    have "\<not> vacm_line d"
      using own unfolding OWN_TOKENS_def
      by (elim insertE emptyE) (simp_all add: vacm_line_def snmpd_line_def t [symmetric])
    with own show ?thesis
      using assms unfolding OWN_TOKENS_def
      by (elim insertE emptyE) (auto simp: settings_step_def step_effect_def snmpd_line_def created_users_def
          some_vacm_entry_def t [symmetric] split: option.splits)
  next
    case other
    then have "s' = subagent_step t d (extension_step t d (trap_step t d (vacm_step t d s)))"
      using assms settings_step_other [OF other(1) t [symmetric] other(2)] by simp
    moreover have "created_users [d] = []"
      "\<not> snmpd_line {''rocommunity'', ''rocommunity6''} d" "\<not> snmpd_line {''rwcommunity'', ''rwcommunity6''} d"
      using other(2) by (simp_all add: OWN_TOKENS_def created_users_def snmpd_line_def t [symmetric])
    ultimately show ?thesis
      using vacm_line_cases [OF other(1) t [symmetric]] by (simp add: step_effect_def vacm_step_entries [of t d s])
  qed
qed

lemma settings_step_Err:
  "settings_step d s = Err e \<longleftrightarrow> snmpd_line {''createuser''} d \<and> build_create_user (d_args d) = Err e"
proof (cases "build_create_user (d_args d)")
  case (Ok u)
  then show ?thesis by (simp add: settings_step_def Let_def)
next
  case (Err e')
  then show ?thesis by (auto simp: settings_step_def snmpd_line_def Let_def split: if_splits)
qed

abbreviation RO_TOKENS :: "string set" where
  "RO_TOKENS \<equiv> {''rocommunity'', ''rocommunity6''}"

abbreviation RW_TOKENS :: "string set" where
  "RW_TOKENS \<equiv> {''rwcommunity'', ''rwcommunity6''}"

lemma created_users_Cons: "created_users (d # ds) = created_users [d] @ created_users ds"
  by (simp add: created_users_def)

lemma settings_loop_Ok:
  assumes "settings_loop ds s = Ok s'"
  shows "st_ro s' = last_line RO_TOKENS (st_ro s) ds \<and> st_rw s' = last_line RW_TOKENS (st_rw s) ds \<and>
     map Ok (ss_users s') = map Ok (ss_users s) @ created_users ds \<and> ss_vacm s' = ss_vacm s \<and>
     (some_vacm_entry s' \<longleftrightarrow> some_vacm_entry s \<or> list_ex vacm_line ds)"
  using assms
proof (induction ds arbitrary: s)
  case Nil
  then show ?case by (simp add: last_line_def created_users_def)
next
  case (Cons d ds)
  then obtain s1 where s1: "settings_step d s = Ok s1" and l: "settings_loop ds s1 = Ok s'" by auto
  from settings_step_Ok [OF s1] Cons.IH [OF l] show ?case
    by (simp add: step_effect_def last_line_Cons created_users_Cons [of d ds] disj_assoc)
qed

lemma settings_loop_Err: "(\<exists>e. settings_loop ds s = Err e) \<longleftrightarrow> (\<exists>e. Err e \<in> set (created_users ds))"
proof (induction ds arbitrary: s)
  case Nil
  then show ?case by (simp add: created_users_def)
next
  case (Cons d ds)
  show ?case
  proof (cases "settings_step d s")
    case (Ok s1)
    have "Err e \<notin> set (created_users [d])" for e
      using settings_step_Err [of d s e] Ok by (auto simp: created_users_def)
    with Cons.IH [of s1] Ok show ?thesis by (simp add: created_users_Cons [of d ds])
  next
    case (Err e)
    then have "Err e \<in> set (created_users [d])" using settings_step_Err [of d s e] by (simp add: created_users_def)
    with Err show ?thesis by (auto simp: created_users_Cons [of d ds])
  qed
qed

lemma settings_access:
  assumes "settings_from_directives ds = Ok s"
  shows "ss_community s = (case last_line RW_TOKENS None ds of Some c \<Rightarrow> Some c | None \<Rightarrow> last_line RO_TOKENS None ds)"
    "created_users ds = map Ok (ss_users s)"
    "ss_vacm s = (if list_ex vacm_line ds then Some (from_config_directives ds) else None)"
proof -
  obtain s' where l: "settings_loop ds settings_start = Ok s'" and s: "s = settings_end ds s'"
    using assms by (auto simp: settings_from_directives_def)
  note e = settings_loop_Ok [OF l]
  have start: "st_ro settings_start = None" "st_rw settings_start = None" "ss_users settings_start = []"
    "ss_vacm settings_start = None" "\<not> some_vacm_entry settings_start"
    by (simp_all add: settings_start_def settings_default_def snmpd_settings.defs some_vacm_entry_def)
  show "ss_community s = (case last_line RW_TOKENS None ds of Some c \<Rightarrow> Some c | None \<Rightarrow> last_line RO_TOKENS None ds)"
    "created_users ds = map Ok (ss_users s)"
    using e start unfolding s by (simp_all add: settings_end_def snmpd_settings.defs split: option.split)
  have "ss_vacm s = (if some_vacm_entry s' then Some (from_config_directives ds) else ss_vacm s')"
    unfolding s by (simp add: settings_end_def some_vacm_entry_def snmpd_settings.defs)
  then show "ss_vacm s = (if list_ex vacm_line ds then Some (from_config_directives ds) else None)"
    using e start by simp
qed

lemma settings_fail:
  "(\<exists>e. settings_from_directives ds = Err e) \<longleftrightarrow> (\<exists>e. Err e \<in> set (created_users ds))"
  using settings_loop_Err [of ds settings_start]
  by (cases "settings_loop ds settings_start") (auto simp: settings_from_directives_def)

end
