(* ===== verification/Snmpd.thy ===== *)
theory Snmpd
  imports Snmp_Agent Snmpd_Settings
begin

text \<open>
  The agent program (\<^verbatim>\<open>crates/netsnmp-apps/src/bin/snmpd.rs\<close>): its options, the settings from
  \<^verbatim>\<open>snmpd.conf\<close> under them, and the agent it constructs.  The registry of MIB modules is an argument;
  binding sockets and signals are not modelled.
\<close>

section \<open>From options and settings to the agent\<close>

record snmpd_cli =
  cl_community :: "string option"
  cl_v3_user :: "string option"
  cl_auth_protocol :: "string option"
  cl_auth_pass :: "string option"
  cl_priv_protocol :: "string option"
  cl_priv_pass :: "string option"
  cl_bind_addr :: "string option"

definition cli_v3_user :: "snmpd_cli \<Rightarrow> (usm_user option, arg_error) result" where
  "cli_v3_user c =
     (case cl_v3_user c of
        None \<Rightarrow> Ok None
      | Some name \<Rightarrow>
          (case cl_auth_pass c of
             None \<Rightarrow> Ok (Some (usm_noauth name))
           | Some auth_pass \<Rightarrow>
               bind_result (case cl_auth_protocol c of Some p \<Rightarrow> parse_auth_proto p | None \<Rightarrow> Ok HmacSha1) (\<lambda>auth_proto.
                 case cl_priv_pass c of
                   None \<Rightarrow> Ok (Some (usm_auth name auth_proto auth_pass))
                 | Some priv_pass \<Rightarrow>
                     bind_result (case cl_priv_protocol c of Some p \<Rightarrow> parse_priv_proto p | None \<Rightarrow> Ok AesCfb128) (\<lambda>priv_proto.
                       Ok (Some (usm_auth_priv name auth_proto auth_pass priv_proto priv_pass))))))"

text \<open>Settings that do not parse are ignored with a warning.\<close>

definition settings_or_default :: "directive list \<Rightarrow> snmpd_settings" where
  "settings_or_default ds = (case settings_from_directives ds of Ok s \<Rightarrow> s | Err e \<Rightarrow> settings_default)"

definition default_community :: string where
  "default_community = ''public''"

definition snmpd_community :: "snmpd_cli \<Rightarrow> snmpd_settings \<Rightarrow> u8 list" where
  "snmpd_community c s =
     as_bytes (case cl_community c of
                 Some x \<Rightarrow> x
               | None \<Rightarrow> (case ss_community s of Some x \<Rightarrow> x | None \<Rightarrow> default_community))"

definition snmpd_bind_addrs :: "snmpd_cli \<Rightarrow> snmpd_settings \<Rightarrow> string list" where
  "snmpd_bind_addrs c s =
     (case cl_bind_addr c of
        Some a \<Rightarrow> map normalize_bind_addr (filter (\<lambda>x. x \<noteq> []) (map trim (split_on CHR '','' a)))
      | None \<Rightarrow> if ss_agent_address s = [] then [''127.0.0.1:1161''] else ss_agent_address s)"

text \<open>\<^verbatim>\<open>Agent::new\<close> on the configuration: without a VACM it gets an empty one.\<close>

definition agent_new ::
  "'s registry \<Rightarrow> u8 list \<Rightarrow> u8 list \<Rightarrow> u32 \<Rightarrow> usm_user list \<Rightarrow> vacm option \<Rightarrow> 's agent" where
  "agent_new hs community engine_id boots users vacm =
     \<lparr>ag_registry = hs, ag_community = community, ag_engine_id = engine_id, ag_engine_boots = boots,
      ag_users = users, ag_vacm = (case vacm of Some v \<Rightarrow> v | None \<Rightarrow> vacm_new)\<rparr>"

text \<open>The program ends with an error for bad options, and \<open>bind_addrs[0]\<close> panics when the address
  given on the command line holds nothing but separators.\<close>

datatype snmpd_stop = BadOption arg_error | NoBindAddress

definition snmpd_agent :: "snmpd_cli \<Rightarrow> directive list \<Rightarrow> 's registry \<Rightarrow> ('s agent, snmpd_stop) result" where
  "snmpd_agent c ds hs =
     (let s = settings_or_default ds
      in case cli_v3_user c of
           Err e \<Rightarrow> Err (BadOption e)
         | Ok cli_user \<Rightarrow>
             if snmpd_bind_addrs c s = [] then Err NoBindAddress
             else Ok (agent_new hs (snmpd_community c s) default_engine_id 1
                   (ss_users s @ (case cli_user of None \<Rightarrow> [] | Some u \<Rightarrow> [u])) (ss_vacm s)))"

section \<open>What a configuration means\<close>

lemma snmpd_agent_Ok:
  assumes "snmpd_agent c ds hs = Ok ag"
  obtains u where "cli_v3_user c = Ok u"
    "ag = agent_new hs (snmpd_community c (settings_or_default ds)) default_engine_id 1
       (ss_users (settings_or_default ds) @ (case u of None \<Rightarrow> [] | Some u \<Rightarrow> [u])) (ss_vacm (settings_or_default ds))"
  using assms by (auto simp: snmpd_agent_def Let_def split: result.splits if_splits)

lemma trim_Nil: "trim [] = []"
proof -
  have "white_prefix [] = None" "white_suffix [] = None"
    using white_prefix_nonempty [of "[]"] white_suffix_nonempty [of "[]"]
    by (cases "white_prefix []", simp, force simp: starts_with_def, cases "white_suffix []", simp, force simp: starts_with_def)
  then show ?thesis by (simp add: trim_def trim_start.simps [of "[]"] trim_end.simps [of "[]"])
qed

lemma blank_bind_address_panics:
  assumes "cl_bind_addr c = Some '',''" and "cli_v3_user c = Ok u"
  shows "snmpd_agent c ds hs = Err NoBindAddress"
  using assms by (simp add: snmpd_agent_def snmpd_bind_addrs_def trim_Nil Let_def)

text \<open>The first setting that is present.\<close>

definition first_set :: "string option list \<Rightarrow> string option" where
  "first_set os = (case filter (\<lambda>x. x \<noteq> None) os of [] \<Rightarrow> None | x # _ \<Rightarrow> x)"

lemma settings_or_default_good:
  assumes "created_users ds = map Ok users"
  shows "settings_from_directives ds = Ok (settings_or_default ds)"
proof (cases "settings_from_directives ds")
  case (Err e)
  then have "\<exists>e. Err e \<in> set (created_users ds)" using settings_fail [of ds] by blast
  with assms show ?thesis by auto
qed (simp add: settings_or_default_def)

section \<open>Two small configurations\<close>

definition demo_cli :: snmpd_cli where
  "demo_cli = \<lparr>cl_community = None, cl_v3_user = None, cl_auth_protocol = None, cl_auth_pass = None,
     cl_priv_protocol = None, cl_priv_pass = None, cl_bind_addr = None\<rparr>"

text \<open>\<^verbatim>\<open>rocommunity p\<close>\<close>

definition demo_ro :: string where
  "demo_ro = plain_line ''rocommunity'' [''p'']"

text \<open>\<^verbatim>\<open>createUser bob MD5\<close>: the passphrase is missing.\<close>

definition demo_bad_user :: string where
  "demo_bad_user = plain_line ''createUser'' [''bob'', ''MD5'']"

lemma demo_words:
  "plain_token ''rocommunity''" "bare_word ''p''" "plain_token ''createUser''" "bare_word ''bob''" "bare_word ''MD5''"
  by (simp_all add: plain_token_def bare_word_def bare_char_def is_ascii_def is_whitespace_ascii
      to_ascii_lowercase_def lower_char_def)

lemma demo_ro_parsed:
  "parse_str demo_ro = [\<lparr>d_token = ''rocommunity'', d_args = [''p''], d_rest = trim_start '' p'',
     d_section = None, d_source = None, d_line_no = 1\<rparr>]"
  unfolding demo_ro_def by (subst parse_str_plain_line) (simp_all add: demo_words plain_line_def)

lemma demo_bad_parsed:
  "parse_str demo_bad_user = [\<lparr>d_token = ''createUser'', d_args = [''bob'', ''MD5''], d_rest = trim_start '' bob MD5'',
     d_section = None, d_source = None, d_line_no = 1\<rparr>]"
  unfolding demo_bad_user_def by (subst parse_str_plain_line) (simp_all add: demo_words plain_line_def)

lemma demo_lower: "to_ascii_lowercase ''rocommunity'' = ''rocommunity''" "to_ascii_lowercase ''createUser'' = ''createuser''"
  by code_simp+

lemma demo_ro_lines:
  "created_users (parse_str demo_ro) = map Ok []" "\<not> list_ex vacm_line (parse_str demo_ro)"
  "last_line RW_TOKENS None (parse_str demo_ro) = None" "last_line RO_TOKENS None (parse_str demo_ro) = Some ''p''"
  by (simp_all add: demo_ro_parsed created_users_def vacm_line_def last_line_def snmpd_line_def in_section_def
      demo_lower d_arg_def)

lemma demo_agent_exists: "snmpd_agent demo_cli ds hs =
   Ok (agent_new hs (snmpd_community demo_cli (settings_or_default ds)) default_engine_id 1
     (ss_users (settings_or_default ds)) (ss_vacm (settings_or_default ds)))"
  by (simp add: snmpd_agent_def cli_v3_user_def snmpd_bind_addrs_def demo_cli_def Let_def)

section \<open>What the agent enforces\<close>

text \<open>C28: When every \<open>createUser\<close> line is well formed, the agent accepts the community of the command
  line, else of the last \<open>rwcommunity\<close> line, else of the last \<open>rocommunity\<close> line, else \<open>public\<close>; it knows
  the users of the \<open>createUser\<close> lines and of the command line; and it enforces the access control
  tables of the file if some line is a well-formed \<open>com2sec\<close>, \<open>group\<close>, \<open>view\<close> or \<open>access\<close> line, and
  otherwise none.  Its boot count is 1, whatever the store holds.\<close>

theorem snmpd_agent_spec:
  assumes "snmpd_agent c ds hs = Ok ag" and "created_users ds = map Ok users"
  shows "Some (ag_community ag) = map_option as_bytes (first_set [cl_community c, last_line RW_TOKENS None ds,
           last_line RO_TOKENS None ds, Some ''public'']) \<and>
     (\<exists>u. cli_v3_user c = Ok u \<and> ag_users ag = users @ (case u of None \<Rightarrow> [] | Some u \<Rightarrow> [u])) \<and>
     ag_vacm ag = (if list_ex vacm_line ds then from_config_directives ds else vacm_new) \<and>
     ag_engine_id ag = default_engine_id \<and> ag_engine_boots ag = 1"
proof -
  note s = settings_access [OF settings_or_default_good [OF assms(2)]]
  obtain u where u: "cli_v3_user c = Ok u"
    and ag: "ag = agent_new hs (snmpd_community c (settings_or_default ds)) default_engine_id 1
       (ss_users (settings_or_default ds) @ (case u of None \<Rightarrow> [] | Some u \<Rightarrow> [u])) (ss_vacm (settings_or_default ds))"
    using snmpd_agent_Ok [OF assms(1)] .
  have "ss_users (settings_or_default ds) = users" using s(2) assms(2) by (simp add: inj_map_eq_map inj_def)
  then show ?thesis
    using u by (auto simp: ag agent_new_def s snmpd_community_def default_community_def first_set_def split: option.split)
qed

theorem snmpd_agent_spec_witness:
  "\<exists>ag. snmpd_agent demo_cli (parse_str demo_ro) [demo_handler (Integer 1)] = Ok ag \<and>
     ag_community ag = [112] \<and> ag_vacm ag = vacm_new"
proof -
  obtain ag where ag: "snmpd_agent demo_cli (parse_str demo_ro) [demo_handler (Integer 1)] = Ok ag"
    by (simp add: demo_agent_exists)
  from snmpd_agent_spec [OF ag demo_ro_lines(1)] ag show ?thesis
    by (simp add: demo_ro_lines demo_cli_def first_set_def as_bytes_def byte_of_char_def)
qed

lemma access_when_empty:
  "sec_vacm sec = Some vacm_new \<Longrightarrow> first_denied sec i vbs = None"
  by (induction vbs arbitrary: i)
    (simp_all add: allows_def is_view_accessible_def vacm_is_empty_def vacm_new_def)

text \<open>C40: Without a \<open>com2sec\<close>, \<open>group\<close>, \<open>view\<close> or \<open>access\<close> line there is no access control, so the community of a
  \<open>rocommunity\<close> line may write: every SET that carries it goes to the handlers.\<close>

theorem rocommunity_grants_write:
  assumes "snmpd_agent c ds hs = Ok ag" and "\<not> list_ex vacm_line ds" and "created_users ds = map Ok users"
    and "message_decode R data = Ok msg" and "m_community msg = ag_community ag" and "ptype (m_pdu msg) = Set"
  shows "handle_community fuel R ag data st =
     (case run_state (process_set hs (m_pdu msg) (new_pdu Response (request_id (m_pdu msg)))) (as_world st) of
        (p, w) \<Rightarrow> (reply_with (message_encode R \<lparr>m_version = m_version msg, m_community = m_community msg, m_pdu = p\<rparr>),
                  st\<lparr>as_world := w\<rparr>))"
proof -
  have "ss_vacm (settings_or_default ds) = None"
    using settings_access(3) [OF settings_or_default_good [OF assms(3)]] assms(2) by simp
  then have "ag_vacm ag = vacm_new" "ag_registry ag = hs"
    using snmpd_agent_Ok [OF assms(1)] by (force simp: agent_new_def)+
  then show ?thesis
    using assms(4-6)
    by (simp add: handle_community_def process_with_access_def access_when_empty Let_def split: prod.split)
qed

definition demo_set :: pdu where
  "demo_set = with_var (new_pdu Set 5) (Oid [1, 3]) (Integer 7)"

definition demo_set_message :: community_message where
  "demo_set_message = \<lparr>cm_version = 1, cm_community = [112],
     cm_data = PSetRequest (demo_query\<lparr>rp_bindings := [\<lparr>rv_name = [1, 3], rv_value = VValue (SInteger 7)\<rparr>]\<rparr>)\<rparr>"

definition demo_set_rasn :: v3_rasn where
  "demo_set_rasn = demo_v3\<lparr>r_dec_message := (\<lambda>b. if b = [50] then Ok demo_set_message else Err ''unknown'')\<rparr>"

text \<open>A handler that stores what it is sent.\<close>

definition demo_cell :: "value mib_handler" where
  "demo_cell =
     \<lparr>h_root = Oid [1, 3], h_get = (\<lambda>o1. State (\<lambda>v. (Some v, v))), h_get_next = (\<lambda>o1. State_Monad.return None),
      h_set = default_set, h_prepare_set = default_prepare_set,
      h_commit_set = (\<lambda>o1 v. State (\<lambda>_. (Ok (), v))), h_undo_set = default_undo_set\<rparr>"

lemma demo_set_decode:
  "message_decode demo_set_rasn [50] = Ok \<lparr>m_version = V2c, m_community = [112], m_pdu = demo_set\<rparr>"
  by (simp add: message_decode_def demo_set_rasn_def demo_set_message_def demo_set_def demo_query_def demo_v3_def
      with_var_def new_pdu_def new_varbind_def pdu_from_rasn_def varbind_from_rasn_def oid_from_rasn_def
      int_to_i64_def version_from_code_def)

theorem rocommunity_grants_write_witness:
  "\<exists>ag. snmpd_agent demo_cli (parse_str demo_ro) [demo_cell] = Ok ag \<and>
     as_world (snd (handle_community 0 demo_set_rasn ag [50] \<lparr>as_usm_stats = 0, as_world = Integer 1\<rparr>)) = Integer 7"
proof -
  obtain ag where ag: "snmpd_agent demo_cli (parse_str demo_ro) [demo_cell] = Ok ag"
    by (simp add: demo_agent_exists)
  have "ag_community ag = [112]"
    using ag settings_access(1) [OF settings_or_default_good [OF demo_ro_lines(1)]] unfolding demo_agent_exists
    by (auto simp: agent_new_def snmpd_community_def demo_ro_lines demo_cli_def as_bytes_def byte_of_char_def)
  with rocommunity_grants_write [OF ag demo_ro_lines(2,1) demo_set_decode, of 0 "\<lparr>as_usm_stats = 0, as_world = Integer 1\<rparr>"] ag
  show ?thesis
    by (simp add: demo_set_def with_var_def new_pdu_def new_varbind_def process_set_def
        handler_for_def max_by_key_def is_prefix_of_def demo_cell_def default_method_defs status_of_def Let_def split: prod.split)
qed

text \<open>C10: An agent whose configuration has a well-formed VACM line, builds access tables that are not
  empty and has neither \<open>access\<close> nor \<open>rwcommunity\<close> lines answers every SET of at least one varbind with
  noAccess at its first varbind and changes nothing: as the reply to a message with its community, and
  in the dispatch of a request under any other security name, model, level or context.\<close>

theorem no_write_without_directive:
  assumes "snmpd_agent c ds hs = Ok ag" and "created_users ds = map Ok users" and "list_ex vacm_line ds"
    and "\<forall>d\<in>set ds. \<not> grants_write d" and "\<not> vacm_is_empty (from_config_directives ds)"
    and "ptype request = Set" and "variables request \<noteq> []"
  shows "(message_decode R data = Ok \<lparr>m_version = v, m_community = ag_community ag, m_pdu = request\<rparr> \<longrightarrow>
      handle_community fuel R ag data st =
        (reply_with (message_encode R \<lparr>m_version = v, m_community = ag_community ag,
           m_pdu = deny request 0 NoAccess (new_pdu Response (request_id request))\<rparr>), st)) \<and>
     (\<forall>sec w. sec_vacm sec = Some (ag_vacm ag) \<longrightarrow>
       run_state (process_with_access fuel hs request sec) w =
         (Some (deny request 0 NoAccess (new_pdu Response (request_id request))), w))"
proof -
  have "ss_vacm (settings_or_default ds) = Some (from_config_directives ds)"
    using settings_access(3) [OF settings_or_default_good [OF assms(2)]] assms(3) by simp
  then have ag: "ag_vacm ag = from_config_directives ds" "ag_registry ag = hs"
    using snmpd_agent_Ok [OF assms(1)] by (force simp: agent_new_def)+
  have "\<not> allows sec WriteView o1" if "sec_vacm sec = Some (ag_vacm ag)" for sec o1
    using config_denies_write [OF assms(4,5)] that by (simp add: allows_def ag)
  then have denied: "run_state (process_with_access fuel hs request sec) w =
      (Some (deny request 0 NoAccess (new_pdu Response (request_id request))), w)"
    if "sec_vacm sec = Some (ag_vacm ag)" for sec w
    using assms(6,7) that by (cases "variables request") (simp_all add: process_with_access_def)
  then show ?thesis by (simp add: handle_community_def ag Let_def)
qed

text \<open>\<^verbatim>\<open>group g v1 p\<close>\<close>

definition demo_group :: directive where
  "demo_group = \<lparr>d_token = ''group'', d_args = [''g'', ''v1'', ''p''], d_rest = ''g v1 p'', d_section = None,
     d_source = None, d_line_no = 1\<rparr>"

theorem no_write_without_directive_witness:
  "\<exists>ag. snmpd_agent (demo_cli\<lparr>cl_community := Some ''p''\<rparr>) [demo_group] [demo_cell] = Ok ag \<and>
     handle_community 0 demo_set_rasn ag [50] \<lparr>as_usm_stats = 0, as_world = Integer 1\<rparr> =
       (reply_with (message_encode demo_set_rasn \<lparr>m_version = V2c, m_community = [112],
          m_pdu = deny demo_set 0 NoAccess (new_pdu Response 5)\<rparr>), \<lparr>as_usm_stats = 0, as_world = Integer 1\<rparr>)"
proof -
  let ?c = "demo_cli\<lparr>cl_community := Some ''p''\<rparr>"
  obtain ag where ag: "snmpd_agent ?c [demo_group] [demo_cell] = Ok ag" "ag_community ag = [112]"
    by (simp add: snmpd_agent_def cli_v3_user_def snmpd_bind_addrs_def demo_cli_def agent_new_def snmpd_community_def
        as_bytes_def byte_of_char_def Let_def)
  have lines: "created_users [demo_group] = map Ok []" "list_ex vacm_line [demo_group]"
    "\<forall>d\<in>set [demo_group]. \<not> grants_write d" "\<not> vacm_is_empty (from_config_directives [demo_group])"
    by (simp_all add: demo_group_def created_users_def vacm_line_def snmpd_line_def in_section_def parse_group_def
        grants_write_def d_is_def eq_ignore_ascii_case_def to_ascii_lowercase_def lower_char_def d_arg_def
        from_config_directives_def apply_directive_def apply_group_def parse_model_def add_group_def
        vacm_new_def vacm_is_empty_def Let_def)
  have "ptype demo_set = Set" "variables demo_set \<noteq> []" "request_id demo_set = 5"
    by (simp_all add: demo_set_def with_var_def new_pdu_def)
  with no_write_without_directive [OF ag(1) lines this(1,2), of demo_set_rasn "[50]" V2c 0] ag demo_set_decode
  show ?thesis by auto
qed

text \<open>One malformed \<open>createUser\<close> line makes the agent ignore its whole configuration: whatever
  communities, views and access lines the file has, the agent serves the community \<open>public\<close>
  without access control.\<close>

lemma bad_create_user_opens_agent:
  assumes "snmpd_agent c ds hs = Ok ag" and "Err e \<in> set (created_users ds)" and "cl_community c = None"
  shows "ag_community ag = as_bytes ''public'' \<and> vacm_is_empty (ag_vacm ag)"
proof -
  obtain e' where "settings_from_directives ds = Err e'" using settings_fail [of ds] assms(2) by blast
  then have "settings_or_default ds = settings_default" by (simp add: settings_or_default_def)
  with snmpd_agent_Ok [OF assms(1)] obtain users where
    "ag = agent_new hs (snmpd_community c settings_default) default_engine_id 1 users (ss_vacm settings_default)"
    by metis
  then show ?thesis
    using assms(3)
    by (simp add: agent_new_def snmpd_community_def settings_default_def default_community_def vacm_is_empty_def
        vacm_new_def)
qed

end
