(* ===== verification/Snmp_Persist.thy ===== *)
theory Snmp_Persist
  imports Snmp_Config Snmp_Scalar
begin

text \<open>
  The persistent store (\<^verbatim>\<open>crates/netsnmp-agent/src/persist.rs\<close>): values as tagged words, directives
  as quoted lines, the registry that writes every item to \<^verbatim>\<open>snmpd.persist\<close> and replays the file at
  startup, and the engine-boots file.  Reading back is the configuration parser of
  \<^verbatim>\<open>Snmp_Config\<close>.
\<close>

section \<open>Writing a directive\<close>

definition quote_char :: "string \<Rightarrow> string" where
  "quote_char c = (if c = dquote \<or> c = backslash \<or> c = [newline] then backslash @ c else c)"

definition needs_quote :: "string \<Rightarrow> bool" where
  "needs_quote s \<longleftrightarrow>
     s = [] \<or> list_ex (\<lambda>c. is_whitespace c \<or> c = dquote \<or> c = squote \<or> c = backslash) (chars s)"

definition quote_word :: "string \<Rightarrow> string" where
  "quote_word s =
     (if \<not> needs_quote s then s else dquote @ concat (map quote_char (chars s)) @ dquote)"

definition serialize_directive :: "directive \<Rightarrow> string" where
  "serialize_directive dir = d_token dir @ concat (map (\<lambda>arg. CHR '' '' # quote_word arg) (d_args dir))"

section \<open>Values as words\<close>

definition hex_lower :: "nat \<Rightarrow> char" where
  "hex_lower n = (if n < 10 then char_of (48 + n) else char_of (87 + n))"

definition hex2 :: "u8 \<Rightarrow> string" where
  "hex2 b = [hex_lower (unat b div 16), hex_lower (unat b mod 16)]"

definition hex_encode :: "u8 list \<Rightarrow> string" where
  "hex_encode bs = concat (map hex2 bs)"

definition printable :: "string \<Rightarrow> bool" where
  "printable s = list_all (\<lambda>c. \<not> is_control c) (chars s)"

fun encode_scalar_value :: "value \<Rightarrow> string \<times> string" where
  "encode_scalar_value (OctetString b) =
     (case from_utf8 b of
        Some s \<Rightarrow> if printable s then (''s'', s) else (''x'', hex_encode b)
      | None \<Rightarrow> (''x'', hex_encode b))"
| "encode_scalar_value (Integer v) = (''i'', show_int (sint v))"
| "encode_scalar_value (Counter32 v) = (''c'', show_nat (unat v))"
| "encode_scalar_value (Gauge32 v) = (''u'', show_nat (unat v))"
| "encode_scalar_value (TimeTicks v) = (''t'', show_nat (unat v))"
| "encode_scalar_value (Counter64 v) = (''6'', show_nat (unat v))"
| "encode_scalar_value (OidValue o1) = (''o'', display_oid o1)"
| "encode_scalar_value (IpAddress ip) = (''a'', show_ipv4 ip)"
| "encode_scalar_value (Opaque b) = (''x'', hex_encode b)"
| "encode_scalar_value Null = (''n'', [])"
| "encode_scalar_value NoSuchObject = (''n'', [])"
| "encode_scalar_value NoSuchInstance = (''n'', [])"
| "encode_scalar_value EndOfMibView = (''n'', [])"

definition hex_val :: "char \<Rightarrow> nat option" where
  "hex_val c =
     (let n = of_char c
      in if 48 \<le> n \<and> n \<le> 57 then Some (n - 48)
         else if 97 \<le> n \<and> n \<le> 102 then Some (n - 87)
         else if 65 \<le> n \<and> n \<le> 70 then Some (n - 55)
         else None)"

text \<open>\<^verbatim>\<open>u8::from_str_radix\<close> on a slice of two characters: a leading \<open>+\<close> is accepted.\<close>

definition from_hex2 :: "char \<Rightarrow> char \<Rightarrow> u8 option" where
  "from_hex2 a b =
     (if a = CHR ''+'' then map_option word_of_nat (hex_val b)
      else (case (hex_val a, hex_val b) of
              (Some m, Some n) \<Rightarrow> Some (word_of_nat (16 * m + n))
            | _ \<Rightarrow> None))"

text \<open>
  Slicing a string between the bytes of one character panics; \<open>Err\<close> below is that panic.  Both
  bounds of \<open>hex[i..i + 2]\<close> have to be boundaries.
\<close>

datatype slice_panic = NotCharBoundary

definition char_boundary :: "string \<Rightarrow> bool" where
  "char_boundary s \<longleftrightarrow> s = [] \<or> of_char (hd s) div 64 \<noteq> (2 :: nat)"

fun hex_decode :: "string \<Rightarrow> (u8 list option, slice_panic) result" where
  "hex_decode [] = Ok (Some [])"
| "hex_decode [a] = Ok None"
| "hex_decode (a # b # s) =
     (if \<not> char_boundary (a # b # s) \<or> \<not> char_boundary s then Err NotCharBoundary
      else case from_hex2 a b of
        None \<Rightarrow> Ok None
      | Some x \<Rightarrow> bind_result (hex_decode s) (\<lambda>r. Ok (map_option ((#) x) r)))"

definition parse_octet :: "string \<Rightarrow> u8 option" where
  "parse_octet s =
     (if s = [] \<or> 3 < length s \<or> (1 < length s \<and> hd s = CHR ''0'') then None
      else case parse_digits 0 s of
        None \<Rightarrow> None
      | Some n \<Rightarrow> if n < 256 then Some (word_of_nat n) else None)"

definition parse_ipv4 :: "string \<Rightarrow> ipv4_addr option" where
  "parse_ipv4 s =
     (case map parse_octet (split_on CHR ''.'' s) of
        [Some a, Some b, Some c, Some d] \<Rightarrow> Some (a, b, c, d)
      | _ \<Rightarrow> None)"

definition result_option :: "('a, 'e) result \<Rightarrow> 'a option" where
  "result_option r = (case r of Ok x \<Rightarrow> Some x | Err e \<Rightarrow> None)"

definition decode_scalar_value :: "string \<Rightarrow> string \<Rightarrow> (value option, slice_panic) result" where
  "decode_scalar_value type_tag payload =
     (if type_tag = ''s'' then Ok (Some (OctetString (as_bytes payload)))
      else if type_tag = ''x'' then
        (let hex = filter (\<lambda>c. c \<noteq> CHR '' '') payload
         in if length hex mod 2 \<noteq> 0 then Ok None
            else bind_result (hex_decode hex) (\<lambda>r. Ok (map_option OctetString r)))
      else if type_tag = ''i'' then Ok (map_option (\<lambda>i. Integer (word_of_int i)) (parse_signed 64 payload))
      else if type_tag = ''c'' then Ok (map_option (\<lambda>n. Counter32 (word_of_nat n)) (parse_unsigned 32 payload))
      else if type_tag = ''u'' then Ok (map_option (\<lambda>n. Gauge32 (word_of_nat n)) (parse_unsigned 32 payload))
      else if type_tag = ''t'' then Ok (map_option (\<lambda>n. TimeTicks (word_of_nat n)) (parse_unsigned 32 payload))
      else if type_tag = ''6'' then Ok (map_option (\<lambda>n. Counter64 (word_of_nat n)) (parse_unsigned 64 payload))
      else if type_tag = ''o'' then Ok (map_option OidValue (result_option (oid_from_str payload)))
      else if type_tag = ''a'' then Ok (map_option IpAddress (parse_ipv4 payload))
      else if type_tag = ''n'' then Ok (Some Null)
      else Ok None)"

section \<open>Persistable items\<close>

text \<open>
  The two implementors of \<^verbatim>\<open>Persistable\<close>; the scalar handler and the boots counter are shared
  with the running agent, so an item carries their current state.
\<close>

datatype persistable =
    ScalarPersistable string scalar_handler
  | EngineBootsPersistable "u8 list" u32

fun ps_key :: "persistable \<Rightarrow> string" where
  "ps_key (ScalarPersistable key h) = key"
| "ps_key (EngineBootsPersistable engine_id boots) = ''engineBoots''"

definition written_directive :: "string \<Rightarrow> string list \<Rightarrow> string \<Rightarrow> directive" where
  "written_directive token args rest =
     \<lparr>d_token = token, d_args = args, d_rest = rest, d_section = None, d_source = None, d_line_no = 0\<rparr>"

fun ps_snapshot :: "persistable \<Rightarrow> directive list" where
  "ps_snapshot (ScalarPersistable key h) =
     (let (type_tag, encoded) = encode_scalar_value (scalar_get_value h)
      in [written_directive key [type_tag, encoded] (type_tag @ '' '' @ encoded)])"
| "ps_snapshot (EngineBootsPersistable engine_id boots) =
     [written_directive ''engineBoots'' [show_nat (unat boots)] (show_nat (unat boots))]"

definition restored_value :: "directive \<Rightarrow> (value option, slice_panic) result" where
  "restored_value d =
     (case d_args d of
        [] \<Rightarrow> Ok None
      | [a] \<Rightarrow> decode_scalar_value ''s'' a
      | a # b # _ \<Rightarrow> decode_scalar_value a b)"

fun restore_scalar :: "scalar_handler \<Rightarrow> directive list \<Rightarrow> (scalar_handler, slice_panic) result" where
  "restore_scalar h [] = Ok h"
| "restore_scalar h (d # ds) =
     bind_result (restored_value d)
       (\<lambda>r. restore_scalar (case r of Some v \<Rightarrow> scalar_set_value v h | None \<Rightarrow> h) ds)"

definition restore_boots :: "u32 \<Rightarrow> directive list \<Rightarrow> u32" where
  "restore_boots boots ds =
     foldl (\<lambda>b d. case d_arg d 0 of
                    None \<Rightarrow> b
                  | Some a \<Rightarrow> (case parse_unsigned 32 a of None \<Rightarrow> b | Some n \<Rightarrow> word_of_nat n)) boots ds"

fun ps_restore :: "persistable \<Rightarrow> directive list \<Rightarrow> (persistable, slice_panic) result" where
  "ps_restore (ScalarPersistable key h) ds =
     bind_result (restore_scalar h ds) (\<lambda>h'. Ok (ScalarPersistable key h'))"
| "ps_restore (EngineBootsPersistable engine_id boots) ds =
     Ok (EngineBootsPersistable engine_id (restore_boots boots ds))"

section \<open>Files\<close>

text \<open>
  The store is the contents of the files; \<open>io_outcome\<close> says how far each system call gets
  (\<open>io_write\<close>: the number of bytes after which \<^verbatim>\<open>write_all\<close> fails, if it does).
\<close>

type_synonym store = "path \<Rightarrow> string option"

record io_outcome =
  io_create_dir :: bool
  io_create :: bool
  io_write :: "nat option"
  io_sync :: bool
  io_rename :: bool

definition write_file :: "io_outcome \<Rightarrow> path \<Rightarrow> path \<Rightarrow> string \<Rightarrow> store \<Rightarrow> bool \<times> store" where
  "write_file io target tmp text files =
     (if \<not> io_create_dir io \<or> \<not> io_create io then (False, files)
      else case io_write io of
        Some n \<Rightarrow> (False, files(tmp \<mapsto> take n text))
      | None \<Rightarrow>
          if \<not> io_sync io \<or> \<not> io_rename io then (False, files(tmp \<mapsto> text))
          else (True, files(tmp := None, target \<mapsto> text)))"

section \<open>The registry of items\<close>

record persistence =
  pn_dir :: path
  pn_items :: "persistable list"

definition persistence_new :: "path \<Rightarrow> persistence" where
  "persistence_new dir = \<lparr>pn_dir = dir, pn_items = []\<rparr>"

fun replace_item :: "persistable \<Rightarrow> persistable list \<Rightarrow> persistable list" where
  "replace_item item [] = [item]"
| "replace_item item (i # items) =
     (if ps_key i = ps_key item then item # items else i # replace_item item items)"

definition persistence_register :: "persistable \<Rightarrow> persistence \<Rightarrow> persistence" where
  "persistence_register item p = p\<lparr>pn_items := replace_item item (pn_items p)\<rparr>"

definition PERSIST_FILE :: string where
  "PERSIST_FILE = ''snmpd.persist''"

definition persist_text :: "persistable list \<Rightarrow> string" where
  "persist_text items =
     concat (map (\<lambda>item. concat (map (\<lambda>dir. serialize_directive dir @ [newline]) (ps_snapshot item))) items)"

definition persist_target :: "path \<Rightarrow> path" where
  "persist_target dir = path_join dir (path_of_str PERSIST_FILE)"

definition persistence_save :: "io_outcome \<Rightarrow> persistence \<Rightarrow> store \<Rightarrow> bool \<times> store" where
  "persistence_save io p files =
     write_file io (persist_target (pn_dir p)) (path_join (pn_dir p) (path_of_str (PERSIST_FILE @ ''.tmp'')))
       (persist_text (pn_items p)) files"

definition load_item :: "directive list \<Rightarrow> persistable \<Rightarrow> (persistable, slice_panic) result" where
  "load_item directives item =
     (let owned = filter (\<lambda>d. d_token d = ps_key item) directives
      in if owned = [] then Ok item else ps_restore item owned)"

fun load_items :: "directive list \<Rightarrow> persistable list \<Rightarrow> (persistable list, slice_panic) result" where
  "load_items directives [] = Ok []"
| "load_items directives (item # items) =
     bind_result (load_item directives item)
       (\<lambda>item'. bind_result (load_items directives items) (\<lambda>items'. Ok (item' # items')))"

definition persistence_load :: "store \<Rightarrow> persistence \<Rightarrow> (persistence, slice_panic) result" where
  "persistence_load files p =
     (case files (persist_target (pn_dir p)) of
        None \<Rightarrow> Ok p
      | Some content \<Rightarrow>
          bind_result (load_items (parse_str content) (pn_items p)) (\<lambda>items. Ok (p\<lparr>pn_items := items\<rparr>)))"

section \<open>Engine boots\<close>

definition engine_boots_file :: "path \<Rightarrow> u8 list \<Rightarrow> path" where
  "engine_boots_file dir engine_id = path_join dir (path_of_str (hex_encode engine_id @ ''.boots''))"

definition load_engine_boots :: "store \<Rightarrow> path \<Rightarrow> u8 list \<Rightarrow> u32 option" where
  "load_engine_boots files dir engine_id =
     (case files (engine_boots_file dir engine_id) of
        None \<Rightarrow> None
      | Some content \<Rightarrow> map_option word_of_nat (parse_unsigned 32 (trim content)))"

definition save_engine_boots :: "io_outcome \<Rightarrow> path \<Rightarrow> u8 list \<Rightarrow> u32 \<Rightarrow> store \<Rightarrow> bool \<times> store" where
  "save_engine_boots io dir engine_id boots files =
     write_file io (engine_boots_file dir engine_id)
       (path_join dir (path_of_str (hex_encode engine_id @ ''.boots.tmp'')))
       (show_nat (unat boots) @ [newline]) files"

definition u32_saturating_add :: "u32 \<Rightarrow> u32 \<Rightarrow> u32" where
  "u32_saturating_add a b = (if unat a + unat b < 2 ^ 32 then a + b else 4294967295)"

definition load_and_bump :: "store \<Rightarrow> path \<Rightarrow> u8 list \<Rightarrow> u32 \<Rightarrow> u32" where
  "load_and_bump files dir engine_id fallback =
     u32_saturating_add (case load_engine_boots files dir engine_id of Some b \<Rightarrow> b | None \<Rightarrow> fallback) 1"

definition default_persistent_dir :: "environment \<Rightarrow> path" where
  "default_persistent_dir env =
     (case env_persistent_dir env of
        Some s \<Rightarrow> if s \<noteq> [] then path_of_str s else path_of_str ''/var/lib/snmp''
      | None \<Rightarrow> path_of_str ''/var/lib/snmp'')"

section \<open>Reading a written directive back\<close>

lemma bare_word_unquoted: "valid_string s \<Longrightarrow> \<not> needs_quote s \<Longrightarrow> bare_word s"
  by (cases "chars s") (auto simp: needs_quote_def bare_word_def bare_char_def list_ex_iff list_all_iff)

definition escaped_chars :: "string list \<Rightarrow> string list" where
  "escaped_chars cs =
     concat (map (\<lambda>c. if c = dquote \<or> c = backslash \<or> c = [newline] then [backslash, c] else [c]) cs)"

lemma concat_escaped: "concat (escaped_chars cs) = concat (map quote_char cs)"
  by (induction cs) (auto simp: escaped_chars_def quote_char_def)

lemma escaped_scalars: "list_all is_scalar cs \<Longrightarrow> list_all is_scalar (escaped_chars cs)"
  by (induction cs) (auto simp: escaped_chars_def is_ascii_def)

lemma quoted_loop_escaped:
  "quoted_loop dquote (escaped_chars cs @ dquote # ds) False w = (w @ concat cs, ds)"
  by (induction cs arbitrary: w) (auto simp: escaped_chars_def)

lemma read_word_quote:
  assumes "valid_string s" and "word_end r"
  shows "read_word (quote_word s @ r) = Some (s, trim_start r)"
proof (cases "needs_quote s")
  case False
  then show ?thesis
    using assms read_word_bare bare_word_unquoted by (simp add: quote_word_def)
next
  case True
  let ?q = "quote_word s @ r"
  have q: "?q = dquote @ concat (escaped_chars (chars s)) @ dquote @ r"
    using True by (simp add: quote_word_def concat_escaped)
  have "chars (concat (escaped_chars (chars s)) @ dquote @ r) = escaped_chars (chars s) @ dquote # chars r"
    using chars_scalars [OF escaped_scalars [OF valid_string_scalars [OF assms(1)]]] by (simp add: is_ascii_def)
  then have cs: "chars ?q = dquote # escaped_chars (chars s) @ dquote # chars r"
    unfolding q by (simp add: is_ascii_def)
  have "trim_start ?q = ?q" by (rule trim_start_nonwhite) (simp only: cs, simp)
  then show ?thesis by (simp add: read_word_def cs quoted_loop_escaped)
qed

lemma parse_words_serialized:
  "list_all valid_string args \<Longrightarrow>
   parse_words (concat (map (\<lambda>arg. CHR '' '' # quote_word arg) args)) = args"
proof (induction args)
  case (Cons a args)
  let ?r = "concat (map (\<lambda>arg. CHR '' '' # quote_word arg) args)"
  have "word_end ?r" by (cases args) simp_all
  then have "read_word (quote_word a @ ?r) = Some (a, trim_start ?r)"
    using Cons.prems by (intro read_word_quote) simp_all
  then show ?case using Cons by (simp add: parse_words_read)
qed simp

text \<open>Text that stays on one line.\<close>

definition line_safe :: "string \<Rightarrow> bool" where
  "line_safe s \<longleftrightarrow> valid_string s \<and> newline \<notin> set s \<and> CHR 0x0D \<notin> set s"

lemma line_safe_append [intro]: "line_safe s \<Longrightarrow> line_safe t \<Longrightarrow> line_safe (s @ t)"
  by (auto simp: line_safe_def intro: valid_string_append)

lemma line_safe_concat: "list_all line_safe ss \<Longrightarrow> line_safe (concat ss)"
  by (induction ss) (auto, simp add: line_safe_def)

lemma scalar_ascii_byte:
  assumes "is_scalar c" and "x \<in> set c" and "is_ascii x"
  shows "c = [x]"
proof -
  let ?bs = "as_bytes c"
  have ne: "c \<noteq> []" using assms(2) by auto
  have scan: "fst (utf8_scan ?bs)" and n: "snd (utf8_scan ?bs) \<ge> length c"
    using assms(1) ne valid_string_step [of c] chars.simps [of c]
    by (auto simp: is_scalar_def dest: arg_cong [of _ _ length])
  obtain i where i: "i < length c" "x = c ! i" using assms(2) by (auto simp: in_set_conv_nth)
  then have xb: "unat (?bs ! i) < 128" using assms(3) by (simp add: as_bytes_def is_ascii_def)
  have len: "length ?bs = length c" by simp
  from scan show ?thesis
  proof (cases rule: utf8_scan_cases)
    case one
    with n ne i show ?thesis by (cases c) auto
  next
    case two
    then have "i = 0 \<or> i = 1" using i(1) n by auto
    with two xb show ?thesis by (auto simp: utf8_cont_def)
  next
    case three
    then have "i = 0 \<or> i = 1 \<or> i = 2" using i(1) n by auto
    with three xb show ?thesis by (auto simp: utf8_cont_def utf8_second_def split: if_splits)
  next
    case four
    then have "i = 0 \<or> i = 1 \<or> i = 2 \<or> i = 3" using i(1) n by auto
    with four xb show ?thesis by (auto simp: utf8_cont_def utf8_second_def split: if_splits)
  qed
qed

lemma ascii_in_string:
  assumes "valid_string s" and "x \<in> set s" and "is_ascii x"
  shows "[x] \<in> set (chars s)"
proof -
  have "x \<in> set (concat (chars s))" using assms(2) by simp
  then obtain c where c: "c \<in> set (chars s)" "x \<in> set c" by (auto simp del: concat_chars)
  then have "is_scalar c" using valid_string_scalars [OF assms(1)] by (auto simp: list_all_iff)
  with c scalar_ascii_byte [of c x] assms(3) show ?thesis by auto
qed

lemma line_breaks [simp]:
  "is_whitespace [newline]" "is_whitespace [CHR 0x0D]" "is_control [newline]" "is_control [CHR 0x0D]"
  by (simp_all add: is_whitespace_ascii is_ascii_def is_control_def)

lemma line_safe_chars:
  assumes "valid_string s" and "[newline] \<notin> set (chars s)" and "[CHR 0x0D] \<notin> set (chars s)"
  shows "line_safe s"
  using assms ascii_in_string [of s newline] ascii_in_string [of s "CHR 0x0D"]
  by (auto simp: line_safe_def is_ascii_def)

lemma line_safe_no_white:
  "valid_string s \<Longrightarrow> list_all (\<lambda>c. \<not> is_whitespace c) (chars s) \<Longrightarrow> line_safe s"
  by (rule line_safe_chars) (auto simp: list_all_iff dest: bspec)

lemma line_safe_printable: "valid_string s \<Longrightarrow> printable s \<Longrightarrow> line_safe s"
  by (rule line_safe_chars) (auto simp: printable_def list_all_iff dest: bspec)

lemma is_graph_char_ascii: "is_graph_char c \<Longrightarrow> is_ascii c \<and> c \<noteq> newline \<and> c \<noteq> CHR 0x0D"
  by (auto simp: is_graph_char_def is_ascii_def)

lemma line_safe_graph: "list_all is_graph_char s \<Longrightarrow> line_safe s"
proof -
  assume s: "list_all is_graph_char s"
  then have "list_all is_ascii s" using is_graph_char_ascii by (simp add: list_all_iff)
  moreover have "newline \<notin> set s" "CHR 0x0D \<notin> set s"
    using s is_graph_char_ascii unfolding list_all_iff by blast+
  ultimately show ?thesis by (simp add: line_safe_def valid_string_all_ascii)
qed

lemma line_safe_quote: "line_safe s \<Longrightarrow> line_safe (quote_word s)"
proof -
  assume s: "line_safe s"
  have "line_safe dquote" "line_safe backslash" by (simp_all add: line_safe_def is_ascii_def)
  moreover have "line_safe (concat (map quote_char (chars s)))"
  proof (rule line_safe_concat, unfold list_all_iff, safe)
    fix q assume "q \<in> set (map quote_char (chars s))"
    then obtain c where c: "c \<in> set (chars s)" "q = quote_char c" by auto
    have "is_scalar c" using c(1) s valid_string_scalars by (auto simp: line_safe_def list_all_iff)
    moreover have "set c \<subseteq> set (concat (chars s))" using c(1) by (auto simp del: concat_chars)
    ultimately have "line_safe c" using s by (auto simp: line_safe_def is_scalar_def)
    then show "line_safe q"
      using c(2) line_safe_append [OF \<open>line_safe backslash\<close>, of c] by (simp add: quote_char_def)
  qed
  ultimately show ?thesis using s by (auto simp: quote_word_def simp del: append.simps)
qed

text \<open>A directive the store can write: an ordinary token and arguments that stay on the line.\<close>

definition writable_directive :: "directive \<Rightarrow> bool" where
  "writable_directive d \<longleftrightarrow> plain_token (d_token d) \<and> list_all line_safe (d_args d)"

lemma plain_token_safe: "plain_token t \<Longrightarrow> line_safe t"
  by (auto simp: plain_token_def bare_word_def bare_char_def list_all_iff intro!: line_safe_no_white)

lemma serialized_safe:
  assumes "writable_directive d"
  shows "line_safe (serialize_directive d)"
proof -
  have "line_safe (CHR '' '' # quote_word a)" if "a \<in> set (d_args d)" for a
    using that assms line_safe_quote [of a] line_safe_append [of "'' ''"]
    by (auto simp: writable_directive_def list_all_iff line_safe_def is_ascii_def)
  then have "line_safe (concat (map (\<lambda>a. CHR '' '' # quote_word a) (d_args d)))"
    by (intro line_safe_concat) (auto simp: list_all_iff)
  then show ?thesis
    using assms plain_token_safe by (auto simp: serialize_directive_def writable_directive_def)
qed

lemma classify_serialized:
  assumes "writable_directive d"
  shows "\<exists>rest. classify_line (serialize_directive d) = Some (ClEntry None (d_token d) (d_args d) rest)"
proof -
  let ?r = "concat (map (\<lambda>a. CHR '' '' # quote_word a) (d_args d))"
  have "word_end ?r" by (cases "d_args d") simp_all
  moreover have "parse_words ?r = d_args d"
    using assms by (intro parse_words_serialized) (auto simp: writable_directive_def line_safe_def list_all_iff)
  ultimately show ?thesis
    using assms classify_plain [of "d_token d" ?r]
    by (simp add: serialize_directive_def writable_directive_def)
qed

definition directive_text :: "directive list \<Rightarrow> string" where
  "directive_text ds = concat (map (\<lambda>d. serialize_directive d @ [newline]) ds)"

abbreviation words_of :: "directive list \<Rightarrow> (string \<times> string list) list" where
  "words_of \<equiv> map (\<lambda>d. (d_token d, d_args d))"

lemma lines_directive_text:
  assumes "list_all writable_directive ds"
  shows "lines (directive_text ds) = map serialize_directive ds"
  using assms
proof (induction ds)
  case (Cons d ds)
  then have "line_safe (serialize_directive d)" by (simp add: serialized_safe)
  then have "newline \<notin> set (serialize_directive d)"
    "serialize_directive d = [] \<or> last (serialize_directive d) \<noteq> CHR 0x0D"
    by (auto simp: line_safe_def) (metis last_in_set)
  with Cons lines_append show ?case by (simp add: directive_text_def)
qed (simp add: directive_text_def)

lemma parse_lines_serialized:
  "list_all writable_directive ds \<Longrightarrow>
   words_of (parse_lines inc src section idx (map serialize_directive ds)) = words_of ds"
proof (induction ds arbitrary: idx)
  case (Cons d ds)
  then obtain rest where "classify_line (serialize_directive d) = Some (ClEntry None (d_token d) (d_args d) rest)"
    using classify_serialized by fastforce
  with Cons show ?case by simp
qed simp

lemma parse_directive_text:
  "list_all writable_directive ds \<Longrightarrow> words_of (parse_str (directive_text ds)) = words_of ds"
  by (simp add: parse_str_def lines_directive_text parse_lines_serialized)

section \<open>Values come back\<close>

lemma hex_val_lower: "n < 16 \<Longrightarrow> hex_val (hex_lower n) = Some n"
  by (auto simp: hex_val_def hex_lower_def)

lemma hex_lower_graph:
  assumes "n < 16"
  shows "is_graph_char (hex_lower n) \<and> hex_lower n \<noteq> CHR ''+'' \<and> hex_lower n \<noteq> CHR '' ''"
proof -
  have "of_char (hex_lower n) = (if n < 10 then 48 + n else 87 + n)"
    using assms by (simp add: hex_lower_def)
  then have "48 \<le> (of_char (hex_lower n) :: nat) \<and> (of_char (hex_lower n) :: nat) < 127"
    using assms by (simp split: if_splits)
  then show ?thesis by (auto simp: is_graph_char_def)
qed

lemma hex_slash: "n < 16 \<Longrightarrow> hex_lower n \<noteq> CHR ''/''"
  using hex_val_lower [of n] by (auto simp: hex_val_def)

lemma unat_u8: "unat (b :: u8) div 16 < 16" "16 * (unat b div 16) + unat b mod 16 = unat b"
  using unsigned_less [of b, where 'a = nat] by (simp_all add: div_less_iff_less_mult)

lemma from_hex2_hex: "from_hex2 (hex_lower (unat b div 16)) (hex_lower (unat b mod 16)) = Some b"
proof -
  have "16 * (unat b div 16) + unat b mod 16 = unat b" by (rule unat_u8)
  then show ?thesis
    using hex_lower_graph [OF unat_u8(1) [of b]] hex_val_lower unat_u8(1) [of b]
    by (simp add: from_hex2_def del: mult_div_mod_eq)
qed

lemma hex_encode_graph: "list_all is_graph_char (hex_encode bs)"
  using hex_lower_graph unat_u8(1) by (auto simp: hex_encode_def hex2_def list_all_iff)

lemma char_boundary_hex: "char_boundary (hex_encode bs)"
  using hex_encode_graph [of bs]
  by (cases "hex_encode bs") (auto simp: char_boundary_def is_graph_char_def)

lemma hex_decode_encode: "hex_decode (hex_encode bs) = Ok (Some bs)"
proof (induction bs)
  case (Cons b bs)
  have "hex_encode (b # bs) = hex_lower (unat b div 16) # hex_lower (unat b mod 16) # hex_encode bs"
    by (simp add: hex_encode_def hex2_def)
  with Cons show ?case
    using char_boundary_hex [of bs] char_boundary_hex [of "b # bs"] by (simp add: from_hex2_hex)
qed (simp add: hex_encode_def)

lemma hex_encode_no_space: "filter (\<lambda>c. c \<noteq> CHR '' '') (hex_encode bs) = hex_encode bs"
  using hex_encode_graph [of bs] by (auto simp: filter_id_conv list_all_iff is_graph_char_def)

lemma length_hex_encode [simp]: "length (hex_encode bs) = 2 * length bs"
  by (induction bs) (simp_all add: hex_encode_def hex2_def)

lemma decode_hex: "decode_scalar_value ''x'' (hex_encode bs) = Ok (Some (OctetString bs))"
  by (simp add: decode_scalar_value_def hex_encode_no_space hex_decode_encode)

text \<open>What a value becomes: an opaque value loses its type, the exceptions become \<open>Null\<close>.\<close>

fun persisted_form :: "value \<Rightarrow> value" where
  "persisted_form (Opaque b) = OctetString b"
| "persisted_form NoSuchObject = Null"
| "persisted_form NoSuchInstance = Null"
| "persisted_form EndOfMibView = Null"
| "persisted_form v = v"

lemma parse_digits_octet: "parse_octet (show_nat (unat (b :: u8))) = Some b"
proof -
  let ?n = "unat b"
  have n: "?n < 256" using unsigned_less [of b, where 'a = nat] by simp
  have "length (show_nat ?n) \<le> 3 \<and> (1 < length (show_nat ?n) \<longrightarrow> hd (show_nat ?n) \<noteq> CHR ''0'')"
  proof -
    consider "?n < 10" | "10 \<le> ?n" "?n < 100" | "100 \<le> ?n" by linarith
    then show ?thesis
    proof cases
      case 1
      then show ?thesis by (simp add: show_nat.simps [of ?n])
    next
      case 2
      then have "?n div 10 < 10" "0 < ?n div 10" by auto
      with 2 show ?thesis
        by (simp add: show_nat.simps [of ?n] show_nat.simps [of "?n div 10"])
           (auto simp: digit_char_def dest: arg_cong [of _ _ "of_char :: char \<Rightarrow> nat"])
    next
      case 3
      then have "?n div 10 div 10 < 10" "0 < ?n div 10 div 10" "\<not> ?n div 10 < 10" using n by auto
      with 3 show ?thesis
        by (simp add: show_nat.simps [of ?n] show_nat.simps [of "?n div 10"] show_nat.simps [of "?n div 10 div 10"])
           (auto simp: digit_char_def dest: arg_cong [of _ _ "of_char :: char \<Rightarrow> nat"])
    qed
  qed
  then show ?thesis using n parse_digits_show [of ?n] by (auto simp: parse_octet_def)
qed

lemma parse_signed_show:
  assumes "- (2 ^ (bits - 1)) \<le> i" and "i < 2 ^ (bits - 1)"
  shows "parse_signed bits (show_int i) = Some i"
proof (cases "i < 0")
  case True
  have "parse_digits 0 (show_nat (nat (- i))) = Some (nat (- i))" by (rule parse_digits_show)
  with True assms show ?thesis by (simp add: parse_signed_def show_int_def Let_def)
next
  case False
  obtain c cs where s: "show_nat (nat i) = c # cs" by (cases "show_nat (nat i)") auto
  then have "is_ascii_digit c" using show_nat_digits [of c "nat i"] by simp
  moreover have "parse_digits 0 (c # cs) = Some (nat i)" using parse_digits_show [of "nat i"] s by simp
  ultimately show ?thesis
    using False assms digit_not_special s by (simp add: parse_signed_def show_int_def Let_def)
qed

lemma dot_free_show_nat: "CHR ''.'' \<notin> set (show_nat n)"
  using show_nat_digits digit_not_special by blast

lemma parse_ipv4_show: "parse_ipv4 (show_ipv4 ip) = Some ip"
proof (cases ip)
  case (fields a b c d)
  have "split_on CHR ''.'' (show_ipv4 ip) =
      [show_nat (unat a), show_nat (unat b), show_nat (unat c), show_nat (unat d)]"
    by (simp add: fields show_ipv4_def split_on_append split_on_free dot_free_show_nat)
  then show ?thesis by (simp add: parse_ipv4_def parse_digits_octet fields)
qed

lemma parse_u32_show: "parse_unsigned 32 (show_nat (unat (w :: u32))) = Some (unat w)"
  using unsigned_less [of w, where 'a = nat] by (intro parse_unsigned_show) simp

lemma parse_u64_show: "parse_unsigned 64 (show_nat (unat (w :: u64))) = Some (unat w)"
  using unsigned_less [of w, where 'a = nat] by (intro parse_unsigned_show) simp

lemma sint_i64_bounds: "- (2 ^ (64 - 1)) \<le> sint (v :: i64) \<and> sint v < 2 ^ (64 - 1)"
  using sint_ge [of v] sint_lt [of v] by simp

lemma decode_encode_scalar_value:
  "decode_scalar_value (fst (encode_scalar_value v)) (snd (encode_scalar_value v)) = Ok (Some (persisted_form v))"
proof (cases v)
  case (OctetString b)
  then show ?thesis
    by (auto simp: decode_hex from_utf8_def split: option.splits)
       (simp_all add: decode_scalar_value_def decode_hex)
next
  case (Integer i)
  have "parse_signed 64 (show_int (sint i)) = Some (sint i)"
    using sint_i64_bounds [of i] by (intro parse_signed_show) simp_all
  with Integer show ?thesis by (simp add: decode_scalar_value_def)
next
  case (Opaque b)
  then show ?thesis by (simp add: decode_hex)
qed (simp_all add: decode_scalar_value_def parse_u32_show parse_u64_show
    oid_parse_display parse_ipv4_show result_option_def)

lemma graph_show_nat: "list_all is_graph_char (show_nat n)"
  using show_nat_digits digit_not_special by (auto simp: list_all_iff)

lemma graph_show_int: "list_all is_graph_char (show_int i)"
  by (simp add: show_int_def graph_show_nat is_graph_char_def)

lemma graph_display_oid: "list_all is_graph_char (display_oid o1)"
  using graph_show_nat by (auto simp: display_oid_def list_all_iff is_graph_char_def)

lemma graph_show_ipv4: "list_all is_graph_char (show_ipv4 ip)"
  by (cases ip) (simp add: show_ipv4_def graph_show_nat is_graph_char_def)

lemmas line_safe_printed =
  graph_show_nat [THEN line_safe_graph] graph_show_int [THEN line_safe_graph]
  graph_display_oid [THEN line_safe_graph] graph_show_ipv4 [THEN line_safe_graph]
  hex_encode_graph [THEN line_safe_graph]

lemma line_safe_Nil [simp]: "line_safe []"
  by (simp add: line_safe_def)

lemma encode_scalar_value_safe: "line_safe (fst (encode_scalar_value v)) \<and> line_safe (snd (encode_scalar_value v))"
proof -
  have tag: "line_safe [c]" if "is_graph_char c" for c using that by (simp add: line_safe_graph)
  have "line_safe s" if "from_utf8 b = Some s" "printable s" for b s
    using that by (auto simp: from_utf8_def valid_string_def intro!: line_safe_printable split: if_splits)
  then show ?thesis
    by (cases v) (auto simp: line_safe_printed tag is_graph_char_def split: option.splits)
qed

section \<open>Saving and loading\<close>

definition snapshot_args :: "persistable \<Rightarrow> string list" where
  "snapshot_args item = d_args (hd (ps_snapshot item))"

lemma ps_snapshot_single:
  "\<exists>rest. ps_snapshot item = [written_directive (ps_key item) (snapshot_args item) rest]"
  by (cases item) (auto simp: snapshot_args_def written_directive_def split: prod.splits)

lemma snapshot_args_safe: "list_all line_safe (snapshot_args item)"
proof (cases item)
  case (ScalarPersistable key h)
  then show ?thesis
    using encode_scalar_value_safe [of "scalar_get_value h"]
    by (auto simp: snapshot_args_def written_directive_def split: prod.splits)
next
  case (EngineBootsPersistable e b)
  then show ?thesis by (simp add: snapshot_args_def written_directive_def line_safe_printed)
qed

lemma snapshot_words: "words_of (ps_snapshot item) = [(ps_key item, snapshot_args item)]"
  using ps_snapshot_single [of item] by (auto simp: written_directive_def)

lemma snapshot_writable: "plain_token (ps_key item) \<Longrightarrow> list_all writable_directive (ps_snapshot item)"
  using ps_snapshot_single [of item] snapshot_args_safe [of item]
  by (auto simp: writable_directive_def written_directive_def)

lemma persist_text_directives: "persist_text items = directive_text (concat (map ps_snapshot items))"
  by (induction items) (simp_all add: persist_text_def directive_text_def)

lemma parse_persist_text:
  assumes "list_all (\<lambda>i. plain_token (ps_key i)) items"
  shows "words_of (parse_str (persist_text items)) = map (\<lambda>i. (ps_key i, snapshot_args i)) items"
proof -
  have "list_all writable_directive (concat (map ps_snapshot items))"
    using assms by (induction items) (auto simp: snapshot_writable)
  moreover have "words_of (concat (map ps_snapshot items)) = map (\<lambda>i. (ps_key i, snapshot_args i)) items"
    by (induction items) (simp_all add: snapshot_words)
  ultimately show ?thesis by (simp add: persist_text_directives parse_directive_text)
qed

text \<open>The item after a restart: the fresh one with what the saved one held.\<close>

fun resumed :: "persistable \<Rightarrow> persistable \<Rightarrow> persistable" where
  "resumed (ScalarPersistable key h) (ScalarPersistable key' h') =
     ScalarPersistable key' (scalar_set_value (persisted_form (scalar_get_value h)) h')"
| "resumed (EngineBootsPersistable e b) (EngineBootsPersistable e' b') = EngineBootsPersistable e' b"
| "resumed saved fresh = fresh"

fun same_item :: "persistable \<Rightarrow> persistable \<Rightarrow> bool" where
  "same_item (ScalarPersistable key h) (ScalarPersistable key' h') = (key = key')"
| "same_item (EngineBootsPersistable e b) (EngineBootsPersistable e' b') = True"
| "same_item _ _ = False"

lemma same_item_key: "same_item a b \<Longrightarrow> ps_key a = ps_key b"
  by (induction a b rule: same_item.induct) auto

lemma ps_restore_snapshot:
  assumes "same_item saved fresh" and "d_args d = snapshot_args saved"
  shows "ps_restore fresh [d] = Ok (resumed saved fresh)"
  using assms
proof (induction saved fresh rule: same_item.induct)
  case (1 key h key' h')
  then have "d_args d = [fst (encode_scalar_value (scalar_get_value h)), snd (encode_scalar_value (scalar_get_value h))]"
    by (simp add: snapshot_args_def written_directive_def split: prod.splits)
  then show ?case
    using decode_encode_scalar_value [of "scalar_get_value h"] by (simp add: restored_value_def)
next
  case (2 e b e' b')
  then have "d_args d = [show_nat (unat b)]" by (simp add: snapshot_args_def written_directive_def)
  then show ?case by (simp add: restore_boots_def d_arg_def parse_u32_show)
qed simp_all

lemma owned_directive:
  assumes "words_of ds = map (\<lambda>i. (ps_key i, snapshot_args i)) items"
    and "distinct (map ps_key items)" and "item \<in> set items"
  shows "\<exists>d. filter (\<lambda>d. d_token d = ps_key item) ds = [d] \<and> d_args d = snapshot_args item"
  using assms
proof (induction items arbitrary: ds)
  case (Cons i items)
  then obtain d ds' where ds: "ds = d # ds'" and d: "d_token d = ps_key i" "d_args d = snapshot_args i"
    and ds': "words_of ds' = map (\<lambda>i. (ps_key i, snapshot_args i)) items"
    by (cases ds) auto
  have tokens: "d_token ` set ds' = ps_key ` set items"
    using arg_cong [OF ds', of "\<lambda>ws. fst ` set ws"] by (simp add: image_image)
  show ?case
  proof (cases "item = i")
    case True
    have "d_token x \<noteq> ps_key i" if "x \<in> set ds'" for x
      using that tokens Cons.prems(2) by (metis distinct.simps(2) image_eqI image_set list.simps(9))
    then have "filter (\<lambda>d. d_token d = ps_key i) ds' = []" by (simp add: filter_empty_conv)
    then show ?thesis using True d by (simp add: ds)
  next
    case False
    then have "item \<in> set items" using Cons.prems by simp
    moreover from this have "ps_key item \<noteq> ps_key i" using Cons.prems(2) by (metis distinct.simps(2) image_eqI image_set list.simps(9))
    ultimately show ?thesis using Cons.IH [OF ds'] Cons.prems(2) d by (auto simp: ds)
  qed
qed simp

lemma load_items_snapshot:
  assumes "words_of ds = map (\<lambda>i. (ps_key i, snapshot_args i)) items"
    and "distinct (map ps_key items)" and "list_all2 same_item saved fresh" and "set saved \<subseteq> set items"
  shows "load_items ds fresh = Ok (map2 resumed saved fresh)"
  using assms(3,4)
proof (induction saved fresh rule: list_all2_induct)
  case (Cons s saved f fresh)
  obtain d where "filter (\<lambda>d. d_token d = ps_key s) ds = [d]" "d_args d = snapshot_args s"
    using owned_directive [OF assms(1,2), of s] Cons.prems by auto
  then have "load_item ds f = Ok (resumed s f)"
    using Cons.hyps(1) same_item_key ps_restore_snapshot by (fastforce simp: load_item_def)
  then show ?case using Cons by simp
qed simp

text \<open>The file and its temporary are different files.\<close>

lemma path_join_relative:
  assumes "c \<noteq> []" and "c \<noteq> ''.''" and "CHR ''/'' \<notin> set c"
  shows "p_components (path_join dir (path_of_str c)) = p_components dir @ [c]"
  using assms
  by (cases c) (auto simp: path_join_def path_of_str_def split_on_free starts_with_def)

lemma path_join_neq:
  assumes "c \<noteq> []" "c \<noteq> ''.''" "CHR ''/'' \<notin> set c" and "e \<noteq> []" "e \<noteq> ''.''" "CHR ''/'' \<notin> set e" and "c \<noteq> e"
  shows "path_join dir (path_of_str c) \<noteq> path_join dir (path_of_str e)"
  using assms path_join_relative [of c dir] path_join_relative [of e dir] by (metis append1_eq_conv)

lemma write_file_atomic:
  assumes "target \<noteq> tmp" and "write_file io target tmp text files = (ok, files')"
  shows "files' target = (if ok then Some text else files target) \<and>
         (\<forall>q. q \<noteq> target \<longrightarrow> q \<noteq> tmp \<longrightarrow> files' q = files q)"
  using assms by (auto simp: write_file_def split: if_splits option.splits)

lemma persist_tmp_neq: "persist_target dir \<noteq> path_join dir (path_of_str (PERSIST_FILE @ ''.tmp''))"
  unfolding persist_target_def PERSIST_FILE_def by (rule path_join_neq) simp_all

text \<open>C26: Saving is atomic: whichever system call fails, the store file holds either its previous
  contents (the save reports an error) or the complete new text (it reports success), and no
  file but the store file and its temporary is touched.\<close>

theorem save_is_atomic:
  assumes "persistence_save io p files = (ok, files')"
  shows "files' (persist_target (pn_dir p)) =
           (if ok then Some (persist_text (pn_items p)) else files (persist_target (pn_dir p))) \<and>
         (\<forall>q. q \<noteq> persist_target (pn_dir p) \<longrightarrow>
              q \<noteq> path_join (pn_dir p) (path_of_str (PERSIST_FILE @ ''.tmp'')) \<longrightarrow> files' q = files q)"
  using write_file_atomic [OF persist_tmp_neq assms [unfolded persistence_save_def]] .

definition demo_dir :: path where
  "demo_dir = \<lparr>p_absolute = True, p_components = [''var'']\<rparr>"

theorem save_is_atomic_witness:
  "snd (persistence_save \<lparr>io_create_dir = True, io_create = True, io_write = Some 3, io_sync = True, io_rename = True\<rparr>
      (persistence_new demo_dir) (\<lambda>q. Some ''old'')) (persist_target demo_dir) = Some ''old''"
  using save_is_atomic [of "\<lparr>io_create_dir = True, io_create = True, io_write = Some 3, io_sync = True, io_rename = True\<rparr>"
      "persistence_new demo_dir" "\<lambda>q. Some ''old''" False]
  by (simp add: persistence_save_def write_file_def persistence_new_def)

text \<open>C25: What a save writes, a load after a restart reads back: for every set of items with
  distinct plain tokens, loading the saved file into fresh items of the same kind gives each
  scalar the persisted form of the value the saved one held (the value itself, except that an opaque
  value comes back as an octet string and an exception as \<open>Null\<close>) and each boots counter its count; in
  particular it never panics.\<close>

theorem persistence_roundtrip:
  assumes "persistence_save io \<lparr>pn_dir = dir, pn_items = saved\<rparr> files = (True, files')"
    and "distinct (map ps_key saved)" and "list_all (\<lambda>i. plain_token (ps_key i)) saved"
    and "list_all2 same_item saved fresh"
  shows "persistence_load files' \<lparr>pn_dir = dir, pn_items = fresh\<rparr> =
           Ok \<lparr>pn_dir = dir, pn_items = map2 resumed saved fresh\<rparr>"
proof -
  have "files' (persist_target dir) = Some (persist_text saved)"
    using write_file_atomic [OF persist_tmp_neq assms(1) [unfolded persistence_save_def]] by simp
  then show ?thesis
    using load_items_snapshot [OF parse_persist_text [OF assms(3)] assms(2,4)]
    by (simp add: persistence_load_def)
qed

definition demo_items :: "value \<Rightarrow> u32 \<Rightarrow> persistable list" where
  "demo_items v b = [ScalarPersistable ''sysContact'' (scalar_new (Oid [1, 4]) v), EngineBootsPersistable [0x80] b]"

abbreviation io_fine :: io_outcome where
  "io_fine \<equiv> \<lparr>io_create_dir = True, io_create = True, io_write = None, io_sync = True, io_rename = True\<rparr>"

lemma plain_token_demo: "plain_token ''sysContact''" "plain_token ''engineBoots''"
  by (simp_all add: plain_token_def bare_word_def bare_char_def is_ascii_def is_whitespace_ascii
      to_ascii_lowercase_def lower_char_def)

theorem persistence_roundtrip_witness:
  "persistence_load (snd (persistence_save io_fine \<lparr>pn_dir = demo_dir, pn_items = demo_items (OctetString (as_bytes ''ops room'')) 7\<rparr> (\<lambda>q. None)))
      \<lparr>pn_dir = demo_dir, pn_items = demo_items (OctetString []) 0\<rparr> =
     Ok \<lparr>pn_dir = demo_dir, pn_items = demo_items (OctetString (as_bytes ''ops room'')) 7\<rparr>"
proof -
  let ?s = "demo_items (OctetString (as_bytes ''ops room'')) 7" and ?f = "demo_items (OctetString []) 0"
  obtain files' where save: "persistence_save io_fine \<lparr>pn_dir = demo_dir, pn_items = ?s\<rparr> (\<lambda>q. None) = (True, files')"
    by (simp add: persistence_save_def write_file_def)
  have "persistence_load files' \<lparr>pn_dir = demo_dir, pn_items = ?f\<rparr> =
      Ok \<lparr>pn_dir = demo_dir, pn_items = map2 resumed ?s ?f\<rparr>"
    by (rule persistence_roundtrip [OF save]) (simp_all add: demo_items_def plain_token_demo)
  moreover have "map2 resumed ?s ?f = ?s"
    by (simp add: demo_items_def scalar_new_def scalar_set_value_def scalar_get_value_def)
  ultimately show ?thesis unfolding save by simp
qed

section \<open>Engine boots come back\<close>

lemma trim_show_nat_newline: "trim (show_nat n @ [newline]) = show_nat n"
proof -
  have "hd (show_nat n) \<in> set (show_nat n)" "last (show_nat n) \<in> set (show_nat n)" by simp_all
  then have g: "is_graph_char (hd (show_nat n))" "is_graph_char (last (show_nat n))"
    using graph_show_nat [of n] by (auto simp: list_all_iff)
  have "white_suffix (show_nat n @ [newline]) = Some [newline]"
    by (simp add: white_suffix_def white_space_def starts_with_def eq_commute [of newline] char_of_eq_iff)
  then have "trim_end (show_nat n @ [newline]) = show_nat n"
    using g by (simp add: trim_end.simps [of "show_nat n @ [newline]"] trim_end_graph)
  then show ?thesis using g by (simp add: trim_def trim_start_graph)
qed

lemma boots_tmp_neq:
  "engine_boots_file dir engine_id \<noteq> path_join dir (path_of_str (hex_encode engine_id @ ''.boots.tmp''))"
proof -
  have "c \<noteq> CHR ''/''" if "c \<in> set (hex2 b)" for b c
    using that hex_slash [OF unat_u8(1) [of b]] hex_slash [of "unat b mod 16"] by (auto simp: hex2_def)
  then have "CHR ''/'' \<notin> set (hex_encode engine_id)" unfolding hex_encode_def by fastforce
  then show ?thesis
    unfolding engine_boots_file_def by (intro path_join_neq) auto
qed

text \<open>A saved boots counter is read back, and the next start counts one more until the counter
  saturates at its maximum.\<close>

lemma engine_boots_roundtrip:
  assumes "save_engine_boots io dir engine_id boots files = (True, files')"
  shows "load_engine_boots files' dir engine_id = Some boots \<and>
         unat (load_and_bump files' dir engine_id fallback) = min (unat boots + 1) (2 ^ 32 - 1)"
proof -
  have "files' (engine_boots_file dir engine_id) = Some (show_nat (unat boots) @ [newline])"
    using write_file_atomic [OF boots_tmp_neq assms [unfolded save_engine_boots_def]] by simp
  then have "load_engine_boots files' dir engine_id = Some boots"
    by (simp add: load_engine_boots_def trim_show_nat_newline parse_u32_show)
  moreover have "unat (u32_saturating_add boots 1) = min (unat boots + 1) (2 ^ 32 - 1)"
    using unsigned_less [of boots, where 'a = nat]
    by (auto simp: u32_saturating_add_def unat_word_ariths)
  ultimately show ?thesis by (simp add: load_and_bump_def)
qed

text \<open>A stored hexadecimal value is sliced by bytes: a character of several bytes in a store that
  was edited or damaged makes the load, and with it the start of the agent, panic.\<close>

lemma damaged_store_panics:
  assumes "d_token d = key" and "d_args d = [''x'', ''a'' @ map char_of [0xC3, 0xA9 :: nat] @ ''b'']"
  shows "load_items [d] [ScalarPersistable key h] = Err NotCharBoundary"
proof -
  have "char_of (0xC3 :: nat) \<noteq> CHR '' ''" "char_of (0xA9 :: nat) \<noteq> CHR '' ''"
    by (auto dest: arg_cong [of _ _ "of_char :: char \<Rightarrow> nat"])
  then have "decode_scalar_value ''x'' (''a'' @ map char_of [0xC3, 0xA9 :: nat] @ ''b'') = Err NotCharBoundary"
    by (simp add: decode_scalar_value_def char_boundary_def)
  with assms show ?thesis by (simp add: load_item_def restored_value_def)
qed

end
