(* ===== verification/Snmp_Notify.thy ===== *)
theory Snmp_Notify
  imports Snmp_Session Snmp_Config
begin

text \<open>
  The notification originator (\<^verbatim>\<open>crates/netsnmp-agent/src/notify/mod.rs\<close>): the target, parameter and
  notify tables, the directives that fill them, and sending a notification to every target through
  a session of \<^verbatim>\<open>Snmp_Session\<close>.
\<close>

section \<open>Tables\<close>

definition COLD_START_OID :: oid where
  "COLD_START_OID = Oid [1, 3, 6, 1, 6, 3, 1, 1, 5, 1]"

definition WARM_START_OID :: oid where
  "WARM_START_OID = Oid [1, 3, 6, 1, 6, 3, 1, 1, 5, 2]"

definition TRAP_PORT :: string where
  "TRAP_PORT = ''162''"

datatype notify_type = NotifyTrap | NotifyInform

fun notify_as_int :: "notify_type \<Rightarrow> i64" where
  "notify_as_int NotifyTrap = 1"
| "notify_as_int NotifyInform = 2"

record target_addr =
  ta_name :: string
  ta_transport :: string
  ta_address :: string
  ta_timeout :: nat
  ta_retries :: u32
  ta_params_name :: string

record target_params =
  tp_name :: string
  tp_mp_model :: i32
  tp_security_model :: i32
  tp_security_name :: "u8 list"
  tp_security_level :: i32
  tp_usm_user :: "usm_user option"

record notify_entry =
  ne_name :: string
  ne_tag :: string
  ne_typ :: notify_type
  ne_params_name :: string

record notify_config =
  nc_targets :: "target_addr list"
  nc_params :: "target_params list"
  nc_notifies :: "notify_entry list"

definition notify_config_new :: notify_config where
  "notify_config_new = \<lparr>nc_targets = [], nc_params = [], nc_notifies = []\<rparr>"

definition add_target :: "target_addr \<Rightarrow> notify_config \<Rightarrow> notify_config" where
  "add_target t c = c\<lparr>nc_targets := nc_targets c @ [t]\<rparr>"

definition add_params :: "target_params \<Rightarrow> notify_config \<Rightarrow> notify_config" where
  "add_params p c = c\<lparr>nc_params := nc_params c @ [p]\<rparr>"

definition add_notify :: "notify_entry \<Rightarrow> notify_config \<Rightarrow> notify_config" where
  "add_notify n c = c\<lparr>nc_notifies := nc_notifies c @ [n]\<rparr>"

definition has_targets :: "notify_config \<Rightarrow> bool" where
  "has_targets c \<longleftrightarrow> nc_targets c \<noteq> []"

section \<open>Directives\<close>

definition normalize_host_port :: "string \<Rightarrow> string option \<Rightarrow> string" where
  "normalize_host_port host0 port =
     (let host = (case strip_prefix ''udp:'' host0 of
                    Some h \<Rightarrow> h
                  | None \<Rightarrow> (case strip_prefix ''UDP:'' host0 of Some h \<Rightarrow> h | None \<Rightarrow> host0))
      in if CHR '':'' \<in> set host then host
         else case port of Some p \<Rightarrow> host @ '':'' @ p | None \<Rightarrow> host @ '':'' @ TRAP_PORT)"

text \<open>The three rows a directive adds, all under one name.\<close>

definition add_rows ::
  "string \<Rightarrow> string \<Rightarrow> i32 \<Rightarrow> i32 \<Rightarrow> u8 list \<Rightarrow> i32 \<Rightarrow> usm_user option \<Rightarrow> notify_type \<Rightarrow> notify_config \<Rightarrow> notify_config" where
  "add_rows name address mp_model sec_model sec_name level user typ c =
     add_notify \<lparr>ne_name = name, ne_tag = name, ne_typ = typ, ne_params_name = name\<rparr>
     (add_target \<lparr>ta_name = name, ta_transport = ''udp'', ta_address = address, ta_timeout = 5, ta_retries = 2,
                  ta_params_name = name\<rparr>
     (add_params \<lparr>tp_name = name, tp_mp_model = mp_model, tp_security_model = sec_model, tp_security_name = sec_name,
                  tp_security_level = level, tp_usm_user = user\<rparr> c))"

definition row_name :: "string \<Rightarrow> notify_config \<Rightarrow> string" where
  "row_name prefix c = prefix @ show_nat (length (nc_targets c) + 1)"

definition apply_community_sink ::
  "version \<Rightarrow> notify_type \<Rightarrow> directive \<Rightarrow> notify_config \<Rightarrow> notify_config" where
  "apply_community_sink version typ d c =
     (case d_args d of
        [] \<Rightarrow> c
      | host # rest \<Rightarrow>
          (let community = (case rest of com # _ \<Rightarrow> as_bytes com | [] \<Rightarrow> as_bytes ''public'');
               port = (case rest of _ # p # _ \<Rightarrow> Some p | _ \<Rightarrow> None);
               (mp_model, sec_model) = (case version of V1 \<Rightarrow> (0, 1) | V2c \<Rightarrow> (1, 2))
           in add_rows (row_name ''sink'' c) (normalize_host_port host port) mp_model sec_model community 0 None typ c))"

record v3_args =
  va_user :: "string option"
  va_auth_proto :: "auth_protocol option"
  va_auth_pass :: "string option"
  va_priv_proto :: "priv_protocol option"
  va_priv_pass :: "string option"
  va_level :: "string option"
  va_positional :: "string list"

definition v3_args_empty :: v3_args where
  "v3_args_empty = \<lparr>va_user = None, va_auth_proto = None, va_auth_pass = None, va_priv_proto = None,
     va_priv_pass = None, va_level = None, va_positional = []\<rparr>"

definition notify_auth_proto :: "string \<Rightarrow> auth_protocol option" where
  "notify_auth_proto s =
     (let u = to_ascii_uppercase s
      in if u = ''MD5'' then Some HmacMd5
         else if u \<in> {''SHA'', ''SHA1''} then Some HmacSha1
         else if u \<in> {''SHA-256'', ''SHA256''} then Some HmacSha256
         else None)"

definition notify_priv_proto :: "string \<Rightarrow> priv_protocol option" where
  "notify_priv_proto s = (if to_ascii_uppercase s \<in> {''AES'', ''AES-128'', ''AES128''} then Some AesCfb128 else None)"

definition head_opt :: "'a list \<Rightarrow> 'a option" where
  "head_opt xs = (case xs of [] \<Rightarrow> None | x # _ \<Rightarrow> Some x)"

text \<open>
  The loop over the arguments of a v3 \<^verbatim>\<open>trapsess\<close>: a flag consumes the argument behind it, if there is
  one.
\<close>

function (sequential) v3_args_loop :: "string list \<Rightarrow> v3_args \<Rightarrow> v3_args" where
  "v3_args_loop [] a = a"
| "v3_args_loop (arg # args) a =
     (let v = head_opt args; rest = drop 1 args
      in if arg \<in> {''-u'', ''--user''} then v3_args_loop rest (a\<lparr>va_user := v\<rparr>)
         else if arg \<in> {''-a'', ''--auth-protocol''} then
           v3_args_loop rest (case v of None \<Rightarrow> a | Some x \<Rightarrow> a\<lparr>va_auth_proto := notify_auth_proto x\<rparr>)
         else if arg \<in> {''-A'', ''--auth-passphrase''} then v3_args_loop rest (a\<lparr>va_auth_pass := v\<rparr>)
         else if arg \<in> {''-x'', ''--priv-protocol''} then
           v3_args_loop rest (case v of None \<Rightarrow> a | Some x \<Rightarrow> a\<lparr>va_priv_proto := notify_priv_proto x\<rparr>)
         else if arg \<in> {''-X'', ''--priv-passphrase''} then v3_args_loop rest (a\<lparr>va_priv_pass := v\<rparr>)
         else if arg \<in> {''-l'', ''--security-level'', ''-L''} then v3_args_loop rest (a\<lparr>va_level := v\<rparr>)
         else if arg \<in> {''-v'', ''--version'', ''-c'', ''--community''} then v3_args_loop rest a
         else if starts_with arg ''-'' then v3_args_loop args a
         else v3_args_loop args (a\<lparr>va_positional := va_positional a @ [arg]\<rparr>))"
  by pat_completeness auto
termination by (relation "measure (length \<circ> fst)") auto

definition nonempty :: "string option \<Rightarrow> string option" where
  "nonempty s = (case s of Some x \<Rightarrow> if x = [] then None else Some x | None \<Rightarrow> None)"

definition notify_level :: "string option \<Rightarrow> string option \<Rightarrow> string option \<Rightarrow> security_level" where
  "notify_level level auth_pass priv_pass =
     (let l = map_option to_ascii_lowercase level
      in if l \<in> {Some ''noauth'', Some ''noauthnopriv'', Some ''noauthnoprivacy''} then NoAuthNoPriv
         else if l \<in> {Some ''auth'', Some ''authnopriv'', Some ''authnoprivacy''} then AuthNoPriv
         else if l \<in> {Some ''priv'', Some ''authpriv'', Some ''authprivacy''} then AuthPriv
         else if priv_pass \<noteq> None then AuthPriv
         else if auth_pass \<noteq> None then AuthNoPriv
         else NoAuthNoPriv)"

definition or_default :: "'a \<Rightarrow> 'a option \<Rightarrow> 'a" where
  "or_default d x = (case x of None \<Rightarrow> d | Some y \<Rightarrow> y)"

definition notify_user :: "string \<Rightarrow> v3_args \<Rightarrow> security_level \<Rightarrow> usm_user" where
  "notify_user user a level =
     (let proto = or_default HmacSha1 (va_auth_proto a); pass = or_default [] (nonempty (va_auth_pass a))
      in case level of
           NoAuthNoPriv \<Rightarrow> usm_noauth user
         | AuthNoPriv \<Rightarrow> usm_auth user proto pass
         | AuthPriv \<Rightarrow> usm_auth_priv user proto pass (or_default AesCfb128 (va_priv_proto a))
                         (or_default [] (nonempty (va_priv_pass a))))"

definition notify_level_code :: "security_level \<Rightarrow> i32" where
  "notify_level_code l = (case l of NoAuthNoPriv \<Rightarrow> 0 | AuthNoPriv \<Rightarrow> 1 | AuthPriv \<Rightarrow> 3)"

text \<open>Only the first \<^verbatim>\<open>-v\<close> and the first \<^verbatim>\<open>--version\<close> are looked at.\<close>

definition follows :: "string \<Rightarrow> string list \<Rightarrow> string option" where
  "follows flag args = (case dropWhile (\<lambda>a. a \<noteq> flag) args of _ # v # _ \<Rightarrow> Some v | _ \<Rightarrow> None)"

definition trapsess_is_v3 :: "string list \<Rightarrow> bool" where
  "trapsess_is_v3 args \<longleftrightarrow> follows ''-v'' args = Some ''3'' \<or> follows ''--version'' args = Some ''3''"

function (sequential) community_args_loop :: "string list \<Rightarrow> u8 list \<Rightarrow> string list \<Rightarrow> u8 list \<times> string list" where
  "community_args_loop [] com pos = (com, pos)"
| "community_args_loop (arg # args) com pos =
     (if arg \<in> {''-c'', ''--community''} then
        community_args_loop (drop 1 args) (case args of c # _ \<Rightarrow> as_bytes c | [] \<Rightarrow> com) pos
      else if arg \<in> {''-v'', ''--version''} then community_args_loop (drop 1 args) com pos
      else if starts_with arg ''-'' then community_args_loop args com pos
      else community_args_loop args com (pos @ [arg]))"
  by pat_completeness auto
termination by (relation "measure (\<lambda>(args, com, pos). length args)") auto

definition apply_trapsess :: "directive \<Rightarrow> notify_config \<Rightarrow> notify_config" where
  "apply_trapsess d c =
     (let name = row_name ''sess'' c
      in if trapsess_is_v3 (d_args d) then
           (let a = v3_args_loop (d_args d) v3_args_empty
            in case (va_positional a, va_user a) of
                 (host # ports, Some user) \<Rightarrow>
                   (let level = notify_level (va_level a) (nonempty (va_auth_pass a)) (nonempty (va_priv_pass a))
                    in add_rows name (normalize_host_port host (head_opt ports)) 3 3 (as_bytes user)
                         (notify_level_code level) (Some (notify_user user a level)) NotifyTrap c)
               | _ \<Rightarrow> c)
         else
           (case community_args_loop (d_args d) (as_bytes ''public'') [] of
              (com, host # ports) \<Rightarrow>
                add_rows name (normalize_host_port host (head_opt ports)) 1 2 com 0 None NotifyTrap c
            | (com, []) \<Rightarrow> c))"

definition apply_notify_directive :: "directive \<Rightarrow> notify_config \<Rightarrow> notify_config" where
  "apply_notify_directive d c =
     (if d_is d ''trapsink'' then apply_community_sink V1 NotifyTrap d c
      else if d_is d ''trap2sink'' then apply_community_sink V2c NotifyTrap d c
      else if d_is d ''informsink'' then apply_community_sink V2c NotifyInform d c
      else if d_is d ''trapsess'' then apply_trapsess d c
      else c)"

definition notify_from_directives :: "directive list \<Rightarrow> notify_config" where
  "notify_from_directives ds = fold apply_notify_directive ds notify_config_new"

section \<open>Sending\<close>

text \<open>
  The network opens a transport to an address, or fails.  The originator's uptime and the seed of
  the request ids are arguments.
\<close>

type_synonym 's network = "string \<Rightarrow> ('s, ('s transport, snmp_error) result) state"

record originator =
  or_config :: notify_config
  or_engine :: engine_params

definition leading_uptime :: "varbind list \<Rightarrow> u32" where
  "leading_uptime vbs = (case vbs of vb # _ \<Rightarrow> (case vb_value vb of TimeTicks t \<Rightarrow> t | _ \<Rightarrow> 0) | [] \<Rightarrow> 0)"

definition trap_specific :: "oid \<Rightarrow> u32" where
  "trap_specific o1 = (if as_slice o1 = [] then 0 else last (as_slice o1))"

definition forget_answer :: "(pdu, snmp_error) result \<Rightarrow> (unit, snmp_error) result" where
  "forget_answer r = bind_result r (\<lambda>_. Ok ())"

definition send_community ::
  "('r) rasn_scheme \<Rightarrow> i32 \<Rightarrow> 's transport \<Rightarrow> target_addr \<Rightarrow> target_params \<Rightarrow> notify_type \<Rightarrow> oid \<Rightarrow> varbind list
     \<Rightarrow> ('s client, (unit, snmp_error) result) state" where
  "send_community R seed T target param typ trap_oid vbs =
     (let version = (if tp_mp_model param = 0 then V1 else V2c);
          cfg = \<lparr>cf_version = version, cf_community = tp_security_name param, cf_retries = ta_retries target\<rparr>;
          uptime = leading_uptime vbs; extra = drop 2 vbs
      in case (typ, version) of
           (NotifyTrap, V1) \<Rightarrow>
             session_send_trap_v1 T R cfg (Oid SNMP_TRAPS_OID) (127, 0, 0, 1) 6 (trap_specific trap_oid) uptime extra
         | (NotifyTrap, _) \<Rightarrow> session_send_trap T R seed cfg uptime trap_oid extra
         | (NotifyInform, _) \<Rightarrow> do {
             r \<leftarrow> session_send_inform T R seed cfg uptime trap_oid extra;
             State_Monad.return (forget_answer r)
           })"

text \<open>An operation of a fresh v3 session inside the state of the client.\<close>

definition with_v3_session ::
  "'s transport \<Rightarrow> engine_params \<Rightarrow> ('s v3_client, 'a) state \<Rightarrow> ('s client, 'a) state" where
  "with_v3_session T engine m = State (\<lambda>c.
     case run_state m (client.extend c \<lparr>vs_engine = engine, vs_time_base = t_now T (cl_net c), vs_msg_id = 1\<rparr>) of
       (a, c') \<Rightarrow> (a, client.truncate c'))"

definition send_to_target ::
  "crypto \<Rightarrow> v3_rasn \<Rightarrow> i32 \<Rightarrow> 's network \<Rightarrow> originator \<Rightarrow> target_addr \<Rightarrow> target_params \<Rightarrow> notify_type \<Rightarrow> oid
     \<Rightarrow> varbind list \<Rightarrow> ('s client, (unit, snmp_error) result) state" where
  "send_to_target C R seed net orig target param typ trap_oid vbs =
     (if tp_mp_model param = 3 then
        (case tp_usm_user param of
           None \<Rightarrow> State_Monad.return (Err (ProtocolError (''v3 target '' @ ta_name target @ '' has no usm user'')))
         | Some user \<Rightarrow> do {
             t \<leftarrow> on_net (net (ta_address target));
             case t of
               Err e \<Rightarrow> State_Monad.return (Err e)
             | Ok T \<Rightarrow>
                 with_v3_session T (or_engine orig)
                   (case typ of
                      NotifyTrap \<Rightarrow> v3_send_trap C R T seed \<lparr>vc_user = user, vc_retries = ta_retries target\<rparr> 0 trap_oid vbs
                    | NotifyInform \<Rightarrow> do {
                        r \<leftarrow> v3_send_inform C R T seed \<lparr>vc_user = user, vc_retries = ta_retries target\<rparr> 0 trap_oid vbs;
                        State_Monad.return (forget_answer r)
                      })
           })
      else do {
        t \<leftarrow> on_net (net (ta_address target));
        case t of
          Err e \<Rightarrow> State_Monad.return (Err e)
        | Ok T \<Rightarrow> send_community R seed T target param typ trap_oid vbs
      })"

text \<open>The loop over the notify table; a failed target is skipped.\<close>

fun notify_loop ::
  "(target_addr \<Rightarrow> target_params \<Rightarrow> notify_type \<Rightarrow> ('c, (unit, snmp_error) result) state)
     \<Rightarrow> target_addr list \<Rightarrow> target_params list \<Rightarrow> notify_entry list \<Rightarrow> ('c, unit) state" where
  "notify_loop send targets params [] = State_Monad.return ()"
| "notify_loop send targets params (n # ns) =
     (case (List.find (\<lambda>t. ta_name t = ne_tag n) targets, List.find (\<lambda>p. tp_name p = ne_params_name n) params) of
        (Some t, Some p) \<Rightarrow> do { send t p (ne_typ n); notify_loop send targets params ns }
      | _ \<Rightarrow> notify_loop send targets params ns)"

definition notify_send ::
  "crypto \<Rightarrow> v3_rasn \<Rightarrow> i32 \<Rightarrow> 's network \<Rightarrow> u32 \<Rightarrow> originator \<Rightarrow> oid \<Rightarrow> varbind list \<Rightarrow> ('s client, unit) state" where
  "notify_send C R seed net uptime orig trap_oid vbs =
     (let cfg = or_config orig; full = notification_head uptime trap_oid @ vbs
      in if \<not> has_targets cfg then State_Monad.return ()
         else notify_loop (\<lambda>t p typ. send_to_target C R seed net orig t p typ trap_oid full)
                (nc_targets cfg) (nc_params cfg) (nc_notifies cfg))"

definition send_cold_start where
  "send_cold_start C R seed net uptime orig = notify_send C R seed net uptime orig COLD_START_OID []"

definition send_warm_start where
  "send_warm_start C R seed net uptime orig = notify_send C R seed net uptime orig WARM_START_OID []"

end
