(* ===== verification/Agentx_Wire.thy ===== *)
theory Agentx_Wire
  imports Snmp_Pdu Rust_Bytes
begin

text \<open>
  The elements of the AgentX wire format
  (\<^verbatim>\<open>crates/netsnmp-agent/src/agentx/protocol.rs\<close>): the header, packed OIDs, data values and
  variable bindings, each with its encoder and decoder and the proof that the decoder reads
  back what the encoder wrote.  An encoder is \<^const>\<open>None\<close> where the code panics.
\<close>

section \<open>Errors and codes\<close>

datatype agentx_error =
    AxNoError | OpenFailed | NotOpen | IndexWrongType | IndexAlreadyAllocated | IndexNoneAllocated
  | IndexNotAllocated | UnsupportedContext | DuplicateRegistration | UnknownRegistration
  | UnknownAgentCaps | AxParseError | RequestDenied | ProcessingError | Truncated | UnknownPduType
  | UnsupportedType

fun axerr_code :: "agentx_error \<Rightarrow> u16" where
  "axerr_code AxNoError = 0"
| "axerr_code OpenFailed = 256"
| "axerr_code NotOpen = 257"
| "axerr_code IndexWrongType = 258"
| "axerr_code IndexAlreadyAllocated = 259"
| "axerr_code IndexNoneAllocated = 260"
| "axerr_code IndexNotAllocated = 261"
| "axerr_code UnsupportedContext = 262"
| "axerr_code DuplicateRegistration = 263"
| "axerr_code UnknownRegistration = 264"
| "axerr_code UnknownAgentCaps = 265"
| "axerr_code AxParseError = 266"
| "axerr_code RequestDenied = 267"
| "axerr_code ProcessingError = 268"
| "axerr_code Truncated = 269"
| "axerr_code UnknownPduType = 270"
| "axerr_code UnsupportedType = 271"

definition axerr_from_wire :: "u16 \<Rightarrow> agentx_error" where
  "axerr_from_wire c =
     (if c = 0 then AxNoError else if c = 256 then OpenFailed else if c = 257 then NotOpen
      else if c = 258 then IndexWrongType else if c = 259 then IndexAlreadyAllocated
      else if c = 260 then IndexNoneAllocated else if c = 261 then IndexNotAllocated
      else if c = 262 then UnsupportedContext else if c = 263 then DuplicateRegistration
      else if c = 264 then UnknownRegistration else if c = 265 then UnknownAgentCaps
      else if c = 266 then AxParseError else if c = 267 then RequestDenied
      else if c = 268 then ProcessingError else ProcessingError)"

definition AX_VERSION :: u8 where "AX_VERSION = 1"
definition FLAG_NETWORK_BYTE_ORDER :: u8 where "FLAG_NETWORK_BYTE_ORDER = 0x04"
definition FLAG_NON_DEFAULT_CONTEXT :: u8 where "FLAG_NON_DEFAULT_CONTEXT = 0x08"

section \<open>Integers in the byte order of the packet\<close>

definition u32_bytes :: "bool \<Rightarrow> u32 \<Rightarrow> u8 list" where
  "u32_bytes big v = (if big then u32_to_be_bytes v else u32_to_le_bytes v)"

definition u16_bytes :: "bool \<Rightarrow> u16 \<Rightarrow> u8 list" where
  "u16_bytes big v = (if big then u16_to_be_bytes v else u16_to_le_bytes v)"

definition u32_of_bytes :: "bool \<Rightarrow> u8 list \<Rightarrow> u32" where
  "u32_of_bytes big b = (if big then u32_from_be_bytes b else u32_from_le_bytes b)"

definition u16_of_bytes :: "bool \<Rightarrow> u8 list \<Rightarrow> u16" where
  "u16_of_bytes big b = (if big then u16_from_be_bytes b else u16_from_le_bytes b)"

definition write_u32 :: "u8 list \<Rightarrow> u32 \<Rightarrow> bool \<Rightarrow> u8 list" where
  "write_u32 out v big = out @ u32_bytes big v"

definition write_u16 :: "u8 list \<Rightarrow> u16 \<Rightarrow> bool \<Rightarrow> u8 list" where
  "write_u16 out v big = out @ u16_bytes big v"

definition take4 :: "u8 list \<Rightarrow> (u8 list \<times> u8 list, agentx_error) result" where
  "take4 bytes = (if length bytes < 4 then Err Truncated else Ok (take 4 bytes, drop 4 bytes))"

definition read_u32 :: "u8 list \<Rightarrow> bool \<Rightarrow> (u32 \<times> u8 list, agentx_error) result" where
  "read_u32 bytes big = bind_result (take4 bytes) (\<lambda>(b, rest). Ok (u32_of_bytes big b, rest))"

definition read_u16 :: "u8 list \<Rightarrow> bool \<Rightarrow> (u16 \<times> u8 list, agentx_error) result" where
  "read_u16 bytes big =
     (if length bytes < 2 then Err Truncated else Ok (u16_of_bytes big (take 2 bytes), drop 2 bytes))"

text \<open>\<open>while out.len() % 4 != 0 { out.push(0) }\<close>\<close>

definition pad4 :: "u8 list \<Rightarrow> u8 list" where
  "pad4 out = out @ replicate ((4 - length out mod 4) mod 4) 0"

definition take_padded :: "u8 list \<Rightarrow> nat \<Rightarrow> (u8 list \<times> u8 list, agentx_error) result" where
  "take_padded bytes len =
     (if length bytes < len then Err Truncated
      else let data = take len bytes; rest = drop len bytes; pad = (4 - len mod 4) mod 4
           in if length rest < pad then Err Truncated else Ok (data, drop pad rest))"

section \<open>The header\<close>

record agentx_header =
  ax_version :: u8
  ax_type :: u8
  ax_flags :: u8
  ax_session_id :: u32
  ax_transaction_id :: u32
  ax_packet_id :: u32
  ax_payload_length :: u32
  ax_timeout :: u8

definition is_big_endian :: "agentx_header \<Rightarrow> bool" where
  "is_big_endian h = (ax_flags h AND FLAG_NETWORK_BYTE_ORDER \<noteq> 0)"

definition default_header :: agentx_header where
  "default_header =
     \<lparr>ax_version = AX_VERSION, ax_type = 1, ax_flags = 0, ax_session_id = 0, ax_transaction_id = 0,
      ax_packet_id = 0, ax_payload_length = 0, ax_timeout = 0\<rparr>"

definition encode_header :: "agentx_header \<Rightarrow> u8 list" where
  "encode_header h =
     (let big = (ax_flags h AND FLAG_NETWORK_BYTE_ORDER \<noteq> 0) in
      [ax_version h, ax_type h, ax_flags h, 0] @ u32_bytes big (ax_session_id h)
        @ u32_bytes big (ax_transaction_id h) @ u32_bytes big (ax_packet_id h)
        @ u32_bytes big (ax_payload_length h))"

definition decode_header :: "u8 list \<Rightarrow> (agentx_header \<times> u8 list, agentx_error) result" where
  "decode_header bytes =
     (if length bytes < 20 then Err Truncated
      else let flags = bytes ! 2; big = (flags AND FLAG_NETWORK_BYTE_ORDER \<noteq> 0);
               rd = (\<lambda>i. u32_of_bytes big (take 4 (drop i bytes)))
           in Ok (\<lparr>ax_version = bytes ! 0, ax_type = bytes ! 1, ax_flags = flags, ax_session_id = rd 4,
                   ax_transaction_id = rd 8, ax_packet_id = rd 12, ax_payload_length = rd 16,
                   ax_timeout = 0\<rparr>, drop 20 bytes))"

section \<open>Packed OIDs\<close>

definition internet_prefix :: "u32 list \<Rightarrow> bool" where
  "internet_prefix arcs \<longleftrightarrow>
     4 \<le> length arcs \<and> arcs ! 0 = 1 \<and> arcs ! 1 = 3 \<and> arcs ! 2 = 6 \<and> arcs ! 3 = 1"

definition packed_oid :: "u32 list \<Rightarrow> u8 \<Rightarrow> u8 \<Rightarrow> bool \<Rightarrow> u8 list" where
  "packed_oid sub_ids pre inc big =
     [word_of_nat (length sub_ids), pre, inc, 0] @ concat (map (u32_bytes big) sub_ids)"

text \<open>\<open>arcs[4]\<close> is out of bounds when the OID is \<open>1.3.6.1\<close> itself: the code panics.\<close>

definition encode_oid_bytes_with :: "oid \<Rightarrow> u8 \<Rightarrow> bool \<Rightarrow> u8 list option" where
  "encode_oid_bytes_with o1 inc big =
     (let arcs = as_slice o1 in
      if internet_prefix arcs
      then if length arcs = 4 then None
           else Some (packed_oid (drop 5 arcs) (max (ucast (arcs ! 4)) 1) inc big)
      else Some (packed_oid arcs 0 inc big))"

definition encode_oid_bytes :: "oid \<Rightarrow> bool \<Rightarrow> u8 list option" where
  "encode_oid_bytes o1 big = encode_oid_bytes_with o1 0 big"

definition encode_oid :: "oid \<Rightarrow> u8 list option" where
  "encode_oid o1 = encode_oid_bytes_with o1 0 False"

definition decode_oid_bytes :: "u8 list \<Rightarrow> bool \<Rightarrow> (oid \<times> u8 list, agentx_error) result" where
  "decode_oid_bytes bytes big =
     (if length bytes < 4 then Err Truncated
      else let n = unat (bytes ! 0); pre = bytes ! 1; body = drop 4 bytes in
           if length body < n * 4 then Err Truncated
           else Ok (Oid ((if pre \<noteq> 0 then [1, 3, 6, 1, ucast pre] else [])
                         @ map (\<lambda>i. u32_of_bytes big (take 4 (drop (i * 4) body))) [0..<n]),
                    drop (n * 4) body))"

definition decode_oid :: "u8 list \<Rightarrow> bool \<Rightarrow> (oid \<times> u8 list, agentx_error) result" where
  "decode_oid bytes big = decode_oid_bytes bytes big"

section \<open>Data values\<close>

datatype agentx_data =
    AxInteger i32
  | AxOctetString "u8 list"
  | AxNull
  | AxOid oid
  | AxIpAddress ipv4_addr
  | AxCounter32 u32
  | AxGauge32 u32
  | AxTimeTicks u32
  | AxOpaque "u8 list"
  | AxCounter64 u64

fun data_tag :: "agentx_data \<Rightarrow> u16" where
  "data_tag (AxInteger v) = 2"
| "data_tag (AxOctetString b) = 4"
| "data_tag AxNull = 5"
| "data_tag (AxOid d) = 6"
| "data_tag (AxIpAddress a) = 64"
| "data_tag (AxCounter32 v) = 65"
| "data_tag (AxGauge32 v) = 66"
| "data_tag (AxTimeTicks v) = 67"
| "data_tag (AxOpaque b) = 68"
| "data_tag (AxCounter64 v) = 70"

definition rev_if :: "bool \<Rightarrow> u8 list \<Rightarrow> u8 list" where
  "rev_if big b = (if big then rev b else b)"

fun ip_octets :: "ipv4_addr \<Rightarrow> u8 list" where
  "ip_octets (a, b, c, d) = [a, b, c, d]"

fun data_payload :: "agentx_data \<Rightarrow> bool \<Rightarrow> u8 list option" where
  "data_payload (AxInteger v) big = Some (rev_if big (u32_to_le_bytes v))"
| "data_payload (AxOctetString b) big = Some b"
| "data_payload AxNull big = Some []"
| "data_payload (AxOid d) big = encode_oid_bytes d big"
| "data_payload (AxIpAddress a) big = Some (ip_octets a)"
| "data_payload (AxCounter32 v) big = Some (rev_if big (u32_to_le_bytes v))"
| "data_payload (AxGauge32 v) big = Some (rev_if big (u32_to_le_bytes v))"
| "data_payload (AxTimeTicks v) big = Some (rev_if big (u32_to_le_bytes v))"
| "data_payload (AxOpaque b) big = Some b"
| "data_payload (AxCounter64 v) big = Some (rev_if big (u64_to_le_bytes v))"

fun length_prefixed :: "agentx_data \<Rightarrow> bool" where
  "length_prefixed (AxOctetString b) = True"
| "length_prefixed (AxOpaque b) = True"
| "length_prefixed _ = False"

definition encode_data :: "agentx_data \<Rightarrow> u8 list \<Rightarrow> bool \<Rightarrow> u8 list option" where
  "encode_data d out big =
     (case data_payload d big of
        None \<Rightarrow> None
      | Some payload \<Rightarrow>
          (let out = write_u16 out (data_tag d) big @ [0, 0] in
           Some (if length_prefixed d
                 then pad4 (write_u32 out (word_of_nat (length payload)) big @ payload)
                 else out @ payload)))"

definition decode_counted :: "u8 list \<Rightarrow> bool \<Rightarrow> (u8 list \<times> u8 list, agentx_error) result" where
  "decode_counted bytes big =
     bind_result (read_u32 bytes big) (\<lambda>(len, rest). take_padded rest (unat len))"

definition decode_data :: "u16 \<Rightarrow> u8 list \<Rightarrow> bool \<Rightarrow> (agentx_data \<times> u8 list, agentx_error) result" where
  "decode_data tag bytes big =
     (if tag = 2 then bind_result (read_u32 bytes big) (\<lambda>(v, rest). Ok (AxInteger v, rest))
      else if tag = 4 then bind_result (decode_counted bytes big) (\<lambda>(b, rest). Ok (AxOctetString b, rest))
      else if tag = 5 then Ok (AxNull, bytes)
      else if tag = 6 then bind_result (decode_oid_bytes bytes big) (\<lambda>(d, rest). Ok (AxOid d, rest))
      else if tag = 64 then
        bind_result (take4 bytes) (\<lambda>(b, rest). Ok (AxIpAddress (b ! 0, b ! 1, b ! 2, b ! 3), rest))
      else if tag = 65 then bind_result (read_u32 bytes big) (\<lambda>(v, rest). Ok (AxCounter32 v, rest))
      else if tag = 66 then bind_result (read_u32 bytes big) (\<lambda>(v, rest). Ok (AxGauge32 v, rest))
      else if tag = 67 then bind_result (read_u32 bytes big) (\<lambda>(v, rest). Ok (AxTimeTicks v, rest))
      else if tag = 68 then bind_result (decode_counted bytes big) (\<lambda>(b, rest). Ok (AxOpaque b, rest))
      else if tag = 70 then
        (if length bytes < 8 then Err Truncated
         else Ok (AxCounter64 (if big then u64_from_be_bytes (take 8 bytes) else u64_from_le_bytes (take 8 bytes)),
                  drop 8 bytes))
      else Err UnsupportedType)"

record agentx_varbind =
  axvb_name :: oid
  axvb_data :: agentx_data

definition encode_varbind :: "agentx_varbind \<Rightarrow> u8 list \<Rightarrow> bool \<Rightarrow> u8 list option" where
  "encode_varbind vb out big =
     Option.bind (encode_data (axvb_data vb) out big)
       (\<lambda>out. map_option ((@) out) (encode_oid_bytes_with (axvb_name vb) 0 big))"

definition decode_varbind :: "u8 list \<Rightarrow> bool \<Rightarrow> (agentx_varbind \<times> u8 list, agentx_error) result" where
  "decode_varbind bytes big =
     bind_result (read_u16 bytes big) (\<lambda>(tag, after_tag).
       if length after_tag < 2 then Err Truncated
       else bind_result (decode_data tag (drop 2 after_tag) big) (\<lambda>(data, after_data).
         bind_result (decode_oid_bytes after_data big) (\<lambda>(name, rest).
           Ok (\<lparr>axvb_name = name, axvb_data = data\<rparr>, rest))))"

section \<open>The elements read back what they write\<close>

lemma length_word_bytes [simp]: "length (u32_bytes big v) = 4" "length (u16_bytes big w) = 2"
  by (simp_all add: u32_bytes_def u16_bytes_def)

lemma word_of_bytes [simp]: "u32_of_bytes big (u32_bytes big v) = v" "u16_of_bytes big (u16_bytes big w) = w"
  by (simp_all add: u32_bytes_def u16_bytes_def u32_of_bytes_def u16_of_bytes_def)

lemma rev_if_bytes: "rev_if big (u32_to_le_bytes v) = u32_bytes big v"
  by (simp add: rev_if_def u32_bytes_def u32_to_be_bytes_def)

interpretation u32_codec: remaining_codec "u32_bytes big" "\<lambda>b. read_u32 b big" "\<lambda>_. True" for big
  by unfold_locales (simp add: read_u32_def take4_def)

interpretation u16_codec: remaining_codec "u16_bytes big" "\<lambda>b. read_u16 b big" "\<lambda>_. True" for big
  by unfold_locales (simp add: read_u16_def)

lemma read_word_bytes [simp]:
  "read_u32 (u32_bytes big v @ rest) big = Ok (v, rest)" "read_u16 (u16_bytes big w @ rest) big = Ok (w, rest)"
  using u32_codec.decode_encode u16_codec.decode_encode by auto

interpretation header_codec: remaining_codec encode_header decode_header "\<lambda>h. ax_timeout h = 0"
proof
  fix h :: agentx_header and rest assume "ax_timeout h = 0"
  moreover have [simp]: "drop n (u32_bytes big v @ xs) = drop (n - 4) xs" if "4 \<le> n" for n big v xs
    using that by simp
  ultimately show "decode_header (encode_header h @ rest) = Ok (h, rest)"
    by (simp add: encode_header_def decode_header_def Let_def numeral_eq_Suc)
qed

subsection \<open>Padding\<close>

definition padding :: "u8 list \<Rightarrow> u8 list" where
  "padding b = replicate ((4 - length b mod 4) mod 4) 0"

lemma pad4_append: "length out mod 4 = 0 \<Longrightarrow> pad4 (out @ b) = out @ b @ padding b"
  by (simp add: pad4_def padding_def mod_add_eq [symmetric])

lemma length_padded: "(length b + length (padding b)) mod 4 = 0"
proof -
  define m where "m = length b mod 4"
  have "m < 4" by (simp add: m_def)
  then consider "m = 0" | "m = 1" | "m = 2" | "m = 3" by linarith
  then have "(m + (4 - m) mod 4) mod 4 = 0" by cases simp_all
  then show ?thesis unfolding padding_def length_replicate m_def by (simp only: mod_add_left_eq)
qed

lemma take_padded_padding: "take_padded (b @ padding b @ rest) (length b) = Ok (b, rest)"
  by (simp add: take_padded_def padding_def Let_def)

text \<open>A counted, padded byte string.\<close>

definition counted :: "bool \<Rightarrow> u8 list \<Rightarrow> u8 list" where
  "counted big b = u32_bytes big (word_of_nat (length b)) @ b @ padding b"

interpretation counted_codec: remaining_codec "counted big" "\<lambda>b. decode_counted b big" "\<lambda>b. length b < 2 ^ 32" for big
  by unfold_locales
    (simp add: counted_def decode_counted_def take_padded_padding unat_of_nat take_bit_nat_eq_self)

lemma length_counted: "length (counted big b) mod 4 = 0"
proof -
  have "length (counted big b) = 4 + (length b + length (padding b))" by (simp add: counted_def)
  then show ?thesis using length_padded [of b] by presburger
qed

subsection \<open>OIDs\<close>

text \<open>The OIDs that survive the packed form: at most 255 sub-identifiers, and under \<open>1.3.6.1\<close> a fifth
  sub-identifier that fits the prefix byte.\<close>

definition oid_wire :: "oid \<Rightarrow> bool" where
  "oid_wire o1 =
     (let arcs = as_slice o1 in
      if internet_prefix arcs
      then 5 \<le> length arcs \<and> 1 \<le> unat (arcs ! 4) \<and> unat (arcs ! 4) < 256 \<and> length arcs - 5 < 256
      else length arcs < 256)"

lemma read_subids:
  "map (\<lambda>i. u32_of_bytes big (take 4 (drop (i * 4) (concat (map (u32_bytes big) xs) @ rest)))) [0..<length xs] = xs"
proof (induction xs)
  case Nil
  then show ?case by simp
next
  case (Cons x xs)
  have "map (\<lambda>i. u32_of_bytes big (take 4 (drop (i * 4) (concat (map (u32_bytes big) (x # xs)) @ rest))))
      [0..<length (x # xs)] =
    u32_of_bytes big (take 4 (concat (map (u32_bytes big) (x # xs)) @ rest)) #
    map (\<lambda>i. u32_of_bytes big (take 4 (drop (Suc i * 4) (concat (map (u32_bytes big) (x # xs)) @ rest)))) [0..<length xs]"
    unfolding length_Cons map_upt_Suc by simp
  then show ?case using Cons.IH by simp
qed

lemma length_concat_u32: "length (concat (map (u32_bytes big) xs)) = length xs * 4"
  by (induction xs) simp_all

lemma decode_packed:
  assumes "length sub_ids < 256"
  shows "decode_oid_bytes (packed_oid sub_ids pre inc big @ rest) big =
    Ok (Oid ((if pre \<noteq> 0 then [1, 3, 6, 1, ucast pre] else []) @ sub_ids), rest)"
proof -
  have "unat (word_of_nat (length sub_ids) :: u8) = length sub_ids"
    using assms by (simp add: unat_of_nat take_bit_nat_eq_self)
  then show ?thesis
    using read_subids [of big sub_ids rest]
    by (simp add: packed_oid_def decode_oid_bytes_def Let_def length_concat_u32 del: upt_conv_Cons)
qed

lemma internet_prefix_split: "internet_prefix arcs \<longleftrightarrow> (\<exists>t. arcs = [1, 3, 6, 1] @ t)"
proof
  assume "internet_prefix arcs"
  then obtain a b c d t where "arcs = a # b # c # d # t" "a = 1" "b = 3" "c = 6" "d = 1"
    unfolding internet_prefix_def
    by (cases arcs; cases "tl arcs"; cases "tl (tl arcs)"; cases "tl (tl (tl arcs))") auto
  then show "\<exists>t. arcs = [1, 3, 6, 1] @ t" by simp
qed (auto simp: internet_prefix_def)

lemma ucast_small: "unat (a :: u32) < 256 \<Longrightarrow> ucast (ucast a :: u8) = a"
proof -
  assume "unat a < 256"
  then have "unat (ucast (ucast a :: u8) :: u32) = unat a"
    by (simp add: unsigned_ucast_eq unsigned_take_bit_eq take_bit_nat_eq_self)
  then show ?thesis by (rule word_unat_eq_iff [THEN iffD2])
qed

lemma encode_oid_wire:
  assumes "oid_wire o1"
  obtains sub_ids pre where "encode_oid_bytes_with o1 inc big = Some (packed_oid sub_ids pre inc big)"
    "length sub_ids < 256" "o1 = Oid ((if pre \<noteq> 0 then [1, 3, 6, 1, ucast pre] else []) @ sub_ids)"
proof (cases "internet_prefix (as_slice o1)")
  case False
  then show ?thesis
    using that [of "as_slice o1" 0] assms
    by (simp add: oid_wire_def encode_oid_bytes_with_def Let_def)
next
  case True
  then have w: "5 \<le> length (as_slice o1)" "1 \<le> unat (as_slice o1 ! 4)" "unat (as_slice o1 ! 4) < 256"
      "length (as_slice o1) - 5 < 256"
    using assms by (auto simp: oid_wire_def Let_def)
  obtain t where "as_slice o1 = [1, 3, 6, 1] @ t" using True internet_prefix_split by blast
  then obtain a t' where arcs: "as_slice o1 = [1, 3, 6, 1] @ a # t'" using w(1) by (cases t) auto
  then have a: "1 \<le> unat a" "unat a < 256" using w by simp_all
  have c: "ucast (ucast a :: u8) = a" using ucast_small [OF a(2)] .
  then have nz: "(ucast a :: u8) \<noteq> 0" using a(1) by (metis not_one_le_zero unat_0 ucast_0)
  then have "1 \<le> (ucast a :: u8)" by (simp add: word_le_nat_alt Suc_le_eq unat_gt_0)
  then have "max (ucast a :: u8) 1 = ucast a" by (rule max_absorb1)
  then show ?thesis
    using that [of t' "ucast a"] True arcs nz c w(4)
    by (cases o1) (simp add: encode_oid_bytes_with_def Let_def)
qed

lemma length_packed: "length (packed_oid sub_ids pre inc big) = 4 + length sub_ids * 4"
  by (simp add: packed_oid_def length_concat_u32)

interpretation oid_codec: remaining_codec "\<lambda>o1. the (encode_oid_bytes_with o1 inc big)"
  "\<lambda>b. decode_oid_bytes b big" oid_wire for inc big
proof
  fix o1 rest assume "oid_wire o1"
  then obtain sub_ids pre where e: "encode_oid_bytes_with o1 inc big = Some (packed_oid sub_ids pre inc big)"
    "length sub_ids < 256" "o1 = Oid ((if pre \<noteq> 0 then [1, 3, 6, 1, ucast pre] else []) @ sub_ids)"
    by (rule encode_oid_wire)
  then show "decode_oid_bytes (the (encode_oid_bytes_with o1 inc big) @ rest) big = Ok (o1, rest)"
    using decode_packed [OF e(2)] by simp
qed

lemma oid_wire_bytes:
  assumes "oid_wire o1"
  shows "\<exists>bs. encode_oid_bytes_with o1 inc big = Some bs \<and> length bs mod 4 = 0 \<and> 4 \<le> length bs \<and>
    (\<forall>rest. decode_oid_bytes (bs @ rest) big = Ok (o1, rest))"
proof -
  obtain sub_ids pre where e: "encode_oid_bytes_with o1 inc big = Some (packed_oid sub_ids pre inc big)"
    using encode_oid_wire [OF assms] by metis
  then show ?thesis
    using oid_codec.decode_encode [OF assms, of inc big] by (simp add: length_packed)
qed

subsection \<open>Values and variable bindings\<close>

fun data_wire :: "agentx_data \<Rightarrow> bool" where
  "data_wire (AxOctetString b) = (length b < 2 ^ 32)"
| "data_wire (AxOpaque b) = (length b < 2 ^ 32)"
| "data_wire (AxOid d) = oid_wire d"
| "data_wire _ = True"

definition vb_wire :: "agentx_varbind \<Rightarrow> bool" where
  "vb_wire vb \<longleftrightarrow> oid_wire (axvb_name vb) \<and> data_wire (axvb_data vb)"

lemma encode_counted:
  "length out mod 4 = 0 \<Longrightarrow>
     pad4 (write_u32 (write_u16 out tag big @ [0, 0]) (word_of_nat (length b)) big @ b) =
       out @ u16_bytes big tag @ [0, 0] @ counted big b"
proof -
  assume m: "length out mod 4 = 0"
  let ?o = "out @ u16_bytes big tag @ [0, 0] @ u32_bytes big (word_of_nat (length b))"
  have "length ?o mod 4 = 0" using m by (simp add: mod_add_eq [symmetric])
  from pad4_append [OF this, of b] show ?thesis
    by (simp add: write_u32_def write_u16_def counted_def)
qed

lemma data_wire_bytes:
  assumes "data_wire d"
  shows "\<exists>payload. (\<forall>out. length out mod 4 = 0 \<longrightarrow>
       encode_data d out big = Some (out @ u16_bytes big (data_tag d) @ [0, 0] @ payload)) \<and>
    length payload mod 4 = 0 \<and> (\<forall>rest. decode_data (data_tag d) (payload @ rest) big = Ok (d, rest))"
proof (cases "length_prefixed d")
  case True
  then obtain b where b: "d = AxOctetString b \<or> d = AxOpaque b" "length b < 2 ^ 32"
    using assms by (cases d) auto
  have "encode_data d out big = Some (out @ u16_bytes big (data_tag d) @ [0, 0] @ counted big b)"
    if "length out mod 4 = 0" for out
    using that b(1) by (auto simp: encode_data_def Let_def encode_counted)
  moreover have "decode_data (data_tag d) (counted big b @ rest) big = Ok (d, rest)" for rest
    using b counted_codec.decode_encode [of b big rest] by (auto simp: decode_data_def)
  ultimately show ?thesis using length_counted by blast
next
  case False
  have "\<exists>payload. data_payload d big = Some payload \<and> length payload mod 4 = 0 \<and>
      (\<forall>rest. decode_data (data_tag d) (payload @ rest) big = Ok (d, rest))"
  proof (cases d)
    case (AxOid x)
    then have x: "oid_wire x" using assms by simp
    obtain bs where "encode_oid_bytes_with x 0 big = Some bs" "length bs mod 4 = 0"
        "\<forall>rest. decode_oid_bytes (bs @ rest) big = Ok (x, rest)"
      using oid_wire_bytes [OF x, of 0 big] by (elim exE conjE)
    then show ?thesis by (simp add: AxOid encode_oid_bytes_def decode_data_def)
  next
    case (AxIpAddress a)
    then show ?thesis by (cases a) (simp add: decode_data_def take4_def)
  next
    case (AxCounter64 v)
    then show ?thesis by (simp add: decode_data_def rev_if_def u64_to_be_bytes_def u64_from_be_bytes_def)
  qed (use False in \<open>simp_all add: decode_data_def rev_if_bytes\<close>)
  then show ?thesis
    using False by (auto simp: encode_data_def Let_def write_u16_def)
qed

lemma vb_wire_bytes:
  assumes "vb_wire vb"
  shows "\<exists>bs. (\<forall>out. length out mod 4 = 0 \<longrightarrow> encode_varbind vb out big = Some (out @ bs)) \<and>
    length bs mod 4 = 0 \<and> bs \<noteq> [] \<and> (\<forall>rest. decode_varbind (bs @ rest) big = Ok (vb, rest))"
proof -
  have w: "data_wire (axvb_data vb)" "oid_wire (axvb_name vb)" using assms by (simp_all add: vb_wire_def)
  obtain payload where p: "\<forall>out. length out mod 4 = 0 \<longrightarrow> encode_data (axvb_data vb) out big =
        Some (out @ u16_bytes big (data_tag (axvb_data vb)) @ [0, 0] @ payload)"
      "length payload mod 4 = 0"
      "\<forall>rest. decode_data (data_tag (axvb_data vb)) (payload @ rest) big = Ok (axvb_data vb, rest)"
    using data_wire_bytes [OF w(1), of big] by (elim exE conjE)
  obtain bs where o1: "encode_oid_bytes_with (axvb_name vb) 0 big = Some bs" "length bs mod 4 = 0"
      "\<forall>rest. decode_oid_bytes (bs @ rest) big = Ok (axvb_name vb, rest)"
    using oid_wire_bytes [OF w(2), of 0 big] by (elim exE conjE)
  let ?bs = "u16_bytes big (data_tag (axvb_data vb)) @ [0, 0] @ payload @ bs"
  have "length ?bs mod 4 = 0" using p(2) o1(2) by (simp add: mod_add_eq [symmetric])
  moreover have "encode_varbind vb out big = Some (out @ ?bs)" if "length out mod 4 = 0" for out
    using p(1) o1(1) that by (simp add: encode_varbind_def)
  moreover have "decode_varbind (?bs @ rest) big = Ok (vb, rest)" for rest
    using p(3) o1(3) by (simp add: decode_varbind_def)
  ultimately show ?thesis by (intro exI [of _ ?bs]) auto
qed

interpretation varbind_codec: remaining_codec "\<lambda>vb. the (encode_varbind vb [] big)"
  "\<lambda>b. decode_varbind b big" vb_wire for big
proof
  fix vb rest assume w: "vb_wire vb"
  show "decode_varbind (the (encode_varbind vb [] big) @ rest) big = Ok (vb, rest)"
    using vb_wire_bytes [OF w, of big] by auto
qed

end
