(* ===== verification/Agentx_Pdu.thy ===== *)
theory Agentx_Pdu
  imports Agentx_Wire
begin

text \<open>
  AgentX PDUs (\<^verbatim>\<open>crates/netsnmp-agent/src/agentx/protocol.rs\<close>): the body of every PDU type, its
  encoder and decoder, and the whole packet.  The main theorem is the round trip of a packet;
  the others state where the code departs from it.
\<close>

section \<open>PDU types and bodies\<close>

datatype ax_pdu_type =
    TOpen | TClose | TRegister | TUnregister | TGet | TGetNext | TGetBulk | TSet | TUndo | TCleanup
  | TNotify | TPing | TIndexAllocate | TIndexDeallocate | TAddAgentCaps | TRemoveAgentCaps | TResponse

fun ax_type_code :: "ax_pdu_type \<Rightarrow> u8" where
  "ax_type_code TOpen = 1"
| "ax_type_code TClose = 2"
| "ax_type_code TRegister = 3"
| "ax_type_code TUnregister = 4"
| "ax_type_code TGet = 5"
| "ax_type_code TGetNext = 6"
| "ax_type_code TGetBulk = 7"
| "ax_type_code TSet = 8"
| "ax_type_code TUndo = 9"
| "ax_type_code TCleanup = 10"
| "ax_type_code TNotify = 11"
| "ax_type_code TPing = 12"
| "ax_type_code TIndexAllocate = 13"
| "ax_type_code TIndexDeallocate = 14"
| "ax_type_code TAddAgentCaps = 15"
| "ax_type_code TRemoveAgentCaps = 16"
| "ax_type_code TResponse = 18"

definition ax_type_from_u8 :: "u8 \<Rightarrow> (ax_pdu_type, agentx_error) result" where
  "ax_type_from_u8 b =
     (if b = 1 then Ok TOpen else if b = 2 then Ok TClose else if b = 3 then Ok TRegister
      else if b = 4 then Ok TUnregister else if b = 5 then Ok TGet else if b = 6 then Ok TGetNext
      else if b = 7 then Ok TGetBulk else if b = 8 then Ok TSet else if b = 9 then Ok TUndo
      else if b = 10 then Ok TCleanup else if b = 11 then Ok TNotify else if b = 12 then Ok TPing
      else if b = 13 then Ok TIndexAllocate else if b = 14 then Ok TIndexDeallocate
      else if b = 15 then Ok TAddAgentCaps else if b = 16 then Ok TRemoveAgentCaps
      else if b = 18 then Ok TResponse else Err UnknownPduType)"

datatype close_reason = ROther | RParseError | RProtocolError | RTimeout | RShutdown

fun reason_code :: "close_reason \<Rightarrow> u8" where
  "reason_code ROther = 1"
| "reason_code RParseError = 2"
| "reason_code RProtocolError = 3"
| "reason_code RTimeout = 4"
| "reason_code RShutdown = 5"

definition reason_from_u8 :: "u8 \<Rightarrow> close_reason" where
  "reason_from_u8 b =
     (if b = 2 then RParseError else if b = 3 then RProtocolError else if b = 4 then RTimeout
      else if b = 5 then RShutdown else ROther)"

record open_body =
  open_timeout :: u8
  open_id :: oid
  open_descr :: string

record register_body =
  reg_timeout :: u8
  reg_priority :: u8
  reg_range_subid :: u8
  reg_subtree :: oid
  reg_range_bound :: oid
  reg_context :: "string option"

record unregister_body =
  unreg_timeout :: u8
  unreg_priority :: u8
  unreg_range_subid :: u8
  unreg_subtree :: oid
  unreg_range_bound :: oid
  unreg_context :: "string option"

record search_body =
  sb_context :: "string option"
  search_range :: "(oid \<times> oid) list"

record bulk_body =
  bb_context :: "string option"
  bb_non_repeaters :: u16
  bb_search_range :: "(oid \<times> oid) list"
  bb_max_repetitions :: u16

text \<open>\<open>SetBody\<close>, \<open>NotifyBody\<close> and \<open>IndexBody\<close> have the same fields.\<close>

record vb_body =
  vbb_context :: "string option"
  vbb_varbinds :: "agentx_varbind list"

record caps_body =
  caps_context :: "string option"
  caps_id :: oid
  caps_descr :: string

record response_body =
  sys_up_time :: u32
  resp_error :: u16
  resp_index :: u16
  resp_varbinds :: "agentx_varbind list"

datatype pdu_body =
    BOpen open_body
  | BClose close_reason
  | BRegister register_body
  | BUnregister unregister_body
  | BGet search_body
  | BGetNext search_body
  | BGetBulk bulk_body
  | BSet vb_body
  | BUndo vb_body
  | BCleanup
  | BNotify vb_body
  | BPing "string option"
  | BIndexAllocate vb_body
  | BIndexDeallocate vb_body
  | BAddAgentCaps caps_body
  | BRemoveAgentCaps caps_body
  | BResponse response_body

fun body_type :: "pdu_body \<Rightarrow> ax_pdu_type" where
  "body_type (BOpen b) = TOpen"
| "body_type (BClose r) = TClose"
| "body_type (BRegister b) = TRegister"
| "body_type (BUnregister b) = TUnregister"
| "body_type (BGet b) = TGet"
| "body_type (BGetNext b) = TGetNext"
| "body_type (BGetBulk b) = TGetBulk"
| "body_type (BSet b) = TSet"
| "body_type (BUndo b) = TUndo"
| "body_type BCleanup = TCleanup"
| "body_type (BNotify b) = TNotify"
| "body_type (BPing c) = TPing"
| "body_type (BIndexAllocate b) = TIndexAllocate"
| "body_type (BIndexDeallocate b) = TIndexDeallocate"
| "body_type (BAddAgentCaps b) = TAddAgentCaps"
| "body_type (BRemoveAgentCaps b) = TRemoveAgentCaps"
| "body_type (BResponse b) = TResponse"

definition response_ok :: pdu_body where
  "response_ok = BResponse \<lparr>sys_up_time = 0, resp_error = axerr_code AxNoError, resp_index = 0, resp_varbinds = []\<rparr>"

record ax_pdu =
  axp_header :: agentx_header
  axp_body :: pdu_body

section \<open>Encoding\<close>

definition append_oid :: "u8 list \<Rightarrow> oid \<Rightarrow> u8 \<Rightarrow> bool \<Rightarrow> u8 list option" where
  "append_oid out o1 inc big = map_option ((@) out) (encode_oid_bytes_with o1 inc big)"

definition append_counted :: "u8 list \<Rightarrow> u8 list \<Rightarrow> bool \<Rightarrow> u8 list" where
  "append_counted out b big = pad4 (write_u32 out (word_of_nat (length b)) big @ b)"

definition encode_context :: "string option \<Rightarrow> u8 list \<Rightarrow> bool \<Rightarrow> u8 list \<times> bool" where
  "encode_context ctx out big =
     (case ctx of Some c \<Rightarrow> (append_counted out (as_bytes c) big, True) | None \<Rightarrow> (out, False))"

definition with_context :: "string option \<Rightarrow> u8 list \<Rightarrow> bool \<Rightarrow> u8 list" where
  "with_context ctx out big = (case ctx of Some c \<Rightarrow> fst (encode_context (Some c) out big) | None \<Rightarrow> out)"

fun encode_ranges :: "(oid \<times> oid) list \<Rightarrow> u8 list \<Rightarrow> bool \<Rightarrow> u8 list option" where
  "encode_ranges [] out big = Some out"
| "encode_ranges ((s, e) # rs) out big =
     Option.bind (append_oid out s 1 big) (\<lambda>out.
       Option.bind (append_oid out e 0 big) (\<lambda>out. encode_ranges rs out big))"

fun encode_varbinds :: "agentx_varbind list \<Rightarrow> u8 list \<Rightarrow> bool \<Rightarrow> u8 list option" where
  "encode_varbinds [] out big = Some out"
| "encode_varbinds (vb # vbs) out big =
     Option.bind (encode_varbind vb out big) (\<lambda>out. encode_varbinds vbs out big)"

definition range_upper :: "u8 \<Rightarrow> oid \<Rightarrow> u32" where
  "range_upper subid bound =
     (let i = unat subid - 1 in if i < length (as_slice bound) then as_slice bound ! i else 0)"

definition encode_registration ::
  "u8 \<Rightarrow> u8 \<Rightarrow> u8 \<Rightarrow> oid \<Rightarrow> oid \<Rightarrow> string option \<Rightarrow> u8 list \<Rightarrow> bool \<Rightarrow> u8 list option" where
  "encode_registration timeout priority subid subtree bound ctx out big =
     Option.bind (append_oid (with_context ctx (out @ [timeout, priority, subid, 0]) big) subtree 0 big)
       (\<lambda>out. Some (if subid \<noteq> 0 then write_u32 out (range_upper subid bound) big else out))"

fun encode_body :: "pdu_body \<Rightarrow> u8 list \<Rightarrow> bool \<Rightarrow> u8 list option" where
  "encode_body (BOpen b) out big =
     Option.bind (append_oid (out @ [open_timeout b, 0, 0, 0]) (open_id b) 0 big)
       (\<lambda>out. Some (append_counted out (as_bytes (open_descr b)) big))"
| "encode_body (BClose r) out big = Some (out @ [reason_code r, 0, 0, 0])"
| "encode_body (BRegister r) out big =
     encode_registration (reg_timeout r) (reg_priority r) (reg_range_subid r) (reg_subtree r)
       (reg_range_bound r) (reg_context r) out big"
| "encode_body (BUnregister r) out big =
     encode_registration (unreg_timeout r) (unreg_priority r) (unreg_range_subid r) (unreg_subtree r)
       (unreg_range_bound r) (unreg_context r) out big"
| "encode_body (BGet b) out big = encode_ranges (search_range b) (with_context (sb_context b) out big) big"
| "encode_body (BGetNext b) out big = encode_ranges (search_range b) (with_context (sb_context b) out big) big"
| "encode_body (BGetBulk b) out big =
     encode_ranges (bb_search_range b)
       (with_context (bb_context b)
         (write_u16 (write_u16 out (bb_non_repeaters b) big) (bb_max_repetitions b) big) big) big"
| "encode_body (BSet b) out big = encode_varbinds (vbb_varbinds b) (with_context (vbb_context b) out big) big"
| "encode_body (BUndo b) out big = encode_varbinds (vbb_varbinds b) (with_context (vbb_context b) out big) big"
| "encode_body BCleanup out big = Some out"
| "encode_body (BNotify b) out big = encode_varbinds (vbb_varbinds b) (with_context (vbb_context b) out big) big"
| "encode_body (BPing ctx) out big = Some (with_context ctx out big)"
| "encode_body (BIndexAllocate b) out big =
     encode_varbinds (vbb_varbinds b) (with_context (vbb_context b) out big) big"
| "encode_body (BIndexDeallocate b) out big =
     encode_varbinds (vbb_varbinds b) (with_context (vbb_context b) out big) big"
| "encode_body (BAddAgentCaps b) out big =
     Option.bind (append_oid (with_context (caps_context b) out big) (caps_id b) 0 big)
       (\<lambda>out. Some (append_counted out (as_bytes (caps_descr b)) big))"
| "encode_body (BRemoveAgentCaps b) out big =
     Option.bind (append_oid (with_context (caps_context b) out big) (caps_id b) 0 big)
       (\<lambda>out. Some (append_counted out (as_bytes (caps_descr b)) big))"
| "encode_body (BResponse b) out big =
     encode_varbinds (resp_varbinds b)
       (write_u16 (write_u16 (write_u32 out (sys_up_time b) big) (resp_error b) big) (resp_index b) big) big"

definition pdu_encode :: "ax_pdu \<Rightarrow> u8 list option" where
  "pdu_encode p =
     (let big = (ax_flags (axp_header p) AND FLAG_NETWORK_BYTE_ORDER \<noteq> 0) in
      Option.bind (encode_body (axp_body p) [] big) (\<lambda>body.
        Some (encode_header ((axp_header p)\<lparr>ax_type := ax_type_code (body_type (axp_body p)),
                                            ax_payload_length := word_of_nat (length body)\<rparr>) @ body)))"

fun body_context :: "pdu_body \<Rightarrow> string option" where
  "body_context (BRegister r) = reg_context r"
| "body_context (BUnregister r) = unreg_context r"
| "body_context (BGet b) = sb_context b"
| "body_context (BGetNext b) = sb_context b"
| "body_context (BGetBulk b) = bb_context b"
| "body_context (BSet b) = vbb_context b"
| "body_context (BUndo b) = vbb_context b"
| "body_context (BNotify b) = vbb_context b"
| "body_context (BPing c) = c"
| "body_context (BIndexAllocate b) = vbb_context b"
| "body_context (BIndexDeallocate b) = vbb_context b"
| "body_context (BAddAgentCaps b) = caps_context b"
| "body_context (BRemoveAgentCaps b) = caps_context b"
| "body_context _ = None"

definition encode_pdu :: "ax_pdu \<Rightarrow> u8 list option" where
  "encode_pdu p =
     (let hd0 = axp_header p; big = (ax_flags hd0 AND FLAG_NETWORK_BYTE_ORDER \<noteq> 0);
          has_context = (body_context (axp_body p) \<noteq> None);
          flags = ax_flags hd0 AND NOT FLAG_NON_DEFAULT_CONTEXT;
          flags = (if has_context then flags OR FLAG_NON_DEFAULT_CONTEXT else flags)
      in Option.bind (encode_body (axp_body p) [] big) (\<lambda>body.
           Some (encode_header (hd0\<lparr>ax_type := ax_type_code (body_type (axp_body p)),
                                    ax_payload_length := word_of_nat (length body),
                                    ax_flags := flags\<rparr>) @ body)))"

section \<open>Decoding\<close>

lemma decode_oid_shorter: "decode_oid_bytes bytes big = Ok (o1, rest) \<Longrightarrow> length rest < length bytes"
  by (auto simp: decode_oid_bytes_def Let_def split: if_splits)

lemma take_padded_shorter: "take_padded bytes n = Ok (b, rest) \<Longrightarrow> length rest \<le> length bytes"
  by (auto simp: take_padded_def Let_def split: if_splits)

lemma decode_data_shorter: "decode_data tag bytes big = Ok (d, rest) \<Longrightarrow> length rest \<le> length bytes"
  by (auto simp: decode_data_def read_u32_def take4_def decode_counted_def
      dest!: decode_oid_shorter take_padded_shorter split: if_splits)

lemma decode_varbind_shorter: "decode_varbind bytes big = Ok (vb, rest) \<Longrightarrow> length rest < length bytes"
  by (auto simp: decode_varbind_def read_u16_def dest!: decode_oid_shorter decode_data_shorter split: if_splits)

text \<open>The \<open>while !rest.is_empty()\<close> loops; every element consumes input, so they end.\<close>

function decode_varbinds :: "bool \<Rightarrow> u8 list \<Rightarrow> (agentx_varbind list, agentx_error) result" where
  "decode_varbinds big rest =
     (if rest = [] then Ok []
      else case decode_varbind rest big of
        Err e \<Rightarrow> Err e
      | Ok (vb, after) \<Rightarrow> bind_result (decode_varbinds big after) (\<lambda>vbs. Ok (vb # vbs)))"
  by auto
termination
  by (relation "measure (\<lambda>(big, rest). length rest)") (auto dest: decode_varbind_shorter)

function decode_ranges :: "bool \<Rightarrow> u8 list \<Rightarrow> ((oid \<times> oid) list, agentx_error) result" where
  "decode_ranges big rest =
     (if rest = [] then Ok []
      else case decode_oid_bytes rest big of
        Err e \<Rightarrow> Err e
      | Ok (start, after_start) \<Rightarrow>
          if after_start = [] then Err Truncated
          else (case decode_oid_bytes after_start big of
                  Err e \<Rightarrow> Err e
                | Ok (stop, after_end) \<Rightarrow>
                    bind_result (decode_ranges big after_end) (\<lambda>rs. Ok ((start, stop) # rs))))"
  by auto
termination
  by (relation "measure (\<lambda>(big, rest). length rest)") (auto dest!: decode_oid_shorter)

declare decode_varbinds.simps [simp del] decode_ranges.simps [simp del]

definition decode_context :: "u8 list \<Rightarrow> bool \<Rightarrow> (string option \<times> u8 list, agentx_error) result" where
  "decode_context bytes big =
     bind_result (read_u32 bytes big) (\<lambda>(len, rest).
       bind_result (take_padded rest (unat len)) (\<lambda>(data, rest). Ok (Some (from_utf8_lossy data), rest)))"

definition decode_descr :: "u8 list \<Rightarrow> bool \<Rightarrow> (string \<times> u8 list, agentx_error) result" where
  "decode_descr bytes big =
     bind_result (read_u32 bytes big) (\<lambda>(len, rest).
       bind_result (take_padded rest (unat len)) (\<lambda>(data, rest). Ok (from_utf8_lossy data, rest)))"

text \<open>The body of Register and of Unregister: timeout, priority, range, subtree and bound.\<close>

definition decode_registration ::
  "u8 list \<Rightarrow> bool \<Rightarrow> ((u8 \<times> u8 \<times> u8 \<times> oid \<times> oid) \<times> u8 list, agentx_error) result" where
  "decode_registration bytes big =
     (if length bytes < 4 then Err Truncated
      else bind_result (decode_oid_bytes (drop 4 bytes) big) (\<lambda>(subtree, rest).
        if bytes ! 2 \<noteq> 0
        then bind_result (read_u32 rest big) (\<lambda>(upper, rest).
               Ok ((bytes ! 0, bytes ! 1, bytes ! 2, subtree, Oid [upper]), rest))
        else Ok ((bytes ! 0, bytes ! 1, bytes ! 2, subtree, null_oid), rest)))"

definition decode_open :: "u8 list \<Rightarrow> bool \<Rightarrow> (pdu_body \<times> u8 list, agentx_error) result" where
  "decode_open bytes big =
     (if length bytes < 4 then Err Truncated
      else bind_result (decode_oid_bytes (drop 4 bytes) big) (\<lambda>(i, rest).
        bind_result (decode_descr rest big) (\<lambda>(descr, rest).
          Ok (BOpen \<lparr>open_timeout = bytes ! 0, open_id = i, open_descr = descr\<rparr>, rest))))"

definition decode_caps :: "u8 list \<Rightarrow> bool \<Rightarrow> (caps_body \<times> u8 list, agentx_error) result" where
  "decode_caps bytes big =
     bind_result (decode_oid_bytes bytes big) (\<lambda>(i, rest).
       bind_result (decode_descr rest big) (\<lambda>(descr, rest).
         Ok (\<lparr>caps_context = None, caps_id = i, caps_descr = descr\<rparr>, rest)))"

definition decode_vb_body :: "u8 list \<Rightarrow> bool \<Rightarrow> (vb_body, agentx_error) result" where
  "decode_vb_body bytes big =
     bind_result (decode_varbinds big bytes) (\<lambda>vbs. Ok \<lparr>vbb_context = None, vbb_varbinds = vbs\<rparr>)"

definition decode_bulk :: "u8 list \<Rightarrow> bool \<Rightarrow> (pdu_body \<times> u8 list, agentx_error) result" where
  "decode_bulk bytes big =
     bind_result (read_u16 bytes big) (\<lambda>(nr, rest).
       bind_result (read_u16 rest big) (\<lambda>(mr, rest).
         bind_result (decode_ranges big rest) (\<lambda>rs.
           Ok (BGetBulk \<lparr>bb_context = None, bb_non_repeaters = nr, bb_search_range = rs, bb_max_repetitions = mr\<rparr>, []))))"

definition decode_response :: "u8 list \<Rightarrow> bool \<Rightarrow> (pdu_body \<times> u8 list, agentx_error) result" where
  "decode_response bytes big =
     bind_result (read_u32 bytes big) (\<lambda>(up, rest).
       bind_result (read_u16 rest big) (\<lambda>(err, rest).
         bind_result (read_u16 rest big) (\<lambda>(idx, rest).
           bind_result (decode_varbinds big rest) (\<lambda>vbs.
             Ok (BResponse \<lparr>sys_up_time = up, resp_error = err, resp_index = idx, resp_varbinds = vbs\<rparr>, [])))))"

text \<open>Both search PDUs are decoded into the variant \<open>Get\<close>.\<close>

definition decode_typed_body :: "ax_pdu_type \<Rightarrow> u8 list \<Rightarrow> bool \<Rightarrow> (pdu_body \<times> u8 list, agentx_error) result" where
  "decode_typed_body t bytes big =
     (case t of
        TOpen \<Rightarrow> decode_open bytes big
      | TClose \<Rightarrow> if length bytes < 4 then Err Truncated
                  else Ok (BClose (reason_from_u8 (bytes ! 0)), drop 4 bytes)
      | TRegister \<Rightarrow>
          bind_result (decode_registration bytes big) (\<lambda>((timeout, priority, subid, subtree, bound), rest).
            Ok (BRegister \<lparr>reg_timeout = timeout, reg_priority = priority, reg_range_subid = subid,
                           reg_subtree = subtree, reg_range_bound = bound, reg_context = None\<rparr>, rest))
      | TUnregister \<Rightarrow>
          bind_result (decode_registration bytes big) (\<lambda>((timeout, priority, subid, subtree, bound), rest).
            Ok (BUnregister \<lparr>unreg_timeout = timeout, unreg_priority = priority, unreg_range_subid = subid,
                             unreg_subtree = subtree, unreg_range_bound = bound, unreg_context = None\<rparr>, rest))
      | TGet \<Rightarrow> bind_result (decode_ranges big bytes)
                  (\<lambda>rs. Ok (BGet \<lparr>sb_context = None, search_range = rs\<rparr>, []))
      | TGetNext \<Rightarrow> bind_result (decode_ranges big bytes)
                      (\<lambda>rs. Ok (BGet \<lparr>sb_context = None, search_range = rs\<rparr>, []))
      | TGetBulk \<Rightarrow> decode_bulk bytes big
      | TSet \<Rightarrow> bind_result (decode_vb_body bytes big) (\<lambda>b. Ok (BSet b, []))
      | TUndo \<Rightarrow> bind_result (decode_vb_body bytes big) (\<lambda>b. Ok (BUndo b, []))
      | TCleanup \<Rightarrow> Ok (BCleanup, bytes)
      | TNotify \<Rightarrow> bind_result (decode_vb_body bytes big) (\<lambda>b. Ok (BNotify b, []))
      | TPing \<Rightarrow> Ok (BPing None, bytes)
      | TIndexAllocate \<Rightarrow> bind_result (decode_vb_body bytes big) (\<lambda>b. Ok (BIndexAllocate b, []))
      | TIndexDeallocate \<Rightarrow> bind_result (decode_vb_body bytes big) (\<lambda>b. Ok (BIndexDeallocate b, []))
      | TAddAgentCaps \<Rightarrow> bind_result (decode_caps bytes big) (\<lambda>(b, rest). Ok (BAddAgentCaps b, rest))
      | TRemoveAgentCaps \<Rightarrow> bind_result (decode_caps bytes big) (\<lambda>(b, rest). Ok (BRemoveAgentCaps b, rest))
      | TResponse \<Rightarrow> decode_response bytes big)"

definition decode_body :: "u8 \<Rightarrow> u8 list \<Rightarrow> bool \<Rightarrow> (pdu_body \<times> u8 list, agentx_error) result" where
  "decode_body t bytes big = bind_result (ax_type_from_u8 t) (\<lambda>ty. decode_typed_body ty bytes big)"

definition pdu_decode :: "u8 list \<Rightarrow> (ax_pdu, agentx_error) result" where
  "pdu_decode bytes =
     bind_result (decode_header bytes) (\<lambda>(hdr, payload).
       bind_result (decode_body (ax_type hdr) payload (is_big_endian hdr)) (\<lambda>(body, rest).
         Ok \<lparr>axp_header = hdr, axp_body = body\<rparr>))"

fun fill_context :: "pdu_body \<Rightarrow> string \<Rightarrow> pdu_body" where
  "fill_context (BRegister r) ctx = BRegister (r\<lparr>reg_context := Some ctx\<rparr>)"
| "fill_context (BUnregister r) ctx = BUnregister (r\<lparr>unreg_context := Some ctx\<rparr>)"
| "fill_context (BGet b) ctx = BGet (b\<lparr>sb_context := Some ctx\<rparr>)"
| "fill_context (BGetNext b) ctx = BGetNext (b\<lparr>sb_context := Some ctx\<rparr>)"
| "fill_context (BGetBulk b) ctx = BGetBulk (b\<lparr>bb_context := Some ctx\<rparr>)"
| "fill_context (BSet b) ctx = BSet (b\<lparr>vbb_context := Some ctx\<rparr>)"
| "fill_context (BUndo b) ctx = BUndo (b\<lparr>vbb_context := Some ctx\<rparr>)"
| "fill_context (BNotify b) ctx = BNotify (b\<lparr>vbb_context := Some ctx\<rparr>)"
| "fill_context (BPing c) ctx = BPing (Some ctx)"
| "fill_context (BIndexAllocate b) ctx = BIndexAllocate (b\<lparr>vbb_context := Some ctx\<rparr>)"
| "fill_context (BIndexDeallocate b) ctx = BIndexDeallocate (b\<lparr>vbb_context := Some ctx\<rparr>)"
| "fill_context (BAddAgentCaps b) ctx = BAddAgentCaps (b\<lparr>caps_context := Some ctx\<rparr>)"
| "fill_context (BRemoveAgentCaps b) ctx = BRemoveAgentCaps (b\<lparr>caps_context := Some ctx\<rparr>)"
| "fill_context b ctx = b"

definition decode_pdu :: "u8 list \<Rightarrow> (ax_pdu, agentx_error) result" where
  "decode_pdu bytes =
     bind_result (decode_header bytes) (\<lambda>(hdr, payload).
       bind_result (decode_body (ax_type hdr) payload (is_big_endian hdr)) (\<lambda>(body, rest).
         Ok \<lparr>axp_header = hdr,
             axp_body = (if ax_flags hdr AND FLAG_NON_DEFAULT_CONTEXT \<noteq> 0 then fill_context body [] else body)\<rparr>))"

section \<open>What the wire carries\<close>

definition text_wire :: "string \<Rightarrow> bool" where
  "text_wire d \<longleftrightarrow> valid_string d \<and> length d < 2 ^ 32"

definition registration_wire :: "u8 \<Rightarrow> oid \<Rightarrow> oid \<Rightarrow> string option \<Rightarrow> bool" where
  "registration_wire subid subtree bound ctx \<longleftrightarrow> ctx = None \<and> oid_wire subtree \<and>
     (subid = 0 \<and> bound = null_oid \<or> subid = 1 \<and> length (as_slice bound) = 1)"

fun body_wire :: "pdu_body \<Rightarrow> bool" where
  "body_wire (BOpen b) \<longleftrightarrow> oid_wire (open_id b) \<and> text_wire (open_descr b)"
| "body_wire (BClose r) \<longleftrightarrow> True"
| "body_wire (BRegister r) \<longleftrightarrow> registration_wire (reg_range_subid r) (reg_subtree r) (reg_range_bound r) (reg_context r)"
| "body_wire (BUnregister r) \<longleftrightarrow>
     registration_wire (unreg_range_subid r) (unreg_subtree r) (unreg_range_bound r) (unreg_context r)"
| "body_wire (BGet b) \<longleftrightarrow> sb_context b = None \<and> list_all (\<lambda>(s, e). oid_wire s \<and> oid_wire e) (search_range b)"
| "body_wire (BGetNext b) \<longleftrightarrow> sb_context b = None \<and> list_all (\<lambda>(s, e). oid_wire s \<and> oid_wire e) (search_range b)"
| "body_wire (BGetBulk b) \<longleftrightarrow> bb_context b = None \<and> list_all (\<lambda>(s, e). oid_wire s \<and> oid_wire e) (bb_search_range b)"
| "body_wire (BSet b) \<longleftrightarrow> vbb_context b = None \<and> list_all vb_wire (vbb_varbinds b)"
| "body_wire (BUndo b) \<longleftrightarrow> vbb_context b = None \<and> list_all vb_wire (vbb_varbinds b)"
| "body_wire BCleanup \<longleftrightarrow> True"
| "body_wire (BNotify b) \<longleftrightarrow> vbb_context b = None \<and> list_all vb_wire (vbb_varbinds b)"
| "body_wire (BPing c) \<longleftrightarrow> c = None"
| "body_wire (BIndexAllocate b) \<longleftrightarrow> vbb_context b = None \<and> list_all vb_wire (vbb_varbinds b)"
| "body_wire (BIndexDeallocate b) \<longleftrightarrow> vbb_context b = None \<and> list_all vb_wire (vbb_varbinds b)"
| "body_wire (BAddAgentCaps b) \<longleftrightarrow> caps_context b = None \<and> oid_wire (caps_id b) \<and> text_wire (caps_descr b)"
| "body_wire (BRemoveAgentCaps b) \<longleftrightarrow> caps_context b = None \<and> oid_wire (caps_id b) \<and> text_wire (caps_descr b)"
| "body_wire (BResponse b) \<longleftrightarrow> list_all vb_wire (resp_varbinds b)"

text \<open>A GetNext comes back as a Get.\<close>

fun decoded_body :: "pdu_body \<Rightarrow> pdu_body" where
  "decoded_body (BGetNext b) = BGet b"
| "decoded_body b = b"

lemma append_oid_wire:
  assumes "oid_wire o1"
  shows "\<exists>bs. (\<forall>out. append_oid out o1 inc big = Some (out @ bs)) \<and> length bs mod 4 = 0 \<and> bs \<noteq> [] \<and>
    (\<forall>rest. decode_oid_bytes (bs @ rest) big = Ok (o1, rest))"
  using oid_wire_bytes [OF assms, of inc big] by (auto simp: append_oid_def)

lemma encode_ranges_wire:
  "list_all (\<lambda>(s, e). oid_wire s \<and> oid_wire e) rs \<Longrightarrow>
     \<exists>bs. (\<forall>out. encode_ranges rs out big = Some (out @ bs)) \<and> decode_ranges big bs = Ok rs"
proof (induction rs)
  case Nil
  then show ?case by (simp add: decode_ranges.simps)
next
  case (Cons r rs)
  obtain s e where r: "r = (s, e)" by (cases r)
  have w: "oid_wire s" "oid_wire e" using Cons.prems by (simp_all add: r)
  obtain bs where bs: "\<forall>out. append_oid out s 1 big = Some (out @ bs)" "bs \<noteq> []"
      "\<forall>rest. decode_oid_bytes (bs @ rest) big = Ok (s, rest)"
    using append_oid_wire [OF w(1), of 1 big] by (elim exE conjE)
  obtain be where be: "\<forall>out. append_oid out e 0 big = Some (out @ be)" "be \<noteq> []"
      "\<forall>rest. decode_oid_bytes (be @ rest) big = Ok (e, rest)"
    using append_oid_wire [OF w(2), of 0 big] by (elim exE conjE)
  obtain br where br: "\<forall>out. encode_ranges rs out big = Some (out @ br)" "decode_ranges big br = Ok rs"
    using Cons by (auto simp: r)
  have "decode_ranges big (bs @ be @ br) = Ok ((s, e) # rs)"
    using bs be br by (simp add: decode_ranges.simps [of big "bs @ be @ br"])
  then show ?case using bs(1) be(1) br(1) by (simp add: r)
qed

lemma encode_varbinds_wire:
  "list_all vb_wire vbs \<Longrightarrow>
     \<exists>bs. (\<forall>out. length out mod 4 = 0 \<longrightarrow> encode_varbinds vbs out big = Some (out @ bs)) \<and>
          decode_varbinds big bs = Ok vbs"
proof (induction vbs)
  case Nil
  then show ?case by (intro exI [of _ "[]"]) (simp add: decode_varbinds.simps)
next
  case (Cons vb vbs)
  then have w: "vb_wire vb" by simp
  obtain b where b: "\<forall>out. length out mod 4 = 0 \<longrightarrow> encode_varbind vb out big = Some (out @ b)"
      "length b mod 4 = 0" "b \<noteq> []" "\<forall>rest. decode_varbind (b @ rest) big = Ok (vb, rest)"
    using vb_wire_bytes [OF w, of big] by (elim exE conjE)
  obtain bs where bs: "\<forall>out. length out mod 4 = 0 \<longrightarrow> encode_varbinds vbs out big = Some (out @ bs)"
      "decode_varbinds big bs = Ok vbs"
    using Cons by auto
  have "decode_varbinds big (b @ bs) = Ok (vb # vbs)"
    using b bs by (simp add: decode_varbinds.simps [of big "b @ bs"])
  moreover have "encode_varbinds (vb # vbs) out big = Some (out @ b @ bs)" if "length out mod 4 = 0" for out
  proof -
    have "length (out @ b) mod 4 = 0" using that b(2) by (simp add: mod_add_eq [symmetric])
    then show ?thesis using that b(1) bs(1) by simp
  qed
  ultimately show ?case by blast
qed

lemma append_counted_eq: "length out mod 4 = 0 \<Longrightarrow> append_counted out b big = out @ counted big b"
proof -
  assume m: "length out mod 4 = 0"
  then have "length (out @ u32_bytes big (word_of_nat (length b))) mod 4 = 0"
    by (simp add: mod_add_eq [symmetric])
  from pad4_append [OF this, of b] show ?thesis by (simp add: append_counted_def write_u32_def counted_def)
qed

lemma decode_descr_counted:
  "text_wire d \<Longrightarrow> decode_descr (counted big (as_bytes d) @ rest) big = Ok (d, rest)"
proof -
  assume w: "text_wire d"
  have "decode_descr bytes big = bind_result (decode_counted bytes big) (\<lambda>(b, rest). Ok (from_utf8_lossy b, rest))"
    for bytes
    by (cases "read_u32 bytes big") (auto simp: decode_descr_def decode_counted_def)
  then show ?thesis
    using counted_codec.decode_encode [of "as_bytes d" big rest] w
    by (simp add: text_wire_def from_utf8_lossy_as_bytes)
qed

lemma ax_type_roundtrip [simp]: "ax_type_from_u8 (ax_type_code t) = Ok t"
  by (cases t) (simp_all add: ax_type_from_u8_def)

lemma reason_roundtrip [simp]: "reason_from_u8 (reason_code r) = r"
  by (cases r) (simp_all add: reason_from_u8_def)

lemma with_context_None [simp]: "with_context None out big = out"
  by (simp add: with_context_def)

lemma registration_roundtrip:
  assumes "registration_wire subid subtree bound ctx"
  shows "\<exists>bs. encode_registration timeout priority subid subtree bound ctx [] big = Some bs \<and>
    decode_registration bs big = Ok ((timeout, priority, subid, subtree, bound), [])"
proof -
  have w: "oid_wire subtree" "ctx = None" using assms by (simp_all add: registration_wire_def)
  obtain so where so: "\<forall>out. append_oid out subtree 0 big = Some (out @ so)"
      "\<forall>rest. decode_oid_bytes (so @ rest) big = Ok (subtree, rest)"
    using append_oid_wire [OF w(1), of 0 big] by (elim exE conjE)
  have so0: "decode_oid_bytes so big = Ok (subtree, [])" using so(2) [THEN spec, of "[]"] by simp
  consider "subid = 0" "bound = null_oid" | x where "subid = 1" "bound = Oid [x]"
    using assms by (cases bound) (auto simp: registration_wire_def length_Suc_conv)
  then show ?thesis
  proof cases
    case 1
    then show ?thesis using so so0 w(2) by (simp add: encode_registration_def decode_registration_def)
  next
    case 2
    then show ?thesis using so w(2) read_word_bytes(1) [of big x "[]"]
      by (simp add: encode_registration_def decode_registration_def write_u32_def range_upper_def)
  qed
qed

lemma described_roundtrip:
  assumes "oid_wire i" and "text_wire d"
  shows "\<exists>bs. (\<forall>out. length out mod 4 = 0 \<longrightarrow>
      Option.bind (append_oid out i 0 big) (\<lambda>out. Some (append_counted out (as_bytes d) big)) = Some (out @ bs)) \<and>
    bind_result (decode_oid_bytes bs big) (\<lambda>(i, rest). bind_result (decode_descr rest big) (\<lambda>(d, rest). f i d rest)) = f i d []"
proof -
  obtain io where io: "\<forall>out. append_oid out i 0 big = Some (out @ io)" "length io mod 4 = 0"
      "\<forall>rest. decode_oid_bytes (io @ rest) big = Ok (i, rest)"
    using append_oid_wire [OF assms(1), of 0 big] by (elim exE conjE)
  have "append_counted (out @ io) (as_bytes d) big = out @ io @ counted big (as_bytes d)"
    if "length out mod 4 = 0" for out
    using append_counted_eq [of "out @ io"] that io(2) by (simp add: mod_add_eq [symmetric])
  then show ?thesis
    using io(1,3) decode_descr_counted [OF assms(2), of big "[]"]
    by (intro exI [of _ "io @ counted big (as_bytes d)"]) simp
qed

lemma vb_body_roundtrip:
  assumes "vbb_context b = None" and "list_all vb_wire (vbb_varbinds b)"
  shows "\<exists>bs. encode_varbinds (vbb_varbinds b) [] big = Some bs \<and> decode_vb_body bs big = Ok b"
  using encode_varbinds_wire [OF assms(2), of big] assms(1) by (auto simp: decode_vb_body_def)

lemma body_roundtrip:
  assumes "body_wire b"
  shows "\<exists>bs. encode_body b [] big = Some bs \<and> decode_typed_body (body_type b) bs big = Ok (decoded_body b, [])"
proof (cases b)
  case (BOpen x)
  then obtain bs where bs: "\<forall>out. length out mod 4 = 0 \<longrightarrow> Option.bind (append_oid out (open_id x) 0 big)
        (\<lambda>out. Some (append_counted out (as_bytes (open_descr x)) big)) = Some (out @ bs)"
      "bind_result (decode_oid_bytes bs big) (\<lambda>(i, rest). bind_result (decode_descr rest big) (\<lambda>(d, rest).
         Ok (BOpen \<lparr>open_timeout = open_timeout x, open_id = i, open_descr = d\<rparr>, rest)))
       = Ok (BOpen \<lparr>open_timeout = open_timeout x, open_id = open_id x, open_descr = open_descr x\<rparr>, [])"
    using assms described_roundtrip [of "open_id x" "open_descr x" big
        "\<lambda>i d rest. Ok (BOpen \<lparr>open_timeout = open_timeout x, open_id = i, open_descr = d\<rparr>, rest)"] by auto
  then show ?thesis by (fastforce simp: BOpen decode_typed_body_def decode_open_def)
next
  case (BRegister r)
  then show ?thesis
    using registration_roundtrip [of "reg_range_subid r" "reg_subtree r" "reg_range_bound r" "reg_context r"
        "reg_timeout r" "reg_priority r" big] assms
    by (auto simp: decode_typed_body_def registration_wire_def)
next
  case (BUnregister r)
  then show ?thesis
    using registration_roundtrip [of "unreg_range_subid r" "unreg_subtree r" "unreg_range_bound r" "unreg_context r"
        "unreg_timeout r" "unreg_priority r" big] assms
    by (auto simp: decode_typed_body_def registration_wire_def)
next
  case (BGet x)
  then show ?thesis using encode_ranges_wire [of "search_range x" big] assms
    by (auto simp: decode_typed_body_def)
next
  case (BGetNext x)
  then show ?thesis using encode_ranges_wire [of "search_range x" big] assms
    by (auto simp: decode_typed_body_def)
next
  case (BGetBulk x)
  then show ?thesis using encode_ranges_wire [of "bb_search_range x" big] assms
    by (auto simp: decode_typed_body_def decode_bulk_def write_u16_def)
next
  case (BAddAgentCaps x)
  then show ?thesis
    using assms described_roundtrip [of "caps_id x" "caps_descr x" big
        "\<lambda>i d rest. Ok (\<lparr>caps_context = None, caps_id = i, caps_descr = d\<rparr>, rest)"]
    by (fastforce simp: decode_typed_body_def decode_caps_def)
next
  case (BRemoveAgentCaps x)
  then show ?thesis
    using assms described_roundtrip [of "caps_id x" "caps_descr x" big
        "\<lambda>i d rest. Ok (\<lparr>caps_context = None, caps_id = i, caps_descr = d\<rparr>, rest)"]
    by (fastforce simp: decode_typed_body_def decode_caps_def)
next
  case (BResponse x)
  then obtain bs where "\<forall>out. length out mod 4 = 0 \<longrightarrow> encode_varbinds (resp_varbinds x) out big = Some (out @ bs)"
      "decode_varbinds big bs = Ok (resp_varbinds x)"
    using encode_varbinds_wire [of "resp_varbinds x" big] assms by auto
  then show ?thesis by (simp add: BResponse decode_typed_body_def decode_response_def write_u16_def write_u32_def)
qed (use assms vb_body_roundtrip in \<open>fastforce simp: decode_typed_body_def\<close>)+

lemma context_flag_off:
  "(f AND NOT FLAG_NON_DEFAULT_CONTEXT) AND FLAG_NON_DEFAULT_CONTEXT = 0"
  "(f AND NOT FLAG_NON_DEFAULT_CONTEXT) AND FLAG_NETWORK_BYTE_ORDER = f AND FLAG_NETWORK_BYTE_ORDER"
  by (simp_all add: FLAG_NON_DEFAULT_CONTEXT_def FLAG_NETWORK_BYTE_ORDER_def and.assoc)

lemma body_wire_context: "body_wire b \<Longrightarrow> body_context b = None"
  by (cases b) (auto simp: registration_wire_def)

section \<open>What the other side receives\<close>

text \<open>
  A packet as the peer decodes it when \<open>n\<close> payload bytes follow the header: type code, length and
  flags are filled in by the encoder and the timeout, which the header does not carry, reads as 0.
\<close>

definition received_pdu :: "ax_pdu \<Rightarrow> nat \<Rightarrow> ax_pdu" where
  "received_pdu p n =
     \<lparr>axp_header = (axp_header p)\<lparr>ax_type := ax_type_code (body_type (axp_body p)),
        ax_payload_length := word_of_nat n,
        ax_flags := ax_flags (axp_header p) AND NOT FLAG_NON_DEFAULT_CONTEXT, ax_timeout := 0\<rparr>,
      axp_body = decoded_body (axp_body p)\<rparr>"

lemma length_encode_header [simp]: "length (encode_header h) = 20"
  by (simp add: encode_header_def Let_def)

lemma encode_header_timeout: "encode_header (h\<lparr>ax_timeout := t\<rparr>) = encode_header h"
  by (simp add: encode_header_def)

lemma pdu_transfer:
  assumes "body_wire (axp_body p)"
  shows "\<exists>bytes. encode_pdu p = Some bytes \<and> 20 \<le> length bytes \<and>
    decode_pdu bytes = Ok (received_pdu p (length bytes - 20)) \<and>
    decode_header (take 20 bytes) = Ok (axp_header (received_pdu p (length bytes - 20)), [])"
proof -
  let ?h = "axp_header p" and ?b = "axp_body p"
  let ?big = "ax_flags ?h AND FLAG_NETWORK_BYTE_ORDER \<noteq> 0"
  obtain bs where bs: "encode_body ?b [] ?big = Some bs"
      "decode_typed_body (body_type ?b) bs ?big = Ok (decoded_body ?b, [])"
    using body_roundtrip [OF assms, of ?big] by (elim exE conjE)
  let ?h' = "axp_header (received_pdu p (length bs))"
  have enc: "encode_pdu p = Some (encode_header ?h' @ bs)"
    using bs(1) body_wire_context [OF assms]
    by (simp add: encode_pdu_def Let_def received_pdu_def encode_header_timeout)
  have hdr: "decode_header (encode_header ?h' @ r) = Ok (?h', r)" for r
    by (rule header_codec.decode_encode) (simp add: received_pdu_def)
  have "decode_pdu (encode_header ?h' @ bs) = Ok (received_pdu p (length bs))"
    using hdr [of bs] bs(2)
    by (simp add: decode_pdu_def decode_body_def is_big_endian_def context_flag_off received_pdu_def)
  with enc hdr [of "[]"] show ?thesis by (intro exI [of _ "encode_header ?h' @ bs"]) simp
qed

section \<open>Properties\<close>

text \<open>C11: Every AgentX packet whose contents fit the wire format is encoded without a panic, and
  decoding the bytes gives the packet back in either byte order: the header with the type
  code, the payload length and the cleared context flag filled in, and the same body; only a
  GetNext comes back as a Get.\<close>

theorem agentx_pdu_roundtrip:
  assumes "body_wire (axp_body p)"
  shows "\<exists>bytes. encode_pdu p = Some bytes \<and> decode_pdu bytes = Ok
    \<lparr>axp_header = (axp_header p)\<lparr>ax_type := ax_type_code (body_type (axp_body p)),
       ax_payload_length := word_of_nat (length bytes - 20),
       ax_flags := ax_flags (axp_header p) AND NOT FLAG_NON_DEFAULT_CONTEXT, ax_timeout := 0\<rparr>,
     axp_body = decoded_body (axp_body p)\<rparr>"
  using pdu_transfer [OF assms] unfolding received_pdu_def by blast

theorem agentx_pdu_roundtrip_witness:
  "\<exists>bytes. encode_pdu \<lparr>axp_header = default_header\<lparr>ax_session_id := 7\<rparr>, axp_body = BClose RShutdown\<rparr> = Some bytes \<and>
     (\<exists>p. decode_pdu bytes = Ok p \<and> axp_body p = BClose RShutdown \<and> ax_session_id (axp_header p) = 7)"
proof -
  let ?p = "\<lparr>axp_header = default_header\<lparr>ax_session_id := 7\<rparr>, axp_body = BClose RShutdown\<rparr>"
  have "body_wire (axp_body ?p)" by simp
  from agentx_pdu_roundtrip [OF this] show ?thesis by auto
qed

text \<open>Packing an OID panics exactly for \<open>1.3.6.1\<close>, the bare internet prefix.\<close>

lemma encode_oid_panics_on_internet:
  "encode_oid_bytes_with o1 inc big = None \<longleftrightarrow> o1 = Oid [1, 3, 6, 1]"
proof -
  have "internet_prefix (as_slice o1) \<and> length (as_slice o1) = 4 \<longleftrightarrow> as_slice o1 = [1, 3, 6, 1]"
    unfolding internet_prefix_split by auto
  then show ?thesis by (cases o1) (auto simp: encode_oid_bytes_with_def Let_def)
qed

text \<open>The prefix byte keeps the fifth sub-identifier only modulo 256, and stores 1 for a multiple of
  256: an OID under \<open>1.3.6.1\<close> has the same packed form as the one with that remainder, so
  \<open>1.3.6.1.0\<close> and \<open>1.3.6.1.257\<close> both travel as \<open>1.3.6.1.1\<close>.\<close>

lemma packed_oid_collision:
  "encode_oid_bytes_with (Oid ([1, 3, 6, 1, a] @ t)) inc big =
   encode_oid_bytes_with (Oid ([1, 3, 6, 1, ucast (max (ucast a :: u8) 1)] @ t)) inc big"
proof -
  have "(ucast (ucast x :: u32) :: u8) = x" for x :: u8
    by (rule bit_word_eqI) (simp add: bit_ucast_iff)
  then show ?thesis
    by (simp add: encode_oid_bytes_with_def internet_prefix_def Let_def nth_Cons')
qed

text \<open>No packet decodes to a GetNext body, and the context a packet carries is never delivered:
  a decoded body has no context, or the empty one when the context flag is set.\<close>

lemma decode_loses_getnext_and_context:
  assumes "decode_pdu bytes = Ok p"
  shows "(\<nexists>b. axp_body p = BGetNext b) \<and> body_context (axp_body p) \<in> {None, Some []}"
proof -
  have typed: "(\<nexists>s. b = BGetNext s) \<and> body_context b = None"
    if "decode_typed_body t bs big = Ok (b, rest)" for t bs big b rest
    using that
    by (cases t) (auto simp: decode_typed_body_def decode_open_def decode_bulk_def decode_response_def
        decode_vb_body_def decode_caps_def split: if_splits)
  obtain h payload b rest where b: "decode_body (ax_type h) payload (is_big_endian h) = Ok (b, rest)"
      "axp_body p = (if ax_flags h AND FLAG_NON_DEFAULT_CONTEXT \<noteq> 0 then fill_context b [] else b)"
    using assms unfolding decode_pdu_def bind_result_eq_Ok by (fastforce simp: bind_result_eq_Ok)
  obtain t where "decode_typed_body t payload (is_big_endian h) = Ok (b, rest)"
    using b(1) by (auto simp: decode_body_def split: option.splits)
  then have "(\<nexists>s. b = BGetNext s) \<and> body_context b = None" by (rule typed)
  then show ?thesis using b(2) by (cases b) auto
qed

text \<open>The payload length in the header is not checked: a packet is accepted with the same body
  whatever length its header claims.\<close>

lemma payload_length_unchecked:
  assumes "body_wire b" and "ax_timeout h = 0" and "ax_type h = ax_type_code (body_type b)"
    and "ax_flags h AND FLAG_NON_DEFAULT_CONTEXT = 0"
    and "encode_body b [] (is_big_endian h) = Some bs"
  shows "decode_pdu (encode_header (h\<lparr>ax_payload_length := n\<rparr>) @ bs) =
    Ok \<lparr>axp_header = h\<lparr>ax_payload_length := n\<rparr>, axp_body = decoded_body b\<rparr>"
proof -
  have "decode_header (encode_header (h\<lparr>ax_payload_length := n\<rparr>) @ bs) = Ok (h\<lparr>ax_payload_length := n\<rparr>, bs)"
    by (rule header_codec.decode_encode) (simp add: assms(2))
  then show ?thesis
    using body_roundtrip [OF assms(1), of "is_big_endian h"] assms(3-5)
    by (auto simp: decode_pdu_def decode_body_def is_big_endian_def)
qed

end
