(* ===== verification/Agentx_Master.thy ===== *)
theory Agentx_Master
  imports Agentx_Pdu Step_Systems
begin

text \<open>
  The AgentX master (\<^verbatim>\<open>agentx/master.rs\<close>): sessions, subtree registrations, the connection
  task of each subagent, and the forwarding of requests.  The shared state is \<open>ax_master\<close>; the
  \<open>Arc<Session>\<close> objects live in a store addressed by the connection that created them, because a
  forwarder keeps its reference after the session has been removed from the table.  The tasks
  interleave as steps of \<open>ax_step\<close>; the invariant of its reachable states says which sessions and
  registrations exist and who may receive a response.
\<close>

section \<open>State\<close>

definition FIRST_SESSION_ID :: u32 where "FIRST_SESSION_ID = 1"

record registration =
  rg_subtree :: oid
  rg_range_end :: oid
  rg_session_id :: u32
  rg_priority :: u8

text \<open>The pending table maps a packet id to the forwarder that waits on the one-shot channel.\<close>

record ax_session =
  next_packet_id :: u32
  pending :: "u32 \<rightharpoonup> nat"
  subagent_id :: oid

record ax_master =
  am_sessions :: "u32 \<rightharpoonup> nat"
  am_subtrees :: "registration list"
  am_next_session_id :: u32
  am_store :: "nat \<rightharpoonup> ax_session"

definition master_new :: ax_master where
  "master_new = \<lparr>am_sessions = Map.empty, am_subtrees = [], am_next_session_id = FIRST_SESSION_ID,
     am_store = Map.empty\<rparr>"

definition next_packet :: "ax_session \<Rightarrow> u32 \<times> ax_session" where
  "next_packet s = (next_packet_id s + 1, s\<lparr>next_packet_id := next_packet_id s + 1\<rparr>)"

definition registration_count :: "ax_master \<Rightarrow> nat" where
  "registration_count m = length (am_subtrees m)"

section \<open>Registrations\<close>

definition range_end_for :: "register_body \<Rightarrow> oid" where
  "range_end_for r =
     (if reg_range_subid r \<noteq> 0 then
        let idx = unat (reg_range_subid r) - 1;
            bound = (case as_slice (reg_range_bound r) of [] \<Rightarrow> 0 | b # _ \<Rightarrow> b);
            arcs = as_slice (reg_subtree r)
        in Oid (if idx < length arcs then arcs[idx := bound] else arcs)
      else null_oid)"

definition add_registration :: "ax_master \<Rightarrow> u32 \<Rightarrow> register_body \<Rightarrow> ax_master" where
  "add_registration m sid r =
     (let reg = \<lparr>rg_subtree = reg_subtree r, rg_range_end = range_end_for r, rg_session_id = sid,
                 rg_priority = reg_priority r\<rparr>
      in m\<lparr>am_subtrees := sort_key (\<lambda>a. (rg_subtree a, rg_priority a)) (am_subtrees m @ [reg])\<rparr>)"

definition remove_registration :: "ax_master \<Rightarrow> u32 \<Rightarrow> oid \<Rightarrow> ax_master" where
  "remove_registration m sid subtree =
     m\<lparr>am_subtrees := filter (\<lambda>r. \<not> (rg_session_id r = sid \<and> rg_subtree r = subtree)) (am_subtrees m)\<rparr>"

definition reclaim_session :: "ax_master \<Rightarrow> u32 \<Rightarrow> ax_master" where
  "reclaim_session m sid =
     m\<lparr>am_subtrees := filter (\<lambda>r. rg_session_id r \<noteq> sid) (am_subtrees m),
       am_sessions := (am_sessions m)(sid := None)\<rparr>"

definition covers :: "registration \<Rightarrow> oid \<Rightarrow> bool" where
  "covers r o1 \<longleftrightarrow> is_prefix_of (rg_subtree r) o1 \<and> (oid_is_empty (rg_range_end r) \<or> o1 \<le> rg_range_end r)"

definition owner_for :: "ax_master \<Rightarrow> oid \<Rightarrow> u32 option" where
  "owner_for m o1 =
     map_option rg_session_id
       (min_by_key (\<lambda>r. (oid_len (rg_subtree r), rg_priority r)) (filter (\<lambda>r. covers r o1) (am_subtrees m)))"

section \<open>Reading and answering\<close>

datatype read_result = ReadOk ax_pdu "u8 list" | ReadShort | ReadInvalid

definition read_pdu :: "u8 list \<Rightarrow> read_result" where
  "read_pdu stream =
     (if length stream < 20 then ReadShort
      else let header_buf = take 20 stream; rest = drop 20 stream in
        (case decode_header header_buf of
           Err e \<Rightarrow> ReadInvalid
         | Ok (header, _) \<Rightarrow>
             let n = unat (ax_payload_length header) in
             if length rest < n then ReadShort
             else (case decode_pdu (header_buf @ take n rest) of
                     Err e \<Rightarrow> ReadInvalid
                   | Ok p \<Rightarrow> ReadOk p (drop n rest))))"

definition ax_response :: "agentx_header \<Rightarrow> u32 \<Rightarrow> agentx_error \<Rightarrow> agentx_varbind list \<Rightarrow> ax_pdu" where
  "ax_response req sid err vbs =
     \<lparr>axp_header = \<lparr>ax_version = AX_VERSION, ax_type = ax_type_code TResponse, ax_flags = ax_flags req,
        ax_session_id = sid, ax_transaction_id = ax_transaction_id req, ax_packet_id = ax_packet_id req,
        ax_payload_length = 0, ax_timeout = 0\<rparr>,
      axp_body = BResponse \<lparr>sys_up_time = 0, resp_error = axerr_code err, resp_index = 0, resp_varbinds = vbs\<rparr>\<rparr>"

text \<open>
  A connection task: before the Open, serving a session, finished, or ended by an early return
  (a failed write) or a panic.  Only \<open>CDone\<close> after \<open>CRun\<close> goes through \<open>reclaim_session\<close>.
\<close>

datatype conn_state = CStart | CRun u32 | CDone | CFailed u32

definition send_response ::
  "u32 \<Rightarrow> agentx_header \<Rightarrow> agentx_error \<Rightarrow> agentx_varbind list \<Rightarrow> bool \<Rightarrow> conn_state \<times> u8 list" where
  "send_response sid req err vbs write_ok =
     (case encode_pdu (ax_response req sid err vbs) of
        None \<Rightarrow> (CFailed sid, [])
      | Some bytes \<Rightarrow> if write_ok then (CRun sid, bytes) else (CFailed sid, []))"

definition assign_session ::
  "ax_master \<Rightarrow> nat \<Rightarrow> agentx_header \<Rightarrow> oid \<Rightarrow> bool \<Rightarrow> ax_master \<times> conn_state \<times> u8 list" where
  "assign_session m conn req subid write_ok =
     (let sid = am_next_session_id m;
          session = \<lparr>next_packet_id = 0, pending = Map.empty, subagent_id = subid\<rparr>
      in (m\<lparr>am_next_session_id := sid + 1,
            am_sessions := (am_sessions m)(sid \<mapsto> conn),
            am_store := (am_store m)(conn \<mapsto> session)\<rparr>,
          send_response sid req AxNoError [] write_ok))"

text \<open>A Response wakes the forwarder its packet id names.\<close>

definition route_response ::
  "ax_master \<Rightarrow> nat \<Rightarrow> agentx_header \<Rightarrow> response_body \<Rightarrow> ax_master \<times> (nat \<times> ax_pdu) option" where
  "route_response m conn req resp =
     (case am_store m conn of
        None \<Rightarrow> (m, None)
      | Some s \<Rightarrow>
         (case pending s (ax_packet_id req) of
            None \<Rightarrow> (m, None)
          | Some f \<Rightarrow>
             (m\<lparr>am_store := (am_store m)(conn \<mapsto> s\<lparr>pending := (pending s)(ax_packet_id req := None)\<rparr>)\<rparr>,
              Some (f, \<lparr>axp_header = req, axp_body = BResponse resp\<rparr>))))"

record conn_result =
  cr_master :: ax_master
  cr_state :: conn_state
  cr_out :: "u8 list"
  cr_delivered :: "(nat \<times> ax_pdu) option"

definition ack_pdu :: "ax_master \<Rightarrow> u32 \<Rightarrow> agentx_header \<Rightarrow> bool \<Rightarrow> conn_result" where
  "ack_pdu m sid req write_ok =
     (let (st, bytes) = send_response sid req AxNoError [] write_ok
      in \<lparr>cr_master = m, cr_state = st, cr_out = bytes, cr_delivered = None\<rparr>)"

definition quiet :: "ax_master \<Rightarrow> conn_state \<Rightarrow> conn_result" where
  "quiet m st = \<lparr>cr_master = m, cr_state = st, cr_out = [], cr_delivered = None\<rparr>"

definition handle_session_pdu :: "ax_master \<Rightarrow> nat \<Rightarrow> u32 \<Rightarrow> ax_pdu \<Rightarrow> bool \<Rightarrow> conn_result" where
  "handle_session_pdu m conn sid p write_ok =
     (let req = axp_header p in
      case axp_body p of
        BClose _ \<Rightarrow> quiet (reclaim_session m sid) CDone
      | BRegister r \<Rightarrow> ack_pdu (add_registration m sid r) sid req write_ok
      | BUnregister u \<Rightarrow> ack_pdu (remove_registration m sid (unreg_subtree u)) sid req write_ok
      | BPing _ \<Rightarrow> ack_pdu m sid req write_ok
      | BNotify _ \<Rightarrow> ack_pdu m sid req write_ok
      | BCleanup \<Rightarrow> quiet m (CRun sid)
      | BAddAgentCaps _ \<Rightarrow> ack_pdu m sid req write_ok
      | BRemoveAgentCaps _ \<Rightarrow> ack_pdu m sid req write_ok
      | BResponse resp \<Rightarrow>
          (let (m', d) = route_response m conn req resp
           in \<lparr>cr_master = m', cr_state = CRun sid, cr_out = [], cr_delivered = d\<rparr>)
      | BIndexAllocate _ \<Rightarrow> ack_pdu m sid req write_ok
      | BIndexDeallocate _ \<Rightarrow> ack_pdu m sid req write_ok
      | _ \<Rightarrow> quiet m (CRun sid))"

text \<open>One read of \<open>handle_connection\<close>; \<open>None\<close> is a failed read.\<close>

definition handle_read :: "ax_master \<Rightarrow> nat \<Rightarrow> conn_state \<Rightarrow> ax_pdu option \<Rightarrow> bool \<Rightarrow> conn_result" where
  "handle_read m conn st rd write_ok =
     (case st of
        CStart \<Rightarrow>
          (case rd of
             None \<Rightarrow> quiet m CDone
           | Some p \<Rightarrow>
              (case axp_body p of
                 BOpen b \<Rightarrow>
                   (let (m', st', bytes) = assign_session m conn (axp_header p) (open_id b) write_ok
                    in \<lparr>cr_master = m', cr_state = st', cr_out = bytes, cr_delivered = None\<rparr>)
               | _ \<Rightarrow> quiet m CDone))
      | CRun sid \<Rightarrow>
          (case rd of
             None \<Rightarrow> quiet (reclaim_session m sid) CDone
           | Some p \<Rightarrow> handle_session_pdu m conn sid p write_ok)
      | _ \<Rightarrow> quiet m st)"

section \<open>Forwarding\<close>

datatype forward_error = NoOwner | FAgentxError u16 | Disconnected | FTimeout | NoData

datatype forward_req = FwdGet oid | FwdGetNext oid | FwdSet oid "value"

fun forward_oid :: "forward_req \<Rightarrow> oid" where
  "forward_oid (FwdGet o1) = o1"
| "forward_oid (FwdGetNext o1) = o1"
| "forward_oid (FwdSet o1 v) = o1"

fun data_to_value :: "agentx_data \<Rightarrow> value" where
  "data_to_value (AxInteger v) = Integer (scast v)"
| "data_to_value (AxOctetString b) = OctetString b"
| "data_to_value AxNull = Null"
| "data_to_value (AxOid d) = OidValue d"
| "data_to_value (AxIpAddress a) = IpAddress a"
| "data_to_value (AxCounter32 v) = Counter32 v"
| "data_to_value (AxGauge32 v) = Gauge32 v"
| "data_to_value (AxTimeTicks v) = TimeTicks v"
| "data_to_value (AxOpaque b) = Opaque b"
| "data_to_value (AxCounter64 v) = Counter64 v"

fun value_to_data :: "value \<Rightarrow> agentx_data" where
  "value_to_data (Integer v) = AxInteger (ucast v)"
| "value_to_data (OctetString b) = AxOctetString b"
| "value_to_data Null = AxNull"
| "value_to_data (OidValue d) = AxOid d"
| "value_to_data (IpAddress a) = AxIpAddress a"
| "value_to_data (Counter32 v) = AxCounter32 v"
| "value_to_data (Gauge32 v) = AxGauge32 v"
| "value_to_data (TimeTicks v) = AxTimeTicks v"
| "value_to_data (Opaque b) = AxOpaque b"
| "value_to_data (Counter64 v) = AxCounter64 v"
| "value_to_data NoSuchObject = AxNull"
| "value_to_data NoSuchInstance = AxNull"
| "value_to_data EndOfMibView = AxNull"

fun forward_body :: "forward_req \<Rightarrow> pdu_body" where
  "forward_body (FwdGet o1) = BGet \<lparr>sb_context = None, search_range = [(o1, null_oid)]\<rparr>"
| "forward_body (FwdGetNext o1) = BGetNext \<lparr>sb_context = None, search_range = [(o1, null_oid)]\<rparr>"
| "forward_body (FwdSet o1 v) =
     BSet \<lparr>vbb_context = None, vbb_varbinds = [\<lparr>axvb_name = o1, axvb_data = value_to_data v\<rparr>]\<rparr>"

definition forward_pdu :: "forward_req \<Rightarrow> u32 \<Rightarrow> u32 \<Rightarrow> ax_pdu" where
  "forward_pdu req sid packet_id =
     \<lparr>axp_header = \<lparr>ax_version = AX_VERSION, ax_type = ax_type_code (body_type (forward_body req)), ax_flags = 0,
        ax_session_id = sid, ax_transaction_id = 0, ax_packet_id = packet_id, ax_payload_length = 0, ax_timeout = 0\<rparr>,
      axp_body = forward_body req\<rparr>"

text \<open>What a forwarder returns: the value of a GET, the pair of a GETNEXT, nothing for a SET.\<close>

datatype forward_value = GotValue "value" | GotNext oid "value" | GotSet

fun forward_answer :: "forward_req \<Rightarrow> pdu_body \<Rightarrow> (forward_value, forward_error) result" where
  "forward_answer req (BResponse r) =
     (if resp_error r \<noteq> 0 then Err (FAgentxError (resp_error r))
      else (case req of
              FwdSet _ _ \<Rightarrow> Ok GotSet
            | FwdGet _ \<Rightarrow>
                (case resp_varbinds r of [] \<Rightarrow> Err NoData | vb # _ \<Rightarrow> Ok (GotValue (data_to_value (axvb_data vb))))
            | FwdGetNext _ \<Rightarrow>
                (case resp_varbinds r of
                   [] \<Rightarrow> Err NoData
                 | vb # _ \<Rightarrow> Ok (GotNext (axvb_name vb) (data_to_value (axvb_data vb))))))"
| "forward_answer req _ = Err NoData"

text \<open>
  A forwarder task: it has looked up the session, it waits for the response of a packet (which may
  already be in its channel), it has returned, or it has panicked in the encoder.
\<close>

datatype fwd_state =
    FReady forward_req u32 nat
  | FWait forward_req nat u32 "ax_pdu option"
  | FReturned "(forward_value, forward_error) result"
  | FPanicked

definition forward_lookup :: "ax_master \<Rightarrow> forward_req \<Rightarrow> fwd_state" where
  "forward_lookup m req =
     (case owner_for m (forward_oid req) of
        None \<Rightarrow> FReturned (Err NoOwner)
      | Some sid \<Rightarrow> (case am_sessions m sid of None \<Rightarrow> FReturned (Err NoOwner) | Some c \<Rightarrow> FReady req sid c))"

text \<open>The first half of \<open>exchange\<close>: the packet id, the pending entry, the write.\<close>

definition exchange_send ::
  "ax_master \<Rightarrow> nat \<Rightarrow> forward_req \<Rightarrow> u32 \<Rightarrow> nat \<Rightarrow> bool \<Rightarrow> ax_master \<times> fwd_state \<times> u8 list" where
  "exchange_send m f req sid c write_ok =
     (case am_store m c of
        None \<Rightarrow> (m, FReturned (Err NoOwner), [])
      | Some s \<Rightarrow>
         (let (packet_id, s') = next_packet s;
              m' = m\<lparr>am_store := (am_store m)(c \<mapsto> s'\<lparr>pending := (pending s')(packet_id \<mapsto> f)\<rparr>)\<rparr>
          in case encode_pdu (forward_pdu req sid packet_id) of
               None \<Rightarrow> (m', FPanicked, [])
             | Some bytes \<Rightarrow>
                 if write_ok then (m', FWait req c packet_id None, bytes)
                 else (m', FReturned (Err Disconnected), [])))"

text \<open>The second half: the response, or the timeout with the entry removed.\<close>

definition exchange_timeout :: "ax_master \<Rightarrow> nat \<Rightarrow> u32 \<Rightarrow> ax_master" where
  "exchange_timeout m c packet_id =
     (case am_store m c of
        None \<Rightarrow> m
      | Some s \<Rightarrow> m\<lparr>am_store := (am_store m)(c \<mapsto> s\<lparr>pending := (pending s)(packet_id := None)\<rparr>)\<rparr>)"

definition deliver :: "(nat \<rightharpoonup> fwd_state) \<Rightarrow> (nat \<times> ax_pdu) option \<Rightarrow> (nat \<rightharpoonup> fwd_state)" where
  "deliver fs d =
     (case d of
        None \<Rightarrow> fs
      | Some (f, p) \<Rightarrow>
          (case fs f of Some (FWait req c packet_id None) \<Rightarrow> fs(f \<mapsto> FWait req c packet_id (Some p)) | _ \<Rightarrow> fs))"

section \<open>The running system\<close>

record ax_conn =
  cn_state :: conn_state
  cn_in :: "u8 list"
  cn_eof :: bool
  cn_out :: "u8 list"

record ax_system =
  sy_master :: ax_master
  sy_conns :: "nat \<rightharpoonup> ax_conn"
  sy_fwds :: "nat \<rightharpoonup> fwd_state"

definition system_init :: ax_system where
  "system_init = \<lparr>sy_master = master_new, sy_conns = Map.empty, sy_fwds = Map.empty\<rparr>"

text \<open>What the read of a connection returns: \<open>None\<close> while it blocks.\<close>

definition poll_read :: "ax_conn \<Rightarrow> (ax_pdu option \<times> u8 list) option" where
  "poll_read cn =
     (case read_pdu (cn_in cn) of
        ReadOk p rest \<Rightarrow> Some (Some p, rest)
      | ReadShort \<Rightarrow> if cn_eof cn then Some (None, []) else None
      | ReadInvalid \<Rightarrow> Some (None, []))"

definition conn_after :: "ax_conn \<Rightarrow> conn_result \<Rightarrow> u8 list \<Rightarrow> ax_conn" where
  "conn_after cn r rest = cn\<lparr>cn_state := cr_state r, cn_in := rest, cn_out := cn_out cn @ cr_out r\<rparr>"

inductive ax_step :: "ax_system \<Rightarrow> ax_system \<Rightarrow> bool" where
  accept: "sy_conns s c = None \<Longrightarrow>
    ax_step s (s\<lparr>sy_conns := (sy_conns s)(c \<mapsto> \<lparr>cn_state = CStart, cn_in = [], cn_eof = False, cn_out = []\<rparr>)\<rparr>)"
| receive: "sy_conns s c = Some cn \<Longrightarrow>
    ax_step s (s\<lparr>sy_conns := (sy_conns s)(c \<mapsto> cn\<lparr>cn_in := cn_in cn @ bytes\<rparr>)\<rparr>)"
| hangup: "sy_conns s c = Some cn \<Longrightarrow>
    ax_step s (s\<lparr>sy_conns := (sy_conns s)(c \<mapsto> cn\<lparr>cn_eof := True\<rparr>)\<rparr>)"
| serve: "sy_conns s c = Some cn \<Longrightarrow> poll_read cn = Some (rd, rest) \<Longrightarrow>
    r = handle_read (sy_master s) c (cn_state cn) rd write_ok \<Longrightarrow>
    ax_step s (s\<lparr>sy_master := cr_master r, sy_conns := (sy_conns s)(c \<mapsto> conn_after cn r rest),
                 sy_fwds := deliver (sy_fwds s) (cr_delivered r)\<rparr>)"
| forward: "sy_fwds s f = None \<Longrightarrow>
    ax_step s (s\<lparr>sy_fwds := (sy_fwds s)(f \<mapsto> forward_lookup (sy_master s) req)\<rparr>)"
| send: "sy_fwds s f = Some (FReady req sid c) \<Longrightarrow> sy_conns s c = Some cn \<Longrightarrow>
    exchange_send (sy_master s) f req sid c write_ok = (m', st, bytes) \<Longrightarrow>
    ax_step s (s\<lparr>sy_master := m', sy_conns := (sy_conns s)(c \<mapsto> cn\<lparr>cn_out := cn_out cn @ bytes\<rparr>),
                 sy_fwds := (sy_fwds s)(f \<mapsto> st)\<rparr>)"
| answered: "sy_fwds s f = Some (FWait req c packet_id (Some p)) \<Longrightarrow>
    ax_step s (s\<lparr>sy_fwds := (sy_fwds s)(f \<mapsto> FReturned (forward_answer req (axp_body p)))\<rparr>)"
| expired: "sy_fwds s f = Some (FWait req c packet_id None) \<Longrightarrow>
    ax_step s (s\<lparr>sy_master := exchange_timeout (sy_master s) c packet_id,
                 sy_fwds := (sy_fwds s)(f \<mapsto> FReturned (Err FTimeout))\<rparr>)"

definition ax_reachable :: "ax_system \<Rightarrow> bool" where
  "ax_reachable s \<longleftrightarrow> ax_step\<^sup>*\<^sup>* system_init s"

section \<open>Who owns an OID\<close>

lemma owner_for_SomeE:
  assumes "owner_for m o1 = Some sid"
  shows "\<exists>r. r \<in> set (am_subtrees m) \<and> covers r o1 \<and> rg_session_id r = sid \<and>
     (\<forall>q\<in>set (am_subtrees m). covers q o1 \<longrightarrow>
        (oid_len (rg_subtree r), rg_priority r) \<le> (oid_len (rg_subtree q), rg_priority q))"
proof -
  let ?key = "\<lambda>r. (oid_len (rg_subtree r), rg_priority r)"
  let ?xs = "filter (\<lambda>r. covers r o1) (am_subtrees m)"
  obtain r where r: "min_by_key ?key ?xs = Some r" "rg_session_id r = sid"
    using assms by (auto simp: owner_for_def)
  have "r \<in> set ?xs" using r(1) by (rule min_by_key_in)
  moreover have "?key r \<le> ?key q" if "q \<in> set (am_subtrees m)" "covers q o1" for q
    using min_by_key_le [OF r(1), of q] that by simp
  ultimately show ?thesis using r(2) by auto
qed

lemma owner_for_None: "owner_for m o1 = None \<longleftrightarrow> (\<forall>r\<in>set (am_subtrees m). \<not> covers r o1)"
  by (auto simp: owner_for_def filter_empty_conv)

section \<open>The session table\<close>

text \<open>
  The store holds one object per session ever opened, so its size counts the calls of
  \<open>assign_session\<close>; the statements about session ids hold as long as the 32-bit counter has not
  come round.
\<close>

definition assigned :: "ax_master \<Rightarrow> u32 set" where
  "assigned m = (\<lambda>k. word_of_nat k + FIRST_SESSION_ID) ` {..<card (dom (am_store m))}"

definition sessions_inv :: "ax_master \<Rightarrow> (nat \<rightharpoonup> conn_state) \<Rightarrow> bool" where
  "sessions_inv m cs \<longleftrightarrow>
     dom (am_sessions m) \<subseteq> assigned m \<and>
     (\<forall>sid c. am_sessions m sid = Some c \<longleftrightarrow> cs c = Some (CRun sid) \<or> cs c = Some (CFailed sid)) \<and>
     (\<forall>r\<in>set (am_subtrees m). rg_session_id r \<in> dom (am_sessions m))"

definition subtrees_sorted :: "ax_master \<Rightarrow> bool" where
  "subtrees_sorted m \<longleftrightarrow> sorted (map (\<lambda>a. (rg_subtree a, rg_priority a)) (am_subtrees m))"

definition master_inv :: "ax_master \<Rightarrow> (nat \<rightharpoonup> conn_state) \<Rightarrow> bool" where
  "master_inv m cs \<longleftrightarrow>
     finite (dom (am_store m)) \<and> (\<forall>c\<in>dom (am_store m). cs c \<notin> {None, Some CStart}) \<and>
     am_next_session_id m = word_of_nat (card (dom (am_store m))) + FIRST_SESSION_ID \<and>
     subtrees_sorted m \<and> (card (dom (am_store m)) \<le> 2 ^ 32 \<longrightarrow> sessions_inv m cs)"

lemma word_of_nat_less_inj:
  assumes "word_of_nat i = (word_of_nat j :: u32)" "i < 2 ^ 32" "j < 2 ^ 32"
  shows "i = j"
proof -
  have "unat (word_of_nat i :: u32) = i" "unat (word_of_nat j :: u32) = j"
    using assms(2,3) by (simp_all add: unat_of_nat)
  then show ?thesis using arg_cong [OF assms(1), of unat] by (elim subst) (rule refl)
qed

lemma next_id_fresh:
  assumes "finite (dom (am_store m))" "card (dom (am_store m)) < 2 ^ 32"
  shows "word_of_nat (card (dom (am_store m))) + FIRST_SESSION_ID \<notin> assigned m"
proof
  assume "word_of_nat (card (dom (am_store m))) + FIRST_SESSION_ID \<in> assigned m"
  then obtain k where k: "k < card (dom (am_store m))"
      "word_of_nat (card (dom (am_store m))) = (word_of_nat k :: u32)"
    by (auto simp: assigned_def)
  from word_of_nat_less_inj [OF k(2) assms(2)] k(1) assms(2) show False by simp
qed

lemma inv_move:
  assumes "master_inv m cs" "cs c = Some (CRun sid)" "st' \<in> {CRun sid, CFailed sid}"
    "am_sessions m' = am_sessions m" "am_next_session_id m' = am_next_session_id m"
    "dom (am_store m') = dom (am_store m)" "subtrees_sorted m'"
    "rg_session_id ` set (am_subtrees m') \<subseteq> insert sid (rg_session_id ` set (am_subtrees m))"
  shows "master_inv m' (cs(c \<mapsto> st'))"
proof -
  have same: "assigned m' = assigned m" by (simp add: assigned_def assms(6))
  have cs: "(cs(c \<mapsto> st')) c' = Some (CRun s) \<or> (cs(c \<mapsto> st')) c' = Some (CFailed s) \<longleftrightarrow>
      cs c' = Some (CRun s) \<or> cs c' = Some (CFailed s)" for c' s
    using assms(2,3) by auto
  have "sessions_inv m' (cs(c \<mapsto> st'))" if inv: "sessions_inv m cs"
    unfolding sessions_inv_def cs same assms(4)
  proof (intro conjI ballI)
    show "rg_session_id r \<in> dom (am_sessions m)" if "r \<in> set (am_subtrees m')" for r
    proof -
      have "am_sessions m sid = Some c" using inv assms(2) by (simp add: sessions_inv_def)
      moreover have "rg_session_id r \<in> insert sid (rg_session_id ` set (am_subtrees m))"
        using assms(8) that by blast
      moreover have "rg_session_id ` set (am_subtrees m) \<subseteq> dom (am_sessions m)"
        using inv unfolding sessions_inv_def by blast
      ultimately show ?thesis by blast
    qed
  qed (use inv in \<open>simp_all add: sessions_inv_def\<close>)
  moreover have "\<forall>c'\<in>dom (am_store m'). (cs(c \<mapsto> st')) c' \<notin> {None, Some CStart}"
    using assms(1,3) by (auto simp: master_inv_def assms(6))
  ultimately show ?thesis using assms(1,5,7) by (simp add: master_inv_def assms(6))
qed

lemma inv_reclaim:
  assumes "master_inv m cs" "cs c = Some (CRun sid)"
  shows "master_inv (reclaim_session m sid) (cs(c \<mapsto> CDone))"
proof -
  have "sessions_inv (reclaim_session m sid) (cs(c \<mapsto> CDone))" if inv: "sessions_inv m cs"
  proof -
    have table: "am_sessions m s = Some c' \<longleftrightarrow> cs c' = Some (CRun s) \<or> cs c' = Some (CFailed s)" for s c'
      using inv by (simp add: sessions_inv_def)
    have only: "c' = c" if "cs c' = Some (CRun sid) \<or> cs c' = Some (CFailed sid)" for c'
      using that assms(2) unfolding table [symmetric] by (metis option.inject table)
    show ?thesis
      using inv assms(2) only table
      by (auto simp: sessions_inv_def reclaim_session_def assigned_def)
  qed
  moreover have "subtrees_sorted (reclaim_session m sid)"
    using assms(1) by (simp add: master_inv_def subtrees_sorted_def reclaim_session_def sorted_filter)
  ultimately show ?thesis using assms by (auto simp: master_inv_def reclaim_session_def)
qed

lemma inv_idle:
  assumes "master_inv m cs" "cs c = Some CStart"
  shows "master_inv m (cs(c \<mapsto> CDone))"
  using assms by (auto simp: master_inv_def sessions_inv_def)

lemma inv_open:
  assumes "master_inv m cs" "cs c = None"
  shows "master_inv m (cs(c \<mapsto> CStart))"
proof -
  have "c \<notin> dom (am_store m)" using assms unfolding master_inv_def by blast
  then show ?thesis using assms by (auto simp: master_inv_def sessions_inv_def)
qed

lemma inv_assign:
  assumes "master_inv m cs" "cs c = Some CStart"
    "fst (snd (assign_session m c req subid ok)) = st'"
  shows "master_inv (fst (assign_session m c req subid ok)) (cs(c \<mapsto> st'))"
proof -
  define sid where "sid = am_next_session_id m"
  define m' where "m' = fst (assign_session m c req subid ok)"
  have st': "st' \<in> {CRun sid, CFailed sid}"
    using assms(3) by (auto simp: assign_session_def Let_def send_response_def sid_def
        split: option.splits if_splits)
  have m': "am_sessions m' = (am_sessions m)(sid \<mapsto> c)" "am_subtrees m' = am_subtrees m"
    "am_next_session_id m' = sid + 1" "dom (am_store m') = insert c (dom (am_store m))"
    by (simp_all add: m'_def assign_session_def Let_def sid_def)
  have fresh: "c \<notin> dom (am_store m)" using assms(1,2) unfolding master_inv_def by blast
  have fin: "finite (dom (am_store m))" and
    sid: "sid = word_of_nat (card (dom (am_store m))) + FIRST_SESSION_ID"
    using assms(1) by (simp_all add: master_inv_def sid_def)
  have card: "card (dom (am_store m')) = Suc (card (dom (am_store m)))"
    unfolding m'(4) using fresh fin by simp
  have "sessions_inv m' (cs(c \<mapsto> st'))" if le: "card (dom (am_store m')) \<le> 2 ^ 32"
  proof -
    have inv: "sessions_inv m cs" using assms(1) le unfolding card by (simp add: master_inv_def)
    have "sid \<notin> dom (am_sessions m)"
      using inv next_id_fresh [OF fin] le unfolding card sid by (auto simp: sessions_inv_def)
    then have "am_sessions m' s = Some c' \<longleftrightarrow>
        (cs(c \<mapsto> st')) c' = Some (CRun s) \<or> (cs(c \<mapsto> st')) c' = Some (CFailed s)" for s c'
      using inv assms(2) st' unfolding m' by (auto simp: sessions_inv_def)
    moreover have "assigned m' = insert sid (assigned m)"
      by (simp add: assigned_def card lessThan_Suc sid)
    ultimately show ?thesis using inv unfolding m' sessions_inv_def by auto
  qed
  moreover have "\<forall>c'\<in>dom (am_store m'). (cs(c \<mapsto> st')) c' \<notin> {None, Some CStart}"
    using assms(1) st' unfolding m'(4) by (auto simp: master_inv_def)
  ultimately show ?thesis
    using assms(1) fin fresh unfolding m'_def [symmetric]
    by (simp add: master_inv_def m' card sid subtrees_sorted_def)
qed

section \<open>Every step keeps the session table\<close>

lemma send_response_state: "fst (send_response sid req err vbs ok) \<in> {CRun sid, CFailed sid}"
  by (simp add: send_response_def split: option.split)

lemma ack_pdu_simps [simp]:
  "cr_master (ack_pdu m sid req ok) = m" "cr_delivered (ack_pdu m sid req ok) = None"
  "cr_state (ack_pdu m sid req ok) = fst (send_response sid req AxNoError [] ok)"
  "cr_out (ack_pdu m sid req ok) = snd (send_response sid req AxNoError [] ok)"
  by (simp_all add: ack_pdu_def split: prod.split)

lemma quiet_simps [simp]:
  "cr_master (quiet m st) = m" "cr_delivered (quiet m st) = None" "cr_state (quiet m st) = st" "cr_out (quiet m st) = []"
  by (simp_all add: quiet_def)

lemma route_response_simps [simp]:
  "am_sessions (fst (route_response m c req resp)) = am_sessions m"
  "am_subtrees (fst (route_response m c req resp)) = am_subtrees m"
  "am_next_session_id (fst (route_response m c req resp)) = am_next_session_id m"
  "dom (am_store (fst (route_response m c req resp))) = dom (am_store m)"
  by (auto simp: route_response_def split: option.splits)

lemma add_registration_simps [simp]:
  "am_sessions (add_registration m sid r) = am_sessions m"
  "am_next_session_id (add_registration m sid r) = am_next_session_id m"
  "am_store (add_registration m sid r) = am_store m"
  "subtrees_sorted (add_registration m sid r)"
  "rg_session_id ` set (am_subtrees (add_registration m sid r)) = insert sid (rg_session_id ` set (am_subtrees m))"
  by (simp_all add: add_registration_def Let_def subtrees_sorted_def)

lemma remove_registration_simps [simp]:
  "am_sessions (remove_registration m sid t) = am_sessions m"
  "am_next_session_id (remove_registration m sid t) = am_next_session_id m"
  "am_store (remove_registration m sid t) = am_store m"
  "subtrees_sorted m \<Longrightarrow> subtrees_sorted (remove_registration m sid t)"
  by (simp_all add: remove_registration_def subtrees_sorted_def sorted_filter)

lemma master_inv_sorted: "master_inv m cs \<Longrightarrow> subtrees_sorted m"
  by (simp add: master_inv_def)

lemma inv_ack:
  assumes "master_inv m cs" "cs c = Some (CRun sid)" "m' = m \<or> m' = add_registration m sid r \<or> m' = remove_registration m sid t"
  shows "master_inv (cr_master (ack_pdu m' sid req ok)) (cs(c \<mapsto> cr_state (ack_pdu m' sid req ok)))"
proof (rule inv_move [OF assms(1,2)])
  show "cr_state (ack_pdu m' sid req ok) \<in> {CRun sid, CFailed sid}" by (simp add: send_response_state del: insert_iff)
  show "rg_session_id ` set (am_subtrees (cr_master (ack_pdu m' sid req ok)))
     \<subseteq> insert sid (rg_session_id ` set (am_subtrees m))"
    using assms(3) by (elim disjE) (auto simp: remove_registration_def)
qed (use assms(3) master_inv_sorted [OF assms(1)] in auto)

lemma handle_session_pdu_inv:
  assumes "master_inv m cs" "cs c = Some (CRun sid)"
  shows "master_inv (cr_master (handle_session_pdu m c sid p ok))
    (cs(c \<mapsto> cr_state (handle_session_pdu m c sid p ok)))"
proof -
  have same: "master_inv m (cs(c \<mapsto> CRun sid))" using assms by (simp add: fun_upd_idem)
  have routed: "master_inv (fst (route_response m c req resp)) (cs(c \<mapsto> CRun sid))" for req resp
    by (rule inv_move [OF assms])
       (use master_inv_sorted [OF assms(1)] in \<open>auto simp: subtrees_sorted_def\<close>)
  note kept = inv_ack [OF assms disjI1 [OF refl]] inv_ack [OF assms disjI2 [OF disjI1 [OF refl]]]
    inv_ack [OF assms disjI2 [OF disjI2 [OF refl]]]
  show ?thesis
    by (cases "axp_body p")
       (use kept same routed inv_reclaim [OF assms] in
        \<open>simp_all add: handle_session_pdu_def case_prod_unfold Let_def\<close>)
qed

lemma handle_read_inv:
  assumes "master_inv m cs" "cs c = Some st"
  shows "master_inv (cr_master (handle_read m c st rd ok)) (cs(c \<mapsto> cr_state (handle_read m c st rd ok)))"
proof (cases st)
  case CStart
  note idle = inv_idle [OF assms(1) assms(2) [unfolded CStart]]
  note assign = inv_assign [OF assms(1) assms(2) [unfolded CStart] refl]
  show ?thesis
  proof (cases rd)
    case (Some p)
    then show ?thesis using idle assign
      by (cases "axp_body p") (simp_all add: CStart handle_read_def case_prod_unfold Let_def)
  qed (use idle in \<open>simp add: CStart handle_read_def\<close>)
next
  case (CRun sid)
  then show ?thesis
    using handle_session_pdu_inv [of m cs c sid] inv_reclaim [of m cs c sid] assms
    by (cases rd) (simp_all add: handle_read_def)
qed (use assms in \<open>simp_all add: handle_read_def fun_upd_idem\<close>)

section \<open>Reachable states\<close>

definition conn_states :: "ax_system \<Rightarrow> nat \<rightharpoonup> conn_state" where
  "conn_states s = map_option cn_state \<circ> sy_conns s"

lemma conn_states_upd [simp]:
  "conn_states (s\<lparr>sy_conns := (sy_conns s)(c \<mapsto> cn)\<rparr>) = (conn_states s)(c \<mapsto> cn_state cn)"
  "conn_states (s\<lparr>sy_fwds := fs\<rparr>) = conn_states s" "conn_states (s\<lparr>sy_master := m\<rparr>) = conn_states s"
  "conn_states (s\<lparr>sy_master := m, sy_conns := (sy_conns s)(c \<mapsto> cn), sy_fwds := fs\<rparr>) =
     (conn_states s)(c \<mapsto> cn_state cn)"
  "conn_states (s\<lparr>sy_master := m, sy_conns := (sy_conns s)(c \<mapsto> cn)\<rparr>) = (conn_states s)(c \<mapsto> cn_state cn)"
  "conn_states (s\<lparr>sy_master := m, sy_fwds := fs\<rparr>) = conn_states s"
  by (auto simp: conn_states_def fun_eq_iff)

lemma conn_states_same: "sy_conns s c = Some cn \<Longrightarrow> (conn_states s)(c \<mapsto> cn_state cn) = conn_states s"
  by (auto simp: conn_states_def fun_eq_iff)

text \<open>Only the store changes when a forwarder sends or gives up, and not which sessions it holds.\<close>

lemma master_inv_store:
  assumes "master_inv m cs" "am_sessions m' = am_sessions m" "am_subtrees m' = am_subtrees m"
    "am_next_session_id m' = am_next_session_id m" "dom (am_store m') = dom (am_store m)"
  shows "master_inv m' cs"
  using assms by (simp add: master_inv_def sessions_inv_def subtrees_sorted_def assigned_def)

lemma exchange_store:
  "exchange_send m f req sid c ok = (m', st, bytes) \<Longrightarrow> am_sessions m' = am_sessions m \<and>
     am_subtrees m' = am_subtrees m \<and> am_next_session_id m' = am_next_session_id m \<and> dom (am_store m') = dom (am_store m)"
  "am_sessions (exchange_timeout m c pid) = am_sessions m"
  "am_subtrees (exchange_timeout m c pid) = am_subtrees m"
  "am_next_session_id (exchange_timeout m c pid) = am_next_session_id m"
  "dom (am_store (exchange_timeout m c pid)) = dom (am_store m)"
  by (auto simp: exchange_send_def exchange_timeout_def next_packet_def Let_def
      split: option.splits if_splits)

interpretation session_table: step_invariant "\<lambda>s. s = system_init" ax_step
  "\<lambda>s. master_inv (sy_master s) (conn_states s)"
proof
  fix s :: ax_system
  assume "s = system_init"
  then show "master_inv (sy_master s) (conn_states s)"
    by (simp add: system_init_def master_new_def master_inv_def sessions_inv_def subtrees_sorted_def
        conn_states_def)
next
  fix s t
  assume "ax_step s t" "master_inv (sy_master s) (conn_states s)"
  then show "master_inv (sy_master t) (conn_states t)"
  proof cases
    case (accept c)
    then show ?thesis using \<open>master_inv _ _\<close> by (simp add: inv_open conn_states_def)
  next
    case (serve c cn rd rest r ok)
    then show ?thesis
      using handle_read_inv [OF \<open>master_inv _ _\<close>, of c "cn_state cn" rd ok]
      by (simp add: conn_after_def conn_states_def)
  next
    case (send f req sid c cn ok m' st bytes)
    then show ?thesis
      using \<open>master_inv _ _\<close> exchange_store(1) [of "sy_master s" f req sid c ok m' st bytes]
      by (simp add: conn_states_same) (rule master_inv_store, auto)
  next
    case (expired f req c pid)
    then show ?thesis using \<open>master_inv _ _\<close> by (simp add: master_inv_store exchange_store)
  qed (use \<open>master_inv _ _\<close> in \<open>simp_all add: conn_states_same\<close>)
qed

section \<open>Who receives a response\<close>

definition pend :: "ax_master \<Rightarrow> nat \<Rightarrow> u32 \<Rightarrow> nat option" where
  "pend m c pid = (case am_store m c of None \<Rightarrow> None | Some ss \<Rightarrow> pending ss pid)"

text \<open>
  A pending entry belongs to the forwarder that waits for exactly that packet on that connection;
  an entry whose forwarder has returned (a failed write leaves one behind) is harmless.
\<close>

fun entry_ok :: "fwd_state \<Rightarrow> nat \<Rightarrow> u32 \<Rightarrow> bool" where
  "entry_ok (FReady req sid c') c pid \<longleftrightarrow> False"
| "entry_ok (FWait req c' pid' inbox) c pid \<longleftrightarrow> c' = c \<and> pid' = pid \<and> inbox = None"
| "entry_ok _ c pid \<longleftrightarrow> True"

fun inbox_ok :: "fwd_state \<Rightarrow> bool" where
  "inbox_ok (FWait req c pid (Some p)) \<longleftrightarrow> ax_packet_id (axp_header p) = pid \<and> (\<exists>r. axp_body p = BResponse r)"
| "inbox_ok _ \<longleftrightarrow> True"

definition forward_inv :: "ax_master \<Rightarrow> (nat \<rightharpoonup> fwd_state) \<Rightarrow> bool" where
  "forward_inv m fs \<longleftrightarrow>
     (\<forall>c pid f. pend m c pid = Some f \<longrightarrow> (\<exists>st. fs f = Some st \<and> entry_ok st c pid)) \<and>
     (\<forall>f st. fs f = Some st \<longrightarrow> inbox_ok st)"

lemma pend_frame [simp]:
  "pend (add_registration m sid r) = pend m" "pend (remove_registration m sid t) = pend m"
  "pend (reclaim_session m sid) = pend m"
  by (auto simp: pend_def fun_eq_iff reclaim_session_def)

lemma pend_assign: "pend (fst (assign_session m c req subid ok)) c' pid = (if c' = c then None else pend m c' pid)"
  by (simp add: pend_def assign_session_def Let_def)

lemma pend_route:
  "pend (fst (route_response m c req resp)) c' pid =
     (if c' = c \<and> pid = ax_packet_id req then None else pend m c' pid)"
  "snd (route_response m c req resp) =
     map_option (\<lambda>f. (f, \<lparr>axp_header = req, axp_body = BResponse resp\<rparr>)) (pend m c (ax_packet_id req))"
  by (auto simp: pend_def route_response_def split: option.splits)

text \<open>A read delivers only what the pending table of its own connection names, and takes it out.\<close>

lemma handle_read_pending:
  assumes r_def: "r = handle_read m c st rd ok"
  shows "pend (cr_master r) c' pid = Some f \<Longrightarrow> pend m c' pid = Some f \<and>
       (\<forall>g p. cr_delivered r = Some (g, p) \<longrightarrow> \<not> (c' = c \<and> pid = ax_packet_id (axp_header p)))"
    and "cr_delivered r = Some (f, p) \<Longrightarrow>
       pend m c (ax_packet_id (axp_header p)) = Some f \<and> (\<exists>b. axp_body p = BResponse b)"
  unfolding r_def handle_read_def handle_session_pdu_def
  by (auto simp: Let_def case_prod_unfold pend_assign pend_route
      split: conn_state.splits option.splits pdu_body.splits if_splits)

lemma forward_inv_deliver:
  assumes inv: "forward_inv m fs"
  shows "forward_inv (cr_master (handle_read m c st rd ok)) (deliver fs (cr_delivered (handle_read m c st rd ok)))"
proof (cases "cr_delivered (handle_read m c st rd ok)")
  case None
  then show ?thesis
    using inv handle_read_pending(1) [OF refl, of m c st rd ok] unfolding forward_inv_def deliver_def by simp
next
  case (Some gp)
  then obtain g p where d: "cr_delivered (handle_read m c st rd ok) = Some (g, p)" by (cases gp) auto
  let ?fs = "deliver fs (Some (g, p))"
  obtain b where g: "pend m c (ax_packet_id (axp_header p)) = Some g" and b: "axp_body p = BResponse b"
    using handle_read_pending(2) [OF refl d] by blast
  then obtain sg where sg: "fs g = Some sg" "entry_ok sg c (ax_packet_id (axp_header p))"
    using inv unfolding forward_inv_def by blast
  have other: "?fs h = fs h" if "h \<noteq> g" for h
    using that by (auto simp: deliver_def split: option.splits fwd_state.splits)
  have at_g: "inbox_ok st' \<and> (entry_ok sg c' pid \<and> \<not> (c' = c \<and> pid = ax_packet_id (axp_header p)) \<longrightarrow> entry_ok st' c' pid)"
    if "?fs g = Some st'" for st' c' pid
    using that sg b inv
    by (cases sg) (auto simp: deliver_def forward_inv_def split: option.splits)
  have "\<exists>st'. ?fs g = Some st'" using sg(1) by (auto simp: deliver_def split: option.splits fwd_state.splits)
  then have "\<exists>st'. ?fs h = Some st' \<and> entry_ok st' c' pid"
    if "pend (cr_master (handle_read m c st rd ok)) c' pid = Some h" for c' pid h
    using handle_read_pending(1) [OF refl that] d inv other [of h] at_g sg(1) unfolding forward_inv_def
    by (cases "h = g") (metis option.inject)+
  moreover have "inbox_ok st'" if "?fs h = Some st'" for h st'
    using that other [of h] at_g inv unfolding forward_inv_def by (cases "h = g") auto
  ultimately show ?thesis unfolding forward_inv_def d by blast
qed

lemma forward_inv_send:
  assumes "forward_inv m fs" "fs f = Some (FReady req sid c)" "exchange_send m f req sid c ok = (m', st, bytes)"
  shows "forward_inv m' (fs(f \<mapsto> st))"
proof -
  have free: "pend m c' pid \<noteq> Some f" for c' pid
    using assms(1,2) unfolding forward_inv_def by fastforce
  have own: "h = f \<and> entry_ok st c' pid \<or> h \<noteq> f \<and> pend m c' pid = Some h"
    if "pend m' c' pid = Some h" for c' pid h
    using that assms(3) free [of c' pid]
    by (auto simp: exchange_send_def next_packet_def pend_def Let_def split: option.splits if_splits)
  have "\<exists>st'. (fs(f \<mapsto> st)) h = Some st' \<and> entry_ok st' c' pid" if "pend m' c' pid = Some h" for c' pid h
    using own [OF that] assms(1) unfolding forward_inv_def by (cases "h = f") simp_all
  moreover have "inbox_ok st"
    using assms(3) by (auto simp: exchange_send_def next_packet_def Let_def split: option.splits if_splits)
  ultimately show ?thesis using assms(1) unfolding forward_inv_def by simp
qed

lemma pend_timeout: "pend (exchange_timeout m c pid) c' pid' = Some f \<Longrightarrow> pend m c' pid' = Some f"
  by (auto simp: pend_def exchange_timeout_def split: option.splits if_splits)

interpretation forwarding: step_invariant "\<lambda>s. s = system_init" ax_step
  "\<lambda>s. forward_inv (sy_master s) (sy_fwds s)"
proof
  fix s :: ax_system
  assume "s = system_init"
  then show "forward_inv (sy_master s) (sy_fwds s)"
    by (simp add: system_init_def master_new_def forward_inv_def pend_def)
next
  fix s t
  assume "ax_step s t" "forward_inv (sy_master s) (sy_fwds s)"
  then show "forward_inv (sy_master t) (sy_fwds t)"
  proof cases
    case (serve c cn rd rest r ok)
    then show ?thesis using forward_inv_deliver [OF \<open>forward_inv _ _\<close>, of c "cn_state cn" rd ok] by simp
  next
    case (forward f req)
    then show ?thesis using \<open>forward_inv _ _\<close>
      by (fastforce simp: forward_inv_def forward_lookup_def split: option.splits)
  next
    case (send f req sid c cn ok m' st bytes)
    then show ?thesis using forward_inv_send [OF \<open>forward_inv _ _\<close>, of f req sid c ok m' st bytes] by simp
  next
    case (expired f req c pid)
    then show ?thesis using \<open>forward_inv _ _\<close>
      by (fastforce simp: forward_inv_def dest: pend_timeout)
  qed (use \<open>forward_inv _ _\<close> in \<open>fastforce simp: forward_inv_def\<close>)+
qed

section \<open>Framing\<close>

lemma read_pdu_frame:
  assumes "body_wire (axp_body p)"
  shows "\<exists>bytes. encode_pdu p = Some bytes \<and> 20 \<le> length bytes \<and>
    (length bytes < 2 ^ 32 \<longrightarrow> (\<forall>rest. read_pdu (bytes @ rest) = ReadOk (received_pdu p (length bytes - 20)) rest))"
proof -
  obtain bytes where b: "encode_pdu p = Some bytes" "20 \<le> length bytes"
      "decode_pdu bytes = Ok (received_pdu p (length bytes - 20))"
      "decode_header (take 20 bytes) = Ok (axp_header (received_pdu p (length bytes - 20)), [])"
    using pdu_transfer [OF assms] by (elim exE conjE)
  have "read_pdu (bytes @ rest) = ReadOk (received_pdu p (length bytes - 20)) rest"
    if "length bytes < 2 ^ 32" for rest
  proof -
    have n: "unat (ax_payload_length (axp_header (received_pdu p (length bytes - 20)))) = length bytes - 20"
      using that by (simp add: received_pdu_def unat_of_nat)
    show ?thesis using b(2-4) by (simp add: read_pdu_def Let_def n)
  qed
  with b(1,2) show ?thesis by blast
qed

section \<open>A run with one registered subagent\<close>

definition demo_open :: ax_pdu where
  "demo_open = \<lparr>axp_header = default_header, axp_body = BOpen \<lparr>open_timeout = 5, open_id = null_oid, open_descr = []\<rparr>\<rparr>"

definition demo_register :: "oid \<Rightarrow> ax_pdu" where
  "demo_register t = \<lparr>axp_header = default_header, axp_body = BRegister \<lparr>reg_timeout = 5, reg_priority = 127,
     reg_range_subid = 0, reg_subtree = t, reg_range_bound = null_oid, reg_context = None\<rparr>\<rparr>"

lemma demo_frames:
  "\<exists>b. \<forall>rest. read_pdu (b @ rest) = ReadOk (received_pdu demo_open (length b - 20)) rest"
  "\<exists>b. \<forall>rest. read_pdu (b @ rest) = ReadOk (received_pdu (demo_register (Oid [1, 3])) (length b - 20)) rest"
proof -
  have w: "body_wire (axp_body demo_open)" "body_wire (axp_body (demo_register (Oid [1, 3])))"
    by (simp_all add: demo_open_def demo_register_def oid_wire_def text_wire_def registration_wire_def null_oid_def
        internet_prefix_def valid_string_def as_bytes_def valid_utf8.simps)
  have small: "length b < 2 ^ 32"
    if "encode_pdu demo_open = Some b \<or> encode_pdu (demo_register (Oid [1, 3])) = Some b" for b
    using that
    by (auto simp: demo_open_def demo_register_def encode_pdu_def Let_def append_oid_def encode_oid_bytes_with_def
        encode_registration_def null_oid_def internet_prefix_def append_counted_def pad4_def write_u32_def as_bytes_def packed_oid_def)
  show "\<exists>b. \<forall>rest. read_pdu (b @ rest) = ReadOk (received_pdu demo_open (length b - 20)) rest"
    using read_pdu_frame [OF w(1)] small by blast
  show "\<exists>b. \<forall>rest. read_pdu (b @ rest) = ReadOk (received_pdu (demo_register (Oid [1, 3])) (length b - 20)) rest"
    using read_pdu_frame [OF w(2)] small by blast
qed

lemma serve_step:
  assumes "sy_conns s c = Some cn" "read_pdu (cn_in cn) = ReadOk p rest"
    "handle_read (sy_master s) c (cn_state cn) (Some p) ok = r"
  shows "ax_step s (s\<lparr>sy_master := cr_master r, sy_conns := (sy_conns s)(c \<mapsto> conn_after cn r rest),
     sy_fwds := deliver (sy_fwds s) (cr_delivered r)\<rparr>)"
  using ax_step.serve [OF assms(1) _ refl, of "Some p" rest ok] assms(2,3) by (simp add: poll_read_def)

lemma ack_written: "send_response sid req AxNoError [] True = (CRun sid, the (encode_pdu (ax_response req sid AxNoError [])))"
  by (simp add: send_response_def ax_response_def encode_pdu_def Let_def)

lemma demo_run:
  "\<exists>s. ax_reachable s \<and> dom (am_store (sy_master s)) = {0} \<and> conn_states s 0 = Some (CRun 1) \<and> sy_fwds s = Map.empty \<and>
     am_sessions (sy_master s) 1 = Some 0 \<and>
     am_subtrees (sy_master s) = [\<lparr>rg_subtree = Oid [1, 3], rg_range_end = null_oid, rg_session_id = 1, rg_priority = 127\<rparr>]"
proof -
  obtain b1 b2 where b: "\<And>rest. read_pdu (b1 @ rest) = ReadOk (received_pdu demo_open (length b1 - 20)) rest"
      "\<And>rest. read_pdu (b2 @ rest) = ReadOk (received_pdu (demo_register (Oid [1, 3])) (length b2 - 20)) rest"
    using demo_frames by blast
  let ?p1 = "received_pdu demo_open (length b1 - 20)" and ?p2 = "received_pdu (demo_register (Oid [1, 3])) (length b2 - 20)"
  define s1 where "s1 = system_init\<lparr>sy_conns := (sy_conns system_init)(0 \<mapsto>
    \<lparr>cn_state = CStart, cn_in = [], cn_eof = False, cn_out = []\<rparr>)\<rparr>"
  define s2 where "s2 = s1\<lparr>sy_conns := (sy_conns s1)(0 \<mapsto>
    \<lparr>cn_state = CStart, cn_in = b1 @ b2, cn_eof = False, cn_out = []\<rparr>)\<rparr>"
  define r3 where "r3 = handle_read (sy_master s2) 0 CStart (Some ?p1) True"
  define cn3 where "cn3 = conn_after \<lparr>cn_state = CStart, cn_in = b1 @ b2, cn_eof = False, cn_out = []\<rparr> r3 b2"
  define s3 where "s3 = s2\<lparr>sy_master := cr_master r3, sy_conns := (sy_conns s2)(0 \<mapsto> cn3), sy_fwds := deliver (sy_fwds s2) (cr_delivered r3)\<rparr>"
  define r4 where "r4 = handle_read (sy_master s3) 0 (CRun 1) (Some ?p2) True"
  define s4 where "s4 = s3\<lparr>sy_master := cr_master r4, sy_conns := (sy_conns s3)(0 \<mapsto> conn_after cn3 r4 []),
    sy_fwds := deliver (sy_fwds s3) (cr_delivered r4)\<rparr>"
  have r3: "cr_state r3 = CRun 1" "cr_delivered r3 = None" "dom (am_store (cr_master r3)) = {0}" "am_subtrees (cr_master r3) = []"
      "am_sessions (cr_master r3) 1 = Some 0" "sy_fwds s2 = Map.empty"
    by (simp_all add: r3_def s2_def s1_def system_init_def master_new_def handle_read_def received_pdu_def demo_open_def
        assign_session_def Let_def case_prod_unfold FIRST_SESSION_ID_def ack_written)
  have r4: "cr_state r4 = CRun 1" "cr_delivered r4 = None" "am_sessions (cr_master r4) 1 = Some 0" "dom (am_store (cr_master r4)) = {0}" "am_subtrees (cr_master r4) =
      [\<lparr>rg_subtree = Oid [1, 3], rg_range_end = null_oid, rg_session_id = 1, rg_priority = 127\<rparr>]"
    by (simp_all add: r4_def s3_def handle_read_def handle_session_pdu_def received_pdu_def demo_register_def r3
        ack_written add_registration_def range_end_for_def)
  have "ax_step system_init s1" unfolding s1_def by (rule ax_step.accept) (simp add: system_init_def)
  moreover have "ax_step s1 s2"
    unfolding s2_def using ax_step.receive [of s1 0 "\<lparr>cn_state = CStart, cn_in = [], cn_eof = False, cn_out = []\<rparr>" "b1 @ b2"]
    by (simp add: s1_def)
  moreover have "ax_step s2 s3"
    unfolding s3_def cn3_def by (rule serve_step) (simp_all add: s2_def b r3_def)
  moreover have "ax_step s3 s4"
    unfolding s4_def
    by (rule serve_step) (simp_all add: s3_def cn3_def conn_after_def r3 b(2) [of "[]", simplified] r4_def)
  ultimately have "ax_reachable s4"
    unfolding ax_reachable_def by (meson converse_rtranclp_into_rtranclp rtranclp.rtrancl_refl)
  moreover have "conn_states s4 0 = Some (CRun 1)" by (simp add: s4_def conn_after_def r4)
  moreover have "sy_fwds s4 = Map.empty" by (simp add: s4_def s3_def deliver_def r3 r4)
  ultimately show ?thesis using r4 by (intro exI [of _ s4]) (simp add: s4_def)
qed

section \<open>Properties\<close>

text \<open>Packets sent one after the other on a connection are read back one by one: the reader takes
  exactly the bytes of a packet and leaves the rest of the stream.\<close>

lemma agentx_stream_framing:
  assumes "body_wire (axp_body p)" and "encode_pdu p = Some bytes" and "length bytes < 2 ^ 32"
  shows "read_pdu (bytes @ rest) = ReadOk (received_pdu p (length bytes - 20)) rest"
  using read_pdu_frame [OF assms(1)] assms(2,3) by auto

text \<open>C12: Requests are routed to live sessions: in every reachable state, as long as the 32-bit session
  counter has not come round, the session that owns an OID is in the session table, so the
  forwarder finds it, and its connection either serves it or died in a failed write; a connection
  that was closed or hung up owns nothing.\<close>

theorem agentx_owner_is_open:
  assumes "ax_reachable s" and "card (dom (am_store (sy_master s))) \<le> 2 ^ 32"
    and "owner_for (sy_master s) o1 = Some sid"
  shows "\<exists>c. forward_lookup (sy_master s) (FwdGet o1) = FReady (FwdGet o1) sid c \<and>
    conn_states s c \<in> {Some (CRun sid), Some (CFailed sid)}"
proof -
  have "master_inv (sy_master s) (conn_states s)"
    using session_table.inv_reachable [OF refl] assms(1) unfolding ax_reachable_def .
  then have inv: "sessions_inv (sy_master s) (conn_states s)" using assms(2) by (simp add: master_inv_def)
  obtain r where "r \<in> set (am_subtrees (sy_master s))" "rg_session_id r = sid"
    using owner_for_SomeE [OF assms(3)] by blast
  then obtain c where c: "am_sessions (sy_master s) sid = Some c"
    using inv unfolding sessions_inv_def by blast
  then have "conn_states s c \<in> {Some (CRun sid), Some (CFailed sid)}"
    using inv unfolding sessions_inv_def by blast
  with c show ?thesis by (auto simp: forward_lookup_def assms(3))
qed

theorem agentx_owner_is_open_witness:
  "\<exists>s c. ax_reachable s \<and> forward_lookup (sy_master s) (FwdGet (Oid [1, 3, 6])) = FReady (FwdGet (Oid [1, 3, 6])) 1 c \<and>
    conn_states s c \<in> {Some (CRun 1), Some (CFailed 1)}"
proof -
  obtain s where s: "ax_reachable s" "dom (am_store (sy_master s)) = {0}"
      "am_subtrees (sy_master s) = [\<lparr>rg_subtree = Oid [1, 3], rg_range_end = null_oid, rg_session_id = 1, rg_priority = 127\<rparr>]"
    using demo_run by blast
  have "owner_for (sy_master s) (Oid [1, 3, 6]) = Some 1"
    by (simp add: owner_for_def s(3) covers_def is_prefix_of_def min_by_key_def oid_is_empty_def null_oid_def)
  with agentx_owner_is_open [OF s(1)] s(1,2) show ?thesis by fastforce
qed

text \<open>The owner of an OID is the session of a registration that covers it with the shortest
  registered subtree, the lowest priority among those, and an OID has no owner exactly when no
  registration covers it; so a registration below another one is never reached.\<close>

lemma owner_for_shortest_subtree:
  assumes "r \<in> set (am_subtrees m)" and "covers r o1"
  shows "\<exists>q. q \<in> set (am_subtrees m) \<and> covers q o1 \<and> owner_for m o1 = Some (rg_session_id q) \<and>
    (oid_len (rg_subtree q), rg_priority q) \<le> (oid_len (rg_subtree r), rg_priority r)"
proof -
  have "owner_for m o1 \<noteq> None" using assms by (auto simp: owner_for_None)
  then obtain sid where sid: "owner_for m o1 = Some sid" by blast
  from owner_for_SomeE [OF sid] sid assms show ?thesis by blast
qed

text \<open>Two subagents: one registers \<open>1.3\<close>, the other \<open>1.3.6\<close> with a better priority; the first gets \<open>1.3.6.9\<close>.\<close>

text \<open>When a session is reclaimed it owns nothing any more, and every OID that another session
  owned keeps its owner.\<close>

lemma reclaim_releases_only_own:
  "owner_for (reclaim_session m sid) o1 \<noteq> Some sid \<and>
   (owner_for m o1 = Some sid \<or> owner_for (reclaim_session m sid) o1 = owner_for m o1)"
proof -
  let ?key = "\<lambda>r. (oid_len (rg_subtree r), rg_priority r)"
  let ?xs = "filter (\<lambda>r. covers r o1) (am_subtrees m)"
  have kept: "owner_for (reclaim_session m sid) o1 =
      map_option rg_session_id (min_by_key ?key (filter (\<lambda>r. rg_session_id r \<noteq> sid) ?xs))"
    by (simp add: owner_for_def reclaim_session_def conj_commute)
  have "owner_for (reclaim_session m sid) o1 \<noteq> Some sid"
    unfolding kept by (auto dest: min_by_key_in)
  moreover have "owner_for (reclaim_session m sid) o1 = owner_for m o1" if ne: "owner_for m o1 \<noteq> Some sid"
  proof (cases "min_by_key ?key ?xs")
    case None
    then have "filter (\<lambda>r. rg_session_id r \<noteq> sid) ?xs = []" by (simp add: filter_empty_conv)
    with None show ?thesis unfolding kept by (simp add: owner_for_def)
  next
    case (Some r)
    then have "rg_session_id r \<noteq> sid" using ne by (auto simp: owner_for_def)
    from min_by_key_filter [OF Some, of "\<lambda>r. rg_session_id r \<noteq> sid", OF this] Some show ?thesis
      unfolding kept by (simp add: owner_for_def)
  qed
  ultimately show ?thesis by blast
qed

text \<open>A registration changes the owner only of OIDs under its own subtree: a range registration
  never serves the sub-identifiers of its range above the first one.\<close>

lemma range_registration_stays_below_subtree:
  assumes "subtrees_sorted m" and "owner_for (add_registration m sid r) o1 \<noteq> owner_for m o1"
  shows "is_prefix_of (reg_subtree r) o1"
proof (rule ccontr)
  assume no: "\<not> is_prefix_of (reg_subtree r) o1"
  let ?key = "\<lambda>a. (rg_subtree a, rg_priority a)"
  have "filter (\<lambda>q. covers q o1) (am_subtrees (add_registration m sid r)) =
      sort_key ?key (filter (\<lambda>q. covers q o1) (am_subtrees m))"
    using no by (simp add: add_registration_def Let_def filter_sort covers_def)
  also have "\<dots> = filter (\<lambda>q. covers q o1) (am_subtrees m)"
    using assms(1) by (intro sort_key_id_if_sorted) (simp add: subtrees_sorted_def sorted_filter)
  finally show False using assms(2) by (simp add: owner_for_def)
qed

text \<open>Registering \<open>1.3.6.2\<close> to \<open>1.3.6.7\<close> (a range over the fourth sub-identifier) serves \<open>1.3.6.2.1\<close>.\<close>

text \<open>C13: A response reaches only the forwarder that waits for it: in every reachable state, what a read
  on a connection delivers goes to a forwarder that waits on that connection for the packet id of
  the response and has not been answered, or to one that has already returned.\<close>

theorem response_reaches_its_forwarder:
  assumes "ax_reachable s" and "cr_delivered (handle_read (sy_master s) c st rd ok) = Some (f, p)"
  shows "\<exists>fst. sy_fwds s f = Some fst \<and> entry_ok fst c (ax_packet_id (axp_header p))"
proof -
  have "forward_inv (sy_master s) (sy_fwds s)"
    using forwarding.inv_reachable [OF refl] assms(1) unfolding ax_reachable_def .
  moreover have "pend (sy_master s) c (ax_packet_id (axp_header p)) = Some f"
    using handle_read_pending(2) [OF refl assms(2)] by blast
  ultimately show ?thesis unfolding forward_inv_def by blast
qed

theorem response_reaches_its_forwarder_witness:
  "\<exists>s pid p. ax_reachable s \<and> cr_delivered (handle_read (sy_master s) 0 (CRun 1) (Some p) True) = Some (7, p) \<and>
     (\<exists>fst. sy_fwds s 7 = Some fst \<and> entry_ok fst 0 (ax_packet_id (axp_header p)))"
proof -
  obtain s where s: "ax_reachable s" "dom (am_store (sy_master s)) = {0}" "conn_states s 0 = Some (CRun 1)"
      "sy_fwds s = Map.empty" "am_sessions (sy_master s) 1 = Some 0"
      "am_subtrees (sy_master s) = [\<lparr>rg_subtree = Oid [1, 3], rg_range_end = null_oid, rg_session_id = 1, rg_priority = 127\<rparr>]"
    using demo_run by blast
  have "0 \<in> dom (am_store (sy_master s))" unfolding s(2) by simp
  then obtain ss cn where ss: "am_store (sy_master s) 0 = Some ss" "sy_conns s 0 = Some cn"
    using s(3) by (auto simp: conn_states_def)
  let ?req = "FwdGet (Oid [1, 3, 6])"
  let ?p = "ax_response (default_header\<lparr>ax_packet_id := next_packet_id ss + 1\<rparr>) 1 AxNoError []"
  define s1 where "s1 = s\<lparr>sy_fwds := (sy_fwds s)(7 \<mapsto> forward_lookup (sy_master s) ?req)\<rparr>"
  obtain m st bytes where sent: "exchange_send (sy_master s1) 7 ?req 1 0 True = (m, st, bytes)"
    by (rule prod_cases3)
  define s2 where "s2 = s1\<lparr>sy_master := m, sy_conns := (sy_conns s1)(0 \<mapsto> cn\<lparr>cn_out := cn_out cn @ bytes\<rparr>),
    sy_fwds := (sy_fwds s1)(7 \<mapsto> st)\<rparr>"
  have "forward_lookup (sy_master s) ?req = FReady ?req 1 0"
    by (simp add: forward_lookup_def owner_for_def s(5,6) covers_def is_prefix_of_def min_by_key_def oid_is_empty_def
        null_oid_def)
  then have "sy_fwds s1 7 = Some (FReady ?req 1 0)" by (simp add: s1_def)
  then have "ax_step s1 s2"
    unfolding s2_def by (rule ax_step.send) (use sent ss(2) in \<open>simp_all add: s1_def\<close>)
  moreover have "ax_step s s1" unfolding s1_def by (rule ax_step.forward) (simp add: s(4))
  ultimately have reach: "ax_reachable s2"
    using s(1) unfolding ax_reachable_def by (meson rtranclp.rtrancl_into_rtrancl)
  have "pend m 0 (next_packet_id ss + 1) = Some 7"
    using sent ss(1) by (auto simp: s1_def exchange_send_def next_packet_def pend_def Let_def
        split: option.splits if_splits)
  then have d: "cr_delivered (handle_read (sy_master s2) 0 (CRun 1) (Some ?p) True) = Some (7, ?p)"
    by (simp add: s2_def handle_read_def handle_session_pdu_def case_prod_unfold Let_def pend_route ax_response_def)
  from response_reaches_its_forwarder [OF reach d] reach d show ?thesis by blast
qed

text \<open>A connection whose answer to a Register cannot be written ends without reclaiming: the
  session and the new registration stay in the tables, and no later read of that connection
  removes them.\<close>

lemma failed_write_keeps_registration:
  assumes "axp_body p = BRegister r" and "res = handle_read m c (CRun sid) (Some p) False"
  shows "cr_state res = CFailed sid \<and> am_sessions (cr_master res) = am_sessions m \<and>
    (\<exists>q\<in>set (am_subtrees (cr_master res)). rg_subtree q = reg_subtree r \<and> rg_session_id q = sid) \<and>
    cr_master (handle_read (cr_master res) c (CFailed sid) rd ok) = cr_master res"
  using assms(1) unfolding assms(2)
  by (auto simp: handle_read_def handle_session_pdu_def send_response_def add_registration_def Let_def
      split: option.splits)

end
