(* ===== verification/Agentx_Subagent.thy ===== *)
theory Agentx_Subagent
  imports Agentx_Master
begin

text \<open>
  The AgentX subagent (\<^verbatim>\<open>agentx/subagent.rs\<close>): the packets it sends to open a session, register
  and notify, how it reads the answers, and the loop that serves the requests the master forwards.
  The \<open>SubagentHandler\<close> a user supplies is the parameter \<open>h\<close>; only its \<open>set\<close> changes the
  user's state \<open>'s\<close>.  The last section composes master and subagent into one forwarded request.
\<close>

section \<open>Handlers and packets\<close>

record 's sub_handler =
  sh_get :: "'s \<Rightarrow> oid \<Rightarrow> value option"
  sh_get_next :: "'s \<Rightarrow> oid \<Rightarrow> (oid \<times> value) option"
  sh_set :: "'s \<Rightarrow> oid \<Rightarrow> value \<Rightarrow> 's \<times> (unit, u16) result"

datatype subagent_error = SubIo | SubProtocol | SubAgentx u16 | SubTimeout

definition sub_header :: "ax_pdu_type \<Rightarrow> u32 \<Rightarrow> u32 \<Rightarrow> u8 \<Rightarrow> agentx_header" where
  "sub_header t sid pid timeout =
     \<lparr>ax_version = AX_VERSION, ax_type = ax_type_code t, ax_flags = 0, ax_session_id = sid, ax_transaction_id = 0,
      ax_packet_id = pid, ax_payload_length = 0, ax_timeout = timeout\<rparr>"

definition open_pdu :: ax_pdu where
  "open_pdu =
     \<lparr>axp_header = sub_header TOpen 0 1 30,
      axp_body = BOpen \<lparr>open_timeout = 30, open_id = Oid [1, 3, 6, 1, 4, 1, 8072], open_descr = ''net-snmp-rs subagent''\<rparr>\<rparr>"

definition register_pdu :: "u32 \<Rightarrow> oid \<Rightarrow> u8 \<Rightarrow> ax_pdu" where
  "register_pdu sid subtree priority =
     \<lparr>axp_header = sub_header TRegister sid 2 5,
      axp_body = BRegister \<lparr>reg_timeout = 5, reg_priority = priority, reg_range_subid = 0, reg_subtree = subtree,
        reg_range_bound = null_oid, reg_context = None\<rparr>\<rparr>"

definition notify_pdu :: "u32 \<Rightarrow> agentx_varbind list \<Rightarrow> ax_pdu" where
  "notify_pdu sid vbs =
     \<lparr>axp_header = sub_header TNotify sid 3 0, axp_body = BNotify \<lparr>vbb_context = None, vbb_varbinds = vbs\<rparr>\<rparr>"

definition connect_result :: "ax_pdu \<Rightarrow> (u32, subagent_error) result" where
  "connect_result resp =
     (case axp_body resp of
        BResponse r \<Rightarrow> if resp_error r = 0 then Ok (ax_session_id (axp_header resp)) else Err (SubAgentx (resp_error r))
      | _ \<Rightarrow> Err SubProtocol)"

definition register_result :: "ax_pdu \<Rightarrow> (unit, subagent_error) result" where
  "register_result resp =
     (case axp_body resp of
        BResponse r \<Rightarrow> if resp_error r = 0 then Ok () else Err (SubAgentx (resp_error r))
      | _ \<Rightarrow> Err SubProtocol)"

definition notify_result :: "ax_pdu \<Rightarrow> (unit, subagent_error) result" where
  "notify_result resp =
     (case axp_body resp of
        BResponse r \<Rightarrow> if resp_error r = 0 then Ok () else Err (SubAgentx (resp_error r))
      | _ \<Rightarrow> Ok ())"

definition value_to_varbind :: "oid \<Rightarrow> value \<Rightarrow> agentx_varbind" where
  "value_to_varbind name v = \<lparr>axvb_name = name, axvb_data = value_to_data v\<rparr>"

section \<open>Serving a request\<close>

definition sub_response :: "u16 \<Rightarrow> u16 \<Rightarrow> agentx_varbind list \<Rightarrow> pdu_body" where
  "sub_response err idx vbs = BResponse \<lparr>sys_up_time = 0, resp_error = err, resp_index = idx, resp_varbinds = vbs\<rparr>"

definition null_axvb :: "oid \<Rightarrow> agentx_varbind" where
  "null_axvb name = \<lparr>axvb_name = name, axvb_data = AxNull\<rparr>"

fun get_varbinds :: "'s sub_handler \<Rightarrow> 's \<Rightarrow> nat \<Rightarrow> (oid \<times> oid) list \<Rightarrow> u16 \<Rightarrow> agentx_varbind list \<times> u16" where
  "get_varbinds h st i [] index = ([], index)"
| "get_varbinds h st i ((start, _) # rs) index =
     (case sh_get h st start of
        Some v \<Rightarrow> let (vbs, index) = get_varbinds h st (Suc i) rs index
                  in (value_to_varbind start v # vbs, index)
      | None \<Rightarrow> let (vbs, index) = get_varbinds h st (Suc i) rs (word_of_nat (i + 1))
                 in (null_axvb start # vbs, index))"

definition sub_handle_get :: "'s sub_handler \<Rightarrow> 's \<Rightarrow> search_body \<Rightarrow> pdu_body" where
  "sub_handle_get h st s =
     (let (vbs, index) = get_varbinds h st 0 (search_range s) 0 in sub_response (axerr_code AxNoError) index vbs)"

definition next_varbind :: "'s sub_handler \<Rightarrow> 's \<Rightarrow> oid \<Rightarrow> agentx_varbind" where
  "next_varbind h st start =
     (case sh_get_next h st start of Some (o1, v) \<Rightarrow> value_to_varbind o1 v | None \<Rightarrow> null_axvb start)"

definition sub_handle_get_next :: "'s sub_handler \<Rightarrow> 's \<Rightarrow> search_body \<Rightarrow> pdu_body" where
  "sub_handle_get_next h st s =
     sub_response (axerr_code AxNoError) 0 (map (\<lambda>(start, _). next_varbind h st start) (search_range s))"

fun repeat_next :: "'s sub_handler \<Rightarrow> 's \<Rightarrow> nat \<Rightarrow> oid \<Rightarrow> agentx_varbind list" where
  "repeat_next h st 0 cursor = []"
| "repeat_next h st (Suc n) cursor =
     (case sh_get_next h st cursor of
        Some (o1, v) \<Rightarrow> value_to_varbind o1 v # repeat_next h st n o1
      | None \<Rightarrow> [null_axvb cursor])"

fun bulk_varbinds :: "'s sub_handler \<Rightarrow> 's \<Rightarrow> nat \<Rightarrow> nat \<Rightarrow> nat \<Rightarrow> (oid \<times> oid) list \<Rightarrow> agentx_varbind list" where
  "bulk_varbinds h st non_rep max_rep i [] = []"
| "bulk_varbinds h st non_rep max_rep i ((start, _) # rs) =
     (if i < non_rep then [next_varbind h st start] else repeat_next h st max_rep start)
       @ bulk_varbinds h st non_rep max_rep (Suc i) rs"

definition sub_handle_get_bulk :: "'s sub_handler \<Rightarrow> 's \<Rightarrow> bulk_body \<Rightarrow> pdu_body" where
  "sub_handle_get_bulk h st b =
     sub_response (axerr_code AxNoError) 0
       (bulk_varbinds h st (unat (bb_non_repeaters b)) (unat (bb_max_repetitions b)) 0 (bb_search_range b))"

fun set_varbinds ::
  "'s sub_handler \<Rightarrow> 's \<Rightarrow> nat \<Rightarrow> agentx_varbind list \<Rightarrow> agentx_varbind list \<Rightarrow> 's \<times> pdu_body" where
  "set_varbinds h st i [] applied = (st, sub_response (axerr_code AxNoError) 0 applied)"
| "set_varbinds h st i (vb # vbs) applied =
     (case sh_set h st (axvb_name vb) (data_to_value (axvb_data vb)) of
        (st', Ok _) \<Rightarrow> set_varbinds h st' (Suc i) vbs (applied @ [vb])
      | (st', Err code) \<Rightarrow> (st', sub_response code (word_of_nat (i + 1)) applied))"

definition sub_handle_set :: "'s sub_handler \<Rightarrow> 's \<Rightarrow> vb_body \<Rightarrow> 's \<times> pdu_body" where
  "sub_handle_set h st s = set_varbinds h st 0 (vbb_varbinds s) []"

text \<open>One turn of the loop: the new state and the answer, if the request gets one.\<close>

definition sub_dispatch :: "'s sub_handler \<Rightarrow> 's \<Rightarrow> pdu_body \<Rightarrow> 's \<times> pdu_body option" where
  "sub_dispatch h st body =
     (case body of
        BGet s \<Rightarrow> (st, Some (sub_handle_get h st s))
      | BGetNext s \<Rightarrow> (st, Some (sub_handle_get_next h st s))
      | BGetBulk b \<Rightarrow> (st, Some (sub_handle_get_bulk h st b))
      | BSet s \<Rightarrow> let (st', resp) = sub_handle_set h st s in (st', Some resp)
      | BPing _ \<Rightarrow> (st, Some (sub_response (axerr_code AxNoError) 0 []))
      | BCleanup \<Rightarrow> (st, None)
      | _ \<Rightarrow> (st, Some (sub_response (axerr_code ProcessingError) 0 [])))"

definition sub_reply :: "u32 \<Rightarrow> agentx_header \<Rightarrow> pdu_body \<Rightarrow> ax_pdu" where
  "sub_reply sid req body =
     \<lparr>axp_header = \<lparr>ax_version = AX_VERSION, ax_type = ax_type_code TResponse, ax_flags = ax_flags req,
        ax_session_id = sid, ax_transaction_id = ax_transaction_id req, ax_packet_id = ax_packet_id req,
        ax_payload_length = 0, ax_timeout = 0\<rparr>, axp_body = body\<rparr>"

lemma read_pdu_shorter: "read_pdu stream = ReadOk p rest \<Longrightarrow> length rest < length stream"
  by (auto simp: read_pdu_def Let_def split: if_splits result.splits)

text \<open>The loop over what the master has sent; it ends when the stream does, or in an encoder panic.\<close>

datatype run_end = RunReadEnded | RunPanicked

function sub_run :: "'s sub_handler \<Rightarrow> 's \<Rightarrow> u32 \<Rightarrow> u8 list \<Rightarrow> 's \<times> u8 list \<times> run_end" where
  "sub_run h st sid stream =
     (case read_pdu stream of
        ReadOk req rest \<Rightarrow>
          (case sub_dispatch h st (axp_body req) of
             (st', None) \<Rightarrow> sub_run h st' sid rest
           | (st', Some body) \<Rightarrow>
              (case encode_pdu (sub_reply sid (axp_header req) body) of
                 None \<Rightarrow> (st', [], RunPanicked)
               | Some bytes \<Rightarrow>
                   let (st'', out, e) = sub_run h st' sid rest in (st'', bytes @ out, e)))
      | _ \<Rightarrow> (st, [], RunReadEnded))"
  by pat_completeness auto
termination
  by (relation "measure (\<lambda>(h, st, sid, stream). length stream)") (auto dest: read_pdu_shorter)

declare sub_run.simps [simp del]

section \<open>A forwarded request, end to end\<close>

text \<open>
  The master encodes the request, the subagent serves the bytes, the master reads the answer off
  the stream and hands it to the forwarder.
\<close>

definition forwarded ::
  "'s sub_handler \<Rightarrow> 's \<Rightarrow> u32 \<Rightarrow> u32 \<Rightarrow> forward_req \<Rightarrow> 's \<times> (forward_value, forward_error) result option" where
  "forwarded h st sid pid req =
     (case encode_pdu (forward_pdu req sid pid) of
        None \<Rightarrow> (st, None)
      | Some bytes \<Rightarrow>
          (let (st', out, e) = sub_run h st sid bytes
           in (st', case read_pdu out of ReadOk p rest \<Rightarrow> Some (forward_answer req (axp_body p)) | _ \<Rightarrow> None)))"

definition fits_frame :: "ax_pdu \<Rightarrow> bool" where
  "fits_frame p \<longleftrightarrow> body_wire (axp_body p) \<and> (case encode_pdu p of None \<Rightarrow> False | Some bytes \<Rightarrow> length bytes < 2 ^ 32)"

definition carried :: "value \<Rightarrow> value" where
  "carried v = data_to_value (value_to_data v)"

lemma fits_frame_read:
  assumes "fits_frame p"
  shows "\<exists>bytes n. encode_pdu p = Some bytes \<and> (\<forall>rest. read_pdu (bytes @ rest) = ReadOk (received_pdu p n) rest)"
  using assms read_pdu_frame [of p] by (auto simp: fits_frame_def)

lemma read_pdu_Nil [simp]: "read_pdu [] = ReadShort"
  by (simp add: read_pdu_def)

text \<open>One request and its answer: the subagent sees the decoded request, the master the answer.\<close>

lemma forwarded_eq:
  assumes req: "fits_frame (forward_pdu req sid pid)"
    and disp: "sub_dispatch h st (decoded_body (forward_body req)) = (st', Some body)"
    and resp: "fits_frame (sub_reply sid (axp_header (forward_pdu req sid pid)) body)"
    and isresp: "body = BResponse r"
  shows "forwarded h st sid pid req = (st', Some (forward_answer req body))"
proof -
  let ?p = "forward_pdu req sid pid"
  obtain bytes n where b: "encode_pdu ?p = Some bytes" "\<And>rest. read_pdu (bytes @ rest) = ReadOk (received_pdu ?p n) rest"
    using fits_frame_read [OF req] by blast
  let ?q = "sub_reply sid (axp_header (received_pdu ?p n)) body"
  have q: "?q = sub_reply sid (axp_header ?p) body"
    by (simp add: sub_reply_def received_pdu_def forward_pdu_def)
  obtain out k where o: "encode_pdu ?q = Some out" "\<And>rest. read_pdu (out @ rest) = ReadOk (received_pdu ?q k) rest"
    using fits_frame_read [OF resp] unfolding q by blast
  have d: "sub_dispatch h st (axp_body (received_pdu ?p n)) = (st', Some body)"
    using disp by (simp add: received_pdu_def forward_pdu_def)
  have "sub_run h st sid bytes = (st', out, RunReadEnded)"
    using b(2) [of "[]"] d o(1) by (simp add: sub_run.simps [of h st sid bytes] sub_run.simps [of h st' sid "[]"])
  then show ?thesis using b(1) o(2) [of "[]"] isresp by (simp add: forwarded_def received_pdu_def sub_reply_def)
qed

section \<open>Properties\<close>

definition got :: "value option \<Rightarrow> value" where
  "got r = (case r of Some v \<Rightarrow> carried v | None \<Rightarrow> Null)"

definition get_reply :: "'s sub_handler \<Rightarrow> 's \<Rightarrow> oid \<Rightarrow> pdu_body" where
  "get_reply h st o1 = sub_handle_get h st \<lparr>sb_context = None, search_range = [(o1, null_oid)]\<rparr>"

lemma get_reply_eq:
  "get_reply h st o1 = sub_response 0 (if sh_get h st o1 = None then 1 else 0)
     [case sh_get h st o1 of Some v \<Rightarrow> value_to_varbind o1 v | None \<Rightarrow> null_axvb o1]"
  by (simp add: get_reply_def sub_handle_get_def split: option.split)

lemma forward_answer_get:
  "forward_answer (FwdGet o1) (get_reply h st o1) = Ok (GotValue (got (sh_get h st o1)))"
  "forward_answer (FwdGetNext o1) (get_reply h st o1) = Ok (GotNext o1 (got (sh_get h st o1)))"
  by (auto simp: get_reply_eq sub_response_def value_to_varbind_def null_axvb_def got_def carried_def split: option.split)

lemma forwarded_by_get:
  assumes "decoded_body (forward_body req) = BGet \<lparr>sb_context = None, search_range = [(o1, null_oid)]\<rparr>"
    and "fits_frame (forward_pdu req sid pid)"
    and "fits_frame (sub_reply sid (axp_header (forward_pdu req sid pid)) (get_reply h st o1))"
  shows "forwarded h st sid pid req = (st, Some (forward_answer req (get_reply h st o1)))"
proof (rule forwarded_eq [OF assms(2) _ assms(3)])
  show "sub_dispatch h st (decoded_body (forward_body req)) = (st, Some (get_reply h st o1))"
    by (simp add: assms(1) sub_dispatch_def get_reply_def)
  show "get_reply h st o1 = BResponse (case get_reply h st o1 of BResponse r \<Rightarrow> r)"
    by (simp add: get_reply_eq sub_response_def)
qed

text \<open>A handler with one integer variable, for the concrete runs below.\<close>

definition counter_handler :: "int sub_handler" where
  "counter_handler =
     \<lparr>sh_get = \<lambda>st o1. if o1 = Oid [1, 3, 9, 0] then Some (Integer (word_of_int st)) else None,
      sh_get_next = \<lambda>st o1. if o1 < Oid [1, 3, 9, 0] then Some (Oid [1, 3, 9, 0], Integer (word_of_int st)) else None,
      sh_set = \<lambda>st o1 v. case v of Integer i \<Rightarrow> if o1 = Oid [1, 3, 9, 0] then (sint i, Ok ()) else (st, Err 268) | _ \<Rightarrow> (st, Err 268)\<rparr>"

lemmas frame_eval = fits_frame_def encode_pdu_def Let_def append_oid_def encode_oid_bytes_with_def null_oid_def
  internet_prefix_def append_counted_def pad4_def write_u32_def write_u16_def packed_oid_def forward_pdu_def sub_reply_def
  vb_wire_def oid_wire_def encode_varbind_def encode_data_def rev_if_def sub_response_def value_to_varbind_def
  null_axvb_def

text \<open>C14: A forwarded GET returns what the subagent's \<open>get\<close> returns for that OID, with the value
  converted to the AgentX types and back, and a null value where the handler has no instance.\<close>

theorem forwarded_get:
  assumes "fits_frame (forward_pdu (FwdGet o1) sid pid)"
    and "fits_frame (sub_reply sid (axp_header (forward_pdu (FwdGet o1) sid pid)) (get_reply h st o1))"
  shows "forwarded h st sid pid (FwdGet o1) = (st, Some (Ok (GotValue (got (sh_get h st o1)))))"
  using forwarded_by_get [OF _ assms] by (simp add: forward_answer_get)

theorem forwarded_get_witness:
  "forwarded counter_handler 42 7 3 (FwdGet (Oid [1, 3, 9, 0])) = (42, Some (Ok (GotValue (Integer 42))))"
  using forwarded_get [of "Oid [1, 3, 9, 0]" 7 3 counter_handler 42]
  by (simp add: frame_eval get_reply_eq counter_handler_def got_def carried_def)

text \<open>A forwarded GETNEXT is answered by the subagent's \<open>get\<close>: its \<open>get_next\<close> is never
  called, and the master returns the requested OID itself as its own successor.\<close>

lemma forwarded_get_next_is_get:
  assumes "fits_frame (forward_pdu (FwdGetNext o1) sid pid)"
    and "fits_frame (sub_reply sid (axp_header (forward_pdu (FwdGetNext o1) sid pid)) (get_reply h st o1))"
  shows "forwarded h st sid pid (FwdGetNext o1) = (st, Some (Ok (GotNext o1 (got (sh_get h st o1)))))"
  using forwarded_by_get [OF _ assms] by (simp add: forward_answer_get)

text \<open>The handler's successor of \<open>1.3\<close> is \<open>1.3.9.0\<close>; the forwarded GETNEXT answers \<open>1.3\<close> with a null value.\<close>

text \<open>C15: A forwarded SET runs the handler's \<open>set\<close> once, on the value converted to the AgentX types
  and back, and reports its success or its error code.\<close>

theorem forwarded_set:
  assumes "fits_frame (forward_pdu (FwdSet o1 v) sid pid)" and "sh_set h st o1 (carried v) = (st', r)"
    and "fits_frame (sub_reply sid (axp_header (forward_pdu (FwdSet o1 v) sid pid))
           (case r of Ok _ \<Rightarrow> sub_response 0 0 [value_to_varbind o1 v] | Err code \<Rightarrow> sub_response code 1 []))"
  shows "forwarded h st sid pid (FwdSet o1 v) =
    (st', Some (case r of Ok _ \<Rightarrow> Ok GotSet | Err code \<Rightarrow> if code = 0 then Ok GotSet else Err (FAgentxError code)))"
proof -
  let ?body = "case r of Ok _ \<Rightarrow> sub_response 0 0 [value_to_varbind o1 v] | Err code \<Rightarrow> sub_response code 1 []"
  have "forwarded h st sid pid (FwdSet o1 v) = (st', Some (forward_answer (FwdSet o1 v) ?body))"
  proof (rule forwarded_eq [OF assms(1) _ assms(3)])
    show "sub_dispatch h st (decoded_body (forward_body (FwdSet o1 v))) = (st', Some ?body)"
      using assms(2)
      by (simp add: sub_dispatch_def sub_handle_set_def value_to_varbind_def carried_def split: result.split)
    show "?body = BResponse (case ?body of BResponse r \<Rightarrow> r)"
      by (simp add: sub_response_def split: result.split)
  qed
  then show ?thesis by (simp add: sub_response_def split: result.split)
qed

theorem forwarded_set_witness:
  "forwarded counter_handler 42 7 3 (FwdSet (Oid [1, 3, 9, 0]) (Integer 5)) = (5, Some (Ok GotSet)) \<and>
   forwarded counter_handler 42 7 3 (FwdSet (Oid [1, 3, 9, 0]) Null) = (42, Some (Err (FAgentxError 268)))"
  using forwarded_set [of "Oid [1, 3, 9, 0]" "Integer 5" 7 3 counter_handler 42 5 "Ok ()"]
    forwarded_set [of "Oid [1, 3, 9, 0]" Null 7 3 counter_handler 42 42 "Err 268"]
  by (simp add: frame_eval counter_handler_def carried_def)

text \<open>A value survives the conversion to the AgentX types and back exactly when it is an integer in
  the 32-bit range or any other value than the three exception markers, which turn into null.\<close>

lemma carried_value_iff:
  "carried v = v \<longleftrightarrow>
     (case v of Integer i \<Rightarrow> - (2 ^ 31) \<le> sint i \<and> sint i < 2 ^ 31
      | NoSuchObject \<Rightarrow> False | NoSuchInstance \<Rightarrow> False | EndOfMibView \<Rightarrow> False | _ \<Rightarrow> True)"
proof (cases v)
  case (Integer i)
  have "sint (scast (ucast i :: i32) :: i64) = signed_take_bit 31 (sint i)"
    by (rule bit_eqI) (auto simp: bit_simps min_def)
  then have "(scast (ucast i :: i32) :: i64) = i \<longleftrightarrow> signed_take_bit 31 (sint i) = sint i"
    by (metis signed_word_eqI)
  also have "\<dots> \<longleftrightarrow> - (2 ^ 31) \<le> sint i \<and> sint i < 2 ^ 31"
    by (simp add: signed_take_bit_int_eq_self_iff)
  finally show ?thesis by (simp add: Integer carried_def)
qed (simp_all add: carried_def)

end
