(* ===== verification/Disman_Tables.thy ===== *)
theory Disman_Tables
  imports Snmp_Scalar
begin

text \<open>
  What the DISMAN engines (\<^verbatim>\<open>crates/netsnmp-agent/src/disman/\<close>) share: the \<open>owner NUL name\<close> keys
  of their hash maps, string indices, and the read-only handlers that rebuild a sorted list of
  cells for every request.  The locale \<open>row_table\<close> is the contract between an engine and such a
  handler; every table of the engines interprets it.
\<close>

section \<open>Keys and indices\<close>

text \<open>
  A \<^verbatim>\<open>HashMap\<close> is the list of its entries in iteration order, which the library leaves open; nothing
  proved here depends on the order.
\<close>

type_synonym ('k, 'v) hash_map = "('k \<times> 'v) list"

fun hm_insert :: "'k \<Rightarrow> 'v \<Rightarrow> ('k, 'v) hash_map \<Rightarrow> ('k, 'v) hash_map" where
  "hm_insert k v [] = [(k, v)]"
| "hm_insert k v ((a, b) # m) = (if a = k then (k, v) # m else (a, b) # hm_insert k v m)"

definition hm_remove :: "'k \<Rightarrow> ('k, 'v) hash_map \<Rightarrow> ('k, 'v) hash_map" where
  "hm_remove k m = filter (\<lambda>(a, b). a \<noteq> k) m"

abbreviation hm_get :: "('k, 'v) hash_map \<Rightarrow> 'k \<Rightarrow> 'v option" where
  "hm_get \<equiv> map_of"

definition table_key :: "string \<Rightarrow> string \<Rightarrow> string" where
  "table_key owner name = owner @ [CHR 0x00] @ name"

definition string_index :: "string \<Rightarrow> u32 list" where
  "string_index s = map (\<lambda>b. ucast b) (as_bytes s)"

definition entry_index :: "string \<Rightarrow> string \<Rightarrow> u32 list" where
  "entry_index owner name = string_index owner @ [0] @ string_index name"

definition cell_oid :: "oid \<Rightarrow> u32 \<Rightarrow> u32 list \<Rightarrow> oid" where
  "cell_oid root col index = foldl child (child root col) index"

lemma hm_get_insert: "hm_get (hm_insert k v m) = (hm_get m)(k \<mapsto> v)"
  by (induction m) (auto simp: fun_eq_iff)

lemma hm_get_remove: "hm_get (hm_remove k m) = (hm_get m)(k := None)"
  by (induction m) (auto simp: hm_remove_def fun_eq_iff)

lemma keys_hm_insert: "map fst (hm_insert k v m) = (if k \<in> fst ` set m then map fst m else map fst m @ [k])"
proof (induction m)
  case (Cons p m)
  then show ?case by (cases p) (auto intro: rev_image_eqI)
qed simp

lemma distinct_hm_insert: "distinct (map fst m) \<Longrightarrow> distinct (map fst (hm_insert k v m))"
  by (simp add: keys_hm_insert)

lemma set_hm_insert: "set (hm_insert k v m) \<subseteq> insert (k, v) (set m)"
  by (induction m) (auto split: if_splits)

lemma distinct_hm_remove: "distinct (map fst m) \<Longrightarrow> distinct (map fst (hm_remove k m))"
  by (simp add: hm_remove_def distinct_map_filter)

lemma string_index_inj: "string_index s = string_index t \<longleftrightarrow> s = t"
proof
  assume eq: "string_index s = string_index t"
  have "ucast (ucast b :: u32) = b" for b :: u8 by (rule bit_word_eqI) (simp add: bit_ucast_iff)
  then have "map (ucast :: u32 \<Rightarrow> u8) (string_index x) = as_bytes x" for x by (simp add: string_index_def comp_def)
  then have "as_bytes s = as_bytes t" using arg_cong [OF eq, of "map (ucast :: u32 \<Rightarrow> u8)"] by metis
  then have "str_of_bytes (as_bytes s) = str_of_bytes (as_bytes t)" by (rule arg_cong)
  then show "s = t" by simp
qed simp

lemma entry_index_key: "entry_index owner name = string_index (table_key owner name)"
  by (simp add: entry_index_def string_index_def table_key_def as_bytes_def byte_of_char_def)

lemma cell_oid_slice [simp]: "as_slice (cell_oid root col index) = as_slice root @ [col] @ index"
proof -
  have "as_slice (foldl child o1 index) = as_slice o1 @ index" for o1
    by (induction index arbitrary: o1) (simp_all add: child_def)
  then show ?thesis by (simp add: cell_oid_def child_def)
qed

lemma cell_oid_eq: "cell_oid root c i = cell_oid root c' i' \<longleftrightarrow> c = c' \<and> i = i'"
proof -
  have "cell_oid root c i = cell_oid root c' i' \<longleftrightarrow> as_slice (cell_oid root c i) = as_slice (cell_oid root c' i')"
    by (metis oid.collapse)
  then show ?thesis by simp
qed

text \<open>Rows stored under the key of their owner and name.\<close>

definition keyed :: "('r \<Rightarrow> string) \<Rightarrow> ('r \<Rightarrow> string) \<Rightarrow> (string, 'r) hash_map \<Rightarrow> bool" where
  "keyed own nam m \<longleftrightarrow> distinct (map fst m) \<and> (\<forall>(k, r)\<in>set m. k = table_key (own r) (nam r))"

lemma keyed_insert: "keyed own nam m \<Longrightarrow> k = table_key (own r) (nam r) \<Longrightarrow> keyed own nam (hm_insert k r m)"
  using set_hm_insert [of k r m] by (auto simp: keyed_def distinct_hm_insert)

lemma keyed_remove: "keyed own nam m \<Longrightarrow> keyed own nam (hm_remove k m)"
  by (auto simp: keyed_def distinct_hm_remove) (auto simp: hm_remove_def)

lemma keyed_index:
  assumes "keyed own nam m"
  shows "distinct (map fst (map (\<lambda>(k, r). (entry_index (own r) (nam r), f r)) m))"
proof -
  have "map fst (map (\<lambda>(k, r). (entry_index (own r) (nam r), f r)) m) = map string_index (map fst m)"
    using assms by (auto simp: keyed_def entry_index_key)
  then show ?thesis using assms by (simp add: keyed_def distinct_map inj_on_def string_index_inj)
qed

section \<open>Handlers over a sorted list of cells\<close>

definition find_cell :: "cell_list \<Rightarrow> oid \<Rightarrow> value option" where
  "find_cell cs o1 = map_option snd (List.find (\<lambda>(a, b). a = o1) cs)"

definition cells_mib :: "oid \<Rightarrow> ('s \<Rightarrow> cell_list) \<Rightarrow> 's mib_handler" where
  "cells_mib root cells =
     \<lparr>h_root = root,
      h_get = (\<lambda>o1. State (\<lambda>s. (find_cell (cells s) o1, s))),
      h_get_next = (\<lambda>o1. State (\<lambda>s. (next_cell (cells s) o1, s))),
      h_set = default_set, h_prepare_set = default_prepare_set,
      h_commit_set = default_commit_set default_set, h_undo_set = default_undo_set\<rparr>"

lemma find_cell_eq: "find_cell cs o1 = map_of cs o1"
  by (induction cs) (auto simp: find_cell_def)

definition row_cells :: "oid \<Rightarrow> u32 list \<Rightarrow> (u32 \<times> value) list \<Rightarrow> cell_list" where
  "row_cells root index cols = map (\<lambda>(c, v). (cell_oid root c index, v)) cols"

definition raw_cells :: "oid \<Rightarrow> (u32 list \<times> (u32 \<times> value) list) list \<Rightarrow> cell_list" where
  "raw_cells root rows = concat (map (\<lambda>(index, cols). row_cells root index cols) rows)"

definition sorted_cells :: "oid \<Rightarrow> (u32 list \<times> (u32 \<times> value) list) list \<Rightarrow> cell_list" where
  "sorted_cells root rows = sort_key fst (raw_cells root rows)"

lemma raw_cells_simps [simp]:
  "raw_cells root [] = []" "raw_cells root ((index, cols) # rs) = row_cells root index cols @ raw_cells root rs"
  by (simp_all add: raw_cells_def)

text \<open>
  The contract of a table: its rows have different indices, and the columns of a row different
  numbers.  Then GET reads the column, GETNEXT walks the cells in order, and both are independent
  of the order in which the engine's hash map lists its rows.
\<close>

locale row_table =
  fixes root :: oid and rows :: "'s \<Rightarrow> (u32 list \<times> (u32 \<times> value) list) list" and ok :: "'s \<Rightarrow> bool"
  assumes distinct_rows: "ok s \<Longrightarrow> distinct (map fst (rows s))"
    and distinct_columns: "ok s \<Longrightarrow> (index, cols) \<in> set (rows s) \<Longrightarrow> distinct (map fst cols)"
begin

lemma distinct_cells:
  assumes "ok s"
  shows "distinct (map fst (raw_cells root (rows s)))"
proof -
  have "distinct (map fst (raw_cells root rs))"
    if "distinct (map fst rs)" "\<And>index cols. (index, cols) \<in> set rs \<Longrightarrow> distinct (map fst cols)" for rs
    using that
  proof (induction rs)
    case (Cons r rs)
    obtain index cols where r: "r = (index, cols)" by fastforce
    have "distinct (map fst (row_cells root index cols))"
    proof -
      have "map fst (row_cells root index cols) = map (\<lambda>c. cell_oid root c index) (map fst cols)"
        by (simp add: row_cells_def case_prod_beta comp_def)
      moreover have "distinct (map fst cols)" using Cons.prems(2) [of index cols] by (simp add: r)
      ultimately show ?thesis by (simp add: distinct_map inj_on_def cell_oid_eq)
    qed
    moreover have "set (map fst (row_cells root index cols)) \<inter>
        set (map fst (raw_cells root rs)) = {}"
      using Cons.prems(1) by (force simp: r raw_cells_def row_cells_def cell_oid_eq)
    moreover have "distinct (map fst (raw_cells root rs))"
      by (rule Cons.IH) (use Cons.prems in auto)
    ultimately show ?case by (simp add: r)
  qed simp
  then show ?thesis using assms distinct_rows distinct_columns by blast
qed

sublocale served_cells "cells_mib root (\<lambda>s. sorted_cells root (rows s))" ok
  "\<lambda>s. map_of (raw_cells root (rows s))"
proof
  fix s o1 n s'
  assume "ok s"
  note d = distinct_cells [OF this]
  have g: "map_of (sorted_cells root (rows s)) = map_of (raw_cells root (rows s))"
    using sort_cells_get [OF d] by (simp add: sorted_cells_def btm_get_def fun_eq_iff)
  show "run_state (h_get (cells_mib root (\<lambda>s. sorted_cells root (rows s))) o1) s = (r, s') \<Longrightarrow>
    r = map_of (raw_cells root (rows s)) o1 \<and> ok s' \<and>
    map_of (raw_cells root (rows s')) =
    map_of (raw_cells root (rows s))" for r
    using \<open>ok s\<close> g by (auto simp: cells_mib_def find_cell_eq)
  show "is_next (map_of (raw_cells root (rows s))) o1 n \<and> ok s' \<and>
    map_of (raw_cells root (rows s')) =
    map_of (raw_cells root (rows s))"
    if "run_state (h_get_next (cells_mib root (\<lambda>s. sorted_cells root (rows s))) o1) s = (n, s')"
  proof -
    have "n = next_cell (sorted_cells root (rows s)) o1" "s' = s" using that by (auto simp: cells_mib_def)
    then show ?thesis
      using \<open>ok s\<close> next_cell_is_next [OF sort_cells_wf [OF d], of o1]
      unfolding sort_cells_get [OF d] sorted_cells_def by simp
  qed
  show "finite (dom (map_of (raw_cells root (rows s))))"
    by (rule finite_dom_map_of)
qed

lemma read_column:
  assumes "ok s" and "(index, cols) \<in> set (rows s)" and "(c, v) \<in> set cols"
  shows "run_state (h_get (cells_mib root (\<lambda>s. sorted_cells root (rows s))) (cell_oid root c index)) s = (Some v, s)"
proof -
  have "(cell_oid root c index, v) \<in> set (raw_cells root (rows s))"
    using assms(2,3) by (force simp: raw_cells_def row_cells_def)
  then have "map_of (raw_cells root (rows s)) (cell_oid root c index) = Some v"
    using distinct_cells [OF assms(1)] by simp
  then show ?thesis using sort_cells_get [OF distinct_cells [OF assms(1)]]
    by (simp add: cells_mib_def find_cell_eq sorted_cells_def btm_get_def fun_eq_iff)
qed

end

end
