(* ===== verification/Disman_Event.thy ===== *)
theory Disman_Event
  imports Disman_Tables
begin

text \<open>
  The DISMAN-EVENT engine (\<^verbatim>\<open>disman/event.rs\<close>): triggers that sample an object of the agent, the
  events they fire, the objects attached to notifications, and the three read-only tables.  The
  agent the engine queries is the parameter handler \<open>ev_self_query\<close> over the state \<open>'w\<close>; the
  notifications it hands to the originator are returned as a list.
\<close>

section \<open>Rows\<close>

definition MTE_TRIGGER_ENTRY :: oid where "MTE_TRIGGER_ENTRY = Oid [1, 3, 6, 1, 2, 1, 88, 1, 2, 2, 1]"
definition MTE_EVENT_ENTRY :: oid where "MTE_EVENT_ENTRY = Oid [1, 3, 6, 1, 2, 1, 88, 1, 4, 2, 1]"
definition MTE_OBJECTS_ENTRY :: oid where "MTE_OBJECTS_ENTRY = Oid [1, 3, 6, 1, 2, 1, 88, 1, 3, 2, 1]"

datatype trigger_type = TtExistence | TtBoolean u8 | TtThreshold | TtDeltaThreshold

datatype bool_comparison = CmpEqual | CmpUnequal | CmpLess | CmpLessOrEqual | CmpGreater | CmpGreaterOrEqual

fun cmp_code :: "bool_comparison \<Rightarrow> u8" where
  "cmp_code CmpEqual = 1"
| "cmp_code CmpUnequal = 2"
| "cmp_code CmpLess = 3"
| "cmp_code CmpLessOrEqual = 4"
| "cmp_code CmpGreater = 5"
| "cmp_code CmpGreaterOrEqual = 6"

definition cmp_from_u8 :: "u8 \<Rightarrow> bool_comparison option" where
  "cmp_from_u8 v =
     (if v = 1 then Some CmpEqual else if v = 2 then Some CmpUnequal else if v = 3 then Some CmpLess
      else if v = 4 then Some CmpLessOrEqual else if v = 5 then Some CmpGreater
      else if v = 6 then Some CmpGreaterOrEqual else None)"

fun cmp_evaluate :: "bool_comparison \<Rightarrow> i64 \<Rightarrow> i64 \<Rightarrow> bool" where
  "cmp_evaluate CmpEqual s r = (s = r)"
| "cmp_evaluate CmpUnequal s r = (s \<noteq> r)"
| "cmp_evaluate CmpLess s r = (sint s < sint r)"
| "cmp_evaluate CmpLessOrEqual s r = (sint s \<le> sint r)"
| "cmp_evaluate CmpGreater s r = (sint r < sint s)"
| "cmp_evaluate CmpGreaterOrEqual s r = (sint r \<le> sint s)"

datatype event_action = ActNotification oid | ActSet oid "value" | ActNone

text \<open>A \<^verbatim>\<open>Duration\<close> is a number of milliseconds.\<close>

record trigger =
  tg_owner :: string
  tg_name :: string
  tg_target :: oid
  tg_target_instance :: "u32 list"
  tg_frequency :: nat
  tg_test :: trigger_type
  tg_boolean_comparison :: bool_comparison
  tg_boolean_value :: i64
  tg_rising_threshold :: i64
  tg_falling_threshold :: i64
  tg_enabled :: bool
  tg_event_links :: "string list"
  tg_last_sample :: "i64 option"
  tg_existence_fired :: bool

definition sampled_oid :: "trigger \<Rightarrow> oid" where
  "sampled_oid t = Oid (as_slice (tg_target t) @ tg_target_instance t)"

definition trigger_new :: "string \<Rightarrow> string \<Rightarrow> oid \<Rightarrow> trigger_type \<Rightarrow> trigger" where
  "trigger_new owner name target test =
     \<lparr>tg_owner = owner, tg_name = name, tg_target = target, tg_target_instance = [], tg_frequency = 60000,
      tg_test = test, tg_boolean_comparison = CmpGreater, tg_boolean_value = 0, tg_rising_threshold = 0,
      tg_falling_threshold = 0, tg_enabled = True, tg_event_links = [], tg_last_sample = None,
      tg_existence_fired = False\<rparr>"

definition trigger_existence :: "string \<Rightarrow> string \<Rightarrow> oid \<Rightarrow> trigger" where
  "trigger_existence owner name target = trigger_new owner name target TtExistence"

definition trigger_boolean :: "string \<Rightarrow> string \<Rightarrow> oid \<Rightarrow> bool_comparison \<Rightarrow> i64 \<Rightarrow> trigger" where
  "trigger_boolean owner name target c v =
     (trigger_new owner name target (TtBoolean (cmp_code c)))\<lparr>tg_boolean_comparison := c, tg_boolean_value := v\<rparr>"

definition trigger_threshold :: "string \<Rightarrow> string \<Rightarrow> oid \<Rightarrow> i64 \<Rightarrow> i64 \<Rightarrow> trigger" where
  "trigger_threshold owner name target rising falling =
     (trigger_new owner name target TtThreshold)\<lparr>tg_rising_threshold := rising, tg_falling_threshold := falling\<rparr>"

definition with_frequency :: "nat \<Rightarrow> trigger \<Rightarrow> trigger" where
  "with_frequency d t = t\<lparr>tg_frequency := d\<rparr>"

definition with_instance :: "u32 list \<Rightarrow> trigger \<Rightarrow> trigger" where
  "with_instance inst t = t\<lparr>tg_target_instance := inst\<rparr>"

definition with_events :: "string list \<Rightarrow> trigger \<Rightarrow> trigger" where
  "with_events names t = t\<lparr>tg_event_links := names\<rparr>"

record mte_event =
  me_owner :: string
  me_name :: string
  me_action :: event_action
  me_enabled :: bool

definition event_notification :: "string \<Rightarrow> string \<Rightarrow> oid \<Rightarrow> mte_event" where
  "event_notification owner name o1 = \<lparr>me_owner = owner, me_name = name, me_action = ActNotification o1, me_enabled = True\<rparr>"

definition event_set :: "string \<Rightarrow> string \<Rightarrow> oid \<Rightarrow> value \<Rightarrow> mte_event" where
  "event_set owner name o1 v = \<lparr>me_owner = owner, me_name = name, me_action = ActSet o1 v, me_enabled = True\<rparr>"

record mte_object =
  mo_owner :: string
  mo_name :: string
  mo_id :: u32
  mo_oid :: oid
  mo_wildcard :: bool

section \<open>Evaluating a trigger\<close>

text \<open>The release build subtracts with wrap-around; a debug build would panic there.\<close>

definition evaluate_trigger :: "trigger \<Rightarrow> i64 option \<Rightarrow> trigger \<times> string option" where
  "evaluate_trigger t sample =
     (case tg_test t of
        TtExistence \<Rightarrow>
          if sample \<noteq> None \<and> \<not> tg_existence_fired t
          then (t\<lparr>tg_existence_fired := True, tg_last_sample := sample\<rparr>, Some ''existence'')
          else (t, None)
      | TtBoolean code \<Rightarrow>
          (case sample of
             None \<Rightarrow> (t, None)
           | Some s \<Rightarrow>
              (let c = (case cmp_from_u8 code of Some c \<Rightarrow> c | None \<Rightarrow> tg_boolean_comparison t)
               in (t\<lparr>tg_last_sample := Some s\<rparr>,
                   if cmp_evaluate c s (tg_boolean_value t) then Some ''boolean'' else None)))
      | TtThreshold \<Rightarrow>
          (case sample of
             None \<Rightarrow> (t, None)
           | Some s \<Rightarrow>
              (t\<lparr>tg_last_sample := Some s\<rparr>,
               case tg_last_sample t of
                 None \<Rightarrow> None
               | Some p \<Rightarrow>
                  if sint (tg_rising_threshold t) \<le> sint s \<and> sint p < sint (tg_rising_threshold t) then Some ''rising''
                  else if sint s \<le> sint (tg_falling_threshold t) \<and> sint (tg_falling_threshold t) < sint p
                  then Some ''falling'' else None))
      | TtDeltaThreshold \<Rightarrow>
          (case sample of
             None \<Rightarrow> (t, None)
           | Some s \<Rightarrow>
              (t\<lparr>tg_last_sample := Some s\<rparr>,
               case tg_last_sample t of
                 None \<Rightarrow> None
               | Some p \<Rightarrow>
                  (let delta = s - p in
                   if sint (tg_rising_threshold t) \<le> sint delta then Some ''delta-rising''
                   else if sint delta \<le> sint (tg_falling_threshold t) then Some ''delta-falling'' else None))))"

fun value_to_i64 :: "value \<Rightarrow> i64 option" where
  "value_to_i64 (Integer x) = Some x"
| "value_to_i64 (Counter32 x) = Some (ucast x)"
| "value_to_i64 (Gauge32 x) = Some (ucast x)"
| "value_to_i64 (TimeTicks x) = Some (ucast x)"
| "value_to_i64 (Counter64 x) = Some x"
| "value_to_i64 _ = None"

section \<open>The engine\<close>

record 'w event_engine =
  ev_triggers :: "(string, trigger) hash_map"
  ev_events :: "(string, mte_event) hash_map"
  ev_objects :: "(string, mte_object list) hash_map"
  ev_notify :: bool
  ev_self_query :: "'w mib_handler option"
  ev_started :: bool

definition event_engine_new :: "bool \<Rightarrow> 'w event_engine" where
  "event_engine_new notify =
     \<lparr>ev_triggers = [], ev_events = [], ev_objects = [], ev_notify = notify, ev_self_query = None, ev_started = False\<rparr>"

definition event_set_self_query :: "'w mib_handler \<Rightarrow> 'w event_engine \<Rightarrow> 'w event_engine" where
  "event_set_self_query h e = e\<lparr>ev_self_query := Some h\<rparr>"

definition add_trigger :: "trigger \<Rightarrow> 'w event_engine \<Rightarrow> 'w event_engine" where
  "add_trigger t e = e\<lparr>ev_triggers := hm_insert (table_key (tg_owner t) (tg_name t)) t (ev_triggers e)\<rparr>"

definition remove_trigger :: "string \<Rightarrow> string \<Rightarrow> 'w event_engine \<Rightarrow> trigger option \<times> 'w event_engine" where
  "remove_trigger owner name e =
     (hm_get (ev_triggers e) (table_key owner name),
      e\<lparr>ev_triggers := hm_remove (table_key owner name) (ev_triggers e)\<rparr>)"

definition add_event :: "mte_event \<Rightarrow> 'w event_engine \<Rightarrow> 'w event_engine" where
  "add_event ev e = e\<lparr>ev_events := hm_insert (table_key (me_owner ev) (me_name ev)) ev (ev_events e)\<rparr>"

definition add_object :: "mte_object \<Rightarrow> 'w event_engine \<Rightarrow> 'w event_engine" where
  "add_object ob e =
     (let k = table_key (mo_owner ob) (mo_name ob);
          rows = (case hm_get (ev_objects e) k of Some rows \<Rightarrow> rows | None \<Rightarrow> [])
      in e\<lparr>ev_objects := hm_insert k (rows @ [ob]) (ev_objects e)\<rparr>)"

definition sample :: "'w event_engine \<Rightarrow> oid \<Rightarrow> ('w, i64 option) state" where
  "sample e o1 =
     (case ev_self_query e of
        None \<Rightarrow> State_Monad.return None
      | Some h \<Rightarrow> do { v \<leftarrow> h_get h o1;
                       State_Monad.return (case v of Some v \<Rightarrow> value_to_i64 v | None \<Rightarrow> None) })"

definition object_oid :: "trigger \<Rightarrow> mte_object \<Rightarrow> oid" where
  "object_oid t ob = (if mo_wildcard ob then Oid (as_slice (mo_oid ob) @ tg_target_instance t) else mo_oid ob)"

fun collect_rows :: "'w event_engine \<Rightarrow> trigger \<Rightarrow> mte_object list \<Rightarrow> ('w, varbind list) state" where
  "collect_rows e t [] = State_Monad.return []"
| "collect_rows e t (ob # obs) =
     do { v \<leftarrow> sample e (object_oid t ob);
          vbs \<leftarrow> collect_rows e t obs;
          State_Monad.return (case v of Some x \<Rightarrow> new_varbind (object_oid t ob) (Integer x) # vbs | None \<Rightarrow> vbs) }"

definition collect_objects :: "'w event_engine \<Rightarrow> string \<Rightarrow> string \<Rightarrow> trigger \<Rightarrow> ('w, varbind list) state" where
  "collect_objects e owner name t =
     collect_rows e t (sort_key mo_id (case hm_get (ev_objects e) (table_key owner name) of Some rows \<Rightarrow> rows | None \<Rightarrow> []))"

type_synonym notification = "oid \<times> varbind list"

definition event_execute :: "'w event_engine \<Rightarrow> event_action \<Rightarrow> varbind list \<Rightarrow> ('w, notification list) state" where
  "event_execute e act attached =
     (case act of
        ActNotification o1 \<Rightarrow> State_Monad.return (if ev_notify e then [(o1, attached)] else [])
      | ActSet o1 v \<Rightarrow>
          (case ev_self_query e of
             Some h \<Rightarrow> do { r \<leftarrow> h_commit_set h o1 v; State_Monad.return [] }
           | None \<Rightarrow> State_Monad.return [])
      | ActNone \<Rightarrow> State_Monad.return [])"

definition linked_event :: "'w event_engine \<Rightarrow> trigger \<Rightarrow> string \<Rightarrow> mte_event option" where
  "linked_event e t link =
     (case hm_get (ev_events e) (table_key (tg_owner t) link) of
        Some ev \<Rightarrow> Some ev
      | None \<Rightarrow>
         (case hm_get (ev_events e) (table_key [] link) of
            Some ev \<Rightarrow> Some ev
          | None \<Rightarrow> List.find (\<lambda>ev. me_name ev = link) (map snd (ev_events e))))"

fun fire_links :: "'w event_engine \<Rightarrow> trigger \<Rightarrow> string list \<Rightarrow> ('w, notification list) state" where
  "fire_links e t [] = State_Monad.return []"
| "fire_links e t (link # links) =
     (case linked_event e t link of
        None \<Rightarrow> fire_links e t links
      | Some ev \<Rightarrow>
          if \<not> me_enabled ev then fire_links e t links
          else do { attached \<leftarrow> collect_objects e (me_owner ev) (me_name ev) t;
                    sent \<leftarrow> event_execute e (me_action ev) attached;
                    more_sent \<leftarrow> fire_links e t links;
                    State_Monad.return (sent @ more_sent) })"

definition fire_events :: "'w event_engine \<Rightarrow> trigger \<Rightarrow> ('w, notification list) state" where
  "fire_events e t = fire_links e t (tg_event_links t)"

text \<open>A poll works on a snapshot of the triggers and writes each one back after its sample.\<close>

fun poll_triggers ::
  "(string \<times> trigger) list \<Rightarrow> 'w event_engine \<Rightarrow> ('w, 'w event_engine \<times> notification list) state" where
  "poll_triggers [] e = State_Monad.return (e, [])"
| "poll_triggers ((k, t) # ts) e =
     (if \<not> tg_enabled t then poll_triggers ts e
      else do { s \<leftarrow> sample e (sampled_oid t);
                let (t', fires) = evaluate_trigger t s;
                let e' = e\<lparr>ev_triggers := hm_insert k t' (ev_triggers e)\<rparr>;
                sent \<leftarrow> (if fires \<noteq> None then fire_events e' t' else State_Monad.return []);
                rest \<leftarrow> poll_triggers ts e';
                State_Monad.return (fst rest, sent @ snd rest) })"

definition poll_once :: "'w event_engine \<Rightarrow> ('w, 'w event_engine \<times> notification list) state" where
  "poll_once e = poll_triggers (ev_triggers e) e"

text \<open>The interval of the alarm that \<open>start\<close> registers; \<open>None\<close> when the engine already runs.\<close>

definition event_start :: "'w event_engine \<Rightarrow> nat option \<times> 'w event_engine" where
  "event_start e =
     (if ev_started e then (None, e)
      else (let fs = map tg_frequency (filter tg_enabled (map snd (ev_triggers e)))
            in (Some (if fs = [] then 60000 else Min (set fs)), e\<lparr>ev_started := True\<rparr>)))"

section \<open>The tables\<close>

fun test_bits :: "trigger_type \<Rightarrow> u8 list" where
  "test_bits TtExistence = [1]"
| "test_bits (TtBoolean c) = [2]"
| "test_bits TtThreshold = [4]"
| "test_bits TtDeltaThreshold = [4]"

definition bool_value :: "bool \<Rightarrow> value" where
  "bool_value b = Integer (if b then 1 else 0)"

definition trigger_columns :: "trigger \<Rightarrow> (u32 \<times> value) list" where
  "trigger_columns t =
     [(2, OctetString (as_bytes (tg_name t))), (5, OidValue (tg_target t)),
      (8, Gauge32 (word_of_nat (tg_frequency t div 1000))), (9, OctetString (test_bits (tg_test t))),
      (4, bool_value (tg_enabled t)), (18, Integer (ucast (cmp_code (tg_boolean_comparison t)))),
      (19, Integer (tg_boolean_value t)), (23, Integer (tg_rising_threshold t)),
      (24, Integer (tg_falling_threshold t)), (14, Integer (row_as_i64 Active))]"

definition trigger_rows :: "'w event_engine \<Rightarrow> (u32 list \<times> (u32 \<times> value) list) list" where
  "trigger_rows e = map (\<lambda>(k, t). (entry_index (tg_owner t) (tg_name t), trigger_columns t)) (ev_triggers e)"

fun action_bits :: "event_action \<Rightarrow> u8 list" where
  "action_bits (ActNotification o1) = [1]"
| "action_bits (ActSet o1 v) = [2]"
| "action_bits ActNone = []"

definition event_columns :: "mte_event \<Rightarrow> (u32 \<times> value) list" where
  "event_columns ev =
     [(2, OctetString (as_bytes (me_name ev))), (4, bool_value (me_enabled ev)),
      (5, OctetString (action_bits (me_action ev))),
      (8, OidValue (case me_action ev of ActNotification o1 \<Rightarrow> o1 | _ \<Rightarrow> null_oid)),
      (11, OidValue (case me_action ev of ActSet o1 v \<Rightarrow> o1 | _ \<Rightarrow> null_oid)),
      (12, case me_action ev of ActSet o1 v \<Rightarrow> v | _ \<Rightarrow> Null),
      (10, Integer (row_as_i64 Active))]"

definition event_rows :: "'w event_engine \<Rightarrow> (u32 list \<times> (u32 \<times> value) list) list" where
  "event_rows e = map (\<lambda>(k, ev). (entry_index (me_owner ev) (me_name ev), event_columns ev)) (ev_events e)"

definition split_once_nul :: "string \<Rightarrow> string \<times> string" where
  "split_once_nul k =
     (case dropWhile (\<lambda>c. c \<noteq> CHR 0x00) k of [] \<Rightarrow> (k, []) | _ # rest \<Rightarrow> (takeWhile (\<lambda>c. c \<noteq> CHR 0x00) k, rest))"

definition object_columns :: "mte_object \<Rightarrow> (u32 \<times> value) list" where
  "object_columns ob = [(4, OidValue (mo_oid ob)), (5, bool_value (mo_wildcard ob)), (6, Integer (row_as_i64 Active))]"

definition object_rows :: "'w event_engine \<Rightarrow> (u32 list \<times> (u32 \<times> value) list) list" where
  "object_rows e =
     concat (map (\<lambda>(k, obs). case split_once_nul k of (owner, name) \<Rightarrow>
                    map (\<lambda>ob. (entry_index owner name @ [0, mo_id ob], object_columns ob)) obs) (ev_objects e))"

section \<open>Well-formed tables\<close>

definition objects_ok :: "(string, mte_object list) hash_map \<Rightarrow> bool" where
  "objects_ok m \<longleftrightarrow> distinct (map fst m) \<and> (\<forall>(k, obs)\<in>set m. CHR 0x00 \<in> set k \<and> distinct (map mo_id obs))"

definition event_ok :: "'w event_engine \<Rightarrow> bool" where
  "event_ok e \<longleftrightarrow> keyed tg_owner tg_name (ev_triggers e) \<and> keyed me_owner me_name (ev_events e) \<and> objects_ok (ev_objects e)"

interpretation trigger_table: row_table MTE_TRIGGER_ENTRY trigger_rows event_ok
  by unfold_locales
     (auto simp: trigger_rows_def event_ok_def keyed_index trigger_columns_def simp del: map_map)

interpretation event_table: row_table MTE_EVENT_ENTRY event_rows event_ok
  by unfold_locales
     (auto simp: event_rows_def event_ok_def keyed_index event_columns_def simp del: map_map)

lemma split_nul_index:
  assumes "CHR 0x00 \<in> set k" and "split_once_nul k = (owner, name)"
  shows "entry_index owner name = string_index k"
proof -
  obtain rest where r: "dropWhile (\<lambda>c. c \<noteq> CHR 0x00) k = CHR 0x00 # rest"
    using assms(1) hd_dropWhile [of "\<lambda>c. c \<noteq> CHR 0x00" k]
    by (cases "dropWhile (\<lambda>c. c \<noteq> CHR 0x00) k") auto
  then have "owner = takeWhile (\<lambda>c. c \<noteq> CHR 0x00) k" "name = rest"
    using assms(2) by (auto simp: split_once_nul_def)
  then have "k = table_key owner name" using takeWhile_dropWhile_id [of "\<lambda>c. c \<noteq> CHR 0x00" k] r
    by (simp add: table_key_def)
  then show ?thesis by (simp add: entry_index_key)
qed

definition object_block :: "string \<Rightarrow> mte_object list \<Rightarrow> (u32 list \<times> (u32 \<times> value) list) list" where
  "object_block k obs =
     (case split_once_nul k of (owner, name) \<Rightarrow>
        map (\<lambda>ob. (entry_index owner name @ [0, mo_id ob], object_columns ob)) obs)"

lemma object_rows_blocks: "object_rows e = concat (map (\<lambda>(k, obs). object_block k obs) (ev_objects e))"
  by (simp add: object_rows_def object_block_def)

lemma object_block_index:
  "CHR 0x00 \<in> set k \<Longrightarrow> map fst (object_block k obs) = map (\<lambda>i. string_index k @ [0, i]) (map mo_id obs)"
  using split_nul_index [of k] by (auto simp: object_block_def split: prod.split)

lemma object_rows_distinct:
  "objects_ok m \<Longrightarrow> distinct (map fst (concat (map (\<lambda>(k, obs). object_block k obs) m)))"
proof (induction m)
  case (Cons p m)
  obtain k obs where p: "p = (k, obs)" by fastforce
  have ok: "objects_ok m" "CHR 0x00 \<in> set k" "distinct (map mo_id obs)" "k \<notin> fst ` set m"
    using Cons.prems by (auto simp: objects_ok_def p)
  have "x \<in> (\<lambda>(k, i). string_index k @ [0, i]) ` (fst ` set m \<times> UNIV)"
    if x: "x \<in> fst ` set (concat (map (\<lambda>(k, obs). object_block k obs) m))" for x
  proof -
    obtain k' obs' where b: "(k', obs') \<in> set m" "x \<in> set (map fst (object_block k' obs'))" using x by force
    then have "CHR 0x00 \<in> set k'" using ok(1) by (auto simp: objects_ok_def)
    with b show ?thesis by (force simp: object_block_index)
  qed
  moreover have "set (map fst (object_block k obs)) \<inter> (\<lambda>(k, i). string_index k @ [0, i]) ` (fst ` set m \<times> UNIV) = {}"
    unfolding object_block_index [OF ok(2)] using ok(4) by (force simp: string_index_inj)
  ultimately have "set (map fst (object_block k obs)) \<inter> fst ` set (concat (map (\<lambda>(k, obs). object_block k obs) m)) = {}"
    by blast
  moreover have "distinct (map fst (object_block k obs))"
    unfolding object_block_index [OF ok(2)] using ok(3) by (simp add: distinct_map inj_on_def)
  ultimately show ?case using Cons.IH [OF ok(1)] by (simp add: p)
qed simp

lemma object_block_columns: "(index, cols) \<in> set (object_block k obs) \<Longrightarrow> distinct (map fst cols)"
  by (auto simp: object_block_def object_columns_def split: prod.splits)

interpretation object_table: row_table MTE_OBJECTS_ENTRY object_rows event_ok
proof
  fix e :: "'w event_engine" and index cols
  assume "event_ok e"
  then show "distinct (map fst (object_rows e))"
    using object_rows_distinct [of "ev_objects e"] by (simp add: object_rows_blocks event_ok_def)
  show "(index, cols) \<in> set (object_rows e) \<Longrightarrow> distinct (map fst cols)"
    by (auto simp: object_rows_blocks dest: object_block_columns)
qed

section \<open>What keeps the tables well formed\<close>

lemma evaluate_trigger_keeps:
  "evaluate_trigger t x = (t', r) \<Longrightarrow>
     t' = t\<lparr>tg_last_sample := tg_last_sample t', tg_existence_fired := tg_existence_fired t'\<rparr>"
  by (auto simp: evaluate_trigger_def Let_def split: trigger_type.splits option.splits if_splits)

lemma evaluate_trigger_name:
  "evaluate_trigger t x = (t', r) \<Longrightarrow> tg_owner t' = tg_owner t \<and> tg_name t' = tg_name t"
  by (auto simp: evaluate_trigger_def Let_def split: trigger_type.splits option.splits if_splits)

text \<open>The turn of one enabled trigger.\<close>

lemma poll_triggers_enabled:
  assumes "run_state (poll_triggers ((k, t) # ts) e) w = ((e', sent), w')" and "tg_enabled t"
  shows "\<exists>x w1 t' r fired w2 rest. run_state (sample e (sampled_oid t)) w = (x, w1) \<and> evaluate_trigger t x = (t', r) \<and>
    run_state (if r \<noteq> None then fire_events (e\<lparr>ev_triggers := hm_insert k t' (ev_triggers e)\<rparr>) t'
               else State_Monad.return []) w1 = (fired, w2) \<and>
    run_state (poll_triggers ts (e\<lparr>ev_triggers := hm_insert k t' (ev_triggers e)\<rparr>)) w2 = ((e', rest), w') \<and>
    sent = fired @ rest"
proof -
  obtain x w1 where x: "run_state (sample e (sampled_oid t)) w = (x, w1)" by fastforce
  obtain t' r where ev: "evaluate_trigger t x = (t', r)" by fastforce
  let ?e = "e\<lparr>ev_triggers := hm_insert k t' (ev_triggers e)\<rparr>"
  obtain fired w2 where f: "run_state (if r \<noteq> None then fire_events ?e t' else State_Monad.return []) w1 = (fired, w2)"
    by fastforce
  obtain e2 rest w3 where rec: "run_state (poll_triggers ts ?e) w2 = ((e2, rest), w3)" by (metis prod.exhaust)
  have "e' = e2" "sent = fired @ rest" "w' = w3"
    using assms x ev f rec by (auto simp: Let_def split: if_splits)
  then show ?thesis using x ev f rec by blast
qed

lemma poll_triggers_ok:
  assumes "\<forall>(k, t)\<in>set ts. k = table_key (tg_owner t) (tg_name t)" and "event_ok e"
    and "run_state (poll_triggers ts e) w = ((e', sent), w')"
  shows "event_ok e' \<and> ev_events e' = ev_events e \<and> ev_objects e' = ev_objects e \<and>
    ev_notify e' = ev_notify e \<and> ev_self_query e' = ev_self_query e"
  using assms
proof (induction ts arbitrary: e w sent)
  case (Cons p ts)
  obtain k t where p: "p = (k, t)" by fastforce
  show ?case
  proof (cases "tg_enabled t")
    case True
    obtain x t' r w2 rest where ev: "evaluate_trigger t x = (t', r)"
      and rec: "run_state (poll_triggers ts (e\<lparr>ev_triggers := hm_insert k t' (ev_triggers e)\<rparr>)) w2 = ((e', rest), w')"
      using poll_triggers_enabled [OF Cons.prems(3) [unfolded p] True] by blast
    have "k = table_key (tg_owner t') (tg_name t')"
      using Cons.prems(1) evaluate_trigger_name [OF ev] by (simp add: p)
    then have "event_ok (e\<lparr>ev_triggers := hm_insert k t' (ev_triggers e)\<rparr>)"
      using Cons.prems(2) by (simp add: event_ok_def keyed_insert)
    from Cons.IH [OF _ this rec] Cons.prems(1) show ?thesis by simp
  qed (use Cons in \<open>auto simp: p\<close>)
qed auto

lemma fire_links_sent:
  assumes "run_state (fire_links e t links) w = (sent, w')" and "(o1, vbs) \<in> set sent"
  shows "\<exists>link ev. link \<in> set links \<and> linked_event e t link = Some ev \<and> me_enabled ev \<and>
    me_action ev = ActNotification o1 \<and> ev_notify e"
  using assms
proof (induction links arbitrary: w sent w')
  case (Cons link links)
  show ?case
  proof (cases "\<exists>ev. linked_event e t link = Some ev \<and> me_enabled ev")
    case True
    then obtain ev where ev: "linked_event e t link = Some ev" "me_enabled ev" by blast
    obtain att w1 where a: "run_state (collect_objects e (me_owner ev) (me_name ev) t) w = (att, w1)" by fastforce
    obtain now w2 where n: "run_state (event_execute e (me_action ev) att) w1 = (now, w2)" by fastforce
    obtain later w3 where l: "run_state (fire_links e t links) w2 = (later, w3)" by fastforce
    have sent: "sent = now @ later" using Cons.prems(1) ev a n l by simp
    have "me_action ev = ActNotification o1 \<and> ev_notify e" if "(o1, vbs) \<in> set now"
      using n that by (auto simp: event_execute_def split: event_action.splits option.splits if_splits prod.splits)
    then show ?thesis using Cons.prems(2) Cons.IH [OF l] ev unfolding sent by auto
  next
    case False
    then have "run_state (fire_links e t links) w = (sent, w')"
      using Cons.prems(1) by (auto split: option.splits if_splits)
    from Cons.IH [OF this Cons.prems(2)] show ?thesis by auto
  qed
qed simp

lemma poll_triggers_sent:
  assumes "run_state (poll_triggers ts e) w = ((e', sent), w')" and "(o1, vbs) \<in> set sent"
  shows "\<exists>k t link ev. (k, t) \<in> set ts \<and> tg_enabled t \<and> link \<in> set (tg_event_links t) \<and>
    linked_event e t link = Some ev \<and> me_enabled ev \<and> me_action ev = ActNotification o1 \<and> ev_notify e"
  using assms
proof (induction ts arbitrary: e w sent)
  case (Cons p ts)
  obtain k t where p: "p = (k, t)" by fastforce
  show ?case
  proof (cases "tg_enabled t")
    case True
    obtain x t' r w1 w2 fired rest where ev: "evaluate_trigger t x = (t', r)"
      and f: "run_state (if r \<noteq> None then fire_events (e\<lparr>ev_triggers := hm_insert k t' (ev_triggers e)\<rparr>) t'
               else State_Monad.return []) w1 = (fired, w2)"
      and rec: "run_state (poll_triggers ts (e\<lparr>ev_triggers := hm_insert k t' (ev_triggers e)\<rparr>)) w2 = ((e', rest), w')"
      and sent: "sent = fired @ rest"
      using poll_triggers_enabled [OF Cons.prems(1) [unfolded p] True] by blast
    have links: "tg_event_links t' = tg_event_links t" by (subst evaluate_trigger_keeps [OF ev]) simp
    have same: "linked_event (e\<lparr>ev_triggers := m\<rparr>) t' link = linked_event e t link" for m link
      using evaluate_trigger_name [OF ev] by (simp add: linked_event_def split: option.split)
    have same': "linked_event (e\<lparr>ev_triggers := m\<rparr>) t2 link = linked_event e t2 link" for m link t2
      by (simp add: linked_event_def split: option.split)
    show ?thesis
    proof (cases "(o1, vbs) \<in> set fired")
      case True
      then have "run_state (fire_links (e\<lparr>ev_triggers := hm_insert k t' (ev_triggers e)\<rparr>) t' (tg_event_links t')) w1 = (fired, w2)"
        using f by (auto simp: fire_events_def split: if_splits)
      from fire_links_sent [OF this True] show ?thesis using \<open>tg_enabled t\<close> unfolding p links same by auto
    next
      case False
      then have "(o1, vbs) \<in> set rest" using Cons.prems(2) by (simp add: sent)
      from Cons.IH [OF rec this] show ?thesis unfolding p same' by auto
    qed
  next
    case False
    then have "run_state (poll_triggers ts e) w = ((e', sent), w')" using Cons.prems(1) by (simp add: p)
    from Cons.IH [OF this Cons.prems(2)] show ?thesis by auto
  qed
qed simp

lemma event_ok_ops:
  "event_ok (event_engine_new n)" "event_ok e \<Longrightarrow> event_ok (event_set_self_query h e)"
  "event_ok e \<Longrightarrow> event_ok (add_trigger t e)" "event_ok e \<Longrightarrow> event_ok (snd (remove_trigger owner name e))"
  "event_ok e \<Longrightarrow> event_ok (add_event ev e)"
  by (simp_all add: event_ok_def event_engine_new_def event_set_self_query_def add_trigger_def remove_trigger_def
      add_event_def keyed_insert keyed_remove) (simp_all add: keyed_def objects_ok_def)

lemma event_ok_add_object:
  assumes "event_ok e"
    and "\<forall>rows. hm_get (ev_objects e) (table_key (mo_owner ob) (mo_name ob)) = Some rows \<longrightarrow> mo_id ob \<notin> mo_id ` set rows"
  shows "event_ok (add_object ob e)"
proof -
  let ?k = "table_key (mo_owner ob) (mo_name ob)"
  define rows where "rows = (case hm_get (ev_objects e) ?k of Some rows \<Rightarrow> rows | None \<Rightarrow> [])"
  have ok: "objects_ok (ev_objects e)" using assms(1) by (simp add: event_ok_def)
  have "distinct (map mo_id (rows @ [ob]))"
    using assms(2) ok unfolding rows_def by (auto simp: objects_ok_def dest: map_of_SomeD split: option.splits)
  moreover have "CHR 0x00 \<in> set ?k" by (simp add: table_key_def)
  ultimately have "objects_ok (hm_insert ?k (rows @ [ob]) (ev_objects e))"
    using ok set_hm_insert [of ?k "rows @ [ob]" "ev_objects e"] unfolding objects_ok_def
    by (auto simp: distinct_hm_insert)
  then show ?thesis using assms(1) by (simp add: event_ok_def add_object_def rows_def Let_def)
qed

section \<open>Sequences of samples\<close>

fun run_samples :: "trigger \<Rightarrow> i64 option list \<Rightarrow> string option list" where
  "run_samples t [] = []"
| "run_samples t (x # xs) = (case evaluate_trigger t x of (t', r) \<Rightarrow> r # run_samples t' xs)"

text \<open>The last sample that could be read, or \<open>p\<close> before the first one.\<close>

definition last_read :: "i64 option \<Rightarrow> i64 option list \<Rightarrow> i64 option" where
  "last_read p xs = foldl (\<lambda>p x. if x = None then p else x) p xs"

definition crossing :: "int \<Rightarrow> int \<Rightarrow> i64 option \<Rightarrow> i64 option \<Rightarrow> string option" where
  "crossing rising falling prev now =
     (case (prev, now) of
        (Some p, Some s) \<Rightarrow>
          if sint p < rising \<and> rising \<le> sint s then Some ''rising''
          else if falling < sint p \<and> sint s \<le> falling then Some ''falling'' else None
      | _ \<Rightarrow> None)"

lemma threshold_step:
  assumes "tg_test t = TtThreshold" and "evaluate_trigger t x = (t', r)"
  shows "r = crossing (sint (tg_rising_threshold t)) (sint (tg_falling_threshold t)) (tg_last_sample t) x \<and>
    tg_last_sample t' = last_read (tg_last_sample t) [x] \<and> tg_test t' = TtThreshold \<and>
    tg_rising_threshold t' = tg_rising_threshold t \<and> tg_falling_threshold t' = tg_falling_threshold t"
  using assms by (auto simp: evaluate_trigger_def crossing_def last_read_def split: option.splits)

lemma run_threshold:
  assumes "tg_test t = TtThreshold" and "i < length xs"
  shows "run_samples t xs ! i = crossing (sint (tg_rising_threshold t)) (sint (tg_falling_threshold t))
    (last_read (tg_last_sample t) (take i xs)) (xs ! i)"
  using assms
proof (induction xs arbitrary: t i)
  case (Cons x xs)
  obtain t' r where ev: "evaluate_trigger t x = (t', r)" by fastforce
  note st = threshold_step [OF Cons.prems(1) ev]
  show ?case
  proof (cases i)
    case 0
    then show ?thesis using st ev by (simp add: last_read_def)
  next
    case (Suc j)
    then have "run_samples t' xs ! j = crossing (sint (tg_rising_threshold t)) (sint (tg_falling_threshold t))
        (last_read (tg_last_sample t') (take j xs)) (xs ! j)"
      using Cons.IH [of t' j] Cons.prems(2) st by simp
    then show ?thesis using st ev Suc by (simp add: last_read_def)
  qed
qed simp

lemma run_existence_fired: "tg_test t = TtExistence \<Longrightarrow> tg_existence_fired t \<Longrightarrow> i < length xs \<Longrightarrow> run_samples t xs ! i = None"
proof (induction xs arbitrary: i)
  case (Cons x xs)
  then show ?case by (cases i) (simp_all add: evaluate_trigger_def)
qed simp

text \<open>An engine that watches a scalar of the agent, for the concrete runs below.\<close>

definition demo_trigger :: trigger where
  "demo_trigger = with_events [''ev''] (trigger_boolean [] ''t'' (Oid [1, 3, 0]) CmpGreater 5)"

definition demo_engine :: "scalar_handler event_engine" where
  "demo_engine =
     add_trigger demo_trigger (add_event (event_notification [] ''ev'' (Oid [1, 9]))
       (event_set_self_query (scalar_mib (Oid [1, 3])) (event_engine_new True)))"

definition demo_agent :: scalar_handler where
  "demo_agent = scalar_new (Oid [1, 3]) (Integer 7)"

lemma demo_engine_ok: "event_ok demo_engine"
  by (simp add: demo_engine_def event_ok_ops)

lemmas demo_engine_eval = demo_engine_def demo_trigger_def with_events_def trigger_boolean_def trigger_new_def
  event_notification_def event_engine_new_def event_set_self_query_def add_trigger_def add_event_def sample_def
  scalar_new_def scalar_get_def sampled_oid_def evaluate_trigger_def cmp_from_u8_def fire_events_def linked_event_def
  collect_objects_def event_execute_def table_key_def child_def

section \<open>Properties\<close>

text \<open>C16: A threshold trigger fires exactly on crossings.  Whatever samples arrive, and whichever of them
  cannot be read, the trigger fires \<open>rising\<close> at a sample iff it is at or above the rising threshold
  and the last readable sample before it was below, and \<open>falling\<close> iff it did not rise, is at or
  below the falling threshold and the last readable one was above.\<close>

theorem threshold_fires_on_crossings:
  assumes "i < length xs"
  shows "run_samples (trigger_threshold owner name target rising falling) xs ! i =
    crossing (sint rising) (sint falling) (last_read None (take i xs)) (xs ! i)"
  using run_threshold [of "trigger_threshold owner name target rising falling"] assms
  by (simp add: trigger_threshold_def trigger_new_def)

theorem threshold_fires_on_crossings_witness:
  "run_samples (trigger_threshold ''o'' ''n'' null_oid 10 5) [Some 1, Some 12, None, Some 3, Some 15] ! 3 = Some ''falling''"
  using threshold_fires_on_crossings [of 3 "[Some 1, Some 12, None, Some 3, Some 15]" "''o''" "''n''" null_oid 10 5]
  by (simp add: crossing_def last_read_def)

text \<open>An existence trigger fires once, at the first sample that can be read, and never again, even
  when the object disappears and comes back.\<close>

lemma existence_fires_once:
  assumes "i < length xs"
  shows "run_samples (trigger_existence owner name target) xs ! i =
    (if xs ! i \<noteq> None \<and> list_all (\<lambda>x. x = None) (take i xs) then Some ''existence'' else None)"
proof -
  have "run_samples t xs ! i =
      (if xs ! i \<noteq> None \<and> list_all (\<lambda>x. x = None) (take i xs) then Some ''existence'' else None)"
    if "tg_test t = TtExistence" "\<not> tg_existence_fired t" "i < length xs" for t xs i
    using that
  proof (induction xs arbitrary: i)
    case (Cons x xs)
    show ?case
    proof (cases i)
      case (Suc j)
      then show ?thesis
        using Cons run_existence_fired [of "t\<lparr>tg_existence_fired := True, tg_last_sample := x\<rparr>" j xs]
        by (cases "x = None") (auto simp: evaluate_trigger_def)
    qed (use Cons.prems in \<open>simp add: evaluate_trigger_def\<close>)
  qed simp
  then show ?thesis using assms by (simp add: trigger_existence_def trigger_new_def)
qed

text \<open>A poll keeps the three tables well formed and their configuration unchanged, and every
  notification it sends is that of an enabled event linked to an enabled trigger, with an originator.\<close>

lemma poll_once_safe:
  assumes "event_ok e" and "run_state (poll_once e) w = ((e', sent), w')"
  shows "event_ok e' \<and> ev_events e' = ev_events e \<and> ev_objects e' = ev_objects e \<and>
    (\<forall>(o1, vbs)\<in>set sent. ev_notify e \<and> (\<exists>k t link ev. (k, t) \<in> set (ev_triggers e) \<and> tg_enabled t \<and>
       link \<in> set (tg_event_links t) \<and> linked_event e t link = Some ev \<and> me_enabled ev \<and>
       me_action ev = ActNotification o1))"
proof -
  have "\<forall>(k, t)\<in>set (ev_triggers e). k = table_key (tg_owner t) (tg_name t)"
    using assms(1) by (simp add: event_ok_def keyed_def)
  note kept = poll_triggers_ok [OF this assms(1) assms(2) [unfolded poll_once_def]]
  have "ev_notify e \<and> (\<exists>k t link ev. (k, t) \<in> set (ev_triggers e) \<and> tg_enabled t \<and>
       link \<in> set (tg_event_links t) \<and> linked_event e t link = Some ev \<and> me_enabled ev \<and>
       me_action ev = ActNotification o1)" if "(o1, vbs) \<in> set sent" for o1 vbs
    using poll_triggers_sent [OF assms(2) [unfolded poll_once_def] that] by blast
  with kept show ?thesis by blast
qed

text \<open>The trigger table serves the engine's triggers: in every state the operations of the engine can
  build, GET of a column of a trigger's row returns the trigger's field.\<close>

lemma trigger_table_reads:
  assumes "event_ok e" and "(k, t) \<in> set (ev_triggers e)" and "(c, v) \<in> set (trigger_columns t)"
  shows "run_state (h_get (cells_mib MTE_TRIGGER_ENTRY (\<lambda>e. sorted_cells MTE_TRIGGER_ENTRY (trigger_rows e)))
     (cell_oid MTE_TRIGGER_ENTRY c (entry_index (tg_owner t) (tg_name t)))) e = (Some v, e)"
  using assms(2,3) by (intro trigger_table.read_column [OF assms(1)]) (force simp: trigger_rows_def)+

end
