(* ===== verification/Snmp_Alarm.thy ===== *)
theory Snmp_Alarm
  imports Main
begin

text \<open>
  The alarm registry (\<^verbatim>\<open>crates/netsnmp/src/alarm.rs\<close>).  A callback is a value of type \<open>'c\<close> that its
  user interprets; the worker task of an alarm is the step \<open>alarm_wake\<close>, which happens whenever the
  sleep of that alarm is over.  Identifiers are the \<open>u64\<close> counter, far from its bound.
\<close>

record 'c alarm_entry =
  al_callback :: 'c
  al_interval :: nat
  al_repeat :: bool
  al_cancelled :: bool
  al_finished :: bool

record 'c alarm_registry =
  ar_next_id :: nat
  ar_entries :: "(nat \<times> 'c alarm_entry) list"

definition alarms_new :: "'c alarm_registry" where
  "alarms_new = \<lparr>ar_next_id = 0, ar_entries = []\<rparr>"

text \<open>\<open>add\<close> takes its identifier under one lock and registers the spawned task under another; a
  caller that runs alone does both at once.  The task first sleeps, so that it cannot wake up
  before it is registered.\<close>

definition alarm_take_id :: "'c alarm_registry \<Rightarrow> nat \<times> 'c alarm_registry" where
  "alarm_take_id r = (ar_next_id r, r\<lparr>ar_next_id := ar_next_id r + 1\<rparr>)"

definition alarm_register :: "nat \<Rightarrow> nat \<Rightarrow> bool \<Rightarrow> 'c \<Rightarrow> 'c alarm_registry \<Rightarrow> 'c alarm_registry" where
  "alarm_register i interval repeat callback r =
     r\<lparr>ar_entries := ar_entries r @ [(i, \<lparr>al_callback = callback, al_interval = interval, al_repeat = repeat,
                                           al_cancelled = False, al_finished = False\<rparr>)]\<rparr>"

definition alarm_add :: "nat \<Rightarrow> bool \<Rightarrow> 'c \<Rightarrow> 'c alarm_registry \<Rightarrow> nat \<times> 'c alarm_registry" where
  "alarm_add interval repeat callback r =
     (let (i, r) = alarm_take_id r in (i, alarm_register i interval repeat callback r))"

definition add_repeat :: "nat \<Rightarrow> 'c \<Rightarrow> 'c alarm_registry \<Rightarrow> nat \<times> 'c alarm_registry" where
  "add_repeat interval callback r = alarm_add interval True callback r"

definition add_once :: "nat \<Rightarrow> 'c \<Rightarrow> 'c alarm_registry \<Rightarrow> nat \<times> 'c alarm_registry" where
  "add_once interval callback r = alarm_add interval False callback r"

definition alarm_cancel :: "nat \<Rightarrow> 'c alarm_registry \<Rightarrow> bool \<times> 'c alarm_registry" where
  "alarm_cancel i r =
     (case map_of (ar_entries r) i of
        None \<Rightarrow> (False, r)
      | Some en \<Rightarrow> (\<not> al_cancelled en, r\<lparr>ar_entries := filter (\<lambda>(j, _). j \<noteq> i) (ar_entries r)\<rparr>))"

definition alarm_len :: "'c alarm_registry \<Rightarrow> nat" where
  "alarm_len r = length (filter (\<lambda>(_, en). \<not> al_cancelled en) (ar_entries r))"

definition alarm_is_empty :: "'c alarm_registry \<Rightarrow> bool" where
  "alarm_is_empty r \<longleftrightarrow> alarm_len r = 0"

definition alarm_shutdown :: "'c alarm_registry \<Rightarrow> 'c alarm_registry" where
  "alarm_shutdown r = r\<lparr>ar_entries := []\<rparr>"

text \<open>
  The sleep of alarm \<open>i\<close> is over: the callback to run, if any.  A task whose entry was cancelled
  or drained has been aborted; a one-shot task returns after its callback, and its entry stays.
\<close>

definition alarm_wake :: "nat \<Rightarrow> 'c alarm_registry \<Rightarrow> 'c option \<times> 'c alarm_registry" where
  "alarm_wake i r =
     (case map_of (ar_entries r) i of
        None \<Rightarrow> (None, r)
      | Some en \<Rightarrow>
         if al_cancelled en \<or> al_finished en then (None, r)
         else (Some (al_callback en),
               if al_repeat en then r
               else r\<lparr>ar_entries := map (\<lambda>(j, e). (j, if j = i then e\<lparr>al_finished := True\<rparr> else e)) (ar_entries r)\<rparr>))"

section \<open>Live alarms\<close>

definition alarms_wf :: "'c alarm_registry \<Rightarrow> bool" where
  "alarms_wf r \<longleftrightarrow> distinct (map fst (ar_entries r)) \<and> (\<forall>i\<in>fst ` set (ar_entries r). i < ar_next_id r)"

definition live :: "'c alarm_registry \<Rightarrow> nat \<Rightarrow> 'c option" where
  "live r i = (case map_of (ar_entries r) i of Some en \<Rightarrow> if al_finished en then None else Some (al_callback en) | None \<Rightarrow> None)"

definition uncancelled :: "'c alarm_registry \<Rightarrow> bool" where
  "uncancelled r \<longleftrightarrow> (\<forall>(i, en)\<in>set (ar_entries r). \<not> al_cancelled en)"

lemma map_of_snoc: "i \<notin> fst ` set xs \<Longrightarrow> map_of (xs @ [(i, v)]) = (map_of xs)(i \<mapsto> v)"
  by (induction xs) (auto simp: fun_eq_iff)

lemma map_of_drop: "map_of (filter (\<lambda>(j, _). j \<noteq> i) xs) = (map_of xs)(i := None)"
  by (induction xs) (auto simp: fun_eq_iff)

lemma alarm_add_live:
  assumes "alarms_wf r" and "alarm_add n rep cb r = (i, r')"
  shows "alarms_wf r' \<and> live r' = (live r)(i \<mapsto> cb) \<and> live r i = None \<and> (uncancelled r \<longrightarrow> uncancelled r')"
proof -
  have i: "i = ar_next_id r" "r' = r\<lparr>ar_next_id := i + 1, ar_entries := ar_entries r @
      [(i, \<lparr>al_callback = cb, al_interval = n, al_repeat = rep, al_cancelled = False, al_finished = False\<rparr>)]\<rparr>"
    using assms(2) by (auto simp: alarm_add_def alarm_take_id_def alarm_register_def)
  have fresh: "i \<notin> fst ` set (ar_entries r)" using assms(1) unfolding alarms_wf_def i(1) by blast
  then have "map_of (ar_entries r) i = None" by (simp add: map_of_eq_None_iff)
  moreover have "alarms_wf r'" using assms(1) fresh by (auto simp: alarms_wf_def i less_Suc_eq)
  ultimately show ?thesis
    using fresh by (auto simp: live_def i(2) map_of_snoc fun_eq_iff uncancelled_def simp del: map_of_append)
qed

lemma alarm_cancel_live:
  assumes "alarms_wf r" and "alarm_cancel i r = (b, r')"
  shows "alarms_wf r' \<and> live r' = (live r)(i := None) \<and> (uncancelled r \<longrightarrow> uncancelled r')"
proof (cases "map_of (ar_entries r) i")
  case None
  then show ?thesis using assms by (auto simp: alarm_cancel_def live_def fun_eq_iff)
next
  case (Some en)
  then have r': "r' = r\<lparr>ar_entries := filter (\<lambda>(j, _). j \<noteq> i) (ar_entries r)\<rparr>"
    using assms(2) by (simp add: alarm_cancel_def)
  have "distinct (map fst (filter (\<lambda>(j, _). j \<noteq> i) (ar_entries r)))"
    using assms(1) by (simp add: alarms_wf_def distinct_map_filter)
  then show ?thesis using assms(1) by (auto simp: r' alarms_wf_def live_def map_of_drop fun_eq_iff uncancelled_def)
qed

lemma alarm_wake_live:
  assumes "uncancelled r" shows "fst (alarm_wake i r) = live r i"
proof (cases "map_of (ar_entries r) i")
  case (Some en)
  then have "(i, en) \<in> set (ar_entries r)" by (rule map_of_SomeD)
  then show ?thesis using assms Some by (auto simp: alarm_wake_def live_def uncancelled_def)
qed (simp add: alarm_wake_def live_def)

lemma alarm_wake_keeps:
  assumes "alarms_wf r" and "uncancelled r" and "alarm_wake i r = (cb, r')"
  shows "alarms_wf r' \<and> uncancelled r' \<and> (\<forall>j k. live r' j = Some k \<longrightarrow> live r j = Some k)"
proof (cases "r' = r")
  case False
  then have r': "r' = r\<lparr>ar_entries := map (\<lambda>(j, e). (j, if j = i then e\<lparr>al_finished := True\<rparr> else e)) (ar_entries r)\<rparr>"
    using assms(3) by (auto simp: alarm_wake_def split: option.splits if_splits)
  have at: "map_of (map (\<lambda>(j, e). (j, if j = i then e\<lparr>al_finished := True\<rparr> else e)) xs) j =
      map_option (\<lambda>e. if j = i then e\<lparr>al_finished := True\<rparr> else e) (map_of xs j)"
    for xs :: "(nat \<times> 'a alarm_entry) list" and j
    by (induction xs) auto
  have "map fst (ar_entries r') = map fst (ar_entries r)" by (simp add: r' case_prod_beta comp_def)
  then have "alarms_wf r'" using assms(1) by (auto simp: alarms_wf_def r' image_image case_prod_beta comp_def)
  moreover have "uncancelled r'" using assms(2) by (fastforce simp: r' uncancelled_def split: if_splits)
  ultimately show ?thesis by (auto simp: r' live_def at split: option.splits if_splits)
qed (use assms in auto)

text \<open>The documentation says that a one-shot alarm removes itself; its entry stays and is counted.\<close>

lemma one_shot_stays_counted:
  assumes "alarms_wf r" and "add_once n cb r = (i, r')"
  shows "fst (alarm_wake i r') = Some cb \<and> alarm_len (snd (alarm_wake i r')) = alarm_len r + 1 \<and>
    fst (alarm_wake i (snd (alarm_wake i r'))) = None"
proof -
  let ?en = "\<lparr>al_callback = cb, al_interval = n, al_repeat = False, al_cancelled = False, al_finished = False\<rparr>"
  have i: "i = ar_next_id r" "r' = r\<lparr>ar_next_id := i + 1, ar_entries := ar_entries r @ [(i, ?en)]\<rparr>"
    using assms(2) by (auto simp: add_once_def alarm_add_def alarm_take_id_def alarm_register_def)
  have fresh: "i \<notin> fst ` set (ar_entries r)" using assms(1) unfolding alarms_wf_def i(1) by blast
  then have same: "map (\<lambda>(j, e). (j, if j = i then e\<lparr>al_finished := True\<rparr> else e)) (ar_entries r) = ar_entries r"
    by (intro map_idI) force
  have at: "map_of (ar_entries r @ [(i, v)]) i = Some v" for v using fresh by (simp add: map_of_snoc del: map_of_append)
  show ?thesis by (simp add: alarm_wake_def i(2) at same alarm_len_def del: map_of_append)
qed

end
