(* ===== verification/Disman_Schedule.thy ===== *)
theory Disman_Schedule
  imports Disman_Tables Snmp_Alarm Step_Systems
begin

text \<open>
  The DISMAN-SCHEDULE engine (\<^verbatim>\<open>disman/schedule.rs\<close>) on top of the alarm registry: entries that fire
  at an interval or when a calendar matches.  The callback of an alarm is the key of its entry.
  Wall-clock time is an argument: the local calendar fields and the seconds of the epoch.
\<close>

section \<open>Entries and calendars\<close>

definition SCHED_ENTRY :: oid where "SCHED_ENTRY = Oid [1, 3, 6, 1, 2, 1, 63, 1, 2, 1, 1]"

datatype sched_action = SchedNotification oid | SchedSet oid "value"

record calendar_spec =
  cal_weekday :: "u8 list"
  cal_month :: "u8 list"
  cal_day :: "u8 list"
  cal_hour :: "u8 list"
  cal_minute :: "u8 list"

definition any_time :: calendar_spec where
  "any_time = \<lparr>cal_weekday = [], cal_month = [], cal_day = [], cal_hour = [], cal_minute = []\<rparr>"

record wall_clock =
  now_weekday :: u8
  now_month :: u8
  now_day :: u8
  now_hour :: u8
  now_minute :: u8
  now_secs :: u64

definition cron_match_at :: "calendar_spec \<Rightarrow> wall_clock \<Rightarrow> bool" where
  "cron_match_at spec now =
     (if cal_weekday spec \<noteq> [] \<and> now_weekday now \<notin> set (cal_weekday spec) then False
      else if cal_month spec \<noteq> [] \<and> now_month now \<notin> set (cal_month spec) then False
      else if cal_day spec \<noteq> [] \<and> now_day now \<notin> set (cal_day spec) then False
      else if cal_hour spec \<noteq> [] \<and> now_hour now \<notin> set (cal_hour spec) then False
      else if cal_minute spec \<noteq> [] \<and> now_minute now \<notin> set (cal_minute spec) then False
      else True)"

text \<open>\<open>se_interval_duration\<close> is in milliseconds.\<close>

record sched_entry =
  se_owner :: string
  se_name :: string
  se_interval :: u32
  se_interval_duration :: nat
  se_calendar :: calendar_spec
  se_action :: sched_action
  se_enabled :: bool
  se_fire_count :: u64
  se_last_fire :: "u64 option"

definition sched_periodic :: "string \<Rightarrow> string \<Rightarrow> nat \<Rightarrow> sched_action \<Rightarrow> sched_entry" where
  "sched_periodic owner name interval act =
     \<lparr>se_owner = owner, se_name = name, se_interval = word_of_nat (interval div 1000), se_interval_duration = interval,
      se_calendar = any_time, se_action = act, se_enabled = True, se_fire_count = 0, se_last_fire = None\<rparr>"

definition sched_calendar :: "string \<Rightarrow> string \<Rightarrow> calendar_spec \<Rightarrow> sched_action \<Rightarrow> sched_entry" where
  "sched_calendar owner name spec act =
     \<lparr>se_owner = owner, se_name = name, se_interval = 0, se_interval_duration = 0,
      se_calendar = spec, se_action = act, se_enabled = True, se_fire_count = 0, se_last_fire = None\<rparr>"

section \<open>The engine\<close>

record 'w sched_engine =
  sd_entries :: "(string, sched_entry) hash_map"
  sd_alarms :: "string alarm_registry"
  sd_notify :: bool
  sd_self_query :: "'w mib_handler option"
  sd_started :: bool
  sd_alarm_ids :: "(string, nat) hash_map"

definition sched_new :: "bool \<Rightarrow> 'w sched_engine" where
  "sched_new notify =
     \<lparr>sd_entries = [], sd_alarms = alarms_new, sd_notify = notify, sd_self_query = None, sd_started = False,
      sd_alarm_ids = []\<rparr>"

definition cancel_recorded :: "string \<Rightarrow> 'w sched_engine \<Rightarrow> 'w sched_engine" where
  "cancel_recorded k e =
     (case hm_get (sd_alarm_ids e) k of
        None \<Rightarrow> e
      | Some i \<Rightarrow> e\<lparr>sd_alarms := snd (alarm_cancel i (sd_alarms e)), sd_alarm_ids := hm_remove k (sd_alarm_ids e)\<rparr>)"

definition spawn_alarm :: "string \<Rightarrow> 'w sched_engine \<Rightarrow> 'w sched_engine" where
  "spawn_alarm k e =
     (case hm_get (sd_entries e) k of
        None \<Rightarrow> e
      | Some entry \<Rightarrow>
         if \<not> se_enabled entry then e
         else (let e = cancel_recorded k e;
                   interval = (if se_interval_duration entry > 0 then se_interval_duration entry else 60000);
                   (i, alarms) = add_repeat interval k (sd_alarms e)
               in e\<lparr>sd_alarms := alarms, sd_alarm_ids := hm_insert k i (sd_alarm_ids e)\<rparr>))"

definition add_entry :: "sched_entry \<Rightarrow> 'w sched_engine \<Rightarrow> 'w sched_engine" where
  "add_entry entry e =
     (let k = table_key (se_owner entry) (se_name entry);
          entry = entry\<lparr>se_fire_count := 0, se_last_fire := None\<rparr>
      in spawn_alarm k (e\<lparr>sd_entries := hm_insert k entry (sd_entries e)\<rparr>))"

definition remove_sched :: "string \<Rightarrow> string \<Rightarrow> 'w sched_engine \<Rightarrow> sched_entry option \<times> 'w sched_engine" where
  "remove_sched owner name e =
     (let k = table_key owner name; e = cancel_recorded k e
      in (hm_get (sd_entries e) k, e\<lparr>sd_entries := hm_remove k (sd_entries e)\<rparr>))"

definition sched_start :: "'w sched_engine \<Rightarrow> 'w sched_engine" where
  "sched_start e =
     (if sd_started e then e
      else foldl (\<lambda>e k. spawn_alarm k e) (e\<lparr>sd_started := True\<rparr>) (map fst (sd_entries e)))"

definition saturating_inc :: "u64 \<Rightarrow> u64" where
  "saturating_inc n = (if n = - 1 then n else n + 1)"

definition sched_execute :: "'w sched_engine \<Rightarrow> sched_action \<Rightarrow> ('w, oid list) state" where
  "sched_execute e act =
     (case act of
        SchedNotification o1 \<Rightarrow> State_Monad.return (if sd_notify e then [o1] else [])
      | SchedSet o1 v \<Rightarrow>
          (case sd_self_query e of
             Some h \<Rightarrow> do { r \<leftarrow> h_commit_set h o1 v; State_Monad.return [] }
           | None \<Rightarrow> State_Monad.return []))"

definition sched_fire :: "string \<Rightarrow> wall_clock \<Rightarrow> 'w sched_engine \<Rightarrow> ('w, 'w sched_engine \<times> oid list) state" where
  "sched_fire k now e =
     (case hm_get (sd_entries e) k of
        None \<Rightarrow> State_Monad.return (e, [])
      | Some entry \<Rightarrow>
         if se_interval entry = 0 \<and> \<not> cron_match_at (se_calendar entry) now then State_Monad.return (e, [])
         else do { let e' = e\<lparr>sd_entries := hm_insert k
                      (entry\<lparr>se_fire_count := saturating_inc (se_fire_count entry), se_last_fire := Some (now_secs now)\<rparr>)
                      (sd_entries e)\<rparr>;
                   sent \<leftarrow> sched_execute e' (se_action entry);
                   State_Monad.return (e', sent) })"

text \<open>The sleep of alarm \<open>i\<close> is over.\<close>

definition sched_tick :: "nat \<Rightarrow> wall_clock \<Rightarrow> 'w sched_engine \<Rightarrow> ('w, 'w sched_engine \<times> oid list) state" where
  "sched_tick i now e =
     (case alarm_wake i (sd_alarms e) of
        (None, alarms) \<Rightarrow> State_Monad.return (e\<lparr>sd_alarms := alarms\<rparr>, [])
      | (Some k, alarms) \<Rightarrow> sched_fire k now (e\<lparr>sd_alarms := alarms\<rparr>))"

text \<open>Calls that run one at a time, each to its end before the next one begins.\<close>

inductive sched_serial :: "'w sched_engine \<Rightarrow> 'w sched_engine \<Rightarrow> bool" where
  "sched_serial e (add_entry entry e)"
| "sched_serial e (snd (remove_sched owner name e))"
| "sched_serial e (sched_start e)"
| "run_state (sched_tick i now e) w = ((e', sent), w') \<Longrightarrow> sched_serial e e'"

section \<open>Overlapping calls\<close>

text \<open>
  Tasks of the runtime call the engine concurrently.  No lock is held across an \<open>await\<close> or from one
  access of the engine's tables to the next, so a call is a sequence of the operations below, each of
  them one critical section, and the operations of different calls interleave freely.  \<open>ReadEntry\<close> up to
  \<open>RecordAlarm\<close> are \<open>spawn_alarm\<close>, with \<open>add_repeat\<close> as its two inner operations; \<open>FireEntry\<close>,
  \<open>CountFire\<close> and \<open>RunAction\<close> are \<open>fire\<close>.
\<close>

datatype sched_op =
    InsertEntry sched_entry
  | ReadEntry string
  | CancelOld string nat
  | TakeId string nat
  | RegisterAlarm string nat nat
  | RecordAlarm string nat
  | ForgetAlarm string
  | DropEntry string
  | MarkStarted
  | ListKeys
  | FireEntry string wall_clock
  | CountFire string wall_clock
  | RunAction string sched_action

text \<open>The effect of an operation on the engine, and what its call does next.\<close>

fun sched_exec :: "sched_op \<Rightarrow> 'w sched_engine \<Rightarrow> 'w sched_engine \<times> sched_op list" where
  "sched_exec (InsertEntry entry) e =
     (let k = table_key (se_owner entry) (se_name entry);
          entry = entry\<lparr>se_fire_count := 0, se_last_fire := None\<rparr>
      in (e\<lparr>sd_entries := hm_insert k entry (sd_entries e)\<rparr>, [ReadEntry k]))"
| "sched_exec (ReadEntry k) e =
     (case hm_get (sd_entries e) k of
        None \<Rightarrow> (e, [])
      | Some entry \<Rightarrow>
         if \<not> se_enabled entry then (e, [])
         else (e, [CancelOld k (if se_interval_duration entry > 0 then se_interval_duration entry else 60000)]))"
| "sched_exec (CancelOld k interval) e = (cancel_recorded k e, [TakeId k interval])"
| "sched_exec (TakeId k interval) e =
     (let (i, alarms) = alarm_take_id (sd_alarms e) in (e\<lparr>sd_alarms := alarms\<rparr>, [RegisterAlarm k interval i]))"
| "sched_exec (RegisterAlarm k interval i) e =
     (e\<lparr>sd_alarms := alarm_register i interval True k (sd_alarms e)\<rparr>, [RecordAlarm k i])"
| "sched_exec (RecordAlarm k i) e = (e\<lparr>sd_alarm_ids := hm_insert k i (sd_alarm_ids e)\<rparr>, [])"
| "sched_exec (ForgetAlarm k) e = (cancel_recorded k e, [DropEntry k])"
| "sched_exec (DropEntry k) e = (e\<lparr>sd_entries := hm_remove k (sd_entries e)\<rparr>, [])"
| "sched_exec MarkStarted e = (if sd_started e then (e, []) else (e\<lparr>sd_started := True\<rparr>, [ListKeys]))"
| "sched_exec ListKeys e = (e, map (ReadEntry \<circ> fst) (sd_entries e))"
| "sched_exec (FireEntry k now) e =
     (case hm_get (sd_entries e) k of
        None \<Rightarrow> (e, [])
      | Some entry \<Rightarrow>
         if se_interval entry = 0 \<and> \<not> cron_match_at (se_calendar entry) now then (e, [])
         else (e, [CountFire k now, RunAction k (se_action entry)]))"
| "sched_exec (CountFire k now) e =
     (case hm_get (sd_entries e) k of
        None \<Rightarrow> (e, [])
      | Some entry \<Rightarrow>
         (e\<lparr>sd_entries := hm_insert k
             (entry\<lparr>se_fire_count := saturating_inc (se_fire_count entry), se_last_fire := Some (now_secs now)\<rparr>)
             (sd_entries e)\<rparr>, []))"
| "sched_exec (RunAction k act) e = (e, [])"

text \<open>
  The engine, the calls under way, the world its handler acts on, and the actions run so far with
  the key of their entry.
\<close>

record 'w sched_system =
  sy_engine :: "'w sched_engine"
  sy_tasks :: "sched_op list list"
  sy_world :: 'w
  sy_fired :: "(string \<times> sched_action) list"
  sy_sent :: "oid list"

definition sched_system_new :: "bool \<Rightarrow> 'w \<Rightarrow> 'w sched_system" where
  "sched_system_new notify w =
     \<lparr>sy_engine = sched_new notify, sy_tasks = [], sy_world = w, sy_fired = [], sy_sent = []\<rparr>"

text \<open>What happens: a call begins, the sleep of an alarm is over, or call \<open>t\<close> does its next operation.\<close>

datatype 'w sched_label =
    CallAdd sched_entry
  | CallRemove string string
  | CallStart
  | SetSelfQuery "'w mib_handler"
  | Tick nat wall_clock
  | Run nat

definition begin_task :: "sched_op list \<Rightarrow> 'w sched_system \<Rightarrow> 'w sched_system" where
  "begin_task ops s = s\<lparr>sy_tasks := sy_tasks s @ [ops]\<rparr>"

definition run_action :: "sched_op \<Rightarrow> 'w sched_system \<Rightarrow> 'w sched_system" where
  "run_action oper s =
     (case oper of
        RunAction k act \<Rightarrow>
          (let (sent, w) = run_state (sched_execute (sy_engine s) act) (sy_world s)
           in s\<lparr>sy_world := w, sy_fired := sy_fired s @ [(k, act)], sy_sent := sy_sent s @ sent\<rparr>)
      | _ \<Rightarrow> s)"

definition run_task :: "nat \<Rightarrow> 'w sched_system \<Rightarrow> 'w sched_system" where
  "run_task t s =
     (if t < length (sy_tasks s)
      then (case sy_tasks s ! t of
              [] \<Rightarrow> s
            | oper # rest \<Rightarrow>
                (let (e, todo) = sched_exec oper (sy_engine s)
                 in (run_action oper s)\<lparr>sy_engine := e, sy_tasks := (sy_tasks s)[t := todo @ rest]\<rparr>))
      else s)"

fun sched_next :: "'w sched_label \<Rightarrow> 'w sched_system \<Rightarrow> 'w sched_system" where
  "sched_next (CallAdd entry) s = begin_task [InsertEntry entry] s"
| "sched_next (CallRemove owner name) s = begin_task [ForgetAlarm (table_key owner name)] s"
| "sched_next CallStart s = begin_task [MarkStarted] s"
| "sched_next (SetSelfQuery h) s = s\<lparr>sy_engine := (sy_engine s)\<lparr>sd_self_query := Some h\<rparr>\<rparr>"
| "sched_next (Tick i now) s =
     (case alarm_wake i (sd_alarms (sy_engine s)) of
        (None, alarms) \<Rightarrow> s\<lparr>sy_engine := (sy_engine s)\<lparr>sd_alarms := alarms\<rparr>\<rparr>
      | (Some k, alarms) \<Rightarrow> begin_task [FireEntry k now] (s\<lparr>sy_engine := (sy_engine s)\<lparr>sd_alarms := alarms\<rparr>\<rparr>))"
| "sched_next (Run t) s = run_task t s"

definition sched_run :: "'w sched_label list \<Rightarrow> 'w sched_system \<Rightarrow> 'w sched_system" where
  "sched_run ls s = fold sched_next ls s"

section \<open>The table\<close>

definition sched_columns :: "sched_entry \<Rightarrow> (u32 \<times> value) list" where
  "sched_columns en =
     [(2, OctetString (as_bytes (se_owner en))), (3, OctetString (as_bytes (se_name en))),
      (4, Gauge32 (se_interval en)),
      (16, Integer (case se_action en of SchedNotification _ \<Rightarrow> 1 | SchedSet _ _ \<Rightarrow> 2)),
      (19, OidValue (case se_action en of SchedNotification o1 \<Rightarrow> o1 | _ \<Rightarrow> null_oid)),
      (20, OidValue (case se_action en of SchedSet o1 v \<Rightarrow> o1 | _ \<Rightarrow> null_oid)),
      (21, case se_action en of SchedSet o1 v \<Rightarrow> v | _ \<Rightarrow> Null),
      (13, Integer (row_as_i64 Active))]"

definition sched_rows :: "'w sched_engine \<Rightarrow> (u32 list \<times> (u32 \<times> value) list) list" where
  "sched_rows e = map (\<lambda>(k, en). (entry_index (se_owner en) (se_name en), sched_columns en)) (sd_entries e)"

definition sched_ok :: "'w sched_engine \<Rightarrow> bool" where
  "sched_ok e \<longleftrightarrow> keyed se_owner se_name (sd_entries e)"

interpretation sched_table: row_table SCHED_ENTRY sched_rows sched_ok
  by unfold_locales (auto simp: sched_rows_def sched_ok_def keyed_index sched_columns_def simp del: map_map)

lemma cancel_recorded_entries [simp]: "sd_entries (cancel_recorded k e) = sd_entries e"
  by (simp add: cancel_recorded_def split: option.split)

lemma spawn_alarm_entries [simp]: "sd_entries (spawn_alarm k e) = sd_entries e"
  by (simp add: spawn_alarm_def Let_def case_prod_unfold split: option.split)

lemma sched_exec_ok:
  assumes "sched_ok e" shows "sched_ok (fst (sched_exec oper e))"
proof (cases oper)
  case (DropEntry k)
  then show ?thesis using assms by (simp add: sched_ok_def keyed_remove)
qed (use assms in \<open>auto simp: sched_ok_def Let_def case_prod_unfold keyed_def set_hm_insert distinct_hm_insert
      dest!: map_of_SomeD subsetD [OF set_hm_insert] split: option.splits if_splits\<close>)

text \<open>The table handler meets an engine whose keys are those of its entries, whatever has run.\<close>

lemma sched_next_ok: "sched_ok (sy_engine s) \<Longrightarrow> sched_ok (sy_engine (sched_next l s))"
  using sched_exec_ok [of "sy_engine s"]
  by (cases l)
    (auto simp: begin_task_def run_task_def sched_ok_def case_prod_unfold Let_def split: option.split list.split)

lemma sched_run_ok: "sched_ok (sy_engine (sched_run ls (sched_system_new n w)))"
proof -
  have "sched_ok (sy_engine (fold sched_next ls s))" if "sched_ok (sy_engine s)" for s :: "'a sched_system"
    using that by (induction ls arbitrary: s) (simp_all add: sched_next_ok del: sched_next.simps)
  moreover have "sched_ok (sy_engine (sched_system_new n w))"
    by (simp add: sched_system_new_def sched_new_def sched_ok_def keyed_def)
  ultimately show ?thesis unfolding sched_run_def by blast
qed

section \<open>Calls that do not overlap\<close>

text \<open>Then every live alarm is the recorded alarm of its entry.\<close>

definition sched_inv :: "'w sched_engine \<Rightarrow> bool" where
  "sched_inv e \<longleftrightarrow> alarms_wf (sd_alarms e) \<and> uncancelled (sd_alarms e) \<and> distinct (map fst (sd_alarm_ids e)) \<and>
     (\<forall>i k. live (sd_alarms e) i = Some k \<longrightarrow> hm_get (sd_alarm_ids e) k = Some i)"

lemma sched_inv_entries [simp]: "sched_inv (e\<lparr>sd_entries := es\<rparr>) = sched_inv e" "sched_inv (e\<lparr>sd_started := b\<rparr>) = sched_inv e"
  by (simp_all add: sched_inv_def)

lemma cancel_recorded_inv:
  assumes "sched_inv e"
  shows "sched_inv (cancel_recorded k e) \<and> (\<forall>i. live (sd_alarms (cancel_recorded k e)) i \<noteq> Some k)"
proof (cases "hm_get (sd_alarm_ids e) k")
  case None
  then show ?thesis using assms by (auto simp: cancel_recorded_def sched_inv_def)
next
  case (Some i)
  obtain b r' where c: "alarm_cancel i (sd_alarms e) = (b, r')" by fastforce
  have wf: "alarms_wf (sd_alarms e)" using assms by (simp add: sched_inv_def)
  have only: "j = i" if "live (sd_alarms e) j = Some k" for j
    using assms Some that unfolding sched_inv_def by (metis option.inject)
  from alarm_cancel_live [OF wf c] show ?thesis
    using assms Some c only
    by (auto simp: cancel_recorded_def sched_inv_def hm_get_remove distinct_hm_remove split: if_splits)
qed

lemma spawn_alarm_inv:
  assumes "sched_inv e" shows "sched_inv (spawn_alarm k e)"
proof (cases "\<exists>entry. hm_get (sd_entries e) k = Some entry \<and> se_enabled entry")
  case True
  then obtain entry where en: "hm_get (sd_entries e) k = Some entry" "se_enabled entry" by blast
  let ?c = "cancel_recorded k e"
  let ?n = "if se_interval_duration entry > 0 then se_interval_duration entry else 60000"
  obtain i r' where a: "alarm_add ?n True k (sd_alarms ?c) = (i, r')" by fastforce
  have c: "sched_inv ?c" "\<And>j. live (sd_alarms ?c) j \<noteq> Some k" using cancel_recorded_inv [OF assms] by blast+
  have "spawn_alarm k e = ?c\<lparr>sd_alarms := r', sd_alarm_ids := hm_insert k i (sd_alarm_ids ?c)\<rparr>"
    using en a by (simp add: spawn_alarm_def add_repeat_def Let_def)
  moreover have "alarms_wf (sd_alarms ?c)" using c(1) by (simp add: sched_inv_def)
  ultimately show ?thesis
    using alarm_add_live [OF _ a] c by (auto simp: sched_inv_def hm_get_insert distinct_hm_insert split: if_splits)
qed (use assms in \<open>auto simp: spawn_alarm_def split: option.splits\<close>)

lemma sched_fire_alarms:
  "run_state (sched_fire k now e) w = ((e', sent), w') \<Longrightarrow> sd_alarms e' = sd_alarms e \<and> sd_alarm_ids e' = sd_alarm_ids e"
  by (auto simp: sched_fire_def Let_def split: option.splits if_splits prod.splits)

interpretation sched: step_invariant "\<lambda>e. \<exists>n. e = sched_new n" sched_serial sched_inv
proof
  fix e :: "'w sched_engine"
  assume "\<exists>n. e = sched_new n"
  then show "sched_inv e" by (auto simp: sched_new_def sched_inv_def alarms_new_def alarms_wf_def uncancelled_def live_def)
next
  fix e e' :: "'w sched_engine"
  assume "sched_serial e e'" "sched_inv e"
  then show "sched_inv e'"
  proof cases
    case (1 entry)
    then show ?thesis using \<open>sched_inv e\<close> by (simp add: add_entry_def Let_def spawn_alarm_inv)
  next
    case (2 owner name)
    then show ?thesis using cancel_recorded_inv [OF \<open>sched_inv e\<close>] by (simp add: remove_sched_def Let_def)
  next
    case 3
    have "sched_inv (foldl (\<lambda>e k. spawn_alarm k e) e ks)" if "sched_inv e" for ks and e :: "'w sched_engine"
      using that by (induction ks arbitrary: e) (simp_all add: spawn_alarm_inv)
    then show ?thesis using 3 \<open>sched_inv e\<close> by (simp add: sched_start_def)
  next
    case (4 i now w sent w')
    obtain cb r' where wk: "alarm_wake i (sd_alarms e) = (cb, r')" by fastforce
    have wf: "alarms_wf (sd_alarms e)" "uncancelled (sd_alarms e)" using \<open>sched_inv e\<close> by (simp_all add: sched_inv_def)
    have "sd_alarms e' = r' \<and> sd_alarm_ids e' = sd_alarm_ids e"
      using 4 wk by (cases cb) (auto simp: sched_tick_def dest!: sched_fire_alarms)
    then show ?thesis using alarm_wake_keeps [OF wf wk] \<open>sched_inv e\<close> by (auto simp: sched_inv_def)
  qed
qed

section \<open>Properties\<close>

subsection \<open>A call that runs alone\<close>

lemma sched_run_Nil [simp]: "sched_run [] s = s"
  by (simp add: sched_run_def)

lemma sched_run_Cons [simp]: "sched_run (l # ls) s = sched_run ls (sched_next l s)"
  by (simp add: sched_run_def)

lemma sched_run_append: "sched_run (ls @ ls') s = sched_run ls' (sched_run ls s)"
  by (simp add: sched_run_def)

lemma run_task_head:
  assumes "t < length (sy_tasks s)" and "sy_tasks s ! t = oper # rest"
    and "sched_exec oper (sy_engine s) = (e, todo)"
  shows "run_task t s = (run_action oper s)\<lparr>sy_engine := e, sy_tasks := (sy_tasks s)[t := todo @ rest]\<rparr>"
  using assms by (simp add: run_task_def)

text \<open>The state in which call \<open>t\<close> has \<open>ops\<close> left to do and the engine is \<open>e\<close>.\<close>

definition at_task :: "nat \<Rightarrow> sched_op list \<Rightarrow> 'w sched_engine \<Rightarrow> 'w sched_system \<Rightarrow> 'w sched_system" where
  "at_task t ops e s = s\<lparr>sy_engine := e, sy_tasks := (sy_tasks s)[t := ops]\<rparr>"

lemma run_at_task:
  assumes "t < length (sy_tasks s)" and "\<And>k act. oper \<noteq> RunAction k act"
  shows "run_task t (at_task t (oper # rest) e s) =
    at_task t (snd (sched_exec oper e) @ rest) (fst (sched_exec oper e)) s"
  using assms by (cases oper) (auto simp: run_task_def at_task_def run_action_def case_prod_unfold Let_def)

lemma run_at_task_Nil [simp]: "run_task t (at_task t [] e s) = at_task t [] e s"
  by (simp add: run_task_def at_task_def)

lemma spawn_runs_alone:
  assumes "t < length (sy_tasks s)"
  shows "\<exists>n. sched_run (replicate n (Run t)) (at_task t (ReadEntry k # rest) e s) = at_task t rest (spawn_alarm k e) s"
proof (cases "\<exists>entry. hm_get (sd_entries e) k = Some entry \<and> se_enabled entry")
  case True
  then obtain entry where "hm_get (sd_entries e) k = Some entry" "se_enabled entry" by blast
  then have "sched_run (replicate 5 (Run t)) (at_task t (ReadEntry k # rest) e s) = at_task t rest (spawn_alarm k e) s"
    using assms
    by (simp add: numeral_eq_Suc run_at_task spawn_alarm_def add_repeat_def alarm_add_def Let_def case_prod_unfold)
  then show ?thesis by blast
next
  case False
  then have "sched_run [Run t] (at_task t (ReadEntry k # rest) e s) = at_task t rest (spawn_alarm k e) s"
    using assms by (auto simp: run_at_task spawn_alarm_def split: option.split)
  then show ?thesis by (intro exI [of _ 1]) simp
qed

lemma spawns_run_alone:
  assumes "t < length (sy_tasks s)"
  shows "\<exists>n. sched_run (replicate n (Run t)) (at_task t (map ReadEntry ks) e s) =
    at_task t [] (foldl (\<lambda>e k. spawn_alarm k e) e ks) s"
proof (induction ks arbitrary: e)
  case Nil
  show ?case by (intro exI [of _ 0]) simp
next
  case (Cons k ks)
  obtain n where "sched_run (replicate n (Run t)) (at_task t (ReadEntry k # map ReadEntry ks) e s) =
      at_task t (map ReadEntry ks) (spawn_alarm k e) s"
    using spawn_runs_alone [OF assms] by blast
  moreover obtain m where "sched_run (replicate m (Run t)) (at_task t (map ReadEntry ks) (spawn_alarm k e) s) =
      at_task t [] (foldl (\<lambda>e k. spawn_alarm k e) (spawn_alarm k e) ks) s"
    using Cons by blast
  ultimately show ?case by (intro exI [of _ "n + m"]) (simp add: replicate_add sched_run_append)
qed

lemma begin_at_task: "begin_task ops s = at_task (length (sy_tasks s)) ops (sy_engine s) (begin_task [] s)"
  by (simp add: begin_task_def at_task_def)

lemma begin_task_length [simp]: "length (sy_tasks (begin_task ops s)) = Suc (length (sy_tasks s))"
  by (simp add: begin_task_def)

lemma sy_engine_at_task [simp]: "sy_engine (at_task t ops e s) = e"
  by (simp add: at_task_def)

lemma add_runs_alone: "\<exists>ls. sy_engine (sched_run ls s) = add_entry entry (sy_engine s)"
proof -
  let ?t = "length (sy_tasks s)" and ?k = "table_key (se_owner entry) (se_name entry)"
  let ?e = "(sy_engine s)\<lparr>sd_entries := hm_insert ?k (entry\<lparr>se_fire_count := 0, se_last_fire := None\<rparr>) (sd_entries (sy_engine s))\<rparr>"
  obtain n where "sched_run (replicate n (Run ?t)) (at_task ?t [ReadEntry ?k] ?e (begin_task [] s)) =
      at_task ?t [] (spawn_alarm ?k ?e) (begin_task [] s)"
    using spawn_runs_alone [of ?t "begin_task [] s" ?k "[]" ?e] by auto
  then have "sched_run (CallAdd entry # Run ?t # replicate n (Run ?t)) s = at_task ?t [] (spawn_alarm ?k ?e) (begin_task [] s)"
    by (simp add: begin_at_task [of "[InsertEntry entry]"] run_at_task Let_def)
  then show ?thesis by (metis add_entry_def sy_engine_at_task)
qed

lemma remove_runs_alone: "\<exists>ls. sy_engine (sched_run ls s) = snd (remove_sched owner name (sy_engine s))"
  by (intro exI [of _ "[CallRemove owner name, Run (length (sy_tasks s)), Run (length (sy_tasks s))]"])
    (simp add: begin_at_task [of "[ForgetAlarm k]" for k] run_at_task remove_sched_def Let_def)

lemma start_runs_alone: "\<exists>ls. sy_engine (sched_run ls s) = sched_start (sy_engine s)"
proof (cases "sd_started (sy_engine s)")
  case True
  then show ?thesis
    by (intro exI [of _ "[CallStart, Run (length (sy_tasks s))]"])
      (simp add: begin_at_task [of "[MarkStarted]"] run_at_task sched_start_def)
next
  case False
  let ?t = "length (sy_tasks s)" and ?e = "(sy_engine s)\<lparr>sd_started := True\<rparr>"
  let ?ks = "map fst (sd_entries (sy_engine s))"
  obtain n where "sched_run (replicate n (Run ?t)) (at_task ?t (map ReadEntry ?ks) ?e (begin_task [] s)) =
      at_task ?t [] (foldl (\<lambda>e k. spawn_alarm k e) ?e ?ks) (begin_task [] s)"
    using spawns_run_alone [of ?t "begin_task [] s" ?ks ?e] by auto
  then have "sched_run (CallStart # Run ?t # Run ?t # replicate n (Run ?t)) s =
      at_task ?t [] (foldl (\<lambda>e k. spawn_alarm k e) ?e ?ks) (begin_task [] s)"
    using False by (simp add: begin_at_task [of "[MarkStarted]"] run_at_task comp_def)
  then show ?thesis using False by (metis sched_start_def sy_engine_at_task)
qed

lemma tick_runs_alone:
  assumes "run_state (sched_tick i now (sy_engine s)) w = ((e', sent), w')"
  shows "\<exists>ls. sy_engine (sched_run ls s) = e'"
proof -
  obtain cb r' where wk: "alarm_wake i (sd_alarms (sy_engine s)) = (cb, r')" by fastforce
  show ?thesis
  proof (cases cb)
    case None
    then show ?thesis using assms wk by (intro exI [of _ "[Tick i now]"]) (auto simp: sched_tick_def)
  next
    case (Some k)
    let ?t = "length (sy_tasks s)" and ?s = "s\<lparr>sy_engine := (sy_engine s)\<lparr>sd_alarms := r'\<rparr>\<rparr>"
    have "sy_engine (sched_run [Tick i now, Run ?t, Run ?t] s) = e'"
      using assms wk Some
      by (auto simp: begin_at_task [of "[FireEntry k now]"] run_at_task sched_tick_def sched_fire_def Let_def
          split: option.splits if_splits prod.splits)
    then show ?thesis by blast
  qed
qed

text \<open>Every run of calls one at a time is a run of the system.\<close>

lemma serial_is_a_run:
  assumes "sched_serial\<^sup>*\<^sup>* e e'" and "sy_engine s = e"
  shows "\<exists>ls. sy_engine (sched_run ls s) = e'"
  using assms
proof (induction rule: rtranclp_induct)
  case base
  then show ?case by (intro exI [of _ "[]"]) simp
next
  case (step e1 e2)
  then obtain ls where e1: "sy_engine (sched_run ls s) = e1" by blast
  from \<open>sched_serial e1 e2\<close> have "\<exists>ls'. sy_engine (sched_run ls' (sched_run ls s)) = e2"
    unfolding e1 [symmetric]
    by cases (blast intro: add_runs_alone remove_runs_alone start_runs_alone tick_runs_alone)+
  then show ?case by (metis sched_run_append)
qed

subsection \<open>Two calls that overlap\<close>

definition demo_entry :: sched_entry where
  "demo_entry = sched_periodic [] ''a'' 5000 (SchedNotification (Oid [1, 9]))"

definition demo_clock :: wall_clock where
  "demo_clock = \<lparr>now_weekday = 0, now_month = 1, now_day = 1, now_hour = 0, now_minute = 0, now_secs = 0\<rparr>"

text \<open>\<open>add_entry\<close> and \<open>start\<close> both register an alarm for the new entry, and the second to record its
  identifier overwrites the first.\<close>

definition race :: "unit sched_label list" where
  "race = [CallAdd demo_entry, CallStart, Run 0, Run 1, Run 1, Run 0, Run 1, Run 0, Run 1,
     Run 0, Run 0, Run 1, Run 1, Run 0, Run 1]"

lemmas sched_eval = sched_system_new_def sched_new_def alarms_new_def race_def demo_entry_def demo_clock_def
  sched_periodic_def any_time_def begin_task_def run_task_def run_action_def cancel_recorded_def
  alarm_take_id_def alarm_register_def alarm_cancel_def alarm_wake_def live_def hm_remove_def table_key_def
  sched_execute_def saturating_inc_def Let_def

text \<open>
  Both alarms are live, one of them is not recorded.  Removing the entry cancels the recorded one
  only; when the entry is added again it fires twice in each interval.
\<close>

lemma overlapping_spawns_leave_an_alarm:
  fixes s1 s2 s3 :: "unit sched_system"
  defines "s1 \<equiv> sched_run race (sched_system_new True ())"
  defines "s2 \<equiv> sched_run [CallRemove [] ''a'', Run 2, Run 2] s1"
  defines "s3 \<equiv> sched_run [CallAdd demo_entry, Run 3, Run 3, Run 3, Run 3, Run 3, Run 3,
    Tick 0 demo_clock, Tick 2 demo_clock, Run 4, Run 4, Run 4, Run 5, Run 5, Run 5] s2"
  shows "live (sd_alarms (sy_engine s1)) 0 = Some (table_key [] ''a'') \<and>
    live (sd_alarms (sy_engine s1)) 1 = Some (table_key [] ''a'') \<and>
    sd_alarm_ids (sy_engine s1) = [(table_key [] ''a'', 1)]"
    and "sd_entries (sy_engine s2) = [] \<and> live (sd_alarms (sy_engine s2)) 0 = Some (table_key [] ''a'')"
    and "sy_sent s3 = [Oid [1, 9], Oid [1, 9]]"
proof -
  have s1: "s1 = \<lparr>sy_engine = \<lparr>sd_entries = [(table_key [] ''a'', demo_entry)],
      sd_alarms = alarm_register 1 5000 True (table_key [] ''a'') (alarm_register 0 5000 True (table_key [] ''a'')
        \<lparr>ar_next_id = 2, ar_entries = []\<rparr>),
      sd_notify = True, sd_self_query = None, sd_started = True, sd_alarm_ids = [(table_key [] ''a'', 1)]\<rparr>,
      sy_tasks = [[], []], sy_world = (), sy_fired = [], sy_sent = []\<rparr>"
    by (simp add: s1_def sched_eval)
  have s2: "s2 = \<lparr>sy_engine = \<lparr>sd_entries = [],
      sd_alarms = alarm_register 0 5000 True (table_key [] ''a'') \<lparr>ar_next_id = 2, ar_entries = []\<rparr>,
      sd_notify = True, sd_self_query = None, sd_started = True, sd_alarm_ids = []\<rparr>,
      sy_tasks = [[], [], []], sy_world = (), sy_fired = [], sy_sent = []\<rparr>"
    by (simp add: s2_def s1 sched_eval)
  show "live (sd_alarms (sy_engine s1)) 0 = Some (table_key [] ''a'') \<and>
    live (sd_alarms (sy_engine s1)) 1 = Some (table_key [] ''a'') \<and>
    sd_alarm_ids (sy_engine s1) = [(table_key [] ''a'', 1)]"
    by (simp add: s1 sched_eval)
  show "sd_entries (sy_engine s2) = [] \<and> live (sd_alarms (sy_engine s2)) 0 = Some (table_key [] ''a'')"
    by (simp add: s2 sched_eval)
  show "sy_sent s3 = [Oid [1, 9], Oid [1, 9]]"
    by (simp add: s3_def s2 sched_eval)
qed

subsection \<open>Removed entries\<close>

fun op_adds :: "string \<Rightarrow> sched_op \<Rightarrow> bool" where
  "op_adds k (InsertEntry entry) = (table_key (se_owner entry) (se_name entry) = k)"
| "op_adds k _ = False"

fun op_acts :: "string \<Rightarrow> sched_op \<Rightarrow> bool" where
  "op_acts k (RunAction k' act) = (k' = k)"
| "op_acts k _ = False"

fun label_adds :: "string \<Rightarrow> 'w sched_label \<Rightarrow> bool" where
  "label_adds k (CallAdd entry) = (table_key (se_owner entry) (se_name entry) = k)"
| "label_adds k _ = False"

text \<open>A call that is about to insert an entry under \<open>k\<close>; the firings of \<open>k\<close> that have read their entry
  and still have to run its action; the actions run for \<open>k\<close>.\<close>

definition adding :: "string \<Rightarrow> 'w sched_system \<Rightarrow> bool" where
  "adding k s = list_ex (list_ex (op_adds k)) (sy_tasks s)"

definition pending_fires :: "string \<Rightarrow> 'w sched_system \<Rightarrow> nat" where
  "pending_fires k s = sum_list (map (\<lambda>ops. length (filter (op_acts k) ops)) (sy_tasks s))"

definition fired_count :: "string \<Rightarrow> 'w sched_system \<Rightarrow> nat" where
  "fired_count k s = length (filter (\<lambda>(k', act). k' = k) (sy_fired s))"

definition absent :: "string \<Rightarrow> nat \<Rightarrow> 'w sched_system \<Rightarrow> bool" where
  "absent k n s \<longleftrightarrow> hm_get (sd_entries (sy_engine s)) k = None \<and> \<not> adding k s \<and> fired_count k s + pending_fires k s = n"

lemma nth_split:
  assumes "t < length xs"
  obtains ys zs where "xs = ys @ xs ! t # zs" and "t = length ys"
  using that [of "take t xs" "drop (Suc t) xs"] assms by (simp add: id_take_nth_drop [symmetric])

lemma sched_exec_absent:
  assumes "sched_exec oper e = (e', todo)" and "hm_get (sd_entries e) k = None" and "\<not> op_adds k oper"
  shows "hm_get (sd_entries e') k = None \<and> filter (op_acts k) todo = [] \<and> \<not> list_ex (op_adds k) todo"
  using assms
  by (cases oper)
    (auto simp: hm_get_insert hm_get_remove filter_empty_conv list_ex_iff Let_def case_prod_unfold
      split: option.splits if_splits)

lemma run_action_fields [simp]:
  "sy_tasks (run_action oper s) = sy_tasks s"
  "fired_count k (run_action oper s) = fired_count k s + (if op_acts k oper then 1 else 0)"
  by (auto simp: run_action_def fired_count_def Let_def case_prod_unfold split: sched_op.split)

lemma fired_count_update [simp]: "fired_count k (s\<lparr>sy_engine := e, sy_tasks := ts\<rparr>) = fired_count k s"
  by (simp add: fired_count_def)

lemma run_task_absent:
  assumes "absent k n s" shows "absent k n (run_task t s)"
proof (cases "t < length (sy_tasks s) \<and> sy_tasks s ! t \<noteq> []")
  case True
  then obtain oper rest where head: "sy_tasks s ! t = oper # rest" by (meson neq_Nil_conv)
  obtain e todo where ex: "sched_exec oper (sy_engine s) = (e, todo)" by fastforce
  obtain ys zs where ts: "sy_tasks s = ys @ (oper # rest) # zs" "t = length ys"
    using nth_split [of t "sy_tasks s"] True head by metis
  have "\<not> op_adds k oper" using assms ts(1) by (simp add: absent_def adding_def)
  then have "hm_get (sd_entries e) k = None" "filter (op_acts k) todo = []" "\<not> list_ex (op_adds k) todo"
    using sched_exec_absent [OF ex] assms by (auto simp: absent_def)
  then show ?thesis
    using assms True unfolding run_task_head [OF conjunct1 [OF True] head ex]
    by (auto simp: absent_def adding_def pending_fires_def ts)
qed (use assms in \<open>auto simp: run_task_def split: list.split\<close>)

lemma sched_next_absent:
  assumes "absent k n s" and "\<not> label_adds k l" shows "absent k n (sched_next l s)"
proof (cases l)
  case (Run t)
  then show ?thesis using run_task_absent [OF assms(1)] by simp
qed (use assms in \<open>auto simp: absent_def adding_def pending_fires_def fired_count_def begin_task_def
      split: prod.split option.split\<close>)

interpretation absent: step_invariant "absent k n" "\<lambda>s s'. \<exists>l. \<not> label_adds k l \<and> s' = sched_next l s" "absent k n" for k n
  by unfold_locales (auto intro: sched_next_absent)

lemma sched_run_absent:
  assumes "absent k n s" and "\<forall>l\<in>set ls. \<not> label_adds k l" shows "absent k n (sched_run ls s)"
proof -
  let ?step = "\<lambda>s s'. \<exists>l. \<not> label_adds k l \<and> s' = sched_next l s"
  have "?step\<^sup>*\<^sup>* s (sched_run ls s)"
    using assms(2)
  proof (induction ls arbitrary: s)
    case (Cons l ls)
    then have "?step s (sched_next l s)" "?step\<^sup>*\<^sup>* (sched_next l s) (sched_run ls (sched_next l s))" by auto
    then show ?case by (simp only: sched_run_Cons) (rule converse_rtranclp_into_rtranclp)
  qed simp
  then show ?thesis using assms(1) by (rule absent.inv_reachable [rotated])
qed

lemma remove_serial_no_alarm:
  assumes "sched_serial\<^sup>*\<^sup>* (sched_new n) e"
  shows "fst (alarm_wake i (sd_alarms (snd (remove_sched owner name e)))) \<noteq> Some (table_key owner name)"
proof -
  have inv: "sched_inv e" using sched.inv_reachable assms by blast
  let ?c = "cancel_recorded (table_key owner name) e"
  have "sched_inv ?c" "live (sd_alarms ?c) i \<noteq> Some (table_key owner name)"
    using cancel_recorded_inv [OF inv] by blast+
  then show ?thesis by (simp add: remove_sched_def Let_def alarm_wake_live sched_inv_def)
qed

text \<open>C17: However the calls and ticks interleave, once the last operation of \<open>remove_entry\<close> has
  taken the entry of a key out of the table, and until an \<open>add_entry\<close> inserts the key again, the entry
  stays absent and the only actions that still run for it are those of the firings that had already
  read it, once each: no later tick fires it, even that of an alarm left over.  When the calls do
  not overlap, no alarm of the key is left either.\<close>

theorem removed_entry_never_fires:
  fixes s :: "'w sched_system"
  assumes "t < length (sy_tasks s)" and "sy_tasks s ! t = DropEntry (table_key owner name) # rest"
    and "\<not> adding (table_key owner name) s" and "\<forall>l\<in>set ls. \<not> label_adds (table_key owner name) l"
  shows "hm_get (sd_entries (sy_engine (sched_run (Run t # ls) s))) (table_key owner name) = None \<and>
    fired_count (table_key owner name) (sched_run (Run t # ls) s) + pending_fires (table_key owner name) (sched_run (Run t # ls) s) =
      fired_count (table_key owner name) s + pending_fires (table_key owner name) s \<and>
    (\<forall>n e i. sched_serial\<^sup>*\<^sup>* (sched_new n) (e :: 'w sched_engine) \<longrightarrow>
      fst (alarm_wake i (sd_alarms (snd (remove_sched owner name e)))) \<noteq> Some (table_key owner name))"
proof -
  let ?k = "table_key owner name"
  let ?e = "(sy_engine s)\<lparr>sd_entries := hm_remove ?k (sd_entries (sy_engine s))\<rparr>"
  obtain ys zs where ts: "sy_tasks s = ys @ (DropEntry ?k # rest) # zs" "t = length ys"
    using nth_split [of t "sy_tasks s"] assms(1,2) by metis
  have "run_task t s = s\<lparr>sy_engine := ?e, sy_tasks := (sy_tasks s)[t := rest]\<rparr>"
    using run_task_head [OF assms(1,2)] by (simp add: run_action_def)
  then have "absent ?k (fired_count ?k s + pending_fires ?k s) (run_task t s)"
    using assms(3) by (auto simp: absent_def adding_def pending_fires_def fired_count_def hm_get_remove ts)
  then have "absent ?k (fired_count ?k s + pending_fires ?k s) (sched_run ls (run_task t s))"
    using assms(4) by (rule sched_run_absent)
  then show ?thesis using remove_serial_no_alarm by (simp add: absent_def) blast
qed

text \<open>After the overlapping calls above, the entry is removed while a firing has already read it: that
  firing runs its action, and the later tick of the left-over alarm does nothing.\<close>

definition removal_run :: "unit sched_label list" where
  "removal_run = [Run 2, Run 2, Tick 0 demo_clock, Run 4]"

definition before_removal :: "unit sched_system" where
  "before_removal = sched_run (race @ [Tick 1 demo_clock, Run 2, CallRemove [] ''a'', Run 3]) (sched_system_new True ())"

lemma before_removal_eq:
  "before_removal = \<lparr>sy_engine = \<lparr>sd_entries = [(table_key [] ''a'', demo_entry)],
      sd_alarms = alarm_register 0 5000 True (table_key [] ''a'') \<lparr>ar_next_id = 2, ar_entries = []\<rparr>,
      sd_notify = True, sd_self_query = None, sd_started = True, sd_alarm_ids = []\<rparr>,
      sy_tasks = [[], [], [CountFire (table_key [] ''a'') demo_clock, RunAction (table_key [] ''a'') (SchedNotification (Oid [1, 9]))],
        [DropEntry (table_key [] ''a'')]], sy_world = (), sy_fired = [], sy_sent = []\<rparr>"
  by (simp add: before_removal_def sched_run_append sched_eval)

theorem removed_entry_never_fires_witness:
  "fired_count (table_key [] ''a'') before_removal = 0 \<and> pending_fires (table_key [] ''a'') before_removal = 1 \<and>
   fired_count (table_key [] ''a'') (sched_run (Run 3 # removal_run) before_removal) +
     pending_fires (table_key [] ''a'') (sched_run (Run 3 # removal_run) before_removal) = 1 \<and>
   fst (alarm_wake 0 (sd_alarms (snd (remove_sched [] ''a'' (add_entry demo_entry (sched_new True) :: unit sched_engine)))))
     \<noteq> Some (table_key [] ''a'')"
proof -
  have "sched_serial\<^sup>*\<^sup>* (sched_new True) (add_entry demo_entry (sched_new True) :: unit sched_engine)"
    by (rule r_into_rtranclp) (rule sched_serial.intros)
  moreover have "3 < length (sy_tasks before_removal)"
    "sy_tasks before_removal ! 3 = DropEntry (table_key [] ''a'') # []" "\<not> adding (table_key [] ''a'') before_removal"
    "fired_count (table_key [] ''a'') before_removal = 0" "pending_fires (table_key [] ''a'') before_removal = 1"
    by (simp_all add: before_removal_eq adding_def fired_count_def pending_fires_def)
  moreover have "\<forall>l\<in>set removal_run. \<not> label_adds (table_key [] ''a'') l" by (simp add: removal_run_def)
  ultimately show ?thesis using removed_entry_never_fires [of 3 before_removal] by fastforce
qed

text \<open>Re-adding an entry as disabled does not stop it: its old alarm stays, and the next tick at
  which its interval or calendar allows it to fire counts a firing and runs the action of the
  disabled entry.\<close>

lemma disabled_entry_still_fires:
  assumes "live (sd_alarms e) i = Some k" and "uncancelled (sd_alarms e)"
    and "k = table_key (se_owner entry) (se_name entry)" and "\<not> se_enabled entry"
    and "se_interval entry \<noteq> 0" and "se_action entry = SchedNotification o1" and "sd_notify e"
  shows "\<exists>e'. run_state (sched_tick i now (add_entry entry e)) w = ((e', [o1]), w) \<and>
    map_option se_fire_count (hm_get (sd_entries e') k) = Some 1"
proof -
  let ?en = "entry\<lparr>se_fire_count := 0, se_last_fire := None\<rparr>"
  have "add_entry entry e = e\<lparr>sd_entries := hm_insert k ?en (sd_entries e)\<rparr>"
    using assms(3,4) by (simp add: add_entry_def spawn_alarm_def hm_get_insert)
  moreover obtain r' where "alarm_wake i (sd_alarms e) = (Some k, r')"
    using alarm_wake_live [OF assms(2), of i] assms(1) by (cases "alarm_wake i (sd_alarms e)") auto
  ultimately show ?thesis
    using assms(5-7)
    by (simp add: sched_tick_def sched_fire_def hm_get_insert Let_def sched_execute_def saturating_inc_def)
qed

end
