(* ===== verification/Disman_Expr.thy ===== *)
theory Disman_Expr
  imports Disman_Tables
begin

text \<open>
  The DISMAN-EXPRESSION engine (\<^verbatim>\<open>disman/expr.rs\<close>): lexer, recursive-descent evaluator, expression
  table and its handler.  The arithmetic of \<open>f64\<close> is the parameter \<open>num_ops\<close>, so that every statement
  holds for IEEE doubles; the value provider is the GET function of the agent at the time of the
  evaluation.  The parser functions recurse on fuel; \<open>parse_returns\<close> shows how much is enough.
\<close>

section \<open>Numbers and errors\<close>

record 'n num_ops =
  n_add :: "'n \<Rightarrow> 'n \<Rightarrow> 'n"
  n_sub :: "'n \<Rightarrow> 'n \<Rightarrow> 'n"
  n_mul :: "'n \<Rightarrow> 'n \<Rightarrow> 'n"
  n_div :: "'n \<Rightarrow> 'n \<Rightarrow> 'n"
  n_neg :: "'n \<Rightarrow> 'n"
  n_is_zero :: "'n \<Rightarrow> bool"
  n_parse :: "string \<Rightarrow> 'n option"
  n_of_int :: "int \<Rightarrow> 'n"
  n_to_i64 :: "'n \<Rightarrow> i64"

datatype expr_error =
    UnexpectedChar char
  | UnexpectedEnd
  | BadReference
  | UnresolvedReference string
  | BadNumber string
  | MissingOperand
  | UnbalancedParens
  | DivisionByZero

section \<open>The lexer\<close>

datatype 'n token = TNumber 'n | TReference string | TOp char | TLParen | TRParen

definition expr_blank :: "char \<Rightarrow> bool" where
  "expr_blank c \<longleftrightarrow> c \<in> {CHR '' '', CHR 0x09, CHR 0x0A, CHR 0x0D}"

definition is_op :: "char \<Rightarrow> bool" where
  "is_op c \<longleftrightarrow> c \<in> {CHR ''+'', CHR ''-'', CHR ''*'', CHR ''/''}"

definition ends_reference :: "char \<Rightarrow> bool" where
  "ends_reference b \<longleftrightarrow> b \<in> {CHR '' '', CHR 0x09, CHR 0x0A, CHR 0x0C, CHR 0x0D} \<or> is_op b \<or> b = CHR ''('' \<or> b = CHR '')''"

text \<open>The characters of a numeric literal: digits and the first dot.\<close>

fun number_len :: "bool \<Rightarrow> string \<Rightarrow> nat" where
  "number_len seen_dot [] = 0"
| "number_len seen_dot (b # bs) =
     (if is_ascii_digit b then Suc (number_len seen_dot bs)
      else if b = CHR ''.'' \<and> \<not> seen_dot then Suc (number_len True bs)
      else 0)"

definition ref_len :: "string \<Rightarrow> nat" where
  "ref_len bs = length (takeWhile (\<lambda>b. \<not> ends_reference b) bs)"

function lex :: "'n num_ops \<Rightarrow> string \<Rightarrow> ('n token list, expr_error) result" where
  "lex ops [] = Ok []"
| "lex ops (c # cs) =
     (if expr_blank c then lex ops cs
      else if is_op c then bind_result (lex ops cs) (\<lambda>ts. Ok (TOp c # ts))
      else if c = CHR ''('' then bind_result (lex ops cs) (\<lambda>ts. Ok (TLParen # ts))
      else if c = CHR '')'' then bind_result (lex ops cs) (\<lambda>ts. Ok (TRParen # ts))
      else if c = CHR ''$'' then
        (if ref_len cs = 0 then Err BadReference
         else bind_result (lex ops (drop (ref_len cs) cs)) (\<lambda>ts. Ok (TReference (take (ref_len cs) cs) # ts)))
      else if is_ascii_digit c \<or> c = CHR ''.'' then
        (let s = take (number_len False (c # cs)) (c # cs) in
         case n_parse ops s of
           None \<Rightarrow> Err (BadNumber s)
         | Some n \<Rightarrow> bind_result (lex ops (drop (number_len False (c # cs) - 1) cs)) (\<lambda>ts. Ok (TNumber n # ts)))
      else Err (UnexpectedChar c))"
  by pat_completeness auto
termination by (relation "measure (\<lambda>(ops, s). length s)") auto

section \<open>The evaluator\<close>

type_synonym 'n parsed = "('n \<times> 'n token list, expr_error) result option"

definition bind_parsed :: "'n parsed \<Rightarrow> ('n \<Rightarrow> 'n token list \<Rightarrow> 'n parsed) \<Rightarrow> 'n parsed" where
  "bind_parsed p f = (case p of None \<Rightarrow> None | Some (Err e) \<Rightarrow> Some (Err e) | Some (Ok (v, ts)) \<Rightarrow> f v ts)"

text \<open>
  The functions \<open>parse_expr\<close>, \<open>parse_term\<close>, \<open>parse_factor\<close> and the loops of the first two call
  each other; \<open>parser\<close> names which one runs, and \<open>rec\<close> is the call.
\<close>

datatype 'n parser = PExpr | PExprLoop 'n | PTerm | PTermLoop 'n | PFactor

definition parse_expr_body :: "('n parser \<Rightarrow> 'n token list \<Rightarrow> 'n parsed) \<Rightarrow> 'n token list \<Rightarrow> 'n parsed" where
  "parse_expr_body rec ts = bind_parsed (rec PTerm ts) (\<lambda>left. rec (PExprLoop left))"

definition expr_loop_body ::
  "('n parser \<Rightarrow> 'n token list \<Rightarrow> 'n parsed) \<Rightarrow> 'n num_ops \<Rightarrow> 'n \<Rightarrow> 'n token list \<Rightarrow> 'n parsed" where
  "expr_loop_body rec ops left ts =
     (case ts of
        TOp c # ts' \<Rightarrow>
          if c = CHR ''+'' \<or> c = CHR ''-'' then
            bind_parsed (rec PTerm ts')
              (\<lambda>right. rec (PExprLoop (if c = CHR ''+'' then n_add ops left right else n_sub ops left right)))
          else Some (Ok (left, ts))
      | _ \<Rightarrow> Some (Ok (left, ts)))"

definition parse_term_body :: "('n parser \<Rightarrow> 'n token list \<Rightarrow> 'n parsed) \<Rightarrow> 'n token list \<Rightarrow> 'n parsed" where
  "parse_term_body rec ts = bind_parsed (rec PFactor ts) (\<lambda>left. rec (PTermLoop left))"

definition term_loop_body ::
  "('n parser \<Rightarrow> 'n token list \<Rightarrow> 'n parsed) \<Rightarrow> 'n num_ops \<Rightarrow> 'n \<Rightarrow> 'n token list \<Rightarrow> 'n parsed" where
  "term_loop_body rec ops left ts =
     (case ts of
        TOp c # ts' \<Rightarrow>
          if c = CHR ''*'' \<or> c = CHR ''/'' then
            bind_parsed (rec PFactor ts')
              (\<lambda>right rest.
                 if c = CHR ''*'' then rec (PTermLoop (n_mul ops left right)) rest
                 else if n_is_zero ops right then Some (Err DivisionByZero)
                 else rec (PTermLoop (n_div ops left right)) rest)
          else Some (Ok (left, ts))
      | _ \<Rightarrow> Some (Ok (left, ts)))"

definition close_paren :: "'n \<Rightarrow> 'n token list \<Rightarrow> 'n parsed" where
  "close_paren v rest = (case rest of TRParen # rest' \<Rightarrow> Some (Ok (v, rest')) | _ \<Rightarrow> Some (Err UnbalancedParens))"

definition parse_factor_body ::
  "('n parser \<Rightarrow> 'n token list \<Rightarrow> 'n parsed) \<Rightarrow> 'n num_ops \<Rightarrow> (oid \<Rightarrow> 'n option) \<Rightarrow> 'n token list \<Rightarrow> 'n parsed" where
  "parse_factor_body rec ops lookup ts =
     (case ts of
        [] \<Rightarrow> Some (Err UnexpectedEnd)
      | t # ts' \<Rightarrow>
         (case t of
            TNumber v \<Rightarrow> Some (Ok (v, ts'))
          | TReference r \<Rightarrow>
              (case oid_from_str r of
                 Err _ \<Rightarrow> Some (Err (UnresolvedReference r))
               | Ok o1 \<Rightarrow> (case lookup o1 of None \<Rightarrow> Some (Err (UnresolvedReference r)) | Some v \<Rightarrow> Some (Ok (v, ts'))))
          | TLParen \<Rightarrow>
              bind_parsed (rec PExpr ts') close_paren
          | TOp c \<Rightarrow>
              if c = CHR ''-'' then bind_parsed (rec PFactor ts') (\<lambda>v rest. Some (Ok (n_neg ops v, rest)))
              else if c = CHR ''+'' then rec PFactor ts'
              else Some (Err MissingOperand)
          | TRParen \<Rightarrow> Some (Err MissingOperand)))"

primrec run_parser :: "nat \<Rightarrow> 'n num_ops \<Rightarrow> (oid \<Rightarrow> 'n option) \<Rightarrow> 'n parser \<Rightarrow> 'n token list \<Rightarrow> 'n parsed" where
  "run_parser 0 ops lookup p ts = None"
| "run_parser (Suc n) ops lookup p ts =
     (case p of
        PExpr \<Rightarrow> parse_expr_body (run_parser n ops lookup) ts
      | PExprLoop left \<Rightarrow> expr_loop_body (run_parser n ops lookup) ops left ts
      | PTerm \<Rightarrow> parse_term_body (run_parser n ops lookup) ts
      | PTermLoop left \<Rightarrow> term_loop_body (run_parser n ops lookup) ops left ts
      | PFactor \<Rightarrow> parse_factor_body (run_parser n ops lookup) ops lookup ts)"

definition parse_fuel :: "'n token list \<Rightarrow> nat" where
  "parse_fuel ts = 4 * length ts + 3"

definition evaluate_tokens :: "'n num_ops \<Rightarrow> (oid \<Rightarrow> 'n option) \<Rightarrow> 'n token list \<Rightarrow> ('n, expr_error) result option" where
  "evaluate_tokens ops lookup ts =
     (case run_parser (parse_fuel ts) ops lookup PExpr ts of
        None \<Rightarrow> None
      | Some (Err e) \<Rightarrow> Some (Err e)
      | Some (Ok (v, rest)) \<Rightarrow> Some (if rest = [] then Ok v else Err UnbalancedParens))"

definition evaluate_expression :: "'n num_ops \<Rightarrow> (oid \<Rightarrow> 'n option) \<Rightarrow> string \<Rightarrow> ('n, expr_error) result option" where
  "evaluate_expression ops lookup s =
     (case lex ops s of Err e \<Rightarrow> Some (Err e) | Ok ts \<Rightarrow> evaluate_tokens ops lookup ts)"

section \<open>The engine\<close>

record expression =
  ex_owner :: string
  ex_name :: string
  ex_expression :: string
  ex_enabled :: bool

definition expression_new :: "string \<Rightarrow> string \<Rightarrow> string \<Rightarrow> expression" where
  "expression_new owner name text = \<lparr>ex_owner = owner, ex_name = name, ex_expression = text, ex_enabled = True\<rparr>"

record expr_engine =
  xe_expressions :: "(string, expression) hash_map"
  xe_self_query :: "(oid \<Rightarrow> value option) option"

definition expr_engine_new :: "(oid \<Rightarrow> value option) option \<Rightarrow> expr_engine" where
  "expr_engine_new q = \<lparr>xe_expressions = [], xe_self_query = q\<rparr>"

definition expr_set_self_query :: "(oid \<Rightarrow> value option) \<Rightarrow> expr_engine \<Rightarrow> expr_engine" where
  "expr_set_self_query q e = e\<lparr>xe_self_query := Some q\<rparr>"

definition add_expression :: "expression \<Rightarrow> expr_engine \<Rightarrow> expr_engine" where
  "add_expression x e = e\<lparr>xe_expressions := hm_insert (table_key (ex_owner x) (ex_name x)) x (xe_expressions e)\<rparr>"

definition remove_expression :: "string \<Rightarrow> string \<Rightarrow> expr_engine \<Rightarrow> expression option \<times> expr_engine" where
  "remove_expression owner name e =
     (hm_get (xe_expressions e) (table_key owner name),
      e\<lparr>xe_expressions := hm_remove (table_key owner name) (xe_expressions e)\<rparr>)"

fun numeric_value :: "'n num_ops \<Rightarrow> value \<Rightarrow> 'n option" where
  "numeric_value ops (Integer x) = Some (n_of_int ops (sint x))"
| "numeric_value ops (Counter32 x) = Some (n_of_int ops (uint x))"
| "numeric_value ops (Gauge32 x) = Some (n_of_int ops (uint x))"
| "numeric_value ops (Counter64 x) = Some (n_of_int ops (uint x))"
| "numeric_value ops (TimeTicks x) = Some (n_of_int ops (uint x))"
| "numeric_value ops _ = None"

definition expr_lookup :: "'n num_ops \<Rightarrow> expr_engine \<Rightarrow> oid \<Rightarrow> 'n option" where
  "expr_lookup ops e o1 =
     (case xe_self_query e of
        None \<Rightarrow> None
      | Some get \<Rightarrow> (case get o1 of None \<Rightarrow> None | Some v \<Rightarrow> numeric_value ops v))"

definition expr_evaluate :: "'n num_ops \<Rightarrow> expr_engine \<Rightarrow> string \<Rightarrow> string \<Rightarrow> ('n, expr_error) result option" where
  "expr_evaluate ops e owner name =
     (case hm_get (xe_expressions e) (table_key owner name) of
        None \<Rightarrow> Some (Err (UnresolvedReference (owner @ ''/'' @ name)))
      | Some x \<Rightarrow>
         if \<not> ex_enabled x then Some (Err (UnresolvedReference (owner @ ''/'' @ name @ '' disabled'')))
         else evaluate_expression ops (expr_lookup ops e) (ex_expression x))"

definition EXP_ENTRY :: oid where "EXP_ENTRY = Oid [1, 3, 6, 1, 2, 1, 90, 1, 2, 1, 1]"

definition expr_rows :: "'n num_ops \<Rightarrow> expr_engine \<Rightarrow> (u32 list \<times> (u32 \<times> value) list) list" where
  "expr_rows ops e =
     concat (map (\<lambda>(k, x). case expr_evaluate ops e (ex_owner x) (ex_name x) of
                             Some (Ok v) \<Rightarrow> [(entry_index (ex_owner x) (ex_name x), [(2, Integer (n_to_i64 ops v))])]
                           | _ \<Rightarrow> []) (xe_expressions e))"

section \<open>Enough fuel\<close>

lemma bind_parsed_simps [simp]:
  "bind_parsed None f = None" "bind_parsed (Some (Err e)) f = Some (Err e)" "bind_parsed (Some (Ok (v, ts))) f = f v ts"
  by (simp_all add: bind_parsed_def)

lemma bind_parsed_eq_Ok:
  "bind_parsed p f = Some (Ok (v, rest)) \<longleftrightarrow> (\<exists>u ts. p = Some (Ok (u, ts)) \<and> f u ts = Some (Ok (v, rest)))"
  by (auto simp: bind_parsed_def split: option.splits result.splits)

lemmas parser_bodies = parse_expr_body_def expr_loop_body_def parse_term_body_def term_loop_body_def parse_factor_body_def

lemma close_paren_Ok [simp]: "close_paren v rest = Some (Ok (u, r)) \<longleftrightarrow> u = v \<and> rest = TRParen # r"
  by (auto simp: close_paren_def split: list.splits token.splits)

definition returned :: "'n parsed \<Rightarrow> bool" where
  "returned p \<longleftrightarrow> p \<noteq> None"

lemma returned_simps [simp]: "returned (Some r)" "\<not> returned None" "returned (close_paren v rest)"
  by (auto simp: returned_def close_paren_def split: list.splits token.splits)

lemma returned_bind:
  "returned p \<Longrightarrow> (\<And>v rest. p = Some (Ok (v, rest)) \<Longrightarrow> returned (f v rest)) \<Longrightarrow> returned (bind_parsed p f)"
  by (auto simp: returned_def bind_parsed_def split: option.splits result.splits)

text \<open>A parser function consumes a token when it succeeds; a loop may consume none.\<close>

fun consumed :: "'n parser \<Rightarrow> nat" where
  "consumed (PExprLoop l) = 0"
| "consumed (PTermLoop l) = 0"
| "consumed _ = 1"

lemma parser_consumes: "run_parser n ops lookup p ts = Some (Ok (v, rest)) \<Longrightarrow> length rest + consumed p \<le> length ts"
proof (induction n arbitrary: p ts v rest)
  case (Suc n)
  note IH = Suc.IH
  show ?case
  proof (cases p)
    case PExpr
    then show ?thesis using Suc.prems by (auto simp: parser_bodies bind_parsed_eq_Ok dest!: IH)
  next
    case (PExprLoop l)
    then show ?thesis using Suc.prems
      by (auto simp: parser_bodies bind_parsed_eq_Ok dest!: IH split: list.splits token.splits if_splits)
  next
    case PTerm
    then show ?thesis using Suc.prems by (auto simp: parser_bodies bind_parsed_eq_Ok dest!: IH)
  next
    case (PTermLoop l)
    then show ?thesis using Suc.prems
      by (auto simp: parser_bodies bind_parsed_eq_Ok dest!: IH split: list.splits token.splits if_splits)
  next
    case PFactor
    then show ?thesis using Suc.prems
      by (auto simp: parser_bodies bind_parsed_eq_Ok dest!: IH split: list.splits token.splits if_splits result.splits option.splits)
  qed
qed simp

text \<open>How much fuel each function needs for a list of tokens.\<close>

fun fuel_for :: "'n parser \<Rightarrow> nat \<Rightarrow> nat" where
  "fuel_for PExpr k = 4 * k + 3"
| "fuel_for (PExprLoop l) k = 4 * k + 1"
| "fuel_for PTerm k = 4 * k + 2"
| "fuel_for (PTermLoop l) k = 4 * k + 1"
| "fuel_for PFactor k = 4 * k + 1"

lemma parser_returns: "fuel_for p (length ts) \<le> n \<Longrightarrow> returned (run_parser n ops lookup p ts)"
proof (induction n arbitrary: p ts)
  case 0
  then show ?case by (cases p) simp_all
next
  case (Suc n)
  show ?case
  proof (cases p)
    case PExpr
    then show ?thesis using Suc.prems
      by (auto simp: parser_bodies intro!: returned_bind Suc.IH dest!: parser_consumes)
  next
    case (PExprLoop l)
    then show ?thesis using Suc.prems
      by (auto simp: parser_bodies intro!: returned_bind Suc.IH dest!: parser_consumes
          split: list.splits token.splits)
  next
    case PTerm
    then show ?thesis using Suc.prems
      by (auto simp: parser_bodies intro!: returned_bind Suc.IH dest!: parser_consumes)
  next
    case (PTermLoop l)
    then show ?thesis using Suc.prems
      by (auto simp: parser_bodies intro!: returned_bind Suc.IH dest!: parser_consumes
          split: list.splits token.splits)
  next
    case PFactor
    then show ?thesis using Suc.prems
      by (auto simp: parser_bodies intro!: returned_bind Suc.IH dest!: parser_consumes
          split: list.splits token.splits result.splits option.splits)
  qed
qed

section \<open>The grammar\<close>

text \<open>
  Expressions as trees, their meaning, and their shortest token form: parentheses only where the
  precedence of the operators asks for them.
\<close>

datatype binop = Add | Sub | Mul | Div

fun op_char :: "binop \<Rightarrow> char" where
  "op_char Add = CHR ''+''"
| "op_char Sub = CHR ''-''"
| "op_char Mul = CHR ''*''"
| "op_char Div = CHR ''/''"

fun op_level :: "binop \<Rightarrow> nat" where
  "op_level Add = 0"
| "op_level Sub = 0"
| "op_level Mul = 1"
| "op_level Div = 1"

datatype 'n ast = Num 'n | Ref string | Neg "'n ast" | Bin binop "'n ast" "'n ast"

fun apply_op :: "'n num_ops \<Rightarrow> binop \<Rightarrow> 'n \<Rightarrow> 'n \<Rightarrow> ('n, expr_error) result" where
  "apply_op ops Add x y = Ok (n_add ops x y)"
| "apply_op ops Sub x y = Ok (n_sub ops x y)"
| "apply_op ops Mul x y = Ok (n_mul ops x y)"
| "apply_op ops Div x y = (if n_is_zero ops y then Err DivisionByZero else Ok (n_div ops x y))"

fun eval_ast :: "'n num_ops \<Rightarrow> (oid \<Rightarrow> 'n option) \<Rightarrow> 'n ast \<Rightarrow> ('n, expr_error) result" where
  "eval_ast ops lookup (Num v) = Ok v"
| "eval_ast ops lookup (Ref r) =
     (case oid_from_str r of
        Err _ \<Rightarrow> Err (UnresolvedReference r)
      | Ok o1 \<Rightarrow> (case lookup o1 of None \<Rightarrow> Err (UnresolvedReference r) | Some v \<Rightarrow> Ok v))"
| "eval_ast ops lookup (Neg a) = bind_result (eval_ast ops lookup a) (\<lambda>v. Ok (n_neg ops v))"
| "eval_ast ops lookup (Bin c a b) =
     bind_result (eval_ast ops lookup a) (\<lambda>x. bind_result (eval_ast ops lookup b) (\<lambda>y. apply_op ops c x y))"

fun ast_tokens :: "nat \<Rightarrow> 'n ast \<Rightarrow> 'n token list" where
  "ast_tokens p (Num v) = [TNumber v]"
| "ast_tokens p (Ref r) = [TReference r]"
| "ast_tokens p (Neg a) = TOp CHR ''-'' # ast_tokens 2 a"
| "ast_tokens p (Bin c a b) =
     (let body = ast_tokens (op_level c) a @ [TOp (op_char c)] @ ast_tokens (Suc (op_level c)) b
      in if op_level c < p then [TLParen] @ body @ [TRParen] else body)"

text \<open>The result of a parser function, with any fuel that is enough.\<close>

lemma run_parser_mono: "run_parser n ops lookup p ts = Some r \<Longrightarrow> n \<le> m \<Longrightarrow> run_parser m ops lookup p ts = Some r"
proof (induction n arbitrary: m p ts r)
  case (Suc n)
  obtain k where m: "m = Suc k" "n \<le> k" using Suc.prems(2) by (cases m) auto
  have up: "run_parser n ops lookup q us = Some x \<Longrightarrow> run_parser k ops lookup q us = Some x" for q us x
    using Suc.IH m(2) by blast
  have bind: "bind_parsed (run_parser n ops lookup q us) f = Some x \<Longrightarrow>
      (\<And>v rest. f v rest = Some x \<Longrightarrow> g v rest = Some x) \<Longrightarrow> bind_parsed (run_parser k ops lookup q us) g = Some x"
    for q us f g x
    using up [of q us] by (auto simp: bind_parsed_def split: option.splits result.splits)
  show ?case
  proof (cases p)
    case PExpr
    then show ?thesis using Suc.prems(1) up unfolding m by (auto simp: parser_bodies intro: bind)
  next
    case (PExprLoop l)
    then show ?thesis using Suc.prems(1) up unfolding m
      by (auto simp: parser_bodies intro: bind split: list.splits token.splits if_splits)
  next
    case PTerm
    then show ?thesis using Suc.prems(1) up unfolding m by (auto simp: parser_bodies intro: bind)
  next
    case (PTermLoop l)
    then show ?thesis using Suc.prems(1) up unfolding m
      by (auto simp: parser_bodies intro: bind split: list.splits token.splits if_splits)
  next
    case PFactor
    then show ?thesis using Suc.prems(1) up unfolding m
      by (auto simp: parser_bodies intro: bind split: list.splits token.splits if_splits result.splits option.splits)
  qed
qed simp

definition parses ::
  "'n num_ops \<Rightarrow> (oid \<Rightarrow> 'n option) \<Rightarrow> 'n parser \<Rightarrow> 'n token list \<Rightarrow> ('n \<times> 'n token list, expr_error) result \<Rightarrow> bool" where
  "parses ops lookup p ts r \<longleftrightarrow> (\<exists>n. run_parser n ops lookup p ts = Some r)"

lemma parses_join:
  assumes "parses ops lookup p ts a" and "parses ops lookup q us b"
  shows "\<exists>n. run_parser n ops lookup p ts = Some a \<and> run_parser n ops lookup q us = Some b"
proof -
  obtain i j where "run_parser i ops lookup p ts = Some a" "run_parser j ops lookup q us = Some b"
    using assms by (auto simp: parses_def)
  then show ?thesis using run_parser_mono max.cobounded1 max.cobounded2 by metis
qed

lemma parsesI: "run_parser (Suc n) ops lookup p ts = Some r \<Longrightarrow> parses ops lookup p ts r"
  unfolding parses_def by blast

lemma parses_step1:
  assumes "parses ops lookup q us a" and "\<And>n. run_parser n ops lookup q us = Some a \<Longrightarrow> run_parser (Suc n) ops lookup p ts = Some r"
  shows "parses ops lookup p ts r"
  using assms unfolding parses_def by blast

lemma parses_step2:
  assumes "parses ops lookup q us a" and "parses ops lookup q' us' b"
    and "\<And>n. run_parser n ops lookup q us = Some a \<Longrightarrow> run_parser n ops lookup q' us' = Some b \<Longrightarrow>
      run_parser (Suc n) ops lookup p ts = Some r"
  shows "parses ops lookup p ts r"
  using parses_join [OF assms(1,2)] assms(3) unfolding parses_def by blast

text \<open>What must not follow a term.\<close>

definition no_mul :: "'n token list \<Rightarrow> bool" where
  "no_mul ts \<longleftrightarrow> (case ts of TOp c # _ \<Rightarrow> c \<noteq> CHR ''*'' \<and> c \<noteq> CHR ''/'' | _ \<Rightarrow> True)"

lemma no_mul_simps [simp]: "no_mul []" "no_mul (TRParen # ts)" "no_mul (TOp c # ts) \<longleftrightarrow> c \<noteq> CHR ''*'' \<and> c \<noteq> CHR ''/''"
  by (simp_all add: no_mul_def)

lemma term_loop_stops: "no_mul ts \<Longrightarrow> parses ops lookup (PTermLoop v) ts (Ok (v, ts))"
  by (rule parsesI [of 0]) (auto simp: parser_bodies no_mul_def split: list.splits token.splits)

lemma expr_loop_paren: "parses ops lookup (PExprLoop v) (TRParen # ts) (Ok (v, TRParen # ts))"
  by (rule parsesI [of 0]) (simp add: parser_bodies)

lemma expr_loop_end: "parses ops lookup (PExprLoop v) [] (Ok (v, []))"
  by (rule parsesI [of 0]) (simp add: parser_bodies)

fun with_rest :: "('n, expr_error) result \<Rightarrow> 'n token list \<Rightarrow> ('n \<times> 'n token list, expr_error) result" where
  "with_rest (Ok v) rest = Ok (v, rest)"
| "with_rest (Err e) rest = Err e"

text \<open>
  Reading a tree as a factor, at the head of a term and at the head of an expression: an error
  ends the evaluation, a value goes on with the loop over what follows.
\<close>

definition reads_factor :: "'n num_ops \<Rightarrow> (oid \<Rightarrow> 'n option) \<Rightarrow> 'n ast \<Rightarrow> bool" where
  "reads_factor ops lookup e \<longleftrightarrow>
     (\<forall>rest. parses ops lookup PFactor (ast_tokens 2 e @ rest) (with_rest (eval_ast ops lookup e) rest))"

definition reads_head :: "'n num_ops \<Rightarrow> (oid \<Rightarrow> 'n option) \<Rightarrow> nat \<Rightarrow> 'n ast \<Rightarrow> bool" where
  "reads_head ops lookup p e \<longleftrightarrow>
     (\<forall>rest r. (p = 1 \<or> no_mul rest) \<longrightarrow>
        (case eval_ast ops lookup e of
           Err x \<Rightarrow> parses ops lookup (if p = 1 then PTerm else PExpr) (ast_tokens p e @ rest) (Err x)
         | Ok v \<Rightarrow> parses ops lookup (if p = 1 then PTermLoop v else PExprLoop v) rest r \<longrightarrow>
                   parses ops lookup (if p = 1 then PTerm else PExpr) (ast_tokens p e @ rest) r))"

text \<open>A factor is a term, and a term with nothing multiplied to it is an expression.\<close>

lemma factor_reads_term:
  assumes "reads_factor ops lookup e" and "ast_tokens 1 e = ast_tokens 2 e"
  shows "reads_head ops lookup 1 e"
proof (cases "eval_ast ops lookup e")
  case (Ok v)
  have f: "parses ops lookup PFactor (ast_tokens 2 e @ rest) (Ok (v, rest))" for rest
    using assms(1) Ok by (simp add: reads_factor_def)
  have "parses ops lookup PTerm (ast_tokens 2 e @ rest) r" if "parses ops lookup (PTermLoop v) rest r" for rest r
    by (rule parses_step2 [OF f [of rest] that]) (simp add: parser_bodies)
  then show ?thesis using Ok assms(2) by (simp add: reads_head_def)
next
  case (Err x)
  have f: "parses ops lookup PFactor (ast_tokens 2 e @ rest) (Err x)" for rest
    using assms(1) Err by (simp add: reads_factor_def)
  have "parses ops lookup PTerm (ast_tokens 2 e @ rest) (Err x)" for rest
    by (rule parses_step1 [OF f [of rest]]) (simp add: parser_bodies)
  then show ?thesis using Err assms(2) by (simp add: reads_head_def)
qed

lemma term_reads_expr:
  assumes "reads_head ops lookup 1 e" and "ast_tokens 0 e = ast_tokens 1 e"
  shows "reads_head ops lookup 0 e"
proof (cases "eval_ast ops lookup e")
  case (Ok v)
  have t: "parses ops lookup PTerm (ast_tokens 1 e @ rest) (Ok (v, rest))" if "no_mul rest" for rest
    using assms(1) Ok term_loop_stops [OF that] by (simp add: reads_head_def)
  have "parses ops lookup PExpr (ast_tokens 1 e @ rest) r"
    if "no_mul rest" "parses ops lookup (PExprLoop v) rest r" for rest r
    by (rule parses_step2 [OF t [OF that(1)] that(2)]) (simp add: parser_bodies)
  then show ?thesis using Ok assms(2) by (simp add: reads_head_def)
next
  case (Err x)
  have t: "parses ops lookup PTerm (ast_tokens 1 e @ rest) (Err x)" for rest
    using assms(1) Err by (simp add: reads_head_def)
  have "parses ops lookup PExpr (ast_tokens 1 e @ rest) (Err x)" for rest
    by (rule parses_step1 [OF t [of rest]]) (simp add: parser_bodies)
  then show ?thesis using Err assms(2) by (simp add: reads_head_def)
qed

lemma expr_in_parens:
  assumes "reads_head ops lookup 0 e"
  shows "parses ops lookup PFactor (TLParen # ast_tokens 0 e @ TRParen # rest) (with_rest (eval_ast ops lookup e) rest)"
proof (cases "eval_ast ops lookup e")
  case (Ok v)
  then have "parses ops lookup PExpr (ast_tokens 0 e @ TRParen # rest) (Ok (v, TRParen # rest))"
    using assms expr_loop_paren [of ops lookup v rest] by (simp add: reads_head_def)
  then show ?thesis by (rule parses_step1) (simp add: parser_bodies Ok close_paren_def)
next
  case (Err x)
  then have "parses ops lookup PExpr (ast_tokens 0 e @ TRParen # rest) (Err x)"
    using assms by (simp add: reads_head_def)
  then show ?thesis by (rule parses_step1) (simp add: parser_bodies Err)
qed

text \<open>An operator at its own level: the left operand is the head, the right one binds tighter.\<close>

lemma mul_reads_term:
  assumes "reads_head ops lookup 1 a" and "reads_factor ops lookup b" and "op_level c = 1"
  shows "reads_head ops lookup 1 (Bin c a b)"
proof -
  have toks: "ast_tokens 1 (Bin c a b) @ rest = ast_tokens 1 a @ TOp (op_char c) # ast_tokens 2 b @ rest" for rest
    using assms(3) by (simp add: numeral_2_eq_2)
  have op: "op_char c = CHR ''*'' \<or> op_char c = CHR ''/''" using assms(3) by (cases c) simp_all
  have b: "parses ops lookup PFactor (ast_tokens 2 b @ rest) (with_rest (eval_ast ops lookup b) rest)" for rest
    using assms(2) by (simp add: reads_factor_def)
  have loop_err: "parses ops lookup (PTermLoop x) (TOp (op_char c) # ast_tokens 2 b @ rest) (Err e)"
    if "bind_result (eval_ast ops lookup b) (apply_op ops c x) = Err e" for x e rest
    by (rule parses_step1 [OF b [of rest]])
       (use that op assms(3) in \<open>cases "eval_ast ops lookup b"; cases c; simp add: parser_bodies split: if_splits\<close>)
  have loop_ok: "parses ops lookup (PTermLoop x) (TOp (op_char c) # ast_tokens 2 b @ rest) r"
    if "bind_result (eval_ast ops lookup b) (apply_op ops c x) = Ok v" "parses ops lookup (PTermLoop v) rest r" for x v rest r
    by (rule parses_step2 [OF b [of rest] that(2)])
       (use that(1) assms(3) in \<open>cases "eval_ast ops lookup b"; cases c; simp add: parser_bodies split: if_splits\<close>)
  show ?thesis
    using assms(1) loop_err loop_ok unfolding reads_head_def toks
    by (cases "eval_ast ops lookup a") (auto split: result.splits)
qed

lemma add_reads_expr:
  assumes "reads_head ops lookup 0 a" and "reads_head ops lookup 1 b" and "op_level c = 0"
  shows "reads_head ops lookup 0 (Bin c a b)"
proof -
  have toks: "ast_tokens 0 (Bin c a b) @ rest = ast_tokens 0 a @ TOp (op_char c) # ast_tokens 1 b @ rest" for rest
    using assms(3) by simp
  have op: "op_char c = CHR ''+'' \<or> op_char c = CHR ''-''" using assms(3) by (cases c) simp_all
  have b: "parses ops lookup PTerm (ast_tokens 1 b @ rest) (with_rest (eval_ast ops lookup b) rest)" if "no_mul rest" for rest
    using assms(2) term_loop_stops [OF that] by (cases "eval_ast ops lookup b") (auto simp: reads_head_def)
  have loop_err: "parses ops lookup (PExprLoop x) (TOp (op_char c) # ast_tokens 1 b @ rest) (Err e)"
    if "bind_result (eval_ast ops lookup b) (apply_op ops c x) = Err e" "no_mul rest" for x e rest
    by (rule parses_step1 [OF b [OF that(2)]])
       (use that(1) op assms(3) in \<open>cases "eval_ast ops lookup b"; cases c; simp add: parser_bodies\<close>)
  have loop_ok: "parses ops lookup (PExprLoop x) (TOp (op_char c) # ast_tokens 1 b @ rest) r"
    if "bind_result (eval_ast ops lookup b) (apply_op ops c x) = Ok v" "no_mul rest" "parses ops lookup (PExprLoop v) rest r" for x v rest r
    by (rule parses_step2 [OF b [OF that(2)] that(3)])
       (use that(1) assms(3) in \<open>cases "eval_ast ops lookup b"; cases c; simp add: parser_bodies\<close>)
  have "no_mul (TOp (op_char c) # ts)" for ts using op by auto
  then show ?thesis
    using assms(1) loop_err loop_ok unfolding reads_head_def toks
    by (cases "eval_ast ops lookup a") (auto split: result.splits)
qed

lemma atom_reads:
  assumes "reads_factor ops lookup e" and "ast_tokens 1 e = ast_tokens 2 e" and "ast_tokens 0 e = ast_tokens 1 e"
  shows "reads_factor ops lookup e \<and> reads_head ops lookup 1 e \<and> reads_head ops lookup 0 e"
  using assms(1) factor_reads_term [OF assms(1,2)] term_reads_expr [OF _ assms(3)] by blast

lemma ast_reads: "reads_factor ops lookup e \<and> reads_head ops lookup 1 e \<and> reads_head ops lookup 0 e"
proof (induction e)
  case (Num v)
  have "reads_factor ops lookup (Num v)"
    by (auto simp: reads_factor_def parser_bodies intro!: parsesI [of 0])
  then show ?case by (rule atom_reads) simp_all
next
  case (Ref r)
  have "reads_factor ops lookup (Ref r)"
    by (auto simp: reads_factor_def parser_bodies intro!: parsesI [of 0] split: result.split option.split)
  then show ?case by (rule atom_reads) simp_all
next
  case (Neg a)
  have "parses ops lookup PFactor (TOp CHR ''-'' # ast_tokens 2 a @ rest) (with_rest (eval_ast ops lookup (Neg a)) rest)" for rest
  proof -
    have "parses ops lookup PFactor (ast_tokens 2 a @ rest) (with_rest (eval_ast ops lookup a) rest)"
      using Neg by (simp add: reads_factor_def)
    then show ?thesis by (rule parses_step1) (cases "eval_ast ops lookup a"; simp add: parser_bodies)
  qed
  then have "reads_factor ops lookup (Neg a)" by (simp add: reads_factor_def)
  then show ?case by (rule atom_reads) simp_all
next
  case (Bin c a b)
  show ?case
  proof (cases "op_level c = 0")
    case True
    have e: "reads_head ops lookup 0 (Bin c a b)" using Bin True by (auto intro: add_reads_expr)
    have "ast_tokens p (Bin c a b) = TLParen # ast_tokens 0 (Bin c a b) @ [TRParen]" if "0 < p" for p
      using True that by simp
    then have "reads_factor ops lookup (Bin c a b)"
      using expr_in_parens [OF e] by (simp add: reads_factor_def del: ast_tokens.simps)
    moreover have "reads_head ops lookup 1 (Bin c a b)"
      by (rule factor_reads_term [OF calculation]) (simp add: True)
    ultimately show ?thesis using e by blast
  next
    case False
    then have l: "op_level c = 1" by (cases c) simp_all
    have t: "reads_head ops lookup 1 (Bin c a b)" using Bin by (blast intro: mul_reads_term [OF _ _ l])
    have e: "reads_head ops lookup 0 (Bin c a b)" by (rule term_reads_expr [OF t]) (simp add: l)
    have "ast_tokens 2 (Bin c a b) = TLParen # ast_tokens 0 (Bin c a b) @ [TRParen]" by (simp add: l)
    then have "reads_factor ops lookup (Bin c a b)"
      using expr_in_parens [OF e] by (simp add: reads_factor_def del: ast_tokens.simps)
    with t e show ?thesis by blast
  qed
qed

text \<open>
  The tokens of a tree, parsed with the fuel of \<open>evaluate_tokens\<close>, give the value of the tree.
\<close>

lemma run_parser_total: "\<exists>r. run_parser (parse_fuel ts) ops lookup PExpr ts = Some r"
  using parser_returns [of PExpr ts "parse_fuel ts" ops lookup] by (auto simp: returned_def parse_fuel_def)

lemma parses_run: "parses ops lookup PExpr ts r \<Longrightarrow> run_parser (parse_fuel ts) ops lookup PExpr ts = Some r"
proof -
  assume "parses ops lookup PExpr ts r"
  then obtain n where n: "run_parser n ops lookup PExpr ts = Some r" by (auto simp: parses_def)
  obtain r' where r': "run_parser (parse_fuel ts) ops lookup PExpr ts = Some r'" using run_parser_total by blast
  have "run_parser (max n (parse_fuel ts)) ops lookup PExpr ts = Some r" by (rule run_parser_mono [OF n]) simp
  moreover have "run_parser (max n (parse_fuel ts)) ops lookup PExpr ts = Some r'" by (rule run_parser_mono [OF r']) simp
  ultimately show ?thesis using r' by simp
qed

lemma evaluate_tokens_ast: "evaluate_tokens ops lookup (ast_tokens 0 e) = Some (eval_ast ops lookup e)"
proof (cases "eval_ast ops lookup e")
  case (Ok v)
  then have "parses ops lookup PExpr (ast_tokens 0 e) (Ok (v, []))"
    using ast_reads [of ops lookup e] expr_loop_end [of ops lookup v]
    by (auto simp: reads_head_def dest!: spec [of _ "[]"])
  then show ?thesis by (simp add: evaluate_tokens_def parses_run Ok)
next
  case (Err x)
  then have "parses ops lookup PExpr (ast_tokens 0 e) (Err x)"
    using ast_reads [of ops lookup e] by (auto simp: reads_head_def dest!: spec [of _ "[]"])
  then show ?thesis by (simp add: evaluate_tokens_def parses_run Err)
qed

section \<open>Concrete syntax\<close>

text \<open>
  A tree over literal texts, written down with its tokens separated by blanks.  A literal is
  digits with at most one dot that \<open>str::parse\<close> accepts; a reference has no blank, operator or parenthesis.
\<close>

fun token_text :: "string token \<Rightarrow> string" where
  "token_text (TNumber s) = s"
| "token_text (TReference r) = CHR ''$'' # r"
| "token_text (TOp c) = [c]"
| "token_text TLParen = ''(''"
| "token_text TRParen = '')''"

definition expr_text :: "string ast \<Rightarrow> string" where
  "expr_text e = concat (map (\<lambda>t. token_text t @ '' '') (ast_tokens 0 e))"

definition valid_literal :: "'n num_ops \<Rightarrow> string \<Rightarrow> bool" where
  "valid_literal ops s \<longleftrightarrow> s \<noteq> [] \<and> number_len False s = length s \<and> n_parse ops s \<noteq> None"

definition valid_reference :: "string \<Rightarrow> bool" where
  "valid_reference r \<longleftrightarrow> r \<noteq> [] \<and> (\<forall>b \<in> set r. \<not> ends_reference b)"

fun valid_ast :: "'n num_ops \<Rightarrow> string ast \<Rightarrow> bool" where
  "valid_ast ops (Num s) \<longleftrightarrow> valid_literal ops s"
| "valid_ast ops (Ref r) \<longleftrightarrow> valid_reference r"
| "valid_ast ops (Neg a) \<longleftrightarrow> valid_ast ops a"
| "valid_ast ops (Bin c a b) \<longleftrightarrow> valid_ast ops a \<and> valid_ast ops b"

definition literal_value :: "'n num_ops \<Rightarrow> string \<Rightarrow> 'n" where
  "literal_value ops s = the (n_parse ops s)"

fun valid_token :: "'n num_ops \<Rightarrow> string token \<Rightarrow> bool" where
  "valid_token ops (TNumber s) \<longleftrightarrow> valid_literal ops s"
| "valid_token ops (TReference r) \<longleftrightarrow> valid_reference r"
| "valid_token ops (TOp c) \<longleftrightarrow> is_op c"
| "valid_token ops _ \<longleftrightarrow> True"

lemma number_len_blank: "number_len d (s @ CHR '' '' # rest) = number_len d s"
  by (induction s arbitrary: d) (auto simp: is_ascii_digit_def)

lemma ref_len_blank: "valid_reference r \<Longrightarrow> ref_len (r @ CHR '' '' # rest) = length r"
  by (simp add: ref_len_def valid_reference_def takeWhile_append2 ends_reference_def is_op_def)

lemma expr_blank_space [simp]: "expr_blank CHR '' ''"
  by (simp add: expr_blank_def)

lemma lex_blank [simp]: "lex ops (CHR '' '' # rest) = lex ops rest"
  by (simp add: expr_blank_def)

lemma literal_head:
  assumes "valid_literal ops (c # s)"
  shows "is_ascii_digit c \<or> c = CHR ''.''" "\<not> expr_blank c" "\<not> is_op c" "c \<notin> {CHR ''('', CHR '')'', CHR ''$''}"
  using assms by (auto simp: valid_literal_def expr_blank_def is_op_def is_ascii_digit_def split: if_splits)

lemma lex_token:
  assumes "valid_token ops t"
  shows "lex ops (token_text t @ CHR '' '' # rest) =
    bind_result (lex ops rest) (\<lambda>ts. Ok (map_token (literal_value ops) t # ts))"
proof (cases t)
  case (TNumber s)
  then have v: "valid_literal ops s" using assms by simp
  then obtain c s' where s: "s = c # s'" by (cases s) (auto simp: valid_literal_def)
  have n: "number_len False (c # s' @ CHR '' '' # rest) = Suc (length s')"
    using v number_len_blank [of False s rest] by (simp add: valid_literal_def s)
  obtain x where x: "n_parse ops (c # s') = Some x" using v by (auto simp: valid_literal_def s)
  show ?thesis using literal_head [OF v [unfolded s]]
    by (simp add: TNumber s n x literal_value_def Let_def del: number_len.simps)
next
  case (TReference r)
  then have v: "valid_reference r" using assms by simp
  then have "length r \<noteq> 0" by (simp add: valid_reference_def)
  then show ?thesis using ref_len_blank [OF v, of rest]
    by (simp add: TReference expr_blank_def is_op_def)
next
  case (TOp c)
  then show ?thesis using assms by (auto simp: expr_blank_def is_op_def)
qed (auto simp: expr_blank_def is_op_def)

lemma lex_tokens:
  "\<forall>t \<in> set ts. valid_token ops t \<Longrightarrow>
   lex ops (concat (map (\<lambda>t. token_text t @ '' '') ts)) = Ok (map (map_token (literal_value ops)) ts)"
  by (induction ts) (simp_all add: lex_token)

lemma ast_tokens_valid: "valid_ast ops e \<Longrightarrow> \<forall>t \<in> set (ast_tokens p e). valid_token ops t"
proof (induction e arbitrary: p)
  case (Bin c a b)
  have "is_op (op_char c)" by (cases c) (simp_all add: is_op_def)
  then show ?case using Bin by (auto simp: Let_def)
qed (auto simp: is_op_def)

lemma ast_tokens_map: "map (map_token f) (ast_tokens p e) = ast_tokens p (map_ast f e)"
  by (induction e arbitrary: p) (simp_all add: Let_def)

lemma lex_expr_text: "valid_ast ops e \<Longrightarrow> lex ops (expr_text e) = Ok (ast_tokens 0 (map_ast (literal_value ops) e))"
  using lex_tokens [OF ast_tokens_valid, of ops e 0] by (simp add: expr_text_def ast_tokens_map)

section \<open>The table\<close>

definition expr_ok :: "expr_engine \<Rightarrow> bool" where
  "expr_ok e \<longleftrightarrow> keyed ex_owner ex_name (xe_expressions e)"

lemma expr_ok_ops:
  "expr_ok (expr_engine_new q)" "expr_ok e \<Longrightarrow> expr_ok (expr_set_self_query g e)"
  "expr_ok e \<Longrightarrow> expr_ok (add_expression x e)" "expr_ok e \<Longrightarrow> expr_ok (snd (remove_expression owner name e))"
  by (simp_all add: expr_ok_def expr_engine_new_def expr_set_self_query_def add_expression_def remove_expression_def
      keyed_insert keyed_remove) (simp add: keyed_def)

lemma evaluate_tokens_returns: "evaluate_tokens ops lookup ts \<noteq> None"
  using run_parser_total [of ts ops lookup] by (auto simp: evaluate_tokens_def split: result.split)

lemma evaluate_expression_returns: "evaluate_expression ops lookup s \<noteq> None"
  by (cases "lex ops s") (simp_all add: evaluate_expression_def evaluate_tokens_returns del: not_None_eq)

lemma distinct_concat_sub:
  assumes "distinct (map f xs)" and "\<And>x. x \<in> set xs \<Longrightarrow> map g (h x) = [] \<or> map g (h x) = [f x]"
  shows "distinct (map g (concat (map h xs)))"
  using assms
proof (induction xs)
  case (Cons x xs)
  have sub: "set (map g (h y)) \<subseteq> {f y}" if "y \<in> set (x # xs)" for y
    using Cons.prems(2) [OF that] by auto
  have "f x \<notin> set (map g (concat (map h xs)))"
  proof
    assume "f x \<in> set (map g (concat (map h xs)))"
    then obtain y where "y \<in> set xs" "f x \<in> set (map g (h y))" by auto
    then have "f x \<in> f ` set xs" using sub [of y] by auto
    then show False using Cons.prems(1) by simp
  qed
  moreover have "distinct (map g (concat (map h xs)))"
    by (rule Cons.IH) (use Cons.prems in simp_all)
  ultimately show ?case using Cons.prems(2) [of x] sub [of x] by (auto simp del: set_map set_concat)
qed simp

interpretation expr_table: row_table EXP_ENTRY "expr_rows ops" expr_ok
proof
  fix e :: expr_engine assume ok: "expr_ok e"
  have d: "distinct (map (\<lambda>(k, x). entry_index (ex_owner x) (ex_name x)) (xe_expressions e))"
    using keyed_index [OF ok [unfolded expr_ok_def], of "\<lambda>_. ()"] by (simp add: case_prod_unfold comp_def)
  show "distinct (map fst (expr_rows ops e))"
    unfolding expr_rows_def by (rule distinct_concat_sub [OF d]) (auto split: option.split result.split)
  show "(index, cols) \<in> set (expr_rows ops e) \<Longrightarrow> distinct (map fst cols)" for index cols
    by (auto simp: expr_rows_def split: option.splits result.splits)
qed

text \<open>C18: DISMAN-EXPRESSION evaluates an expression by the usual precedence and associativity of the
  operators: the text of any expression tree, with parentheses only where precedence asks for
  them, evaluates to the tree's value, or to the error its evaluation meets first.
\<close>

theorem expression_value:
  assumes "valid_ast ops e"
  shows "evaluate_expression ops lookup (expr_text e) = Some (eval_ast ops lookup (map_ast (literal_value ops) e))"
  using assms by (simp add: evaluate_expression_def lex_expr_text evaluate_tokens_ast)

text \<open>Integer arithmetic with truncating division and literals of decimal digits.\<close>

definition int_ops :: "int num_ops" where
  "int_ops = \<lparr>n_add = (+), n_sub = (-), n_mul = (*), n_div = (\<lambda>a b. sgn b * (sgn a * (\<bar>a\<bar> div \<bar>b\<bar>))), n_neg = uminus,
     n_is_zero = (\<lambda>a. a = 0),
     n_parse = (\<lambda>s. if s = ''2'' then Some 2 else if s = ''3'' then Some 3 else if s = ''4'' then Some 4 else None),
     n_of_int = (\<lambda>x. x), n_to_i64 = of_int\<rparr>"

theorem expression_value_witness:
  "expr_text (Bin Sub (Bin Sub (Num ''2'') (Bin Mul (Num ''3'') (Num ''4''))) (Neg (Num ''3''))) = ''2 - 3 * 4 - - 3 '' \<and>
   evaluate_expression int_ops (\<lambda>_. None) ''2 - 3 * 4 - - 3 '' = Some (Ok (- 7))"
proof -
  let ?e = "Bin Sub (Bin Sub (Num ''2'') (Bin Mul (Num ''3'') (Num ''4''))) (Neg (Num ''3''))"
  have "valid_ast int_ops ?e"
    by (simp add: valid_literal_def int_ops_def is_ascii_digit_def)
  note v = expression_value [OF this, of "\<lambda>_. None"]
  have t: "expr_text ?e = ''2 - 3 * 4 - - 3 ''" by (simp add: expr_text_def)
  show ?thesis using v unfolding t by (simp add: int_ops_def literal_value_def)
qed

text \<open>C19: Evaluation terminates on every text, whatever the lookup of references answers, with a value or
  an error: the fuel of the recursive-descent parser is never exhausted.
\<close>

theorem expression_evaluation_terminates:
  "(\<exists>r. evaluate_expression ops lookup s = Some r) \<and> (\<exists>r. expr_evaluate ops e owner name = Some r)"
  using evaluate_expression_returns [of ops lookup s]
    evaluate_expression_returns [of ops "expr_lookup ops e" "ex_expression x" for x]
  by (auto simp: expr_evaluate_def split: option.split)

end
