(* ===== verification/Smux_Ber.thy ===== *)
theory Smux_Ber
  imports Snmp_Pdu Rust_Bytes
begin

text \<open>
  The hand-written BER subset of the SMUX server (\<^verbatim>\<open>crates/netsnmp-agent/src/smux.rs\<close>): lengths,
  tag-length-value triples, integers and object identifiers, each with the proof that the parser
  reads back what the encoder wrote, on the values where it does.
\<close>

section \<open>Encoders\<close>

text \<open>An error keeps its kind; the text of a decoding or I/O error only reaches the log.\<close>

datatype smux_error = SmuxTruncated | SmuxDecode | SmuxIo

fun len_digits :: "nat \<Rightarrow> u8 list" where
  "len_digits v = (if v = 0 then [] else word_of_nat v # len_digits (v div 256))"

declare len_digits.simps [simp del]

definition ber_len :: "nat \<Rightarrow> u8 list" where
  "ber_len n =
     (if n < 0x80 then [word_of_nat n]
      else (let bytes = rev (len_digits n) in (0x80 OR word_of_nat (length bytes)) # bytes))"

definition ber_tlv :: "u8 \<Rightarrow> u8 list \<Rightarrow> u8 list" where
  "ber_tlv tag content = tag # ber_len (length content) @ content"

fun drop_zeros :: "u8 list \<Rightarrow> u8 list" where
  "drop_zeros (a # b # bs) = (if a = 0 \<and> b AND 0x80 = 0 then drop_zeros (b # bs) else a # b # bs)"
| "drop_zeros bs = bs"

fun drop_ones :: "u8 list \<Rightarrow> u8 list" where
  "drop_ones (a # b # bs) = (if a = 0xFF \<and> b AND 0x80 \<noteq> 0 then drop_ones (b # bs) else a # b # bs)"
| "drop_ones bs = bs"

definition integer_bytes :: "i64 \<Rightarrow> u8 list" where
  "integer_bytes v =
     (if 0 \<le> sint v then
        (let b = drop_zeros (u64_to_be_bytes v) in if hd b AND 0x80 \<noteq> 0 then 0 # b else b)
      else drop_ones (u64_to_be_bytes v))"

definition ber_integer :: "i64 \<Rightarrow> u8 list" where
  "ber_integer v = ber_tlv 0x02 (integer_bytes v)"

text \<open>The groups of seven bits of a sub-identifier, the least significant first.\<close>

function base128_groups :: "u32 \<Rightarrow> u8 list" where
  "base128_groups v = (if v = 0 then [] else ucast (v AND 0x7F) # base128_groups (drop_bit 7 v))"
  by pat_completeness auto
termination
  by (relation "measure unat") (auto simp: drop_bit_eq_div unat_div unat_gt_0 intro!: div_less_dividend)

declare base128_groups.simps [simp del]

definition encode_base128 :: "u32 \<Rightarrow> u8 list" where
  "encode_base128 v =
     (case base128_groups v of
        [] \<Rightarrow> [0]
      | g # gs \<Rightarrow> rev (map (\<lambda>b. b OR 0x80) gs) @ [g])"

text \<open>The release build computes the first byte with wrap-around.\<close>

definition oid_content :: "oid \<Rightarrow> u8 list" where
  "oid_content o1 =
     (case as_slice o1 of
        [] \<Rightarrow> [0]
      | [a] \<Rightarrow> encode_base128 (40 * a)
      | a # b # arcs \<Rightarrow> encode_base128 (40 * a + b) @ concat (map encode_base128 arcs))"

definition ber_oid :: "oid \<Rightarrow> u8 list" where
  "ber_oid o1 = ber_tlv 0x06 (oid_content o1)"

definition ber_octet_string :: "u8 list \<Rightarrow> u8 list" where
  "ber_octet_string bytes = ber_tlv 0x04 bytes"

fun drop_zeros_above :: "nat \<Rightarrow> u8 list \<Rightarrow> u8 list" where
  "drop_zeros_above n [] = []"
| "drop_zeros_above n (b # bs) = (if n < length (b # bs) \<and> b = 0 then drop_zeros_above n bs else b # bs)"

definition ber_unsigned_content :: "u64 \<Rightarrow> nat \<Rightarrow> u8 list" where
  "ber_unsigned_content v min_bytes =
     (let b = drop_zeros_above min_bytes (u64_to_be_bytes v) in if b = [] then [0] else b)"

section \<open>Parsers\<close>

definition parse_len :: "u8 list \<Rightarrow> (nat \<times> nat, smux_error) result" where
  "parse_len buf =
     (case buf of
        [] \<Rightarrow> Err SmuxTruncated
      | first # rest \<Rightarrow>
          if first AND 0x80 = 0 then Ok (unat first, 1)
          else (let nbytes = unat (first AND 0x7F) in
                if nbytes = 0 \<or> 4 < nbytes \<or> length buf < 1 + nbytes then Err SmuxTruncated
                else Ok (foldl (\<lambda>len b. len * 256 + unat b) 0 (take nbytes rest), 1 + nbytes)))"

definition parse_tlv :: "u8 list \<Rightarrow> (u8 \<times> u8 list \<times> nat, smux_error) result" where
  "parse_tlv buf =
     (case buf of
        tag # rest \<Rightarrow>
          if rest = [] then Err SmuxTruncated
          else bind_result (parse_len rest) (\<lambda>(len, len_bytes).
            if length buf < 1 + len_bytes + len then Err SmuxTruncated
            else Ok (tag, take len (drop len_bytes rest), 1 + len_bytes + len))
      | [] \<Rightarrow> Err SmuxTruncated)"

definition parse_integer :: "u8 list \<Rightarrow> (i64, smux_error) result" where
  "parse_integer buf =
     (case buf of
        [] \<Rightarrow> Err SmuxTruncated
      | b # bs \<Rightarrow> Ok (foldl (\<lambda>v b. push_bit 8 v OR ucast b) (scast b) bs))"

fun parse_arc :: "u32 \<Rightarrow> u8 list \<Rightarrow> (u32 \<times> u8 list, smux_error) result" where
  "parse_arc v [] = Err SmuxTruncated"
| "parse_arc v (b # bs) =
     (let v' = push_bit 7 v OR ucast (b AND 0x7F)
      in if b AND 0x80 = 0 then Ok (v', bs) else parse_arc v' bs)"

lemma parse_arc_shorter: "parse_arc v bs = Ok (x, rest) \<Longrightarrow> length rest < length bs"
  by (induction bs arbitrary: v) (force simp: Let_def split: if_splits)+

function parse_arcs :: "u8 list \<Rightarrow> (u32 list, smux_error) result" where
  "parse_arcs bs =
     (if bs = [] then Ok []
      else case parse_arc 0 bs of
        Err e \<Rightarrow> Err e
      | Ok (v, rest) \<Rightarrow> bind_result (parse_arcs rest) (\<lambda>vs. Ok (v # vs)))"
  by pat_completeness auto
termination by (relation "measure length") (auto dest: parse_arc_shorter)

declare parse_arcs.simps [simp del]

definition parse_oid :: "u8 list \<Rightarrow> (oid, smux_error) result" where
  "parse_oid buf =
     (case buf of
        [] \<Rightarrow> Err SmuxTruncated
      | b # bs \<Rightarrow> bind_result (parse_arcs bs) (\<lambda>arcs. Ok (Oid (ucast b div 40 # ucast b mod 40 # arcs))))"

definition parse_unsigned_u32 :: "u8 list \<Rightarrow> u32" where
  "parse_unsigned_u32 content = foldl (\<lambda>v b. push_bit 8 v OR ucast b) 0 content"

definition parse_unsigned_u64 :: "u8 list \<Rightarrow> u64" where
  "parse_unsigned_u64 content = foldl (\<lambda>v b. push_bit 8 v OR ucast b) 0 content"

section \<open>Arithmetic of the byte loops\<close>

lemma bit_unat: "bit (x :: 'a :: len word) i \<longleftrightarrow> odd (unat x div 2 ^ i)"
  using bit_unsigned_iff [of x i, where 'a = nat] by (simp add: bit_iff_odd)

lemma shift_or_add:
  assumes "unat x < 2 ^ n"
  shows "push_bit n v OR x = v * 2 ^ n + (x :: 'a :: len word)"
proof -
  have "\<not> (bit (push_bit n v) i \<and> bit x i)" for i
  proof (cases "i < n")
    case False
    have "(2 :: nat) ^ n \<le> 2 ^ i" using False by (intro power_increasing) simp_all
    then have "unat x < 2 ^ i" using assms by (rule less_le_trans [rotated])
    then have "unat x div 2 ^ i = 0" by (rule div_less)
    then show ?thesis by (simp add: bit_unat [of x])
  qed (simp add: bit_push_bit_iff)
  then have "push_bit n v AND x = 0" by (auto intro!: bit_eqI simp: bit_and_iff)
  then show ?thesis by (simp add: disjunctive_add_eq_or [symmetric] push_bit_eq_mult)
qed

lemma unat_ucast_byte [simp]: "unat (ucast (b :: u8) :: u64) = unat b" "unat (ucast b :: u32) = unat b"
  using unsigned_less [of b, where 'a = nat]
  by (simp_all add: unsigned_ucast_eq take_bit_nat_eq_self)

lemma byte_step:
  "push_bit 8 (v :: u64) OR ucast (b :: u8) = v * 256 + ucast b"
  "push_bit 8 (w :: u32) OR ucast (b :: u8) = w * 256 + ucast b"
  using shift_or_add [of "ucast b :: u64" 8 v] shift_or_add [of "ucast b :: u32" 8 w]
    unsigned_less [of b, where 'a = nat]
  by simp_all

lemma top_bit: "(b :: u8) AND 0x80 = 0 \<longleftrightarrow> unat b < 128"
proof -
  have "b AND 2 ^ 7 = 0 \<longleftrightarrow> \<not> bit b 7" by (rule and_exp_eq_0_iff_not_bit)
  also have "\<dots> \<longleftrightarrow> even (unat b div 128)" by (simp add: bit_unat)
  also have "\<dots> \<longleftrightarrow> unat b < 128"
    using unsigned_less [of b, where 'a = nat] by (cases "unat b < 128") (auto simp: div_eq_0_iff le_div_geq)
  finally show ?thesis by simp
qed

lemma sint_byte: "sint (b :: u8) = int (unat b) - (if unat b < 128 then 0 else 256)"
proof -
  have "bit (uint b) 7 \<longleftrightarrow> \<not> unat b < 128" 
    using top_bit [of b] and_exp_eq_0_iff_not_bit [of b 7] by (simp add: bit_uint_iff)
  then show ?thesis
    using unsigned_less [of b, where 'a = int]
    by (simp add: sint_uint signed_take_bit_eq_take_bit_minus take_bit_int_eq_self)
qed

text \<open>Both loops over bytes are positional notation.\<close>

lemma le_value_append: "le_value (xs @ ys) = le_value xs + 256 ^ length xs * le_value ys"
  by (induction xs) (simp_all add: algebra_simps)

lemma foldl_bytes:
  "foldl (\<lambda>v b. push_bit 8 v OR ucast b) (x :: u64) bs = x * 256 ^ length bs + word_of_nat (le_value (rev bs))"
  "foldl (\<lambda>v b. push_bit 8 v OR ucast b) (y :: u32) bs = y * 256 ^ length bs + word_of_nat (le_value (rev bs))"
  unfolding byte_step by (induction bs arbitrary: x y) (simp_all add: le_value_append algebra_simps)

lemma foldl_len: "foldl (\<lambda>len b. len * 256 + unat b) n bs = n * 256 ^ length bs + le_value (rev bs)"
  by (induction bs arbitrary: n) (simp_all add: le_value_append algebra_simps)

section \<open>Lengths and triples\<close>

lemma len_digits_value: "le_value (len_digits n) = n"
proof (induction n rule: len_digits.induct)
  case (1 n)
  then show ?case
    by (cases "n = 0") (simp_all add: len_digits.simps [of 0] len_digits.simps [of n] unat_of_nat take_bit_eq_mod)
qed

lemma len_digits_length: "n < 256 ^ k \<Longrightarrow> length (len_digits n) \<le> k"
proof (induction k arbitrary: n)
  case (Suc k)
  then have "n div 256 < 256 ^ k" by (simp add: less_mult_imp_div_less mult.commute)
  from Suc.IH [OF this] show ?case by (simp add: len_digits.simps [of n])
qed (simp add: len_digits.simps)

lemma long_form_byte:
  assumes "k < 128"
  shows "(0x80 OR word_of_nat k :: u8) AND 0x80 \<noteq> 0" "unat ((0x80 OR word_of_nat k :: u8) AND 0x7F) = k"
proof -
  have u: "unat (word_of_nat k :: u8) = k" using assms by (simp add: unat_of_nat take_bit_nat_eq_self)
  have "push_bit 7 1 OR (word_of_nat k :: u8) = 1 * 2 ^ 7 + word_of_nat k"
    by (rule shift_or_add) (use assms u in simp)
  then have eq: "(0x80 OR word_of_nat k :: u8) = word_of_nat (128 + k)" by simp
  have v: "unat (word_of_nat (128 + k) :: u8) = 128 + k"
    using assms by (simp only: unat_of_nat) (simp add: take_bit_nat_eq_self)
  show "(0x80 OR word_of_nat k :: u8) AND 0x80 \<noteq> 0" unfolding eq top_bit v by simp
  have "(0x7F :: u8) = mask 7" by (simp add: mask_eq_exp_minus_1)
  then have "unat ((word_of_nat (128 + k) :: u8) AND 0x7F) = unat (take_bit 7 (word_of_nat (128 + k) :: u8))"
    by (simp only: take_bit_eq_mask)
  also have "\<dots> = k" using assms by (simp only: unsigned_take_bit_eq v) (simp add: take_bit_eq_mod)
  finally show "unat ((0x80 OR word_of_nat k :: u8) AND 0x7F) = k" unfolding eq .
qed

lemma parse_ber_len:
  assumes "n < 256 ^ 4"
  shows "parse_len (ber_len n @ rest) = Ok (n, length (ber_len n))"
proof (cases "n < 128")
  case True
  then have "unat (word_of_nat n :: u8) = n" by (simp add: unat_of_nat take_bit_nat_eq_self)
  then show ?thesis using True by (simp add: parse_len_def ber_len_def top_bit)
next
  case False
  let ?k = "length (len_digits n)"
  have k: "?k \<le> 4" using len_digits_length [OF assms] .
  have "len_digits n \<noteq> []" using False by (simp add: len_digits.simps [of n])
  then have "?k \<noteq> 0" by simp
  with k long_form_byte [of ?k] show ?thesis
    using False by (simp add: parse_len_def ber_len_def Let_def foldl_len len_digits_value)
qed

text \<open>A content whose length four bytes can carry.\<close>

definition fits :: "u8 list \<Rightarrow> bool" where
  "fits c \<longleftrightarrow> length c < 256 ^ 4"

lemma fits_append: "fits (xs @ ys) \<Longrightarrow> fits xs \<and> fits ys"
  by (simp add: fits_def)

lemma fits_tlv: "fits (ber_tlv tag c) \<Longrightarrow> fits c"
  by (simp add: fits_def ber_tlv_def)

lemma fits_short: "length c \<le> 100 \<Longrightarrow> fits c"
  by (simp add: fits_def)

lemma parse_ber_tlv:
  assumes "fits c"
  shows "parse_tlv (ber_tlv tag c @ rest) = Ok (tag, c, length (ber_tlv tag c))"
proof -
  have "ber_len (length c) \<noteq> []" by (simp add: ber_len_def Let_def)
  then show ?thesis
    using parse_ber_len [OF assms [unfolded fits_def], of "c @ rest"] by (simp add: parse_tlv_def ber_tlv_def)
qed

lemma parse_ber_tlv_end: "fits c \<Longrightarrow> parse_tlv (ber_tlv tag c) = Ok (tag, c, length (ber_tlv tag c))"
  using parse_ber_tlv [of c tag "[]"] by simp

section \<open>Integers\<close>

lemma scast_byte: "(scast (b :: u8) :: u64) = ucast b - (if unat b < 128 then 0 else 256)"
  by (cases "unat b < 128") (simp_all add: scast_eq sint_byte)

lemma parse_integer_cons:
  "parse_integer (b # bs) = Ok (scast b * 256 ^ length bs + word_of_nat (le_value (rev bs)))"
  by (simp add: parse_integer_def foldl_bytes)

lemma parse_integer_bytes: "parse_integer (u64_to_be_bytes v) = Ok v"
proof -
  obtain b bs where bytes: "u64_to_be_bytes v = b # bs" by (cases "u64_to_be_bytes v") (auto dest: arg_cong [of _ _ length])
  then have n: "length bs = 7" using length_to_bytes(6) [of v] by simp
  have "v = u64_from_be_bytes (b # bs)" unfolding bytes [symmetric] by simp
  also have "\<dots> = ucast b * 256 ^ 7 + word_of_nat (le_value (rev bs))"
    by (simp add: u64_from_be_bytes_def u64_from_le_bytes_def le_value_append n algebra_simps)
  also have "ucast b * 256 ^ 7 = (scast b * 256 ^ 7 :: u64)"
    by (simp add: scast_byte left_diff_distrib)
  finally have "scast b * 256 ^ 7 + word_of_nat (le_value (rev bs)) = v" by (rule sym)
  then show ?thesis by (simp only: bytes parse_integer_cons n)
qed

lemma parse_sign_byte:
  "unat b < 128 \<Longrightarrow> parse_integer (0 # b # bs) = parse_integer (b # bs)"
  "\<not> unat b < 128 \<Longrightarrow> parse_integer (0xFF # b # bs) = parse_integer (b # bs)"
proof -
  have step: "parse_integer (a # b # bs) = Ok (foldl (\<lambda>v b. push_bit 8 v OR ucast b) (scast a * 256 + ucast b) bs)" for a
    by (simp only: parse_integer_def list.case foldl.simps byte_step)
  have m1: "(scast (0xFF :: u8) :: u64) = - 1" by simp
  show "parse_integer (0 # b # bs) = parse_integer (b # bs)" if "unat b < 128"
    unfolding step by (simp only: parse_integer_def list.case scast_byte [of b] that) simp
  show "parse_integer (0xFF # b # bs) = parse_integer (b # bs)" if "\<not> unat b < 128"
    unfolding step m1 by (simp only: parse_integer_def list.case scast_byte [of b] that) simp
qed

lemma parse_drop_zeros: "parse_integer (drop_zeros bs) = parse_integer bs"
  by (induction bs rule: drop_zeros.induct) (simp_all add: top_bit parse_sign_byte)

lemma parse_drop_ones: "parse_integer (drop_ones bs) = parse_integer bs"
  by (induction bs rule: drop_ones.induct) (simp_all add: top_bit parse_sign_byte)

lemma length_drop_zeros: "length (drop_zeros bs) \<le> length bs" "bs \<noteq> [] \<Longrightarrow> drop_zeros bs \<noteq> []"
  by (induction bs rule: drop_zeros.induct) auto

lemma length_drop_ones: "length (drop_ones bs) \<le> length bs" "bs \<noteq> [] \<Longrightarrow> drop_ones bs \<noteq> []"
  by (induction bs rule: drop_ones.induct) auto

lemma integer_bytes_length: "length (integer_bytes v) \<le> 9"
  using length_drop_zeros(1) [of "u64_to_be_bytes v"] length_drop_ones(1) [of "u64_to_be_bytes v"]
  by (simp add: integer_bytes_def Let_def)

lemma fits_integer_bytes [simp]: "fits (integer_bytes v)"
  using integer_bytes_length [of v] by (intro fits_short) simp

lemma hd_drop_zeros: "hd bs AND 0x80 = 0 \<Longrightarrow> hd (drop_zeros bs) AND 0x80 = 0"
  by (induction bs rule: drop_zeros.induct) auto

lemma le_digits_snoc: "le_digits (Suc n) x = le_digits n x @ [word_of_nat (x div 256 ^ n)]"
proof (induction n arbitrary: x)
  case (Suc n)
  have "le_digits (Suc (Suc n)) x = word_of_nat x # le_digits (Suc n) (x div 256)" by simp
  also have "\<dots> = word_of_nat x # le_digits n (x div 256) @ [word_of_nat (x div 256 div 256 ^ n)]"
    by (simp only: Suc.IH)
  finally show ?case by (simp add: div_mult2_eq)
qed simp

lemma sint_nonneg: "0 \<le> sint (v :: u64) \<Longrightarrow> unat v < 2 ^ 63"
proof (rule ccontr)
  assume "\<not> unat v < 2 ^ 63" and "0 \<le> sint v"
  then have "odd (unat v div 2 ^ 63)"
    using unsigned_less [of v, where 'a = nat] by (simp add: le_div_geq)
  then have "bit (uint v) 63" by (simp add: bit_uint_iff bit_unat)
  then have "sint v = uint v - 2 ^ 64"
    using unsigned_less [of v, where 'a = int]
    by (simp add: sint_uint signed_take_bit_eq_take_bit_minus take_bit_int_eq_self)
  then show False using \<open>0 \<le> sint v\<close> unsigned_less [of v, where 'a = int] by simp
qed

lemma hd_be_bytes: "0 \<le> sint v \<Longrightarrow> hd (u64_to_be_bytes v) AND 0x80 = 0"
proof -
  assume "0 \<le> sint v"
  then have "unat v div 256 ^ 7 < 128" using sint_nonneg [of v] by (simp add: less_mult_imp_div_less)
  moreover have "hd (u64_to_be_bytes v) = word_of_nat (unat v div 256 ^ 7)"
    using le_digits_snoc [of 7 "unat v"] by (simp add: to_bytes_defs del: le_digits.simps)
  ultimately show ?thesis by (simp add: top_bit unat_of_nat take_bit_nat_eq_self)
qed

lemma parse_integer_integer_bytes [simp]: "parse_integer (integer_bytes v) = Ok v"
  using hd_drop_zeros [OF hd_be_bytes, of v]
  by (simp add: integer_bytes_def Let_def parse_drop_zeros parse_drop_ones parse_integer_bytes)

section \<open>Object identifiers\<close>

lemma take_bit_small: "unat (w :: 'a :: len word) < 2 ^ n \<Longrightarrow> take_bit n w = w"
  by (simp only: word_unat_eq_iff unsigned_take_bit_eq take_bit_nat_eq_self)

lemma u32_low_bits: "(v :: u32) AND 0x7F = take_bit 7 v"
proof -
  have "(0x7F :: u32) = mask 7" by (simp add: mask_eq_exp_minus_1)
  then show ?thesis by (simp only: take_bit_eq_mask)
qed

lemma u8_low_bits: "(b :: u8) AND 0x7F = take_bit 7 b"
proof -
  have "(0x7F :: u8) = mask 7" by (simp add: mask_eq_exp_minus_1)
  then show ?thesis by (simp only: take_bit_eq_mask)
qed

lemma arc_step: "push_bit 7 (v :: u32) OR ucast (b AND 0x7F :: u8) = v * 128 + ucast (take_bit 7 b)"
proof -
  have "unat (take_bit 7 b) < 2 ^ 7" by (simp only: unsigned_take_bit_eq take_bit_nat_less_exp)
  then show ?thesis using shift_or_add [of "ucast (take_bit 7 b) :: u32" 7 v] by (simp add: u8_low_bits)
qed

lemma group_byte:
  assumes "unat (g :: u8) < 128"
  shows "g AND 0x80 = 0" "take_bit 7 g = g" "(g OR 0x80) AND 0x80 \<noteq> 0" "take_bit 7 (g OR 0x80) = g"
proof -
  show "g AND 0x80 = 0" using assms by (simp add: top_bit)
  show t: "take_bit 7 g = g" using assms by (simp add: take_bit_small)
  show "(g OR 0x80) AND 0x80 \<noteq> 0" by (simp add: bit.conj_disj_distrib2)
  show "take_bit 7 (g OR 0x80) = g" by (simp add: take_bit_or t)
qed

fun arc_value :: "u32 \<Rightarrow> u8 list \<Rightarrow> u32" where
  "arc_value v [] = v"
| "arc_value v (g # gs) = arc_value (v * 128 + ucast g) gs"

lemma arc_value_append: "arc_value v (gs @ hs) = arc_value (arc_value v gs) hs"
  by (induction gs arbitrary: v) simp_all

lemma groups_small: "\<forall>g \<in> set (base128_groups v). unat g < 128"
proof (induction v rule: base128_groups.induct)
  case (1 v)
  have "unat (ucast (v AND 0x7F) :: u8) < 128"
    using take_bit_nat_less_exp [of 7 "unat v"]
    by (simp add: u32_low_bits unsigned_ucast_eq unsigned_take_bit_eq take_bit_take_bit)
  then show ?case using 1 by (simp add: base128_groups.simps [of v])
qed

lemma groups_value: "arc_value 0 (rev (base128_groups v)) = v"
proof (induction v rule: base128_groups.induct)
  case (1 v)
  have "ucast (ucast (v AND 0x7F) :: u8) = take_bit 7 v"
    by (simp add: u32_low_bits word_eq_iff_unsigned unsigned_ucast_eq unsigned_take_bit_eq)
  moreover have "drop_bit 7 v * 128 + take_bit 7 v = v"
    using bits_ident [of 7 v] by (simp add: push_bit_eq_mult)
  ultimately show ?case using 1 by (simp add: base128_groups.simps [of v] base128_groups.simps [of 0] arc_value_append)
qed

lemma parse_groups:
  assumes "\<forall>h \<in> set gs. unat h < 128" and "unat g < 128"
  shows "parse_arc v (map (\<lambda>b. b OR 0x80) gs @ g # rest) = Ok (arc_value v (gs @ [g]), rest)"
  using assms(1)
proof (induction gs arbitrary: v)
  case Nil
  then show ?case using group_byte [OF assms(2)] by (simp add: Let_def arc_step)
next
  case (Cons h gs)
  then show ?case using group_byte [of h] by (simp add: Let_def arc_step del: push_bit_numeral)
qed

lemma parse_encode_base128: "parse_arc 0 (encode_base128 v @ rest) = Ok (v, rest)"
proof (cases "base128_groups v")
  case Nil
  then have "v = 0" using groups_value [of v] by simp
  moreover have "encode_base128 v = [0]" by (simp add: encode_base128_def Nil)
  ultimately show ?thesis by simp
next
  case (Cons g gs)
  have "\<forall>h \<in> set (rev gs). unat h < 128" "unat g < 128" using groups_small [of v] by (simp_all add: Cons)
  from parse_groups [OF this, of 0 rest] show ?thesis
    using groups_value [of v] by (simp add: encode_base128_def Cons rev_map)
qed

lemma parse_arcs_concat: "parse_arcs (concat (map encode_base128 vs)) = Ok vs"
proof (induction vs)
  case (Cons v vs)
  have "encode_base128 v \<noteq> []" by (simp add: encode_base128_def split: list.split)
  then show ?case using Cons
    by (simp add: parse_arcs.simps [of "encode_base128 v @ _"] parse_encode_base128)
qed (simp add: parse_arcs.simps)

text \<open>
  The parser reads the first two sub-identifiers from one byte, so an identifier survives only when
  their code fits seven bits.
\<close>

definition ber_oid_ok :: "oid \<Rightarrow> bool" where
  "ber_oid_ok o1 = (case as_slice o1 of a # b # _ \<Rightarrow> unat b < 40 \<and> 40 * unat a + unat b < 128 | _ \<Rightarrow> False)"

lemma encode_base128_small: "unat v < 128 \<Longrightarrow> encode_base128 v = [ucast v]"
proof -
  assume v: "unat v < 128"
  have "drop_bit 7 v = 0" using v by (simp add: drop_bit_eq_div unat_div word_unat_eq_iff)
  moreover have "v AND 0x7F = v" using v by (simp add: u32_low_bits take_bit_small)
  ultimately show ?thesis
    by (simp add: encode_base128_def base128_groups.simps [of v] base128_groups.simps [of 0])
qed

lemma parse_oid_content:
  assumes "ber_oid_ok o1"
  shows "parse_oid (oid_content o1) = Ok o1"
proof -
  obtain a b arcs where o1: "o1 = Oid (a # b # arcs)" and b: "unat b < 40" and ab: "40 * unat a + unat b < 128"
    using assms by (cases o1) (auto simp: ber_oid_ok_def split: list.splits)
  have u: "unat (40 * a + b) = 40 * unat a + unat b"
    using ab by (simp add: unat_word_ariths)
  have "unat (ucast (ucast (40 * a + b) :: u8) :: u32) = 40 * unat a + unat b"
    using ab by (simp add: unsigned_ucast_eq u take_bit_small)
  then have "(ucast (ucast (40 * a + b) :: u8) :: u32) div 40 = a" "(ucast (ucast (40 * a + b) :: u8) :: u32) mod 40 = b"
    using b by (simp_all add: word_unat_eq_iff unat_div unat_mod)
  then show ?thesis
    using ab by (simp add: parse_oid_def oid_content_def o1 encode_base128_small u parse_arcs_concat)
qed

end
