(* ===== verification/Smux_Pdu.thy ===== *)
theory Smux_Pdu
  imports Smux_Ber
begin

text \<open>
  The packets of SMUX (\<^verbatim>\<open>crates/netsnmp-agent/src/smux.rs\<close>): opening, closing and registration PDUs,
  the SNMP PDUs carried over the same stream, and the reader that cuts the stream into packets.
\<close>

section \<open>Data\<close>

definition SMUX_OPEN :: u8 where "SMUX_OPEN = 0xA0"
definition SMUX_RRSP :: u8 where "SMUX_RRSP = 0xA1"
definition SMUX_CLOSE :: u8 where "SMUX_CLOSE = 0xA4"
definition SMUX_SOUT :: u8 where "SMUX_SOUT = 0xA5"

datatype rrsp_code = RReject | RReadOnly | RReadWrite

fun rrsp_value :: "rrsp_code \<Rightarrow> i64" where
  "rrsp_value RReject = - 1"
| "rrsp_value RReadOnly = 0"
| "rrsp_value RReadWrite = 1"

record smux_open =
  so_version :: i64
  so_identity :: oid
  so_description :: string
  so_password :: string

record message =
  msg_version :: version
  msg_community :: "u8 list"
  msg_pdu :: pdu

datatype smux_pdu =
    SmuxOpen smux_open
  | SmuxClose i64
  | SmuxRRsp i64
  | SmuxSout i64
  | SmuxSnmp message
  | SmuxRegister oid i64 i64

section \<open>Encoders\<close>

definition open_content :: "smux_open \<Rightarrow> u8 list" where
  "open_content o1 =
     ber_integer (so_version o1) @ ber_oid (so_identity o1) @
     ber_octet_string (as_bytes (so_description o1)) @ ber_octet_string (as_bytes (so_password o1))"

definition encode_smux_open :: "smux_open \<Rightarrow> u8 list" where
  "encode_smux_open o1 = ber_tlv SMUX_OPEN (open_content o1)"

definition encode_close :: "i64 \<Rightarrow> u8 list" where
  "encode_close code = ber_tlv SMUX_CLOSE (ber_integer code)"

definition encode_rrsp :: "i64 \<Rightarrow> u8 list" where
  "encode_rrsp code = ber_tlv SMUX_RRSP (ber_integer code)"

definition encode_sout :: "i64 \<Rightarrow> u8 list" where
  "encode_sout arg = ber_tlv SMUX_SOUT (ber_integer arg)"

definition ber_integer_content :: "i64 \<Rightarrow> u8 list" where
  "ber_integer_content v = (case parse_tlv (ber_integer v) of Ok (_, content, _) \<Rightarrow> content | Err _ \<Rightarrow> [])"

fun encode_value :: "value \<Rightarrow> u8 list" where
  "encode_value (Integer v) = ber_tlv 0x02 (ber_integer_content v)"
| "encode_value (OctetString b) = ber_octet_string b"
| "encode_value (OidValue o1) = ber_oid o1"
| "encode_value Null = ber_tlv 0x05 []"
| "encode_value (Counter32 v) = ber_tlv 0x41 (ber_unsigned_content (ucast v) 4)"
| "encode_value (Gauge32 v) = ber_tlv 0x42 (ber_unsigned_content (ucast v) 4)"
| "encode_value (TimeTicks v) = ber_tlv 0x43 (ber_unsigned_content (ucast v) 4)"
| "encode_value (IpAddress (a, b, c, d)) = ber_tlv 0x40 [a, b, c, d]"
| "encode_value (Opaque b) = ber_tlv 0x44 b"
| "encode_value (Counter64 v) = ber_tlv 0x46 (ber_unsigned_content v 8)"
| "encode_value NoSuchObject = ber_tlv 0x80 []"
| "encode_value NoSuchInstance = ber_tlv 0x81 []"
| "encode_value EndOfMibView = ber_tlv 0x82 []"

definition encode_snmp_varbind :: "varbind \<Rightarrow> u8 list" where
  "encode_snmp_varbind vb = ber_tlv 0x30 (ber_oid (vb_oid vb) @ encode_value (vb_value vb))"

text \<open>The body shared by requests, responses and registrations.\<close>

definition pdu_content :: "i64 \<Rightarrow> i64 \<Rightarrow> i64 \<Rightarrow> varbind list \<Rightarrow> u8 list" where
  "pdu_content rid es ei vbs =
     ber_integer rid @ ber_integer es @ ber_integer ei @ ber_tlv 0x30 (concat (map encode_snmp_varbind vbs))"

definition encode_snmp_response :: "pdu \<Rightarrow> u8 list" where
  "encode_snmp_response p =
     ber_tlv (pdu_tag Response) (pdu_content (scast (request_id p)) (error_status p) (error_index p) (variables p))"

definition encode_snmp_request :: "pdu_type \<Rightarrow> i32 \<Rightarrow> oid \<Rightarrow> u8 list" where
  "encode_snmp_request t rid o1 = ber_tlv (pdu_tag t) (pdu_content (scast rid) 0 0 [null_varbind o1])"

definition encode_register :: "oid \<Rightarrow> i64 \<Rightarrow> i64 \<Rightarrow> u8 list" where
  "encode_register subtree priority operation =
     ber_tlv (pdu_tag Get)
       (pdu_content 0 0 0 [null_varbind (Oid (as_slice subtree @ [ucast priority, ucast operation]))])"

section \<open>Decoders\<close>

text \<open>The content of the first triple and what follows it.\<close>

definition tlv_field :: "u8 list \<Rightarrow> (u8 list \<times> u8 list, smux_error) result" where
  "tlv_field buf = bind_result (parse_tlv buf) (\<lambda>(_, content, consumed). Ok (content, drop consumed buf))"

definition decode_smux_open :: "u8 list \<Rightarrow> (smux_open, smux_error) result" where
  "decode_smux_open content =
     bind_result (tlv_field content) (\<lambda>(v_buf, rest).
     bind_result (parse_integer v_buf) (\<lambda>version.
     bind_result (tlv_field rest) (\<lambda>(id_buf, rest).
     bind_result (parse_oid id_buf) (\<lambda>identity.
     bind_result (tlv_field rest) (\<lambda>(d_buf, rest).
     bind_result (tlv_field rest) (\<lambda>(p_buf, _).
       Ok \<lparr>so_version = version, so_identity = identity,
           so_description = from_utf8_lossy d_buf, so_password = from_utf8_lossy p_buf\<rparr>))))))"

definition decode_code :: "u8 list \<Rightarrow> (i64, smux_error) result" where
  "decode_code content = bind_result (tlv_field content) (\<lambda>(b, _). parse_integer b)"

definition decode_value_by_tag :: "u8 \<Rightarrow> u8 list \<Rightarrow> value" where
  "decode_value_by_tag tag content =
     (if tag = 0x02 then Integer (case parse_integer content of Ok v \<Rightarrow> v | Err _ \<Rightarrow> 0)
      else if tag = 0x04 then OctetString content
      else if tag = 0x06 then OidValue (case parse_oid content of Ok o1 \<Rightarrow> o1 | Err _ \<Rightarrow> null_oid)
      else if tag = 0x05 then Null
      else if tag = 0x41 then Counter32 (parse_unsigned_u32 content)
      else if tag = 0x42 then Gauge32 (parse_unsigned_u32 content)
      else if tag = 0x43 then TimeTicks (parse_unsigned_u32 content)
      else if tag = 0x40 then
        (case content of [a, b, c, d] \<Rightarrow> IpAddress (a, b, c, d) | _ \<Rightarrow> Null)
      else if tag = 0x44 then Opaque content
      else if tag = 0x46 then Counter64 (parse_unsigned_u64 content)
      else if tag = 0x80 then NoSuchObject
      else if tag = 0x81 then NoSuchInstance
      else if tag = 0x82 then EndOfMibView
      else Null)"

definition decode_snmp_value :: "u8 list \<Rightarrow> (value, smux_error) result" where
  "decode_snmp_value full = bind_result (parse_tlv full) (\<lambda>(tag, content, _). Ok (decode_value_by_tag tag content))"

definition decode_snmp_varbind :: "u8 list \<Rightarrow> (varbind, smux_error) result" where
  "decode_snmp_varbind content =
     bind_result (tlv_field content) (\<lambda>(name_buf, val_buf).
     bind_result (parse_oid name_buf) (\<lambda>o1.
     bind_result (decode_snmp_value val_buf) (\<lambda>v. Ok (new_varbind o1 v))))"

lemma parse_tlv_consumes: "parse_tlv buf = Ok (tag, content, consumed) \<Longrightarrow> 0 < consumed \<and> buf \<noteq> []"
  by (auto simp: parse_tlv_def split: list.splits if_splits)

function decode_varbind_list :: "u8 list \<Rightarrow> (varbind list, smux_error) result" where
  "decode_varbind_list buf =
     (if buf = [] then Ok []
      else case parse_tlv buf of
        Err e \<Rightarrow> Err e
      | Ok (_, content, consumed) \<Rightarrow>
          bind_result (decode_snmp_varbind content) (\<lambda>vb.
          bind_result (decode_varbind_list (drop consumed buf)) (\<lambda>vbs. Ok (vb # vbs))))"
  by pat_completeness auto
termination by (relation "measure length") (auto dest: parse_tlv_consumes)

declare decode_varbind_list.simps [simp del]

definition decode_bare_snmp_pdu :: "u8 \<Rightarrow> u8 list \<Rightarrow> (pdu, smux_error) result" where
  "decode_bare_snmp_pdu tag content =
     (case pdu_from_tag tag of
        Err _ \<Rightarrow> Err SmuxDecode
      | Ok t \<Rightarrow>
         bind_result (tlv_field content) (\<lambda>(id_buf, rest).
         bind_result (parse_integer id_buf) (\<lambda>rid.
         bind_result (tlv_field rest) (\<lambda>(es_buf, rest).
         bind_result (parse_integer es_buf) (\<lambda>es.
         bind_result (tlv_field rest) (\<lambda>(ei_buf, rest).
         bind_result (parse_integer ei_buf) (\<lambda>ei.
         bind_result (tlv_field rest) (\<lambda>(vbs_buf, _).
         bind_result (decode_varbind_list vbs_buf) (\<lambda>vbs.
           Ok \<lparr>ptype = t, request_id = ucast rid, error_status = es, error_index = ei,
               variables = vbs, v1_trap = None\<rparr>)))))))))"

definition decode_register_from_varbind :: "varbind \<Rightarrow> (oid \<times> i64 \<times> i64) option" where
  "decode_register_from_varbind vb =
     (let parts = as_slice (vb_oid vb); n = length parts in
      if n < 3 then None
      else let priority = ucast (parts ! (n - 2)); operation = ucast (parts ! (n - 1)) in
        if operation \<noteq> 1 \<and> operation \<noteq> - 1 then None
        else Some (Oid (take (n - 2) parts), priority, operation))"

definition register_of :: "pdu \<Rightarrow> smux_pdu option" where
  "register_of p =
     (if ptype p = Get \<and> length (variables p) = 1
      then map_option (\<lambda>(subtree, priority, operation). SmuxRegister subtree priority operation)
             (decode_register_from_varbind (hd (variables p)))
      else None)"

fun peek_tags :: "nat \<Rightarrow> u8 list \<Rightarrow> (u8 list, smux_error) result" where
  "peek_tags 0 content = Ok []"
| "peek_tags (Suc n) content =
     (if content = [] then Err SmuxTruncated
      else bind_result (parse_tlv content) (\<lambda>(t, _, consumed).
        bind_result (peek_tags n (drop consumed content)) (\<lambda>ts. Ok (t # ts))))"

definition peek_four_tlv_tags :: "u8 list \<Rightarrow> (u8 list, smux_error) result" where
  "peek_four_tlv_tags content = peek_tags 4 content"

definition try_decode_register :: "u8 \<Rightarrow> u8 list \<Rightarrow> (smux_pdu option, smux_error) result" where
  "try_decode_register tag content =
     bind_result (peek_four_tlv_tags content) (\<lambda>parts.
       if parts ! 1 = 0x06 \<or> parts ! 3 \<noteq> 0x30 then Ok None
       else bind_result (decode_bare_snmp_pdu tag content) (\<lambda>p. Ok (register_of p)))"

definition decode_smux_pdu :: "u8 list \<Rightarrow> (smux_pdu \<times> nat, smux_error) result" where
  "decode_smux_pdu buf =
     bind_result (parse_tlv buf) (\<lambda>(tag, content, total).
       if tag = SMUX_OPEN then
         bind_result (try_decode_register tag content) (\<lambda>reg.
           case reg of
             Some r \<Rightarrow> Ok (r, total)
           | None \<Rightarrow> bind_result (decode_smux_open content) (\<lambda>o1. Ok (SmuxOpen o1, total)))
       else if tag = SMUX_CLOSE then bind_result (decode_code content) (\<lambda>c. Ok (SmuxClose c, total))
       else if tag = SMUX_RRSP then bind_result (decode_code content) (\<lambda>c. Ok (SmuxRRsp c, total))
       else if tag = SMUX_SOUT then bind_result (decode_code content) (\<lambda>c. Ok (SmuxSout c, total))
       else bind_result (decode_bare_snmp_pdu tag content) (\<lambda>p.
         case register_of p of
           Some r \<Rightarrow> Ok (r, total)
         | None \<Rightarrow> Ok (SmuxSnmp \<lparr>msg_version = V1, msg_community = [], msg_pdu = p\<rparr>, total)))"

definition decode_snmp_response :: "u8 list \<Rightarrow> (pdu \<times> nat) option" where
  "decode_snmp_response buf =
     (case parse_tlv buf of
        Err _ \<Rightarrow> None
      | Ok (tag, content, used) \<Rightarrow>
         (case pdu_from_tag tag of
            Ok Response \<Rightarrow> (case decode_bare_snmp_pdu tag content of Ok p \<Rightarrow> Some (p, used) | Err _ \<Rightarrow> None)
          | _ \<Rightarrow> None))"

text \<open>
  The reader takes a whole triple from the stream, or fails when the stream ends before.  The length
  is computed in a \<open>usize\<close> of 64 bits.
\<close>

definition read_one_pdu :: "u8 list \<Rightarrow> (u8 list \<times> u8 list, smux_error) result" where
  "read_one_pdu stream =
     (case stream of
        tag # first # rest \<Rightarrow>
          (let n = if first AND 0x80 = 0 then 0 else unat (first AND 0x7F);
               len = if first AND 0x80 = 0 then unat first
                     else foldl (\<lambda>len b. len * 256 + unat b) 0 (take n rest) mod 2 ^ 64
           in if length rest < n \<or> length rest < n + len then Err SmuxIo
              else Ok (take (2 + n + len) stream, drop (2 + n + len) stream))
      | _ \<Rightarrow> Err SmuxIo)"

section \<open>Reading back\<close>

lemma tlv_field_tlv: "fits c \<Longrightarrow> tlv_field (ber_tlv tag c @ rest) = Ok (c, rest)"
  by (simp add: tlv_field_def parse_ber_tlv)

lemma tlv_field_end: "fits c \<Longrightarrow> tlv_field (ber_tlv tag c) = Ok (c, [])"
  using tlv_field_tlv [of c tag "[]"] by simp

lemma integer_field [simp]: "tlv_field (ber_integer v @ rest) = Ok (integer_bytes v, rest)"
  by (simp add: ber_integer_def tlv_field_tlv)

lemma ber_integer_content_bytes [simp]: "ber_integer_content v = integer_bytes v"
  by (simp add: ber_integer_content_def ber_integer_def parse_ber_tlv_end)

lemma fits_ber_integer [simp]: "fits (ber_integer v)"
  using integer_bytes_length [of v] by (intro fits_short) (simp add: ber_integer_def ber_tlv_def ber_len_def)

lemma le_value_zeros_above: "le_value (rev (drop_zeros_above n bs)) = le_value (rev bs)"
  by (induction n bs rule: drop_zeros_above.induct) (simp_all add: le_value_append)

lemma unsigned_content_value: "le_value (rev (ber_unsigned_content v n)) = unat v"
proof -
  have "le_value (rev (u64_to_be_bytes v)) = unat v"
    by (simp only: to_bytes_defs rev_rev_ident le_value_le_digits unat_mod_width)
  then show ?thesis using le_value_zeros_above [of n "u64_to_be_bytes v"]
    by (auto simp: ber_unsigned_content_def Let_def)
qed

lemma ucast_up_down: "ucast (ucast (w :: u32) :: u64) = w"
  by (rule bit_word_eqI) (simp add: bit_ucast_iff)

lemma parse_unsigned_content [simp]:
  "parse_unsigned_u32 (ber_unsigned_content (ucast w) n) = (w :: u32)"
  "parse_unsigned_u64 (ber_unsigned_content v n) = v"
  by (simp_all add: parse_unsigned_u32_def parse_unsigned_u64_def foldl_bytes unsigned_content_value ucast_up_down)

lemma length_zeros_above: "length (drop_zeros_above n bs) \<le> length bs"
  by (induction n bs rule: drop_zeros_above.induct) auto

lemma fits_unsigned_content [simp]: "fits (ber_unsigned_content v n)"
  using length_zeros_above [of n "u64_to_be_bytes v"] by (intro fits_short) (simp add: ber_unsigned_content_def Let_def)

text \<open>The values that survive: identifiers that the parser reads back, and contents that fit a length.\<close>

fun value_ok :: "value \<Rightarrow> bool" where
  "value_ok (OctetString b) \<longleftrightarrow> fits b"
| "value_ok (Opaque b) \<longleftrightarrow> fits b"
| "value_ok (OidValue o1) \<longleftrightarrow> ber_oid_ok o1 \<and> fits (oid_content o1)"
| "value_ok _ \<longleftrightarrow> True"

lemma decode_encode_value: "value_ok v \<Longrightarrow> decode_snmp_value (encode_value v) = Ok v"
  by (cases v rule: encode_value.cases)
     (simp_all add: decode_snmp_value_def parse_ber_tlv_end decode_value_by_tag_def ber_octet_string_def ber_oid_def
       parse_oid_content fits_short)

definition varbind_ok :: "varbind \<Rightarrow> bool" where
  "varbind_ok vb \<longleftrightarrow> ber_oid_ok (vb_oid vb) \<and> value_ok (vb_value vb) \<and> fits (encode_snmp_varbind vb)"

lemma varbind_parts_fit:
  "fits (encode_snmp_varbind vb) \<Longrightarrow> fits (ber_oid (vb_oid vb) @ encode_value (vb_value vb)) \<and> fits (oid_content (vb_oid vb))"
  unfolding encode_snmp_varbind_def ber_oid_def by (metis fits_append fits_tlv)

lemma decode_encode_varbind:
  assumes "varbind_ok vb"
  shows "decode_snmp_varbind (ber_oid (vb_oid vb) @ encode_value (vb_value vb)) = Ok vb"
proof -
  have "tlv_field (ber_oid (vb_oid vb) @ encode_value (vb_value vb)) =
      Ok (oid_content (vb_oid vb), encode_value (vb_value vb))"
    using assms varbind_parts_fit [of vb] by (simp add: varbind_ok_def ber_oid_def tlv_field_tlv)
  then show ?thesis using assms
    by (simp add: decode_snmp_varbind_def parse_oid_content decode_encode_value varbind_ok_def new_varbind_def)
qed

lemma decode_encode_varbinds:
  "list_all varbind_ok vbs \<Longrightarrow> decode_varbind_list (concat (map encode_snmp_varbind vbs)) = Ok vbs"
proof (induction vbs)
  case (Cons vb vbs)
  let ?c = "ber_oid (vb_oid vb) @ encode_value (vb_value vb)"
  have "fits ?c" using Cons.prems varbind_parts_fit [of vb] by (simp add: varbind_ok_def)
  note tlv = parse_ber_tlv [OF this, of "0x30" "concat (map encode_snmp_varbind vbs)"]
  have e: "encode_snmp_varbind vb = ber_tlv 0x30 ?c" "ber_tlv 0x30 ?c \<noteq> []"
    by (simp_all add: encode_snmp_varbind_def ber_tlv_def)
  show ?case
    using Cons decode_encode_varbind [of vb] e(2)
    by (simp add: decode_varbind_list.simps [of "ber_tlv _ _ @ _"] e(1) tlv)
qed (simp add: decode_varbind_list.simps)

lemma decode_pdu_content:
  assumes "list_all varbind_ok vbs" and "fits (concat (map encode_snmp_varbind vbs))" and "pdu_from_tag tag = Ok t"
  shows "decode_bare_snmp_pdu tag (pdu_content rid es ei vbs) =
    Ok \<lparr>ptype = t, request_id = ucast rid, error_status = es, error_index = ei, variables = vbs, v1_trap = None\<rparr>"
  by (simp add: decode_bare_snmp_pdu_def pdu_content_def assms(3) decode_encode_varbinds [OF assms(1)]
      tlv_field_end [OF assms(2)])

lemma pdu_from_pdu_tag [simp]: "pdu_from_tag (pdu_tag t) = Ok t"
  by (cases t) (simp_all add: pdu_from_tag_def pdu_tag_def)

lemma smux_tags [simp]:
  "pdu_tag Get = SMUX_OPEN" "pdu_tag GetNext = SMUX_RRSP"
  "pdu_tag Response \<noteq> SMUX_OPEN" "pdu_tag Response \<noteq> SMUX_CLOSE" "pdu_tag Response \<noteq> SMUX_RRSP" "pdu_tag Response \<noteq> SMUX_SOUT"
  "SMUX_CLOSE \<noteq> SMUX_OPEN" "SMUX_RRSP \<noteq> SMUX_OPEN" "SMUX_RRSP \<noteq> SMUX_CLOSE"
  "SMUX_SOUT \<noteq> SMUX_OPEN" "SMUX_SOUT \<noteq> SMUX_CLOSE" "SMUX_SOUT \<noteq> SMUX_RRSP"
  by (simp_all add: pdu_tag_def SMUX_OPEN_def SMUX_CLOSE_def SMUX_RRSP_def SMUX_SOUT_def)

lemma ucast_scast_i32 [simp]: "ucast (scast (x :: i32) :: i64) = x"
proof (rule bit_word_eqI)
  fix n :: nat assume "n < LENGTH(32)"
  then show "bit (ucast (scast x :: i64) :: i32) n = bit x n"
    by (cases "n = 31") (auto simp: bit_ucast_iff bit_signed_iff min_def)
qed

lemma decode_code_integer [simp]: "decode_code (ber_integer v @ rest) = Ok v" "decode_code (ber_integer v) = Ok v"
  using integer_field [of v "[]"] by (simp_all add: decode_code_def)

lemma decode_smux_code:
  "decode_smux_pdu (encode_close c) = Ok (SmuxClose c, length (encode_close c))"
  "decode_smux_pdu (encode_rrsp c) = Ok (SmuxRRsp c, length (encode_rrsp c))"
  "decode_smux_pdu (encode_sout c) = Ok (SmuxSout c, length (encode_sout c))"
  by (simp_all add: decode_smux_pdu_def encode_close_def encode_rrsp_def encode_sout_def parse_ber_tlv_end)

lemma peek_tag:
  "fits c \<Longrightarrow> peek_tags (Suc n) (ber_tlv t c @ rest) = bind_result (peek_tags n rest) (\<lambda>ts. Ok (t # ts))"
  using parse_ber_tlv [of c t rest] by (simp add: ber_tlv_def)

lemma peek_tag_end: "fits c \<Longrightarrow> peek_tags (Suc n) (ber_tlv t c) = bind_result (peek_tags n []) (\<lambda>ts. Ok (t # ts))"
  using peek_tag [of c n t "[]"] by simp

lemma peek_four:
  assumes "fits c" "fits d" "fits e" "fits f"
  shows "peek_four_tlv_tags (ber_tlv a c @ ber_tlv b d @ ber_tlv x e @ ber_tlv y f) = Ok [a, b, x, y]"
  unfolding peek_four_tlv_tags_def
  by (simp add: peek_tag peek_tag_end assms numeral_eq_Suc del: peek_tags.simps(2))

lemma valid_ascii: "list_all (\<lambda>b. unat b < 128) bs \<Longrightarrow> valid_utf8 bs"
  by (induction bs) (simp_all add: valid_utf8.simps [of "_ # _"] valid_utf8.simps [of "[]"] utf8_scan_def)

definition open_ok :: "smux_open \<Rightarrow> bool" where
  "open_ok o1 \<longleftrightarrow> ber_oid_ok (so_identity o1) \<and> valid_string (so_description o1) \<and> valid_string (so_password o1) \<and>
     fits (encode_smux_open o1)"

lemma decode_encode_smux_open:
  assumes "open_ok o1"
  shows "decode_smux_pdu (encode_smux_open o1) = Ok (SmuxOpen o1, length (encode_smux_open o1))"
proof -
  let ?i = "oid_content (so_identity o1)" and ?d = "as_bytes (so_description o1)" and ?p = "as_bytes (so_password o1)"
  have all: "fits (open_content o1)" using assms by (auto simp: open_ok_def encode_smux_open_def dest: fits_tlv)
  have content: "open_content o1 =
      ber_tlv 0x02 (integer_bytes (so_version o1)) @ ber_tlv 0x06 ?i @ ber_tlv 0x04 ?d @ ber_tlv 0x04 ?p"
    by (simp add: open_content_def ber_integer_def ber_oid_def ber_octet_string_def)
  have sizes: "fits ?i" "fits ?d" "fits ?p" using all unfolding content by (auto dest!: fits_append fits_tlv)
  have "try_decode_register SMUX_OPEN (open_content o1) = Ok None"
    unfolding content try_decode_register_def by (simp only: peek_four fits_integer_bytes sizes) simp
  moreover have "decode_smux_open (open_content o1) = Ok o1"
    using assms unfolding content decode_smux_open_def
    by (simp add: tlv_field_tlv tlv_field_end sizes parse_oid_content open_ok_def from_utf8_lossy_as_bytes)
  ultimately show ?thesis
    by (simp add: decode_smux_pdu_def encode_smux_open_def parse_ber_tlv_end [OF all])
qed

text \<open>Every packet with the tag of a GetRequest whose body has the shape of a PDU is examined as a registration.\<close>

lemma pdu_content_tlvs:
  "pdu_content rid es ei vbs = ber_tlv 0x02 (integer_bytes rid) @ ber_tlv 0x02 (integer_bytes es) @
     ber_tlv 0x02 (integer_bytes ei) @ ber_tlv 0x30 (concat (map encode_snmp_varbind vbs))"
  by (simp add: pdu_content_def ber_integer_def)

lemma pdu_parts_fit:
  "fits (ber_tlv t (pdu_content rid es ei vbs)) \<Longrightarrow>
   fits (pdu_content rid es ei vbs) \<and> fits (concat (map encode_snmp_varbind vbs))"
  unfolding pdu_content_tlvs by (metis fits_append fits_tlv)

lemma try_decode_get:
  assumes "list_all varbind_ok vbs" and "fits (concat (map encode_snmp_varbind vbs))"
  shows "try_decode_register SMUX_OPEN (pdu_content rid es ei vbs) =
    Ok (register_of \<lparr>ptype = Get, request_id = ucast rid, error_status = es, error_index = ei,
          variables = vbs, v1_trap = None\<rparr>)"
proof -
  have "pdu_from_tag SMUX_OPEN = Ok Get" using pdu_from_pdu_tag [of Get] by simp
  from decode_pdu_content [OF assms this] show ?thesis
    unfolding try_decode_register_def by (simp add: pdu_content_tlvs peek_four assms(2))
qed

lemma null_varbind_ok:
  "ber_oid_ok o1 \<Longrightarrow> fits (encode_snmp_varbind (null_varbind o1)) \<Longrightarrow> varbind_ok (null_varbind o1)"
  by (simp add: varbind_ok_def null_varbind_def)

lemma decode_encode_get:
  assumes "ber_oid_ok o1" and "fits (encode_snmp_request Get rid o1)"
    and "decode_register_from_varbind (null_varbind o1) = Some (sub, prio, op)"
  shows "decode_smux_pdu (encode_snmp_request Get rid o1) =
    Ok (SmuxRegister sub prio op, length (encode_snmp_request Get rid o1))"
proof -
  note p = pdu_parts_fit [OF assms(2) [unfolded encode_snmp_request_def]]
  then have "varbind_ok (null_varbind o1)" using assms(1) by (auto intro: null_varbind_ok)
  then show ?thesis using p assms(3)
    by (simp add: decode_smux_pdu_def encode_snmp_request_def parse_ber_tlv_end try_decode_get register_of_def)
qed

lemma read_one_tlv:
  assumes "fits c"
  shows "read_one_pdu (ber_tlv tag c @ rest) = Ok (ber_tlv tag c, rest)"
proof (cases "length c < 128")
  case True
  then have "unat (word_of_nat (length c) :: u8) = length c" by (simp add: unat_of_nat take_bit_nat_eq_self)
  then show ?thesis using True by (simp add: read_one_pdu_def ber_tlv_def ber_len_def top_bit)
next
  case False
  let ?k = "length (len_digits (length c))"
  have "?k \<le> 4" using len_digits_length assms by (simp add: fits_def)
  note first = long_form_byte [of ?k]
  have val: "foldl (\<lambda>len b. len * 256 + unat b) 0 (rev (len_digits (length c))) mod 2 ^ 64 = length c"
    using assms by (simp add: foldl_len len_digits_value fits_def)
  show ?thesis using False first \<open>?k \<le> 4\<close> val
    by (simp add: read_one_pdu_def ber_tlv_def ber_len_def Let_def)
qed

lemma ucast_down_up: "unat (x :: i64) < 2 ^ 32 \<Longrightarrow> ucast (ucast x :: u32) = x"
  by (simp add: word_unat_eq_iff unsigned_ucast_eq take_bit_small)

lemma register_varbind:
  assumes "as_slice sub \<noteq> []" and "op = 1 \<or> op = - 1"
  shows "decode_register_from_varbind (null_varbind (Oid (as_slice sub @ [p, ucast (op :: i64)]))) =
    (if op = 1 then Some (sub, ucast p, 1) else None)"
proof -
  have n: "\<not> Suc (Suc (length (as_slice sub))) < 3" using assms(1) by (cases "as_slice sub") auto
  let ?m = "ucast (ucast (- 1 :: i64) :: u32) :: i64"
  have "bit ?m 1" "\<not> bit ?m 40" by (simp_all add: bit_ucast_iff)
  moreover have "\<not> bit (1 :: i64) 1" "bit (- 1 :: i64) 40" by (simp_all add: bit_1_iff)
  ultimately have m: "?m \<noteq> 1" "?m \<noteq> - 1" by metis+
  show ?thesis using assms(2) n m
    by (auto simp: decode_register_from_varbind_def null_varbind_def Let_def nth_append)
qed

lemma ber_oid_ok_append: "ber_oid_ok sub \<Longrightarrow> ber_oid_ok (Oid (as_slice sub @ xs)) \<and> as_slice sub \<noteq> []"
  by (auto simp: ber_oid_ok_def split: list.splits)

lemma encode_register_request:
  "encode_register sub p op = encode_snmp_request Get 0 (Oid (as_slice sub @ [ucast p, ucast op]))"
  by (simp add: encode_register_def encode_snmp_request_def)

lemma decode_encode_response:
  assumes "ptype p = Response" and "v1_trap p = None" and "list_all varbind_ok (variables p)" and "fits (encode_snmp_response p)"
  shows "decode_snmp_response (encode_snmp_response p) = Some (p, length (encode_snmp_response p))"
proof -
  note fit = pdu_parts_fit [OF assms(4) [unfolded encode_snmp_response_def]]
  have "decode_bare_snmp_pdu (pdu_tag Response)
      (pdu_content (scast (request_id p)) (error_status p) (error_index p) (variables p)) = Ok p"
    using assms fit decode_pdu_content [OF assms(3) _ pdu_from_pdu_tag [of Response]] by simp
  then show ?thesis using fit
    by (simp add: decode_snmp_response_def encode_snmp_response_def parse_ber_tlv_end)
qed

lemma parse_oid_zero: "parse_oid (integer_bytes 0) = Ok (Oid [0, 0])"
  by code_simp

lemma decode_encode_register:
  assumes "ber_oid_ok sub" and "unat prio < 2 ^ 32" and "fits (encode_register sub prio 1)"
  shows "decode_smux_pdu (encode_register sub prio 1) = Ok (SmuxRegister sub prio 1, length (encode_register sub prio 1))"
  using assms(3) ber_oid_ok_append [OF assms(1)] register_varbind [of sub 1] ucast_down_up [OF assms(2)]
  unfolding encode_register_request by (intro decode_encode_get) auto

definition demo_smux_open :: smux_open where
  "demo_smux_open = \<lparr>so_version = 0, so_identity = Oid [1, 3, 6], so_description = ''d'', so_password = ''pw''\<rparr>"

definition demo_response :: pdu where
  "demo_response = (new_pdu Response 7)\<lparr>variables := [new_varbind (Oid [1, 3, 6, 1]) (OctetString [7])]\<rparr>"

lemma demo_fits:
  "fits (encode_smux_open demo_smux_open)" "fits (encode_register (Oid [1, 3, 6, 1]) 5 1)"
  "fits (encode_snmp_response demo_response)" "fits (encode_snmp_varbind (new_varbind (Oid [1, 3, 6, 1]) (OctetString [7])))"
  subgoal by (rule fits_short) code_simp
  subgoal by (rule fits_short) code_simp
  subgoal by (rule fits_short) code_simp
  subgoal by (rule fits_short) code_simp
  done

lemma demo_packets_ok:
  "open_ok demo_smux_open" "ber_oid_ok (Oid [1, 3, 6, 1])" "ptype demo_response = Response" "v1_trap demo_response = None"
  "list_all varbind_ok (variables demo_response)"
  using demo_fits(1,4)
  by (simp_all add: open_ok_def demo_smux_open_def ber_oid_ok_def valid_string_def valid_ascii as_bytes_def byte_of_char_def
      demo_response_def varbind_ok_def new_varbind_def new_pdu_def fits_short)

section \<open>Properties\<close>

text \<open>C20: Openings, registrations, closings and responses survive the wire: the reader cuts the encoding off
  the stream and the decoder gives the packet back, when its identifiers start with two
  sub-identifiers that fit one byte and its parts fit four length bytes.\<close>

theorem smux_pdu_roundtrip:
  assumes "open_ok o1" and "ber_oid_ok sub" and "unat prio < 2 ^ 32" and "fits (encode_register sub prio 1)"
    and "ptype p = Response" and "v1_trap p = None" and "list_all varbind_ok (variables p)" and "fits (encode_snmp_response p)"
  shows "read_one_pdu (encode_smux_open o1 @ rest) = Ok (encode_smux_open o1, rest) \<and>
    decode_smux_pdu (encode_smux_open o1) = Ok (SmuxOpen o1, length (encode_smux_open o1)) \<and>
    read_one_pdu (encode_register sub prio 1 @ rest) = Ok (encode_register sub prio 1, rest) \<and>
    decode_smux_pdu (encode_register sub prio 1) = Ok (SmuxRegister sub prio 1, length (encode_register sub prio 1)) \<and>
    read_one_pdu (encode_snmp_response p @ rest) = Ok (encode_snmp_response p, rest) \<and>
    decode_snmp_response (encode_snmp_response p) = Some (p, length (encode_snmp_response p)) \<and>
    read_one_pdu (encode_close c @ rest) = Ok (encode_close c, rest) \<and>
    decode_smux_pdu (encode_close c) = Ok (SmuxClose c, length (encode_close c))"
proof (intro conjI)
  have "fits (open_content o1)" using assms(1) by (auto simp: open_ok_def encode_smux_open_def dest: fits_tlv)
  then show "read_one_pdu (encode_smux_open o1 @ rest) = Ok (encode_smux_open o1, rest)" by (simp add: encode_smux_open_def read_one_tlv)
  show "read_one_pdu (encode_register sub prio 1 @ rest) = Ok (encode_register sub prio 1, rest)"
    using assms(4) by (auto simp: encode_register_def dest: fits_tlv intro: read_one_tlv)
  show "read_one_pdu (encode_snmp_response p @ rest) = Ok (encode_snmp_response p, rest)"
    using assms(8) by (auto simp: encode_snmp_response_def dest: fits_tlv intro: read_one_tlv)
  show "read_one_pdu (encode_close c @ rest) = Ok (encode_close c, rest)" by (simp add: encode_close_def read_one_tlv)
qed (use assms in \<open>simp_all add: decode_encode_smux_open decode_encode_register decode_encode_response decode_smux_code\<close>)

theorem smux_pdu_roundtrip_witness:
  "decode_smux_pdu (encode_smux_open demo_smux_open) = Ok (SmuxOpen demo_smux_open, length (encode_smux_open demo_smux_open)) \<and>
   decode_smux_pdu (encode_register (Oid [1, 3, 6, 1]) 5 1) =
     Ok (SmuxRegister (Oid [1, 3, 6, 1]) 5 1, length (encode_register (Oid [1, 3, 6, 1]) 5 1)) \<and>
   decode_snmp_response (encode_snmp_response demo_response) = Some (demo_response, length (encode_snmp_response demo_response))"
  using smux_pdu_roundtrip [OF demo_packets_ok(1,2) _ demo_fits(2) demo_packets_ok(3-5) demo_fits(3)] by simp

text \<open>The tags of SMUX are those of SNMP: a forwarded GETNEXT reads as the answer to a registration with the
  request id as its code, a GET of an identifier that ends in 1 reads as a registration, and a
  request to unregister reads as an opening, so no peer can take a registration back.\<close>

lemma smux_packets_confused:
  assumes "ber_oid_ok sub" and "fits (encode_snmp_request GetNext rid sub)"
    and "fits (encode_snmp_request Get rid (Oid (as_slice sub @ [p, 1])))" and "fits (encode_register sub prio (- 1))"
  shows "decode_smux_pdu (encode_snmp_request GetNext rid sub) =
      Ok (SmuxRRsp (scast rid), length (encode_snmp_request GetNext rid sub)) \<and>
    decode_smux_pdu (encode_snmp_request Get rid (Oid (as_slice sub @ [p, 1]))) =
      Ok (SmuxRegister sub (ucast p) 1, length (encode_snmp_request Get rid (Oid (as_slice sub @ [p, 1])))) \<and>
    (\<exists>o1. decode_smux_pdu (encode_register sub prio (- 1)) = Ok (SmuxOpen o1, length (encode_register sub prio (- 1))))"
proof (intro conjI)
  have "fits (pdu_content (scast rid) 0 0 [null_varbind sub])"
    using assms(2) by (auto simp: encode_snmp_request_def dest: fits_tlv)
  then show "decode_smux_pdu (encode_snmp_request GetNext rid sub) =
      Ok (SmuxRRsp (scast rid), length (encode_snmp_request GetNext rid sub))"
    by (simp add: decode_smux_pdu_def encode_snmp_request_def parse_ber_tlv_end) (simp add: pdu_content_def)
  show "decode_smux_pdu (encode_snmp_request Get rid (Oid (as_slice sub @ [p, 1]))) =
      Ok (SmuxRegister sub (ucast p) 1, length (encode_snmp_request Get rid (Oid (as_slice sub @ [p, 1]))))"
    using assms(3) ber_oid_ok_append [OF assms(1)] register_varbind [of sub 1] by (intro decode_encode_get) auto
  let ?vbs = "[null_varbind (Oid (as_slice sub @ [ucast prio, ucast (- 1 :: i64)]))]"
  note fit = pdu_parts_fit [OF assms(4) [unfolded encode_register_def]]
  have "varbind_ok (hd ?vbs)" using fit ber_oid_ok_append [OF assms(1)] by (auto intro: null_varbind_ok)
  then have "try_decode_register SMUX_OPEN (pdu_content 0 0 0 ?vbs) = Ok None"
    using fit register_varbind [of sub "- 1"] ber_oid_ok_append [OF assms(1)] by (simp add: try_decode_get register_of_def)
  moreover have "\<exists>o1. decode_smux_open (pdu_content 0 0 0 ?vbs) = Ok o1"
    using fit by (simp add: decode_smux_open_def pdu_content_def parse_oid_zero tlv_field_end)
  ultimately show "\<exists>o1. decode_smux_pdu (encode_register sub prio (- 1)) = Ok (SmuxOpen o1, length (encode_register sub prio (- 1)))"
    using fit by (auto simp: decode_smux_pdu_def encode_register_def parse_ber_tlv_end)
qed

end
