(* ===== verification/Smux_Server.thy ===== *)
theory Smux_Server
  imports Smux_Pdu Disman_Tables Snmp_Vacm Step_Systems
begin

text \<open>
  The SMUX server (\<^verbatim>\<open>crates/netsnmp-agent/src/smux.rs\<close>, \<^verbatim>\<open>mibgroup/smux_mib.rs\<close>): configuration, the
  peers and their registered subtrees, the two tasks of a connection (the reader that sorts packets
  and the loop that serves them), forwarding, and the SMUX-MIB.  The tasks of all connections
  interleave in \<open>smux_step\<close>; what a forwarder finds in the response slot is an argument.
\<close>

section \<open>Configuration\<close>

record smux_peer_entry =
  pe_password :: string
  pe_subtree :: oid

record smux_server_config =
  cf_listen_addr :: string
  cf_peers :: "smux_peer_entry list"

definition apply_smux_directive :: "smux_server_config \<Rightarrow> directive \<Rightarrow> smux_server_config" where
  "apply_smux_directive cfg d =
     (if d_is d ''smuxsocket'' then
        (case d_arg d 0 of Some addr \<Rightarrow> cfg\<lparr>cf_listen_addr := addr\<rparr> | None \<Rightarrow> cfg)
      else if d_is d ''smuxpeer'' then
        (case (d_arg d 0, d_arg d 1) of
           (Some pw, Some o1) \<Rightarrow>
             (case oid_from_str o1 of
                Ok subtree \<Rightarrow> cfg\<lparr>cf_peers := cf_peers cfg @ [\<lparr>pe_password = pw, pe_subtree = subtree\<rparr>]\<rparr>
              | Err _ \<Rightarrow> cfg)
         | _ \<Rightarrow> cfg)
      else cfg)"

definition smux_from_directives :: "directive list \<Rightarrow> smux_server_config" where
  "smux_from_directives ds =
     foldl apply_smux_directive \<lparr>cf_listen_addr = ''0.0.0.0:199'', cf_peers = []\<rparr> ds"

section \<open>The server\<close>

record smux_peer =
  sp_identity :: oid
  sp_description :: string

record smux_server =
  sv_peers :: "(u32, smux_peer) hash_map"
  sv_subtrees :: "(oid \<times> u32) list"
  sv_next_peer_id :: u32
  sv_config :: smux_server_config

definition smux_server_new :: "smux_server_config \<Rightarrow> smux_server" where
  "smux_server_new cfg = \<lparr>sv_peers = [], sv_subtrees = [], sv_next_peer_id = 1, sv_config = cfg\<rparr>"

definition authorize :: "smux_server_config \<Rightarrow> string \<Rightarrow> oid \<Rightarrow> bool" where
  "authorize cfg password subtree \<longleftrightarrow>
     cf_peers cfg = [] \<or> list_ex (\<lambda>p. pe_password p = password \<and> is_prefix_of (pe_subtree p) subtree) (cf_peers cfg)"

fun best_subtree :: "oid \<Rightarrow> (oid \<times> u32) option \<Rightarrow> (oid \<times> u32) list \<Rightarrow> (oid \<times> u32) option" where
  "best_subtree o1 best [] = best"
| "best_subtree o1 best ((sub, i) # rest) =
     best_subtree o1
       (if is_prefix_of sub o1 \<and> (case best of None \<Rightarrow> True | Some (b, _) \<Rightarrow> oid_len b < oid_len sub)
        then Some (sub, i) else best) rest"

definition owner_of :: "smux_server \<Rightarrow> oid \<Rightarrow> smux_peer option" where
  "owner_of s o1 = (case best_subtree o1 None (sv_subtrees s) of None \<Rightarrow> None | Some (_, i) \<Rightarrow> hm_get (sv_peers s) i)"

section \<open>Connections\<close>

text \<open>
  A connection is the state of its two tasks: the queue of packets between them, whether the reader
  still reads, whether the loop still runs or was ended by a failed write, and the response slot.
\<close>

record smux_conn =
  cn_peer_id :: u32
  cn_password :: string
  cn_subtrees :: "oid list"
  cn_queue :: "smux_pdu list"
  cn_slot :: "u8 list option"
  cn_reading :: bool
  cn_running :: bool
  cn_failed :: bool

record smux_system =
  sy_server :: smux_server
  sy_conns :: "nat \<Rightarrow> smux_conn option"

definition smux_start :: "smux_server_config \<Rightarrow> smux_system" where
  "smux_start cfg = \<lparr>sy_server = smux_server_new cfg, sy_conns = Map.empty\<rparr>"

definition smux_accept :: "nat \<Rightarrow> smux_open \<Rightarrow> smux_system \<Rightarrow> smux_system" where
  "smux_accept c o1 y =
     (let s = sy_server y; i = sv_next_peer_id s in
      y\<lparr>sy_server := s\<lparr>sv_next_peer_id := i + 1,
          sv_peers := hm_insert i \<lparr>sp_identity = so_identity o1, sp_description = so_description o1\<rparr> (sv_peers s)\<rparr>,
        sy_conns := (sy_conns y)(c \<mapsto> \<lparr>cn_peer_id = i, cn_password = so_password o1, cn_subtrees = [], cn_queue = [],
          cn_slot = None, cn_reading = True, cn_running = True, cn_failed = False\<rparr>)\<rparr>)"

definition smux_connect :: "nat \<Rightarrow> u8 list \<Rightarrow> smux_system \<Rightarrow> smux_system" where
  "smux_connect c open_bytes y =
     (case decode_smux_pdu open_bytes of
        Ok (SmuxOpen o1, _) \<Rightarrow> smux_accept c o1 y
      | _ \<Rightarrow> y)"

fun is_response :: "smux_pdu \<Rightarrow> bool" where
  "is_response (SmuxSnmp m) \<longleftrightarrow> ptype (msg_pdu m) = Response"
| "is_response _ \<longleftrightarrow> False"

definition smux_receive :: "u8 list \<Rightarrow> smux_conn \<Rightarrow> smux_conn" where
  "smux_receive buf k =
     (case decode_smux_pdu buf of
        Err _ \<Rightarrow> k\<lparr>cn_reading := False\<rparr>
      | Ok (p, _) \<Rightarrow>
          if is_response p then k\<lparr>cn_slot := Some buf\<rparr>
          else if cn_running k then k\<lparr>cn_queue := cn_queue k @ [p]\<rparr>
          else k\<lparr>cn_reading := False\<rparr>)"

definition smux_teardown :: "u32 \<Rightarrow> smux_server \<Rightarrow> smux_server" where
  "smux_teardown i s =
     s\<lparr>sv_peers := hm_remove i (sv_peers s), sv_subtrees := filter (\<lambda>(_, j). j \<noteq> i) (sv_subtrees s)\<rparr>"

text \<open>One round of the loop: the new state, and the bytes written to the peer if there are any.\<close>

definition smux_end :: "nat \<Rightarrow> smux_conn \<Rightarrow> smux_system \<Rightarrow> smux_system" where
  "smux_end c k y =
     y\<lparr>sy_server := smux_teardown (cn_peer_id k) (sy_server y), sy_conns := (sy_conns y)(c \<mapsto> k\<lparr>cn_running := False\<rparr>)\<rparr>"

definition smux_register :: "nat \<Rightarrow> smux_conn \<Rightarrow> bool \<Rightarrow> oid \<Rightarrow> i64 \<Rightarrow> smux_system \<Rightarrow> smux_system \<times> u8 list" where
  "smux_register c k write_ok subtree operation y =
     (let s = sy_server y;
          accepted = (operation = 1 \<and> authorize (sv_config s) (cn_password k) subtree);
          s = (if accepted then s\<lparr>sv_subtrees := sv_subtrees s @ [(subtree, cn_peer_id k)]\<rparr> else s);
          k = (if accepted then k\<lparr>cn_subtrees := cn_subtrees k @ [subtree]\<rparr> else k);
          k = (if write_ok then k else k\<lparr>cn_running := False, cn_failed := True\<rparr>)
      in (y\<lparr>sy_server := s, sy_conns := (sy_conns y)(c \<mapsto> k)\<rparr>,
          encode_rrsp (rrsp_value (if accepted then RReadOnly else RReject))))"

definition smux_serve :: "nat \<Rightarrow> smux_conn \<Rightarrow> bool \<Rightarrow> smux_pdu \<Rightarrow> smux_system \<Rightarrow> smux_system \<times> u8 list option" where
  "smux_serve c k write_ok p y =
     (case p of
        SmuxRegister subtree _ operation \<Rightarrow>
          (case smux_register c k write_ok subtree operation y of (y', out) \<Rightarrow> (y', Some out))
      | SmuxClose _ \<Rightarrow> (smux_end c k y, None)
      | _ \<Rightarrow> (y\<lparr>sy_conns := (sy_conns y)(c \<mapsto> k)\<rparr>, None))"

inductive smux_step :: "smux_system \<Rightarrow> smux_system \<Rightarrow> bool" where
  connect: "sy_conns y c = None \<Longrightarrow> smux_step y (smux_connect c bytes y)"
| receive: "sy_conns y c = Some k \<Longrightarrow> cn_reading k \<Longrightarrow> k' = smux_receive buf k \<Longrightarrow> length (cn_queue k') \<le> 16 \<Longrightarrow>
    smux_step y (y\<lparr>sy_conns := (sy_conns y)(c \<mapsto> k')\<rparr>)"
| hangup: "sy_conns y c = Some k \<Longrightarrow> smux_step y (y\<lparr>sy_conns := (sy_conns y)(c \<mapsto> k\<lparr>cn_reading := False\<rparr>)\<rparr>)"
| serve: "sy_conns y c = Some k \<Longrightarrow> cn_running k \<Longrightarrow> cn_queue k = p # ps \<Longrightarrow>
    smux_step y (fst (smux_serve c (k\<lparr>cn_queue := ps\<rparr>) write_ok p y))"
| finish: "sy_conns y c = Some k \<Longrightarrow> cn_running k \<Longrightarrow> cn_queue k = [] \<Longrightarrow> \<not> cn_reading k \<Longrightarrow>
    smux_step y (smux_end c k y)"
| slot: "sy_conns y c = Some k \<Longrightarrow> smux_step y (y\<lparr>sy_conns := (sy_conns y)(c \<mapsto> k\<lparr>cn_slot := None\<rparr>)\<rparr>)"

section \<open>Forwarding\<close>

text \<open>
  A request is answered by whatever the response slot holds when the forwarder looks, or by nothing
  when the write fails or five seconds pass.
\<close>

definition first_varbind :: "u8 list option \<Rightarrow> varbind option" where
  "first_varbind resp =
     (case resp of
        None \<Rightarrow> None
      | Some buf \<Rightarrow>
         (case decode_snmp_response buf of
            None \<Rightarrow> None
          | Some (p, _) \<Rightarrow> (case variables p of [] \<Rightarrow> None | vb # _ \<Rightarrow> Some vb)))"

definition smux_forward_get :: "smux_server \<Rightarrow> oid \<Rightarrow> u8 list option \<Rightarrow> value option" where
  "smux_forward_get s o1 resp =
     (case owner_of s o1 of
        None \<Rightarrow> None
      | Some _ \<Rightarrow>
         (case first_varbind resp of
            None \<Rightarrow> None
          | Some vb \<Rightarrow> if vb_value vb \<in> {NoSuchObject, NoSuchInstance, EndOfMibView} then None else Some (vb_value vb)))"

definition smux_forward_get_next :: "smux_server \<Rightarrow> oid \<Rightarrow> u8 list option \<Rightarrow> reading option" where
  "smux_forward_get_next s o1 resp =
     (case owner_of s o1 of
        None \<Rightarrow> None
      | Some _ \<Rightarrow>
         (case first_varbind resp of
            None \<Rightarrow> None
          | Some vb \<Rightarrow> if vb_value vb \<in> {NoSuchObject, NoSuchInstance, EndOfMibView} then None
                       else Some (vb_oid vb, vb_value vb)))"

record smux_world =
  sw_server :: smux_server
  sw_answer :: "pdu_type \<Rightarrow> oid \<Rightarrow> u8 list option"

definition smux_subtree_mib :: "oid \<Rightarrow> smux_world mib_handler" where
  "smux_subtree_mib root =
     \<lparr>h_root = root,
      h_get = (\<lambda>o1. State (\<lambda>w. (smux_forward_get (sw_server w) o1 (sw_answer w Get o1), w))),
      h_get_next = (\<lambda>o1. State (\<lambda>w. (smux_forward_get_next (sw_server w) o1 (sw_answer w GetNext o1), w))),
      h_set = (\<lambda>o1 v. State_Monad.return (Err NotWritable)), h_prepare_set = default_prepare_set,
      h_commit_set = default_commit_set (\<lambda>o1 v. State_Monad.return (Err NotWritable)), h_undo_set = default_undo_set\<rparr>"

definition smux_handler :: "smux_server \<Rightarrow> smux_world mib_handler list" where
  "smux_handler s = map (\<lambda>(sub, _). smux_subtree_mib sub) (sv_subtrees s)"

section \<open>The SMUX-MIB\<close>

definition SMUX_MIB :: oid where "SMUX_MIB = Oid [1, 3, 6, 1, 2, 1, 20]"

definition smux_tree_row :: "(u32, smux_peer) hash_map \<Rightarrow> nat \<Rightarrow> oid \<times> u32 \<Rightarrow> cell_list" where
  "smux_tree_row peers i r =
     (let entry = child (child (child SMUX_MIB 3) 1) 1; idx = word_of_nat (i + 1);
          identity = (case hm_get peers (snd r) of Some p \<Rightarrow> sp_identity p | None \<Rightarrow> null_oid)
      in [(child (child entry 1) idx, OidValue (fst r)), (child (child entry 2) idx, OidValue identity),
          (child (child entry 5) idx, Integer 1)])"

definition smux_mib_cells :: "smux_server \<Rightarrow> cell_list" where
  "smux_mib_cells s =
     (child (child SMUX_MIB 1) 0, Integer (word_of_nat (length (sv_peers s)))) #
     concat (map (\<lambda>(i, r). smux_tree_row (sv_peers s) i r) (List.enumerate 0 (sv_subtrees s)))"

section \<open>Owners\<close>

lemma best_subtree_cases:
  "best_subtree o1 best rs = best \<or> (\<exists>r \<in> set rs. best_subtree o1 best rs = Some r \<and> is_prefix_of (fst r) o1)"
  by (induction o1 best rs rule: best_subtree.induct) (auto split: if_splits)

lemma best_subtree_longest:
  "best_subtree o1 best rs = Some r \<Longrightarrow>
   (\<forall>b. best = Some b \<longrightarrow> oid_len (fst b) \<le> oid_len (fst r)) \<and>
   (\<forall>q \<in> set rs. is_prefix_of (fst q) o1 \<longrightarrow> oid_len (fst q) \<le> oid_len (fst r))"
  by (induction o1 best rs rule: best_subtree.induct) (fastforce split: if_splits option.splits)+

section \<open>The invariant\<close>

text \<open>A registration is backed by a connection that was allowed to make it and has not closed.\<close>

definition backed :: "(nat \<Rightarrow> smux_conn option) \<Rightarrow> smux_server_config \<Rightarrow> oid \<times> u32 \<Rightarrow> bool" where
  "backed conns cfg r \<longleftrightarrow> (\<exists>c k. conns c = Some k \<and> cn_peer_id k = snd r \<and> authorize cfg (cn_password k) (fst r) \<and>
     (cn_running k \<or> cn_failed k))"

definition smux_inv :: "smux_system \<Rightarrow> bool" where
  "smux_inv y \<longleftrightarrow> (\<forall>r \<in> set (sv_subtrees (sy_server y)). backed (sy_conns y) (sv_config (sy_server y)) r)"

definition same_peer :: "smux_conn \<Rightarrow> smux_conn \<Rightarrow> bool" where
  "same_peer k k' \<longleftrightarrow> cn_peer_id k' = cn_peer_id k \<and> cn_password k' = cn_password k \<and>
     (cn_running k \<or> cn_failed k \<longrightarrow> cn_running k' \<or> cn_failed k')"

lemma backed_upd:
  assumes "backed conns cfg r" and "\<And>k. conns c = Some k \<Longrightarrow> same_peer k k' \<or> cn_peer_id k \<noteq> snd r"
  shows "backed (conns(c \<mapsto> k')) cfg r"
proof -
  obtain d l where d: "conns d = Some l" "cn_peer_id l = snd r" "authorize cfg (cn_password l) (fst r)" "cn_running l \<or> cn_failed l"
    using assms(1) by (auto simp: backed_def)
  show ?thesis unfolding backed_def
    using d assms(2) [of l] by (intro exI [of _ d] exI [of _ "if d = c then k' else l"]) (auto simp: same_peer_def)
qed

lemma backed_self: "cn_peer_id k = snd r \<Longrightarrow> authorize cfg (cn_password k) (fst r) \<Longrightarrow> cn_running k \<or> cn_failed k \<Longrightarrow>
    backed (conns(c \<mapsto> k)) cfg r"
  unfolding backed_def by (intro exI [of _ c] exI [of _ k]) simp

lemma smux_inv_conn:
  "smux_inv y \<Longrightarrow> sy_conns y c = Some k \<Longrightarrow> same_peer k k' \<Longrightarrow> smux_inv (y\<lparr>sy_conns := (sy_conns y)(c \<mapsto> k')\<rparr>)"
  unfolding smux_inv_def by (auto intro: backed_upd)

lemma smux_inv_end:
  "smux_inv y \<Longrightarrow> sy_conns y c = Some k \<Longrightarrow> cn_peer_id k' = cn_peer_id k \<Longrightarrow> smux_inv (smux_end c k' y)"
  unfolding smux_inv_def smux_end_def smux_teardown_def by (auto intro!: backed_upd)

lemma smux_inv_register:
  assumes "smux_inv y" and "sy_conns y c = Some k" and "same_peer k k'" and "cn_running k'"
  shows "smux_inv (fst (smux_register c k' write_ok sub op y))"
  using assms unfolding smux_inv_def smux_register_def Let_def
  by (auto intro: backed_upd backed_self simp: same_peer_def)

lemma receive_same_peer: "same_peer k (smux_receive buf k)"
  by (auto simp: same_peer_def smux_receive_def split: result.split)

lemma accept_inv: "smux_inv y \<Longrightarrow> sy_conns y c = None \<Longrightarrow> smux_inv (smux_accept c o1 y)"
  unfolding smux_inv_def smux_accept_def Let_def by (auto intro: backed_upd)

lemma smux_step_inv: "smux_step y z \<Longrightarrow> smux_inv y \<Longrightarrow> smux_inv z"
proof (induction rule: smux_step.induct)
  case (connect y c bytes)
  then show ?case by (auto simp: smux_connect_def accept_inv split: result.split smux_pdu.split prod.split)
next
  case (serve y c k p ps write_ok)
  let ?k = "k\<lparr>cn_queue := ps\<rparr>"
  have same: "same_peer k ?k" "cn_running ?k" using serve by (simp_all add: same_peer_def)
  show ?case using smux_inv_conn [OF serve.prems serve.hyps(1) same(1)] smux_inv_end [OF serve.prems serve.hyps(1), of ?k]
    smux_inv_register [OF serve.prems serve.hyps(1) same]
    by (cases p) (simp_all add: smux_serve_def case_prod_beta)
qed (auto intro!: smux_inv_conn smux_inv_end receive_same_peer simp: same_peer_def)

interpretation smux: step_invariant "\<lambda>y. \<exists>cfg. y = smux_start cfg" smux_step smux_inv
proof
  show "\<exists>cfg. y = smux_start cfg \<Longrightarrow> smux_inv y" for y
    by (auto simp: smux_start_def smux_server_new_def smux_inv_def)
qed (rule smux_step_inv)

lemma config_kept: "smux_step y z \<Longrightarrow> sv_config (sy_server z) = sv_config (sy_server y)"
  by (induction rule: smux_step.induct)
     (auto simp: smux_connect_def smux_accept_def smux_serve_def smux_register_def smux_end_def smux_teardown_def Let_def
       split: result.split smux_pdu.split prod.split)

lemma config_reachable: "smux_step\<^sup>*\<^sup>* (smux_start cfg) y \<Longrightarrow> sv_config (sy_server y) = cfg"
  by (induction rule: rtranclp_induct) (simp_all add: smux_start_def smux_server_new_def config_kept)

section \<open>Properties\<close>

text \<open>C21: Whatever the peers of a SMUX server send, and however their tasks interleave, the peer that answers
  for an OID registered a subtree above it, no other registered subtree above the OID is longer, and the
  registration was made by a connection that presented a password configured for a subtree above the
  OID (any password when none is configured) and that is still running or died when a write to it failed.\<close>

theorem smux_owner_authorized:
  assumes "smux_step\<^sup>*\<^sup>* (smux_start cfg) y" and "owner_of (sy_server y) o1 = Some peer"
  shows "\<exists>sub i c k. (sub, i) \<in> set (sv_subtrees (sy_server y)) \<and> is_prefix_of sub o1 \<and>
      hm_get (sv_peers (sy_server y)) i = Some peer \<and>
      (\<forall>(sub', j) \<in> set (sv_subtrees (sy_server y)). is_prefix_of sub' o1 \<longrightarrow> oid_len sub' \<le> oid_len sub) \<and>
      sy_conns y c = Some k \<and> cn_peer_id k = i \<and> (cn_running k \<or> cn_failed k) \<and>
      (cf_peers cfg = [] \<or> (\<exists>e \<in> set (cf_peers cfg). pe_password e = cn_password k \<and> is_prefix_of (pe_subtree e) o1))"
proof -
  obtain sub i where best: "best_subtree o1 None (sv_subtrees (sy_server y)) = Some (sub, i)"
      and peer: "hm_get (sv_peers (sy_server y)) i = Some peer"
    using assms(2) by (auto simp: owner_of_def split: option.splits)
  have r: "(sub, i) \<in> set (sv_subtrees (sy_server y))" "is_prefix_of sub o1"
    using best_subtree_cases [of o1 None "sv_subtrees (sy_server y)"] best by auto
  have "smux_inv y" using smux.inv_reachable assms(1) by blast
  then obtain c k where k: "sy_conns y c = Some k" "cn_peer_id k = i" "authorize cfg (cn_password k) sub" "cn_running k \<or> cn_failed k"
    using r(1) config_reachable [OF assms(1)] by (fastforce simp: smux_inv_def backed_def)
  have "cf_peers cfg = [] \<or> (\<exists>e \<in> set (cf_peers cfg). pe_password e = cn_password k \<and> is_prefix_of (pe_subtree e) o1)"
    using k(3) is_prefix_of_trans [OF _ r(2)] by (auto simp: authorize_def list_ex_iff)
  moreover have "\<forall>(sub', j) \<in> set (sv_subtrees (sy_server y)). is_prefix_of sub' o1 \<longrightarrow> oid_len sub' \<le> oid_len sub"
    using best_subtree_longest [OF best] by auto
  ultimately show ?thesis using r peer k(1,2,4) by blast
qed

text \<open>A server with one configured peer that opens a connection and registers a subtree.\<close>

definition demo_smux_config :: smux_server_config where
  "demo_smux_config = \<lparr>cf_listen_addr = [], cf_peers = [\<lparr>pe_password = ''pw'', pe_subtree = Oid [1, 3]\<rparr>]\<rparr>"

definition demo_conn :: smux_conn where
  "demo_conn = \<lparr>cn_peer_id = 1, cn_password = ''pw'', cn_subtrees = [], cn_queue = [], cn_slot = None,
     cn_reading = True, cn_running = True, cn_failed = False\<rparr>"

definition demo_smux :: smux_system where
  "demo_smux =
     \<lparr>sy_server = \<lparr>sv_peers = [(1, \<lparr>sp_identity = Oid [1, 3, 6], sp_description = ''d''\<rparr>)],
        sv_subtrees = [(Oid [1, 3, 6, 1], 1)], sv_next_peer_id = 2, sv_config = demo_smux_config\<rparr>,
      sy_conns = [0 \<mapsto> demo_conn\<lparr>cn_subtrees := [Oid [1, 3, 6, 1]]\<rparr>]\<rparr>"

lemma demo_smux_reachable: "smux_step\<^sup>*\<^sup>* (smux_start demo_smux_config) demo_smux"
proof -
  let ?reg = "SmuxRegister (Oid [1, 3, 6, 1]) 5 1"
  define y :: smux_system where "y =
     \<lparr>sy_server = \<lparr>sv_peers = [(1, \<lparr>sp_identity = Oid [1, 3, 6], sp_description = ''d''\<rparr>)],
        sv_subtrees = [], sv_next_peer_id = 2, sv_config = demo_smux_config\<rparr>, sy_conns = [0 \<mapsto> demo_conn]\<rparr>"
  define k where "k = demo_conn\<lparr>cn_queue := [?reg]\<rparr>"
  define z where "z = y\<lparr>sy_conns := (sy_conns y)(0 \<mapsto> k)\<rparr>"
  have "smux_connect 0 (encode_smux_open demo_smux_open) (smux_start demo_smux_config) = y"
    unfolding smux_connect_def decode_encode_smux_open [OF demo_packets_ok(1)]
    by (simp add: smux_accept_def smux_start_def smux_server_new_def Let_def demo_smux_open_def demo_conn_def y_def)
  moreover have "sy_conns (smux_start demo_smux_config) 0 = None" by (simp add: smux_start_def)
  ultimately have "smux_step (smux_start demo_smux_config) y" using smux_step.connect by metis
  moreover have "smux_step y z" unfolding z_def
  proof (rule smux_step.receive)
    show "k = smux_receive (encode_register (Oid [1, 3, 6, 1]) 5 1) demo_conn"
      by (simp add: k_def smux_receive_def decode_encode_register demo_packets_ok demo_fits demo_conn_def)
  qed (simp_all add: y_def k_def demo_conn_def)
  moreover have "smux_step z (fst (smux_serve 0 (k\<lparr>cn_queue := []\<rparr>) True ?reg z))"
    by (rule smux_step.serve) (simp_all add: z_def k_def demo_conn_def)
  moreover have "fst (smux_serve 0 (k\<lparr>cn_queue := []\<rparr>) True ?reg z) = demo_smux"
    by (simp add: smux_serve_def smux_register_def Let_def authorize_def demo_smux_config_def demo_smux_def
        is_prefix_of_def demo_conn_def z_def y_def k_def)
  ultimately show ?thesis by (metis converse_rtranclp_into_rtranclp rtranclp.rtrancl_refl)
qed

lemma demo_smux_owner: "owner_of (sy_server demo_smux) (Oid [1, 3, 6, 1, 9]) = Some \<lparr>sp_identity = Oid [1, 3, 6], sp_description = ''d''\<rparr>"
  by (simp add: owner_of_def demo_smux_def is_prefix_of_def)

theorem smux_owner_authorized_witness:
  "smux_step\<^sup>*\<^sup>* (smux_start demo_smux_config) demo_smux \<and> owner_of (sy_server demo_smux) (Oid [1, 3, 6, 1, 9]) \<noteq> None \<and>
   (\<exists>c k. sy_conns demo_smux c = Some k \<and> (cn_running k \<or> cn_failed k) \<and> cf_peers demo_smux_config \<noteq> [])"
  using smux_owner_authorized [OF demo_smux_reachable demo_smux_owner] demo_smux_reachable demo_smux_owner
  by (auto simp: demo_smux_config_def)

text \<open>The answer to a forwarded GET is not compared with the request: whatever response lies in the slot, with any
  request id, error status and variable names, its first value is returned.\<close>

lemma smux_answer_unchecked:
  assumes "owner_of s o1 \<noteq> None" and "ptype p = Response" and "v1_trap p = None" and "list_all varbind_ok (variables p)"
    and "fits (encode_snmp_response p)" and "variables p = new_varbind o2 v # vbs"
    and "v \<notin> {NoSuchObject, NoSuchInstance, EndOfMibView}"
  shows "smux_forward_get s o1 (Some (encode_snmp_response p)) = Some v \<and>
    smux_forward_get_next s o1 (Some (encode_snmp_response p)) = Some (o2, v)"
  using assms(1,6,7) decode_encode_response [OF assms(2-5)]
  by (auto simp: smux_forward_get_def smux_forward_get_next_def first_varbind_def new_varbind_def)

end
