(* ===== verification/Smi_Lex.thy ===== *)
theory Smi_Lex
  imports Rust_Text Snmp_Prelude
begin

text \<open>
  The tokenizer of MIB modules (\<^verbatim>\<open>crates/netsnmp/src/smi/lex.rs\<close>).  The index into the text is the
  suffix that is left.  The property is the round trip: the printed form of any sequence of tokens
  is read back.
\<close>

section \<open>Tokens\<close>

datatype tok =
    Ident string
  | NumLit i64
  | StrLit string
  | LBrace | RBrace | LParen | RParen | Comma | Semi | Pipe | Assign | DotDot

definition ident_start :: "char \<Rightarrow> bool" where
  "ident_start c \<longleftrightarrow> (let n = of_char c :: nat in 65 \<le> n \<and> n \<le> 90 \<or> 97 \<le> n \<and> n \<le> 122 \<or> n = 95)"

definition ident_part :: "char \<Rightarrow> bool" where
  "ident_part c \<longleftrightarrow> ident_start c \<or> is_ascii_digit c"

fun utf8_len :: "char \<Rightarrow> nat" where
  "utf8_len c = (let n = of_char c :: nat in if n < 0xC0 then 1 else if n < 0xE0 then 2 else if n < 0xF0 then 3 else 4)"

declare utf8_len.simps [simp del]

lemma utf8_len_pos [simp]: "0 < utf8_len c"
  by (simp add: utf8_len.simps Let_def)

lemma utf8_len_step [simp]: "Suc n - utf8_len c \<le> n"
  using utf8_len_pos [of c] by linarith

section \<open>The parts of the scanner\<close>

abbreviation mib_dquote :: char where
  "mib_dquote \<equiv> CHR 0x22"

abbreviation mib_squote :: char where
  "mib_squote \<equiv> CHR 0x27"

text \<open>A comment ends behind the next \<^verbatim>\<open>--\<close> or before the end of the line.\<close>

fun skip_comment :: "string \<Rightarrow> string" where
  "skip_comment [] = []"
| "skip_comment (c # cs) =
     (if c = CHR 0x0A then c # cs
      else if c = CHR ''-'' \<and> starts_with cs ''-'' then drop 1 cs
      else skip_comment cs)"

text \<open>The contents of a quoted string, two quotes standing for one, and what follows it.\<close>

function (sequential) read_quoted :: "string \<Rightarrow> string \<times> string" where
  "read_quoted [] = ([], [])"
| "read_quoted (c # cs) =
     (if c = mib_dquote then
        (if starts_with cs [mib_dquote] then map_prod ((#) mib_dquote) id (read_quoted (drop 1 cs)) else ([], cs))
      else
        (let w = utf8_len c; chunk = take w (c # cs)
         in map_prod (\<lambda>s. (case from_utf8 (as_bytes chunk) of Some s' \<Rightarrow> s' | None \<Rightarrow> str_of_bytes [0xEF, 0xBF, 0xBD]) @ s)
              id (read_quoted (drop w (c # cs)))))"
  by pat_completeness auto
termination
  by (relation "measure length") (auto simp: less_Suc_eq_le)

text \<open>A binary or hexadecimal literal is skipped, with the letter behind it.\<close>

definition skip_literal :: "string \<Rightarrow> string" where
  "skip_literal cs =
     (let r = drop 1 (dropWhile (\<lambda>c. c \<noteq> mib_squote) cs)
      in case r of c # r' \<Rightarrow> if c \<in> {CHR ''H'', CHR ''h'', CHR ''B'', CHR ''b''} then r' else r | [] \<Rightarrow> [])"

fun ident_tail :: "string \<Rightarrow> string \<times> string" where
  "ident_tail [] = ([], [])"
| "ident_tail [c] = (if ident_part c then ([c], []) else ([], [c]))"
| "ident_tail (c # d # cs) =
     (if ident_part c then map_prod ((#) c) id (ident_tail (d # cs))
      else if c = CHR ''-'' \<and> ident_part d then map_prod (\<lambda>w. c # d # w) id (ident_tail cs)
      else ([], c # d # cs))"

definition number_of :: "string \<Rightarrow> i64" where
  "number_of ds = (case parse_signed 64 ds of Some i \<Rightarrow> word_of_int i | None \<Rightarrow> 0)"

fun punctuation :: "char \<Rightarrow> tok option" where
  "punctuation c =
     (if c = CHR ''{'' then Some LBrace else if c = CHR ''}'' then Some RBrace
      else if c = CHR ''('' then Some LParen else if c = CHR '')'' then Some RParen
      else if c = CHR '','' then Some Comma else if c = CHR '';'' then Some Semi
      else if c = CHR ''|'' then Some Pipe else None)"

section \<open>The scanner\<close>

lemma skip_comment_shorter: "length (skip_comment s) \<le> length s"
  by (induction s) (auto simp: le_Suc_eq)

lemma read_quoted_shorter: "length (snd (read_quoted s)) \<le> length s"
proof (induction s rule: read_quoted.induct)
  case (2 c cs)
  show ?case
  proof (cases "c = mib_dquote")
    case True
    then show ?thesis using "2.IH"(1) by (auto intro: le_trans)
  next
    case False
    from "2.IH"(2) [OF False refl refl]
    have "length (snd (read_quoted (drop (utf8_len c) (c # cs)))) \<le> Suc (length cs)"
      by (rule le_trans) simp
    with False show ?thesis by (simp add: Let_def)
  qed
qed simp

lemma skip_literal_shorter: "length (skip_literal s) \<le> length s"
  using length_dropWhile_le [of "\<lambda>c. c \<noteq> mib_squote" s]
  by (auto simp: skip_literal_def Let_def split: list.splits) (metis Suc_leD length_drop length_Cons diff_le_self le_trans)+

lemma ident_tail_shorter: "length (snd (ident_tail s)) \<le> length s"
  by (induction s rule: ident_tail.induct) auto

function (sequential) smi_lex :: "string \<Rightarrow> tok list" where
  "smi_lex [] = []"
| "smi_lex (c # cs) =
     (if c \<in> {CHR '' '', CHR 0x09, CHR 0x0D, CHR 0x0A} then smi_lex cs
      else if c = CHR ''-'' \<and> starts_with cs ''-'' then smi_lex (skip_comment (drop 1 cs))
      else if c = mib_dquote then StrLit (fst (read_quoted cs)) # smi_lex (snd (read_quoted cs))
      else if c = mib_squote then smi_lex (skip_literal cs)
      else if c = CHR '':'' \<and> starts_with cs '':='' then Assign # smi_lex (drop 2 cs)
      else if c = CHR ''.'' \<and> starts_with cs ''.'' then DotDot # smi_lex (drop 1 cs)
      else if c = CHR ''.'' then smi_lex cs
      else case punctuation c of
        Some t \<Rightarrow> t # smi_lex cs
      | None \<Rightarrow>
          if is_ascii_digit c
          then NumLit (number_of (c # takeWhile is_ascii_digit cs)) # smi_lex (dropWhile is_ascii_digit cs)
          else if ident_start c then Ident (c # fst (ident_tail cs)) # smi_lex (snd (ident_tail cs))
          else smi_lex cs)"
  by pat_completeness auto
termination
  by (relation "measure length")
    (auto simp: less_Suc_eq_le read_quoted_shorter skip_literal_shorter ident_tail_shorter length_dropWhile_le
      intro: order.trans [OF skip_comment_shorter])

section \<open>Printing and reading back\<close>

definition ident_word :: "string \<Rightarrow> bool" where
  "ident_word s \<longleftrightarrow> s \<noteq> [] \<and> ident_start (hd s) \<and> ident_tail (tl s) = (tl s, [])"

definition doubled :: "string \<Rightarrow> string" where
  "doubled s = concat (map (\<lambda>c. if c = mib_dquote then [mib_dquote, mib_dquote] else [c]) s)"

fun tok_text :: "tok \<Rightarrow> string" where
  "tok_text (Ident s) = s"
| "tok_text (NumLit n) = show_nat (nat (sint n))"
| "tok_text (StrLit s) = mib_dquote # doubled s @ [mib_dquote]"
| "tok_text LBrace = ''{''"
| "tok_text RBrace = ''}''"
| "tok_text LParen = ''(''"
| "tok_text RParen = '')''"
| "tok_text Comma = '',''"
| "tok_text Semi = '';''"
| "tok_text Pipe = ''|''"
| "tok_text Assign = ''::=''"
| "tok_text DotDot = ''..''"

fun tok_ok :: "tok \<Rightarrow> bool" where
  "tok_ok (Ident s) = ident_word s"
| "tok_ok (NumLit n) = (0 \<le> sint n)"
| "tok_ok (StrLit s) = valid_string s"
| "tok_ok t = True"

definition smi_text :: "tok list \<Rightarrow> string" where
  "smi_text toks = concat (map (\<lambda>t. tok_text t @ '' '') toks)"

lemma smi_text_simps [simp]: "smi_text [] = []" "smi_text (t # ts) = tok_text t @ CHR '' '' # smi_text ts"
  by (simp_all add: smi_text_def)

lemma ident_part_space [simp]: "\<not> ident_part (CHR '' '')"
  by (simp add: ident_part_def ident_start_def is_ascii_digit_def)

lemma ident_tail_space: "ident_tail (CHR '' '' # r) = ([], CHR '' '' # r)"
  by (cases r) auto

lemma ident_tail_append: "ident_tail s = (s, []) \<Longrightarrow> ident_tail (s @ CHR '' '' # r) = (s, CHR '' '' # r)"
proof (induction s rule: ident_tail.induct)
  case (2 c)
  then show ?case by (auto simp: ident_tail_space split: if_splits)
next
  case (3 c d cs)
  then show ?case by (cases "ident_tail (d # cs)"; cases "ident_tail cs") (auto split: if_splits)
qed (simp add: ident_tail_space)

lemma doubled_append: "doubled (s @ t) = doubled s @ doubled t"
  by (simp add: doubled_def)

lemma doubled_plain: "mib_dquote \<notin> set s \<Longrightarrow> doubled s = s"
  by (induction s) (auto simp: doubled_def)

text \<open>A scalar value takes as many bytes as its first byte announces, and is followed by no quote of its own.\<close>

lemma scalar_width:
  assumes "fst (utf8_scan (as_bytes s))" and "s \<noteq> []"
  shows "snd (utf8_scan (as_bytes s)) = utf8_len (hd s)"
    and "hd s \<noteq> mib_dquote \<Longrightarrow> mib_dquote \<notin> set (take (utf8_len (hd s)) s)"
proof -
  obtain c cs where s: "s = c # cs" using assms(2) by (cases s) auto
  have high: "128 \<le> (of_char d :: nat) \<Longrightarrow> d \<noteq> mib_dquote" for d by auto
  have cont: "n div 64 = 2 \<Longrightarrow> 128 \<le> n" for n :: nat by linarith
  have second: "utf8_second b n \<Longrightarrow> 128 \<le> n" for b n by (auto simp: utf8_second_def split: if_splits)
  from assms(1) have "snd (utf8_scan (as_bytes s)) = utf8_len (hd s) \<and>
      (hd s \<noteq> mib_dquote \<longrightarrow> mib_dquote \<notin> set (take (utf8_len (hd s)) s))"
  proof (cases rule: utf8_scan_cases)
    case one
    then show ?thesis by (simp add: s as_bytes_def utf8_len.simps Let_def)
  next
    case two
    then obtain d ds where cs: "cs = d # ds" by (cases cs) (auto simp: s utf8_cont_def as_bytes_def)
    have "utf8_len c = 2" using two by (simp add: s as_bytes_def utf8_len.simps Let_def)
    moreover have "d \<noteq> mib_dquote" using two by (intro high cont) (simp add: s cs as_bytes_def utf8_cont_def)
    ultimately show ?thesis using two by (simp add: s cs numeral_2_eq_2)
  next
    case three
    then obtain d e ds where cs: "cs = d # e # ds"
      by (cases cs; cases "tl cs") (auto simp: s utf8_cont_def as_bytes_def)
    have "utf8_len c = 3" using three by (simp add: s as_bytes_def utf8_len.simps Let_def)
    moreover have "d \<noteq> mib_dquote" using three by (intro high second) (simp add: s cs as_bytes_def)
    moreover have "e \<noteq> mib_dquote" using three by (intro high cont) (simp add: s cs as_bytes_def utf8_cont_def numeral_2_eq_2)
    ultimately show ?thesis using three by (simp add: s cs numeral_3_eq_3)
  next
    case four
    then obtain d e f ds where cs: "cs = d # e # f # ds"
      by (cases cs; cases "tl cs"; cases "tl (tl cs)") (auto simp: s utf8_cont_def as_bytes_def)
    have "utf8_len c = 4" using four by (simp add: s as_bytes_def utf8_len.simps Let_def)
    moreover have "d \<noteq> mib_dquote" using four by (intro high second) (simp add: s cs as_bytes_def)
    moreover have "e \<noteq> mib_dquote" using four by (intro high cont) (simp add: s cs as_bytes_def utf8_cont_def numeral_2_eq_2)
    moreover have "f \<noteq> mib_dquote" using four by (intro high cont) (simp add: s cs as_bytes_def utf8_cont_def numeral_3_eq_3)
    ultimately show ?thesis using four by (simp add: s cs eval_nat_numeral)
  qed
  then show "snd (utf8_scan (as_bytes s)) = utf8_len (hd s)"
    and "hd s \<noteq> mib_dquote \<Longrightarrow> mib_dquote \<notin> set (take (utf8_len (hd s)) s)" by blast+
qed

lemma from_utf8_scalar:
  assumes "valid_string s" and "s \<noteq> []"
  shows "from_utf8 (as_bytes (take (utf8_len (hd s)) s)) = Some (take (utf8_len (hd s)) s)"
    and "valid_string (drop (utf8_len (hd s)) s)" and "utf8_len (hd s) \<le> length s"
proof -
  let ?n = "utf8_len (hd s)"
  note step = valid_string_step [OF assms]
  have n: "snd (utf8_scan (as_bytes s)) = ?n" using scalar_width(1) step assms(2) by blast
  have ne: "as_bytes s \<noteq> []" using assms(2) by (simp add: as_bytes_def)
  have take: "as_bytes (take ?n s) = take ?n (as_bytes s)" by (simp add: as_bytes_def take_map)
  have "utf8_scan (take ?n (as_bytes s)) = utf8_scan (as_bytes s)"
    using utf8_scan_take [OF _ ne] step n by simp
  then have "valid_utf8 (take ?n (as_bytes s))"
    using step n by (subst valid_utf8.simps) (auto simp: valid_utf8.simps)
  then show "from_utf8 (as_bytes (take ?n s)) = Some (take ?n s)"
    by (simp add: from_utf8_def take [symmetric])
  show "valid_string (drop ?n s)" using step n by simp
  show "?n \<le> length s" using utf8_scan_append [OF _ ne] step n by simp
qed

lemma read_quoted_doubled:
  "valid_string s \<Longrightarrow> read_quoted (doubled s @ mib_dquote # CHR '' '' # r) = (s, CHR '' '' # r)"
proof (induction "length s" arbitrary: s rule: less_induct)
  case less
  show ?case
  proof (cases s)
    case Nil
    then show ?thesis by (simp add: doubled_def starts_with_def)
  next
    case (Cons c cs)
    let ?n = "utf8_len c"
    note scalar = from_utf8_scalar [OF less.prems, unfolded Cons, simplified]
    have "length (drop ?n s) < length s" using utf8_len_pos [of c] by (simp add: Cons)
    then have IH: "read_quoted (doubled (drop ?n s) @ mib_dquote # CHR '' '' # r) = (drop ?n s, CHR '' '' # r)"
      using less.hyps scalar(2) by (simp add: Cons)
    show ?thesis
    proof (cases "c = mib_dquote")
      case True
      then have "?n = 1" by (simp add: utf8_len.simps)
      with IH show ?thesis by (simp add: Cons True doubled_def starts_with_def)
    next
      case False
      have fst: "fst (utf8_scan (as_bytes s))" using valid_string_step [OF less.prems] Cons by simp
      have "mib_dquote \<notin> set (take ?n s)" using scalar_width(2) [OF fst] Cons False by simp
      then have "doubled s = take ?n s @ doubled (drop ?n s)"
        using doubled_append [of "take ?n s" "drop ?n s"] by (simp add: doubled_plain)
      moreover obtain m where m: "?n = Suc m" using utf8_len_pos [of c] by (cases ?n) auto
      ultimately have d: "doubled s @ mib_dquote # CHR '' '' # r = c # take m cs @ doubled (drop ?n s) @ mib_dquote # CHR '' '' # r"
        by (simp add: Cons)
      have len: "length (take m cs) = m" using scalar(3) by (simp add: m)
      have "from_utf8 (as_bytes (c # take m cs)) = Some (c # take m cs)" using scalar(1) by (simp add: m)
      then show ?thesis
        unfolding d using IH False len by (simp add: Let_def m Cons)
    qed
  qed
qed

definition special_chars :: "char list" where
  "special_chars = [CHR '' '', CHR 0x09, CHR 0x0D, CHR 0x0A, CHR ''-'', mib_dquote, mib_squote, CHR '':'', CHR ''.'',
     CHR ''{'', CHR ''}'', CHR ''('', CHR '')'', CHR '','', CHR '';'', CHR ''|'']"

lemma special_not_word: "list_all (\<lambda>c. \<not> ident_start c \<and> \<not> is_ascii_digit c) special_chars"
  by (simp add: special_chars_def ident_start_def is_ascii_digit_def)

lemma word_not_special:
  assumes "ident_start c \<or> is_ascii_digit c"
  shows "c \<notin> {CHR '' '', CHR 0x09, CHR 0x0D, CHR 0x0A}" "c \<noteq> CHR ''-''" "c \<noteq> mib_dquote" "c \<noteq> mib_squote" "c \<noteq> CHR '':''"
    "c \<noteq> CHR ''.''" "punctuation c = None"
proof -
  have *: "c \<noteq> d" if "d \<in> set special_chars" for d using special_not_word assms that by (auto simp: list_all_iff)
  show "c \<notin> {CHR '' '', CHR 0x09, CHR 0x0D, CHR 0x0A}" "c \<noteq> CHR ''-''" "c \<noteq> mib_dquote" "c \<noteq> mib_squote" "c \<noteq> CHR '':''"
    "c \<noteq> CHR ''.''" "punctuation c = None"
    using * [of "CHR '' ''"] * [of "CHR 0x09"] * [of "CHR 0x0D"] * [of "CHR 0x0A"] * [of "CHR ''-''"] * [of mib_dquote]
      * [of mib_squote] * [of "CHR '':''"] * [of "CHR ''.''"] * [of "CHR ''{''"] * [of "CHR ''}''"] * [of "CHR ''(''"]
      * [of "CHR '')''"] * [of "CHR '',''"] * [of "CHR '';''"] * [of "CHR ''|''"]
    by (simp_all add: special_chars_def)
qed

lemma ident_start_no_digit: "ident_start c \<Longrightarrow> \<not> is_ascii_digit c"
  unfolding ident_start_def is_ascii_digit_def Let_def by linarith

lemma number_of_show: "0 \<le> sint n \<Longrightarrow> number_of (show_nat (nat (sint n))) = n"
proof -
  assume n: "0 \<le> sint n"
  obtain c cs where s: "show_nat (nat (sint n)) = c # cs" by (cases "show_nat (nat (sint n))") auto
  have "is_ascii_digit c" using show_nat_digits [of c "nat (sint n)"] s by simp
  then have "c \<noteq> CHR ''-''" "c \<noteq> CHR ''+''" by (auto simp: is_ascii_digit_def)
  moreover have "parse_digits 0 (c # cs) = Some (nat (sint n))" using parse_digits_show [of "nat (sint n)"] s by simp
  moreover have "sint n < 2 ^ 63" using sint_less [of n] by simp
  ultimately have "parse_signed 64 (c # cs) = Some (sint n)" using n by (simp add: parse_signed_def Let_def)
  then show ?thesis by (simp add: number_of_def s)
qed

lemma digits_then_space:
  assumes "list_all is_ascii_digit ds"
  shows "takeWhile is_ascii_digit (ds @ CHR '' '' # r) = ds" "dropWhile is_ascii_digit (ds @ CHR '' '' # r) = CHR '' '' # r"
  using assms by (auto simp: takeWhile_append2 dropWhile_append2 list_all_iff is_ascii_digit_def)

lemma smi_lex_space [simp]: "smi_lex (CHR '' '' # r) = smi_lex r"
  by simp

lemma smi_lex_tok: "tok_ok t \<Longrightarrow> smi_lex (tok_text t @ CHR '' '' # r) = t # smi_lex r"
proof (cases t)
  case (Ident s)
  assume "tok_ok t"
  then obtain c cs where s: "s = c # cs" "ident_start c" "ident_tail cs = (cs, [])"
    by (cases s) (auto simp: Ident ident_word_def)
  then show ?thesis
    using word_not_special [of c] ident_start_no_digit [OF s(2)] ident_tail_append [OF s(3), of r]
    by (simp add: Ident del: punctuation.simps)
next
  case (NumLit n)
  assume "tok_ok t"
  then have n: "0 \<le> sint n" by (simp add: NumLit)
  obtain c cs where s: "show_nat (nat (sint n)) = c # cs" by (cases "show_nat (nat (sint n))") auto
  have "list_all is_ascii_digit (c # cs)" using show_nat_digits [of _ "nat (sint n)"] s by (simp add: list_all_iff)
  then have c: "is_ascii_digit c" and cs: "list_all is_ascii_digit cs" by simp_all
  show ?thesis
    using word_not_special [of c] c number_of_show [OF n] digits_then_space [OF cs, of r]
    by (simp add: NumLit s del: punctuation.simps)
next
  case (StrLit s)
  assume "tok_ok t"
  then show ?thesis using read_quoted_doubled [of s r] by (simp add: StrLit starts_with_def)
qed (simp_all add: starts_with_def)

lemma smi_lex_text: "list_all tok_ok toks \<Longrightarrow> smi_lex (smi_text toks) = toks"
  by (induction toks) (simp_all add: smi_lex_tok del: smi_lex.simps(2))

end
