(* ===== verification/Smi_Parse.thy ===== *)
theory Smi_Parse
  imports Smi_Lex Snmp_Oid "HOL-Library.Monad_Syntax"
begin

text \<open>
  The second stage of the MIB parser (\<^verbatim>\<open>crates/netsnmp/src/smi/parse.rs\<close>): the scan for labelled OID
  assignments, and the richer parse of \<^verbatim>\<open>OBJECT-TYPE\<close> clauses and textual conventions.  An index into
  the token slice is the suffix of tokens that is left.
\<close>

section \<open>OID assignments\<close>

datatype comp = Number u32 | Name string | Named string u32

record raw_def =
  rd_name :: string
  rd_spec :: "comp list"
  rd_enums :: "(i64 \<times> string) list option"

definition MACRO_KEYWORDS :: "string list" where
  "MACRO_KEYWORDS = [''OBJECT-TYPE'', ''MODULE-IDENTITY'', ''OBJECT-IDENTITY'', ''NOTIFICATION-TYPE'', ''OBJECT-GROUP'',
     ''NOTIFICATION-GROUP'', ''MODULE-COMPLIANCE'', ''AGENT-CAPABILITIES'']"

definition first_ident :: "tok list \<Rightarrow> string option" where
  "first_ident ts = (case ts of Ident s # _ \<Rightarrow> Some s | _ \<Rightarrow> None)"

definition num_arc :: "i64 \<Rightarrow> u32" where
  "num_arc v = (if sint v < 0 then 0 else ucast v)"

text \<open>A named number in parentheses, and what follows it.\<close>

definition paren_number :: "tok list \<Rightarrow> (i64 \<times> tok list) option" where
  "paren_number ts =
     (case ts of
        t1 # NumLit v # t2 # r \<Rightarrow> if t1 = LParen \<and> t2 = RParen then Some (v, r) else None
      | _ \<Rightarrow> None)"

lemma paren_number_shorter: "paren_number ts = Some (v, r) \<Longrightarrow> length r < length ts"
  by (auto simp: paren_number_def split: list.splits tok.splits if_splits)

function (sequential) parse_oid_body :: "tok list \<Rightarrow> (comp list \<times> tok list) option" where
  "parse_oid_body [] = None"
| "parse_oid_body (RBrace # ts) = Some ([], ts)"
| "parse_oid_body (NumLit v # ts) = map_option (apfst ((#) (Number (num_arc v)))) (parse_oid_body ts)"
| "parse_oid_body (Ident name # ts) =
     (case paren_number ts of
        Some (v, r) \<Rightarrow> map_option (apfst ((#) (Named name (num_arc v)))) (parse_oid_body r)
      | None \<Rightarrow> map_option (apfst ((#) (Name name))) (parse_oid_body ts))"
| "parse_oid_body (t # ts) = None"
  by pat_completeness auto
termination
  by (relation "measure length") (auto dest: paren_number_shorter)

definition enum_entry :: "tok list \<Rightarrow> ((i64 \<times> string) \<times> tok list) option" where
  "enum_entry ts =
     (case ts of
        Ident name # r \<Rightarrow> (case paren_number r of Some (v, r') \<Rightarrow> Some ((v, name), r') | None \<Rightarrow> None)
      | _ \<Rightarrow> None)"

lemma enum_entry_shorter: "enum_entry ts = Some (e, r) \<Longrightarrow> length r < length ts"
  by (auto simp: enum_entry_def dest: paren_number_shorter split: list.splits tok.splits option.splits)

function parse_enum_body :: "tok list \<Rightarrow> ((i64 \<times> string) list \<times> tok list) option" where
  "parse_enum_body ts =
     (case enum_entry ts of
        None \<Rightarrow> None
      | Some (e, r) \<Rightarrow>
          (case r of
             [] \<Rightarrow> None
           | t # r' \<Rightarrow>
               if t = Comma then map_option (apfst ((#) e)) (parse_enum_body r')
               else if t = RBrace then Some ([e], r')
               else None))"
  by pat_completeness auto
termination
  by (relation "measure length") (auto dest: enum_entry_shorter)

declare parse_enum_body.simps [simp del]

fun skip_to_end :: "tok list \<Rightarrow> tok list" where
  "skip_to_end [] = []"
| "skip_to_end (t # ts) = (if t = Ident ''END'' then ts else skip_to_end ts)"

text \<open>The tail of \<^verbatim>\<open><label> OBJECT IDENTIFIER ::= { ... }\<close> behind its label.\<close>

definition object_identifier :: "tok list \<Rightarrow> (comp list \<times> tok list) option" where
  "object_identifier ts =
     (if take 4 ts = [Ident ''OBJECT'', Ident ''IDENTIFIER'', Assign, LBrace] then parse_oid_body (drop 4 ts) else None)"

lemma skip_to_end_shorter: "length (skip_to_end ts) \<le> length ts"
  by (induction ts) auto

lemma parse_oid_body_shorter: "parse_oid_body ts = Some (spec, r) \<Longrightarrow> length r < length ts"
proof (induction ts arbitrary: spec rule: parse_oid_body.induct)
  case (4 name ts)
  then show ?case
    by (fastforce dest: paren_number_shorter split: option.splits)
qed auto

lemma parse_enum_body_shorter: "parse_enum_body ts = Some (es, r) \<Longrightarrow> length r < length ts"
proof (induction ts arbitrary: es rule: parse_enum_body.induct)
  case (1 ts)
  obtain e t r' where e: "enum_entry ts = Some (e, t # r')"
    and t: "t = Comma \<and> (\<exists>es'. parse_enum_body r' = Some (es', r)) \<or> t = RBrace \<and> r' = r"
    using "1.prems" unfolding parse_enum_body.simps [of ts]
    by (auto split: option.splits list.splits if_splits)
  with "1.IH" [OF e refl refl] enum_entry_shorter [OF e] show ?case by fastforce
qed

lemma object_identifier_shorter: "object_identifier ts = Some (spec, r) \<Longrightarrow> length r < length ts"
  by (auto simp: object_identifier_def dest!: parse_oid_body_shorter split: if_splits)

text \<open>
  The scan.  The label of the macro being read and the enumeration found in it are the state of
  the loop.
\<close>

function (sequential) parse_module_loop ::
  "tok list \<Rightarrow> string option \<Rightarrow> (i64 \<times> string) list option \<Rightarrow> raw_def list" where
  "parse_module_loop [] label enums = []"
| "parse_module_loop (Ident name # ts) label enums =
     (if first_ident ts = Some ''MACRO'' then parse_module_loop (skip_to_end (tl ts)) None None
      else if first_ident ts \<in> Some ` set MACRO_KEYWORDS then parse_module_loop (tl ts) (Some name) None
      else case object_identifier ts of
        Some (spec, r) \<Rightarrow> \<lparr>rd_name = name, rd_spec = spec, rd_enums = None\<rparr> # parse_module_loop r None None
      | None \<Rightarrow> parse_module_loop ts label enums)"
| "parse_module_loop (LBrace # ts) label enums =
     (case (if label \<noteq> None \<and> enums = None then parse_enum_body ts else None) of
        Some (pairs, r) \<Rightarrow> parse_module_loop r label (Some pairs)
      | None \<Rightarrow> parse_module_loop ts label enums)"
| "parse_module_loop (Assign # ts) label enums =
     (if take 1 ts = [LBrace] then
        (case label of
           None \<Rightarrow> parse_module_loop ts None None
         | Some l \<Rightarrow>
             (case parse_oid_body (tl ts) of
                Some (spec, r) \<Rightarrow> \<lparr>rd_name = l, rd_spec = spec, rd_enums = enums\<rparr> # parse_module_loop r None None
              | None \<Rightarrow> parse_module_loop ts None None))
      else parse_module_loop ts label enums)"
| "parse_module_loop (t # ts) label enums = parse_module_loop ts label enums"
  by pat_completeness auto
termination
proof (relation "measure (\<lambda>(ts, l, e). length ts)", goal_cases)
  case (2 name ts label enums)
  then show ?case using skip_to_end_shorter [of "tl ts"] by (auto simp: less_Suc_eq_le)
qed (auto dest: object_identifier_shorter parse_enum_body_shorter parse_oid_body_shorter split: if_splits)

definition parse_module :: "tok list \<Rightarrow> raw_def list" where
  "parse_module ts = parse_module_loop ts None None"

text \<open>The same scan without enumerations; the first definition of a name counts.\<close>

function (sequential) name_map_loop :: "tok list \<Rightarrow> string option \<Rightarrow> (string \<times> comp list) list" where
  "name_map_loop [] label = []"
| "name_map_loop (Ident name # ts) label =
     (if first_ident ts = Some ''MACRO'' then name_map_loop (skip_to_end (tl ts)) None
      else if first_ident ts \<in> Some ` set MACRO_KEYWORDS then name_map_loop (tl ts) (Some name)
      else case object_identifier ts of
        Some (spec, r) \<Rightarrow> (name, spec) # name_map_loop r None
      | None \<Rightarrow> name_map_loop ts label)"
| "name_map_loop (Assign # ts) label =
     (if take 1 ts = [LBrace] then
        (case label of
           None \<Rightarrow> name_map_loop ts None
         | Some l \<Rightarrow>
             (case parse_oid_body (tl ts) of
                Some (spec, r) \<Rightarrow> (l, spec) # name_map_loop r None
              | None \<Rightarrow> name_map_loop ts None))
      else name_map_loop ts label)"
| "name_map_loop (t # ts) label = name_map_loop ts label"
  by pat_completeness auto
termination
proof (relation "measure (\<lambda>(ts, l). length ts)", goal_cases)
  case (2 name ts label)
  then show ?case using skip_to_end_shorter [of "tl ts"] by (auto simp: less_Suc_eq_le)
qed (auto dest: object_identifier_shorter parse_oid_body_shorter)

definition name_map :: "tok list \<Rightarrow> string \<Rightarrow> comp list option" where
  "name_map ts = map_of (name_map_loop ts None)"

section \<open>Structured definitions\<close>

datatype base_type =
    IntegerT | OctetStringT | OidT | IpAddressT | Counter32T | Gauge32T | TimeTicksT | OpaqueT | Counter64T | NullT
  | Unsigned32T

record constraint =
  ct_ranges :: "(i64 option \<times> i64 option) list"
  ct_sizes :: "(nat \<times> nat) list"

datatype smi_syntax = Base base_type "constraint option" | Tc string "constraint option" | SequenceT

datatype access =
  NotAccessible | AccessibleForNotify | AccReadOnly | AccReadWrite | AccReadCreate | AccWriteOnly

datatype def_status = Current | Deprecated | Obsolete

datatype index_spec = Implied string | Plain "string list" | Augments string

record object_def =
  od_name :: string
  od_oid :: oid
  od_syntax :: smi_syntax
  od_units :: "string option"
  od_max_access :: access
  od_status :: def_status
  od_description :: "string option"
  od_reference :: "string option"
  od_index :: "index_spec option"
  od_defval :: "string option"
  od_enums :: "(i64 \<times> string) list"
  od_module :: "string option"

record textual_convention =
  tc_name :: string
  tc_base :: smi_syntax
  tc_display_hint :: "string option"
  tc_status :: def_status
  tc_description :: "string option"
  tc_reference :: "string option"

definition has_any :: "constraint \<Rightarrow> bool" where
  "has_any c \<longleftrightarrow> ct_ranges c \<noteq> [] \<or> ct_sizes c \<noteq> []"

definition check_int :: "constraint \<Rightarrow> i64 \<Rightarrow> bool" where
  "check_int c n \<longleftrightarrow>
     ct_ranges c = [] \<or>
     list_ex (\<lambda>(lo, hi). (case lo of None \<Rightarrow> True | Some l \<Rightarrow> sint l \<le> sint n) \<and>
                        (case hi of None \<Rightarrow> True | Some h \<Rightarrow> sint n \<le> sint h)) (ct_ranges c)"

definition check_size :: "constraint \<Rightarrow> nat \<Rightarrow> bool" where
  "check_size c len \<longleftrightarrow> ct_sizes c = [] \<or> list_ex (\<lambda>(lo, hi). lo \<le> len \<and> len \<le> hi) (ct_sizes c)"

section \<open>Constraints and syntax\<close>

definition is_word :: "string \<Rightarrow> tok list \<Rightarrow> bool" where
  "is_word w ts \<longleftrightarrow> (case first_ident ts of Some s \<Rightarrow> eq_ignore_ascii_case s w | None \<Rightarrow> False)"

definition range_bound :: "string \<Rightarrow> tok list \<Rightarrow> (i64 option \<times> tok list) option" where
  "range_bound limit ts =
     (case ts of
        NumLit n # r \<Rightarrow> Some (Some n, r)
      | Ident s # r \<Rightarrow> if s = limit then Some (None, r) else None
      | _ \<Rightarrow> None)"

definition parse_range :: "tok list \<Rightarrow> (i64 option \<times> i64 option \<times> tok list) option" where
  "parse_range ts =
     (case range_bound ''MIN'' ts of
        None \<Rightarrow> None
      | Some (lo, r) \<Rightarrow>
          if take 1 r = [DotDot] then
            (case range_bound ''MAX'' (drop 1 r) of None \<Rightarrow> None | Some (hi, r') \<Rightarrow> Some (lo, hi, r'))
          else (case lo of Some n \<Rightarrow> Some (lo, lo, r) | None \<Rightarrow> None))"

lemma range_bound_shorter: "range_bound l ts = Some (b, r) \<Longrightarrow> length r < length ts"
  by (auto simp: range_bound_def split: list.splits tok.splits if_splits)

lemma parse_range_shorter: "parse_range ts = Some (lo, hi, r) \<Longrightarrow> length r < length ts"
  by (auto simp: parse_range_def dest!: range_bound_shorter split: option.splits if_splits)

definition size_bounds :: "i64 option \<Rightarrow> i64 option \<Rightarrow> nat \<times> nat" where
  "size_bounds lo hi =
     (let l = nat (max 0 (case lo of None \<Rightarrow> 0 | Some v \<Rightarrow> sint v))
      in (l, nat (max (int l) (case hi of None \<Rightarrow> 0 | Some v \<Rightarrow> sint v))))"

function range_loop :: "bool \<Rightarrow> tok list \<Rightarrow> constraint \<Rightarrow> (constraint \<times> tok list) option" where
  "range_loop is_size ts c =
     (case parse_range ts of
        None \<Rightarrow> None
      | Some (lo, hi, r) \<Rightarrow>
          (let c' = (if is_size then c\<lparr>ct_sizes := ct_sizes c @ [size_bounds lo hi]\<rparr>
                     else c\<lparr>ct_ranges := ct_ranges c @ [(lo, hi)]\<rparr>)
           in case r of
                [] \<Rightarrow> None
              | t # r' \<Rightarrow>
                  if t = Pipe then range_loop is_size r' c' else if t = RParen then Some (c', r') else None))"
  by pat_completeness auto
termination
  by (relation "measure (\<lambda>(s, ts, c). length ts)") (auto dest: parse_range_shorter)

declare range_loop.simps [simp del]

definition constraint_default :: constraint where
  "constraint_default = \<lparr>ct_ranges = [], ct_sizes = []\<rparr>"

text \<open>The argument starts at the parenthesis.  Behind \<^verbatim>\<open>SIZE\<close> the outer parenthesis is left unread.\<close>

definition parse_constraint_tokens :: "tok list \<Rightarrow> (constraint \<times> tok list) option" where
  "parse_constraint_tokens ts =
     (if take 1 ts \<noteq> [LParen] then None
      else
        (let r = drop 1 ts; is_size = is_word ''SIZE'' r
         in if is_size \<and> take 1 (drop 1 r) \<noteq> [LParen] then None
            else case range_loop is_size (if is_size then drop 2 r else r) constraint_default of
                   None \<Rightarrow> None
                 | Some (c, r') \<Rightarrow> if has_any c then Some (c, r') else None))"

definition parse_constraint :: "string \<Rightarrow> constraint option" where
  "parse_constraint text =
     (case dropWhile (\<lambda>t. t \<noteq> LParen) (smi_lex text) of
        [] \<Rightarrow> None
      | ts \<Rightarrow> map_option fst (parse_constraint_tokens ts))"

definition match_base_type :: "string \<Rightarrow> base_type option" where
  "match_base_type lower =
     map_of [(''integer'', IntegerT), (''integer32'', IntegerT), (''octet'', OctetStringT), (''object'', OidT),
       (''ipaddress'', IpAddressT), (''counter32'', Counter32T), (''gauge32'', Gauge32T), (''gauge'', Gauge32T),
       (''timeticks'', TimeTicksT), (''opaque'', OpaqueT), (''counter64'', Counter64T), (''unsigned32'', Unsigned32T),
       (''null'', NullT), (''networkaddress'', OidT)] lower"

text \<open>The base type or the name of a textual convention, and what follows it.\<close>

definition base_or_tc :: "tok list \<Rightarrow> ((constraint option \<Rightarrow> smi_syntax) \<times> tok list) option" where
  "base_or_tc ts =
     (case ts of
        Ident name # r \<Rightarrow>
          Some (if eq_ignore_ascii_case name ''OCTET'' \<and> is_word ''STRING'' r then (Base OctetStringT, drop 1 r)
                else if eq_ignore_ascii_case name ''OBJECT'' \<and> is_word ''IDENTIFIER'' r then (Base OidT, drop 1 r)
                else case match_base_type (to_ascii_lowercase name) of
                       Some bt \<Rightarrow> (Base bt, r)
                     | None \<Rightarrow> (Tc name, r))
      | _ \<Rightarrow> None)"

fun skip_braces :: "tok list \<Rightarrow> nat \<Rightarrow> tok list" where
  "skip_braces ts 0 = ts"
| "skip_braces [] depth = []"
| "skip_braces (t # ts) (Suc d) =
     skip_braces ts (if t = LBrace then Suc (Suc d) else if t = RBrace then d else Suc d)"

text \<open>\<^verbatim>\<open>SEQUENCE OF Entry\<close> is three tokens long; the source skips four.\<close>

definition parse_syntax :: "tok list \<Rightarrow> (smi_syntax \<times> (i64 \<times> string) list \<times> tok list) option" where
  "parse_syntax ts =
     (if is_word ''SEQUENCE'' ts \<and> is_word ''OF'' (drop 1 ts) then Some (SequenceT, [], drop 4 ts)
      else if is_word ''SEQUENCE'' ts \<and> take 1 (drop 1 ts) = [LBrace] then Some (SequenceT, [], skip_braces (drop 2 ts) 1)
      else case base_or_tc ts of
        None \<Rightarrow> None
      | Some (mk, r) \<Rightarrow>
          (let (enums, r) = (case (if take 1 r = [LBrace] then parse_enum_body (drop 1 r) else None) of
                               Some (pairs, next) \<Rightarrow> (pairs, next) | None \<Rightarrow> ([], r));
               (c, r) = (case (if take 1 r = [LParen] then parse_constraint_tokens r else None) of
                           Some (c, next) \<Rightarrow> (Some c, next) | None \<Rightarrow> (None, r))
           in Some (mk c, enums, r)))"

definition parse_def_access :: "string \<Rightarrow> access" where
  "parse_def_access s =
     (case map_of [(''not-accessible'', NotAccessible), (''notaccessible'', NotAccessible),
         (''accessible-for-notify'', AccessibleForNotify), (''accessiblefornotify'', AccessibleForNotify),
         (''read-only'', AccReadOnly), (''readonly'', AccReadOnly), (''read-write'', AccReadWrite),
         (''readwrite'', AccReadWrite), (''read-create'', AccReadCreate), (''readcreate'', AccReadCreate),
         (''write-only'', AccWriteOnly), (''writeonly'', AccWriteOnly)] (to_ascii_lowercase s) of
        Some a \<Rightarrow> a | None \<Rightarrow> NotAccessible)"

definition parse_status :: "string \<Rightarrow> def_status" where
  "parse_status s =
     (let l = to_ascii_lowercase s
      in if l = ''deprecated'' then Deprecated else if l = ''obsolete'' then Obsolete else Current)"

lemma range_loop_shorter: "range_loop z ts c = Some (c', r) \<Longrightarrow> length r < length ts"
proof (induction z ts c rule: range_loop.induct)
  case (1 z ts c)
  obtain lo hi t r' where p: "parse_range ts = Some (lo, hi, t # r')"
    using "1.prems" unfolding range_loop.simps [of z ts]
    by (auto simp: Let_def split: option.splits list.splits if_splits)
  have "length r < length (t # r')"
    using "1.prems" "1.IH" [OF p refl refl refl refl] unfolding range_loop.simps [of z ts]
    by (auto simp: Let_def p split: if_splits)
  with parse_range_shorter [OF p] show ?case by simp
qed

lemma parse_constraint_tokens_shorter: "parse_constraint_tokens ts = Some (c, r) \<Longrightarrow> length r \<le> length ts"
  by (auto simp: parse_constraint_tokens_def Let_def dest!: range_loop_shorter split: option.splits if_splits)

lemma base_or_tc_shorter: "base_or_tc ts = Some (mk, r) \<Longrightarrow> length r \<le> length ts"
  by (auto simp: base_or_tc_def split: list.splits tok.splits if_splits option.splits)

lemma skip_braces_shorter: "length (skip_braces ts d) \<le> length ts"
  by (induction ts d rule: skip_braces.induct) (auto simp: le_SucI)

lemma parse_syntax_shorter: "parse_syntax ts = Some (syn, enums, r) \<Longrightarrow> length r \<le> length ts"
proof -
  assume p: "parse_syntax ts = Some (syn, enums, r)"
  have *: "length (skip_braces (drop 2 ts) 1) \<le> length ts"
    using skip_braces_shorter [of "drop 2 ts" 1] by simp
  show ?thesis
    using p * unfolding parse_syntax_def Let_def
    by (auto dest!: base_or_tc_shorter parse_constraint_tokens_shorter parse_enum_body_shorter
        split: if_splits option.splits prod.splits)
qed

section \<open>Clauses of an object type\<close>

text \<open>The entries of an \<^verbatim>\<open>INDEX\<close> clause: names, with one \<^verbatim>\<open>IMPLIED\<close> in front.\<close>

fun index_loop :: "tok list \<Rightarrow> string list \<Rightarrow> bool \<Rightarrow> (string list \<times> bool) option" where
  "index_loop [] idents implied = None"
| "index_loop (t # ts) idents implied =
     (case t of
        Ident s \<Rightarrow>
          if eq_ignore_ascii_case s ''IMPLIED'' \<and> idents = [] \<and> \<not> implied then index_loop ts idents True
          else index_loop ts (idents @ [s]) implied
      | Comma \<Rightarrow> index_loop ts idents implied
      | RBrace \<Rightarrow> Some (idents, implied)
      | _ \<Rightarrow> None)"

definition parse_index :: "tok list \<Rightarrow> index_spec option" where
  "parse_index ts =
     (if take 1 ts \<noteq> [LBrace] then None
      else case index_loop (drop 1 ts) [] False of
        None \<Rightarrow> None
      | Some (idents, implied) \<Rightarrow> Some (if implied \<and> idents \<noteq> [] then Implied (last idents) else Plain idents))"

definition parse_augments :: "tok list \<Rightarrow> string option" where
  "parse_augments ts =
     (if take 1 ts = [LBrace] \<and> take 1 (drop 2 ts) = [RBrace] then first_ident (drop 1 ts) else None)"

fun defval_loop :: "tok list \<Rightarrow> nat \<Rightarrow> string list \<Rightarrow> string list option" where
  "defval_loop ts 0 parts = Some parts"
| "defval_loop [] (Suc d) parts = None"
| "defval_loop (t # ts) (Suc d) parts =
     (case t of
        LBrace \<Rightarrow> defval_loop ts (Suc (Suc d)) (parts @ [''{''])
      | RBrace \<Rightarrow> defval_loop ts d (if d > 0 then parts @ [''}''] else parts)
      | StrLit s \<Rightarrow> defval_loop ts (Suc d) (parts @ [mib_dquote # s @ [mib_dquote]])
      | NumLit n \<Rightarrow> defval_loop ts (Suc d) (parts @ [show_int (sint n)])
      | Ident s \<Rightarrow> defval_loop ts (Suc d) (parts @ [s])
      | Comma \<Rightarrow> defval_loop ts (Suc d) (parts @ ['',''])
      | _ \<Rightarrow> defval_loop ts (Suc d) parts)"

definition parse_defval :: "tok list \<Rightarrow> string option" where
  "parse_defval ts =
     (if take 1 ts \<noteq> [LBrace] then None else map_option (join_with '' '') (defval_loop (drop 1 ts) 1 []))"

definition first_string :: "tok list \<Rightarrow> string option" where
  "first_string ts = (case ts of StrLit s # _ \<Rightarrow> Some s | _ \<Rightarrow> None)"

text \<open>
  One clause: the definition with what the clause at the keyword \<open>k\<close> says, and how many of the tokens
  behind the keyword it reads.  A clause that cannot be read, and the clauses in braces, leave them
  to the loop.
\<close>

definition parse_clause :: "string \<Rightarrow> tok list \<Rightarrow> object_def \<Rightarrow> object_def \<times> tok list" where
  "parse_clause k ts def =
     (let kw = eq_ignore_ascii_case k;
          text = (\<lambda>upd. case first_string ts of Some s \<Rightarrow> (upd (Some s), drop 1 ts) | None \<Rightarrow> (def, ts));
          word = (\<lambda>upd. case first_ident ts of Some s \<Rightarrow> (upd s, drop 1 ts) | None \<Rightarrow> (def, ts))
      in if kw ''SYNTAX'' then
           (case parse_syntax ts of
              Some (syn, enums, r) \<Rightarrow>
                (let d = def\<lparr>od_syntax := syn\<rparr> in (if enums \<noteq> [] then d\<lparr>od_enums := enums\<rparr> else d, r))
            | None \<Rightarrow> (def, ts))
         else if kw ''UNITS'' then text (\<lambda>s. def\<lparr>od_units := s\<rparr>)
         else if kw ''MAX-ACCESS'' \<or> kw ''ACCESS'' then word (\<lambda>s. def\<lparr>od_max_access := parse_def_access s\<rparr>)
         else if kw ''MIN-ACCESS'' then
           (if od_max_access def = NotAccessible then word (\<lambda>s. def\<lparr>od_max_access := parse_def_access s\<rparr>) else (def, ts))
         else if kw ''STATUS'' then word (\<lambda>s. def\<lparr>od_status := parse_status s\<rparr>)
         else if kw ''DESCRIPTION'' then text (\<lambda>s. def\<lparr>od_description := s\<rparr>)
         else if kw ''REFERENCE'' then text (\<lambda>s. def\<lparr>od_reference := s\<rparr>)
         else if kw ''INDEX'' then (case parse_index ts of Some x \<Rightarrow> def\<lparr>od_index := Some x\<rparr> | None \<Rightarrow> def, ts)
         else if kw ''AUGMENTS'' then (case parse_augments ts of Some x \<Rightarrow> def\<lparr>od_index := Some (Augments x)\<rparr> | None \<Rightarrow> def, ts)
         else if kw ''DEFVAL'' then (case parse_defval ts of Some x \<Rightarrow> def\<lparr>od_defval := Some x\<rparr> | None \<Rightarrow> def, ts)
         else (def, ts))"

lemma parse_clause_shorter: "parse_clause k ts def = (def', r) \<Longrightarrow> length r \<le> length ts"
  unfolding parse_clause_def Let_def
  by (simp split: if_splits option.splits prod.splits) (auto dest: parse_syntax_shorter)

function (sequential) clause_loop :: "tok list \<Rightarrow> object_def \<Rightarrow> object_def" where
  "clause_loop [] def = def"
| "clause_loop (Assign # ts) def = def"
| "clause_loop (Ident k # ts) def = (case parse_clause k ts def of (def', r) \<Rightarrow> clause_loop r def')"
| "clause_loop (t # ts) def = clause_loop ts def"
  by pat_completeness auto
termination
  by (relation "measure (\<lambda>(ts, d). length ts)") (auto dest: parse_clause_shorter [OF sym] simp: less_Suc_eq_le)

fun find_oid_assignment :: "tok list \<Rightarrow> int \<Rightarrow> (comp list \<times> tok list) option" where
  "find_oid_assignment [] depth = None"
| "find_oid_assignment (t # ts) depth =
     (if t = Assign \<and> depth = 0 then
        (case (if take 1 ts = [LBrace] then parse_oid_body (drop 1 ts) else None) of
           Some x \<Rightarrow> Some x
         | None \<Rightarrow> find_oid_assignment ts depth)
      else find_oid_assignment ts (if t = LBrace then depth + 1 else if t = RBrace then depth - 1 else depth))"

lemma find_oid_assignment_shorter: "find_oid_assignment ts d = Some (spec, r) \<Longrightarrow> length r < length ts"
proof (induction ts arbitrary: d)
  case (Cons t ts)
  then show ?case by (fastforce dest: parse_oid_body_shorter split: if_splits option.splits)
qed simp

text \<open>The places where an object is defined: its name and the tokens behind the macro keyword.\<close>

definition DEF_KEYWORDS :: "string list" where
  "DEF_KEYWORDS = [''OBJECT-TYPE'', ''OBJECT-IDENTITY'', ''NOTIFICATION-TYPE'']"

function (sequential) object_sites :: "tok list \<Rightarrow> (string \<times> tok list) list" where
  "object_sites [] = []"
| "object_sites (Ident name # ts) =
     (if first_ident ts = Some ''MACRO'' then object_sites (skip_to_end (tl ts))
      else if first_ident ts \<in> Some ` set DEF_KEYWORDS then
        (name, tl ts) # object_sites (case find_oid_assignment (tl ts) 0 of Some (spec, r) \<Rightarrow> r | None \<Rightarrow> tl ts)
      else object_sites ts)"
| "object_sites (t # ts) = object_sites ts"
  by pat_completeness auto
termination
proof (relation "measure length", goal_cases)
  case (2 name ts)
  then show ?case using skip_to_end_shorter [of "tl ts"] by (auto simp: less_Suc_eq_le)
next
  case (3 name ts)
  have "length (tl ts) < Suc (length ts)" by (simp add: less_Suc_eq_le)
  then show ?case by (auto dest: find_oid_assignment_shorter split: option.splits)
qed auto

section \<open>Textual conventions\<close>

text \<open>
  One clause of a textual convention, what follows it, and whether it was the syntax; \<^const>\<open>None\<close> when
  the token starts no readable clause.
\<close>

definition tc_clause :: "tok list \<Rightarrow> textual_convention \<Rightarrow> (textual_convention \<times> tok list \<times> bool) option" where
  "tc_clause ts tc =
     (let r = drop 1 ts
      in if is_word ''DISPLAY-HINT'' ts then
           map_option (\<lambda>s. (tc\<lparr>tc_display_hint := Some s\<rparr>, drop 1 r, False)) (first_string r)
         else if is_word ''STATUS'' ts then map_option (\<lambda>s. (tc\<lparr>tc_status := parse_status s\<rparr>, drop 1 r, False)) (first_ident r)
         else if is_word ''DESCRIPTION'' ts then
           map_option (\<lambda>s. (tc\<lparr>tc_description := Some s\<rparr>, drop 1 r, False)) (first_string r)
         else if is_word ''REFERENCE'' ts then
           map_option (\<lambda>s. (tc\<lparr>tc_reference := Some s\<rparr>, drop 1 r, False)) (first_string r)
         else if is_word ''SYNTAX'' ts then map_option (\<lambda>(syn, _, next). (tc\<lparr>tc_base := syn\<rparr>, next, True)) (parse_syntax r)
         else None)"

lemma is_word_Cons: "is_word w ts \<Longrightarrow> ts \<noteq> []"
  by (auto simp: is_word_def first_ident_def)

lemma tc_clause_shorter: "tc_clause ts tc = Some (tc', r, b) \<Longrightarrow> length r < length ts"
  unfolding tc_clause_def Let_def
  by (cases ts) (auto simp: is_word_def first_ident_def less_Suc_eq_le dest: parse_syntax_shorter split: if_splits)

function tc_loop :: "tok list \<Rightarrow> bool \<Rightarrow> textual_convention \<Rightarrow> textual_convention" where
  "tc_loop ts done tc =
     (if ts = [] then tc
      else case tc_clause ts tc of
        Some (tc', r, b) \<Rightarrow> tc_loop r (done \<or> b) tc'
      | None \<Rightarrow> if done then tc else tc_loop (drop 1 ts) done tc)"
  by pat_completeness auto
termination
  by (relation "measure (\<lambda>(ts, b, tc). length ts)") (auto dest: tc_clause_shorter)

declare tc_loop.simps [simp del]

definition parse_one_tc :: "string \<Rightarrow> tok list \<Rightarrow> textual_convention" where
  "parse_one_tc name body =
     tc_loop body False \<lparr>tc_name = name, tc_base = Base IntegerT None, tc_display_hint = None, tc_status = Current,
       tc_description = None, tc_reference = None\<rparr>"

fun skip_to_syntax_end :: "tok list \<Rightarrow> tok list" where
  "skip_to_syntax_end [] = []"
| "skip_to_syntax_end (t # ts) =
     (case (if is_word ''SYNTAX'' (t # ts) then parse_syntax ts else None) of
        Some (_, _, next) \<Rightarrow> next
      | None \<Rightarrow> if t = Assign then ts else skip_to_syntax_end ts)"

lemma skip_to_syntax_end_shorter: "length (skip_to_syntax_end ts) \<le> length ts"
  by (induction ts) (auto dest: parse_syntax_shorter split: option.splits if_splits)

definition tc_body :: "tok list \<Rightarrow> tok list option" where
  "tc_body ts =
     (if take 1 ts = [Assign] \<and> is_word ''TEXTUAL-CONVENTION'' (drop 1 ts) then Some (drop 2 ts)
      else if is_word ''TEXTUAL-CONVENTION'' ts then Some (drop 1 ts)
      else None)"

lemma tc_skip_shorter: "tc_body ts = Some body \<Longrightarrow> length (skip_to_syntax_end body) \<le> length ts"
  using skip_to_syntax_end_shorter [of body] by (auto simp: tc_body_def split: if_splits)

function (sequential) parse_tc_loop :: "tok list \<Rightarrow> textual_convention list" where
  "parse_tc_loop [] = []"
| "parse_tc_loop (Ident name # ts) =
     (case tc_body ts of
        Some body \<Rightarrow> parse_one_tc name body # parse_tc_loop (skip_to_syntax_end body)
      | None \<Rightarrow> parse_tc_loop ts)"
| "parse_tc_loop (t # ts) = parse_tc_loop ts"
  by pat_completeness auto
termination
  by (relation "measure length") (auto simp: less_Suc_eq_le tc_skip_shorter)

definition parse_textual_conventions :: "string \<Rightarrow> textual_convention list" where
  "parse_textual_conventions text = parse_tc_loop (smi_lex text)"

end
