(* ===== verification/Smi_Resolve.thy ===== *)
theory Smi_Resolve
  imports Smi_Parse
begin

text \<open>
  The third stage of the MIB parser (\<^verbatim>\<open>crates/netsnmp/src/smi/resolve.rs\<close>): symbolic parents become
  numeric OIDs by repeated passes over the definitions.  The second resolver, \<open>resolve_inline\<close> of
  \<^verbatim>\<open>parse.rs\<close>, follows names recursively and may not return.  The properties compare both with the
  closure of the definitions.
\<close>

section \<open>The fixed-point resolver\<close>

record smi_object =
  mo_name :: string
  mo_oid :: oid
  mo_enums :: "(i64 \<times> string) list option"

type_synonym bindings = "string \<Rightarrow> oid option"

definition seed_roots :: bindings where
  "seed_roots = map_of [(''iso'', Oid [1]), (''ccitt'', Oid [0]), (''itu'', Oid [0]), (''itu-t'', Oid [0]),
     (''joint-iso-ccitt'', Oid [2]), (''joint-iso-itu-t'', Oid [2])]"

text \<open>The arcs of the components behind the first; a bare name there cannot be resolved.\<close>

fun tail_arcs :: "comp list \<Rightarrow> u32 list option" where
  "tail_arcs [] = Some []"
| "tail_arcs (Number v # cs) = map_option ((#) v) (tail_arcs cs)"
| "tail_arcs (Named n v # cs) = map_option ((#) v) (tail_arcs cs)"
| "tail_arcs (Name n # cs) = None"

definition with_tail :: "u32 list \<Rightarrow> comp list \<Rightarrow> oid option" where
  "with_tail base cs =
     (case tail_arcs cs of
        None \<Rightarrow> None
      | Some t \<Rightarrow> if base @ t = [] then None else Some (Oid (base @ t)))"

definition resolve_one :: "comp list \<Rightarrow> bindings \<Rightarrow> oid option" where
  "resolve_one spec resolved =
     (case spec of
        [] \<Rightarrow> None
      | Number v # cs \<Rightarrow> with_tail [v] cs
      | Named n v # cs \<Rightarrow> with_tail (case resolved n of Some b \<Rightarrow> as_slice b | None \<Rightarrow> [v]) cs
      | Name n # cs \<Rightarrow> (case resolved n of Some b \<Rightarrow> with_tail (as_slice b) cs | None \<Rightarrow> None))"

definition or_insert :: "'k \<Rightarrow> 'v \<Rightarrow> ('k \<Rightarrow> 'v option) \<Rightarrow> 'k \<Rightarrow> 'v option" where
  "or_insert k v m = (if m k = None then m(k \<mapsto> v) else m)"

definition object_of :: "raw_def \<Rightarrow> oid \<Rightarrow> smi_object" where
  "object_of d o1 = \<lparr>mo_name = rd_name d, mo_oid = o1, mo_enums = rd_enums d\<rparr>"

text \<open>One pass: the objects resolved, the definitions still pending, and the names known afterwards.\<close>

fun resolve_pass :: "raw_def list \<Rightarrow> bindings \<Rightarrow> smi_object list \<times> raw_def list \<times> bindings" where
  "resolve_pass [] m = ([], [], m)"
| "resolve_pass (d # ds) m =
     (case resolve_one (rd_spec d) m of
        Some o1 \<Rightarrow> (case resolve_pass ds (or_insert (rd_name d) o1 m) of
                     (objs, pend, m') \<Rightarrow> (object_of d o1 # objs, pend, m'))
      | None \<Rightarrow> (case resolve_pass ds m of (objs, pend, m') \<Rightarrow> (objs, d # pend, m')))"

lemma resolve_pass_length: "resolve_pass ds m = (objs, pend, m') \<Longrightarrow> length objs + length pend = length ds"
  by (induction ds arbitrary: m objs pend m') (auto split: option.splits prod.splits)

function resolve_loop :: "raw_def list \<Rightarrow> bindings \<Rightarrow> smi_object list" where
  "resolve_loop pending m =
     (case resolve_pass pending m of
        (objs, pend, m') \<Rightarrow> if objs = [] \<or> pend = [] then objs else objs @ resolve_loop pend m')"
  by pat_completeness auto
termination
  by (relation "measure (length \<circ> fst)")
    (auto dest!: resolve_pass_length [OF sym] simp flip: length_greater_0_conv)

declare resolve_loop.simps [simp del]

definition resolve_with_seeds :: "raw_def list \<Rightarrow> bindings \<Rightarrow> smi_object list" where
  "resolve_with_seeds defs seeds = resolve_loop defs (seeds ++ seed_roots)"

definition resolve :: "raw_def list \<Rightarrow> smi_object list" where
  "resolve defs = resolve_with_seeds defs Map.empty"

definition parse_text_with_seeds :: "string \<Rightarrow> bindings \<Rightarrow> smi_object list" where
  "parse_text_with_seeds input seeds = resolve_with_seeds (parse_module (smi_lex input)) seeds"

definition parse_text :: "string \<Rightarrow> smi_object list" where
  "parse_text input = resolve (parse_module (smi_lex input))"

section \<open>The recursive resolver\<close>

text \<open>
  \<open>resolve_inline\<close> follows the first name of a specification through the definitions of the text, then
  the well-known roots, then the seeds.  \<^const>\<open>None\<close> is a call that does not return.
\<close>

definition known_head :: "bindings \<Rightarrow> string \<Rightarrow> oid option \<Rightarrow> oid option" where
  "known_head seeds n found =
     (case found of
        Some b \<Rightarrow> Some b
      | None \<Rightarrow> (case seed_roots n of Some b \<Rightarrow> Some b | None \<Rightarrow> seeds n))"

partial_function (option) resolve_inline ::
  "(string \<Rightarrow> comp list option) \<Rightarrow> bindings \<Rightarrow> comp list \<Rightarrow> oid option option" where
  "resolve_inline names seeds spec =
     (case spec of
        [] \<Rightarrow> Some None
      | c # cs \<Rightarrow>
          (case c of
             Number v \<Rightarrow> Some (with_tail [v] cs)
           | Named n v \<Rightarrow> do {
               found \<leftarrow> (case names n of None \<Rightarrow> Some None | Some s \<Rightarrow> resolve_inline names seeds s);
               Some (with_tail (case known_head seeds n found of Some b \<Rightarrow> as_slice b | None \<Rightarrow> [v]) cs)
             }
           | Name n \<Rightarrow> do {
               found \<leftarrow> (case names n of None \<Rightarrow> Some None | Some s \<Rightarrow> resolve_inline names seeds s);
               Some (case known_head seeds n found of Some b \<Rightarrow> with_tail (as_slice b) cs | None \<Rightarrow> None)
             }))"

declare resolve_inline.simps [code]

text \<open>The structured definitions of a text; one that cannot be resolved has the empty OID.\<close>

definition object_def_default :: object_def where
  "object_def_default = \<lparr>od_name = [], od_oid = null_oid, od_syntax = Base IntegerT None, od_units = None,
     od_max_access = NotAccessible, od_status = Current, od_description = None, od_reference = None,
     od_index = None, od_defval = None, od_enums = [], od_module = None\<rparr>"

definition parse_one_object_def ::
  "(string \<Rightarrow> comp list option) \<Rightarrow> bindings \<Rightarrow> string \<Rightarrow> tok list \<Rightarrow> object_def option option" where
  "parse_one_object_def names seeds name body =
     (case find_oid_assignment body 0 of
        None \<Rightarrow> Some None
      | Some (spec, _) \<Rightarrow> do {
          o1 \<leftarrow> resolve_inline names seeds spec;
          Some (Some (clause_loop body
            (object_def_default\<lparr>od_name := name, od_oid := (case o1 of Some x \<Rightarrow> x | None \<Rightarrow> null_oid)\<rparr>)))
        })"

fun collect_defs :: "object_def option option list \<Rightarrow> object_def list option" where
  "collect_defs [] = Some []"
| "collect_defs (r # rs) = do { d \<leftarrow> r; ds \<leftarrow> collect_defs rs; Some (case d of Some x \<Rightarrow> x # ds | None \<Rightarrow> ds) }"

definition parse_object_defs_with_seeds :: "string \<Rightarrow> bindings \<Rightarrow> object_def list option" where
  "parse_object_defs_with_seeds text seeds =
     (let toks = smi_lex text; names = name_map toks
      in collect_defs (map (\<lambda>(name, body). parse_one_object_def names seeds name body) (object_sites toks)))"

section \<open>The closure of the definitions\<close>

text \<open>
  What a set of definitions means over known roots: a definition whose specification is numeric or starts at a
  root has that OID, and one that starts at the name of another definition extends the OID of that one.
\<close>

inductive derived :: "raw_def list \<Rightarrow> bindings \<Rightarrow> raw_def \<Rightarrow> oid \<Rightarrow> bool" for defs roots where
  root: "d \<in> set defs \<Longrightarrow> resolve_one (rd_spec d) roots = Some o1 \<Longrightarrow> derived defs roots d o1"
| extend: "d \<in> set defs \<Longrightarrow> rd_spec d = Name n # cs \<Longrightarrow> roots n = None \<Longrightarrow> derived defs roots e b \<Longrightarrow> rd_name e = n \<Longrightarrow>
    with_tail (as_slice b) cs = Some o1 \<Longrightarrow> derived defs roots d o1"

inductive_cases derivedE: "derived defs roots d o1"

text \<open>
  Definitions with distinct names that are no roots, in which a named number in front is a root or
  not defined at all.
\<close>

definition defs_ok :: "raw_def list \<Rightarrow> bindings \<Rightarrow> bool" where
  "defs_ok defs roots \<longleftrightarrow>
     distinct (map rd_name defs) \<and> list_all (\<lambda>d. roots (rd_name d) = None) defs \<and>
     list_all (\<lambda>d. case rd_spec d of Named n v # _ \<Rightarrow> roots n \<noteq> None \<or> n \<notin> rd_name ` set defs | _ \<Rightarrow> True) defs"

lemma derived_in: "derived defs roots d o1 \<Longrightarrow> d \<in> set defs"
  by (erule derived.cases) auto

lemma defs_ok_name: "defs_ok defs roots \<Longrightarrow> d \<in> set defs \<Longrightarrow> e \<in> set defs \<Longrightarrow> rd_name d = rd_name e \<Longrightarrow> d = e"
  unfolding defs_ok_def using inj_onD [of rd_name "set defs" d e] by (auto simp: distinct_map)

lemma defs_ok_root: "defs_ok defs roots \<Longrightarrow> d \<in> set defs \<Longrightarrow> roots (rd_name d) = None"
  by (simp add: defs_ok_def list_all_iff)

lemma defs_ok_named:
  "defs_ok defs roots \<Longrightarrow> d \<in> set defs \<Longrightarrow> rd_spec d = Named n v # cs \<Longrightarrow> roots n \<noteq> None \<or> n \<notin> rd_name ` set defs"
  by (force simp: defs_ok_def list_all_iff)

text \<open>The names known during the passes: the roots, and what was derived.\<close>

definition sound_names :: "raw_def list \<Rightarrow> bindings \<Rightarrow> bindings \<Rightarrow> bool" where
  "sound_names defs roots m \<longleftrightarrow>
     roots \<subseteq>\<^sub>m m \<and> (\<forall>n o1. m n = Some o1 \<longrightarrow> roots n = None \<longrightarrow> (\<exists>e. derived defs roots e o1 \<and> rd_name e = n))"

lemma sound_names_root: "sound_names defs roots m \<Longrightarrow> roots n = Some b \<Longrightarrow> m n = Some b"
  by (auto simp: sound_names_def map_le_def dom_def)

lemma sound_names_derived: "sound_names defs roots m \<Longrightarrow> m n = Some b \<Longrightarrow> roots n = None \<Longrightarrow> \<exists>e. derived defs roots e b \<and> rd_name e = n"
  by (auto simp: sound_names_def)

lemma derived_by_name:
  assumes "rd_spec d = Name n # cs" and "roots n = None"
  shows "derived defs roots d o1 \<longleftrightarrow>
    d \<in> set defs \<and> (\<exists>e b. derived defs roots e b \<and> rd_name e = n \<and> with_tail (as_slice b) cs = Some o1)"
proof
  assume "derived defs roots d o1"
  then show "d \<in> set defs \<and> (\<exists>e b. derived defs roots e b \<and> rd_name e = n \<and> with_tail (as_slice b) cs = Some o1)"
    by cases (use assms in \<open>auto simp: resolve_one_def\<close>)
qed (use assms in \<open>auto intro: derived.extend\<close>)

lemma derived_at_root:
  assumes "\<nexists>n cs. rd_spec d = Name n # cs \<and> roots n = None"
  shows "derived defs roots d o1 \<longleftrightarrow> d \<in> set defs \<and> resolve_one (rd_spec d) roots = Some o1"
proof
  assume "derived defs roots d o1"
  then show "d \<in> set defs \<and> resolve_one (rd_spec d) roots = Some o1" by cases (use assms in auto)
qed (auto intro: derived.root)

lemma derived_unique:
  assumes "defs_ok defs roots" and "derived defs roots d o1" and "derived defs roots d o2"
  shows "o1 = o2"
  using assms(2,3)
proof (induction arbitrary: o2)
  case (root d o1)
  have "\<nexists>n cs. rd_spec d = Name n # cs \<and> roots n = None" using root.hyps(2) by (auto simp: resolve_one_def)
  from derived_at_root [OF this] root.prems root.hyps(2) show ?case by simp
next
  case (extend d n cs e b o1)
  from derived_by_name [of d n cs roots, OF extend.hyps(2,3)] extend.prems
  obtain e' b' where e': "derived defs roots e' b'" "rd_name e' = n" "with_tail (as_slice b') cs = Some o2" by blast
  have "e' = e" using defs_ok_name [OF assms(1) derived_in [OF e'(1)] derived_in [OF extend.hyps(4)]] e'(2) extend.hyps(5) by simp
  with extend.IH e' have "b = b'" by blast
  with e'(3) extend.hyps(6) show ?case by simp
qed

lemma named_head:
  assumes "defs_ok defs roots" and "sound_names defs roots m" and "d \<in> set defs" and "rd_spec d = Named n v # cs"
  shows "m n = roots n"
proof (cases "roots n")
  case None
  with defs_ok_named [OF assms(1,3,4)] have "n \<notin> rd_name ` set defs" by simp
  with sound_names_derived [OF assms(2) _ None] derived_in have "m n = None" by (cases "m n") blast+
  with None show ?thesis by simp
qed (use sound_names_root [OF assms(2)] in simp)

lemma resolve_one_sound:
  assumes "defs_ok defs roots" and "sound_names defs roots m" and "d \<in> set defs" and "resolve_one (rd_spec d) m = Some o1"
  shows "derived defs roots d o1"
proof (cases "rd_spec d")
  case Nil
  with assms(4) show ?thesis by (simp add: resolve_one_def)
next
  case (Cons c cs)
  show ?thesis
  proof (cases c)
    case (Number v)
    with Cons assms(3,4) show ?thesis by (intro derived.root) (simp_all add: resolve_one_def)
  next
    case (Named n v)
    with named_head [OF assms(1-3)] Cons assms(3,4) show ?thesis by (intro derived.root) (simp_all add: resolve_one_def)
  next
    case (Name n)
    then obtain b where b: "m n = Some b" "with_tail (as_slice b) cs = Some o1"
      using Cons assms(4) by (auto simp: resolve_one_def split: option.splits)
    show ?thesis
    proof (cases "roots n")
      case None
      from sound_names_derived [OF assms(2) b(1) None] show ?thesis
        using derived_by_name [of d n cs roots, OF Cons [unfolded Name] None] assms(3) b(2) by blast
    next
      case (Some r)
      with sound_names_root [OF assms(2) Some] b Cons Name assms(3) show ?thesis
        by (intro derived.root) (simp_all add: resolve_one_def)
    qed
  qed
qed

lemma resolve_one_root:
  assumes "defs_ok defs roots" and "sound_names defs roots m" and "d \<in> set defs" and "resolve_one (rd_spec d) roots = Some o1"
  shows "resolve_one (rd_spec d) m = Some o1"
proof (cases "rd_spec d")
  case (Cons c cs)
  show ?thesis
  proof (cases c)
    case (Named n v)
    with named_head [OF assms(1-3)] Cons assms(4) show ?thesis by (simp add: resolve_one_def)
  next
    case (Name n)
    with Cons assms(4) obtain b where "roots n = Some b" "with_tail (as_slice b) cs = Some o1"
      by (auto simp: resolve_one_def split: option.splits)
    with Cons Name sound_names_root [OF assms(2), of n] show ?thesis by (simp add: resolve_one_def)
  qed (use Cons assms(4) in \<open>simp add: resolve_one_def\<close>)
qed (use assms(4) in \<open>simp add: resolve_one_def\<close>)

text \<open>A pass keeps the names sound, and resolves or keeps each definition.\<close>

lemma sound_names_insert:
  assumes "defs_ok defs roots" and "sound_names defs roots m" and "derived defs roots d o1"
  shows "sound_names defs roots (or_insert (rd_name d) o1 m) \<and> or_insert (rd_name d) o1 m (rd_name d) = Some o1 \<and>
    m \<subseteq>\<^sub>m or_insert (rd_name d) o1 m"
proof -
  have r: "roots (rd_name d) = None" by (rule defs_ok_root [OF assms(1) derived_in [OF assms(3)]])
  show ?thesis
  proof (cases "m (rd_name d)")
    case None
    then have "or_insert (rd_name d) o1 m = m(rd_name d \<mapsto> o1)" by (simp add: or_insert_def)
    with None r assms(2,3) show ?thesis by (auto simp: sound_names_def map_le_def)
  next
    case (Some o2)
    obtain e where e: "derived defs roots e o2" "rd_name e = rd_name d" using sound_names_derived [OF assms(2) Some r] by blast
    then have "e = d" using defs_ok_name [OF assms(1) derived_in derived_in] assms(3) by blast
    with e(1) derived_unique [OF assms(1,3)] Some assms(2) show ?thesis by (auto simp: or_insert_def)
  qed
qed

lemma resolve_pass_spec:
  assumes "defs_ok defs roots" and "sound_names defs roots m" and "set ds \<subseteq> set defs"
    and "resolve_pass ds m = (objs, pend, m')"
  shows "sound_names defs roots m' \<and> m \<subseteq>\<^sub>m m' \<and> set pend \<subseteq> set ds \<and>
    (\<forall>ob\<in>set objs. \<exists>d\<in>set ds. \<exists>o1. derived defs roots d o1 \<and> ob = object_of d o1) \<and>
    (\<forall>d\<in>set ds. d \<in> set pend \<or> (\<exists>o1. derived defs roots d o1 \<and> object_of d o1 \<in> set objs \<and> m' (rd_name d) = Some o1))"
  using assms(2-4)
proof (induction ds arbitrary: m objs pend m')
  case (Cons d ds)
  show ?case
  proof (cases "resolve_one (rd_spec d) m")
    case None
    then obtain pend' where p: "resolve_pass ds m = (objs, pend', m')" "pend = d # pend'"
      using Cons.prems(3) by (auto split: prod.splits)
    from Cons.IH [OF Cons.prems(1) _ p(1)] Cons.prems(2) p(2) show ?thesis by auto
  next
    case (Some o1)
    let ?m = "or_insert (rd_name d) o1 m"
    have d: "derived defs roots d o1" using resolve_one_sound [OF assms(1) Cons.prems(1) _ Some] Cons.prems(2) by simp
    note ins = sound_names_insert [OF assms(1) Cons.prems(1) d]
    from Some obtain objs' where p: "resolve_pass ds ?m = (objs', pend, m')" "objs = object_of d o1 # objs'"
      using Cons.prems(3) by (auto split: prod.splits)
    note IH = Cons.IH [OF conjunct1 [OF ins] _ p(1)]
    have le: "?m \<subseteq>\<^sub>m m'" using IH Cons.prems(2) by simp
    then have "m' (rd_name d) = Some o1" using ins by (auto simp: map_le_def dom_def)
    moreover have "m \<subseteq>\<^sub>m m'" using ins le map_le_trans by blast
    ultimately show ?thesis using IH Cons.prems(2) d p(2) by auto
  qed
qed auto

lemma resolve_pass_stuck:
  "resolve_pass ds m = ([], pend, m') \<Longrightarrow> m' = m \<and> (\<forall>d\<in>set ds. resolve_one (rd_spec d) m = None)"
  by (induction ds arbitrary: pend) (auto split: option.splits prod.splits)

text \<open>When nothing pending can be resolved, nothing pending is derivable.\<close>

lemma stuck_underivable:
  assumes "defs_ok defs roots" and "sound_names defs roots m"
    and "\<forall>d\<in>set defs. d \<in> set ds \<or> (\<exists>o1. m (rd_name d) = Some o1)"
    and "\<forall>d\<in>set ds. resolve_one (rd_spec d) m = None" and "derived defs roots d o1"
  shows "d \<notin> set ds \<and> m (rd_name d) = Some o1"
proof -
  have known: "d \<notin> set ds \<and> m (rd_name d) = Some o1"
    if der: "derived defs roots d o1" and one: "resolve_one (rd_spec d) m = Some o1" for d o1
  proof -
    have d: "d \<notin> set ds" using assms(4) one by auto
    then obtain o2 where o2: "m (rd_name d) = Some o2" using assms(3) derived_in [OF der] by blast
    obtain e where e: "derived defs roots e o2" "rd_name e = rd_name d"
      using sound_names_derived [OF assms(2) o2 defs_ok_root [OF assms(1) derived_in [OF der]]] by blast
    then have "e = d" using defs_ok_name [OF assms(1) derived_in derived_in] der by blast
    then show ?thesis using derived_unique [OF assms(1) der] e(1) o2 d by auto
  qed
  from assms(5) show ?thesis
  proof induction
    case (root d o1)
    then show ?case using known derived.root resolve_one_root [OF assms(1,2)] by blast
  next
    case (extend d n cs e b o1)
    then have "resolve_one (rd_spec d) m = Some o1" by (simp add: resolve_one_def)
    with known derived.extend [OF extend.hyps] show ?case by blast
  qed
qed

lemma resolve_loop_spec:
  assumes "defs_ok defs roots" and "sound_names defs roots m" and "set ds \<subseteq> set defs"
    and "\<forall>d\<in>set defs. d \<in> set ds \<or> (\<exists>o1. m (rd_name d) = Some o1)"
  shows "set (resolve_loop ds m) = {object_of d o1 |d o1. d \<in> set ds \<and> derived defs roots d o1}"
  using assms(2-4)
proof (induction ds m rule: resolve_loop.induct)
  case (1 ds m)
  obtain objs pend m' where p: "resolve_pass ds m = (objs, pend, m')" by (metis prod_cases3)
  note spec = resolve_pass_spec [OF assms(1) "1.prems"(1,2) p]
  have found: "d \<in> set ds \<Longrightarrow> derived defs roots d o1 \<Longrightarrow> d \<in> set pend \<or> object_of d o1 \<in> set objs" for d o1
    using spec derived_unique [OF assms(1), of d o1] by blast
  show ?case
  proof (cases "objs = [] \<or> pend = []")
    case True
    have "d \<in> set pend \<Longrightarrow> \<not> derived defs roots d o1" for d o1
      using True spec resolve_pass_stuck [of ds m pend m'] p stuck_underivable [OF assms(1) "1.prems"(1,3)] by auto
    then have "{object_of d o1 |d o1. d \<in> set ds \<and> derived defs roots d o1} \<subseteq> set objs" using found by blast
    moreover have "set objs \<subseteq> {object_of d o1 |d o1. d \<in> set ds \<and> derived defs roots d o1}" using spec by blast
    moreover have "resolve_loop ds m = objs" using True by (simp add: resolve_loop.simps [of ds m] p)
    ultimately show ?thesis by blast
  next
    case False
    have "\<forall>d\<in>set defs. d \<in> set pend \<or> (\<exists>o1. m' (rd_name d) = Some o1)"
    proof
      fix d assume "d \<in> set defs"
      then consider "d \<in> set ds" | o1 where "m (rd_name d) = Some o1" using "1.prems"(3) by blast
      then show "d \<in> set pend \<or> (\<exists>o1. m' (rd_name d) = Some o1)"
      proof cases
        case 2
        then show ?thesis using spec by (auto simp: map_le_def dom_def)
      qed (use spec in blast)
    qed
    with "1.IH" [OF p [symmetric] refl False] spec "1.prems"(2)
    have "set (resolve_loop pend m') = {object_of d o1 |d o1. d \<in> set pend \<and> derived defs roots d o1}" by blast
    moreover have "resolve_loop ds m = objs @ resolve_loop pend m'" using False by (simp add: resolve_loop.simps [of ds m] p)
    moreover have "set objs \<subseteq> {object_of d o1 |d o1. d \<in> set ds \<and> derived defs roots d o1}" "set pend \<subseteq> set ds"
      using spec by blast+
    moreover have "{object_of d o1 |d o1. d \<in> set ds \<and> derived defs roots d o1} \<subseteq>
        set objs \<union> {object_of d o1 |d o1. d \<in> set pend \<and> derived defs roots d o1}" using found by blast
    moreover have "{object_of d o1 |d o1. d \<in> set pend \<and> derived defs roots d o1} \<subseteq>
        {object_of d o1 |d o1. d \<in> set ds \<and> derived defs roots d o1}" using spec by blast
    ultimately show ?thesis by (intro equalityI) simp_all
  qed
qed

lemma resolve_with_seeds_spec:
  assumes "defs_ok defs (seeds ++ seed_roots)"
  shows "set (resolve_with_seeds defs seeds) = {object_of d o1 |d o1. derived defs (seeds ++ seed_roots) d o1}"
proof -
  have "sound_names defs (seeds ++ seed_roots) (seeds ++ seed_roots)" by (auto simp: sound_names_def)
  from resolve_loop_spec [OF assms this, of defs] derived_in show ?thesis
    unfolding resolve_with_seeds_def by blast
qed

section \<open>The recursive resolver against the closure\<close>

definition spec_table :: "raw_def list \<Rightarrow> string \<Rightarrow> comp list option" where
  "spec_table defs = map_of (map (\<lambda>d. (rd_name d, rd_spec d)) defs)"

lemma spec_table_None: "n \<notin> rd_name ` set defs \<Longrightarrow> spec_table defs n = None"
  by (auto simp: spec_table_def map_of_eq_None_iff)

lemma spec_table_Some: "defs_ok defs roots \<Longrightarrow> d \<in> set defs \<Longrightarrow> spec_table defs (rd_name d) = Some (rd_spec d)"
  by (simp add: spec_table_def defs_ok_def distinct_map comp_def)

lemma known_head_None: "known_head seeds n None = (seeds ++ seed_roots) n"
  by (simp add: known_head_def map_add_def split: option.splits)

lemma resolve_inline_derived:
  assumes "defs_ok defs (seeds ++ seed_roots)" and "\<And>n. n \<notin> rd_name ` set defs \<Longrightarrow> seeds' n = seeds n"
    and "derived defs (seeds ++ seed_roots) d o1"
  shows "resolve_inline (spec_table defs) seeds' (rd_spec d) = Some (Some o1)"
  using assms(3)
proof induction
  case (root d o1)
  let ?roots = "seeds ++ seed_roots"
  have foreign: "?roots n \<noteq> None \<Longrightarrow> n \<notin> rd_name ` set defs" for n
    using defs_ok_root [OF assms(1)] by auto
  have head: "known_head seeds' n None = ?roots n" if "n \<notin> rd_name ` set defs" for n
    using assms(2) [OF that] by (simp add: known_head_None map_add_def split: option.split)
  obtain c cs where spec: "rd_spec d = c # cs" using root.hyps(2) by (cases "rd_spec d") (auto simp: resolve_one_def)
  show ?case
  proof (cases c)
    case (Number v)
    with root.hyps(2) spec show ?thesis by (simp add: resolve_inline.simps resolve_one_def)
  next
    case (Named n v)
    then have n: "n \<notin> rd_name ` set defs"
      using defs_ok_named [OF assms(1) root.hyps(1) spec [unfolded Named]] foreign [of n] by argo
    with Named root.hyps(2) spec show ?thesis
      by (simp add: resolve_inline.simps resolve_one_def head [OF n] spec_table_None)
  next
    case (Name n)
    with root.hyps(2) spec have "?roots n \<noteq> None"
      by (auto simp: resolve_one_def simp del: map_add_None split: option.splits)
    then have n: "n \<notin> rd_name ` set defs" by (rule foreign)
    with Name root.hyps(2) spec show ?thesis
      by (simp add: resolve_inline.simps resolve_one_def head [OF n] spec_table_None split: option.splits)
  qed
next
  case (extend d n cs e b o1)
  have "spec_table defs n = Some (rd_spec e)" using spec_table_Some [OF assms(1) derived_in [OF extend.hyps(4)]] extend.hyps(5) by simp
  with extend show ?case by (simp add: resolve_inline.simps [of _ _ "Name n # cs"] known_head_def)
qed

lemma resolve_loop_length: "length (resolve_loop ds m) \<le> length ds"
proof (induction ds m rule: resolve_loop.induct)
  case (1 ds m)
  obtain objs pend m' where p: "resolve_pass ds m = (objs, pend, m')" by (metis prod_cases3)
  with "1.IH" [OF p [symmetric] refl] resolve_pass_length [OF p] show ?case by (subst resolve_loop.simps) (auto simp: p)
qed

lemma resolve_with_seeds_length:
  assumes "defs_ok defs (seeds ++ seed_roots)" and "\<forall>d\<in>set defs. \<exists>o1. derived defs (seeds ++ seed_roots) d o1"
  shows "length (resolve_with_seeds defs seeds) = length defs"
proof (rule antisym)
  show "length (resolve_with_seeds defs seeds) \<le> length defs"
    by (simp add: resolve_with_seeds_def resolve_loop_length)
  have "rd_name ` set defs \<subseteq> mo_name ` set (resolve_with_seeds defs seeds)"
    unfolding resolve_with_seeds_spec [OF assms(1)] using assms(2) by (force simp: object_of_def image_iff)
  then have "card (rd_name ` set defs) \<le> card (mo_name ` set (resolve_with_seeds defs seeds))"
    by (rule card_mono [rotated]) simp
  also have "\<dots> \<le> length (resolve_with_seeds defs seeds)"
    by (rule le_trans [OF card_image_le card_length]) simp
  finally show "length defs \<le> length (resolve_with_seeds defs seeds)"
    using assms(1) distinct_card [of "map rd_name defs"] by (simp add: defs_ok_def)
qed

fun head_name :: "comp list \<Rightarrow> string option" where
  "head_name (Name n # cs) = Some n"
| "head_name (Named n v # cs) = Some n"
| "head_name cs = None"

text \<open>Names each of which starts at a name of the set again.\<close>

definition cyclic_names :: "(string \<Rightarrow> comp list option) \<Rightarrow> string set \<Rightarrow> bool" where
  "cyclic_names names S \<longleftrightarrow> (\<forall>n\<in>S. \<exists>s n'. names n = Some s \<and> head_name s = Some n' \<and> n' \<in> S)"

lemma resolve_inline_cyclic:
  assumes "cyclic_names names S" and "resolve_inline names seeds spec = Some r"
  shows "head_name spec = Some n \<Longrightarrow> n \<notin> S"
proof -
  have "cyclic_names names S \<longrightarrow> (\<forall>n. head_name spec = Some n \<longrightarrow> n \<notin> S)"
  proof (rule resolve_inline.raw_induct [OF _ assms(2)], intro impI allI notI)
    fix rec names seeds spec r n
    assume IH: "\<And>names seeds spec r. rec names seeds spec = Some r \<Longrightarrow>
        cyclic_names names S \<longrightarrow> (\<forall>n. head_name spec = Some n \<longrightarrow> n \<notin> S)"
      and body: "(case spec of
        [] \<Rightarrow> Some None
      | c # cs \<Rightarrow>
          (case c of
             Number v \<Rightarrow> Some (with_tail [v] cs)
           | Name n \<Rightarrow> do {
               found \<leftarrow> (case names n of None \<Rightarrow> Some None | Some s \<Rightarrow> rec names seeds s);
               Some (case known_head seeds n found of None \<Rightarrow> None | Some b \<Rightarrow> with_tail (as_slice b) cs)
             }
           | Named n v \<Rightarrow> do {
               found \<leftarrow> (case names n of None \<Rightarrow> Some None | Some s \<Rightarrow> rec names seeds s);
               Some (with_tail (case known_head seeds n found of None \<Rightarrow> [v] | Some b \<Rightarrow> as_slice b) cs)
             })) = Some r"
      and cyc: "cyclic_names names S" and head: "head_name spec = Some n" and n: "n \<in> S"
    obtain s n' where s: "names n = Some s" "head_name s = Some n'" "n' \<in> S"
      using cyc n by (auto simp: cyclic_names_def)
    from head obtain c cs where "spec = c # cs" "c = Name n \<or> (\<exists>v. c = Named n v)" by (cases spec rule: head_name.cases) auto
    with body s(1) obtain found where "rec names seeds s = Some found" by (cases "rec names seeds s") auto
    from IH [OF this] cyc s show False by blast
  qed
  then show "head_name spec = Some n \<Longrightarrow> n \<notin> S" using assms(1) by blast
qed

end
