(* ===== verification/Snmp_Mib.thy ===== *)
theory Snmp_Mib
  imports Smi_Resolve Snmp_Pdu
begin

text \<open>
  The MIB registry (\<^verbatim>\<open>crates/netsnmp/src/mib.rs\<close>): names and OIDs in both directions, enumerations,
  object definitions and textual conventions, loaded from MIB text through the three stages of the
  parser; translation and formatting of OIDs, and the validation of values.
\<close>

section \<open>The registry\<close>

datatype constraint_error =
    UnknownObject oid
  | WrongObjectType string string
  | OutOfRange i64
  | WrongObjectSize nat

record mib_registry =
  mr_by_name :: "(string, oid) btree_map"
  mr_by_oid :: "(oid, string) btree_map"
  mr_enums :: "(oid, (i64 \<times> string) list) btree_map"
  mr_object_defs :: "(oid, object_def) btree_map"
  mr_tcs :: "(string, textual_convention) btree_map"
  mr_module_of :: "(oid, string) btree_map"

definition mib_new :: mib_registry where
  "mib_new = \<lparr>mr_by_name = [], mr_by_oid = [], mr_enums = [], mr_object_defs = [], mr_tcs = [], mr_module_of = []\<rparr>"

definition mib_insert :: "string \<Rightarrow> oid \<Rightarrow> mib_registry \<Rightarrow> mib_registry" where
  "mib_insert name o1 r =
     r\<lparr>mr_by_name := btm_insert name o1 (mr_by_name r), mr_by_oid := btm_insert o1 name (mr_by_oid r)\<rparr>"

definition BUILTINS :: "(string \<times> string) list" where
  "BUILTINS =
    [(''iso'', ''1''), (''org'', ''1.3''), (''dod'', ''1.3.6''), (''internet'', ''1.3.6.1''),
     (''directory'', ''1.3.6.1.1''), (''mgmt'', ''1.3.6.1.2''), (''mib-2'', ''1.3.6.1.2.1''),
     (''system'', ''1.3.6.1.2.1.1''), (''sysDescr'', ''1.3.6.1.2.1.1.1''),
     (''sysObjectID'', ''1.3.6.1.2.1.1.2''), (''sysUpTime'', ''1.3.6.1.2.1.1.3''),
     (''sysContact'', ''1.3.6.1.2.1.1.4''), (''sysName'', ''1.3.6.1.2.1.1.5''),
     (''sysLocation'', ''1.3.6.1.2.1.1.6''), (''sysServices'', ''1.3.6.1.2.1.1.7''),
     (''interfaces'', ''1.3.6.1.2.1.2''), (''ifNumber'', ''1.3.6.1.2.1.2.1''),
     (''ifTable'', ''1.3.6.1.2.1.2.2''), (''ifEntry'', ''1.3.6.1.2.1.2.2.1''),
     (''ifIndex'', ''1.3.6.1.2.1.2.2.1.1''), (''ifDescr'', ''1.3.6.1.2.1.2.2.1.2''),
     (''ifType'', ''1.3.6.1.2.1.2.2.1.3''), (''ifMtu'', ''1.3.6.1.2.1.2.2.1.4''),
     (''ifSpeed'', ''1.3.6.1.2.1.2.2.1.5''), (''ifPhysAddress'', ''1.3.6.1.2.1.2.2.1.6''),
     (''ifOperStatus'', ''1.3.6.1.2.1.2.2.1.8''), (''ifInOctets'', ''1.3.6.1.2.1.2.2.1.10''),
     (''ifOutOctets'', ''1.3.6.1.2.1.2.2.1.16''), (''ip'', ''1.3.6.1.2.1.4''), (''icmp'', ''1.3.6.1.2.1.5''),
     (''tcp'', ''1.3.6.1.2.1.6''), (''udp'', ''1.3.6.1.2.1.7''), (''snmp'', ''1.3.6.1.2.1.11''),
     (''host'', ''1.3.6.1.2.1.25''), (''hrSystemUptime'', ''1.3.6.1.2.1.25.1.1''),
     (''hrStorageTable'', ''1.3.6.1.2.1.25.2.3''), (''private'', ''1.3.6.1.4''),
     (''enterprises'', ''1.3.6.1.4.1''), (''netSnmp'', ''1.3.6.1.4.1.8072'')]"

text \<open>The texts of the built-in OIDs parse, so the \<^verbatim>\<open>expect\<close> of the source never panics.\<close>

definition builtin_oid :: "string \<Rightarrow> oid" where
  "builtin_oid s = (case oid_from_str s of Ok o1 \<Rightarrow> o1 | Err _ \<Rightarrow> null_oid)"

definition with_builtins :: mib_registry where
  "with_builtins = fold (\<lambda>(name, s). mib_insert name (builtin_oid s)) BUILTINS mib_new"

definition insert_enum :: "oid \<Rightarrow> (i64 \<times> string) list \<Rightarrow> mib_registry \<Rightarrow> mib_registry" where
  "insert_enum o1 pairs r = (if pairs \<noteq> [] then r\<lparr>mr_enums := btm_insert o1 pairs (mr_enums r)\<rparr> else r)"

definition btm_or_insert :: "'k::linorder \<Rightarrow> 'v \<Rightarrow> ('k, 'v) btree_map \<Rightarrow> ('k, 'v) btree_map" where
  "btm_or_insert k v m = (if btm_contains m k then m else btm_insert k v m)"

definition register_object :: "smi_object \<Rightarrow> mib_registry \<Rightarrow> mib_registry" where
  "register_object ob r =
     (let r = r\<lparr>mr_by_name := btm_or_insert (mo_name ob) (mo_oid ob) (mr_by_name r),
                mr_by_oid := btm_or_insert (mo_oid ob) (mo_name ob) (mr_by_oid r)\<rparr>
      in case mo_enums ob of Some pairs \<Rightarrow> insert_enum (mo_oid ob) pairs r | None \<Rightarrow> r)"

definition add_objects :: "smi_object list \<Rightarrow> mib_registry \<Rightarrow> nat \<times> mib_registry" where
  "add_objects obs r = (length obs, fold register_object obs r)"

section \<open>Loading\<close>

fun module_name_of :: "tok list \<Rightarrow> string option" where
  "module_name_of (Ident name # Ident kw # ts) =
     (if eq_ignore_ascii_case kw ''DEFINITIONS'' \<and> name \<noteq> [] then Some name else module_name_of (Ident kw # ts))"
| "module_name_of (t # ts) = module_name_of ts"
| "module_name_of [] = None"

definition ingest_def :: "string option \<Rightarrow> object_def \<Rightarrow> mib_registry \<Rightarrow> mib_registry" where
  "ingest_def module def r =
     (if oid_is_empty (od_oid def) then r
      else
        (let def = (if module \<noteq> None then def\<lparr>od_module := module\<rparr> else def);
             r = (case module of
                    Some m \<Rightarrow> r\<lparr>mr_module_of := btm_or_insert (od_oid def) m (mr_module_of r)\<rparr>
                  | None \<Rightarrow> r)
         in r\<lparr>mr_object_defs := btm_or_insert (od_oid def) def (mr_object_defs r)\<rparr>))"

definition ingest_semantic :: "string \<Rightarrow> mib_registry \<Rightarrow> mib_registry option" where
  "ingest_semantic text r = do {
     defs \<leftarrow> parse_object_defs_with_seeds text (btm_get (mr_by_name r));
     Some (fold (\<lambda>tc r. r\<lparr>mr_tcs := btm_or_insert (tc_name tc) tc (mr_tcs r)\<rparr>) (parse_textual_conventions text)
       (fold (ingest_def (module_name_of (smi_lex text))) defs r))
   }"

text \<open>\<^const>\<open>None\<close> is a load that does not return.\<close>

definition load_str :: "string \<Rightarrow> mib_registry \<Rightarrow> (nat \<times> mib_registry) option" where
  "load_str text r =
     (case add_objects (parse_text_with_seeds text (btm_get (mr_by_name r))) r of
        (added, r') \<Rightarrow> do { r'' \<leftarrow> ingest_semantic text r'; Some (added, r'') })"

text \<open>A directory is the list of its entries: file names, and the text of a file that can be read.\<close>

definition file_extension :: "string \<Rightarrow> string option" where
  "file_extension name =
     (if CHR ''.'' \<in> set (drop 1 name) then Some (rev (takeWhile (\<lambda>c. c \<noteq> CHR ''.'') (rev name))) else None)"

definition load_dir :: "(string \<times> string option) list \<Rightarrow> mib_registry \<Rightarrow> (nat \<times> mib_registry) option" where
  "load_dir entries r =
     (let chosen = filter (\<lambda>(f, _). file_extension f \<in> {Some ''txt'', Some ''mib'', Some ''MIB''}) entries;
          texts = List.map_filter snd (sort_key fst chosen)
      in load_str (concat (map (\<lambda>t. t @ [CHR 0x0A]) texts)) r)"

section \<open>Names\<close>

definition name_to_oid :: "mib_registry \<Rightarrow> string \<Rightarrow> oid option" where
  "name_to_oid r name = btm_get (mr_by_name r) name"

definition oid_to_name :: "mib_registry \<Rightarrow> oid \<Rightarrow> string option" where
  "oid_to_name r o1 = btm_get (mr_by_oid r) o1"

fun suffix_arcs :: "string list \<Rightarrow> u32 list option" where
  "suffix_arcs [] = Some []"
| "suffix_arcs (t # ts) =
     (case parse_unsigned 32 t of None \<Rightarrow> None | Some n \<Rightarrow> map_option ((#) (word_of_nat n)) (suffix_arcs ts))"

definition translate :: "mib_registry \<Rightarrow> string \<Rightarrow> oid option" where
  "translate r input0 =
     (let input = trim_start_matches CHR ''.'' (trim input0)
      in if input \<noteq> [] \<and> is_ascii_digit (hd input) then
           (case oid_from_str input of Ok o1 \<Rightarrow> Some o1 | Err _ \<Rightarrow> None)
         else
           (let (name, suffix) = (case split_once CHR ''.'' input of Some (n, s) \<Rightarrow> (n, Some s) | None \<Rightarrow> (input, None))
            in case name_to_oid r name of
                 None \<Rightarrow> None
               | Some base \<Rightarrow>
                   (case suffix of
                      None \<Rightarrow> Some base
                    | Some s \<Rightarrow> map_option (\<lambda>t. Oid (as_slice base @ t)) (suffix_arcs (split_on CHR ''.'' s)))))"

fun longer_prefix :: "oid \<Rightarrow> (oid \<times> string) \<Rightarrow> (oid \<times> string) option \<Rightarrow> (oid \<times> string) option" where
  "longer_prefix o1 (cand, name) best =
     (if is_prefix_of cand o1
      then (case best of
              Some (b, _) \<Rightarrow> if oid_len b \<ge> oid_len cand then best else Some (cand, name)
            | None \<Rightarrow> Some (cand, name))
      else best)"

definition longest_prefix :: "mib_registry \<Rightarrow> oid \<Rightarrow> (oid \<times> string) option" where
  "longest_prefix r o1 = fold (longer_prefix o1) (mr_by_oid r) None"

definition render_with_suffix :: "string \<Rightarrow> oid \<Rightarrow> nat \<Rightarrow> string" where
  "render_with_suffix name o1 n =
     (if n \<ge> length (as_slice o1) then name
      else name @ ''.'' @ join_with ''.'' (map (\<lambda>a. show_nat (unat a)) (drop n (as_slice o1))))"

definition format_oid :: "mib_registry \<Rightarrow> oid \<Rightarrow> string" where
  "format_oid r o1 =
     (case longest_prefix r o1 of
        Some (p, name) \<Rightarrow> if oid_len p \<le> oid_len o1 then render_with_suffix name o1 (oid_len p) else display_oid o1
      | None \<Rightarrow> display_oid o1)"

definition qualified_name :: "mib_registry \<Rightarrow> oid \<Rightarrow> string" where
  "qualified_name r o1 =
     (case (btm_get (mr_module_of r) o1, btm_get (mr_by_oid r) o1) of
        (Some m, Some n) \<Rightarrow> m @ ''::'' @ n
      | _ \<Rightarrow> format_oid r o1)"

definition short_name :: "mib_registry \<Rightarrow> oid \<Rightarrow> string" where
  "short_name r o1 =
     (case longest_prefix r o1 of
        Some (p, name) \<Rightarrow> if oid_len p \<le> oid_len o1 then render_with_suffix name o1 (oid_len p) else display_oid o1
      | None \<Rightarrow> display_oid o1)"

definition suffix_name :: "mib_registry \<Rightarrow> oid \<Rightarrow> string" where
  "suffix_name r o1 =
     (case longest_prefix r o1 of
        Some (p, name) \<Rightarrow>
          if oid_len p \<le> oid_len o1 then render_with_suffix (last (split_on CHR ''.'' name)) o1 (oid_len p) else display_oid o1
      | None \<Rightarrow> display_oid o1)"

section \<open>Values\<close>

definition parent_oid :: "oid \<Rightarrow> oid option" where
  "parent_oid o1 = (if length (as_slice o1) \<le> 1 then None else Some (Oid (butlast (as_slice o1))))"

definition candidates :: "oid \<Rightarrow> oid list" where
  "candidates o1 = o1 # (case parent_oid o1 of Some p \<Rightarrow> [p] | None \<Rightarrow> [])"

definition enum_label :: "mib_registry \<Rightarrow> oid \<Rightarrow> i64 \<Rightarrow> string option" where
  "enum_label r cand n =
     (case btm_get (mr_enums r) cand of
        None \<Rightarrow> None
      | Some pairs \<Rightarrow> map_option snd (List.find (\<lambda>(v, _). v = n) pairs))"

definition format_value :: "mib_registry \<Rightarrow> oid \<Rightarrow> value \<Rightarrow> string" where
  "format_value r o1 v =
     (case v of
        Integer n \<Rightarrow>
          (case List.map_filter (\<lambda>cand. enum_label r cand n) (candidates o1) of
             label # _ \<Rightarrow> ''INTEGER: '' @ label @ ''('' @ show_int (sint n) @ '')''
           | [] \<Rightarrow> display_value v)
      | _ \<Rightarrow> display_value v)"

definition lookup_def :: "mib_registry \<Rightarrow> oid \<Rightarrow> object_def option" where
  "lookup_def r o1 =
     (case List.map_filter (btm_get (mr_object_defs r)) (candidates o1) of d # _ \<Rightarrow> Some d | [] \<Rightarrow> None)"

definition mib_is_writable :: "mib_registry \<Rightarrow> oid \<Rightarrow> bool" where
  "mib_is_writable r o1 =
     (case lookup_def r o1 of Some d \<Rightarrow> od_max_access d \<in> {AccReadWrite, AccReadCreate} | None \<Rightarrow> False)"

definition merge_constraints :: "constraint option \<Rightarrow> constraint option \<Rightarrow> constraint option" where
  "merge_constraints a b =
     (case (a, b) of
        (Some a, Some b) \<Rightarrow> Some \<lparr>ct_ranges = ct_ranges a @ ct_ranges b, ct_sizes = ct_sizes a @ ct_sizes b\<rparr>
      | (None, b) \<Rightarrow> b
      | (a, None) \<Rightarrow> a)"

text \<open>A textual convention that refers to itself is followed forever.\<close>

partial_function (option) effective_syntax ::
  "(string \<Rightarrow> textual_convention option) \<Rightarrow> smi_syntax \<Rightarrow> (base_type \<times> constraint option) option" where
  "effective_syntax tcs syn =
     (case syn of
        Base bt c \<Rightarrow> Some (bt, c)
      | Tc name c \<Rightarrow>
          (case tcs name of
             Some tc \<Rightarrow> do { b \<leftarrow> effective_syntax tcs (tc_base tc); Some (fst b, merge_constraints (snd b) c) }
           | None \<Rightarrow> Some (IntegerT, c))
      | SequenceT \<Rightarrow> Some (NullT, None))"

fun base_type_label :: "base_type \<Rightarrow> string" where
  "base_type_label IntegerT = ''INTEGER''"
| "base_type_label OctetStringT = ''OCTET STRING''"
| "base_type_label OidT = ''OBJECT IDENTIFIER''"
| "base_type_label IpAddressT = ''IpAddress''"
| "base_type_label Counter32T = ''Counter32''"
| "base_type_label Gauge32T = ''Gauge32''"
| "base_type_label TimeTicksT = ''TimeTicks''"
| "base_type_label OpaqueT = ''Opaque''"
| "base_type_label Counter64T = ''Counter64''"
| "base_type_label NullT = ''NULL''"
| "base_type_label Unsigned32T = ''Unsigned32''"

definition syntax_compatible :: "base_type \<Rightarrow> value \<Rightarrow> bool" where
  "syntax_compatible bt v =
     (case v of
        Integer _ \<Rightarrow> bt = IntegerT
      | OctetString b \<Rightarrow> bt = OctetStringT \<or> bt = IpAddressT \<and> length b = 4
      | OidValue _ \<Rightarrow> bt = OidT
      | IpAddress _ \<Rightarrow> bt = IpAddressT
      | Counter32 _ \<Rightarrow> bt = Counter32T
      | Gauge32 _ \<Rightarrow> bt = Gauge32T \<or> bt = Unsigned32T
      | TimeTicks _ \<Rightarrow> bt = TimeTicksT
      | Opaque _ \<Rightarrow> bt = OpaqueT
      | Counter64 _ \<Rightarrow> bt = Counter64T
      | Null \<Rightarrow> bt = NullT
      | _ \<Rightarrow> False)"

definition check_constraint :: "constraint option \<Rightarrow> value \<Rightarrow> (unit, constraint_error) result" where
  "check_constraint c v =
     (case (c, v) of
        (Some c, Integer n) \<Rightarrow> if check_int c n then Ok () else Err (OutOfRange n)
      | (Some c, OctetString b) \<Rightarrow> if check_size c (length b) then Ok () else Err (WrongObjectSize (length b))
      | _ \<Rightarrow> Ok ())"

definition validate_value :: "mib_registry \<Rightarrow> oid \<Rightarrow> value \<Rightarrow> (unit, constraint_error) result option" where
  "validate_value r o1 v =
     (case lookup_def r o1 of
        None \<Rightarrow> Some (Err (UnknownObject o1))
      | Some d \<Rightarrow> do {
          b \<leftarrow> effective_syntax (btm_get (mr_tcs r)) (od_syntax d);
          Some (if \<not> syntax_compatible (fst b) v then Err (WrongObjectType (base_type_label (fst b)) (type_name v))
                else check_constraint (snd b) v)
        })"

section \<open>Adding objects\<close>

lemma btm_get_or_insert:
  "btm_get (btm_or_insert k v m) n = (case btm_get m n of Some x \<Rightarrow> Some x | None \<Rightarrow> if n = k then Some v else None)"
  by (auto simp: btm_or_insert_def btm_contains_get btm_get_insert split: option.splits)

lemma set_btm_insert: "set (btm_insert k v m) \<subseteq> insert (k, v) (set m)"
  by (induction k v m rule: btm_insert.induct) auto

lemma set_btm_or_insert: "set (btm_or_insert k v m) \<subseteq> insert (k, v) (set m)"
  using set_btm_insert [of k v m] by (auto simp: btm_or_insert_def)

lemma add_object_names:
  "mr_by_name (register_object ob r) = btm_or_insert (mo_name ob) (mo_oid ob) (mr_by_name r)"
  "mr_by_oid (register_object ob r) = btm_or_insert (mo_oid ob) (mo_name ob) (mr_by_oid r)"
  by (auto simp: register_object_def insert_enum_def Let_def split: option.splits)

lemma by_name_add_objects:
  "btm_get (mr_by_name (fold register_object obs r)) n =
     (case btm_get (mr_by_name r) n of
        Some x \<Rightarrow> Some x
      | None \<Rightarrow> map_of (map (\<lambda>ob. (mo_name ob, mo_oid ob)) obs) n)"
proof (induction obs arbitrary: r)
  case (Cons ob obs)
  show ?case by (simp add: Cons.IH add_object_names btm_get_or_insert split: option.splits)
qed (simp split: option.splits)

lemma by_oid_add_objects:
  "set (mr_by_oid (fold register_object obs r)) \<subseteq> set (mr_by_oid r) \<union> (\<lambda>ob. (mo_oid ob, mo_name ob)) ` set obs"
proof (induction obs arbitrary: r)
  case (Cons ob obs)
  show ?case
    using Cons.IH [of "register_object ob r"] set_btm_or_insert [of "mo_oid ob" "mo_name ob" "mr_by_oid r"]
    by (auto simp: add_object_names)
qed simp

lemma ingest_def_names [simp]:
  "mr_by_name (ingest_def m d r) = mr_by_name r" "mr_by_oid (ingest_def m d r) = mr_by_oid r"
  by (simp_all add: ingest_def_def Let_def split: option.splits)

lemma fold_keeps: "(\<And>x r. f (g x r) = f r) \<Longrightarrow> f (fold g xs r) = f r"
  by (induction xs arbitrary: r) simp_all

lemma ingest_semantic_names:
  "ingest_semantic text r = Some r' \<Longrightarrow> mr_by_name r' = mr_by_name r \<and> mr_by_oid r' = mr_by_oid r"
  by (auto simp: ingest_semantic_def fold_keeps [of mr_by_name] fold_keeps [of mr_by_oid] split: bind_splits)

section \<open>Formatting and translating\<close>

definition plain_name :: "string \<Rightarrow> bool" where
  "plain_name n \<longleftrightarrow>
     n \<noteq> [] \<and> CHR ''.'' \<notin> set n \<and> \<not> is_ascii_digit (hd n) \<and> is_graph_char (hd n) \<and> is_graph_char (last n)"

text \<open>Every name of an OID is a name for that OID.\<close>

definition names_consistent :: "mib_registry \<Rightarrow> bool" where
  "names_consistent r \<longleftrightarrow>
     list_all (\<lambda>(o1, n). plain_name n \<and> btm_get (mr_by_name r) n = Some o1) (mr_by_oid r)"

lemma fold_longer_prefix:
  assumes "fold (longer_prefix o1) es best = Some (p, n)"
  shows "best = Some (p, n) \<or> (p, n) \<in> set es \<and> is_prefix_of p o1"
  using assms
proof (induction es arbitrary: best)
  case (Cons e es)
  obtain cand name where e: "e = (cand, name)" by fastforce
  from Cons.IH [of "longer_prefix o1 e best"] Cons.prems show ?case
    by (auto simp: e split: if_splits option.splits)
qed simp

lemma longest_prefix_Some:
  "longest_prefix r o1 = Some (p, n) \<Longrightarrow> (p, n) \<in> set (mr_by_oid r) \<and> is_prefix_of p o1"
  unfolding longest_prefix_def using fold_longer_prefix [of o1 "mr_by_oid r" None p n] by simp

lemma split_on_join:
  "xs \<noteq> [] \<Longrightarrow> \<forall>x\<in>set xs. c \<notin> set x \<Longrightarrow> split_on c (join_with [c] xs) = xs"
  by (induction "[c]" xs rule: join_with.induct) (auto simp: split_on_free split_on_append)

definition dotted :: "u32 list \<Rightarrow> string" where
  "dotted as = join_with ''.'' (map (\<lambda>a. show_nat (unat a)) as)"

lemma dotted_simps:
  "dotted [a] = show_nat (unat a)" "as \<noteq> [] \<Longrightarrow> dotted (a # as) = show_nat (unat a) @ CHR ''.'' # dotted as"
  by (auto simp: dotted_def neq_Nil_conv)

lemma dotted_ends: "as \<noteq> [] \<Longrightarrow> dotted as \<noteq> [] \<and> is_ascii_digit (hd (dotted as)) \<and> is_ascii_digit (last (dotted as))"
proof (induction as)
  case (Cons a as)
  have d: "is_ascii_digit (hd (show_nat (unat a)))" "is_ascii_digit (last (show_nat (unat a)))"
    by (rule show_nat_digits [of _ "unat a"], simp)+
  show ?case
  proof (cases "as = []")
    case False
    with Cons.IH d show ?thesis by (simp add: dotted_simps)
  qed (use d in \<open>simp add: dotted_simps\<close>)
qed simp

lemma suffix_arcs_dotted: "as \<noteq> [] \<Longrightarrow> suffix_arcs (split_on CHR ''.'' (dotted as)) = Some as"
proof -
  assume as: "as \<noteq> []"
  have "\<forall>x\<in>set (map (\<lambda>a. show_nat (unat a)) as). CHR ''.'' \<notin> set x"
    using show_nat_digits dot_not_digit by auto
  then have "split_on CHR ''.'' (dotted as) = map (\<lambda>a. show_nat (unat a)) as"
    unfolding dotted_def using as by (intro split_on_join) auto
  moreover have "suffix_arcs (map (\<lambda>a. show_nat (unat a)) as) = Some as"
  proof (induction as)
    case (Cons a as)
    have "unat a < 2 ^ 32" using unsigned_less [of a, where 'a = nat] by simp
    with Cons show ?case by (simp add: parse_unsigned_show)
  qed simp
  ultimately show ?thesis by simp
qed

lemma display_dotted: "as_slice o1 \<noteq> [] \<Longrightarrow> display_oid o1 = CHR ''.'' # dotted (as_slice o1)"
proof -
  have "as \<noteq> [] \<Longrightarrow> concat (map (\<lambda>part. CHR ''.'' # show_nat (unat part)) as) = CHR ''.'' # dotted as" for as
  proof (induction as)
    case (Cons a as)
    then show ?case by (cases "as = []") (simp_all add: dotted_simps)
  qed simp
  then show "as_slice o1 \<noteq> [] \<Longrightarrow> ?thesis" by (simp add: display_oid_def)
qed

lemma digit_graph: "is_ascii_digit c \<Longrightarrow> is_graph_char c \<and> c \<noteq> CHR ''.''"
  using digit_not_special by blast

lemma trim_start_matches_other: "s = [] \<or> hd s \<noteq> c \<Longrightarrow> trim_start_matches c s = s"
  by (cases s) auto

lemma translate_display:
  assumes "as_slice o1 \<noteq> []"
  shows "translate r (display_oid o1) = Some o1"
proof -
  let ?d = "dotted (as_slice o1)"
  note ends = dotted_ends [OF assms] digit_graph
  have trims: "trim (display_oid o1) = CHR ''.'' # ?d" "trim ?d = ?d" "trim_start_matches CHR ''.'' ?d = ?d"
    using ends by (auto simp: display_dotted [OF assms] is_graph_char_def intro!: trim_graph trim_start_matches_other)
  then have "oid_from_str ?d = oid_from_str (display_oid o1)" by (simp add: oid_from_str_def)
  with trims ends show ?thesis by (simp add: translate_def oid_parse_display)
qed

lemma translate_rendered:
  assumes "plain_name n" and "name_to_oid r n = Some p" and "is_prefix_of p o1"
  shows "translate r (render_with_suffix n o1 (oid_len p)) = Some o1"
proof -
  obtain t where t: "as_slice o1 = as_slice p @ t" using assms(3) by (auto simp: is_prefix_of_iff)
  have n: "n \<noteq> []" "CHR ''.'' \<notin> set n" "\<not> is_ascii_digit (hd n)" "is_graph_char (hd n)" "is_graph_char (last n)"
    using assms(1) by (simp_all add: plain_name_def)
  then have hd: "hd n \<noteq> CHR ''.''" using hd_in_set [of n] by metis
  show ?thesis
  proof (cases "t = []")
    case True
    with t have "o1 = p" by (auto intro: oid.expand)
    moreover have "trim n = n" "trim_start_matches CHR ''.'' n = n"
      using n hd by (auto intro: trim_graph trim_start_matches_other)
    ultimately show ?thesis
      using n assms(2) by (simp add: render_with_suffix_def oid_len_def translate_def split_once_free)
  next
    case False
    let ?s = "n @ CHR ''.'' # dotted t"
    note ends = dotted_ends [OF False]
    have "trim ?s = ?s" "trim_start_matches CHR ''.'' ?s = ?s"
      using n hd ends digit_graph by (auto intro!: trim_graph trim_start_matches_other)
    moreover have "render_with_suffix n o1 (oid_len p) = ?s"
      using False by (simp add: render_with_suffix_def oid_len_def t dotted_def)
    ultimately show ?thesis
      using n assms(2) suffix_arcs_dotted [OF False] t
      by (simp add: translate_def split_once_append oid.expand)
  qed
qed

text \<open>C30: The symbolic form of an OID is read back to the same OID, for every OID but the empty one and every
  registry in which the name of an OID is bound to that OID: the longest known name with the
  remaining arcs behind it, or the dotted notation when no name is a prefix.\<close>

theorem translate_format_oid:
  assumes "names_consistent r" and "as_slice o1 \<noteq> []"
  shows "translate r (format_oid r o1) = Some o1"
proof (cases "longest_prefix r o1")
  case None
  then show ?thesis using translate_display [OF assms(2)] by (simp add: format_oid_def)
next
  case (Some pn)
  obtain p n where pn: "pn = (p, n)" by fastforce
  from longest_prefix_Some [OF Some [unfolded pn]] have p: "(p, n) \<in> set (mr_by_oid r)" "is_prefix_of p o1" by simp_all
  with assms(1) have "plain_name n" "name_to_oid r n = Some p"
    by (auto simp: names_consistent_def list_all_iff name_to_oid_def)
  from translate_rendered [OF this p(2)] p(2) Some pn show ?thesis
    by (simp add: format_oid_def is_prefix_of_def oid_len_def)
qed

theorem translate_format_oid_witness:
  "translate (mib_insert ''dod'' (Oid [1, 3, 6]) mib_new) (format_oid (mib_insert ''dod'' (Oid [1, 3, 6]) mib_new) (Oid [1, 3, 6, 1])) =
     Some (Oid [1, 3, 6, 1]) \<and> format_oid (mib_insert ''dod'' (Oid [1, 3, 6]) mib_new) (Oid [1, 3, 6, 1]) = ''dod.1''"
proof -
  have one: "char_of (49 :: nat) = CHR ''1''" by code_simp
  show ?thesis
    using translate_format_oid [of "mib_insert ''dod'' (Oid [1, 3, 6]) mib_new" "Oid [1, 3, 6, 1]"]
    by (simp add: names_consistent_def mib_insert_def mib_new_def plain_name_def is_ascii_digit_def is_graph_char_def one
        format_oid_def longest_prefix_def is_prefix_of_def oid_len_def render_with_suffix_def show_nat.simps digit_char_def)
qed

text \<open>
  Where two objects share a name, the first keeps it but both print it: the text of the second is
  read back as the first.
\<close>

lemma shared_name_misread:
  "let r = snd (add_objects [\<lparr>mo_name = ''x'', mo_oid = Oid [1, 1], mo_enums = None\<rparr>,
                             \<lparr>mo_name = ''x'', mo_oid = Oid [1, 2], mo_enums = None\<rparr>] mib_new)
   in format_oid r (Oid [1, 2]) = ''x'' \<and> translate r ''x'' = Some (Oid [1, 1])"
proof -
  have "trim ''x'' = ''x''" by (rule trim_graph) (simp add: is_graph_char_def)
  then show ?thesis
    by (simp add: add_objects_def register_object_def mib_new_def btm_or_insert_def btm_contains_def less_oid_def Let_def
        format_oid_def longest_prefix_def is_prefix_of_def oid_len_def render_with_suffix_def translate_def
        is_ascii_digit_def name_to_oid_def)
qed

section \<open>Typing of values\<close>

text \<open>
  What a syntax stands for: following the textual conventions gives a base type and the
  constraints met on the way.  A circle of conventions stands for nothing.
\<close>

inductive stands_for :: "(string \<Rightarrow> textual_convention option) \<Rightarrow> smi_syntax \<Rightarrow> base_type \<Rightarrow> constraint list \<Rightarrow> bool"
  for tcs where
  base: "stands_for tcs (Base bt c) bt (case c of Some x \<Rightarrow> [x] | None \<Rightarrow> [])"
| unknown: "tcs name = None \<Longrightarrow> stands_for tcs (Tc name c) IntegerT (case c of Some x \<Rightarrow> [x] | None \<Rightarrow> [])"
| convention: "tcs name = Some tc \<Longrightarrow> stands_for tcs (tc_base tc) bt cs \<Longrightarrow>
    stands_for tcs (Tc name c) bt (cs @ (case c of Some x \<Rightarrow> [x] | None \<Rightarrow> []))"
| sequence: "stands_for tcs SequenceT NullT []"

definition merged_constraint :: "constraint list \<Rightarrow> constraint option" where
  "merged_constraint cs = (if cs = [] then None
     else Some \<lparr>ct_ranges = concat (map ct_ranges cs), ct_sizes = concat (map ct_sizes cs)\<rparr>)"

lemma merge_merged: "merge_constraints (merged_constraint cs) c = merged_constraint (cs @ (case c of Some x \<Rightarrow> [x] | None \<Rightarrow> []))"
  by (cases cs; cases c) (auto simp: merge_constraints_def merged_constraint_def)

lemma merged_single: "merged_constraint (case c of Some x \<Rightarrow> [x] | None \<Rightarrow> []) = c"
  by (cases c) (simp_all add: merged_constraint_def)

lemma effective_syntax_complete:
  "stands_for tcs syn bt cs \<Longrightarrow> effective_syntax tcs syn = Some (bt, merged_constraint cs)"
proof (induction rule: stands_for.induct)
  case (base bt c)
  then show ?case using merged_single [of c] by (simp add: effective_syntax.simps)
next
  case (unknown name c)
  then show ?case using merged_single [of c] by (simp add: effective_syntax.simps)
next
  case (convention name tc bt cs c)
  then show ?case by (simp add: effective_syntax.simps [of _ "Tc name c"] merge_merged)
next
  case sequence
  then show ?case by (simp add: effective_syntax.simps merged_constraint_def)
qed

lemma effective_syntax_sound:
  assumes "effective_syntax tcs syn = Some b"
  shows "\<exists>cs. stands_for tcs syn (fst b) cs \<and> snd b = merged_constraint cs"
proof (rule effective_syntax.raw_induct [OF _ assms])
  fix rec tcs syn b
  assume IH: "\<And>tcs syn b. rec tcs syn = Some b \<Longrightarrow> \<exists>cs. stands_for tcs syn (fst b) cs \<and> snd b = merged_constraint cs"
    and body: "(case syn of
        Base bt c \<Rightarrow> Some (bt, c)
      | Tc name c \<Rightarrow>
          (case tcs name of
             None \<Rightarrow> Some (IntegerT, c)
           | Some tc \<Rightarrow> do { b \<leftarrow> rec tcs (tc_base tc); Some (fst b, merge_constraints (snd b) c) })
      | SequenceT \<Rightarrow> Some (NullT, None)) = Some b"
  show "\<exists>cs. stands_for tcs syn (fst b) cs \<and> snd b = merged_constraint cs"
  proof (cases syn)
    case (Base bt c)
    with body stands_for.base [of tcs bt c] merged_single [of c] show ?thesis by auto
  next
    case (Tc name c)
    show ?thesis
    proof (cases "tcs name")
      case None
      with Tc body stands_for.unknown [of tcs name c] merged_single [of c] show ?thesis by auto
    next
      case (Some tc)
      with Tc body obtain b' where b': "rec tcs (tc_base tc) = Some b'" "b = (fst b', merge_constraints (snd b') c)"
        by (auto split: bind_splits)
      from IH [OF b'(1)] obtain cs where "stands_for tcs (tc_base tc) (fst b') cs" "snd b' = merged_constraint cs" by blast
      with stands_for.convention [of tcs name tc "fst b'" cs c] Some Tc b'(2) merge_merged [of cs c]
      have "stands_for tcs syn (fst b) (cs @ (case c of Some x \<Rightarrow> [x] | None \<Rightarrow> []))"
        "snd b = merged_constraint (cs @ (case c of Some x \<Rightarrow> [x] | None \<Rightarrow> []))" by simp_all
      then show ?thesis by blast
    qed
  next
    case SequenceT
    with body have "b = (NullT, merged_constraint [])" by (simp add: merged_constraint_def)
    with SequenceT stands_for.sequence [of tcs] show ?thesis by auto
  qed
qed

lemma effective_syntax_iff:
  "effective_syntax tcs syn = Some (bt, c) \<longleftrightarrow> (\<exists>cs. stands_for tcs syn bt cs \<and> c = merged_constraint cs)"
  using effective_syntax_complete effective_syntax_sound by fastforce

text \<open>A number lies in one of the ranges on the way, if there are any; likewise the length of a string.\<close>

definition in_range :: "i64 \<Rightarrow> i64 option \<times> i64 option \<Rightarrow> bool" where
  "in_range n b \<longleftrightarrow> pred_option (\<lambda>l. sint l \<le> sint n) (fst b) \<and> pred_option (\<lambda>h. sint n \<le> sint h) (snd b)"

fun admitted :: "constraint list \<Rightarrow> value \<Rightarrow> bool" where
  "admitted cs (Integer n) =
     (list_all (\<lambda>c. ct_ranges c = []) cs \<or> list_ex (\<lambda>c. list_ex (in_range n) (ct_ranges c)) cs)"
| "admitted cs (OctetString b) =
     (list_all (\<lambda>c. ct_sizes c = []) cs \<or> list_ex (\<lambda>c. list_ex (\<lambda>(lo, hi). lo \<le> length b \<and> length b \<le> hi) (ct_sizes c)) cs)"
| "admitted cs v = True"

lemma check_constraint_merged: "check_constraint (merged_constraint cs) v = Ok () \<longleftrightarrow> admitted cs v"
proof (cases v)
  case (Integer n)
  have range: "(\<lambda>(lo, hi). (case lo of None \<Rightarrow> True | Some l \<Rightarrow> sint l \<le> sint n) \<and>
      (case hi of None \<Rightarrow> True | Some h \<Rightarrow> sint n \<le> sint h)) = in_range n"
  proof
    fix b :: "i64 option \<times> i64 option"
    show "(case b of (lo, hi) \<Rightarrow> (case lo of None \<Rightarrow> True | Some l \<Rightarrow> sint l \<le> sint n) \<and>
      (case hi of None \<Rightarrow> True | Some h \<Rightarrow> sint n \<le> sint h)) = in_range n b"
      by (cases b; cases "fst b"; cases "snd b") (simp_all add: in_range_def)
  qed
  have "check_constraint (merged_constraint cs) v = Ok () \<longleftrightarrow> cs = [] \<or>
      concat (map ct_ranges cs) = [] \<or> list_ex (in_range n) (concat (map ct_ranges cs))"
    by (simp add: Integer check_constraint_def merged_constraint_def check_int_def range)
  also have "\<dots> \<longleftrightarrow> admitted cs v"
    by (auto simp: Integer list_all_iff list_ex_iff)
  finally show ?thesis .
next
  case (OctetString b)
  have "check_constraint (merged_constraint cs) v = Ok () \<longleftrightarrow> cs = [] \<or>
      concat (map ct_sizes cs) = [] \<or> list_ex (\<lambda>(lo, hi). lo \<le> length b \<and> length b \<le> hi) (concat (map ct_sizes cs))"
    by (simp add: OctetString check_constraint_def merged_constraint_def check_size_def)
  also have "\<dots> \<longleftrightarrow> admitted cs v"
    by (auto simp: OctetString list_all_iff list_ex_iff)
  finally show ?thesis .
qed (simp_all add: check_constraint_def split: option.splits)

text \<open>Conventions whose bases lead from one to the next inside the set, and so never to a base type.\<close>

definition convention_circle :: "(string \<Rightarrow> textual_convention option) \<Rightarrow> string set \<Rightarrow> bool" where
  "convention_circle tcs S \<longleftrightarrow> (\<forall>n\<in>S. \<exists>tc n' c'. tcs n = Some tc \<and> tc_base tc = Tc n' c' \<and> n' \<in> S)"

lemma circle_stands_for_nothing:
  assumes "stands_for tcs syn bt cs" and "convention_circle tcs S" and "syn = Tc n c"
  shows "n \<notin> S"
  using assms
proof (induction arbitrary: n c rule: stands_for.induct)
  case (convention name tc)
  show ?case
  proof
    assume "n \<in> S"
    then obtain n' c' where "tc_base tc = Tc n' c'" "n' \<in> S"
      using convention.prems convention.hyps(1) by (auto simp: convention_circle_def)
    then show False using convention.IH convention.prems(1) by blast
  qed
qed (auto simp: convention_circle_def)

lemma effective_syntax_None:
  "effective_syntax tcs syn = None \<longleftrightarrow> (\<exists>n c S. syn = Tc n c \<and> n \<in> S \<and> convention_circle tcs S)"
proof -
  let ?S = "{n. \<nexists>c bt cs. stands_for tcs (Tc n c) bt cs}"
  have none: "effective_syntax tcs syn = None \<longleftrightarrow> (\<nexists>bt cs. stands_for tcs syn bt cs)"
    using effective_syntax_iff [of tcs syn] by (metis not_None_eq surj_pair)
  have any: "\<exists>bt cs. stands_for tcs (Tc n c') bt cs" if "stands_for tcs (Tc n c) bt cs" for n c c' bt cs
    using that by cases (auto intro: stands_for.intros)
  have dead: "\<exists>n c. syn = Tc n c \<and> n \<in> ?S" if "\<nexists>bt cs. stands_for tcs syn bt cs" for syn
  proof (cases syn)
    case (Tc n c)
    then have "n \<in> ?S" using that any [of n] by blast
    with Tc show ?thesis by blast
  qed (use that stands_for.base stands_for.sequence in blast)+
  have circle: "convention_circle tcs ?S"
    unfolding convention_circle_def
  proof
    fix n assume n: "n \<in> ?S"
    then obtain tc where tc: "tcs n = Some tc" using stands_for.unknown [of tcs n] by (cases "tcs n") blast+
    have "\<nexists>bt cs. stands_for tcs (tc_base tc) bt cs" using n stands_for.convention [of tcs n tc] tc by blast
    from dead [OF this] obtain n' c' where "tc_base tc = Tc n' c'" "n' \<in> ?S" by blast
    with tc show "\<exists>tc n' c'. tcs n = Some tc \<and> tc_base tc = Tc n' c' \<and> n' \<in> ?S" by blast
  qed
  show ?thesis
  proof
    assume "effective_syntax tcs syn = None"
    then have "\<nexists>bt cs. stands_for tcs syn bt cs" by (simp only: none) simp
    from dead [OF this] obtain n c where "syn = Tc n c" "n \<in> ?S" by blast
    with circle show "\<exists>n c S. syn = Tc n c \<and> n \<in> S \<and> convention_circle tcs S" by (intro exI [of _ ?S] exI conjI)
  next
    assume "\<exists>n c S. syn = Tc n c \<and> n \<in> S \<and> convention_circle tcs S"
    then show "effective_syntax tcs syn = None"
      unfolding none using circle_stands_for_nothing by metis
  qed
qed

lemma validate_value_accepts:
  "validate_value r o1 v = Some (Ok ()) \<longleftrightarrow>
     (\<exists>d bt cs. lookup_def r o1 = Some d \<and> stands_for (btm_get (mr_tcs r)) (od_syntax d) bt cs \<and>
        syntax_compatible bt v \<and> admitted cs v)"
proof (cases "lookup_def r o1")
  case (Some d)
  show ?thesis
  proof (cases "effective_syntax (btm_get (mr_tcs r)) (od_syntax d)")
    case None
    then show ?thesis using Some effective_syntax_complete by (fastforce simp: validate_value_def)
  next
    case (Some b)
    then obtain bt c where b: "effective_syntax (btm_get (mr_tcs r)) (od_syntax d) = Some (bt, c)" by (cases b) auto
    then obtain cs where cs: "stands_for (btm_get (mr_tcs r)) (od_syntax d) bt cs" "c = merged_constraint cs"
      by (auto simp: effective_syntax_iff)
    have same: "bt' = bt \<and> (admitted cs' v \<longleftrightarrow> admitted cs v)"
      if "stands_for (btm_get (mr_tcs r)) (od_syntax d) bt' cs'" for bt' cs'
    proof -
      have "bt' = bt" "merged_constraint cs' = merged_constraint cs" using effective_syntax_complete [OF that] b cs(2) by simp_all
      then show ?thesis unfolding check_constraint_merged [symmetric] by simp
    qed
    have "validate_value r o1 v = Some (Ok ()) \<longleftrightarrow> syntax_compatible bt v \<and> admitted cs v"
      using \<open>lookup_def r o1 = Some d\<close> b cs(2) check_constraint_merged [of cs v] by (simp add: validate_value_def)
    also have "\<dots> \<longleftrightarrow> (\<exists>bt cs. stands_for (btm_get (mr_tcs r)) (od_syntax d) bt cs \<and> syntax_compatible bt v \<and> admitted cs v)"
      using same cs(1) by blast
    finally show ?thesis by (simp add: \<open>lookup_def r o1 = Some d\<close>)
  qed
qed (simp add: validate_value_def)

text \<open>C31: A value passes the validation for an OID exactly when the OID or its parent has a definition, the syntax of the
  definition stands for a base type through finitely many textual conventions, the value has
  that base type, and its number or length lies in one of the ranges of the syntax or of the
  conventions behind it (their union), if there are any.  An OID without a definition is refused as unknown.
  The validation does not return at all exactly when the syntax names a convention in a circle.\<close>

theorem validate_value_typed:
  "(validate_value r o1 v = Some (Ok ()) \<longleftrightarrow>
     (\<exists>d bt cs. lookup_def r o1 = Some d \<and> stands_for (btm_get (mr_tcs r)) (od_syntax d) bt cs \<and>
        syntax_compatible bt v \<and> admitted cs v)) \<and>
   (validate_value r o1 v = Some (Err (UnknownObject o1)) \<longleftrightarrow> lookup_def r o1 = None) \<and>
   (validate_value r o1 v = None \<longleftrightarrow>
     (\<exists>d n c S. lookup_def r o1 = Some d \<and> od_syntax d = Tc n c \<and> n \<in> S \<and> convention_circle (btm_get (mr_tcs r)) S))"
proof (intro conjI validate_value_accepts)
  show "validate_value r o1 v = Some (Err (UnknownObject o1)) \<longleftrightarrow> lookup_def r o1 = None"
    by (auto simp: validate_value_def check_constraint_def split: option.splits bind_splits snmp_value.splits if_splits)
  show "validate_value r o1 v = None \<longleftrightarrow>
     (\<exists>d n c S. lookup_def r o1 = Some d \<and> od_syntax d = Tc n c \<and> n \<in> S \<and> convention_circle (btm_get (mr_tcs r)) S)"
    using effective_syntax_None [of "btm_get (mr_tcs r)"]
    by (cases "lookup_def r o1") (auto simp: validate_value_def bind_eq_None_conv)
qed

end
