(* ===== verification/Smi_Module.thy ===== *)
theory Smi_Module
  imports Snmp_Mib
begin

text \<open>
  Loading a MIB module: the printed text of a list of definitions goes through the tokenizer, the scan, the
  resolver and the registry, and every name is bound to the OID the definitions give it.  Definitions
  in a circle make the load never return.
\<close>

section \<open>The text of a module\<close>

fun comp_toks :: "comp \<Rightarrow> tok list" where
  "comp_toks (Number v) = [NumLit (ucast v)]"
| "comp_toks (Name n) = [Ident n]"
| "comp_toks (Named n v) = [Ident n, LParen, NumLit (ucast v), RParen]"

fun enum_toks :: "(i64 \<times> string) list \<Rightarrow> tok list" where
  "enum_toks [] = []"
| "enum_toks [(v, n)] = [Ident n, LParen, NumLit v, RParen]"
| "enum_toks ((v, n) # e # es) = [Ident n, LParen, NumLit v, RParen, Comma] @ enum_toks (e # es)"

definition spec_toks :: "comp list \<Rightarrow> tok list" where
  "spec_toks cs = concat (map comp_toks cs)"

definition def_toks :: "raw_def \<Rightarrow> tok list" where
  "def_toks d =
     (case rd_enums d of
        None \<Rightarrow> [Ident (rd_name d), Ident ''OBJECT'', Ident ''IDENTIFIER'', Assign, LBrace] @ spec_toks (rd_spec d) @ [RBrace]
      | Some es \<Rightarrow>
          [Ident (rd_name d), Ident ''OBJECT-TYPE'', Ident ''SYNTAX'', Ident ''INTEGER'', LBrace] @ enum_toks es @
          [RBrace, Ident ''MAX-ACCESS'', Ident ''read-only'', Ident ''STATUS'', Ident ''current'', Assign, LBrace] @
          spec_toks (rd_spec d) @ [RBrace])"

definition module_toks :: "string \<Rightarrow> raw_def list \<Rightarrow> tok list" where
  "module_toks m defs =
     [Ident m, Ident ''DEFINITIONS'', Assign, Ident ''BEGIN''] @ concat (map def_toks defs) @ [Ident ''END'']"

definition module_text :: "string \<Rightarrow> raw_def list \<Rightarrow> string" where
  "module_text m defs = smi_text (module_toks m defs)"

text \<open>Words that are no keywords of the scan.\<close>

definition plain_word :: "string \<Rightarrow> bool" where
  "plain_word w \<longleftrightarrow> ident_word w \<and> w \<noteq> ''MACRO'' \<and> w \<noteq> ''OBJECT'' \<and> w \<notin> set MACRO_KEYWORDS"

fun comp_ok :: "comp \<Rightarrow> bool" where
  "comp_ok (Number v) = True"
| "comp_ok (Name n) = plain_word n"
| "comp_ok (Named n v) = plain_word n"

definition def_ok :: "raw_def \<Rightarrow> bool" where
  "def_ok d \<longleftrightarrow>
     plain_word (rd_name d) \<and> list_all comp_ok (rd_spec d) \<and>
     (case rd_enums d of None \<Rightarrow> True | Some es \<Rightarrow> es \<noteq> [] \<and> list_all (\<lambda>(v, n). 0 \<le> sint v \<and> ident_word n) es)"

section \<open>Scanning the text\<close>

lemma sint_ucast_u32: "0 \<le> sint (ucast (v :: u32) :: i64)"
  using bit_imp_le_length [of v 63] by (auto simp: signed_ucast_eq signed_take_bit_eq_if_positive bit_simps)

lemma num_arc_ucast [simp]: "num_arc (ucast v) = v"
proof -
  have "ucast (ucast v :: i64) = v" by (rule bit_word_eqI) (simp add: bit_simps)
  with sint_ucast_u32 [of v] show ?thesis by (simp add: num_arc_def not_less)
qed

lemma paren_number_simps [simp]:
  "paren_number [] = None" "t \<noteq> LParen \<Longrightarrow> paren_number (t # ts) = None"
  "paren_number (LParen # NumLit v # RParen # r) = Some (v, r)"
  by (auto simp: paren_number_def split: list.splits tok.splits)

lemma spec_toks_simps [simp]: "spec_toks [] = []" "spec_toks (c # cs) = comp_toks c @ spec_toks cs"
  by (simp_all add: spec_toks_def)

lemma paren_number_spec [simp]: "paren_number (spec_toks cs @ RBrace # r) = None"
proof (cases cs)
  case (Cons c cs')
  then show ?thesis by (cases c) simp_all
qed simp

lemma parse_oid_body_toks [simp]: "parse_oid_body (spec_toks cs @ RBrace # r) = Some (cs, r)"
proof (induction cs)
  case (Cons c cs)
  then show ?case by (cases c) simp_all
qed simp

lemma parse_enum_body_toks: "es \<noteq> [] \<Longrightarrow> parse_enum_body (enum_toks es @ RBrace # r) = Some (es, r)"
  by (induction es rule: enum_toks.induct) (simp_all add: parse_enum_body.simps enum_entry_def)

lemma object_identifier_other [simp]: "first_ident ts \<noteq> Some ''OBJECT'' \<Longrightarrow> object_identifier ts = None"
  by (cases ts) (auto simp: object_identifier_def first_ident_def)

lemma first_ident_simps [simp]:
  "first_ident [] = None" "first_ident (Ident s # ts) = Some s" "first_ident (NumLit v # ts) = None"
  "first_ident (LParen # ts) = None" "first_ident (RBrace # ts) = None" "first_ident (LBrace # ts) = None"
  "first_ident (Assign # ts) = None"
  by (simp_all add: first_ident_def)

lemma object_identifier_simps [simp]:
  "object_identifier (Ident ''OBJECT'' # Ident ''IDENTIFIER'' # Assign # LBrace # r) = parse_oid_body r"
  "object_identifier (Ident ''OBJECT'' # Ident ''IDENTIFIER'' # Assign # []) = None"
  by (simp_all add: object_identifier_def)

lemma macro_keywords_simps [simp]:
  "''OBJECT'' \<notin> set MACRO_KEYWORDS" "''IDENTIFIER'' \<notin> set MACRO_KEYWORDS" "''INTEGER'' \<notin> set MACRO_KEYWORDS"
  "''SYNTAX'' \<notin> set MACRO_KEYWORDS"
  "''read-only'' \<notin> set MACRO_KEYWORDS" "''STATUS'' \<notin> set MACRO_KEYWORDS" "''current'' \<notin> set MACRO_KEYWORDS"
  "''DEFINITIONS'' \<notin> set MACRO_KEYWORDS" "''END'' \<notin> set MACRO_KEYWORDS" "''OBJECT-TYPE'' \<in> set MACRO_KEYWORDS"
  by (simp_all add: MACRO_KEYWORDS_def)

lemma parse_module_one:
  assumes "def_ok d"
  shows "parse_module_loop (def_toks d @ r) None None = d # parse_module_loop r None None"
proof (cases "rd_enums d")
  case None
  then show ?thesis by (cases d) (simp add: def_toks_def image_iff)
next
  case (Some es)
  with assms have "es \<noteq> []" by (simp add: def_ok_def)
  with Some show ?thesis by (cases d) (simp add: def_toks_def image_iff parse_enum_body_toks)
qed

lemma parse_module_defs:
  "list_all def_ok defs \<Longrightarrow> parse_module_loop (concat (map def_toks defs) @ [Ident ''END'']) None None = defs"
  by (induction defs) (simp_all add: parse_module_one)

lemma first_ident_defs:
  "list_all def_ok defs \<Longrightarrow> \<exists>w. first_ident (concat (map def_toks defs) @ [Ident ''END'']) = Some w \<and>
     w \<noteq> ''MACRO'' \<and> w \<noteq> ''OBJECT'' \<and> w \<notin> set MACRO_KEYWORDS"
  by (cases defs) (auto simp: def_toks_def def_ok_def plain_word_def split: option.splits)

lemma parse_module_toks:
  assumes "list_all def_ok defs"
  shows "parse_module (module_toks m defs) = defs"
  using first_ident_defs [OF assms] parse_module_defs [OF assms]
  by (auto simp: parse_module_def module_toks_def image_iff)

lemma name_map_enums [simp]: "name_map_loop (enum_toks es @ RBrace # r) l = name_map_loop r l"
  by (induction es rule: enum_toks.induct) (auto simp: image_iff)

lemma name_map_one:
  assumes "def_ok d"
  shows "name_map_loop (def_toks d @ r) None = (rd_name d, rd_spec d) # name_map_loop r None"
  by (cases "rd_enums d") (simp_all add: def_toks_def image_iff)

lemma name_map_defs:
  "list_all def_ok defs \<Longrightarrow>
     name_map_loop (concat (map def_toks defs) @ [Ident ''END'']) None = map (\<lambda>d. (rd_name d, rd_spec d)) defs"
  by (induction defs) (simp_all add: name_map_one)

lemma name_map_module:
  assumes "list_all def_ok defs"
  shows "name_map (module_toks m defs) = spec_table defs"
  using first_ident_defs [OF assms] name_map_defs [OF assms]
  by (auto simp: name_map_def spec_table_def module_toks_def image_iff)

section \<open>The structured definitions of the text\<close>

lemma def_keywords: "w \<in> set DEF_KEYWORDS \<Longrightarrow> w \<in> set MACRO_KEYWORDS"
  by (auto simp: DEF_KEYWORDS_def MACRO_KEYWORDS_def)

declare object_sites.simps(2) [simp del]

lemma object_sites_plain [simp]:
  "first_ident ts \<noteq> Some ''MACRO'' \<Longrightarrow> first_ident ts \<notin> Some ` set MACRO_KEYWORDS \<Longrightarrow> object_sites (Ident n # ts) = object_sites ts"
  using def_keywords by (cases "first_ident ts") (auto simp: object_sites.simps(2))

lemma object_sites_spec:
  "list_all comp_ok cs \<Longrightarrow> object_sites (spec_toks cs @ RBrace # r) = object_sites r"
proof (induction cs)
  case (Cons c cs)
  have "first_ident (spec_toks cs @ RBrace # r) \<noteq> Some ''MACRO''"
    "first_ident (spec_toks cs @ RBrace # r) \<notin> Some ` set MACRO_KEYWORDS"
  proof -
    consider "cs = []" | c' cs' where "cs = c' # cs'" by (cases cs) auto
    then have "first_ident (spec_toks cs @ RBrace # r) \<noteq> Some ''MACRO'' \<and>
      first_ident (spec_toks cs @ RBrace # r) \<notin> Some ` set MACRO_KEYWORDS"
    proof cases
      case (2 c' cs')
      with Cons.prems show ?thesis by (cases c') (auto simp: plain_word_def)
    qed auto
    then show "first_ident (spec_toks cs @ RBrace # r) \<noteq> Some ''MACRO''"
      "first_ident (spec_toks cs @ RBrace # r) \<notin> Some ` set MACRO_KEYWORDS" by simp_all
  qed
  with Cons show ?case by (cases c) (simp_all add: image_iff)
qed simp

lemma find_oid_assignment_enums [simp]: "find_oid_assignment (enum_toks es @ ts) d = find_oid_assignment ts d"
  by (induction es rule: enum_toks.induct) simp_all

lemma object_sites_one:
  assumes "def_ok d"
  shows "\<exists>S. object_sites (def_toks d @ r) = S @ object_sites r \<and>
    (\<forall>(n, b)\<in>set S. n = rd_name d \<and> (\<exists>r'. find_oid_assignment b 0 = Some (rd_spec d, r')))"
proof (cases "rd_enums d")
  case None
  have "list_all comp_ok (rd_spec d)" using assms by (simp add: def_ok_def)
  with None show ?thesis by (simp add: def_toks_def object_sites_spec image_iff)
next
  case (Some es)
  let ?b = "[Ident ''SYNTAX'', Ident ''INTEGER'', LBrace] @ enum_toks es @
    [RBrace, Ident ''MAX-ACCESS'', Ident ''read-only'', Ident ''STATUS'', Ident ''current'', Assign, LBrace] @
    spec_toks (rd_spec d) @ RBrace # r"
  have f: "find_oid_assignment ?b 0 = Some (rd_spec d, r)" by simp
  have "object_sites (def_toks d @ r) = (rd_name d, ?b) # object_sites r"
    using f by (simp add: def_toks_def Some DEF_KEYWORDS_def object_sites.simps(2))
  with f show ?thesis by (intro exI [of _ "[(rd_name d, ?b)]"]) auto
qed

lemma object_sites_defs:
  "list_all def_ok defs \<Longrightarrow> (n, b) \<in> set (object_sites (concat (map def_toks defs) @ [Ident ''END''])) \<Longrightarrow>
     \<exists>d\<in>set defs. \<exists>r'. find_oid_assignment b 0 = Some (rd_spec d, r')"
proof (induction defs)
  case (Cons d defs)
  obtain S where S: "object_sites (def_toks d @ concat (map def_toks defs) @ [Ident ''END'']) =
      S @ object_sites (concat (map def_toks defs) @ [Ident ''END''])"
    "\<forall>(n, b)\<in>set S. n = rd_name d \<and> (\<exists>r'. find_oid_assignment b 0 = Some (rd_spec d, r'))"
    using object_sites_one [of d "concat (map def_toks defs) @ [Ident ''END'']"] Cons.prems(1) by auto
  with Cons show ?case by auto
qed simp

lemma object_sites_module:
  assumes "list_all def_ok defs"
  shows "object_sites (module_toks m defs) = object_sites (concat (map def_toks defs) @ [Ident ''END''])"
  using first_ident_defs [OF assms] by (auto simp: module_toks_def image_iff)

lemma collect_defs_returns: "\<forall>x\<in>set rs. x \<noteq> None \<Longrightarrow> \<exists>ds. collect_defs rs = Some ds"
  by (induction rs) auto

section \<open>Loading a module\<close>

lemma keyword_words:
  "list_all ident_word [''OBJECT'', ''IDENTIFIER'', ''OBJECT-TYPE'', ''SYNTAX'', ''INTEGER'', ''MAX-ACCESS'', ''read-only'',
     ''STATUS'', ''current'', ''DEFINITIONS'', ''BEGIN'', ''END'']"
  by (simp add: ident_word_def ident_part_def ident_start_def is_ascii_digit_def)

lemma spec_toks_ok: "list_all comp_ok cs \<Longrightarrow> list_all tok_ok (spec_toks cs)"
proof (induction cs)
  case (Cons c cs)
  then show ?case by (cases c) (simp_all add: sint_ucast_u32 plain_word_def)
qed simp

lemma enum_toks_ok: "list_all (\<lambda>(v, n). 0 \<le> sint v \<and> ident_word n) es \<Longrightarrow> list_all tok_ok (enum_toks es)"
  by (induction es rule: enum_toks.induct) auto

lemma module_toks_ok:
  assumes "ident_word m" and "list_all def_ok defs"
  shows "list_all tok_ok (module_toks m defs)"
proof -
  have "def_ok d \<Longrightarrow> list_all tok_ok (def_toks d)" for d
    using keyword_words spec_toks_ok enum_toks_ok
    by (auto simp: def_toks_def def_ok_def plain_word_def split: option.splits)
  with assms(2) have "list_all tok_ok (concat (map def_toks defs))" by (induction defs) auto
  with assms(1) keyword_words show ?thesis by (simp add: module_toks_def)
qed

lemma lex_module:
  "ident_word m \<Longrightarrow> list_all def_ok defs \<Longrightarrow> smi_lex (module_text m defs) = module_toks m defs"
  unfolding module_text_def by (intro smi_lex_text module_toks_ok)

lemma ingest_semantic_module:
  assumes "ident_word m" and "list_all def_ok defs" and "defs_ok defs (seeds ++ seed_roots)"
    and "\<forall>d\<in>set defs. \<exists>o1. derived defs (seeds ++ seed_roots) d o1"
    and "\<And>n. n \<notin> rd_name ` set defs \<Longrightarrow> btm_get (mr_by_name r) n = seeds n"
  shows "\<exists>r'. ingest_semantic (module_text m defs) r = Some r'"
proof -
  let ?seeds = "btm_get (mr_by_name r)"
  have "parse_one_object_def (spec_table defs) ?seeds n b \<noteq> None"
    if site: "(n, b) \<in> set (object_sites (module_toks m defs))" for n b
  proof -
    obtain d r' where d: "d \<in> set defs" "find_oid_assignment b 0 = Some (rd_spec d, r')"
      using object_sites_defs [OF assms(2)] site object_sites_module [OF assms(2)] by fastforce
    then obtain o1 where "derived defs (seeds ++ seed_roots) d o1" using assms(4) by blast
    from resolve_inline_derived [OF assms(3,5) this] d(2) show ?thesis by (simp add: parse_one_object_def_def)
  qed
  then have "\<exists>ds. parse_object_defs_with_seeds (module_text m defs) ?seeds = Some ds"
    unfolding parse_object_defs_with_seeds_def Let_def lex_module [OF assms(1,2)] name_map_module [OF assms(2)]
    by (intro collect_defs_returns) auto
  then show ?thesis by (auto simp: ingest_semantic_def)
qed

lemma resolved_names:
  assumes "defs_ok defs (seeds ++ seed_roots)" and "derived defs (seeds ++ seed_roots) d o1"
  shows "map_of (map (\<lambda>ob. (mo_name ob, mo_oid ob)) (resolve_with_seeds defs seeds)) (rd_name d) = Some o1"
proof -
  let ?obs = "resolve_with_seeds defs seeds"
  have "object_of d o1 \<in> set ?obs" unfolding resolve_with_seeds_spec [OF assms(1)] using assms(2) by blast
  then obtain o2 where o2: "map_of (map (\<lambda>ob. (mo_name ob, mo_oid ob)) ?obs) (rd_name d) = Some o2"
    by (metis (mono_tags, lifting) image_eqI list.set_map map_of_eq_None_iff not_None_eq fst_conv
        object_of_def smi_object.select_convs(1))
  then have "(rd_name d, o2) \<in> (\<lambda>ob. (mo_name ob, mo_oid ob)) ` set ?obs" using map_of_SomeD by fastforce
  then obtain e where "derived defs (seeds ++ seed_roots) e o2" "rd_name e = rd_name d"
    unfolding resolve_with_seeds_spec [OF assms(1)] by (auto simp: object_of_def)
  with defs_ok_name [OF assms(1) derived_in derived_in] assms(2) derived_unique [OF assms(1)] have "o2 = o1" by metis
  with o2 show ?thesis by simp
qed

definition known_roots :: "mib_registry \<Rightarrow> bindings" where
  "known_roots r = btm_get (mr_by_name r) ++ seed_roots"

text \<open>C29: Loading the text of a module returns and binds every name the module defines to the OID the definitions
  derive for it from the names known before, in whatever order they stand; it counts the
  definitions, leaves every other name alone, and keeps the registry consistent.\<close>

theorem load_module:
  assumes "roots = known_roots r" and "ident_word m" and "list_all def_ok defs" and "defs_ok defs roots"
    and "\<forall>d\<in>set defs. \<exists>o1. derived defs roots d o1"
  shows "\<exists>r'. load_str (module_text m defs) r = Some (length defs, r') \<and>
     (\<forall>d o1. derived defs roots d o1 \<longrightarrow> name_to_oid r' (rd_name d) = Some o1) \<and>
     (\<forall>n. n \<notin> rd_name ` set defs \<longrightarrow> name_to_oid r' n = name_to_oid r n) \<and>
     (names_consistent r \<longrightarrow> list_all (\<lambda>d. plain_name (rd_name d)) defs \<longrightarrow> names_consistent r')"
proof -
  let ?seeds = "btm_get (mr_by_name r)"
  let ?obs = "resolve_with_seeds defs ?seeds" and ?r = "fold register_object (resolve_with_seeds defs ?seeds) r"
  note roots_def = assms(1) [unfolded known_roots_def]
  note ok = assms(4) [unfolded roots_def]
  have obs: "mo_name ob \<in> rd_name ` set defs" if "ob \<in> set ?obs" for ob
    using that derived_in unfolding resolve_with_seeds_spec [OF ok] by (fastforce simp: object_of_def)
  have other: "btm_get (mr_by_name ?r) n = ?seeds n" if "n \<notin> rd_name ` set defs" for n
  proof -
    have "map_of (map (\<lambda>ob. (mo_name ob, mo_oid ob)) ?obs) n = None" using that obs by (force simp: map_of_eq_None_iff)
    then show ?thesis by (simp add: by_name_add_objects split: option.splits)
  qed
  obtain r' where r': "ingest_semantic (module_text m defs) ?r = Some r'"
    using ingest_semantic_module [OF assms(2,3) ok assms(5) [unfolded roots_def] other] by blast
  note names = ingest_semantic_names [OF r']
  have load: "load_str (module_text m defs) r = Some (length defs, r')"
    using r' resolve_with_seeds_length [OF ok assms(5) [unfolded roots_def]]
    by (simp add: load_str_def add_objects_def parse_text_with_seeds_def lex_module [OF assms(2,3)] parse_module_toks [OF assms(3)])
  have def: "name_to_oid r' (rd_name d) = Some o1" if "derived defs roots d o1" for d o1
  proof -
    have "?seeds (rd_name d) = None"
      using defs_ok_root [OF ok derived_in] that unfolding roots_def by auto
    then show ?thesis
      using resolved_names [OF ok] that by (simp add: name_to_oid_def names by_name_add_objects roots_def)
  qed
  have keep: "name_to_oid r' n = name_to_oid r n" if "n \<notin> rd_name ` set defs" for n
    using other [OF that] by (simp add: name_to_oid_def names)
  have "names_consistent r'" if cons: "names_consistent r" and plain: "list_all (\<lambda>d. plain_name (rd_name d)) defs"
  proof -
    have "plain_name n \<and> btm_get (mr_by_name r') n = Some o1" if entry: "(o1, n) \<in> set (mr_by_oid r')" for o1 n
    proof -
      consider "(o1, n) \<in> set (mr_by_oid r)" | ob where "ob \<in> set ?obs" "o1 = mo_oid ob" "n = mo_name ob"
        using by_oid_add_objects [of ?obs r] entry names by auto
      then show ?thesis
      proof cases
        case 1
        with cons have "plain_name n" "?seeds n = Some o1" by (auto simp: names_consistent_def list_all_iff)
        then show ?thesis by (simp add: names by_name_add_objects)
      next
        case 2
        then obtain d where d: "derived defs roots d o1" "n = rd_name d"
          unfolding resolve_with_seeds_spec [OF ok] roots_def by (auto simp: object_of_def)
        with def plain derived_in show ?thesis by (auto simp: name_to_oid_def list_all_iff)
      qed
    qed
    then show ?thesis by (auto simp: names_consistent_def list_all_iff)
  qed
  with load def keep show ?thesis by blast
qed

definition demo_defs :: "raw_def list" where
  "demo_defs = [\<lparr>rd_name = ''leaf'', rd_spec = [Name ''root'', Number 2], rd_enums = Some [(1, ''up'')]\<rparr>,
     \<lparr>rd_name = ''root'', rd_spec = [Name ''iso'', Number 3], rd_enums = None\<rparr>]"

lemma lex_demo_words: "list_all plain_word [''leaf'', ''root'', ''iso'']" "ident_word ''up''" "ident_word ''DEMO''"
  by (simp_all add: plain_word_def MACRO_KEYWORDS_def ident_word_def ident_part_def ident_start_def is_ascii_digit_def)

lemma demo_roots: "known_roots mib_new = seed_roots"
  by (simp add: known_roots_def mib_new_def map_add_def fun_eq_iff split: option.splits)

lemma demo_derived:
  "derived demo_defs seed_roots (demo_defs ! 1) (Oid [1, 3])" "derived demo_defs seed_roots (demo_defs ! 0) (Oid [1, 3, 2])"
proof -
  show root: "derived demo_defs seed_roots (demo_defs ! 1) (Oid [1, 3])"
    by (rule derived.root) (simp_all add: demo_defs_def resolve_one_def seed_roots_def with_tail_def)
  show "derived demo_defs seed_roots (demo_defs ! 0) (Oid [1, 3, 2])"
    by (rule derived.extend [OF _ _ _ root, where n = "''root''" and cs = "[Number 2]"])
      (simp_all add: demo_defs_def seed_roots_def with_tail_def)
qed

theorem load_module_witness:
  "\<exists>r'. load_str (module_text ''DEMO'' demo_defs) mib_new = Some (2, r') \<and>
     name_to_oid r' ''root'' = Some (Oid [1, 3]) \<and> name_to_oid r' ''leaf'' = Some (Oid [1, 3, 2])"
proof -
  have ok: "list_all def_ok demo_defs" using lex_demo_words by (simp add: def_ok_def demo_defs_def)
  have defs: "defs_ok demo_defs seed_roots" by (simp add: defs_ok_def demo_defs_def seed_roots_def)
  have "\<forall>d\<in>set demo_defs. \<exists>o1. derived demo_defs seed_roots d o1"
    using demo_derived by (auto simp: demo_defs_def)
  from load_module [OF demo_roots [symmetric] lex_demo_words(3) ok defs this] obtain r'
    where r': "load_str (module_text ''DEMO'' demo_defs) mib_new = Some (length demo_defs, r')"
      "\<forall>d o1. derived demo_defs seed_roots d o1 \<longrightarrow> name_to_oid r' (rd_name d) = Some o1" by blast
  from r'(2) demo_derived have "name_to_oid r' (rd_name (demo_defs ! 1)) = Some (Oid [1, 3])"
    "name_to_oid r' (rd_name (demo_defs ! 0)) = Some (Oid [1, 3, 2])" by blast+
  with r'(1) show ?thesis by (simp add: demo_defs_def)
qed

section \<open>Definitions in a circle\<close>

lemma collect_defs_None: "None \<in> set rs \<Longrightarrow> collect_defs rs = None"
  by (induction rs) (auto split: bind_splits)

text \<open>A text without object definitions is always loaded: plain \<open>OBJECT IDENTIFIER\<close> assignments are
  resolved in passes, which leave out what refers to itself.\<close>

lemma no_objects_loads:
  assumes "object_sites (smi_lex text) = []"
  shows "\<exists>r'. load_str text r = Some r'"
  using assms by (simp add: load_str_def ingest_semantic_def add_objects_def parse_object_defs_with_seeds_def Let_def)

text \<open>C32: An object definition (OBJECT-TYPE, OBJECT-IDENTITY or NOTIFICATION-TYPE) whose parent is a name in a circle
  of definitions makes the load of its text never return: the recursive resolver follows the
  circle forever.\<close>

theorem circular_module_hangs:
  assumes "cyclic_names (name_map (smi_lex text)) S" and "(name, body) \<in> set (object_sites (smi_lex text))"
    and "find_oid_assignment body 0 = Some (spec, rest)" and "head_name spec = Some n" and "n \<in> S"
  shows "load_str text r = None"
proof -
  have "resolve_inline (name_map (smi_lex text)) seeds spec = None" for seeds
    using resolve_inline_cyclic [OF assms(1) _ assms(4)] assms(5) by fastforce
  then have "parse_one_object_def (name_map (smi_lex text)) seeds name body = None" for seeds
    using assms(3) by (simp add: parse_one_object_def_def)
  then have "None \<in> set (map (\<lambda>(name, body). parse_one_object_def (name_map (smi_lex text)) seeds name body)
      (object_sites (smi_lex text)))" for seeds
    unfolding set_map using assms(2) by (intro image_eqI [of _ _ "(name, body)"]) simp_all
  then have "parse_object_defs_with_seeds text seeds = None" for seeds
    by (simp add: parse_object_defs_with_seeds_def Let_def collect_defs_None)
  then show ?thesis by (simp add: load_str_def ingest_semantic_def add_objects_def)
qed

definition demo_circle :: "tok list" where
  "demo_circle = [Ident ''a'', Ident ''OBJECT-TYPE'', Assign, LBrace, Ident ''b'', NumLit 1, RBrace,
     Ident ''b'', Ident ''OBJECT-TYPE'', Assign, LBrace, Ident ''a'', NumLit 1, RBrace]"

theorem circular_module_hangs_witness: "load_str (smi_text demo_circle) with_builtins = None"
proof -
  have "list_all tok_ok demo_circle"
    by (simp add: demo_circle_def ident_word_def ident_part_def ident_start_def is_ascii_digit_def)
  then have lex: "smi_lex (smi_text demo_circle) = demo_circle" by (rule smi_lex_text)
  have names: "name_map demo_circle ''a'' = Some [Name ''b'', Number 1]" "name_map demo_circle ''b'' = Some [Name ''a'', Number 1]"
    by (simp_all add: name_map_def demo_circle_def MACRO_KEYWORDS_def num_arc_def)
  have cyc: "cyclic_names (name_map demo_circle) {''a'', ''b''}" by (simp add: cyclic_names_def names)
  have "(''a'', [Assign, LBrace, Ident ''b'', NumLit 1, RBrace, Ident ''b'', Ident ''OBJECT-TYPE'', Assign, LBrace,
      Ident ''a'', NumLit 1, RBrace]) \<in> set (object_sites demo_circle)"
    by (simp add: demo_circle_def object_sites.simps(2) DEF_KEYWORDS_def)
  from circular_module_hangs [of "smi_text demo_circle", unfolded lex, OF cyc this, of "[Name ''b'', Number 1]"] show ?thesis
    by (simp add: num_arc_def)
qed

end
