(* ===== verification/Snmp_Notiflog.thy ===== *)
theory Snmp_Notiflog
  imports Snmp_Persist Snmp_Scalar Rust_Bytes "HOL-Library.Signed_Division"
begin

text \<open>
  The notification log of the trap receiver (\<^verbatim>\<open>crates/netsnmp-agent/src/trap/notiflog.rs\<close>): a ring buffer of
  received notifications with its walkable table \<open>nlmLogTable\<close>, and the encoding of addresses and
  times in that table.  The clock is an argument.
\<close>

section \<open>Dates\<close>

definition civil_from_days :: "int \<Rightarrow> int \<times> u8 \<times> u8" where
  "civil_from_days z0 =
     (let z = z0 + 719468;
          era = (if z \<ge> 0 then z else z - 146096) sdiv 146097;
          doe = z - era * 146097;
          yoe = (doe - doe div 1460 + doe div 36524 - doe div 146096) div 365;
          y = yoe + era * 400;
          doy = doe - (365 * yoe + yoe div 4 - yoe div 100);
          mp = (5 * doy + 2) div 153;
          d = word_of_int (doy - (153 * mp + 2) div 5 + 1);
          m = word_of_int (if mp < 10 then mp + 3 else mp - 9)
      in (if m \<le> 2 then y + 1 else y, m, d))"

text \<open>A time is its whole seconds since the epoch, negative before it.\<close>

definition date_and_time :: "int \<Rightarrow> u8 list" where
  "date_and_time t =
     (if t < 0 then []
      else
        (let secs = sint (word_of_int t :: i64);
             days = secs sdiv 86400;
             rem = secs smod 86400;
             (year, month, day) = civil_from_days days
         in u16_to_be_bytes (word_of_int year) @
            [month, day, word_of_int (rem sdiv 3600), word_of_int ((rem smod 3600) sdiv 60), word_of_int (rem smod 60),
             0, 43] @ u16_to_be_bytes 0))"

definition rsplit_once :: "char \<Rightarrow> string \<Rightarrow> (string \<times> string) option" where
  "rsplit_once c s = map_option (\<lambda>(a, b). (rev b, rev a)) (split_once c (rev s))"

definition udp_address :: "string \<Rightarrow> u8 list" where
  "udp_address host_port =
     (case rsplit_once CHR '':'' host_port of
        None \<Rightarrow> []
      | Some (host, port) \<Rightarrow>
          (case parse_ipv4 host of
             None \<Rightarrow> []
           | Some (a, b, c, d) \<Rightarrow>
               (case parse_unsigned 16 port of
                  None \<Rightarrow> []
                | Some p \<Rightarrow> [a, b, c, d] @ u16_to_be_bytes (word_of_nat p))))"

section \<open>The log\<close>

definition NLM_LOG_ENTRY :: oid where
  "NLM_LOG_ENTRY = Oid [1, 3, 6, 1, 2, 1, 92, 1, 3, 1, 1]"

definition SNMP_UDP_DOMAIN :: oid where
  "SNMP_UDP_DOMAIN = Oid [1, 3, 6, 1, 6, 1, 1]"

record logged_entry =
  le_index :: u32
  le_uptime_ticks :: u32
  le_received :: int
  le_engine_id :: "u8 list"
  le_peer :: string
  le_trap_oid :: oid

record notification_log =
  nl_entries :: "logged_entry list"
  nl_cap :: nat
  nl_start :: nat

definition notification_log_new :: "nat \<Rightarrow> nat \<Rightarrow> notification_log" where
  "notification_log_new cap now = \<lparr>nl_entries = [], nl_cap = cap, nl_start = now\<rparr>"

text \<open>The clock of one call: milliseconds of the monotonic clock, and the wall clock in seconds.\<close>

type_synonym clock = "nat \<times> int"

definition log_record :: "clock \<Rightarrow> oid \<Rightarrow> u8 list \<Rightarrow> string \<Rightarrow> notification_log \<Rightarrow> notification_log" where
  "log_record now trap_oid engine_id peer log =
     (let es = nl_entries log;
          index = (if es = [] then 1 else le_index (last es) + 1);
          es = (if length es \<ge> nl_cap log then drop 1 es else es)
      in log\<lparr>nl_entries := es @ [\<lparr>le_index = index, le_uptime_ticks = word_of_nat ((fst now - nl_start log) div 10),
            le_received = snd now, le_engine_id = engine_id, le_peer = peer, le_trap_oid = trap_oid\<rparr>]\<rparr>)"

definition log_cell :: "logged_entry \<Rightarrow> u32 \<Rightarrow> oid" where
  "log_cell e col = Oid (as_slice NLM_LOG_ENTRY @ [col, le_index e])"

definition entry_cells :: "logged_entry \<Rightarrow> cell_list" where
  "entry_cells e =
     [(log_cell e 2, TimeTicks (le_uptime_ticks e)),
      (log_cell e 3, OctetString (date_and_time (le_received e))),
      (log_cell e 4, OctetString (le_engine_id e)),
      (log_cell e 5, OctetString (udp_address (le_peer e))),
      (log_cell e 6, OidValue SNMP_UDP_DOMAIN),
      (log_cell e 7, OctetString []),
      (log_cell e 8, OctetString []),
      (log_cell e 9, OidValue (le_trap_oid e))]"

definition log_cells :: "notification_log \<Rightarrow> cell_list" where
  "log_cells log = concat (map entry_cells (nl_entries log))"

text \<open>The handler's state when it is first read at a time: nothing cached, the log behind it.\<close>

definition notiflog_handler :: "notification_log \<Rightarrow> nat \<Rightarrow> fn_handler" where
  "notiflog_handler log now = fn_new NLM_LOG_ENTRY (log_cells log) now"

section \<open>The calendar\<close>

text \<open>The Gregorian calendar, day by day.\<close>

definition leap_year :: "int \<Rightarrow> bool" where
  "leap_year y \<longleftrightarrow> y mod 4 = 0 \<and> (y mod 100 \<noteq> 0 \<or> y mod 400 = 0)"

definition month_length :: "int \<Rightarrow> nat \<Rightarrow> nat" where
  "month_length y m = (if m = 2 then if leap_year y then 29 else 28 else if m \<in> {4, 6, 9, 11} then 30 else 31)"

fun next_day :: "int \<times> nat \<times> nat \<Rightarrow> int \<times> nat \<times> nat" where
  "next_day (y, m, d) =
     (if d < month_length y m then (y, m, d + 1)
      else if m < 12 then (y, m + 1, 1)
      else (y + 1, 1, 1))"

definition calendar :: "nat \<Rightarrow> int \<times> nat \<times> nat" where
  "calendar n = (next_day ^^ n) (1970, 1, 1)"

text \<open>
  The algorithm counts years from March, in eras of 400 years.  The day \<open>k\<close> of an era falls into the
  year \<open>y\<close> whose first day is \<open>year_start y\<close>.
\<close>

definition era_shift :: "int \<Rightarrow> int" where
  "era_shift k = k - k div 1460 + k div 36524 - k div 146096"

definition year_start :: "int \<Rightarrow> int" where
  "year_start y = 365 * y + y div 4 - y div 100"

definition year_last :: "int \<Rightarrow> int" where
  "year_last y = (if y = 399 then 146096 else year_start (y + 1) - 1)"

definition month_day :: "int \<Rightarrow> int \<times> int" where
  "month_day doy =
     (let mp = (5 * doy + 2) div 153
      in (if mp < 10 then mp + 3 else mp - 9, doy - (153 * mp + 2) div 5 + 1))"

lemma div_step:
  fixes n :: int assumes "0 < n"
  shows "(k + 1) div n = (if n dvd k + 1 then k div n + 1 else k div n)"
proof -
  have k: "k = n * (k div n) + k mod n" and r: "0 \<le> k mod n" "k mod n < n" using assms by simp_all
  show ?thesis
  proof (cases "k mod n + 1 = n")
    case True
    moreover have "n * (k div n + 1) = n * (k div n) + n" by (simp add: algebra_simps)
    ultimately have "k + 1 = n * (k div n + 1)" using k by linarith
    then show ?thesis using assms by (metis dvd_triv_left nonzero_mult_div_cancel_left less_numeral_extra(3))
  next
    case False
    then have e: "k + 1 = n * (k div n) + (k mod n + 1)" and b: "k mod n + 1 < n" using k r by linarith+
    have "(k + 1) mod n = k mod n + 1" by (rule int_mod_pos_eq [OF e]) (use r b in linarith)+
    then have "\<not> n dvd k + 1" using r by (simp add: dvd_eq_mod_eq_0)
    moreover have "(k + 1) div n = k div n" by (rule int_div_pos_eq [OF e]) (use r b in linarith)+
    ultimately show ?thesis by simp
  qed
qed

lemma era_shift_step: "era_shift k \<le> era_shift (k + 1)"
proof -
  have "146096 dvd k + 1 \<Longrightarrow> 36524 dvd k + 1" by (rule dvd_trans [of _ 146096]) simp_all
  then show ?thesis by (auto simp: era_shift_def div_step)
qed

lemma era_shift_mono:
  assumes "a \<le> b" shows "era_shift a \<le> era_shift b"
proof -
  have "era_shift a \<le> era_shift (a + int n)" for n
  proof (induction n)
    case (Suc n)
    then show ?case using era_shift_step [of "a + int n"] by (simp add: algebra_simps)
  qed simp
  from this [of "nat (b - a)"] assms show ?thesis by simp
qed

lemma all_upto: "list_all P [a..b] \<Longrightarrow> a \<le> k \<Longrightarrow> k \<le> b \<Longrightarrow> P k" for k :: int
  by (simp add: list_all_iff)

lemma year_bounds:
  assumes "0 \<le> y" and "y < 400"
  shows "365 * y \<le> era_shift (year_start y)" "era_shift (year_last y) < 365 * (y + 1)"
    "year_last y = year_start y + (if leap_year (y + 1) then 365 else 364)"
proof -
  have "list_all (\<lambda>y. 365 * y \<le> era_shift (year_start y) \<and> era_shift (year_last y) < 365 * (y + 1) \<and>
     year_last y = year_start y + (if leap_year (y + 1) then 365 else 364)) [0..399]"
    by code_simp
  from all_upto [OF this assms(1)] assms(2)
  show "365 * y \<le> era_shift (year_start y)" "era_shift (year_last y) < 365 * (y + 1)"
    "year_last y = year_start y + (if leap_year (y + 1) then 365 else 364)" by linarith+
qed

lemma year_last_le: "0 \<le> y \<Longrightarrow> y < 400 \<Longrightarrow> year_last y \<le> 146096"
  using year_bounds(2) [of y] era_shift_mono [of 146097 "year_last y"] by (force simp: era_shift_def)

lemma year_of_day:
  assumes "0 \<le> y" and "y < 400" and "year_start y \<le> k" and "k \<le> year_last y"
  shows "era_shift k div 365 = y"
  using year_bounds [OF assms(1,2)] era_shift_mono [OF assms(3)] era_shift_mono [OF assms(4)]
  by (intro int_div_pos_eq [of _ _ _ "era_shift k - 365 * y"]) auto

lemma month_days:
  assumes "0 \<le> k" and "k < 366"
  shows "month_day k = (let (m, d) = month_day (k - 1) in
     if k = 0 then (3, 1)
     else if d < (if m = 2 then 29 else int (month_length 1 (nat m))) then (m, d + 1) else (m mod 12 + 1, 1))"
    "1 \<le> fst (month_day k)" "fst (month_day k) \<le> 12" "1 \<le> snd (month_day k)" "snd (month_day k) \<le> 31"
    "fst (month_day k) = 2 \<longleftrightarrow> 337 \<le> k" "337 \<le> k \<longrightarrow> snd (month_day k) = k - 336"
proof -
  have "list_all (\<lambda>k. month_day k = (let (m, d) = month_day (k - 1) in
     if k = 0 then (3, 1)
     else if d < (if m = 2 then 29 else int (month_length 1 (nat m))) then (m, d + 1) else (m mod 12 + 1, 1))) [0..365]"
    by code_simp
  from all_upto [OF this assms(1)] assms(2) show "month_day k = (let (m, d) = month_day (k - 1) in
     if k = 0 then (3, 1)
     else if d < (if m = 2 then 29 else int (month_length 1 (nat m))) then (m, d + 1) else (m mod 12 + 1, 1))"
    by simp
  have "list_all (\<lambda>k. 1 \<le> fst (month_day k) \<and> fst (month_day k) \<le> 12 \<and> 1 \<le> snd (month_day k) \<and> snd (month_day k) \<le> 31 \<and>
     (fst (month_day k) = 2 \<longleftrightarrow> 337 \<le> k) \<and> (337 \<le> k \<longrightarrow> snd (month_day k) = k - 336)) [0..365]"
    by code_simp
  from all_upto [OF this assms(1)] assms(2) show "1 \<le> fst (month_day k)" "fst (month_day k) \<le> 12" "1 \<le> snd (month_day k)" "snd (month_day k) \<le> 31"
    "fst (month_day k) = 2 \<longleftrightarrow> 337 \<le> k" "337 \<le> k \<longrightarrow> snd (month_day k) = k - 336"
    by simp_all
qed

lemma day_in_year:
  "n \<le> 146096 \<Longrightarrow> \<exists>y. 0 \<le> y \<and> y < 400 \<and> year_start y \<le> int n \<and> int n \<le> year_last y"
proof (induction n)
  case 0
  then show ?case by (intro exI [of _ 0]) (simp add: year_start_def year_last_def)
next
  case (Suc n)
  then obtain y where y: "0 \<le> y" "y < 400" "year_start y \<le> int n" "int n \<le> year_last y" by auto
  show ?case
  proof (cases "int (Suc n) \<le> year_last y")
    case False
    then have k: "int (Suc n) = year_last y + 1" using y(4) by simp
    then have "y < 399" using y(2) Suc.prems by (cases "y = 399") (simp_all add: year_last_def)
    moreover from this have "year_start (y + 1) = int (Suc n)" using k by (simp add: year_last_def)
    ultimately show ?thesis using y(1) year_bounds(3) [of "y + 1"] by (intro exI [of _ "y + 1"]) (simp split: if_splits)
  qed (use y in \<open>intro exI [of _ y]; simp\<close>)
qed

lemma day_year:
  assumes "0 \<le> k" and "k \<le> 146096"
  obtains y where "0 \<le> y" "y < 400" "year_start y \<le> k" "k \<le> year_last y" "era_shift k div 365 = y"
proof -
  obtain y where "0 \<le> y" "y < 400" "year_start y \<le> k" "k \<le> year_last y"
    using day_in_year [of "nat k"] assms by (auto simp: nat_le_iff)
  then show ?thesis using that year_of_day by blast
qed

definition era_date :: "int \<Rightarrow> int \<Rightarrow> int \<times> nat \<times> nat" where
  "era_date era k =
     (let y = era_shift k div 365; (m, d) = month_day (k - year_start y)
      in (if m \<le> 2 then y + era * 400 + 1 else y + era * 400, nat m, nat d))"

lemma leap_year_era: "leap_year (y + era * 400) \<longleftrightarrow> leap_year y"
  using mod_mult_self1 [of y "era * 100" 4] mod_mult_self1 [of y "era * 4" 100] mod_mult_self1 [of y era 400]
  by (simp add: leap_year_def mult.assoc)

lemma era_date_next:
  assumes "0 \<le> k" and "k \<le> 146096"
  shows "next_day (era_date era k) = (if k = 146096 then era_date (era + 1) 0 else era_date era (k + 1))"
  using assms
proof (rule day_year)
  fix y assume y: "0 \<le> y" "y < 400" "year_start y \<le> k" "k \<le> year_last y" and yk: "era_shift k div 365 = y"
  let ?doy = "k - year_start y" and ?leap = "leap_year (y + 1)"
  obtain m d where md: "month_day ?doy = (m, d)" by fastforce
  have doy: "0 \<le> ?doy" "?doy < 366" "?doy \<le> (if ?leap then 365 else 364)"
    using y year_bounds(3) [OF y(1,2)] by (auto split: if_splits)
  note days = month_days(2-) [OF doy(1,2), unfolded md fst_conv snd_conv]
  have leap: "leap_year (y + era * 400 + 1) \<longleftrightarrow> ?leap"
    using leap_year_era [of "y + 1" era] by (simp add: algebra_simps)
  have here: "era_date era k = (if m \<le> 2 then y + era * 400 + 1 else y + era * 400, nat m, nat d)"
    by (simp add: era_date_def yk md)
  show ?thesis
  proof (cases "k = year_last y")
    case True
    then have m: "m = 2" "d = (if ?leap then 29 else 28)"
      using year_bounds(3) [OF y(1,2)] days by auto
    show ?thesis
    proof (cases "y = 399")
      case True
      with \<open>k = year_last y\<close> have "k = 146096" by (simp add: year_last_def)
      then show ?thesis using m leap True
        by (simp add: here month_length_def era_date_def era_shift_def year_start_def month_day_def)
    next
      case False
      then have start: "year_start (y + 1) = k + 1" using True by (simp add: year_last_def)
      then have "k + 1 \<le> year_last (y + 1)" using False y year_bounds(3) [of "y + 1"] by (simp split: if_splits)
      then have "era_shift (k + 1) div 365 = y + 1" using False y start by (intro year_of_day) simp_all
      moreover have "k \<noteq> 146096" using False True y year_bounds(2) [of y] era_shift_mono [of 146096 k]
        by (auto simp: era_shift_def)
      moreover have "month_day 0 = (3, 1)" by code_simp
      ultimately have "k \<noteq> 146096" "era_date era (k + 1) = (y + era * 400 + 1, 3, 1)"
        by (simp_all add: era_date_def start)
      then show ?thesis using m leap by (simp add: here month_length_def)
    qed
  next
    case False
    then have k: "k + 1 \<le> year_last y" "k \<noteq> 146096" using y year_last_le [OF y(1,2)] by simp_all
    then have y': "era_shift (k + 1) div 365 = y" using y by (intro year_of_day) simp_all
    have doy': "?doy + 1 \<le> (if ?leap then 365 else 364)" using k year_bounds(3) [OF y(1,2)] by auto
    then have "0 \<le> ?doy + 1" "?doy + 1 < 366" "?doy + 1 \<noteq> 0" using doy(1) by (auto split: if_splits)
    note step = month_days(1) [OF this(1,2)] and ne = this(3)
    have md': "month_day (?doy + 1) =
        (if d < (if m = 2 then 29 else int (month_length 1 (nat m))) then (m, d + 1) else (m mod 12 + 1, 1))"
      unfolding step Let_def by (simp only: add_diff_cancel_right' md prod.case ne if_False)
    have there: "era_date era (k + 1) = (case month_day (?doy + 1) of
        (m, d) \<Rightarrow> (if m \<le> 2 then y + era * 400 + 1 else y + era * 400, nat m, nat d))"
      unfolding era_date_def y' Let_def by (simp only: add_diff_eq diff_add_eq)
    consider "m = 2" | "m = 12" | "m \<noteq> 2" "m < 12" using days(2) by linarith
    then show ?thesis
    proof cases
      case 1
      with days doy' have "d < (if ?leap then 29 else 28)" "0 \<le> d" by (auto split: if_splits)
      with 1 leap show ?thesis using k(2) by (auto simp: here there md' month_length_def nat_add_distrib split: if_splits)
    next
      case 2
      with days k(2) show ?thesis by (auto simp: here there md' month_length_def nat_add_distrib split: if_splits)
    next
      case 3
      have len: "month_length Y (nat m) = month_length 1 (nat m)" for Y using 3 days(1) by (simp add: month_length_def nat_eq_iff)
      note len' = len [of "y + era * 400"] len [of "y + era * 400 + 1"]
      have m: "m mod 12 = m" "nat m < 12" "m + 1 \<le> 2 \<longleftrightarrow> m \<le> 2" using 3 days(1) by auto
      show ?thesis
      proof (cases "d < int (month_length 1 (nat m))")
        case True
        then have md2: "month_day (?doy + 1) = (m, d + 1)" unfolding md' by (simp only: 3(1) if_False if_True)
        have "nat d < month_length 1 (nat m)" "nat (d + 1) = nat d + 1" using True days(3) by linarith+
        then show ?thesis unfolding here there md2 prod.case using k(2) by (simp add: len')
      next
        case False
        then have md2: "month_day (?doy + 1) = (m + 1, 1)" unfolding md' by (simp only: 3(1) if_False m(1))
        have "\<not> nat d < month_length 1 (nat m)" "nat (m + 1) = nat m + 1" using False days(1) by linarith+
        then show ?thesis unfolding here there md2 prod.case using k(2) m(2,3) by (simp add: len')
      qed
    qed
  qed
qed

lemma nonneg_sdiv: "0 \<le> a \<Longrightarrow> 0 < b \<Longrightarrow> a sdiv b = a div b \<and> a smod b = a mod b" for a b :: int
  by (cases "a = 0") (simp_all add: signed_divide_int_def signed_modulo_int_def minus_div_mult_eq_mod)

lemma civil_era:
  assumes "0 \<le> z0"
  shows "(case civil_from_days z0 of (y, m, d) \<Rightarrow> (y, unat m, unat d)) =
     era_date ((z0 + 719468) div 146097) ((z0 + 719468) mod 146097)"
proof -
  let ?z = "z0 + 719468" let ?k = "?z mod 146097"
  have era: "?z sdiv 146097 = ?z div 146097" using assms by (simp add: signed_divide_int_def)
  have k: "?z - ?z div 146097 * 146097 = ?k" by (simp add: minus_div_mult_eq_mod)
  have range: "0 \<le> ?k" "?k \<le> 146096" using pos_mod_bound [of 146097 ?z] by simp_all
  obtain y where y: "year_start y \<le> ?k" "?k \<le> year_last y" "0 \<le> y" "y < 400" "era_shift ?k div 365 = y"
    using day_year [OF range] by metis
  obtain m d where md: "month_day (?k - year_start y) = (m, d)" by fastforce
  have doy: "0 \<le> ?k - year_start y" "?k - year_start y < 366"
    using y year_bounds(3) [OF y(3,4)] by (auto split: if_splits)
  note days = month_days(2-5) [OF doy, unfolded md fst_conv snd_conv]
  have small: "unat (word_of_int i :: u8) = nat i" "uint (word_of_int i :: u8) = i" if "0 \<le> i" "i \<le> 31" for i
    using that by (simp_all add: unat_eq_nat_uint uint_word_of_int_eq take_bit_int_eq_self)
  have "(word_of_int m :: u8) \<le> 2 \<longleftrightarrow> m \<le> 2"
    using small(2) [of m] days by (simp add: word_le_def)
  moreover have "civil_from_days z0 = (if word_of_int m \<le> (2 :: u8) then y + ?z div 146097 * 400 + 1
      else y + ?z div 146097 * 400, word_of_int m, word_of_int d)"
  proof -
    from md [unfolded month_day_def Let_def] have m: "(if (5 * (?k - year_start y) + 2) div 153 < 10
        then (5 * (?k - year_start y) + 2) div 153 + 3 else (5 * (?k - year_start y) + 2) div 153 - 9) = m"
      and d: "?k - year_start y - (153 * ((5 * (?k - year_start y) + 2) div 153) + 2) div 5 + 1 = d"
      by (simp_all only: prod.inject)
    have z: "?z \<ge> 0" using assms by simp
    show ?thesis
      unfolding civil_from_days_def Let_def if_P [OF z] era k era_shift_def [symmetric] y(5) year_start_def [symmetric] m d ..
  qed
  ultimately show ?thesis using small [of m] small [of d] days by (simp add: era_date_def y(5) md)
qed

lemma civil_calendar: "(case civil_from_days (int n) of (y, m, d) \<Rightarrow> (y, unat m, unat d)) = calendar n"
proof (induction n)
  case 0
  have "civil_from_days 0 = (1970, 1, 1)" by code_simp
  then show ?case by (simp add: calendar_def)
next
  case (Suc n)
  let ?z = "int n + 719468"
  define e k where "e = ?z div 146097" and "k = ?z mod 146097"
  then have range: "0 \<le> k" "k \<le> 146096" and z: "?z = 146097 * e + k" using pos_mod_bound [of 146097 ?z] by simp_all
  have "calendar (Suc n) = next_day (calendar n)" by (simp add: calendar_def)
  also have "\<dots> = next_day (era_date e k)" using Suc.IH civil_era [of "int n"] by (simp add: e_def k_def)
  also have "\<dots> = era_date ((?z + 1) div 146097) ((?z + 1) mod 146097)"
  proof (cases "k = 146096")
    case True
    with z have e: "?z + 1 = 146097 * (e + 1) + 0" by (simp add: distrib_left)
    have "(?z + 1) div 146097 = e + 1" by (rule int_div_pos_eq [OF e]) simp_all
    moreover have "(?z + 1) mod 146097 = 0" by (rule int_mod_pos_eq [OF e]) simp_all
    ultimately show ?thesis using era_date_next [OF range] True by simp
  next
    case False
    with z have e: "?z + 1 = 146097 * e + (k + 1)" by linarith
    have "(?z + 1) div 146097 = e" by (rule int_div_pos_eq [OF e]) (use range False in linarith)+
    moreover have "(?z + 1) mod 146097 = k + 1" by (rule int_mod_pos_eq [OF e]) (use range False in linarith)+
    ultimately show ?thesis using era_date_next [OF range] False by simp
  qed
  finally show ?case using civil_era [of "int (Suc n)"] by (simp add: algebra_simps)
qed

text \<open>C35: The date and time of a log entry are those of the Gregorian calendar, counted day by day from the first
  of January 1970, for every time a signed 64-bit count of seconds can hold: year (modulo 65536),
  month, day, hour, minute and second, in universal time.\<close>

theorem date_and_time_calendar:
  assumes "t < 2 ^ 63" and "calendar (t div 86400) = (y, m, d)"
  shows "date_and_time (int t) =
     u16_to_be_bytes (word_of_int y) @
     map word_of_nat [m, d, t mod 86400 div 3600, t mod 3600 div 60, t mod 60] @ [0, 43, 0, 0]"
proof -
  have "sint (word_of_int i :: i64) = i" if "0 \<le> i" "i < 2 ^ 63" for i
    using that by (simp add: sint_sbintrunc' signed_take_bit_int_eq_self)
  from this [of "int t"] assms(1) have t: "sint (word_of_nat t :: i64) = int t" by simp
  obtain m' d' where c: "civil_from_days (int (t div 86400)) = (y, m', d')" "unat m' = m" "unat d' = d"
    using civil_calendar [of "t div 86400"] assms(2) by (auto split: prod.splits)
  have "int a sdiv 86400 = int (a div 86400)" "int a smod 86400 = int (a mod 86400)" "int a smod 3600 = int (a mod 3600)"
    "int a smod 60 = int (a mod 60)" "int a sdiv 3600 = int (a div 3600)" "int a sdiv 60 = int (a div 60)" for a
    by (simp_all add: nonneg_sdiv zdiv_int zmod_int)
  moreover have "t mod 86400 mod 3600 = t mod 3600" "t mod 86400 mod 60 = t mod 60"
    by (simp_all add: mod_mod_cancel)
  moreover have "u16_to_be_bytes 0 = [0, 0]" by code_simp
  ultimately show ?thesis
    using c t by (simp add: date_and_time_def Let_def flip: c(2,3))
qed

theorem date_and_time_calendar_witness:
  "date_and_time 5101261 = [7, 178, 3, 1, 1, 1, 1, 0, 43, 0, 0]"
proof -
  have "(5101261 :: nat) div 86400 = 59" by simp
  moreover have "calendar 59 = (1970, 3, 1)" by code_simp
  ultimately have "date_and_time (int 5101261) = u16_to_be_bytes (word_of_int 1970) @
     map word_of_nat [3, 1, 5101261 mod 86400 div 3600, 5101261 mod 3600 div 60, 5101261 mod 60] @ [0, 43, 0, 0]"
    by (intro date_and_time_calendar) simp_all
  moreover have "u16_to_be_bytes (word_of_int 1970) = [7, 178]" by code_simp
  ultimately show ?thesis by simp
qed

section \<open>The window of the log\<close>

text \<open>A received notification: when, its trap OID, the engine id and the peer it is logged with.\<close>

type_synonym receipt = "clock \<times> oid \<times> u8 list \<times> string"

definition log_all :: "receipt list \<Rightarrow> notification_log \<Rightarrow> notification_log" where
  "log_all rs log = fold (\<lambda>(now, trap_oid, engine_id, peer). log_record now trap_oid engine_id peer) rs log"

text \<open>The entry that the receipt number \<open>i\<close> leaves in the log.\<close>

definition receipt_entry :: "nat \<Rightarrow> nat \<Rightarrow> receipt \<Rightarrow> logged_entry" where
  "receipt_entry start i r =
     (case r of (now, trap_oid, engine_id, peer) \<Rightarrow>
        \<lparr>le_index = word_of_nat i, le_uptime_ticks = word_of_nat ((fst now - start) div 10), le_received = snd now,
         le_engine_id = engine_id, le_peer = peer, le_trap_oid = trap_oid\<rparr>)"

definition receipt_entries :: "nat \<Rightarrow> receipt list \<Rightarrow> logged_entry list" where
  "receipt_entries start rs = map (\<lambda>i. receipt_entry start (Suc i) (rs ! i)) [0..<length rs]"

lemma receipt_entries_snoc:
  "receipt_entries start (rs @ [r]) = receipt_entries start rs @ [receipt_entry start (Suc (length rs)) r]"
  by (simp add: receipt_entries_def nth_append)

lemma length_receipt_entries [simp]: "length (receipt_entries start rs) = length rs"
  by (simp add: receipt_entries_def)

lemma log_all_entries:
  "nl_entries (log_all rs (notification_log_new cap start)) = drop (length rs - max 1 cap) (receipt_entries start rs) \<and>
   nl_cap (log_all rs (notification_log_new cap start)) = cap \<and>
   nl_start (log_all rs (notification_log_new cap start)) = start"
proof (induction rs rule: rev_induct)
  case Nil
  then show ?case by (simp add: log_all_def notification_log_new_def receipt_entries_def)
next
  case (snoc r rs)
  let ?log = "log_all rs (notification_log_new cap start)" and ?n = "length rs"
  obtain now o1 e p where r: "r = (now, o1, e, p)" by (cases r)
  have step: "log_all (rs @ [r]) (notification_log_new cap start) = log_record now o1 e p ?log"
    by (simp add: log_all_def r)
  have index: "(if nl_entries ?log = [] then 1 else le_index (last (nl_entries ?log)) + 1) = word_of_nat (Suc ?n)"
  proof (cases "rs = []")
    case True
    then show ?thesis using snoc.IH by (simp add: receipt_entries_def)
  next
    case False
    then have "?n - max 1 cap < ?n" by (cases rs) (simp_all add: less_Suc_eq_le)
    then have "nl_entries ?log \<noteq> []" "last (nl_entries ?log) = last (receipt_entries start rs)" using snoc.IH by simp_all
    moreover have "le_index (last (receipt_entries start rs)) = word_of_nat ?n"
      using False by (cases rs rule: rev_cases) (simp_all add: receipt_entries_snoc receipt_entry_def split: prod.split)
    ultimately show ?thesis by simp
  qed
  have drop: "(if length (nl_entries ?log) \<ge> cap then drop 1 (nl_entries ?log) else nl_entries ?log) =
      drop (length (rs @ [r]) - max 1 cap) (receipt_entries start rs)"
  proof -
    have "Suc (?n - cap) = Suc ?n - cap" if "cap \<le> ?n - (?n - cap)" using that by linarith
    then show ?thesis using snoc.IH by (auto simp: max_def)
  qed
  have fields: "nl_cap ?log = cap" "nl_start ?log = start" using snoc.IH by simp_all
  have "nl_entries (log_record now o1 e p ?log) =
      drop (length (rs @ [r]) - max 1 cap) (receipt_entries start rs) @ [receipt_entry start (Suc ?n) r]"
    unfolding log_record_def Let_def fields index drop by (simp add: r receipt_entry_def)
  moreover have "length (rs @ [r]) - max 1 cap \<le> ?n" by simp
  ultimately show ?case using fields unfolding step by (simp add: log_record_def Let_def receipt_entries_snoc)
qed

lemma mod_window: "a mod n = b mod n \<Longrightarrow> a \<le> b \<Longrightarrow> b - a < n \<Longrightarrow> a = b" for n :: nat
proof -
  assume "a mod n = b mod n" "a \<le> b" "b - a < n"
  moreover from this have "n dvd b - a" by (simp flip: mod_eq_dvd_iff_nat)
  ultimately show "a = b" by (auto dest: dvd_imp_le)
qed

lemma log_cell_eq [simp]: "log_cell e c = log_cell e' c' \<longleftrightarrow> c = c' \<and> le_index e = le_index e'"
  by (simp add: log_cell_def)

lemma log_cells_distinct:
  assumes "distinct (map le_index (nl_entries log))"
  shows "distinct (map fst (log_cells log))"
proof -
  have "distinct (map fst (concat (map entry_cells es)))" if "distinct (map le_index es)" for es
    using that
  proof (induction es)
    case (Cons e es)
    have "fst ` set (entry_cells e) \<inter> fst ` set (entry_cells e') = {}" if "e' \<in> set es" for e'
      using Cons.prems that by (auto simp: entry_cells_def image_iff)
    with Cons show ?case by (auto simp: entry_cells_def)
  qed simp
  with assms show ?thesis by (simp add: log_cells_def)
qed

text \<open>C36: The log holds the latest notifications, at most as many as its capacity (one, when the capacity is zero), numbered
  in the order of their arrival from 1; reading the notification column of the table at the number of
  a notification in this window returns its trap OID.\<close>

theorem notification_log_window:
  assumes "cap \<le> 2 ^ 32" and "log = log_all rs (notification_log_new cap start)"
  shows "nl_entries log = drop (length rs - max 1 cap) (receipt_entries start rs) \<and>
     (\<forall>i. length rs - max 1 cap \<le> i \<and> i < length rs \<longrightarrow>
        fst (run_state (fn_get (Oid (as_slice NLM_LOG_ENTRY @ [9, word_of_nat (Suc i)]))) (notiflog_handler log now)) =
          Some (OidValue (fst (snd (rs ! i)))))"
proof (intro conjI allI impI)
  let ?w = "length rs - max 1 cap"
  show es: "nl_entries log = drop ?w (receipt_entries start rs)" using log_all_entries assms(2) by blast
  have idx: "map le_index (nl_entries log) = map (\<lambda>i. word_of_nat (Suc i)) [?w..<length rs]"
    by (simp add: es receipt_entries_def drop_map receipt_entry_def split: prod.split)
  have "inj_on (\<lambda>i. word_of_nat (Suc i) :: u32) {?w..<length rs}"
  proof (rule inj_onI)
    fix i j assume "i \<in> {?w..<length rs}" "j \<in> {?w..<length rs}"
      and "(word_of_nat (Suc i) :: u32) = word_of_nat (Suc j)"
    then have "i mod 2 ^ 32 = j mod 2 ^ 32" "max i j - min i j < 2 ^ 32"
      using assms(1) by (auto simp: word_of_nat_eq_iff take_bit_eq_mod max_def min_def split: if_splits)
    then show "i = j" using mod_window [of i "2 ^ 32" j] mod_window [of j "2 ^ 32" i] unfolding max_def min_def
      by (metis nat_le_linear)
  qed
  then have d: "distinct (map fst (log_cells log))" by (intro log_cells_distinct) (simp add: idx distinct_map)
  fix i assume i: "?w \<le> i \<and> i < length rs"
  let ?e = "receipt_entry start (Suc i) (rs ! i)" and ?h = "notiflog_handler log now"
  have "?e = nl_entries log ! (i - ?w)" using i by (simp add: es receipt_entries_def)
  then have "?e \<in> set (nl_entries log)" using i by (auto simp: es in_set_conv_nth intro!: exI [of _ "i - ?w"])
  then have "(log_cell ?e 9, OidValue (le_trap_oid ?e)) \<in> set (log_cells log)"
    unfolding log_cells_def set_concat set_map by (intro UN_I [of "entry_cells ?e"] imageI) (simp_all add: entry_cells_def)
  then have "fn_cells ?h (log_cell ?e 9) = Some (OidValue (le_trap_oid ?e))"
    using d by (simp add: fn_cells_def notiflog_handler_def fn_new_def fresh_cells_def)
  moreover have "fn_ok ?h" using d by (simp add: fn_ok_def notiflog_handler_def fn_new_def)
  ultimately have "fst (run_state (fn_get (log_cell ?e 9)) ?h) = Some (OidValue (le_trap_oid ?e))"
    using fn_snapshot_run [of ?h] by (auto simp: fn_get_def search_cells_eq split: prod.splits)
  moreover have "log_cell ?e 9 = Oid (as_slice NLM_LOG_ENTRY @ [9, word_of_nat (Suc i)])" "le_trap_oid ?e = fst (snd (rs ! i))"
    by (auto simp: log_cell_def receipt_entry_def split: prod.split)
  ultimately show "fst (run_state (fn_get (Oid (as_slice NLM_LOG_ENTRY @ [9, word_of_nat (Suc i)]))) ?h) =
      Some (OidValue (fst (snd (rs ! i))))" by simp
qed

theorem notification_log_window_witness:
  "fst (run_state (fn_get (Oid [1, 3, 6, 1, 2, 1, 92, 1, 3, 1, 1, 9, 2]))
     (notiflog_handler (log_all [((0, 0), Oid [1, 1], [], ''p''), ((7, 0), Oid [1, 2], [], ''p'')] (notification_log_new 1 0)) 9)) =
     Some (OidValue (Oid [1, 2]))"
proof -
  let ?rs = "[((0, 0), Oid [1, 1], [], ''p''), ((7, 0), Oid [1, 2], [], ''p'')]"
  from notification_log_window [of 1 _ ?rs 0 9, OF _ refl] have
    "fst (run_state (fn_get (Oid (as_slice NLM_LOG_ENTRY @ [9, word_of_nat (Suc 1)])))
       (notiflog_handler (log_all ?rs (notification_log_new 1 0)) 9)) = Some (OidValue (fst (snd (?rs ! 1))))"
    by (simp del: of_nat_Suc)
  then show ?thesis by (simp add: NLM_LOG_ENTRY_def)
qed

end
