(* ===== verification/Snmp_Trapd.thy ===== *)
theory Snmp_Trapd
  imports Snmp_Notiflog Snmp_Mib Snmp_Manager
begin

text \<open>
  The notification receiver behind \<^verbatim>\<open>snmptrapd\<close> (\<^verbatim>\<open>crates/netsnmp-agent/src/trap\<close>): the community and the
  SNMPv3 path (\<^verbatim>\<open>community.rs\<close>, \<^verbatim>\<open>secure.rs\<close>), the serve loop with its log and its sinks (\<^verbatim>\<open>mod.rs\<close>,
  \<^verbatim>\<open>sink.rs\<close>), and the format strings (\<^verbatim>\<open>format.rs\<close>).  What a sink hands to the operating system is an
  output of the model; the local time of the format is an argument.
\<close>

section \<open>Types\<close>

datatype notify_version = CommunityNotify | V3Notify

record received_notification =
  rn_version :: notify_version
  rn_security_name :: "string option"
  rn_confirmed :: bool
  rn_notification :: notification

record trap_disposition =
  tp_notification :: "received_notification option"
  tp_reply :: "u8 list option"

definition trap_nothing :: trap_disposition where
  "trap_nothing = \<lparr>tp_notification = None, tp_reply = None\<rparr>"

record handle_rule =
  hr_oid_prefix :: oid
  hr_command :: string

datatype receiver_sink =
    StdoutSink
  | FileSink string
  | HandleSink "handle_rule list"
  | ForwardSink "u8 list" string

record trap_receiver =
  tr_community :: "u8 list option"
  tr_engine_id :: "u8 list"
  tr_engine_boots :: u32
  tr_users :: "usm_user list"
  tr_format :: "string option"
  tr_sinks :: "receiver_sink list"
  tr_mib :: "mib_registry option"

definition trap_receiver_default :: trap_receiver where
  "trap_receiver_default =
     \<lparr>tr_community = Some (as_bytes ''public''), tr_engine_id = [0x80, 0x00, 0x1f, 0x88, 0x04, 114, 115, 116, 0x01],
      tr_engine_boots = 1, tr_users = [], tr_format = None, tr_sinks = [], tr_mib = None\<rparr>"

definition trap_user_named :: "trap_receiver \<Rightarrow> u8 list \<Rightarrow> usm_user option" where
  "trap_user_named rc name = map_of (rev (map (\<lambda>u. (as_bytes (u_name u), u)) (tr_users rc))) name"

definition trap_engine :: "trap_receiver \<Rightarrow> u32 \<Rightarrow> engine_params" where
  "trap_engine rc now =
     \<lparr>en_engine_id = tr_engine_id rc, en_engine_boots = tr_engine_boots rc, en_engine_time = now\<rparr>"

section \<open>Datagrams\<close>

definition trap_ack_pdu :: "pdu \<Rightarrow> pdu" where
  "trap_ack_pdu inform = (new_pdu Response (request_id inform))\<lparr>variables := variables inform\<rparr>"

definition v1_generic_trap_oid :: "v1_notification \<Rightarrow> oid" where
  "v1_generic_trap_oid v1 =
     (case v1_generic_trap_to_oid (v1_generic_trap v1) of
        Some o1 \<Rightarrow> o1
      | None \<Rightarrow> Oid (as_slice (v1_enterprise v1) @ [0, v1_specific_trap v1]))"

definition community_note :: "bool \<Rightarrow> notification \<Rightarrow> received_notification" where
  "community_note confirmed n =
     \<lparr>rn_version = CommunityNotify, rn_security_name = None, rn_confirmed = confirmed, rn_notification = n\<rparr>"

definition handle_v1_trap :: "message \<Rightarrow> (trap_disposition, snmp_error) result" where
  "handle_v1_trap msg =
     bind_result (parse_v1_trap (m_pdu msg)) (\<lambda>v1.
       Ok \<lparr>tp_notification = Some (community_note False
             \<lparr>nf_sys_uptime = v1_uptime v1, nf_trap_oid = v1_generic_trap_oid v1, nf_varbinds = v1_varbinds v1\<rparr>),
           tp_reply = None\<rparr>)"

definition trap_handle_community ::
  "('r) rasn_scheme \<Rightarrow> trap_receiver \<Rightarrow> u8 list \<Rightarrow> (trap_disposition, snmp_error) result" where
  "trap_handle_community R rc data =
     (case message_decode R data of
        Err _ \<Rightarrow> Ok trap_nothing
      | Ok msg \<Rightarrow>
          if tr_community rc \<noteq> None \<and> tr_community rc \<noteq> Some (m_community msg) then Ok trap_nothing
          else case ptype (m_pdu msg) of
            TrapV2 \<Rightarrow>
              bind_result (parse_notification (m_pdu msg)) (\<lambda>n.
                Ok \<lparr>tp_notification = Some (community_note False n), tp_reply = None\<rparr>)
          | Inform \<Rightarrow>
              bind_result (parse_notification (m_pdu msg)) (\<lambda>n.
              bind_result (message_encode R \<lparr>m_version = m_version msg, m_community = m_community msg,
                             m_pdu = trap_ack_pdu (m_pdu msg)\<rparr>) (\<lambda>reply.
                Ok \<lparr>tp_notification = Some (community_note True n), tp_reply = Some reply\<rparr>))
          | TrapV1 \<Rightarrow> handle_v1_trap msg
          | _ \<Rightarrow> Ok trap_nothing)"

text \<open>A report takes the next value of the counter of USM statistics.\<close>

definition trap_report ::
  "crypto \<Rightarrow> v3_rasn \<Rightarrow> u8 list \<Rightarrow> i32 \<Rightarrow> usm_user option \<Rightarrow> engine_params \<Rightarrow> usm_stat \<Rightarrow> i32 \<Rightarrow> u32
     \<Rightarrow> (trap_disposition, snmp_error) result \<times> u32" where
  "trap_report C R salt mid user engine stat rid st =
     (bind_result (build_report C R salt mid user engine stat (st + 1) rid) (\<lambda>report.
        Ok \<lparr>tp_notification = None, tp_reply = Some report\<rparr>), st + 1)"

definition v3_note :: "usm_user \<Rightarrow> bool \<Rightarrow> notification \<Rightarrow> received_notification" where
  "v3_note user confirmed n =
     \<lparr>rn_version = V3Notify, rn_security_name = Some (u_name user), rn_confirmed = confirmed, rn_notification = n\<rparr>"

definition trap_handle_v3 ::
  "crypto \<Rightarrow> v3_rasn \<Rightarrow> u8 list \<Rightarrow> u32 \<Rightarrow> trap_receiver \<Rightarrow> u8 list \<Rightarrow> header_data \<Rightarrow> usm_params \<Rightarrow> u32
     \<Rightarrow> (trap_disposition, snmp_error) result \<times> u32" where
  "trap_handle_v3 C R salt now rc data header usm st =
     (let engine = trap_engine rc now; mid = hd_msg_id header
      in if us_engine_id usm = [] then trap_report C R salt mid None engine UnknownEngineIDs 0 st
         else case trap_user_named rc (us_user_name usm) of
           None \<Rightarrow> trap_report C R salt mid None engine UnknownUserNames 0 st
         | Some user \<Rightarrow>
             (case v3_parse C R data (Some user) of
                Err (AuthFailure _) \<Rightarrow> (Ok trap_nothing, st)
              | Err (PrivFailure _) \<Rightarrow> trap_report C R salt mid (Some user) engine DecryptionErrors 0 st
              | Err _ \<Rightarrow> (Ok trap_nothing, st)
              | Ok msg \<Rightarrow>
                  (let p = sc_pdu (v3_scoped msg)
                   in case ptype p of
                        TrapV2 \<Rightarrow>
                          (bind_result (parse_notification p) (\<lambda>n.
                             Ok \<lparr>tp_notification = Some (v3_note user False n), tp_reply = None\<rparr>), st)
                      | Inform \<Rightarrow>
                          if has_auth (user_level user) \<and> \<not> in_window engine usm
                          then trap_report C R salt mid (Some user) engine NotInTimeWindows (request_id p) st
                          else
                            (bind_result (parse_notification p) (\<lambda>n.
                             bind_result (build_response C R salt mid user engine (en_engine_id engine) (trap_ack_pdu p)) (\<lambda>reply.
                               Ok \<lparr>tp_notification = Some (v3_note user True n), tp_reply = Some reply\<rparr>)), st)
                      | _ \<Rightarrow> (Ok trap_nothing, st))))"

definition trap_handle_datagram ::
  "crypto \<Rightarrow> v3_rasn \<Rightarrow> u8 list \<Rightarrow> u32 \<Rightarrow> trap_receiver \<Rightarrow> u8 list \<Rightarrow> u32
     \<Rightarrow> (trap_disposition, snmp_error) result \<times> u32" where
  "trap_handle_datagram C R salt now rc data st =
     (case peek_security R data of
        Ok (header, usm) \<Rightarrow> trap_handle_v3 C R salt now rc data header usm st
      | Err (UnsupportedVersion _) \<Rightarrow> (trap_handle_community R rc data, st)
      | Err _ \<Rightarrow> (Ok trap_nothing, st))"

section \<open>Rendering\<close>

text \<open>The local time: the text of one of its format specifiers, and its seconds since the epoch.\<close>

record local_time =
  lt_format :: "char \<Rightarrow> string"
  lt_timestamp :: int

definition format_uptime :: "notification \<Rightarrow> string" where
  "format_uptime n = ''Timeticks: ('' @ show_nat (unat (nf_sys_uptime n)) @ '')''"

definition format_varbinds :: "mib_registry \<Rightarrow> notification \<Rightarrow> string" where
  "format_varbinds mib n =
     join_with '', '' (map (\<lambda>vb. format_oid mib (vb_oid vb) @ '' = '' @ display_value (vb_value vb)) (nf_varbinds n))"

definition expand_spec :: "local_time \<Rightarrow> mib_registry \<Rightarrow> string \<Rightarrow> notification \<Rightarrow> char \<Rightarrow> string" where
  "expand_spec lt mib peer n c =
     (if c \<in> set ''YmdHMS'' then lt_format lt c
      else if c = CHR ''t'' then show_int (lt_timestamp lt)
      else if c = CHR ''T'' then format_uptime n
      else if c = CHR ''W'' then peer
      else if c = CHR ''v'' then format_varbinds mib n
      else if c = CHR ''N'' then format_oid mib (nf_trap_oid n)
      else if c = CHR ''q'' then display_oid (nf_trap_oid n)
      else if c = CHR ''%'' then ''%''
      else [CHR ''%'', c])"

fun format_loop :: "(char \<Rightarrow> string) \<Rightarrow> string \<Rightarrow> string" where
  "format_loop spec [] = []"
| "format_loop spec [c] = [c]"
| "format_loop spec (c # d # cs) =
     (if c \<noteq> CHR ''%'' then c # format_loop spec (d # cs) else spec d @ format_loop spec cs)"

definition format_notification :: "local_time \<Rightarrow> string \<Rightarrow> received_notification \<Rightarrow> mib_registry \<Rightarrow> string \<Rightarrow> string" where
  "format_notification lt fmt notif mib peer = format_loop (expand_spec lt mib peer (rn_notification notif)) fmt"

definition default_line :: "received_notification \<Rightarrow> mib_registry \<Rightarrow> string \<Rightarrow> string" where
  "default_line notif mib peer =
     (let kind = (if rn_confirmed notif then ''INFORM'' else ''TRAP'');
          security = (case rn_security_name notif of Some name \<Rightarrow> ''v3 user='' @ name | None \<Rightarrow> ''v1/v2c'');
          n = rn_notification notif
      in join_with '' | ''
           ([kind @ '' from '' @ peer @ '' ['' @ security @ '']'',
             ''sysUpTime.0 = Timeticks: ('' @ show_nat (unat (nf_sys_uptime n)) @ '')'',
             ''snmpTrapOID.0 = '' @ format_oid mib (nf_trap_oid n)] @
            map (\<lambda>vb. format_oid mib (vb_oid vb) @ '' = '' @ display_value (vb_value vb)) (nf_varbinds n)))"

definition render_line :: "local_time \<Rightarrow> string option \<Rightarrow> received_notification \<Rightarrow> mib_registry \<Rightarrow> string \<Rightarrow> string" where
  "render_line lt fmt notif mib peer =
     (case fmt of Some f \<Rightarrow> format_notification lt f notif mib peer | None \<Rightarrow> default_line notif mib peer)"

section \<open>Sinks and the serve loop\<close>

text \<open>
  What a sink asks of the operating system, in order, and the trap a forwarder sends.  A write that
  fails ends the requests of its sink; the error is logged and nothing else depends on it.
\<close>

datatype sink_effect =
    Printed string
  | Appended string "u8 list"
  | Spawned string string
  | Forwarded "u8 list" string notification

definition format_varbinds_plain :: "notification \<Rightarrow> string" where
  "format_varbinds_plain n =
     concat (map (\<lambda>vb. display_oid (vb_oid vb) @ '' = '' @ display_value (vb_value vb) @ [CHR 0x0A]) (nf_varbinds n))"

fun sink_log :: "string \<Rightarrow> received_notification \<Rightarrow> receiver_sink \<Rightarrow> sink_effect list" where
  "sink_log line notif StdoutSink = [Printed line]"
| "sink_log line notif (FileSink path) = [Appended path (as_bytes line), Appended path [10]]"
| "sink_log line notif (HandleSink rules) =
     map (\<lambda>r. Spawned (hr_command r) (format_varbinds_plain (rn_notification notif)))
       (filter (\<lambda>r. is_prefix_of (hr_oid_prefix r) (nf_trap_oid (rn_notification notif))) rules)"
| "sink_log line notif (ForwardSink community target) = [Forwarded community target (rn_notification notif)]"

record trapd_state =
  ts_stats :: u32
  ts_log :: "notification_log option"

text \<open>One datagram as the socket delivers it, with what the handler reads besides it.\<close>

record arrival =
  ar_data :: "u8 list"
  ar_peer :: string
  ar_salt :: "u8 list"
  ar_now :: u32
  ar_clock :: clock
  ar_local :: local_time

text \<open>What one datagram leads to: the notification given to the callback, the effects of the sinks, and the reply.\<close>

record trap_outcome =
  to_notification :: "received_notification option"
  to_effects :: "sink_effect list"
  to_reply :: "u8 list option"

definition trap_log :: "arrival \<Rightarrow> received_notification \<Rightarrow> notification_log \<Rightarrow> notification_log" where
  "trap_log ar note log =
     log_record (ar_clock ar) (nf_trap_oid (rn_notification note))
       (case rn_security_name note of Some name \<Rightarrow> as_bytes name | None \<Rightarrow> []) (ar_peer ar) log"

definition trap_serve_one ::
  "crypto \<Rightarrow> v3_rasn \<Rightarrow> trap_receiver \<Rightarrow> arrival \<Rightarrow> trapd_state \<Rightarrow> trap_outcome \<times> trapd_state" where
  "trap_serve_one C R rc ar st =
     (case trap_handle_datagram C R (ar_salt ar) (ar_now ar) rc (ar_data ar) (ts_stats st) of
        (Err _, n) \<Rightarrow> (\<lparr>to_notification = None, to_effects = [], to_reply = None\<rparr>, st\<lparr>ts_stats := n\<rparr>)
      | (Ok d, n) \<Rightarrow>
          (case tp_notification d of
             None \<Rightarrow> (\<lparr>to_notification = None, to_effects = [], to_reply = tp_reply d\<rparr>, st\<lparr>ts_stats := n\<rparr>)
           | Some note \<Rightarrow>
               (let mib = (case tr_mib rc of Some m \<Rightarrow> m | None \<Rightarrow> mib_new);
                    line = render_line (ar_local ar) (tr_format rc) note mib (ar_peer ar)
                in (\<lparr>to_notification = Some note, to_effects = concat (map (sink_log line note) (tr_sinks rc)),
                     to_reply = tp_reply d\<rparr>,
                    st\<lparr>ts_stats := n, ts_log := map_option (trap_log ar note) (ts_log st)\<rparr>))))"

fun trap_serve ::
  "crypto \<Rightarrow> v3_rasn \<Rightarrow> trap_receiver \<Rightarrow> arrival list \<Rightarrow> trapd_state \<Rightarrow> trap_outcome list \<times> trapd_state" where
  "trap_serve C R rc [] st = ([], st)"
| "trap_serve C R rc (ar # ars) st =
     (case trap_serve_one C R rc ar st of
        (out, st') \<Rightarrow> (case trap_serve C R rc ars st' of (outs, st'') \<Rightarrow> (out # outs, st'')))"

section \<open>From a session to the receiver\<close>

text \<open>
  A lossless link to a receiver: what is sent is handled, the notifications it surfaces are
  collected, and its reply is there to be received.
\<close>

type_synonym receiver_net = "(u32 \<times> received_notification list) \<times> u8 list option"

definition receiver_link ::
  "crypto \<Rightarrow> v3_rasn \<Rightarrow> u8 list \<Rightarrow> u32 \<Rightarrow> trap_receiver \<Rightarrow> receiver_net transport" where
  "receiver_link C R salt now rc =
     \<lparr>t_send = (\<lambda>b. State (\<lambda>((st, seen), q).
        case trap_handle_datagram C R salt now rc b st of
          (Ok d, st') \<Rightarrow>
            (Ok (), (st', seen @ (case tp_notification d of Some n \<Rightarrow> [n] | None \<Rightarrow> [])), tp_reply d)
        | (Err e, st') \<Rightarrow> (Ok (), (st', seen), None))),
      t_receive = State (\<lambda>(st, q). (case q of Some r \<Rightarrow> Received r | None \<Rightarrow> Elapsed, st, None)),
      t_now = (\<lambda>s. unat now), t_salt = State_Monad.return salt\<rparr>"

lemma oid_to_rasn_wire [simp]: "is_ok_result (oid_to_rasn R (wire_oid o1)) \<longleftrightarrow> is_ok_result (oid_to_rasn R o1)"
  by (auto simp: oid_to_rasn_def wire_oid_def Let_def)

lemma is_ok_bind [simp]: "is_ok_result (bind_result r (\<lambda>a. Ok (f a))) \<longleftrightarrow> is_ok_result r"
  by (cases r) simp_all

lemma sendable_wire: "sendable R vb \<Longrightarrow> sendable R (wire_varbind vb)"
proof -
  assume "sendable R vb"
  then have "is_ok_result (oid_to_rasn R (vb_oid vb))" "is_ok_result (to_var_bind_value R (vb_value vb))"
    by (cases "oid_to_rasn R (vb_oid vb)"; cases "to_var_bind_value R (vb_value vb)"; simp add: sendable_def varbind_to_rasn_def)+
  moreover from this(2) have "is_ok_result (to_var_bind_value R (wire_value (vb_value vb)))"
    using oid_to_rasn_wire [of R] by (cases "vb_value vb") (auto split: result.splits)
  ultimately show ?thesis
    using oid_to_rasn_wire [of R "vb_oid vb"]
    by (cases "oid_to_rasn R (wire_oid (vb_oid vb))"; cases "to_var_bind_value R (wire_value (vb_value vb))")
      (simp_all add: sendable_def varbind_to_rasn_def wire_varbind_def)
qed

text \<open>A notification as it arrives: with its OIDs as they are after the transport.\<close>

definition wire_notification :: "u32 \<Rightarrow> oid \<Rightarrow> varbind list \<Rightarrow> notification" where
  "wire_notification up o1 vbs = \<lparr>nf_sys_uptime = up, nf_trap_oid = wire_oid o1, nf_varbinds = map wire_varbind vbs\<rparr>"

definition notification_pdu :: "pdu_type \<Rightarrow> i32 \<Rightarrow> u32 \<Rightarrow> oid \<Rightarrow> varbind list \<Rightarrow> pdu" where
  "notification_pdu t rid up o1 vbs = (new_pdu t rid)\<lparr>variables := notification_head up o1 @ vbs\<rparr>"

lemma parse_wire_notification:
  "parse_notification (wire_pdu (notification_pdu t rid up o1 vbs)) = Ok (wire_notification up o1 vbs)"
  by (simp add: notification_pdu_def wire_pdu_def parse_notification_def notification_head_def new_varbind_def
      wire_varbind_def wire_notification_def new_pdu_def)

text \<open>What the receiver makes of an encoded community notification.\<close>

lemma receiver_community:
  assumes "link_codec R" and "tr_community rc \<in> {None, Some com}"
    and "list_all (sendable R) (notification_head up o1 @ vbs)" and "t = TrapV2 \<or> t = Inform"
  obtains b where "message_encode R \<lparr>m_version = v, m_community = com, m_pdu = notification_pdu t rid up o1 vbs\<rparr> = Ok b"
    "\<exists>reply. trap_handle_datagram C R salt now rc b st =
       (Ok \<lparr>tp_notification = Some (community_note (t = Inform) (wire_notification up o1 vbs)), tp_reply = reply\<rparr>, st) \<and>
       (t = Inform \<longrightarrow> (\<exists>raw. reply = Some raw \<and>
          message_decode R raw = Ok \<lparr>m_version = v, m_community = com,
            m_pdu = wire_pdu (trap_ack_pdu (wire_pdu (notification_pdu t rid up o1 vbs)))\<rparr>))"
proof -
  let ?p = "notification_pdu t rid up o1 vbs"
  have p: "ptype ?p = t" "v1_trap ?p = None" "error_status ?p = 0" "error_index ?p = 0" "variables ?p = notification_head up o1 @ vbs"
    by (simp_all add: notification_pdu_def new_pdu_def)
  have laws: "opaque_law R" "message_codec_laws R" using assms(1) by (simp_all add: link_codec_def)
  obtain b ver where b: "message_encode R \<lparr>m_version = v, m_community = com, m_pdu = ?p\<rparr> = Ok b"
      "peek_security R b = Err (UnsupportedVersion ver)"
    by (rule message_encodes [OF assms(1), of ?p v com]) (use p assms(3,4) in auto)
  have dec: "message_decode R b = Ok \<lparr>m_version = v, m_community = com, m_pdu = wire_pdu ?p\<rparr>"
    using message_encode_pdu [OF laws b(1) p(2)] .
  let ?ack = "trap_ack_pdu (wire_pdu ?p)"
  have "ptype ?ack = Response" "v1_trap ?ack = None" "error_status ?ack = 0" "error_index ?ack = 0"
    "list_all (sendable R) (variables ?ack)"
    using assms(3) sendable_wire by (auto simp: trap_ack_pdu_def new_pdu_def wire_pdu_def p list_all_iff)
  then obtain raw where raw: "message_encode R \<lparr>m_version = v, m_community = com, m_pdu = ?ack\<rparr> = Ok raw"
      "message_decode R raw = Ok \<lparr>m_version = v, m_community = com, m_pdu = wire_pdu ?ack\<rparr>"
    using message_encodes [OF assms(1), of ?ack v com] message_encode_pdu [OF laws] by (metis insertCI)
  have "ptype (wire_pdu ?p) = t" using p(1) by (simp add: wire_pdu_def)
  then have "\<exists>reply. trap_handle_datagram C R salt now rc b st =
       (Ok \<lparr>tp_notification = Some (community_note (t = Inform) (wire_notification up o1 vbs)), tp_reply = reply\<rparr>, st) \<and>
       (t = Inform \<longrightarrow> (\<exists>raw. reply = Some raw \<and> message_decode R raw = Ok \<lparr>m_version = v, m_community = com, m_pdu = wire_pdu ?ack\<rparr>))"
    using assms(2,4) b(2) dec raw parse_wire_notification [of t rid up o1 vbs]
    by (auto simp: trap_handle_datagram_def trap_handle_community_def)
  then show ?thesis using that b(1) by blast
qed

lemma build_notification_pdu:
  "t = TrapV2 \<or> t = Inform \<Longrightarrow> build_notification t rid up o1 vbs = Ok (notification_pdu t rid up o1 vbs)"
  by (auto simp: build_notification_def notification_pdu_def)

definition seen_notes :: "receiver_net client \<Rightarrow> received_notification list" where
  "seen_notes c = snd (fst (cl_net c))"

text \<open>C33: A trap that an SNMPv2c session sends surfaces at the receiver that accepts its community, exactly once and with the
  uptime, the trap OID and the varbinds as they travel on the wire (an OID of fewer than two arcs arrives padded).  An
  inform surfaces the same way, marked as confirmed, and the sender's call returns the
  acknowledgement: a response without error that repeats the varbinds.\<close>

theorem notification_delivery:
  assumes "link_codec R" and "tr_community rc \<in> {None, Some (cf_community cfg)}" and "cf_version cfg = V2c"
    and "list_all (sendable R) (notification_head up o1 @ vbs)"
  shows "(\<exists>c'. run_state (session_send_trap (receiver_link C R salt now rc) R seed cfg up o1 vbs) c = (Ok (), c') \<and>
       seen_notes c' = seen_notes c @ [community_note False (wire_notification up o1 vbs)]) \<and>
     (\<exists>r c'. run_state (session_send_inform (receiver_link C R salt now rc) R seed cfg up o1 vbs) c = (Ok r, c') \<and>
       seen_notes c' = seen_notes c @ [community_note True (wire_notification up o1 vbs)] \<and>
       ptype r = Response \<and> pdu_status r = NoError \<and>
       variables r = map (wire_varbind \<circ> wire_varbind) (notification_head up o1 @ vbs))"
proof
  let ?T = "receiver_link C R salt now rc"
  obtain rid c1 where rid: "run_state (next_request_id seed) c = (rid, c1)" and net: "cl_net c1 = cl_net c"
    by (auto simp: next_request_id_def Let_def)
  obtain st seen q where c: "cl_net c = ((st, seen), q)" by (metis prod.exhaust)
  show "\<exists>c'. run_state (session_send_trap ?T R seed cfg up o1 vbs) c = (Ok (), c') \<and>
       seen_notes c' = seen_notes c @ [community_note False (wire_notification up o1 vbs)]"
  proof (rule receiver_community [OF assms(1,2,4), of TrapV2 "cf_version cfg" rid C salt now st])
    fix b assume b: "message_encode R \<lparr>m_version = cf_version cfg, m_community = cf_community cfg,
        m_pdu = notification_pdu TrapV2 rid up o1 vbs\<rparr> = Ok b"
      and h: "\<exists>reply. trap_handle_datagram C R salt now rc b st =
        (Ok \<lparr>tp_notification = Some (community_note (TrapV2 = Inform) (wire_notification up o1 vbs)), tp_reply = reply\<rparr>, st) \<and>
        (TrapV2 = Inform \<longrightarrow> (\<exists>raw. reply = Some raw \<and> message_decode R raw = Ok \<lparr>m_version = cf_version cfg,
           m_community = cf_community cfg, m_pdu = wire_pdu (trap_ack_pdu (wire_pdu (notification_pdu TrapV2 rid up o1 vbs)))\<rparr>))"
    from h show ?thesis using b rid net c assms(3)
      by (auto simp: session_send_trap_def build_notification_pdu send_message_def receiver_link_def seen_notes_def)
  qed simp
  show "\<exists>r c'. run_state (session_send_inform ?T R seed cfg up o1 vbs) c = (Ok r, c') \<and>
       seen_notes c' = seen_notes c @ [community_note True (wire_notification up o1 vbs)] \<and>
       ptype r = Response \<and> pdu_status r = NoError \<and>
       variables r = map (wire_varbind \<circ> wire_varbind) (notification_head up o1 @ vbs)"
  proof (rule receiver_community [OF assms(1,2,4), of Inform "cf_version cfg" rid C salt now st])
    let ?ack = "wire_pdu (trap_ack_pdu (wire_pdu (notification_pdu Inform rid up o1 vbs)))"
    fix b assume b: "message_encode R \<lparr>m_version = cf_version cfg, m_community = cf_community cfg,
        m_pdu = notification_pdu Inform rid up o1 vbs\<rparr> = Ok b"
      and h: "\<exists>reply. trap_handle_datagram C R salt now rc b st =
        (Ok \<lparr>tp_notification = Some (community_note (Inform = Inform) (wire_notification up o1 vbs)), tp_reply = reply\<rparr>, st) \<and>
        (Inform = Inform \<longrightarrow> (\<exists>raw. reply = Some raw \<and> message_decode R raw = Ok \<lparr>m_version = cf_version cfg,
           m_community = cf_community cfg, m_pdu = ?ack\<rparr>))"
    have ack: "request_id ?ack = rid" "ptype ?ack = Response" "error_status ?ack = 0"
        "variables ?ack = map (wire_varbind \<circ> wire_varbind) (notification_head up o1 @ vbs)"
      by (simp_all add: wire_pdu_def trap_ack_pdu_def notification_pdu_def new_pdu_def)
    then have ok: "pdu_status ?ack = NoError" by (simp add: pdu_status_def status_from_code_def)
    have upd: "(notification_pdu Inform 0 up o1 vbs)\<lparr>request_id := rid\<rparr> = notification_pdu Inform rid up o1 vbs"
      by (simp add: notification_pdu_def new_pdu_def)
    from h obtain raw where "trap_handle_datagram C R salt now rc b st =
        (Ok \<lparr>tp_notification = Some (community_note True (wire_notification up o1 vbs)), tp_reply = Some raw\<rparr>, st)"
      "message_decode R raw = Ok \<lparr>m_version = cf_version cfg, m_community = cf_community cfg, m_pdu = ?ack\<rparr>" by auto
    then show ?thesis using b rid net c ack ok upd
      by (intro exI [of _ ?ack]) (auto simp: session_send_inform_def build_notification_pdu checked_request_def session_request_def
          check_status_def receiver_link_def seen_notes_def)
  qed simp
qed

theorem notification_delivery_witness:
  "\<exists>r c'. run_state (session_send_inform (receiver_link demo_crypto numbering_rasn [] 0 (trap_receiver_default\<lparr>tr_community := Some [112]\<rparr>))
       numbering_rasn 1 \<lparr>cf_version = V2c, cf_community = [112], cf_retries = 0\<rparr> 7 (Oid [1, 3, 6]) [])
       \<lparr>cl_request_id = 5, cl_net = ((0, []), None)\<rparr> = (Ok r, c') \<and>
     seen_notes c' = [community_note True \<lparr>nf_sys_uptime = 7, nf_trap_oid = Oid [1, 3, 6], nf_varbinds = []\<rparr>]"
proof -
  have "list_all (sendable numbering_rasn) (notification_head 7 (Oid [1, 3, 6]) @ [])"
    by (simp add: notification_head_def sendable_def varbind_to_rasn_def oid_to_rasn_def numbering_rasn_def new_varbind_def Let_def)
  from notification_delivery [OF numbering_link _ _ this,
      where cfg = "\<lparr>cf_version = V2c, cf_community = [112], cf_retries = 0\<rparr>"
        and rc = "trap_receiver_default\<lparr>tr_community := Some [112]\<rparr>" and C = demo_crypto and salt = "[]" and now = 0 and seed = 1
        and c = "\<lparr>cl_request_id = 5, cl_net = ((0, []), None)\<rparr>"]
  show ?thesis by (auto simp: seen_notes_def wire_notification_def wire_oid_def numeral_2_eq_2)
qed

section \<open>The user-based security model\<close>

lemma trap_v3_guard_core:
  assumes "trap_handle_v3 C R salt now rc data header usm st = (Ok d, st')" and "tp_notification d = Some n"
  shows "\<exists>user msg. trap_user_named rc (us_user_name usm) = Some user \<and> rn_security_name n = Some (u_name user) \<and>
     v3_parse C R data (Some user) = Ok msg \<and> parse_notification (sc_pdu (v3_scoped msg)) = Ok (rn_notification n) \<and>
     ptype (sc_pdu (v3_scoped msg)) = (if rn_confirmed n then Inform else TrapV2) \<and>
     (tp_reply d \<noteq> None \<longleftrightarrow> rn_confirmed n) \<and>
     (rn_confirmed n \<and> u_auth user \<noteq> None \<longrightarrow>
        us_engine_boots usm = tr_engine_boots rc \<and> \<bar>uint now - uint (us_engine_time usm)\<bar> \<le> 150)"
proof -
  obtain user msg where u: "trap_user_named rc (us_user_name usm) = Some user" "v3_parse C R data (Some user) = Ok msg"
      "us_engine_id usm \<noteq> []"
    using assms
    by (auto simp: trap_handle_v3_def trap_report_def trap_nothing_def Let_def
        split: if_splits option.splits result.splits snmp_error.splits)
  let ?p = "sc_pdu (v3_scoped msg)"
  from assms u have "ptype ?p = TrapV2 \<or> ptype ?p = Inform"
    by (auto simp: trap_handle_v3_def trap_nothing_def Let_def split: pdu_type.splits)
  then show ?thesis
  proof
    assume "ptype ?p = TrapV2"
    with assms u show ?thesis by (auto simp: trap_handle_v3_def v3_note_def Let_def)
  next
    assume t: "ptype ?p = Inform"
    have win: "\<not> (has_auth (user_level user) \<and> \<not> in_window (trap_engine rc now) usm)"
      using assms u t by (auto simp: trap_handle_v3_def trap_report_def Let_def split: if_splits)
    with assms u t show ?thesis
      by (auto simp: trap_handle_v3_def v3_note_def has_auth_user in_window_def trap_engine_def TIME_WINDOW_SECS_def Let_def)
  qed
qed

text \<open>C34: An SNMPv3 notification surfaces only under the name of a configured user under whose keys the message parses,
  with the payload of that message; it is acknowledged exactly when it was an inform, and an inform
  of a user with an authentication protocol surfaces only with the receiver's boot count and an
  engine time at most 150 seconds off.\<close>

theorem trap_v3_guard:
  assumes "trap_handle_v3 C R salt now rc data header usm st = (Ok d, st')" and "tp_notification d = Some n"
  shows "\<exists>user msg. trap_user_named rc (us_user_name usm) = Some user \<and> rn_security_name n = Some (u_name user) \<and>
     v3_parse C R data (Some user) = Ok msg \<and> parse_notification (sc_pdu (v3_scoped msg)) = Ok (rn_notification n) \<and>
     ptype (sc_pdu (v3_scoped msg)) = (if rn_confirmed n then Inform else TrapV2) \<and>
     (tp_reply d \<noteq> None \<longleftrightarrow> rn_confirmed n) \<and>
     (rn_confirmed n \<and> u_auth user \<noteq> None \<longrightarrow>
        us_engine_boots usm = tr_engine_boots rc \<and> \<bar>uint now - uint (us_engine_time usm)\<bar> \<le> 150)"
  using assms by (rule trap_v3_guard_core)

definition demo_trap_codec :: v3_rasn where
  "demo_trap_codec = demo_v3\<lparr>r_dec_scoped := (\<lambda>b. Ok \<lparr>rs_engine_id = [9], rs_name = [],
     rs_data = PTrap \<lparr>rp_request_id = 5, rp_error_status = 0, rp_error_index = 0,
       rp_bindings = [\<lparr>rv_name = [1, 3], rv_value = VValue (ATicks 7)\<rparr>, \<lparr>rv_name = [1, 3], rv_value = VValue (SObjectId [1, 3, 6])\<rparr>]\<rparr>\<rparr>)\<rparr>"

definition demo_receiver :: trap_receiver where
  "demo_receiver = trap_receiver_default\<lparr>tr_users := [demo_user]\<rparr>"

lemma demo_trap_parses:
  "v3_parse demo_crypto demo_trap_codec [12] (Some demo_user) = Ok
     \<lparr>v3_header = demo_header, v3_usm = demo_forged, v3_scoped = \<lparr>sc_engine_id = [9], sc_context_name = [],
       sc_pdu = (new_pdu TrapV2 5)\<lparr>variables := [new_varbind (Oid [1, 3]) (TimeTicks 7), new_varbind (Oid [1, 3]) (OidValue (Oid [1, 3, 6]))]\<rparr>\<rparr>\<rparr>"
  by (simp add: v3_parse_def demo_trap_codec_def demo_v3_def demo_table_defs scoped_decode_ber_def pdu_from_rasn_def
      varbind_from_rasn_def oid_from_rasn_def int_to_i64_def VERSION_V3_def header_from_rasn_def int_as_i32_def
      usm_decode_ber_def usm_from_rasn_def int_to_u32_def FLAG_AUTH_def FLAG_PRIV_def demo_header_def demo_forged_def new_pdu_def
      new_varbind_def)

lemma demo_trap_surfaces:
  "trap_handle_v3 demo_crypto demo_trap_codec [] now demo_receiver [12] demo_header demo_forged 0 =
     (Ok \<lparr>tp_notification = Some (v3_note demo_user False \<lparr>nf_sys_uptime = 7, nf_trap_oid = Oid [1, 3, 6], nf_varbinds = []\<rparr>),
          tp_reply = None\<rparr>, 0)"
proof -
  have "trap_user_named demo_receiver [117] = Some demo_user"
    by (simp add: trap_user_named_def demo_receiver_def demo_user_def usm_auth_def as_bytes_def byte_of_char_def)
  then show ?thesis
    using demo_trap_parses
    by (simp add: trap_handle_v3_def demo_forged_def new_pdu_def new_varbind_def parse_notification_def Let_def)
qed

theorem trap_v3_guard_witness:
  "\<exists>user. trap_user_named demo_receiver [117] = Some user \<and> u_name user = ''u''"
proof -
  obtain user where "trap_user_named demo_receiver (us_user_name demo_forged) = Some user" "Some (u_name demo_user) = Some (u_name user)"
    using trap_v3_guard [OF demo_trap_surfaces [of 0]] by (auto simp: v3_note_def)
  then show ?thesis by (auto simp: demo_forged_def demo_user_def usm_auth_def)
qed

text \<open>
  A trap is not bound to a time: one that surfaced once surfaces again whenever its datagram is
  sent again, also after the receiver has restarted.
\<close>

lemma replayed_trap_surfaces:
  assumes "trap_handle_v3 C R salt now rc data header usm st = (Ok d, st1)" and "tp_notification d = Some n" and "\<not> rn_confirmed n"
  shows "trap_handle_v3 C R salt' now' (rc\<lparr>tr_engine_boots := boots'\<rparr>) data header usm st' = (Ok d, st')"
proof -
  obtain user msg where u: "trap_user_named rc (us_user_name usm) = Some user" "v3_parse C R data (Some user) = Ok msg"
      "parse_notification (sc_pdu (v3_scoped msg)) = Ok (rn_notification n)" "ptype (sc_pdu (v3_scoped msg)) = TrapV2"
    using trap_v3_guard_core [OF assms(1,2)] assms(3) by auto
  moreover have "us_engine_id usm \<noteq> []" using assms(1,2) by (auto simp: trap_handle_v3_def trap_report_def Let_def split: if_splits)
  moreover have "trap_user_named (rc\<lparr>tr_engine_boots := boots'\<rparr>) = trap_user_named rc" by (simp add: trap_user_named_def fun_eq_iff)
  ultimately show ?thesis using assms(1) by (auto simp: trap_handle_v3_def Let_def)
qed

section \<open>What the serve loop records\<close>

text \<open>The receipts of the surfaced notifications, in the order of their arrival.\<close>

definition served_receipts :: "arrival list \<Rightarrow> trap_outcome list \<Rightarrow> receipt list" where
  "served_receipts ars outs =
     List.map_filter (\<lambda>(ar, out). map_option (\<lambda>note. (ar_clock ar, nf_trap_oid (rn_notification note),
       (case rn_security_name note of Some name \<Rightarrow> as_bytes name | None \<Rightarrow> []), ar_peer ar)) (to_notification out)) (zip ars outs)"

lemma served_log:
  "trap_serve C R rc ars st = (outs, st') \<Longrightarrow> ts_log st' = map_option (log_all (served_receipts ars outs)) (ts_log st)"
proof (induction ars arbitrary: st outs)
  case Nil
  then show ?case by (cases "ts_log st") (auto simp: served_receipts_def log_all_def List.map_filter_simps)
next
  case (Cons ar ars)
  obtain out st1 outs' where one: "trap_serve_one C R rc ar st = (out, st1)" "trap_serve C R rc ars st1 = (outs', st')"
      "outs = out # outs'"
    using Cons.prems by (auto split: prod.splits)
  have "ts_log st1 = (case to_notification out of None \<Rightarrow> ts_log st | Some note \<Rightarrow> map_option (trap_log ar note) (ts_log st))"
    using one(1) by (auto simp: trap_serve_one_def Let_def split: prod.splits result.splits option.splits)
  then show ?case using Cons.IH [OF one(2)] one(3)
    by (cases "ts_log st"; cases "to_notification out")
      (simp_all add: served_receipts_def List.map_filter_simps log_all_def trap_log_def)
qed

section \<open>Format strings\<close>

text \<open>A format string as its parts: literal characters and specifiers.\<close>

datatype format_part = Literal char | Spec char

fun part_text :: "format_part \<Rightarrow> string" where
  "part_text (Literal c) = [c]"
| "part_text (Spec c) = [CHR ''%'', c]"

fun part_value :: "(char \<Rightarrow> string) \<Rightarrow> format_part \<Rightarrow> string" where
  "part_value spec (Literal c) = [c]"
| "part_value spec (Spec c) = spec c"

lemma format_loop_parts:
  assumes "Literal CHR ''%'' \<notin> set ps"
  shows "format_loop spec (concat (map part_text ps)) = concat (map (part_value spec) ps)"
  using assms
proof (induction ps)
  case (Cons p ps)
  have lit: "c \<noteq> CHR ''%'' \<Longrightarrow> format_loop spec (c # s) = c # format_loop spec s" for c s by (cases s) auto
  have IH: "format_loop spec (concat (map part_text ps)) = concat (map (part_value spec) ps)" using Cons by simp
  show ?case
  proof (cases p)
    case (Literal c)
    then have "c \<noteq> CHR ''%''" using Cons.prems by auto
    then show ?thesis by (simp add: Literal lit IH)
  qed (simp add: IH)
qed simp

end
