(* ===== verification/Spec2Isabelle.thy ===== *)
theory Spec2Isabelle
  imports Snmp_Manager Snmpd Snmp_Persist Snmp_Notify Agentx_Subagent Disman_Event Disman_Schedule
    Disman_Expr Smux_Server Smi_Module Snmp_Trapd
begin

text \<open>
  \<^bold>\<open>The SNMP agent, manager and tools of net-snmp-rs\<close>

  The repository is a Rust implementation of the Net-SNMP tools.  This development models its core:
  the messages and their security, the management information base (MIB) behind the request
  processor, the access control in front of it, the AgentX and SMUX protocols that delegate parts of
  the MIB to subagents, the engines of the DISMAN MIBs that watch it, the manager's sessions, the
  notification originator and receiver, persistence, configuration, and the MIB compiler.

  \<^bold>\<open>Parts and theories.\<close>  Paths are below \<^verbatim>\<open>src/crates/netsnmp/src\<close> (N),
  \<^verbatim>\<open>src/crates/netsnmp-agent/src\<close> (A) and \<^verbatim>\<open>src/crates/netsnmp-apps/src\<close> (P).

    \<^item> \<open>Snmp_Prelude\<close>: the \<open>result\<close> type of fallible Rust functions, the machine integers, the
      collections of simplification rules and the lemmas on the state monad.  \<open>Snmp_Error\<close>: N\<^verbatim>\<open>/error.rs\<close>.
    \<^item> \<open>Rust_Slices\<close>, \<open>Rust_BTreeMap\<close>, \<open>Rust_Strings\<close>, \<open>Rust_Text\<close>, \<open>Rust_Bytes\<close>: what the sources use of the
      standard library: \<open>partition_point\<close>, \<open>min_by_key\<close>, ordered maps as sorted association lists,
      UTF-8, splitting, trimming, lines and paths, parsing and printing of numbers, byte orders.
    \<^item> \<open>Snmp_Oid\<close>, \<open>Snmp_Pdu\<close>: N\<^verbatim>\<open>/oid.rs\<close>, N\<^verbatim>\<open>/value.rs\<close>, N\<^verbatim>\<open>/pdu.rs\<close> and the version codes of
      N\<^verbatim>\<open>/message.rs\<close>.  \<open>oid\<close> is a \<open>linorder\<close> by the derived order of the Rust type.
    \<^item> \<open>Snmp_Wire\<close>, \<open>Snmp_Trap\<close>: N\<^verbatim>\<open>/convert.rs\<close>, N\<^verbatim>\<open>/message.rs\<close> and N\<^verbatim>\<open>/trap.rs\<close>: messages and notifications as
      the structures the BER codec reads and writes.
    \<^item> \<open>Snmp_Usm\<close>, \<open>Snmp_V3\<close>: N\<^verbatim>\<open>/usm\<close> and N\<^verbatim>\<open>/v3\<close>: users, keys, and the building and parsing of SNMPv3 messages.
    \<^item> \<open>Snmp_Config\<close>, \<open>Snmp_Persist\<close>: N\<^verbatim>\<open>/config\<close> and A\<^verbatim>\<open>/persist.rs\<close>: configuration files with includes, and the
      store of saved values.
    \<^item> \<open>Snmp_Row\<close>: A\<^verbatim>\<open>/row.rs\<close>, the RowStatus state machine.
    \<^item> \<open>Snmp_Handler\<close>: A\<^verbatim>\<open>/handler.rs\<close>.  A handler is a record of state transformers; the locale
      \<open>served_cells\<close> is the contract a read-only client relies on: \<open>get\<close> reads a partial map from OIDs
      to values and \<open>get_next\<close> finds its least successor.  \<open>settable_cells\<close> adds the two-phase SET.
    \<^item> \<open>Snmp_Scalar\<close>, \<open>Snmp_Helpers\<close>, \<open>Snmp_Table\<close>: A\<^verbatim>\<open>/scalar.rs\<close> and A\<^verbatim>\<open>/helpers\<close>, the handlers
      themselves, each an interpretation of a contract.
    \<^item> \<open>Snmp_Vacm\<close>: A\<^verbatim>\<open>/vacm/mod.rs\<close>, the view-based access control model and its configuration
      directives.
    \<^item> \<open>Snmp_Registry\<close>: A\<^verbatim>\<open>/registry.rs\<close>, dispatch to handlers, GET, GETNEXT, GETBULK and SET with
      and without access control.
    \<^item> \<open>Snmp_Objects\<close>, \<open>Snmp_Walk\<close>: an agent whose handlers are the scalar, map and read-only ones;
      the registry refines a single map from OIDs to values, and repeated GETNEXT is a walk of it.
    \<^item> \<open>Snmp_Agent\<close>: A\<^verbatim>\<open>/agent.rs\<close>, what the agent does with a datagram, and the loop over a sequence of them.
    \<^item> \<open>Snmpd_Settings\<close>, \<open>Snmpd\<close>: P\<^verbatim>\<open>/settings.rs\<close>, P\<^verbatim>\<open>/addr.rs\<close>, P\<^verbatim>\<open>/usm.rs\<close>, P\<^verbatim>\<open>/bin/snmpd.rs\<close>: the agent that a
      command line and a configuration file describe.
    \<^item> \<open>Snmp_Session\<close>, \<open>Snmp_Manager\<close>: N\<^verbatim>\<open>/session\<close>, the manager's calls over a transport, and the composition of
      a session with the agent.
    \<^item> \<open>Snmp_Notify\<close>, \<open>Snmp_Trapd\<close>, \<open>Snmp_Notiflog\<close>: A\<^verbatim>\<open>/notify/mod.rs\<close> and A\<^verbatim>\<open>/trap\<close>: who is notified and how, and the
      receiver with its log, its format strings and its sinks.
    \<^item> \<open>Step_Systems\<close>: invariants of step relations, as the locale \<open>step_invariant\<close>.
    \<^item> \<open>Agentx_Wire\<close>, \<open>Agentx_Pdu\<close>: A\<^verbatim>\<open>/agentx/protocol.rs\<close>, the packets of AgentX and their bytes (the locale
      \<open>remaining_codec\<close>).
    \<^item> \<open>Agentx_Master\<close>, \<open>Agentx_Subagent\<close>: A\<^verbatim>\<open>/agentx/master.rs\<close> and A\<^verbatim>\<open>/agentx/subagent.rs\<close>.  The
      master is a step relation \<open>ax_step\<close>: connections, packets read, failed reads and writes,
      forwarded requests and their timeouts interleave in any order.
    \<^item> \<open>Snmp_Alarm\<close>: N\<^verbatim>\<open>/alarm.rs\<close>; the wake-up of a timer task is an operation.
    \<^item> \<open>Disman_Tables\<close>, \<open>Disman_Event\<close>, \<open>Disman_Schedule\<close>, \<open>Disman_Expr\<close>: A\<^verbatim>\<open>/disman\<close>: the tables the
      three engines serve (locale \<open>row_table\<close>, a sublocale of \<open>served_cells\<close>), the triggers and the poll
      cycle, the scheduler over the alarm registry, and the expression evaluator.  A call of the scheduler
      is the sequence of its critical sections (\<open>sched_op\<close>, \<open>sched_exec\<close>), and a run (\<open>sched_run\<close>) interleaves
      the sections of overlapping calls and the ticks of alarms freely; \<open>add_entry\<close>, \<open>spawn_alarm\<close> and the
      other whole calls are such runs of one call alone (\<open>serial_is_a_run\<close>).
    \<^item> \<open>Smux_Ber\<close>, \<open>Smux_Pdu\<close>, \<open>Smux_Server\<close>: A\<^verbatim>\<open>/smux.rs\<close> and A\<^verbatim>\<open>/mibgroup/smux_mib.rs\<close>: the BER subset, the
      packets, and the server with the reader and the loop of every connection as interleaved steps.
    \<^item> \<open>Smi_Lex\<close>, \<open>Smi_Parse\<close>, \<open>Smi_Resolve\<close>, \<open>Snmp_Mib\<close>, \<open>Smi_Module\<close>: N\<^verbatim>\<open>/smi\<close> and N\<^verbatim>\<open>/mib.rs\<close>: the scanner and the
      parsers of MIB texts, the two resolvers of names, the registry of names and definitions, and
      the loading of whole modules.

  \<^bold>\<open>State and effects.\<close>  Locks disappear: an operation of the sources that runs under a lock is a
  function on the state, and what runs between two of them is a step.  Hash maps are association
  lists whose order means nothing, or functions; statements hold for every order.  Panics are values
  (\<open>None\<close> of an option around the result) where the sources can panic, and so is a recursion that does not
  end.  Log lines are not modelled; what is handed to the network or the operating system is an
  output or a call of a parameter.

  \<^bold>\<open>What is shown.\<close>
    \<^item> Requests: each PDU type against a specification over the map of readable objects, all error
      branches included; an accepted SET is the update of that map and a refused one changes nothing;
      a manager's walk through session, messages, agent and access control returns exactly the readable
      objects in order and ends.
    \<^item> Access control: the check agrees with its declarative form, an empty VACM is permissive, a
      SET outside the write view reaches no handler, configuration keeps the tables well formed, and an
      agent configured with access tables but without lines that grant write refuses every SET.
    \<^item> Messages: what is encoded is decoded back; an authenticated SNMPv3 exchange succeeds, and a message
      reaches the handlers only under the agent's engine id, a configured user and the time window.
    \<^item> Writable tables: the RowStatus table, the invariant of rows, the effect of every SET.
    \<^item> AgentX: packets survive the wire in both byte orders, a stream is cut into its packets, the
      owner of an OID is an open session, a response reaches only the forwarder that waits for it, and
      a forwarded request has the result of the subagent's handler.
    \<^item> DISMAN: triggers fire exactly on crossings, polls keep the tables, a removed entry of the
      scheduler is not fired by any later tick however its calls interleave, expressions follow the grammar and their evaluation ends.
    \<^item> SMUX: packets survive the wire where the codec allows it, and the peer that answers for an OID was
      authorised for it by a connection that runs or failed in a write.
    \<^item> Notifications: a trap or an inform of a session surfaces once at the receiver with the varbinds of the wire, informs are
      acknowledged, the log is the window of the latest ones, and its dates are those of the calendar.
    \<^item> Persistence and configuration: a saved store is read back in its persisted form, a save is atomic, and the agent that runs is
      the one the command line and the files describe.
    \<^item> MIBs: a loaded module binds each name to the OID its definitions derive in whatever order they are
      written, printing and reading of OIDs are inverse, and values are accepted exactly by their declared syntax.
    \<^item> Theorems of kind \<open>error\<close> pin down where the code differs from what its comments or the protocols promise.

  \<^bold>\<open>Fuel and partial functions.\<close>  Three loops run on fuel.  The GETNEXT loop over inaccessible objects (\<open>accessible_loop\<close>)
  gets more fuel than there are objects, since every round moves to a greater OID; \<open>get_next_request_spec\<close>
  contains that it then returns.  The walk of a session gets more than there are objects below the
  root (\<open>session_walk_complete\<close>).  The expression parser gets \<open>parse_fuel\<close>, four calls for each
  token and three more; \<open>parser_returns\<close> shows that this is never exhausted.  \<open>resolve_inline\<close> and
  \<open>effective_syntax\<close> follow names that may lead in a circle and are partial: \<open>load_module\<close> and
  \<open>validate_value_typed\<close> say when they return, \<open>validate_value_typed\<close> and \<open>circular_module_hangs\<close> when they do not.

  \<^bold>\<open>Parameters.\<close>  The BER codec of the rasn crates (the records \<open>rasn\<close> and \<open>v3_rasn\<close>, with the laws \<open>message_codec_laws\<close>,
  \<open>v3_codec_laws\<close> and \<open>link_codec\<close>: decoding inverts encoding, messages whose PDU converts are encoded, and the version
  of a message reads back), the hash functions and ciphers (\<open>crypto\<close>, \<open>crypto_laws\<close>), the arithmetic of \<open>f64\<close>
  (\<open>num_ops\<close>), transports, the file system and the environment, clocks and random salts, the data
  behind function and table handlers, and the handler of a subagent are arguments of the
  definitions.

  \<^bold>\<open>Not modelled.\<close>  The transports themselves (UDP, TCP, Unix sockets, TLS and DTLS) and the transport security
  model, ping, traceroute and lookup, which run system commands, the hardware readers and the MIB
  groups that print their readings through the modelled handlers, the default store, and the
  front ends other than \<^verbatim>\<open>snmpd\<close>, which print what the library returns.
\<close>

end
